(* ===== verification/Fluxora_Prelude.thy ===== *)
theory Fluxora_Prelude
  imports Complex_Main "HOL-Library.AList" "HOL-Library.Code_Target_Numeral"
begin

text \<open>
  Shared vocabulary of the development: the part of the JavaScript language and of its
  standard library that the modelled files use, and the generic lemmas the component
  theories share.

  \<^item> A JavaScript value whose type the source only learns at run time (\<open>unknown\<close>) is a
    \<open>jsval\<close>. Timestamps, counters and status codes, which the source keeps as integral
    \<open>number\<close>s, are \<open>int\<close> (the values are far below \<open>2 ^ 53\<close>, where a double is exact);
    a \<open>number\<close> that need not be integral is a \<open>rat\<close>.
  \<^item> A string is a list of code units below 256.
  \<^item> A \<open>Map\<close> is an association list with distinct keys, in insertion order, because the
    source iterates over \<open>Map\<close>s; \<open>set\<close> on a present key keeps its position and
    appends otherwise, which is \<open>AList.update\<close>.
  \<^item> \<open>a ?? b\<close> is \<open>nullish a b\<close>.
  \<^item> The locale \<open>op_invariant\<close> lifts "every operation keeps the invariant" to sequences of
    operations; each stateful component interprets it on its own step function.
\<close>

named_theorems num_facts \<open>facts on decimal digits used by the numeric components\<close>
named_theorems store_simps \<open>equations of the in-memory stores' operations\<close>

section \<open>JavaScript values\<close>

datatype jsnum = NaN | Infinity bool | Finite rat

datatype jsval =
    JUndefined
  | JNull
  | JBool bool
  | JNumber jsnum
  | JBigInt int
  | JString string
  | JArray "jsval list"
  | JObject "(string \<times> jsval) list"

type_synonym millis = int

definition nullish :: "'a option \<Rightarrow> 'a \<Rightarrow> 'a" where
  "nullish x d = (case x of None \<Rightarrow> d | Some v \<Rightarrow> v)"

lemma nullish_simps [simp]: "nullish None d = d" "nullish (Some v) d = v"
  by (simp_all add: nullish_def)

text \<open>A configuration number used as a condition: absent and \<open>0\<close> are both falsy.\<close>

definition truthy_num :: "int option \<Rightarrow> bool" where
  "truthy_num x = (case x of None \<Rightarrow> False | Some v \<Rightarrow> v \<noteq> 0)"

lemma truthy_num_simps [simp]: "\<not> truthy_num None" "truthy_num (Some v) \<longleftrightarrow> v \<noteq> 0"
  by (simp_all add: truthy_num_def)

section \<open>Strings\<close>

definition is_digit :: "char \<Rightarrow> bool" where
  "is_digit c \<longleftrightarrow> 48 \<le> (of_char c :: nat) \<and> (of_char c :: nat) \<le> 57"

definition digit_char :: "nat \<Rightarrow> char" where
  "digit_char d = char_of (48 + d)"

definition digit_val :: "char \<Rightarrow> nat" where
  "digit_val c = of_char c - 48"

text \<open>White space removed by \<open>String.prototype.trim\<close>, among the code units below 256.\<close>

definition is_space :: "char \<Rightarrow> bool" where
  "is_space c \<longleftrightarrow> (of_char c :: nat) \<in> {9, 10, 11, 12, 13, 32, 160}"

definition js_trim :: "string \<Rightarrow> string" where
  "js_trim s = rev (dropWhile is_space (rev (dropWhile is_space s)))"

text \<open>\<open>s.indexOf(c)\<close>, with \<open>None\<close> for \<open>-1\<close>.\<close>

fun index_of :: "char \<Rightarrow> string \<Rightarrow> nat option" where
  "index_of c [] = None"
| "index_of c (x # xs) = (if x = c then Some 0 else map_option Suc (index_of c xs))"

text \<open>\<open>s.split(c)\<close> for a one-character separator.\<close>

fun split_on :: "char \<Rightarrow> string \<Rightarrow> string list" where
  "split_on c [] = [[]]"
| "split_on c (x # xs) =
     (if x = c then [] # split_on c xs
      else case split_on c xs of [] \<Rightarrow> [[x]] | w # ws \<Rightarrow> (x # w) # ws)"

definition pad_end :: "nat \<Rightarrow> char \<Rightarrow> string \<Rightarrow> string" where
  "pad_end n c s = s @ replicate (n - length s) c"

definition pad_start :: "nat \<Rightarrow> char \<Rightarrow> string \<Rightarrow> string" where
  "pad_start n c s = replicate (n - length s) c @ s"

definition js_slice :: "nat \<Rightarrow> nat \<Rightarrow> 'a list \<Rightarrow> 'a list" where
  "js_slice b e s = take (e - b) (drop b s)"

text \<open>\<open>BigInt(s)\<close> on a string of digits, and \<open>n.toString()\<close> of a natural number.\<close>

definition digits_val :: "string \<Rightarrow> nat" where
  "digits_val s = foldl (\<lambda>a c. 10 * a + digit_val c) 0 s"

fun show_nat :: "nat \<Rightarrow> string" where
  "show_nat n = (if n < 10 then [digit_char n] else show_nat (n div 10) @ [digit_char (n mod 10)])"

declare show_nat.simps [simp del]

definition show_int :: "int \<Rightarrow> string" where
  "show_int i = (if i < 0 then ''-'' @ show_nat (nat (- i)) else show_nat (nat i))"

text \<open>The class \<open>[A-Za-z0-9]\<close>, and \<open>parseInt(s, 10)\<close> with \<open>None\<close> for \<open>NaN\<close>.\<close>

definition is_alnum :: "char \<Rightarrow> bool" where
  "is_alnum c \<longleftrightarrow> is_digit c \<or> (65 \<le> (of_char c :: nat) \<and> (of_char c :: nat) \<le> 90) \<or>
     (97 \<le> (of_char c :: nat) \<and> (of_char c :: nat) \<le> 122)"

definition js_parse_int :: "string \<Rightarrow> int option" where
  "js_parse_int s =
     (let t = dropWhile is_space s;
          neg = (t \<noteq> [] \<and> hd t = CHR ''-'');
          u = (if t \<noteq> [] \<and> (hd t = CHR ''-'' \<or> hd t = CHR ''+'') then tl t else t);
          ds = takeWhile is_digit u
      in if ds = [] then None else Some (if neg then - int (digits_val ds) else int (digits_val ds)))"

text \<open>\<open>parseInt(s, 10) || d\<close>: \<open>0\<close> and \<open>NaN\<close> give way to the default.\<close>

definition parse_int_or :: "string option \<Rightarrow> int \<Rightarrow> int" where
  "parse_int_or s d = (case js_parse_int (nullish s []) of None \<Rightarrow> d | Some n \<Rightarrow> if n = 0 then d else n)"

text \<open>\<open>n.toString(16)\<close>.\<close>

definition hex_digit :: "nat \<Rightarrow> char" where
  "hex_digit d = (if d < 10 then char_of (48 + d) else char_of (87 + d))"

fun show_hex_nat :: "nat \<Rightarrow> string" where
  "show_hex_nat n = (if n < 16 then [hex_digit n] else show_hex_nat (n div 16) @ [hex_digit (n mod 16)])"

declare show_hex_nat.simps [simp del]

text \<open>The process environment, \<open>a || d\<close> on strings, \<open>s.startsWith(p)\<close> and \<open>parts.join(sep)\<close>.\<close>

type_synonym env = "string \<Rightarrow> string option"

definition str_or :: "string option \<Rightarrow> string \<Rightarrow> string" where
  "str_or s d = (case s of None \<Rightarrow> d | Some v \<Rightarrow> if v = [] then d else v)"

definition starts_with :: "string \<Rightarrow> string \<Rightarrow> bool" where
  "starts_with p s \<longleftrightarrow> take (length p) s = p"

definition join :: "string \<Rightarrow> string list \<Rightarrow> string" where
  "join sep xs = (case xs of [] \<Rightarrow> [] | y # ys \<Rightarrow> y @ concat (map (\<lambda>z. sep @ z) ys))"

text \<open>The JSON text of a string, byte by byte of its UTF-8 form.\<close>

definition json_escape :: "char \<Rightarrow> string" where
  "json_escape c =
     (let n = of_char c :: nat; bs = CHR 0x5C
      in if n = 34 then [bs, c]
         else if n = 92 then [bs, c]
         else if n = 8 then [bs, CHR ''b'']
         else if n = 9 then [bs, CHR ''t'']
         else if n = 10 then [bs, CHR ''n'']
         else if n = 12 then [bs, CHR ''f'']
         else if n = 13 then [bs, CHR ''r'']
         else if n < 32 then bs # ''u00'' @ [hex_digit (n div 16), hex_digit (n mod 16)]
         else [c])"

definition json_string :: "string \<Rightarrow> string" where
  "json_string s = CHR 0x22 # concat (map json_escape s) @ [CHR 0x22]"

text \<open>\<open>JSON.stringify\<close> of an object with these members, in order; a member whose value is \<open>undefined\<close> is left out.\<close>

definition json_object :: "(string \<times> string option) list \<Rightarrow> string" where
  "json_object ms =
     ''{'' @ join '','' (concat (map (\<lambda>(k, v). case v of None \<Rightarrow> [] | Some t \<Rightarrow> [json_string k @ '':'' @ t]) ms)) @ ''}''"

definition json_array :: "string list \<Rightarrow> string" where
  "json_array ts = ''['' @ join '','' ts @ '']''"

text \<open>\<open>s.split(',').map(trim).filter(Boolean)\<close>: the non-empty trimmed entries of a comma-separated list.\<close>

definition comma_entries :: "string \<Rightarrow> string list" where
  "comma_entries s = filter (\<lambda>p. p \<noteq> []) (map js_trim (split_on (CHR '','') s))"

lemma show_int_nonneg: "0 \<le> i \<Longrightarrow> show_int i = show_nat (nat i)"
  by (simp add: show_int_def)

subsection \<open>Digit lemmas\<close>

lemma of_char_hex_digit: "d < 16 \<Longrightarrow> (of_char (hex_digit d) :: nat) = (if d < 10 then 48 + d else 87 + d)"
  by (simp add: hex_digit_def)

lemma hex_digit_inj:
  assumes "a < 16" "b < 16"
  shows "hex_digit a = hex_digit b \<longleftrightarrow> a = b"
proof
  assume "hex_digit a = hex_digit b"
  then have "(if a < 10 then 48 + a else 87 + a) = (if b < 10 then 48 + b else 87 + b)"
    using of_char_hex_digit [OF assms(1)] of_char_hex_digit [OF assms(2)] by simp
  then show "a = b" by (simp split: if_splits)
qed simp

lemma hex_digit_no_colon: "d < 16 \<Longrightarrow> CHR '':'' \<noteq> hex_digit d"
proof
  assume d: "d < 16" and "CHR '':'' = hex_digit d"
  then have "(58 :: nat) = of_char (hex_digit d)" by (simp flip: \<open>CHR '':'' = hex_digit d\<close>)
  then show False using d by (simp add: of_char_hex_digit split: if_splits)
qed

lemma is_digit_digit_char [num_facts]: "d < 10 \<Longrightarrow> is_digit (digit_char d)"
  by (simp add: is_digit_def digit_char_def)

lemma digit_val_digit_char [num_facts]: "d < 10 \<Longrightarrow> digit_val (digit_char d) = d"
  by (simp add: digit_val_def digit_char_def)

lemma digit_char_zero [simp]: "digit_char 0 = CHR ''0''"
proof -
  have "(of_char (digit_char 0) :: nat) = of_char (CHR ''0'')" by (simp add: digit_char_def)
  then show ?thesis by (simp only: of_char_eq_iff)
qed

lemma digit_val_zero [simp]: "digit_val (CHR ''0'') = 0"
  by (simp add: digit_val_def)

lemma is_digit_zero [simp]: "is_digit (CHR ''0'')"
  by (simp add: is_digit_def)

lemma digit_val_eq_0: "is_digit c \<Longrightarrow> digit_val c = 0 \<longleftrightarrow> c = CHR ''0''"
proof
  assume d: "is_digit c" and z: "digit_val c = 0"
  then have "(of_char c :: nat) = 48" by (simp add: is_digit_def digit_val_def)
  then have "of_char c = (of_char (CHR ''0'') :: nat)" by simp
  then show "c = CHR ''0''" by (simp only: of_char_eq_iff)
qed simp

lemma digit_val_less: "is_digit c \<Longrightarrow> digit_val c < 10"
  unfolding is_digit_def digit_val_def by linarith

lemma digits_val_Nil [simp]: "digits_val [] = 0"
  by (simp add: digits_val_def)

lemma foldl_digits: "foldl (\<lambda>a c. 10 * a + digit_val c) a s = a * 10 ^ length s + digits_val s"
proof (induction s arbitrary: a)
  case (Cons c s)
  show ?case
    using Cons.IH [of "10 * a + digit_val c"] Cons.IH [of "digit_val c"]
    by (simp add: digits_val_def algebra_simps)
qed simp

lemma digits_val_Cons: "digits_val (c # s) = digit_val c * 10 ^ length s + digits_val s"
  using foldl_digits [of "digit_val c" s] by (simp add: digits_val_def)

lemma digits_val_append: "digits_val (s @ t) = digits_val s * 10 ^ length t + digits_val t"
  using foldl_digits [of "digits_val s" t] by (simp add: digits_val_def)

lemma digits_val_zeros [simp]: "digits_val (replicate n (CHR ''0'')) = 0"
  by (induction n) (simp_all add: digits_val_Cons)

lemma digits_val_less: "list_all is_digit s \<Longrightarrow> digits_val s < 10 ^ length s"
proof (induction s)
  case (Cons c s)
  then have "digit_val c \<le> 9" "digits_val s < 10 ^ length s"
    using digit_val_less [of c] by auto
  then have "digit_val c * 10 ^ length s + digits_val s < 9 * 10 ^ length s + 10 ^ length s"
    by (intro add_le_less_mono mult_right_mono) auto
  then show ?case by (simp add: digits_val_Cons)
qed simp

lemma digits_val_eq_0:
  "list_all is_digit s \<Longrightarrow> digits_val s = 0 \<longleftrightarrow> list_all (\<lambda>c. c = CHR ''0'') s"
  by (induction s) (auto simp: digits_val_Cons digit_val_eq_0)

lemma show_nat_digits: "list_all is_digit (show_nat n)"
proof (induction n rule: show_nat.induct)
  case (1 n)
  then show ?case
    by (cases "n < 10") (simp_all add: show_nat.simps [of n] is_digit_digit_char)
qed

lemma show_nat_nonempty [simp]: "show_nat n \<noteq> []"
  by (simp add: show_nat.simps [of n])

lemma digits_val_show_nat [simp]: "digits_val (show_nat n) = n"
proof (induction n rule: show_nat.induct)
  case (1 n)
  show ?case
  proof (cases "n < 10")
    case True
    then show ?thesis
      by (simp add: show_nat.simps [of n] digits_val_Cons digit_val_digit_char)
  next
    case False
    then have "digits_val (show_nat n) = (n div 10) * 10 + n mod 10"
      using "1.IH" by (simp add: show_nat.simps [of n] digits_val_append digits_val_Cons
          digit_val_digit_char)
    then show ?thesis by simp
  qed
qed

lemma digit_not_space: "is_digit c \<Longrightarrow> \<not> is_space c"
  by (auto simp: is_digit_def is_space_def)

lemma dropWhile_digits: "list_all is_digit s \<Longrightarrow> dropWhile is_space s = s"
  by (cases s) (simp_all add: digit_not_space)

lemma js_trim_digits: "list_all is_digit s \<Longrightarrow> js_trim s = s"
  by (simp add: js_trim_def dropWhile_digits list_all_iff)

lemma show_nat_not_sign: "hd (show_nat n) \<noteq> CHR ''-''" "hd (show_nat n) \<noteq> CHR ''+''"
proof -
  have "is_digit (hd (show_nat n))" using show_nat_digits [of n] by (simp add: list_all_iff)
  then show "hd (show_nat n) \<noteq> CHR ''-''" "hd (show_nat n) \<noteq> CHR ''+''" by (auto simp: is_digit_def)
qed

text \<open>Reading back a printed natural number.\<close>

lemma parse_show_nat: "js_parse_int (show_nat n) = Some (int n)"
proof -
  have "takeWhile is_digit (show_nat n) = show_nat n" using show_nat_digits [of n] by (simp add: list_all_iff)
  then show ?thesis
    by (simp add: js_parse_int_def Let_def dropWhile_digits show_nat_digits show_nat_not_sign del: takeWhile_eq_all_conv)
qed

lemma show_nat_length_le: "n < 10 ^ k \<Longrightarrow> 0 < k \<Longrightarrow> length (show_nat n) \<le> k"
proof (induction n arbitrary: k rule: show_nat.induct)
  case (1 n)
  show ?case
  proof (cases "n < 10")
    case True
    with "1.prems" show ?thesis by (simp add: show_nat.simps [of n])
  next
    case False
    with "1.prems" obtain j where j: "k = Suc j" "0 < j"
      by (cases k; cases "k - 1") auto
    with "1.prems" have "n div 10 < 10 ^ j" by (simp add: less_mult_imp_div_less mult.commute)
    with False j "1.IH" [of j] show ?thesis by (simp add: show_nat.simps [of n])
  qed
qed

subsection \<open>Splitting and searching\<close>

lemma index_of_None: "index_of c s = None \<longleftrightarrow> c \<notin> set s"
  by (induction s) auto

lemma index_of_append: "c \<notin> set s \<Longrightarrow> index_of c (s @ c # t) = Some (length s)"
  by (induction s) auto

lemma split_on_notin: "c \<notin> set s \<Longrightarrow> split_on c s = [s]"
  by (induction s) auto

lemma split_on_append: "c \<notin> set s \<Longrightarrow> split_on c (s @ c # t) = s # split_on c t"
  by (induction s) auto

lemma split_on_nonempty [simp]: "split_on c s \<noteq> []"
  by (induction s) (auto split: list.splits)

lemma split_on_concat: "split_on c (s @ c # t) = split_on c s @ split_on c t"
  by (induction s) (auto split: list.splits)

lemma comma_entries_concat: "comma_entries (s @ CHR '','' # t) = comma_entries s @ comma_entries t"
  by (simp add: comma_entries_def split_on_concat)

lemma join_simps [simp]: "join sep [] = []" "join sep [x] = x" "join sep (x # y # ys) = x @ sep @ join sep (y # ys)"
  by (simp_all add: join_def)

lemma split_on_join: "(\<And>x. x \<in> set xs \<Longrightarrow> c \<notin> set x) \<Longrightarrow> xs \<noteq> [] \<Longrightarrow> split_on c (join [c] xs) = xs"
proof (induction xs rule: induct_list012)
  case (3 x y zs)
  then show ?case by (simp add: split_on_append)
qed (simp_all add: split_on_notin)

lemma starts_with_iff: "starts_with p s \<longleftrightarrow> (\<exists>t. s = p @ t)"
  by (auto simp: starts_with_def) (metis append_take_drop_id)

section \<open>Maps in insertion order\<close>

type_synonym ('k, 'v) jsmap = "('k \<times> 'v) list"

abbreviation map_get :: "('k, 'v) jsmap \<Rightarrow> 'k \<Rightarrow> 'v option" where
  "map_get m k \<equiv> map_of m k"

abbreviation map_set :: "'k \<Rightarrow> 'v \<Rightarrow> ('k, 'v) jsmap \<Rightarrow> ('k, 'v) jsmap" where
  "map_set k v m \<equiv> AList.update k v m"

abbreviation map_delete :: "'k \<Rightarrow> ('k, 'v) jsmap \<Rightarrow> ('k, 'v) jsmap" where
  "map_delete k m \<equiv> AList.delete k m"

abbreviation map_keys :: "('k, 'v) jsmap \<Rightarrow> 'k list" where
  "map_keys m \<equiv> map fst m"

abbreviation map_values :: "('k, 'v) jsmap \<Rightarrow> 'v list" where
  "map_values m \<equiv> map snd m"

definition map_wf :: "('k, 'v) jsmap \<Rightarrow> bool" where
  "map_wf m \<longleftrightarrow> distinct (map_keys m)"

lemma map_wf_Nil [simp]: "map_wf []"
  by (simp add: map_wf_def)

lemma map_wf_set [simp]: "map_wf m \<Longrightarrow> map_wf (map_set k v m)"
  by (simp add: map_wf_def distinct_update)

lemma map_wf_delete [simp]: "map_wf m \<Longrightarrow> map_wf (map_delete k m)"
  by (simp add: map_wf_def distinct_delete)

lemma map_get_set [simp]: "map_get (map_set k v m) k' = (if k = k' then Some v else map_get m k')"
  by (simp add: update_conv')

lemma map_get_delete [simp]: "map_get (map_delete k m) k' = (if k = k' then None else map_get m k')"
  by (simp add: delete_conv')

lemma length_map_set:
  "length (map_set k v m) = (if map_get m k = None then Suc (length m) else length m)"
  by (induction m) auto

lemma length_map_delete:
  "map_wf m \<Longrightarrow> length (map_delete k m) = (if map_get m k = None then length m else length m - 1)"
proof (induction m)
  case (Cons p m)
  obtain a b where p: "p = (a, b)" by (cases p)
  show ?case
  proof (cases "a = k")
    case True
    with Cons.prems p have "k \<notin> fst ` set m" by (simp add: map_wf_def)
    then have "map_delete k m = m" by (simp add: delete_idem)
    with True p show ?thesis by simp
  next
    case False
    with Cons.prems Cons.IH p have
      IH: "length (map_delete k m) = (if map_get m k = None then length m else length m - 1)"
      by (simp add: map_wf_def)
    have "map_get m k \<noteq> None \<Longrightarrow> length m \<noteq> 0" by auto
    with False p IH show ?thesis by auto
  qed
qed (simp add: AList.delete_eq)

lemma length_filter_le_filter: "(\<And>x. x \<in> set xs \<Longrightarrow> P x \<Longrightarrow> Q x) \<Longrightarrow> length (filter P xs) \<le> length (filter Q xs)"
  by (induction xs) auto

lemma map_get_mem: "map_wf m \<Longrightarrow> (k, v) \<in> set m \<longleftrightarrow> map_get m k = Some v"
  by (simp add: map_wf_def)

text \<open>A property of a value: \<open>undefined\<close> where there is none.\<close>

definition js_get :: "jsval \<Rightarrow> string \<Rightarrow> jsval" where
  "js_get v k = (case v of JObject fs \<Rightarrow> nullish (map_get fs k) JUndefined | _ \<Rightarrow> JUndefined)"

section \<open>Invariants of operation sequences\<close>

locale op_invariant =
  fixes step :: "'s \<Rightarrow> 'o \<Rightarrow> 's"
    and inv :: "'s \<Rightarrow> bool"
  assumes step_inv: "inv s \<Longrightarrow> inv (step s x)"
begin

lemma run_inv: "inv s \<Longrightarrow> inv (foldl step s xs)"
  by (induction xs arbitrary: s) (simp_all add: step_inv)

lemma run_take_inv: "inv s \<Longrightarrow> inv (foldl step s (take n xs))"
  by (rule run_inv)

end

text \<open>A measure that no operation raises, along a run.\<close>

locale op_monotone = op_invariant +
  fixes meas :: "'a \<Rightarrow> int"
  assumes step_mono: "inv s \<Longrightarrow> meas s \<le> meas (step s x)"
begin

lemma run_mono: "inv s \<Longrightarrow> meas s \<le> meas (foldl step s xs)"
proof (induction xs arbitrary: s)
  case (Cons x xs)
  from Cons.IH [OF step_inv [OF Cons.prems]] step_mono [OF Cons.prems]
  show ?case by (simp, meson order_trans)
qed simp

end

end
