(* ===== verification/Decimal.thy ===== *)
theory Decimal
  imports Fluxora_Prelude
begin

text \<open>
  The decimal string policy of \<open>src/serialization/decimal.ts\<close>: validation, normalisation,
  sign test, conversion to and from stroops, display format, and the validation of the
  amount fields of a request or response object.

  A thrown \<open>DecimalSerializationError\<close> and a \<open>ValidationResult\<close> with \<open>valid: false\<close> are
  \<open>Inl\<close> of the error; its message text is left out, its code, field name and raw value are
  kept. The reference notion is \<open>dec_value\<close>, the rational number a decimal string denotes:
  the lemmas state what each operation does to that number.

  Two conversions of the language are parameters: \<open>ts\<close>, \<open>Number.prototype.toString\<close> on the
  doubles that are not exact integers (or are larger than \<open>2 ^ 53\<close>), and \<open>rnd\<close>, the rounding
  of a decimal literal to a double done by \<open>Number(string)\<close>.
\<close>

section \<open>Data\<close>

datatype DecimalErrorCode =
    INVALID_TYPE | INVALID_FORMAT | OUT_OF_RANGE | PRECISION_LOSS | PRECISION_EXCEEDED | EMPTY_VALUE

record DecimalSerializationError =
  err_code :: DecimalErrorCode
  err_field :: "string option"
  err_rawValue :: jsval

abbreviation dec_err ::
  "DecimalErrorCode \<Rightarrow> string option \<Rightarrow> jsval \<Rightarrow> DecimalSerializationError" where
  "dec_err c f v \<equiv> \<lparr>err_code = c, err_field = f, err_rawValue = v\<rparr>"

definition MAX_DECIMAL_INTEGER_PART :: nat where
  "MAX_DECIMAL_INTEGER_PART = 9223372036854775807"

definition STELLAR_DECIMALS :: nat where
  "STELLAR_DECIMALS = 7"

definition STROOPS_PER_UNIT :: int where
  "STROOPS_PER_UNIT = 10000000"

section \<open>Operations\<close>

text \<open>\<open>replace(/^[+-]/, '')\<close>\<close>

fun strip_sign :: "string \<Rightarrow> string" where
  "strip_sign [] = []"
| "strip_sign (c # cs) = (if c = CHR ''+'' \<or> c = CHR ''-'' then cs else c # cs)"

definition starts_minus :: "string \<Rightarrow> bool" where
  "starts_minus s \<longleftrightarrow> take 1 s = ''-''"

text \<open>\<open>/^[+-]?\d+(\.\d+)?$/\<close>\<close>

definition DECIMAL_STRING_PATTERN :: "string \<Rightarrow> bool" where
  "DECIMAL_STRING_PATTERN s \<longleftrightarrow>
     (let u = strip_sign s; i = takeWhile is_digit u; r = dropWhile is_digit u
      in i \<noteq> [] \<and>
         (case r of [] \<Rightarrow> True | c # f \<Rightarrow> c = CHR ''.'' \<and> f \<noteq> [] \<and> list_all is_digit f))"

text \<open>The loop of \<open>normalizeDecimalString\<close> that moves \<open>end\<close> left over trailing zeros.\<close>

fun norm_end :: "string \<Rightarrow> nat \<Rightarrow> nat \<Rightarrow> nat" where
  "norm_end value dot e =
     (if dot + 1 < e \<and> value ! (e - 1) = CHR ''0'' then norm_end value dot (e - 1) else e)"

declare norm_end.simps [simp del]

definition normalizeDecimalString :: "string \<Rightarrow> string" where
  "normalizeDecimalString value =
     (case index_of (CHR ''.'') value of
        None \<Rightarrow> value
      | Some dot \<Rightarrow>
          let e = norm_end value dot (length value)
          in if e = dot + 1 then js_slice 0 dot value else js_slice 0 e value)"

definition validateDecimalString ::
  "jsval \<Rightarrow> string option \<Rightarrow> DecimalSerializationError + string" where
  "validateDecimalString value fieldName =
     (case value of
        JNull \<Rightarrow> Inl (dec_err EMPTY_VALUE fieldName value)
      | JUndefined \<Rightarrow> Inl (dec_err EMPTY_VALUE fieldName value)
      | JString s \<Rightarrow>
          if js_trim s = [] then Inl (dec_err EMPTY_VALUE fieldName value)
          else if \<not> DECIMAL_STRING_PATTERN s then Inl (dec_err INVALID_FORMAT fieldName value)
          else let integerPart = (case index_of (CHR ''.'') s of None \<Rightarrow> s | Some d \<Rightarrow> js_slice 0 d s);
                   absIntegerPart = strip_sign integerPart
               in if MAX_DECIMAL_INTEGER_PART < digits_val absIntegerPart
                  then Inl (dec_err OUT_OF_RANGE fieldName value)
                  else Inr (normalizeDecimalString s)
      | _ \<Rightarrow> Inl (dec_err INVALID_TYPE fieldName value))"

definition compareDecimalStringToZero :: "string \<Rightarrow> DecimalSerializationError + int" where
  "compareDecimalStringToZero value =
     (case validateDecimalString (JString value) None of
        Inl e \<Rightarrow> Inl e
      | Inr normalized \<Rightarrow>
          if normalized = [] then Inl (dec_err EMPTY_VALUE None (JString value))
          else let unsigned = strip_sign normalized;
                   parts = split_on (CHR ''.'') unsigned;
                   integerPart = parts ! 0;
                   fractionalPart = (if 1 < length parts then parts ! 1 else []);
                   hasNonZeroDigit = list_ex (\<lambda>digit. digit \<noteq> CHR ''0'') (integerPart @ fractionalPart)
               in if \<not> hasNonZeroDigit then Inr 0
                  else if starts_minus normalized then Inr (- 1) else Inr 1)"

definition js_is_integer :: "rat \<Rightarrow> bool" where
  "js_is_integer x \<longleftrightarrow> x = of_int \<lfloor>x\<rfloor>"

text \<open>\<open>value.toString()\<close> of a finite number: decimal digits for an integer of magnitude up to \<open>2 ^ 53\<close>,
  the parameter \<open>ts\<close> otherwise.\<close>

definition js_num_toString :: "(rat \<Rightarrow> string) \<Rightarrow> rat \<Rightarrow> string" where
  "js_num_toString ts x =
     (if js_is_integer x \<and> \<bar>\<lfloor>x\<rfloor>\<bar> \<le> 2 ^ 53 then show_int \<lfloor>x\<rfloor> else ts x)"

definition serializeToDecimalString ::
  "(rat \<Rightarrow> string) \<Rightarrow> jsval \<Rightarrow> string option \<Rightarrow> DecimalSerializationError + string" where
  "serializeToDecimalString ts value fieldName =
     (case value of
        JNull \<Rightarrow> Inl (dec_err EMPTY_VALUE fieldName value)
      | JUndefined \<Rightarrow> Inl (dec_err EMPTY_VALUE fieldName value)
      | JString s \<Rightarrow>
          (case validateDecimalString value fieldName of
             Inl e \<Rightarrow> Inl e
           | Inr r \<Rightarrow> if r = [] then Inl (dec_err EMPTY_VALUE fieldName value) else Inr r)
      | JNumber (Finite x) \<Rightarrow>
          if \<not> js_is_integer x
          then let strValue = js_num_toString ts x
               in if CHR ''e'' \<in> set strValue then Inl (dec_err PRECISION_LOSS fieldName value)
                  else Inr strValue
          else Inr (js_num_toString ts x)
      | JNumber _ \<Rightarrow> Inl (dec_err INVALID_FORMAT fieldName value)
      | JBigInt i \<Rightarrow> Inr (show_int i)
      | _ \<Rightarrow> Inl (dec_err INVALID_TYPE fieldName value))"

text \<open>The number denoted by a decimal string: sign, integer digits, fraction digits.\<close>

definition int_digits :: "string \<Rightarrow> string" where
  "int_digits s = takeWhile is_digit (strip_sign s)"

definition frac_digits :: "string \<Rightarrow> string" where
  "frac_digits s = drop 1 (dropWhile is_digit (strip_sign s))"

definition dec_value :: "string \<Rightarrow> rat" where
  "dec_value s =
     (if starts_minus s then - 1 else 1) *
     (of_nat (digits_val (int_digits s)) +
      of_nat (digits_val (frac_digits s)) / 10 ^ length (frac_digits s))"

definition deserializeToNumber ::
  "(rat \<Rightarrow> jsnum) \<Rightarrow> jsval \<Rightarrow> string option \<Rightarrow> DecimalSerializationError + rat" where
  "deserializeToNumber rnd value fieldName =
     (case validateDecimalString value fieldName of
        Inl e \<Rightarrow> Inl e
      | Inr v \<Rightarrow> (case rnd (dec_value v) of
                    Finite x \<Rightarrow> Inr x
                  | _ \<Rightarrow> Inl (dec_err OUT_OF_RANGE fieldName value)))"

definition tryDeserializeToNumber ::
  "(rat \<Rightarrow> jsnum) \<Rightarrow> jsval \<Rightarrow> string option \<Rightarrow> rat option" where
  "tryDeserializeToNumber rnd value fieldName =
     (case deserializeToNumber rnd value fieldName of Inl e \<Rightarrow> None | Inr x \<Rightarrow> Some x)"

text \<open>\<open>replace(/\B(?=(\d{3})+(?!\d))/g, ',')\<close> on a string of digits: a comma before every digit that
  is not the first and has a positive multiple of three digits from it to the end.\<close>

fun group_thousands :: "bool \<Rightarrow> string \<Rightarrow> string" where
  "group_thousands first [] = []"
| "group_thousands first (c # cs) =
     (if \<not> first \<and> length (c # cs) mod 3 = 0 then [CHR '','', c] else [c]) @ group_thousands False cs"

definition formatDecimalForDisplay :: "string \<Rightarrow> nat \<Rightarrow> string" where
  "formatDecimalForDisplay value decimals =
     (case validateDecimalString (JString value) None of
        Inl e \<Rightarrow> value
      | Inr v \<Rightarrow>
          if v = [] then value
          else let parts = split_on (CHR ''.'') v;
                   intPart = parts ! 0;
                   decPart = (if 1 < length parts then parts ! 1 else []);
                   sign = (if starts_minus intPart then ''-'' else []);
                   absIntPart = strip_sign intPart;
                   formattedInt = sign @ group_thousands True absIntPart
               in if decimals = 0 then formattedInt
                  else let paddedDec =
                         (if decPart \<noteq> [] then take decimals (pad_end decimals (CHR ''0'') decPart)
                          else replicate decimals (CHR ''0''))
                       in formattedInt @ ''.'' @ paddedDec)"

text \<open>The loop body of \<open>serializeAmountFields\<close> and of \<open>validateAmountFields\<close>, and the loops.\<close>

fun serializeAmountFields ::
  "(rat \<Rightarrow> string) \<Rightarrow> (string \<times> jsval) list \<Rightarrow> string list \<Rightarrow>
   DecimalSerializationError + (string \<times> jsval) list" where
  "serializeAmountFields ts result [] = Inr result"
| "serializeAmountFields ts result (fieldName # rest) =
     (case map_get result fieldName of
        None \<Rightarrow> serializeAmountFields ts result rest
      | Some JNull \<Rightarrow> serializeAmountFields ts result rest
      | Some JUndefined \<Rightarrow> serializeAmountFields ts result rest
      | Some value \<Rightarrow>
          (case serializeToDecimalString ts value (Some fieldName) of
             Inl e \<Rightarrow> Inl e
           | Inr serialized \<Rightarrow>
               serializeAmountFields ts (map_set fieldName (JString serialized) result) rest))"

fun amountFieldErrors ::
  "(string \<times> jsval) list \<Rightarrow> string list \<Rightarrow> DecimalSerializationError list" where
  "amountFieldErrors obj [] = []"
| "amountFieldErrors obj (fieldName # rest) =
     (case map_get obj fieldName of
        None \<Rightarrow> amountFieldErrors obj rest
      | Some JNull \<Rightarrow> amountFieldErrors obj rest
      | Some JUndefined \<Rightarrow> amountFieldErrors obj rest
      | Some value \<Rightarrow>
          (case validateDecimalString value (Some fieldName) of
             Inl e \<Rightarrow> e # amountFieldErrors obj rest
           | Inr v \<Rightarrow> amountFieldErrors obj rest))"

definition validateAmountFields ::
  "(string \<times> jsval) list \<Rightarrow> string list \<Rightarrow> bool \<times> DecimalSerializationError list" where
  "validateAmountFields obj fieldNames =
     (let errors = amountFieldErrors obj fieldNames in (errors = [], errors))"

definition parseToStroops :: "string \<Rightarrow> DecimalSerializationError + int" where
  "parseToStroops value =
     (case validateDecimalString (JString value) None of
        Inl e \<Rightarrow> Inl e
      | Inr v \<Rightarrow>
          if v = [] then Inl (dec_err EMPTY_VALUE None (JString value))
          else let parts = split_on (CHR ''.'') v;
                   integerPart = (if parts ! 0 = [] then ''0'' else parts ! 0);
                   decimalPart = (if 1 < length parts then parts ! 1 else [])
               in if STELLAR_DECIMALS < length decimalPart
                  then Inl (dec_err PRECISION_EXCEEDED None (JString value))
                  else let padded = pad_end STELLAR_DECIMALS (CHR ''0'') decimalPart;
                           sign = (if starts_minus integerPart then - 1 else 1);
                           absIntegerPart = strip_sign integerPart
                       in Inr (sign * (int (digits_val absIntegerPart) * STROOPS_PER_UNIT +
                                       int (digits_val padded))))"

definition strip_trailing_zeros :: "string \<Rightarrow> string" where
  "strip_trailing_zeros s = rev (dropWhile (\<lambda>c. c = CHR ''0'') (rev s))"

definition formatFromStroops :: "int \<Rightarrow> string" where
  "formatFromStroops stroops =
     (let sign = (if stroops < 0 then ''-'' else []);
          absStroops = (if stroops < 0 then - stroops else stroops);
          integerPart = absStroops div STROOPS_PER_UNIT;
          decimalPart = absStroops mod STROOPS_PER_UNIT;
          decimalStr = pad_start STELLAR_DECIMALS (CHR ''0'') (show_int decimalPart);
          trimmedDecimalStr = strip_trailing_zeros decimalStr
      in if trimmedDecimalStr = [] then sign @ show_int integerPart
         else sign @ show_int integerPart @ ''.'' @ trimmedDecimalStr)"

section \<open>Decimal strings as sign, integer digits and fraction digits\<close>

definition dec_string :: "string \<Rightarrow> string \<Rightarrow> string \<Rightarrow> string" where
  "dec_string sg i f = sg @ i @ (if f = [] then [] else CHR ''.'' # f)"

definition dec_parts :: "string \<Rightarrow> string \<Rightarrow> string \<Rightarrow> bool" where
  "dec_parts sg i f \<longleftrightarrow>
     sg \<in> {[], ''+'', ''-''} \<and> i \<noteq> [] \<and> list_all is_digit i \<and> list_all is_digit f"

lemma not_digit_consts [simp]: "\<not> is_digit (CHR ''.'')" "\<not> is_digit (CHR ''+'')" "\<not> is_digit (CHR ''-'')"
  "\<not> is_digit (CHR '','')" "\<not> is_digit (CHR ''e'')"
  by (simp_all add: is_digit_def)

lemma digits_notin: "list_all is_digit s \<Longrightarrow> \<not> is_digit c \<Longrightarrow> c \<notin> set s"
  by (auto simp: list_all_iff)

lemma strip_sign_parts: "dec_parts sg i f \<Longrightarrow> strip_sign (sg @ i @ t) = i @ t"
  by (cases i) (auto simp: dec_parts_def)

lemma takeWhile_digits: "list_all is_digit i \<Longrightarrow>
    takeWhile is_digit (i @ (if f = [] then [] else CHR ''.'' # f)) = i"
  "list_all is_digit i \<Longrightarrow>
    dropWhile is_digit (i @ (if f = [] then [] else CHR ''.'' # f)) = (if f = [] then [] else CHR ''.'' # f)"
  by (induction i) auto

lemma dec_string_fields:
  assumes "dec_parts sg i f"
  shows "int_digits (dec_string sg i f) = i" "frac_digits (dec_string sg i f) = f"
    "starts_minus (dec_string sg i f) \<longleftrightarrow> sg = ''-''" "DECIMAL_STRING_PATTERN (dec_string sg i f)"
proof -
  have i: "list_all is_digit i" and f: "list_all is_digit f" "i \<noteq> []"
    using assms by (simp_all add: dec_parts_def)
  show "int_digits (dec_string sg i f) = i"
    by (simp only: int_digits_def dec_string_def strip_sign_parts [OF assms] takeWhile_digits [OF i])
  show "frac_digits (dec_string sg i f) = f"
    by (simp only: frac_digits_def dec_string_def strip_sign_parts [OF assms] takeWhile_digits [OF i])
       simp
  show "DECIMAL_STRING_PATTERN (dec_string sg i f)"
    using f
    by (simp only: DECIMAL_STRING_PATTERN_def dec_string_def strip_sign_parts [OF assms]
        takeWhile_digits [OF i] Let_def) simp
  show "starts_minus (dec_string sg i f) \<longleftrightarrow> sg = ''-''"
    using assms by (cases i) (auto simp: dec_parts_def starts_minus_def dec_string_def)
qed

lemma strip_sign_decomp: "\<exists>sg \<in> {[], ''+'', ''-''}. s = sg @ strip_sign s"
  by (cases s rule: strip_sign.cases) simp_all

lemma pattern_decompose:
  assumes "DECIMAL_STRING_PATTERN s"
  obtains sg i f where "dec_parts sg i f" "s = dec_string sg i f"
proof -
  define u where "u = strip_sign s"
  define i where "i = takeWhile is_digit u"
  define r where "r = dropWhile is_digit u"
  have u: "u = i @ r" by (simp add: i_def r_def)
  have i: "i \<noteq> []" "list_all is_digit i"
    using assms by (auto simp: DECIMAL_STRING_PATTERN_def u_def i_def Let_def list_all_iff
        dest: set_takeWhileD)
  obtain sg where sg: "s = sg @ u" "sg \<in> {[], ''+'', ''-''}"
    using strip_sign_decomp [of s] unfolding u_def by blast
  have "r = [] \<or> (\<exists>f. r = CHR ''.'' # f \<and> f \<noteq> [] \<and> list_all is_digit f)"
    using assms by (auto simp: DECIMAL_STRING_PATTERN_def u_def r_def Let_def split: list.splits)
  then obtain f where f: "r = (if f = [] then [] else CHR ''.'' # f)" "list_all is_digit f"
    by (metis list.pred_inject(1))
  show thesis
    by (rule that [of sg i f]) (use i sg f u in \<open>auto simp: dec_parts_def dec_string_def\<close>)
qed

lemma pattern_iff: "DECIMAL_STRING_PATTERN s \<longleftrightarrow> (\<exists>sg i f. dec_parts sg i f \<and> s = dec_string sg i f)"
  by (metis dec_string_fields(4) pattern_decompose)

lemma split_dec_string:
  assumes "dec_parts sg i f"
  shows "split_on (CHR ''.'') (dec_string sg i f) = (if f = [] then [sg @ i] else [sg @ i, f])"
    and "index_of (CHR ''.'') (dec_string sg i f) = (if f = [] then None else Some (length (sg @ i)))"
proof -
  have n: "CHR ''.'' \<notin> set (sg @ i)" "CHR ''.'' \<notin> set f"
    using assms digits_notin [of i "CHR ''.''"] digits_notin [of f "CHR ''.''"]
    by (auto simp: dec_parts_def)
  have s: "dec_string sg i f = (if f = [] then sg @ i else (sg @ i) @ CHR ''.'' # f)"
    by (simp add: dec_string_def)
  show "split_on (CHR ''.'') (dec_string sg i f) = (if f = [] then [sg @ i] else [sg @ i, f])"
    unfolding s using split_on_notin [OF n(1)] split_on_append [OF n(1), of f] split_on_notin [OF n(2)]
    by simp
  show "index_of (CHR ''.'') (dec_string sg i f) = (if f = [] then None else Some (length (sg @ i)))"
    unfolding s using index_of_append [OF n(1), of f] n(1)
    by (simp add: index_of_None del: set_append)
qed

section \<open>Normalisation\<close>

lemma strip_trailing_zeros_append_zero [simp]:
  "strip_trailing_zeros (s @ [CHR ''0'']) = strip_trailing_zeros s"
  by (simp add: strip_trailing_zeros_def)

lemma strip_trailing_zeros_append_other [simp]:
  "c \<noteq> CHR ''0'' \<Longrightarrow> strip_trailing_zeros (s @ [c]) = s @ [c]"
  by (simp add: strip_trailing_zeros_def)

lemma strip_trailing_zeros_Nil [simp]: "strip_trailing_zeros [] = []"
  by (simp add: strip_trailing_zeros_def)

lemma strip_trailing_zeros_decomp:
  "\<exists>n. s = strip_trailing_zeros s @ replicate n (CHR ''0'')"
proof (induction s rule: rev_induct)
  case (snoc c s)
  then obtain n where n: "s = strip_trailing_zeros s @ replicate n (CHR ''0'')" by blast
  show ?case
  proof (cases "c = CHR ''0''")
    case True
    have "s @ [c] = strip_trailing_zeros s @ replicate (Suc n) (CHR ''0'')"
      using n True by (metis append_assoc replicate_append_same replicate_Suc)
    with True show ?thesis by (metis strip_trailing_zeros_append_zero)
  next
    case False
    then show ?thesis by (intro exI [of _ 0]) simp
  qed
qed simp

lemma strip_trailing_zeros_last:
  "strip_trailing_zeros s \<noteq> [] \<Longrightarrow> last (strip_trailing_zeros s) \<noteq> CHR ''0''"
  by (induction s rule: rev_induct) (auto, metis snoc_eq_iff_butlast strip_trailing_zeros_append_other
      strip_trailing_zeros_append_zero)

lemma strip_trailing_zeros_digits: "list_all is_digit s \<Longrightarrow> list_all is_digit (strip_trailing_zeros s)"
  by (metis list_all_append strip_trailing_zeros_decomp)

lemma strip_trailing_zeros_idem [simp]:
  "strip_trailing_zeros (strip_trailing_zeros s) = strip_trailing_zeros s"
  by (induction s rule: rev_induct) (simp, metis strip_trailing_zeros_append_other
      strip_trailing_zeros_append_zero)

lemma norm_end_strip:
  "k \<le> length f \<Longrightarrow>
   norm_end (p @ CHR ''.'' # f) (length p) (length p + 1 + k) =
     length p + 1 + length (strip_trailing_zeros (take k f))"
proof (induction k)
  case 0
  then show ?case by (simp add: norm_end.simps)
next
  case (Suc k)
  then have k: "take (Suc k) f = take k f @ [f ! k]"
    by (simp add: take_Suc_conv_app_nth)
  have at: "(p @ CHR ''.'' # f) ! (length p + 1 + Suc k - 1) = f ! k"
    by (simp add: nth_append)
  show ?case
    using Suc k at
    by (subst norm_end.simps) (cases "f ! k = CHR ''0''"; simp)
qed

lemma take_strip: "take (length (strip_trailing_zeros f)) f = strip_trailing_zeros f"
  by (metis append_eq_conv_conj strip_trailing_zeros_decomp)

lemma normalize_dec_string:
  assumes "dec_parts sg i f"
  shows "normalizeDecimalString (dec_string sg i f) = dec_string sg i (strip_trailing_zeros f)"
proof (cases "f = []")
  case True
  then show ?thesis
    using split_dec_string(2) [OF assms] by (simp add: normalizeDecimalString_def)
next
  case False
  define p where "p = sg @ i"
  have s: "dec_string sg i f = p @ CHR ''.'' # f"
    using False by (simp add: dec_string_def p_def)
  have e: "norm_end (p @ CHR ''.'' # f) (length p) (length (p @ CHR ''.'' # f)) =
      length p + 1 + length (strip_trailing_zeros f)"
    using norm_end_strip [of "length f" f p] by simp
  have idx: "index_of (CHR ''.'') (p @ CHR ''.'' # f) = Some (length p)"
    using split_dec_string(2) [OF assms] False s by (simp add: p_def)
  show ?thesis
    unfolding s normalizeDecimalString_def idx option.case Let_def e
    by (simp add: js_slice_def dec_string_def p_def take_strip)
qed

lemma dec_parts_strip: "dec_parts sg i f \<Longrightarrow> dec_parts sg i (strip_trailing_zeros f)"
  by (simp add: dec_parts_def strip_trailing_zeros_digits)

lemma dec_value_dec_string:
  "dec_parts sg i f \<Longrightarrow>
   dec_value (dec_string sg i f) =
     (if sg = ''-'' then - 1 else 1) * (of_nat (digits_val i) + of_nat (digits_val f) / 10 ^ length f)"
  by (simp add: dec_value_def dec_string_fields)

lemma digits_val_strip:
  obtains n where "digits_val f = digits_val (strip_trailing_zeros f) * 10 ^ n"
    "length f = length (strip_trailing_zeros f) + n"
proof -
  obtain n where n: "f = strip_trailing_zeros f @ replicate n (CHR ''0'')"
    using strip_trailing_zeros_decomp by blast
  have "digits_val f = digits_val (strip_trailing_zeros f) * 10 ^ n"
    by (subst n, simp only: digits_val_append) simp
  moreover have "length f = length (strip_trailing_zeros f) + n"
    by (subst n) simp
  ultimately show thesis by (rule that)
qed

lemma frac_value_strip:
  "(of_nat (digits_val (strip_trailing_zeros f)) / 10 ^ length (strip_trailing_zeros f) :: rat) =
   of_nat (digits_val f) / 10 ^ length f"
  by (rule digits_val_strip [of f]) (simp add: power_add)

section \<open>Validation\<close>

lemma js_trim_digit: "c \<in> set s \<Longrightarrow> \<not> is_space c \<Longrightarrow> js_trim s \<noteq> []"
proof -
  assume "c \<in> set s" "\<not> is_space c"
  then have "c \<in> set (dropWhile is_space s)"
    by (metis Un_iff set_append set_takeWhileD takeWhile_dropWhile_id)
  with \<open>\<not> is_space c\<close> show ?thesis
    by (auto simp: js_trim_def dropWhile_eq_Nil_conv)
qed

lemma is_digit_not_space: "is_digit c \<Longrightarrow> \<not> is_space c"
  by (auto simp: is_digit_def is_space_def)

lemma trim_dec_string: "dec_parts sg i f \<Longrightarrow> js_trim (dec_string sg i f) \<noteq> []"
  by (rule js_trim_digit [of "hd i"]; cases i)
     (auto simp: dec_parts_def dec_string_def is_digit_not_space)

lemma validate_dec_string:
  assumes "dec_parts sg i f"
  shows "validateDecimalString (JString (dec_string sg i f)) fld =
     (if MAX_DECIMAL_INTEGER_PART < digits_val i
      then Inl (dec_err OUT_OF_RANGE fld (JString (dec_string sg i f)))
      else Inr (dec_string sg i (strip_trailing_zeros f)))"
proof -
  have ip: "(case index_of (CHR ''.'') (dec_string sg i f) of None \<Rightarrow> dec_string sg i f
             | Some d \<Rightarrow> js_slice 0 d (dec_string sg i f)) = sg @ i"
    by (simp add: split_dec_string(2) [OF assms]) (simp add: js_slice_def dec_string_def)
  have "strip_sign (sg @ i) = i"
    using strip_sign_parts [OF assms, of "[]"] by simp
  then show ?thesis
    unfolding validateDecimalString_def
    by (simp add: trim_dec_string [OF assms] dec_string_fields(4) [OF assms] ip Let_def
        normalize_dec_string [OF assms])
qed

lemma validate_Inr_iff:
  "validateDecimalString v fld = Inr r \<longleftrightarrow>
   (\<exists>sg i f. v = JString (dec_string sg i f) \<and> dec_parts sg i f \<and>
      digits_val i \<le> MAX_DECIMAL_INTEGER_PART \<and> r = dec_string sg i (strip_trailing_zeros f))"
  (is "?L \<longleftrightarrow> ?R")
proof
  assume L: ?L
  then obtain s where v: "v = JString s" and pat: "DECIMAL_STRING_PATTERN s"
    by (auto simp: validateDecimalString_def Let_def split: jsval.splits if_splits)
  from pat obtain sg i f where p: "dec_parts sg i f" "s = dec_string sg i f"
    by (rule pattern_decompose)
  with L v show ?R
    by (intro exI [of _ sg] exI [of _ i] exI [of _ f]) (simp add: validate_dec_string split: if_splits)
next
  assume ?R
  then show ?L by (auto simp: validate_dec_string)
qed

section \<open>Stroops\<close>

lemma digits_val_pad_end:
  "length f \<le> n \<Longrightarrow> digits_val (pad_end n (CHR ''0'') f) = digits_val f * 10 ^ (n - length f)"
  by (simp add: pad_end_def digits_val_append)

lemma parse_dec_string:
  assumes "dec_parts sg i f"
  shows "parseToStroops (dec_string sg i f) =
    (if MAX_DECIMAL_INTEGER_PART < digits_val i
     then Inl (dec_err OUT_OF_RANGE None (JString (dec_string sg i f)))
     else if 7 < length (strip_trailing_zeros f)
     then Inl (dec_err PRECISION_EXCEEDED None (JString (dec_string sg i f)))
     else Inr ((if sg = ''-'' then - 1 else 1) *
       (int (digits_val i) * 10 ^ 7 +
        int (digits_val (strip_trailing_zeros f) * 10 ^ (7 - length (strip_trailing_zeros f))))))"
proof -
  let ?f = "strip_trailing_zeros f"
  have p: "dec_parts sg i ?f" and p0: "dec_parts sg i []"
    using assms by (simp_all add: dec_parts_strip) (simp add: dec_parts_def)
  have ne: "dec_string sg i ?f \<noteq> []" "sg @ i \<noteq> []"
    using assms by (auto simp: dec_parts_def dec_string_def)
  have sm: "starts_minus (sg @ i) \<longleftrightarrow> sg = ''-''"
    using dec_string_fields(3) [OF p0] by (simp add: dec_string_def)
  have ss: "strip_sign (sg @ i) = i"
    using strip_sign_parts [OF assms, of "[]"] by simp
  note facts = validate_dec_string [OF assms] split_dec_string(1) [OF p] ne sm ss
    STELLAR_DECIMALS_def STROOPS_PER_UNIT_def Let_def
  show ?thesis
  proof (cases "?f = []")
    case True
    then show ?thesis
      unfolding parseToStroops_def using ne(1) ne(2) split_dec_string(1) [OF p0]
      by (simp add: facts(1,4-) pad_end_def digits_val_Cons) (simp add: starts_minus_def)
  next
    case False
    then show ?thesis
      unfolding parseToStroops_def using ne(2)
      by (simp add: facts digits_val_pad_end digits_val_Cons) (simp add: starts_minus_def)
  qed
qed

lemma digits_val_mod_10: "s \<noteq> [] \<Longrightarrow> list_all is_digit s \<Longrightarrow> digits_val s mod 10 = digit_val (last s)"
  by (induction s rule: rev_induct)
     (simp_all add: digits_val_append digits_val_Cons digit_val_less)

lemma not_stroops_integral:
  assumes "list_all is_digit f" "f \<noteq> []" "last f \<noteq> CHR ''0''" "7 < length f"
  shows "(of_int n :: rat) \<noteq> of_nat d * 10 ^ 7 + of_nat (digits_val f) / 10 ^ length f * 10 ^ 7"
proof
  assume eq: "(of_int n :: rat) = of_nat d * 10 ^ 7 + of_nat (digits_val f) / 10 ^ length f * 10 ^ 7"
  obtain k where k: "length f = 7 + Suc k"
    using assms(4) by (metis add_Suc_right less_imp_Suc_add)
  have "(of_int (n - int d * 10 ^ 7) :: rat) = of_nat (digits_val f) / 10 ^ length f * 10 ^ 7"
    using eq by simp
  also have "\<dots> = of_nat (digits_val f) / 10 ^ Suc k"
    by (simp add: k power_add)
  finally have "(of_int (n - int d * 10 ^ 7) * 10 ^ Suc k :: rat) = of_nat (digits_val f)"
    by (simp add: field_simps)
  then have "(of_int ((n - int d * 10 ^ 7) * 10 ^ Suc k) :: rat) = of_int (int (digits_val f))"
    by simp
  then have "int (digits_val f) = (n - int d * 10 ^ 7) * 10 ^ Suc k"
    by (simp only: of_int_eq_iff)
  then have "10 dvd int (digits_val f)" by simp
  then have "digits_val f mod 10 = 0" by presburger
  then have "digit_val (last f) = 0"
    using assms by (simp add: digits_val_mod_10)
  moreover have "is_digit (last f)"
    using assms by (simp add: list_all_iff)
  ultimately show False
    using assms(3) by (simp add: digit_val_eq_0)
qed

lemma stroops_value:
  assumes "length f \<le> n"
  shows "(of_nat (digits_val f * 10 ^ (n - length f)) :: rat) = of_nat (digits_val f) / 10 ^ length f * 10 ^ n"
  using assms by (simp add: power_diff [of "10 :: rat"])

lemma parse_Inr_iff:
  assumes "dec_parts sg i f"
  shows "parseToStroops (dec_string sg i f) = Inr n \<longleftrightarrow>
     digits_val i \<le> MAX_DECIMAL_INTEGER_PART \<and> of_int n = dec_value (dec_string sg i f) * 10 ^ 7"
proof -
  let ?f = "strip_trailing_zeros f"
  let ?s = "if sg = ''-'' then - 1 else 1"
  have val: "dec_value (dec_string sg i f) * 10 ^ 7 =
      ?s * (of_nat (digits_val i) * 10 ^ 7 + of_nat (digits_val ?f) / 10 ^ length ?f * 10 ^ 7)"
    unfolding dec_value_dec_string [OF assms] frac_value_strip
    by (simp only: distrib_right mult.assoc)
  show ?thesis
  proof (cases "7 < length ?f")
    case True
    then have l: "?f \<noteq> []" by auto
    have f: "list_all is_digit ?f"
      using assms by (simp add: dec_parts_def strip_trailing_zeros_digits)
    have "of_int n \<noteq> dec_value (dec_string sg i f) * 10 ^ 7"
      unfolding val
      using not_stroops_integral [OF f l strip_trailing_zeros_last [OF l] True, of n "digits_val i"]
        not_stroops_integral [OF f l strip_trailing_zeros_last [OF l] True, of "- n" "digits_val i"]
      by (auto simp: algebra_simps)
    with True show ?thesis by (simp add: parse_dec_string [OF assms])
  next
    case False
    define m where
      "m = ?s * (int (digits_val i) * 10 ^ 7 + int (digits_val ?f * 10 ^ (7 - length ?f)))"
    have m: "of_int m = dec_value (dec_string sg i f) * 10 ^ 7"
      unfolding val m_def using stroops_value [of ?f 7] False by simp
    have "parseToStroops (dec_string sg i f) = Inr n \<longleftrightarrow>
        digits_val i \<le> MAX_DECIMAL_INTEGER_PART \<and> n = m"
      using False unfolding parse_dec_string [OF assms] m_def [symmetric] by auto
    also have "n = m \<longleftrightarrow> (of_int n :: rat) = of_int m" by simp
    finally show ?thesis unfolding m .
  qed
qed

section \<open>Properties\<close>

text \<open>(C17) \<open>parseToStroops\<close> is exact: it returns \<open>n\<close> on precisely the strings that match the decimal
  pattern, have an integer part of at most the int64 maximum, and denote the number \<open>n / 10 ^ 7\<close>. In
  particular it never rounds, and a value that needs more than seven places is rejected.\<close>

theorem parseToStroops_exact:
  "parseToStroops s = Inr n \<longleftrightarrow>
     DECIMAL_STRING_PATTERN s \<and> digits_val (int_digits s) \<le> MAX_DECIMAL_INTEGER_PART \<and>
     of_int n = dec_value s * 10 ^ 7"
proof (cases "DECIMAL_STRING_PATTERN s")
  case True
  then obtain sg i f where p: "dec_parts sg i f" "s = dec_string sg i f"
    by (rule pattern_decompose)
  show ?thesis unfolding p(2) using parse_Inr_iff [OF p(1), of n] dec_string_fields [OF p(1)] by simp
next
  case False
  then have "\<And>r. validateDecimalString (JString s) None \<noteq> Inr r"
    by (auto simp: validate_Inr_iff pattern_iff)
  then have "parseToStroops s \<noteq> Inr n"
    by (cases "validateDecimalString (JString s) None") (auto simp: parseToStroops_def)
  with False show ?thesis by simp
qed

lemma format_dec_string:
  "\<exists>sg f. dec_parts sg (show_nat (nat (\<bar>n\<bar> div 10 ^ 7))) f \<and>
     formatFromStroops n = dec_string sg (show_nat (nat (\<bar>n\<bar> div 10 ^ 7))) f \<and>
     dec_value (formatFromStroops n) = of_int n / 10 ^ 7"
proof -
  define i where "i = show_nat (nat (\<bar>n\<bar> div 10 ^ 7))"
  define g where "g = pad_start 7 (CHR ''0'') (show_nat (nat (\<bar>n\<bar> mod 10 ^ 7)))"
  define sg where "sg = (if n < 0 then ''-'' else [])"
  have m: "nat (\<bar>n\<bar> mod 10 ^ 7) < 10 ^ 7" by simp
  have lg: "length g = 7"
    using show_nat_length_le [OF m] by (simp add: g_def pad_start_def)
  have dg: "list_all is_digit g"
    using show_nat_digits [of "nat (\<bar>n\<bar> mod 10 ^ 7)"] by (auto simp: g_def pad_start_def list_all_iff)
  have vg: "digits_val g = nat (\<bar>n\<bar> mod 10 ^ 7)"
    by (simp add: g_def pad_start_def digits_val_append)
  have parts: "dec_parts sg i g" "dec_parts sg i (strip_trailing_zeros g)"
    using dg show_nat_digits by (auto simp: dec_parts_def sg_def i_def strip_trailing_zeros_digits)
  have eq: "formatFromStroops n = dec_string sg i (strip_trailing_zeros g)"
  proof -
    have a: "(if n < 0 then - n else n) = \<bar>n\<bar>" by simp
    have i: "show_int (\<bar>n\<bar> div 10 ^ 7) = i" and d: "pad_start 7 (CHR ''0'') (show_int (\<bar>n\<bar> mod 10 ^ 7)) = g"
      by (simp_all add: show_int_nonneg i_def g_def)
    have u: "(10000000 :: int) = 10 ^ 7" by simp
    show ?thesis
      unfolding formatFromStroops_def STROOPS_PER_UNIT_def STELLAR_DECIMALS_def Let_def a u i d
        sg_def [symmetric] dec_string_def by simp
  qed
  have join: "(of_nat (nat q) + of_nat (nat r) / 10 ^ 7 :: rat) = of_int (q * 10 ^ 7 + r) / 10 ^ 7"
    if "0 \<le> q" "0 \<le> r" for q r :: int
    using that by (simp add: add_divide_distrib)
  have "dec_value (formatFromStroops n) =
      (if n < 0 then - 1 else 1) * (of_nat (nat (\<bar>n\<bar> div 10 ^ 7)) + of_nat (nat (\<bar>n\<bar> mod 10 ^ 7)) / 10 ^ 7)"
    unfolding eq dec_value_dec_string [OF parts(2)] frac_value_strip lg vg by (simp add: sg_def i_def)
  also have "\<dots> = (if n < 0 then - 1 else 1) * (of_int (\<bar>n\<bar> div 10 ^ 7 * 10 ^ 7 + \<bar>n\<bar> mod 10 ^ 7) / 10 ^ 7)"
    by (subst join) simp_all
  also have "\<dots> = of_int n / 10 ^ 7"
    unfolding div_mult_mod_eq by simp
  finally show ?thesis
    using parts(2) eq unfolding i_def by blast
qed

text \<open>(C25) Formatting and parsing are inverse: every amount of stroops whose integer part fits an int64
  is printed to a decimal string that parses back to exactly that amount.\<close>

theorem stroops_roundtrip:
  assumes "\<bar>n\<bar> div 10 ^ 7 \<le> int MAX_DECIMAL_INTEGER_PART"
  shows "parseToStroops (formatFromStroops n) = Inr n"
proof -
  obtain sg f where p: "dec_parts sg (show_nat (nat (\<bar>n\<bar> div 10 ^ 7))) f"
      "formatFromStroops n = dec_string sg (show_nat (nat (\<bar>n\<bar> div 10 ^ 7))) f"
      "dec_value (formatFromStroops n) = of_int n / 10 ^ 7"
    using format_dec_string by blast
  have "of_int n = dec_value (dec_string sg (show_nat (nat (\<bar>n\<bar> div 10 ^ 7))) f) * 10 ^ 7"
    using p(2,3) by simp
  then show ?thesis
    unfolding p(2) parse_Inr_iff [OF p(1)] using assms by (simp add: nat_le_iff)
qed

theorem stroops_roundtrip_witness:
  "\<bar>- 15000000\<bar> div 10 ^ 7 \<le> int MAX_DECIMAL_INTEGER_PART \<and>
   parseToStroops (formatFromStroops (- 15000000)) = Inr (- 15000000)"
proof -
  have h: "\<bar>- 15000000\<bar> div 10 ^ 7 \<le> int MAX_DECIMAL_INTEGER_PART"
    by (simp add: MAX_DECIMAL_INTEGER_PART_def)
  show ?thesis using h stroops_roundtrip [OF h] by blast
qed

text \<open>Validation accepts exactly the strings of the decimal pattern whose integer part fits an int64,
  and its normalised result denotes the same number, is itself valid, and is a fixed point of
  validation.\<close>

theorem validate_normalises:
  "(\<exists>r. validateDecimalString v fld = Inr r) \<longleftrightarrow>
     (\<exists>s. v = JString s \<and> DECIMAL_STRING_PATTERN s \<and>
        digits_val (int_digits s) \<le> MAX_DECIMAL_INTEGER_PART \<and>
        validateDecimalString v fld = Inr (normalizeDecimalString s) \<and>
        validateDecimalString (JString (normalizeDecimalString s)) fld = Inr (normalizeDecimalString s) \<and>
        dec_value (normalizeDecimalString s) = dec_value s)"
proof
  assume "\<exists>r. validateDecimalString v fld = Inr r"
  then obtain sg i f where p: "v = JString (dec_string sg i f)" "dec_parts sg i f"
      "digits_val i \<le> MAX_DECIMAL_INTEGER_PART"
    by (auto simp: validate_Inr_iff)
  note q = dec_parts_strip [OF p(2)]
  show "\<exists>s. v = JString s \<and> DECIMAL_STRING_PATTERN s \<and>
      digits_val (int_digits s) \<le> MAX_DECIMAL_INTEGER_PART \<and>
      validateDecimalString v fld = Inr (normalizeDecimalString s) \<and>
      validateDecimalString (JString (normalizeDecimalString s)) fld = Inr (normalizeDecimalString s) \<and>
      dec_value (normalizeDecimalString s) = dec_value s"
    by (rule exI [of _ "dec_string sg i f"])
       (simp add: p leD [OF p(3)] dec_string_fields [OF p(2)] normalize_dec_string [OF p(2)]
         validate_dec_string [OF p(2)] validate_dec_string [OF q] dec_value_dec_string [OF p(2)]
         dec_value_dec_string [OF q] frac_value_strip)
qed blast

lemma list_ex_nonzero:
  "list_all is_digit s \<Longrightarrow> list_ex (\<lambda>c. c \<noteq> CHR ''0'') s \<longleftrightarrow> digits_val s \<noteq> 0"
  by (auto simp: digits_val_eq_0 list_all_iff list_ex_iff)

lemma compare_dec_string:
  assumes "dec_parts sg i f" "digits_val i \<le> MAX_DECIMAL_INTEGER_PART"
  shows "compareDecimalStringToZero (dec_string sg i f) =
    Inr (if digits_val i = 0 \<and> digits_val f = 0 then 0 else if sg = ''-'' then - 1 else 1)"
proof -
  let ?f = "strip_trailing_zeros f"
  have q: "dec_parts sg i ?f" "dec_parts [] i ?f"
    using dec_parts_strip [OF assms(1)] by (auto simp: dec_parts_def)
  have ne: "dec_string sg i ?f \<noteq> []"
    using assms by (auto simp: dec_parts_def dec_string_def)
  have un: "strip_sign (dec_string sg i ?f) = dec_string [] i ?f"
    using strip_sign_parts [OF q(1)] by (simp add: dec_string_def)
  have z: "digits_val ?f = 0 \<longleftrightarrow> digits_val f = 0"
    by (rule digits_val_strip [of f]) simp
  have nz: "list_ex (\<lambda>c. c \<noteq> CHR ''0'') (i @ ?f) \<longleftrightarrow> \<not> (digits_val i = 0 \<and> digits_val f = 0)"
    using list_ex_nonzero [of i] list_ex_nonzero [of ?f] q z by (simp add: dec_parts_def)
  have parts: "split_on (CHR ''.'') (dec_string [] i ?f) ! 0 @
      (if 1 < length (split_on (CHR ''.'') (dec_string [] i ?f))
       then split_on (CHR ''.'') (dec_string [] i ?f) ! 1 else []) = i @ ?f"
    by (simp add: split_dec_string(1) [OF q(2)])
  show ?thesis
    unfolding compareDecimalStringToZero_def validate_dec_string [OF assms(1)]
    using assms(2) nz
    by (simp only: not_less [symmetric] if_False sum.case ne Let_def un parts dec_string_fields(3) [OF q(1)])
       simp
qed

lemma sgn_add_nonneg: "0 \<le> a \<Longrightarrow> 0 \<le> b \<Longrightarrow> sgn (a + b) = (if a = 0 \<and> b = 0 then 0 else 1 :: rat)"
  by (auto simp: sgn_if add_nonneg_eq_0_iff)

text \<open>The sign test agrees with arithmetic: for every accepted string the result is the sign of the
  number it denotes (so \<open>-0.000\<close> is zero, and no digit is lost to rounding), and it fails on exactly
  the strings validation rejects.\<close>

theorem compare_is_sign:
  "compareDecimalStringToZero s = Inr r \<longleftrightarrow>
     DECIMAL_STRING_PATTERN s \<and> digits_val (int_digits s) \<le> MAX_DECIMAL_INTEGER_PART \<and>
     of_int r = sgn (dec_value s)"
proof (cases "\<exists>v. validateDecimalString (JString s) None = Inr v")
  case True
  then obtain sg i f where p: "s = dec_string sg i f" "dec_parts sg i f"
      "digits_val i \<le> MAX_DECIMAL_INTEGER_PART"
    by (auto simp: validate_Inr_iff)
  have nn: "(0 :: rat) \<le> of_nat (digits_val f) / 10 ^ length f" by simp
  define k :: int where
    "k = (if digits_val i = 0 \<and> digits_val f = 0 then 0 else if sg = ''-'' then - 1 else 1)"
  have "sgn (dec_value s) = of_int k"
    unfolding k_def p(1) dec_value_dec_string [OF p(2)] using sgn_add_nonneg [OF of_nat_0_le_iff nn]
    by (simp add: sgn_mult)
  then show ?thesis
    using compare_dec_string [OF p(2,3)] p dec_string_fields [OF p(2)] unfolding k_def [symmetric]
    by auto
next
  case False
  then have "compareDecimalStringToZero s \<noteq> Inr r"
    by (cases "validateDecimalString (JString s) None") (auto simp: compareDecimalStringToZero_def)
  moreover have "\<not> (DECIMAL_STRING_PATTERN s \<and> digits_val (int_digits s) \<le> MAX_DECIMAL_INTEGER_PART)"
    using False dec_string_fields(1) by (auto simp: validate_Inr_iff pattern_iff)
  ultimately show ?thesis by blast
qed

lemma filter_group: "list_all is_digit i \<Longrightarrow> filter (\<lambda>c. c \<noteq> CHR '','') (group_thousands b i) = i"
  by (induction b i rule: group_thousands.induct) auto

lemma display_dec_string:
  assumes "dec_parts sg i f" "digits_val i \<le> MAX_DECIMAL_INTEGER_PART"
  shows "formatDecimalForDisplay (dec_string sg i f) d =
    (if sg = ''-'' then ''-'' else []) @ group_thousands True i @
    (if d = 0 then [] else ''.'' @ take d (pad_end d (CHR ''0'') (strip_trailing_zeros f)))"
proof -
  let ?f = "strip_trailing_zeros f"
  have q: "dec_parts sg i ?f" "dec_parts sg i []"
    using dec_parts_strip [OF assms(1)] by (simp_all add: dec_parts_def)
  have ne: "dec_string sg i ?f \<noteq> []"
    using assms by (auto simp: dec_parts_def dec_string_def)
  have sm: "starts_minus (sg @ i) \<longleftrightarrow> sg = ''-''" "strip_sign (sg @ i) = i"
    using dec_string_fields(3) [OF q(2)] strip_sign_parts [OF q(1), of "[]"]
    by (simp_all add: dec_string_def)
  have parts: "split_on (CHR ''.'') (dec_string sg i ?f) ! 0 = sg @ i"
    "(if 1 < length (split_on (CHR ''.'') (dec_string sg i ?f))
      then split_on (CHR ''.'') (dec_string sg i ?f) ! 1 else []) = ?f"
    by (simp_all add: split_dec_string(1) [OF q(1)])
  have valid: "validateDecimalString (JString (dec_string sg i f)) None = Inr (dec_string sg i ?f)"
    using validate_dec_string [OF assms(1)] assms(2) by simp
  have pad: "(if ?f \<noteq> [] then take d (pad_end d (CHR ''0'') ?f) else replicate d (CHR ''0'')) =
      take d (pad_end d (CHR ''0'') ?f)"
    by (simp add: pad_end_def)
  show ?thesis
    unfolding formatDecimalForDisplay_def valid sum.case Let_def parts sm pad using ne by auto
qed

text \<open>The display format shows the number it is given: for an accepted string and \<open>d > 0\<close> places,
  removing the thousands separators leaves the sign, the integer digits, a point and exactly \<open>d\<close>
  fraction digits, which are the normalised fraction padded with zeros or cut, never rounded.\<close>

theorem display_faithful:
  assumes "validateDecimalString (JString s) None = Inr v" "0 < d"
  shows "filter (\<lambda>c. c \<noteq> CHR '','') (formatDecimalForDisplay s d) =
     (if starts_minus v then ''-'' else []) @ int_digits v @ ''.'' @
       take d (pad_end d (CHR ''0'') (frac_digits v)) \<and>
     length (take d (pad_end d (CHR ''0'') (frac_digits v))) = d"
proof -
  from assms(1) obtain sg i f where p: "s = dec_string sg i f" "dec_parts sg i f"
      "digits_val i \<le> MAX_DECIMAL_INTEGER_PART" "v = dec_string sg i (strip_trailing_zeros f)"
    by (auto simp: validate_Inr_iff)
  note q = dec_parts_strip [OF p(2)]
  have "CHR '','' \<notin> set (take d (pad_end d (CHR ''0'') (strip_trailing_zeros f)))"
    using q by (auto simp: dec_parts_def pad_end_def list_all_iff dest!: in_set_takeD)
  then have "filter (\<lambda>c. c \<noteq> CHR '','') (take d (pad_end d (CHR ''0'') (strip_trailing_zeros f))) =
      take d (pad_end d (CHR ''0'') (strip_trailing_zeros f))"
    by (simp add: filter_id_conv) metis
  moreover have "list_all is_digit i" using p(2) by (simp add: dec_parts_def)
  ultimately show ?thesis
    using assms(2) unfolding p(4) dec_string_fields [OF q] p(1) display_dec_string [OF p(2,3)]
    by (auto simp: filter_group pad_end_def)
qed

theorem display_faithful_witness:
  "validateDecimalString (JString ''-1234567.50'') None = Inr ''-1234567.5'' \<and>
   filter (\<lambda>c. c \<noteq> CHR '','') (formatDecimalForDisplay ''-1234567.50'' 2) = ''-1234567.50''"
proof -
  have h: "validateDecimalString (JString ''-1234567.50'') None = Inr ''-1234567.5''" by code_simp
  have d: "(0 :: nat) < 2" by simp
  have v: "starts_minus ''-1234567.5''" "int_digits ''-1234567.5'' = ''1234567''"
    "take 2 (pad_end 2 (CHR ''0'') (frac_digits ''-1234567.5'')) = ''50''" by code_simp+
  show ?thesis using h conjunct1 [OF display_faithful [OF h d], unfolded v] v(1) by simp
qed

lemma serializeAmountFields_step:
  assumes "serializeAmountFields ts obj (g # fs) = Inr r"
  obtains obj' where "serializeAmountFields ts obj' fs = Inr r"
    "\<And>h. h \<noteq> g \<Longrightarrow> map_get obj' h = map_get obj h"
    "map_get obj' g = map_get obj g \<or> (\<exists>s. map_get obj' g = Some (JString s))"
    "\<And>v. map_get obj g = Some v \<Longrightarrow> v \<noteq> JNull \<Longrightarrow> v \<noteq> JUndefined \<Longrightarrow>
       \<exists>s. map_get obj' g = Some (JString s)"
proof (cases "map_get obj g = None \<or> map_get obj g = Some JNull \<or> map_get obj g = Some JUndefined")
  case True
  with assms show thesis by (intro that [of obj]) auto
next
  case False
  then obtain s where "serializeAmountFields ts (map_set g (JString s) obj) fs = Inr r"
    using assms by (auto split: jsval.splits sum.splits)
  then show thesis by (rule that) auto
qed

lemma serializeAmountFields_frame:
  "serializeAmountFields ts obj fs = Inr r \<Longrightarrow> f \<notin> set fs \<Longrightarrow> map_get r f = map_get obj f"
proof (induction fs arbitrary: obj)
  case (Cons g fs)
  from Cons.prems(1) show ?case
    by (rule serializeAmountFields_step) (use Cons in auto)
qed simp

lemma serializeAmountFields_string:
  "serializeAmountFields ts obj fs = Inr r \<Longrightarrow> map_get obj f = Some (JString s) \<Longrightarrow>
   \<exists>s'. map_get r f = Some (JString s')"
proof (induction fs arbitrary: obj s)
  case (Cons g fs)
  from Cons.prems(1) show ?case
    by (rule serializeAmountFields_step) (use Cons in \<open>cases "f = g"; fastforce\<close>)
qed simp

lemma serializeAmountFields_listed:
  "serializeAmountFields ts obj fs = Inr r \<Longrightarrow> f \<in> set fs \<Longrightarrow> map_get obj f = Some v \<Longrightarrow>
   v \<noteq> JNull \<Longrightarrow> v \<noteq> JUndefined \<Longrightarrow> \<exists>s. map_get r f = Some (JString s)"
proof (induction fs arbitrary: obj)
  case (Cons g fs)
  from Cons.prems(1) show ?case
  proof (rule serializeAmountFields_step)
    fix obj' assume o: "serializeAmountFields ts obj' fs = Inr r"
      "\<And>h. h \<noteq> g \<Longrightarrow> map_get obj' h = map_get obj h"
      "\<And>v. map_get obj g = Some v \<Longrightarrow> v \<noteq> JNull \<Longrightarrow> v \<noteq> JUndefined \<Longrightarrow>
         \<exists>s. map_get obj' g = Some (JString s)"
    show ?thesis
    proof (cases "g = f")
      case True
      with o(3) Cons.prems show ?thesis by (blast intro: serializeAmountFields_string [OF o(1)])
    next
      case False
      with o(2) Cons.prems show ?thesis by (auto intro: Cons.IH [OF o(1)])
    qed
  qed
qed simp

text \<open>After \<open>serializeAmountFields\<close> succeeds every listed field that was present and not null is a
  string, and every field that is not listed is untouched.\<close>

theorem serializeAmountFields_strings:
  assumes "serializeAmountFields ts obj fs = Inr r"
  shows "(f \<in> set fs \<longrightarrow> map_get obj f = Some v \<longrightarrow> v \<noteq> JNull \<longrightarrow> v \<noteq> JUndefined \<longrightarrow>
            (\<exists>s. map_get r f = Some (JString s))) \<and>
         (f \<notin> set fs \<longrightarrow> map_get r f = map_get obj f)"
  using assms serializeAmountFields_listed serializeAmountFields_frame by blast

theorem serializeAmountFields_strings_witness:
  "serializeAmountFields (\<lambda>_. []) [(''amount'', JBigInt 5), (''id'', JBool True)] [''amount''] =
     Inr [(''amount'', JString ''5''), (''id'', JBool True)] \<and>
   (\<exists>s. map_get [(''amount'', JString ''5''), (''id'', JBool True)] ''amount'' = Some (JString s))"
proof -
  have h: "serializeAmountFields (\<lambda>_. []) [(''amount'', JBigInt 5), (''id'', JBool True)] [''amount''] =
     Inr [(''amount'', JString ''5''), (''id'', JBool True)]"
    by (simp add: serializeToDecimalString_def show_int_def show_nat.simps digit_char_def)
       code_simp
  show ?thesis
    using h serializeAmountFields_strings [OF h, of "''amount''" "JBigInt 5"] by simp
qed

text \<open>\<open>serializeToDecimalString\<close> passes an integral \<open>number\<close> too large for exact digits through
  unchecked: \<open>1e21\<close>, which \<open>Number.prototype.toString\<close> prints in scientific notation, is returned as
  \<open>1e+21\<close>, which is not a decimal string.\<close>

theorem large_integer_not_decimal:
  assumes "ts (10 ^ 21) = ''1e+21''"
  shows "serializeToDecimalString ts (JNumber (Finite (10 ^ 21))) fld = Inr ''1e+21'' \<and>
     \<not> DECIMAL_STRING_PATTERN ''1e+21''"
proof -
  have fl: "\<lfloor>10 ^ 21 :: rat\<rfloor> = 10 ^ 21"
    using floor_of_int [of "10 ^ 21", where 'a = rat] by (simp only: of_int_power of_int_numeral)
  then have i: "js_is_integer (10 ^ 21)" by (simp add: js_is_integer_def)
  then have "js_num_toString ts (10 ^ 21) = ''1e+21''"
    unfolding js_num_toString_def fl using assms by simp
  then have "serializeToDecimalString ts (JNumber (Finite (10 ^ 21))) fld = Inr ''1e+21''"
    using i unfolding serializeToDecimalString_def by simp
  moreover have "\<not> DECIMAL_STRING_PATTERN ''1e+21''" by code_simp
  ultimately show ?thesis by blast
qed

theorem large_integer_not_decimal_witness:
  "(\<lambda>_. ''1e+21'') (10 ^ 21 :: rat) = ''1e+21'' \<and>
   serializeToDecimalString (\<lambda>_. ''1e+21'') (JNumber (Finite (10 ^ 21))) None = Inr ''1e+21''"
  using large_integer_not_decimal [of "\<lambda>_. ''1e+21''" None] by simp

end
