(* ===== verification/Stream_Status.thy ===== *)
theory Stream_Status
  imports Fluxora_Prelude
begin

text \<open>
  Stream status of \<open>src/streams/status.ts\<close>: the chain and API statuses and the mapping between
  them, the table of permitted API transitions, and the two derivations of a reported status, from a
  chain observation and from a stream's schedule.

  The lemmas show that the three places that say a status is final (the mapping's \<open>terminal\<close> flag,
  \<open>isTerminalStatus\<close> and the transition table) agree, that a terminal status is never left, that a
  derived status is \<open>unknown\<close> exactly for a value the chain does not define, and that the schedule only
  ever moves a stream along a permitted transition and never back.
\<close>

section \<open>Data\<close>

datatype ChainStreamStatus =
  Chain_pending | Chain_active | Chain_paused | Chain_completed | Chain_cancelled | Chain_depleted

datatype ApiStreamStatus = Api_active | Api_paused | Api_completed | Api_cancelled

datatype ReportedStreamStatus = Reported ApiStreamStatus | Unknown

datatype StatusReason = Reason_depleted

primrec chain_name :: "ChainStreamStatus \<Rightarrow> string" where
  "chain_name Chain_pending = ''pending''"
| "chain_name Chain_active = ''active''"
| "chain_name Chain_paused = ''paused''"
| "chain_name Chain_completed = ''completed''"
| "chain_name Chain_cancelled = ''cancelled''"
| "chain_name Chain_depleted = ''depleted''"

definition CHAIN_STREAM_STATUSES :: "ChainStreamStatus list" where
  "CHAIN_STREAM_STATUSES =
     [Chain_pending, Chain_active, Chain_paused, Chain_completed, Chain_cancelled, Chain_depleted]"

primrec api_name :: "ApiStreamStatus \<Rightarrow> string" where
  "api_name Api_active = ''active''"
| "api_name Api_paused = ''paused''"
| "api_name Api_completed = ''completed''"
| "api_name Api_cancelled = ''cancelled''"

definition API_STREAM_STATUSES :: "ApiStreamStatus list" where
  "API_STREAM_STATUSES = [Api_active, Api_paused, Api_completed, Api_cancelled]"

record StreamStatusMapping =
  map_chainStatus :: ChainStreamStatus
  map_status :: ApiStreamStatus
  map_terminal :: bool
  map_statusReason :: "StatusReason option"

section \<open>Operations\<close>

text \<open>A run-time value narrowed to a status: the value of the status list whose name it is, if any.\<close>

definition chain_of_value :: "jsval \<Rightarrow> ChainStreamStatus option" where
  "chain_of_value v =
     (case v of JString s \<Rightarrow> find (\<lambda>c. chain_name c = s) CHAIN_STREAM_STATUSES | _ \<Rightarrow> None)"

definition isChainStreamStatus :: "jsval \<Rightarrow> bool" where
  "isChainStreamStatus v \<longleftrightarrow>
     (case v of JString s \<Rightarrow> s \<in> set (map chain_name CHAIN_STREAM_STATUSES) | _ \<Rightarrow> False)"

definition api_of_value :: "jsval \<Rightarrow> ApiStreamStatus option" where
  "api_of_value v =
     (case v of JString s \<Rightarrow> find (\<lambda>c. api_name c = s) API_STREAM_STATUSES | _ \<Rightarrow> None)"

definition isApiStreamStatus :: "jsval \<Rightarrow> bool" where
  "isApiStreamStatus v \<longleftrightarrow>
     (case v of JString s \<Rightarrow> s \<in> set (map api_name API_STREAM_STATUSES) | _ \<Rightarrow> False)"

definition isReportedStreamStatus :: "jsval \<Rightarrow> bool" where
  "isReportedStreamStatus v \<longleftrightarrow> v = JString ''unknown'' \<or> isApiStreamStatus v"

definition defaultChainStatusForStartTime :: "int \<Rightarrow> int \<Rightarrow> ChainStreamStatus" where
  "defaultChainStatusForStartTime startTime now = (if now < startTime then Chain_pending else Chain_active)"

fun CHAIN_TO_API_STATUS :: "ChainStreamStatus \<Rightarrow> ApiStreamStatus \<times> bool \<times> StatusReason option" where
  "CHAIN_TO_API_STATUS Chain_pending = (Api_active, False, None)"
| "CHAIN_TO_API_STATUS Chain_active = (Api_active, False, None)"
| "CHAIN_TO_API_STATUS Chain_paused = (Api_paused, False, None)"
| "CHAIN_TO_API_STATUS Chain_completed = (Api_completed, True, None)"
| "CHAIN_TO_API_STATUS Chain_cancelled = (Api_cancelled, True, None)"
| "CHAIN_TO_API_STATUS Chain_depleted = (Api_completed, True, Some Reason_depleted)"

definition mapChainStatusToApiStatus :: "ChainStreamStatus \<Rightarrow> StreamStatusMapping" where
  "mapChainStatusToApiStatus c =
     (case CHAIN_TO_API_STATUS c of (s, t, r) \<Rightarrow>
        \<lparr>map_chainStatus = c, map_status = s, map_terminal = t, map_statusReason = r\<rparr>)"

fun VALID_API_TRANSITIONS :: "ApiStreamStatus \<Rightarrow> ApiStreamStatus list" where
  "VALID_API_TRANSITIONS Api_active = [Api_paused, Api_completed, Api_cancelled]"
| "VALID_API_TRANSITIONS Api_paused = [Api_active, Api_cancelled]"
| "VALID_API_TRANSITIONS Api_completed = []"
| "VALID_API_TRANSITIONS Api_cancelled = []"

definition isTerminalStatus :: "ReportedStreamStatus \<Rightarrow> bool" where
  "isTerminalStatus s \<longleftrightarrow> s = Reported Api_completed \<or> s = Reported Api_cancelled"

definition isValidApiTransition :: "ApiStreamStatus \<Rightarrow> ApiStreamStatus \<Rightarrow> bool" where
  "isValidApiTransition frm to \<longleftrightarrow> to \<in> set (VALID_API_TRANSITIONS frm)"

text \<open>\<open>None\<close> is \<open>{ ok: true }\<close>, \<open>Some m\<close> the rejection message.\<close>

definition assertValidApiTransition :: "ApiStreamStatus \<Rightarrow> ApiStreamStatus \<Rightarrow> string option" where
  "assertValidApiTransition frm to =
     (if isValidApiTransition frm to then None
      else if VALID_API_TRANSITIONS frm = []
      then Some (''Stream is already '' @ api_name frm @ '' and cannot be transitioned'')
      else Some (''Cannot transition stream from '' @ [CHR 0x27] @ api_name frm @ [CHR 0x27] @
                 '' to '' @ [CHR 0x27] @ api_name to @ [CHR 0x27]))"

definition DEFAULT_MAX_STALENESS_SECONDS :: int where
  "DEFAULT_MAX_STALENESS_SECONDS = 5 * 60"

record ChainStateObservation =
  obs_chainStatus :: jsval
  obs_observedAt :: int
  obs_ledger :: "int option"
  obs_now :: "int option"
  obs_maxStalenessSeconds :: "int option"

record DerivedStreamStatus =
  der_status :: ReportedStreamStatus
  der_terminal :: bool
  der_statusReason :: "StatusReason option"
  der_chainStatus :: "ChainStreamStatus option"
  der_stale :: bool
  der_ageSeconds :: int
  der_observedAt :: int
  der_ledger :: "int option"

text \<open>\<open>clock\<close> is the wall clock in seconds, used when the observation carries no \<open>now\<close>.\<close>

definition deriveStreamStatus :: "int \<Rightarrow> ChainStateObservation \<Rightarrow> DerivedStreamStatus" where
  "deriveStreamStatus clock obs =
     (let now = nullish (obs_now obs) clock;
          age = max 0 (now - obs_observedAt obs);
          maxStaleness = nullish (obs_maxStalenessSeconds obs) DEFAULT_MAX_STALENESS_SECONDS;
          stale = (maxStaleness < age)
      in case chain_of_value (obs_chainStatus obs) of
           None \<Rightarrow>
             \<lparr>der_status = Unknown, der_terminal = False, der_statusReason = None,
              der_chainStatus = None, der_stale = stale, der_ageSeconds = age,
              der_observedAt = obs_observedAt obs, der_ledger = obs_ledger obs\<rparr>
         | Some c \<Rightarrow>
             let mapping = mapChainStatusToApiStatus c
             in \<lparr>der_status = Reported (map_status mapping), der_terminal = map_terminal mapping,
                 der_statusReason = map_statusReason mapping,
                 der_chainStatus = Some (map_chainStatus mapping),
                 der_stale = stale, der_ageSeconds = age,
                 der_observedAt = obs_observedAt obs, der_ledger = obs_ledger obs\<rparr>)"

text \<open>The first component is \<open>ok\<close>; the message of a mismatch is left out.\<close>

definition assertReportedStatusMatchesChain ::
  "int \<Rightarrow> ReportedStreamStatus \<Rightarrow> ChainStateObservation \<Rightarrow> bool \<times> DerivedStreamStatus" where
  "assertReportedStatusMatchesChain clock reported obs =
     (let derived = deriveStreamStatus clock obs
      in if reported = der_status derived then (True, derived) else (False, derived))"

fun SCHEDULE_PRECEDENCE :: "ApiStreamStatus \<Rightarrow> nat" where
  "SCHEDULE_PRECEDENCE Api_cancelled = 0"
| "SCHEDULE_PRECEDENCE Api_completed = 0"
| "SCHEDULE_PRECEDENCE Api_paused = 1"
| "SCHEDULE_PRECEDENCE Api_active = 2"

record StreamScheduleInput =
  sch_startTime :: int
  sch_endTime :: int
  sch_status :: jsval
  sch_now :: "int option"

definition deriveStreamStatusFromSchedule :: "int \<Rightarrow> StreamScheduleInput \<Rightarrow> ApiStreamStatus \<times> bool" where
  "deriveStreamStatusFromSchedule clock input =
     (let now = nullish (sch_now input) clock;
          persisted = (case api_of_value (sch_status input) of Some s \<Rightarrow> s | None \<Rightarrow> Api_active);
          cliffCrossed = (sch_startTime input \<le> now);
          indefinite = (sch_endTime input = 0);
          matured = (\<not> indefinite \<and> sch_endTime input \<le> now)
      in if SCHEDULE_PRECEDENCE persisted < SCHEDULE_PRECEDENCE Api_active
         then (persisted, isTerminalStatus (Reported persisted))
         else if \<not> cliffCrossed then (Api_active, False)
         else if matured then (Api_completed, True)
         else (Api_active, False))"

section \<open>Transitions as a step relation\<close>

inductive api_step :: "ApiStreamStatus \<Rightarrow> ApiStreamStatus \<Rightarrow> bool" where
  transition: "isValidApiTransition frm to \<Longrightarrow> api_step frm to"

inductive_simps api_step_simps: "api_step frm to"

lemma VALID_mem [simp]:
  "to \<in> set (VALID_API_TRANSITIONS frm) \<longleftrightarrow>
     (frm = Api_active \<and> to \<noteq> Api_active) \<or> (frm = Api_paused \<and> (to = Api_active \<or> to = Api_cancelled))"
  by (cases frm; cases to) simp_all

lemma terminal_no_transition: "VALID_API_TRANSITIONS s = [] \<longleftrightarrow> isTerminalStatus (Reported s)"
  by (cases s) (simp_all add: isTerminalStatus_def)

lemma api_step_terminal: "isTerminalStatus (Reported s) \<Longrightarrow> \<not> api_step s t"
  by (auto simp: api_step_simps isValidApiTransition_def isTerminalStatus_def)

lemma api_reach_terminal:
  "api_step\<^sup>*\<^sup>* s t \<Longrightarrow> isTerminalStatus (Reported s) \<Longrightarrow> t = s"
  by (metis api_step_terminal converse_rtranclpE)

lemma api_reach_cancelled: "\<not> isTerminalStatus (Reported s) \<Longrightarrow> api_step s Api_cancelled"
  by (cases s) (auto simp: api_step_simps isValidApiTransition_def isTerminalStatus_def)

lemma chain_of_value_name [simp]: "chain_of_value (JString (chain_name c)) = Some c"
  by (cases c) (simp_all add: chain_of_value_def CHAIN_STREAM_STATUSES_def)

lemma chain_of_value_Some: "chain_of_value v = Some c \<longleftrightarrow> v = JString (chain_name c)"
proof
  assume "chain_of_value v = Some c"
  then show "v = JString (chain_name c)"
    by (auto simp: chain_of_value_def find_Some_iff split: jsval.splits)
qed simp

lemma isChainStreamStatus_iff: "isChainStreamStatus v \<longleftrightarrow> chain_of_value v \<noteq> None"
proof -
  have "x \<in> set CHAIN_STREAM_STATUSES" for x
    by (cases x) (simp_all add: CHAIN_STREAM_STATUSES_def)
  then have "isChainStreamStatus v \<longleftrightarrow> (\<exists>c. v = JString (chain_name c))"
    by (auto simp: isChainStreamStatus_def split: jsval.splits)
  then show ?thesis by (auto simp flip: chain_of_value_Some)
qed

section \<open>Properties\<close>

text \<open>The three notions of a final status agree: the chain mapping flags a status as terminal exactly
  when \<open>isTerminalStatus\<close> holds of the API status it maps to and when the transition table has no way
  out of it; a terminal status is never left along permitted transitions, and every other status can
  still be cancelled.\<close>

theorem terminal_consistent:
  "(map_terminal (mapChainStatusToApiStatus c) \<longleftrightarrow>
      isTerminalStatus (Reported (map_status (mapChainStatusToApiStatus c)))) \<and>
   (isTerminalStatus (Reported s) \<longleftrightarrow> VALID_API_TRANSITIONS s = []) \<and>
   (isTerminalStatus (Reported s) \<longleftrightarrow> (\<forall>t. api_step\<^sup>*\<^sup>* s t \<longleftrightarrow> t = s)) \<and>
   (api_step s Api_cancelled \<longleftrightarrow> \<not> isTerminalStatus (Reported s))"
proof (intro conjI)
  show "map_terminal (mapChainStatusToApiStatus c) \<longleftrightarrow>
      isTerminalStatus (Reported (map_status (mapChainStatusToApiStatus c)))"
    by (cases c) (simp_all add: mapChainStatusToApiStatus_def isTerminalStatus_def)
  show "isTerminalStatus (Reported s) \<longleftrightarrow> VALID_API_TRANSITIONS s = []"
    by (simp add: terminal_no_transition)
  show "isTerminalStatus (Reported s) \<longleftrightarrow> (\<forall>t. api_step\<^sup>*\<^sup>* s t \<longleftrightarrow> t = s)"
  proof
    assume "\<forall>t. api_step\<^sup>*\<^sup>* s t \<longleftrightarrow> t = s"
    then show "isTerminalStatus (Reported s)"
      using api_reach_cancelled [of s] by (metis isTerminalStatus_def r_into_rtranclp)
  qed (auto dest: api_reach_terminal)
  show "api_step s Api_cancelled \<longleftrightarrow> \<not> isTerminalStatus (Reported s)"
    using api_reach_cancelled api_step_terminal by blast
qed

text \<open>A derived status is never guessed: it is \<open>unknown\<close> exactly when the observed value is not one of
  the chain's status names, and otherwise is the mapped status of that name; the observation is
  reported stale exactly when it is older than the threshold, and its age is never negative.\<close>

theorem derived_status_faithful:
  "let d = deriveStreamStatus clock obs; now = nullish (obs_now obs) clock in
     (der_status d = Unknown \<longleftrightarrow> \<not> isChainStreamStatus (obs_chainStatus obs)) \<and>
     (der_chainStatus d = Some c \<longleftrightarrow> obs_chainStatus obs = JString (chain_name c)) \<and>
     (der_status d = Reported s \<longleftrightarrow>
        (\<exists>c. obs_chainStatus obs = JString (chain_name c) \<and> s = map_status (mapChainStatusToApiStatus c))) \<and>
     (der_terminal d \<longleftrightarrow> isTerminalStatus (der_status d)) \<and>
     0 \<le> der_ageSeconds d \<and>
     (der_stale d \<longleftrightarrow>
        nullish (obs_maxStalenessSeconds obs) DEFAULT_MAX_STALENESS_SECONDS < max 0 (now - obs_observedAt obs))"
proof (cases "chain_of_value (obs_chainStatus obs)")
  case None
  then have "\<And>c. obs_chainStatus obs \<noteq> JString (chain_name c)" by auto
  with None show ?thesis
    by (simp add: deriveStreamStatus_def Let_def isChainStreamStatus_iff isTerminalStatus_def)
next
  case (Some c')
  then have v: "obs_chainStatus obs = JString (chain_name c')" by (simp add: chain_of_value_Some)
  have inj: "chain_name c' = chain_name x \<longleftrightarrow> x = c'" for x
    by (cases c'; cases x) simp_all
  have t: "map_terminal (mapChainStatusToApiStatus c') \<longleftrightarrow>
      isTerminalStatus (Reported (map_status (mapChainStatusToApiStatus c')))"
    by (cases c') (simp_all add: mapChainStatusToApiStatus_def isTerminalStatus_def)
  have m: "map_chainStatus (mapChainStatusToApiStatus c') = c'"
    by (cases c') (simp_all add: mapChainStatusToApiStatus_def)
  show ?thesis
    unfolding deriveStreamStatus_def Let_def v using inj t
    by (auto simp: isChainStreamStatus_iff m)
qed

lemma api_of_value_inj: "api_of_value (JString (api_name s)) = Some s"
  by (cases s) (simp_all add: api_of_value_def API_STREAM_STATUSES_def)

text \<open>(C27) The schedule is monotone and legal: at any time the derived status of a stream whose persisted
  status is \<open>s\<close> is \<open>s\<close> itself or one permitted transition away from it, its terminal flag is that of
  \<open>isTerminalStatus\<close>, and once it is terminal it is the same at every later time.\<close>

theorem schedule_status_monotone:
  assumes "sch_status input = JString (api_name s)" "t \<le> t'"
  shows "let r = deriveStreamStatusFromSchedule clock (input\<lparr>sch_now := Some t\<rparr>);
             r' = deriveStreamStatusFromSchedule clock (input\<lparr>sch_now := Some t'\<rparr>)
         in (fst r = s \<or> isValidApiTransition s (fst r)) \<and>
            (snd r \<longleftrightarrow> isTerminalStatus (Reported (fst r))) \<and>
            (snd r \<longrightarrow> r' = r)"
proof -
  have p: "api_of_value (sch_status input) = Some s"
    using assms(1) by (simp add: api_of_value_inj)
  show ?thesis
    using assms(2)
    by (cases s) (auto simp: deriveStreamStatusFromSchedule_def Let_def p isTerminalStatus_def
        isValidApiTransition_def)
qed

theorem schedule_status_monotone_witness:
  "let input = \<lparr>sch_startTime = 10, sch_endTime = 20, sch_status = JString ''active'', sch_now = None\<rparr>
   in sch_status input = JString (api_name Api_active) \<and>
      deriveStreamStatusFromSchedule 0 (input\<lparr>sch_now := Some 20\<rparr>) = (Api_completed, True) \<and>
      deriveStreamStatusFromSchedule 0 (input\<lparr>sch_now := Some 30\<rparr>) = (Api_completed, True)"
proof -
  let ?i = "\<lparr>sch_startTime = 10, sch_endTime = 20, sch_status = JString ''active'', sch_now = None\<rparr>"
  have h: "sch_status ?i = JString (api_name Api_active)" "(20 :: int) \<le> 30" by simp_all
  have e: "deriveStreamStatusFromSchedule 0 (?i\<lparr>sch_now := Some 20\<rparr>) = (Api_completed, True)"
    by (simp add: deriveStreamStatusFromSchedule_def api_of_value_def API_STREAM_STATUSES_def)
  show ?thesis
    using schedule_status_monotone [OF h, of 0] e h(1) unfolding Let_def by auto
qed

text \<open>\<open>assertReportedStatusMatchesChain\<close> accepts a report exactly when it is the derived status, so an
  uninterpretable chain value only ever matches the report \<open>unknown\<close>.\<close>

theorem reported_status_check:
  "(fst (assertReportedStatusMatchesChain clock r obs) \<longleftrightarrow> r = der_status (deriveStreamStatus clock obs)) \<and>
   snd (assertReportedStatusMatchesChain clock r obs) = deriveStreamStatus clock obs \<and>
   (fst (assertReportedStatusMatchesChain clock Unknown obs) \<longleftrightarrow> \<not> isChainStreamStatus (obs_chainStatus obs))"
proof -
  have "der_status (deriveStreamStatus clock obs) = Unknown \<longleftrightarrow> \<not> isChainStreamStatus (obs_chainStatus obs)"
    by (auto simp: deriveStreamStatus_def Let_def isChainStreamStatus_iff split: option.splits)
  then show ?thesis
    by (auto simp: assertReportedStatusMatchesChain_def Let_def)
qed

end
