(* ===== verification/Circuit_Breaker.thy ===== *)
theory Circuit_Breaker
  imports Fluxora_Prelude
begin

text \<open>
  The per-receiver circuit breaker of \<open>src/redis/webhookCircuitBreakerStore.ts\<close>: the policy, the
  stored record, the receiver-facing description, and the in-memory store with its three operations.

  The store's state is the two \<open>Map\<close>s of the class, \<open>states\<close> and \<open>probes\<close>, and the transitions
  counted by \<open>emit\<close>, newest last. \<open>hashConsumerUrl\<close> (a SHA-256 prefix) is the parameter \<open>hash\<close>;
  \<open>Date.now()\<close> in \<open>recordSuccess\<close> is the argument \<open>clock\<close>.

  The lemmas give the state machine the file documents: when a circuit opens, that an open circuit
  admits exactly one probe, which transitions can be counted, that receivers with different hashes do
  not interfere, and that the description says what the gate will do.
\<close>

section \<open>Data\<close>

record CircuitBreakerPolicy =
  circuitBreakerThreshold :: "int option"
  circuitBreakerResetMs :: "int option"

datatype WebhookCircuitBreakerPhase = Closed | Open | HalfOpen

record WebhookCircuitBreakerRecord =
  cb_state :: WebhookCircuitBreakerPhase
  cb_consecutiveFailures :: int
  cb_resetAt :: int
  cb_lastFailureAt :: "int option"
  cb_expiresAt :: int

record WebhookCircuitBreakerCheckResult =
  chk_allowed :: bool
  chk_state :: WebhookCircuitBreakerPhase
  chk_consecutiveFailures :: int
  chk_resetAt :: "int option"

datatype WebhookCircuitBreakerPauseReason =
  Deliveries_allowed | Failure_threshold | Reset_elapsed | Half_open_probe_in_flight

record WebhookCircuitBreakerStatus =
  sts_state :: WebhookCircuitBreakerPhase
  sts_paused :: bool
  sts_reason :: WebhookCircuitBreakerPauseReason
  sts_consecutiveFailures :: int
  sts_threshold :: int
  sts_resetMs :: int
  sts_lastFailureAt :: "int option"
  sts_resumeAt :: "int option"

record InMemoryWebhookCircuitBreakerStore =
  cbs_states :: "(string, WebhookCircuitBreakerRecord) jsmap"
  cbs_probes :: "(string, int) jsmap"
  cbs_transitions :: "(WebhookCircuitBreakerPhase \<times> WebhookCircuitBreakerPhase \<times> string) list"

definition DEFAULT_WEBHOOK_CIRCUIT_BREAKER_THRESHOLD :: int where
  "DEFAULT_WEBHOOK_CIRCUIT_BREAKER_THRESHOLD = 0"

definition DEFAULT_WEBHOOK_CIRCUIT_BREAKER_RESET_MS :: int where
  "DEFAULT_WEBHOOK_CIRCUIT_BREAKER_RESET_MS = 300000"

definition WEBHOOK_CIRCUIT_BREAKER_PROBE_LOCK_MAX_MS :: int where
  "WEBHOOK_CIRCUIT_BREAKER_PROBE_LOCK_MAX_MS = 60000"

definition WEBHOOK_CIRCUIT_BREAKER_STATE_TTL_FLOOR_MS :: int where
  "WEBHOOK_CIRCUIT_BREAKER_STATE_TTL_FLOOR_MS = 300000"

section \<open>Operations\<close>

definition closed_record :: WebhookCircuitBreakerRecord where
  "closed_record = \<lparr>cb_state = Closed, cb_consecutiveFailures = 0, cb_resetAt = 0,
                    cb_lastFailureAt = None, cb_expiresAt = 0\<rparr>"

definition cb_threshold :: "CircuitBreakerPolicy \<Rightarrow> int" where
  "cb_threshold policy = nullish (circuitBreakerThreshold policy) DEFAULT_WEBHOOK_CIRCUIT_BREAKER_THRESHOLD"

definition cb_resetMs :: "CircuitBreakerPolicy \<Rightarrow> int" where
  "cb_resetMs policy = nullish (circuitBreakerResetMs policy) DEFAULT_WEBHOOK_CIRCUIT_BREAKER_RESET_MS"

text \<open>\<open>Math.ceil(x / 1000)\<close>\<close>

definition ttlSec :: "CircuitBreakerPolicy \<Rightarrow> int" where
  "ttlSec policy = - (- max (cb_resetMs policy * 2) WEBHOOK_CIRCUIT_BREAKER_STATE_TTL_FLOOR_MS div 1000)"

definition ttlMs :: "CircuitBreakerPolicy \<Rightarrow> int" where
  "ttlMs policy = ttlSec policy * 1000"

definition emit ::
  "(string \<Rightarrow> string) \<Rightarrow> WebhookCircuitBreakerPhase \<Rightarrow> WebhookCircuitBreakerPhase \<Rightarrow> string \<Rightarrow>
   InMemoryWebhookCircuitBreakerStore \<Rightarrow> InMemoryWebhookCircuitBreakerStore" where
  "emit hash frm to url s =
     (if frm \<noteq> to then s\<lparr>cbs_transitions := cbs_transitions s @ [(frm, to, hash url)]\<rparr> else s)"

definition describeWebhookCircuitBreaker ::
  "WebhookCircuitBreakerRecord option \<Rightarrow> CircuitBreakerPolicy \<Rightarrow> millis \<Rightarrow> WebhookCircuitBreakerStatus" where
  "describeWebhookCircuitBreaker r policy now =
     (let threshold = cb_threshold policy;
          resetMs = cb_resetMs policy;
          current = nullish r closed_record
      in case cb_state current of
           Closed \<Rightarrow>
             \<lparr>sts_state = Closed, sts_paused = False, sts_reason = Deliveries_allowed,
              sts_consecutiveFailures = cb_consecutiveFailures current, sts_threshold = threshold,
              sts_resetMs = resetMs, sts_lastFailureAt = cb_lastFailureAt current, sts_resumeAt = None\<rparr>
         | Open \<Rightarrow>
             if now < cb_resetAt current
             then \<lparr>sts_state = Open, sts_paused = True, sts_reason = Failure_threshold,
                   sts_consecutiveFailures = cb_consecutiveFailures current, sts_threshold = threshold,
                   sts_resetMs = resetMs, sts_lastFailureAt = cb_lastFailureAt current,
                   sts_resumeAt = Some (cb_resetAt current)\<rparr>
             else \<lparr>sts_state = Open, sts_paused = False, sts_reason = Reset_elapsed,
                   sts_consecutiveFailures = cb_consecutiveFailures current, sts_threshold = threshold,
                   sts_resetMs = resetMs, sts_lastFailureAt = cb_lastFailureAt current,
                   sts_resumeAt = None\<rparr>
         | HalfOpen \<Rightarrow>
             \<lparr>sts_state = HalfOpen, sts_paused = True, sts_reason = Half_open_probe_in_flight,
              sts_consecutiveFailures = cb_consecutiveFailures current, sts_threshold = threshold,
              sts_resetMs = resetMs, sts_lastFailureAt = cb_lastFailureAt current,
              sts_resumeAt = Some (if 0 < cb_expiresAt current then cb_expiresAt current
                 else now + min resetMs WEBHOOK_CIRCUIT_BREAKER_PROBE_LOCK_MAX_MS)\<rparr>)"

definition checkAndClaimAttempt ::
  "(string \<Rightarrow> string) \<Rightarrow> InMemoryWebhookCircuitBreakerStore \<Rightarrow> string \<Rightarrow> CircuitBreakerPolicy \<Rightarrow> millis \<Rightarrow>
   WebhookCircuitBreakerCheckResult \<times> InMemoryWebhookCircuitBreakerStore" where
  "checkAndClaimAttempt hash s url policy now =
     (if cb_threshold policy \<le> 0
      then (\<lparr>chk_allowed = True, chk_state = Closed, chk_consecutiveFailures = 0, chk_resetAt = None\<rparr>, s)
      else
        let key = hash url;
            r = nullish (map_get (cbs_states s) key) closed_record
        in case cb_state r of
             Closed \<Rightarrow>
               (\<lparr>chk_allowed = True, chk_state = Closed,
                 chk_consecutiveFailures = cb_consecutiveFailures r, chk_resetAt = None\<rparr>, s)
           | Open \<Rightarrow>
               if now < cb_resetAt r
               then (\<lparr>chk_allowed = False, chk_state = Open,
                      chk_consecutiveFailures = cb_consecutiveFailures r,
                      chk_resetAt = Some (cb_resetAt r)\<rparr>, s)
               else if (case map_get (cbs_probes s) key of None \<Rightarrow> False | Some e \<Rightarrow> now < e)
               then (\<lparr>chk_allowed = False, chk_state = HalfOpen,
                      chk_consecutiveFailures = cb_consecutiveFailures r,
                      chk_resetAt = Some (cb_resetAt r)\<rparr>, s)
               else let expiry = now + min (cb_resetMs policy) WEBHOOK_CIRCUIT_BREAKER_PROBE_LOCK_MAX_MS;
                        s1 = s\<lparr>cbs_probes := map_set key expiry (cbs_probes s),
                               cbs_states := map_set key
                                 \<lparr>cb_state = HalfOpen, cb_consecutiveFailures = cb_consecutiveFailures r,
                                  cb_resetAt = 0, cb_lastFailureAt = cb_lastFailureAt r,
                                  cb_expiresAt = now + ttlMs policy\<rparr> (cbs_states s)\<rparr>
                    in (\<lparr>chk_allowed = True, chk_state = HalfOpen,
                         chk_consecutiveFailures = cb_consecutiveFailures r, chk_resetAt = None\<rparr>,
                        emit hash Open HalfOpen url s1)
           | HalfOpen \<Rightarrow>
               (\<lparr>chk_allowed = False, chk_state = HalfOpen,
                 chk_consecutiveFailures = cb_consecutiveFailures r, chk_resetAt = None\<rparr>, s))"

definition recordSuccess ::
  "(string \<Rightarrow> string) \<Rightarrow> InMemoryWebhookCircuitBreakerStore \<Rightarrow> string \<Rightarrow> CircuitBreakerPolicy \<Rightarrow> millis \<Rightarrow>
   WebhookCircuitBreakerRecord \<times> InMemoryWebhookCircuitBreakerStore" where
  "recordSuccess hash s url policy clock =
     (let key = hash url;
          previous = nullish (map_get (cbs_states s) key) closed_record;
          nxt = closed_record\<lparr>cb_expiresAt := clock + ttlMs policy\<rparr>;
          s1 = s\<lparr>cbs_states := map_set key nxt (cbs_states s),
                 cbs_probes := map_delete key (cbs_probes s)\<rparr>
      in (nxt, if cb_state previous \<noteq> Closed then emit hash (cb_state previous) Closed url s1 else s1))"

definition recordFailure ::
  "(string \<Rightarrow> string) \<Rightarrow> InMemoryWebhookCircuitBreakerStore \<Rightarrow> string \<Rightarrow> CircuitBreakerPolicy \<Rightarrow> millis \<Rightarrow>
   WebhookCircuitBreakerRecord \<times> InMemoryWebhookCircuitBreakerStore" where
  "recordFailure hash s url policy now =
     (if cb_threshold policy \<le> 0 then (closed_record, s)
      else
        let key = hash url;
            previous = nullish (map_get (cbs_states s) key) closed_record;
            expiresAt = now + ttlMs policy;
            failures = cb_consecutiveFailures previous + 1;
            nxt =
              (if cb_state previous = HalfOpen
               then \<lparr>cb_state = Open, cb_consecutiveFailures = cb_consecutiveFailures previous,
                     cb_resetAt = now + cb_resetMs policy, cb_lastFailureAt = Some now,
                     cb_expiresAt = expiresAt\<rparr>
               else if cb_threshold policy \<le> failures
               then \<lparr>cb_state = Open, cb_consecutiveFailures = failures,
                     cb_resetAt = now + cb_resetMs policy, cb_lastFailureAt = Some now,
                     cb_expiresAt = expiresAt\<rparr>
               else \<lparr>cb_state = Closed, cb_consecutiveFailures = failures, cb_resetAt = 0,
                     cb_lastFailureAt = Some now, cb_expiresAt = expiresAt\<rparr>);
            s1 = (if cb_state previous = HalfOpen then emit hash HalfOpen Open url s
                  else if cb_state nxt = Open
                  then emit hash (if cb_state previous = Open then Open else Closed) Open url s
                  else s)
        in (nxt, s1\<lparr>cbs_states := map_set key nxt (cbs_states s1),
                    cbs_probes := map_delete key (cbs_probes s1)\<rparr>))"

definition cb_getState ::
  "(string \<Rightarrow> string) \<Rightarrow> InMemoryWebhookCircuitBreakerStore \<Rightarrow> string \<Rightarrow> WebhookCircuitBreakerRecord option" where
  "cb_getState hash s url = map_get (cbs_states s) (hash url)"

definition cb_empty :: InMemoryWebhookCircuitBreakerStore where
  "cb_empty = \<lparr>cbs_states = [], cbs_probes = [], cbs_transitions = []\<rparr>"

definition cb_close :: "InMemoryWebhookCircuitBreakerStore \<Rightarrow> InMemoryWebhookCircuitBreakerStore" where
  "cb_close s = s\<lparr>cbs_states := [], cbs_probes := []\<rparr>"

text \<open>The store's operations as data, and one step of the store.\<close>

datatype cb_op =
    Check string CircuitBreakerPolicy millis
  | Success string CircuitBreakerPolicy millis
  | Failure string CircuitBreakerPolicy millis

primrec cb_step ::
  "(string \<Rightarrow> string) \<Rightarrow> InMemoryWebhookCircuitBreakerStore \<Rightarrow> cb_op \<Rightarrow> InMemoryWebhookCircuitBreakerStore" where
  "cb_step hash s (Check u p t) = snd (checkAndClaimAttempt hash s u p t)"
| "cb_step hash s (Success u p t) = snd (recordSuccess hash s u p t)"
| "cb_step hash s (Failure u p t) = snd (recordFailure hash s u p t)"

primrec cb_op_url :: "cb_op \<Rightarrow> string" where
  "cb_op_url (Check u p t) = u"
| "cb_op_url (Success u p t) = u"
| "cb_op_url (Failure u p t) = u"

section \<open>What each operation does to the record of a receiver\<close>

abbreviation cb_lookup ::
  "(string \<Rightarrow> string) \<Rightarrow> InMemoryWebhookCircuitBreakerStore \<Rightarrow> string \<Rightarrow> WebhookCircuitBreakerRecord" where
  "cb_lookup hash s url \<equiv> nullish (map_get (cbs_states s) (hash url)) closed_record"

lemma emit_fields [simp]:
  "cbs_states (emit hash f t u s) = cbs_states s" "cbs_probes (emit hash f t u s) = cbs_probes s"
  by (simp_all add: emit_def)

lemma closed_record_fields [simp]:
  "cb_state closed_record = Closed" "cb_consecutiveFailures closed_record = 0"
  by (simp_all add: closed_record_def)

definition probe_live :: "(string \<Rightarrow> string) \<Rightarrow> InMemoryWebhookCircuitBreakerStore \<Rightarrow> string \<Rightarrow> millis \<Rightarrow> bool" where
  "probe_live hash s url now \<longleftrightarrow>
     (case map_get (cbs_probes s) (hash url) of None \<Rightarrow> False | Some e \<Rightarrow> now < e)"

lemma check_allowed_iff:
  assumes "0 < cb_threshold p"
  shows "chk_allowed (fst (checkAndClaimAttempt hash s u p now)) \<longleftrightarrow>
    cb_state (cb_lookup hash s u) = Closed \<or>
    cb_state (cb_lookup hash s u) = Open \<and> cb_resetAt (cb_lookup hash s u) \<le> now \<and> \<not> probe_live hash s u now"
  using assms
  by (cases "cb_state (cb_lookup hash s u)"; cases "map_get (cbs_probes s) (hash u)";
      simp add: checkAndClaimAttempt_def Let_def probe_live_def)

lemma check_claims_probe:
  assumes "0 < cb_threshold p" "cb_state (cb_lookup hash s u) = Open"
    "chk_allowed (fst (checkAndClaimAttempt hash s u p now))"
  shows "cb_state (cb_lookup hash (snd (checkAndClaimAttempt hash s u p now)) u) = HalfOpen"
  using assms
  by (cases "map_get (cbs_probes s) (hash u)"; simp add: checkAndClaimAttempt_def Let_def split: if_splits)

lemma check_halfopen:
  "cb_state (cb_lookup hash s u) = HalfOpen \<Longrightarrow> 0 < cb_threshold p \<Longrightarrow>
   checkAndClaimAttempt hash s u p now =
     (\<lparr>chk_allowed = False, chk_state = HalfOpen,
       chk_consecutiveFailures = cb_consecutiveFailures (cb_lookup hash s u), chk_resetAt = None\<rparr>, s)"
  by (simp add: checkAndClaimAttempt_def Let_def)

lemma failure_record:
  assumes "0 < cb_threshold p"
  shows "cb_lookup hash (snd (recordFailure hash s u p now)) u = fst (recordFailure hash s u p now)"
  using assms by (simp add: recordFailure_def Let_def)

lemma success_record:
  "cb_lookup hash (snd (recordSuccess hash s u p now)) u = fst (recordSuccess hash s u p now)"
  by (simp add: recordSuccess_def Let_def)

section \<open>Isolation and the probe invariant\<close>

text \<open>A probe reservation exists only while the circuit is half-open, and both \<open>Map\<close>s have one entry
  per key.\<close>

definition cb_inv :: "InMemoryWebhookCircuitBreakerStore \<Rightarrow> bool" where
  "cb_inv s \<longleftrightarrow> map_wf (cbs_states s) \<and> map_wf (cbs_probes s) \<and>
     (\<forall>k e. map_get (cbs_probes s) k = Some e \<longrightarrow>
        (\<exists>r. map_get (cbs_states s) k = Some r \<and> cb_state r = HalfOpen)) \<and>
     (\<forall>k r. map_get (cbs_states s) k = Some r \<longrightarrow> 0 \<le> cb_consecutiveFailures r)"

text \<open>The transitions the store may count.\<close>

definition cb_edge :: "WebhookCircuitBreakerPhase \<Rightarrow> WebhookCircuitBreakerPhase \<Rightarrow> bool" where
  "cb_edge a b \<longleftrightarrow> (a, b) \<in> {(Closed, Open), (Open, HalfOpen), (HalfOpen, Open), (Open, Closed), (HalfOpen, Closed)}"

definition cb_log_inv :: "InMemoryWebhookCircuitBreakerStore \<Rightarrow> bool" where
  "cb_log_inv s \<longleftrightarrow> (\<forall>a b h. (a, b, h) \<in> set (cbs_transitions s) \<longrightarrow> cb_edge a b)"

lemma check_cases:
  "checkAndClaimAttempt hash s u p now = (c, s') \<Longrightarrow>
   s' = s \<or>
   (cb_state (cb_lookup hash s u) = Open \<and> cb_resetAt (cb_lookup hash s u) \<le> now \<and>
    chk_allowed c \<and> 0 < cb_threshold p \<and>
    s' = emit hash Open HalfOpen u (s\<lparr>
        cbs_probes := map_set (hash u)
          (now + min (cb_resetMs p) WEBHOOK_CIRCUIT_BREAKER_PROBE_LOCK_MAX_MS) (cbs_probes s),
        cbs_states := map_set (hash u)
          \<lparr>cb_state = HalfOpen, cb_consecutiveFailures = cb_consecutiveFailures (cb_lookup hash s u),
           cb_resetAt = 0, cb_lastFailureAt = cb_lastFailureAt (cb_lookup hash s u),
           cb_expiresAt = now + ttlMs p\<rparr> (cbs_states s)\<rparr>))"
  by (cases "cb_state (cb_lookup hash s u)"; cases "map_get (cbs_probes s) (hash u)";
      simp add: checkAndClaimAttempt_def Let_def split: if_splits; fastforce)

lemma cb_lookup_nonneg: "cb_inv s \<Longrightarrow> 0 \<le> cb_consecutiveFailures (cb_lookup hash s u)"
  by (cases "map_get (cbs_states s) (hash u)") (auto simp: cb_inv_def)

lemma cb_inv_check:
  assumes "cb_inv s"
  shows "cb_inv (snd (checkAndClaimAttempt hash s u p now))"
proof -
  obtain c s' where e: "checkAndClaimAttempt hash s u p now = (c, s')" by fastforce
  from check_cases [OF e] cb_lookup_nonneg [OF assms, of hash u] assms show ?thesis
    by (auto simp: e cb_inv_def split: if_splits)
qed

lemma cb_inv_success: "cb_inv s \<Longrightarrow> cb_inv (snd (recordSuccess hash s u p now))"
  by (auto simp: cb_inv_def recordSuccess_def Let_def closed_record_def split: if_splits)

lemma cb_inv_failure:
  assumes "cb_inv s"
  shows "cb_inv (snd (recordFailure hash s u p now))"
proof (cases "cb_threshold p \<le> 0")
  case True
  with assms show ?thesis by (simp add: recordFailure_def)
next
  case False
  define r where "r = fst (recordFailure hash s u p now)"
  have "0 \<le> cb_consecutiveFailures r"
    using False cb_lookup_nonneg [OF assms, of hash u] by (simp add: r_def recordFailure_def Let_def)
  moreover have "cbs_states (snd (recordFailure hash s u p now)) = map_set (hash u) r (cbs_states s)"
      "cbs_probes (snd (recordFailure hash s u p now)) = map_delete (hash u) (cbs_probes s)"
    using False by (simp_all add: r_def recordFailure_def Let_def)
  ultimately show ?thesis using assms by (auto simp: cb_inv_def split: if_splits)
qed

lemma cb_step_inv: "cb_inv s \<Longrightarrow> cb_inv (cb_step hash s x)"
  by (cases x) (simp_all add: cb_inv_check cb_inv_success cb_inv_failure)

lemma cb_edge_simps [simp]:
  "cb_edge Closed Open" "cb_edge Open HalfOpen" "cb_edge HalfOpen Open" "cb_edge Open Closed"
  "cb_edge HalfOpen Closed"
  by (simp_all add: cb_edge_def)

lemma emit_log:
  "f = t \<or> cb_edge f t \<Longrightarrow>
   \<exists>l. cbs_transitions (emit hash f t u s) = cbs_transitions s @ l \<and> (\<forall>(a, b, h) \<in> set l. cb_edge a b)"
  by (auto simp: emit_def)

lemma cb_step_log:
  "\<exists>l. cbs_transitions (cb_step hash s x) = cbs_transitions s @ l \<and> (\<forall>(a, b, h) \<in> set l. cb_edge a b)"
proof (cases x)
  case (Check u p t)
  obtain c s' where e: "checkAndClaimAttempt hash s u p t = (c, s')" by fastforce
  from check_cases [OF e] have "s' = s \<or> cbs_transitions s' = cbs_transitions s @ [(Open, HalfOpen, hash u)]"
    by (auto simp: emit_def)
  then show ?thesis using Check e by fastforce
next
  case (Success u p t)
  then show ?thesis
    by (cases "cb_state (cb_lookup hash s u)") (simp_all add: recordSuccess_def Let_def emit_def)
next
  case (Failure u p t)
  then show ?thesis
    by (cases "cb_state (cb_lookup hash s u)") (simp_all add: recordFailure_def Let_def emit_def)
qed

lemma cb_log_step: "cb_log_inv s \<Longrightarrow> cb_log_inv (cb_step hash s x)"
  using cb_step_log [of hash s x] unfolding cb_log_inv_def by fastforce

text \<open>Both invariants hold along every run of the store (\<open>op_invariant\<close>).\<close>

interpretation cb_run: op_invariant "cb_step hash" "\<lambda>s. cb_inv s \<and> cb_log_inv s" for hash
  by unfold_locales (simp add: cb_step_inv cb_log_step)

lemma cb_step_isolated:
  assumes "hash (cb_op_url x) \<noteq> k"
  shows "map_get (cbs_states (cb_step hash s x)) k = map_get (cbs_states s) k \<and>
     map_get (cbs_probes (cb_step hash s x)) k = map_get (cbs_probes s) k"
proof (cases x)
  case (Check u p t)
  obtain c s' where e: "checkAndClaimAttempt hash s u p t = (c, s')" by fastforce
  from check_cases [OF e] assms show ?thesis by (auto simp: Check e)
next
  case (Success u p t)
  with assms show ?thesis by (simp add: recordSuccess_def Let_def)
next
  case (Failure u p t)
  with assms show ?thesis by (simp add: recordFailure_def Let_def)
qed

lemma cb_run_isolated:
  "(\<And>x. x \<in> set xs \<Longrightarrow> hash (cb_op_url x) \<noteq> k) \<Longrightarrow>
   map_get (cbs_states (foldl (cb_step hash) s xs)) k = map_get (cbs_states s) k \<and>
   map_get (cbs_probes (foldl (cb_step hash) s xs)) k = map_get (cbs_probes s) k"
proof (induction xs arbitrary: s)
  case (Cons x xs)
  then show ?case
    using cb_step_isolated [of hash x k s] by simp
qed simp

lemma check_local:
  assumes "map_get (cbs_states s) (hash u) = map_get (cbs_states t) (hash u)"
    "map_get (cbs_probes s) (hash u) = map_get (cbs_probes t) (hash u)"
  shows "fst (checkAndClaimAttempt hash s u p now) = fst (checkAndClaimAttempt hash t u p now)"
  using assms
  by (cases "cb_state (cb_lookup hash t u)"; cases "map_get (cbs_probes t) (hash u)";
      simp add: checkAndClaimAttempt_def Let_def)

section \<open>Properties\<close>

lemma halfopen_step:
  assumes "cb_state (cb_lookup hash s u) = HalfOpen"
    "hash (cb_op_url x) \<noteq> hash u \<or> (\<exists>v p t. x = Check v p t)"
  shows "cb_state (cb_lookup hash (cb_step hash s x) u) = HalfOpen"
proof (cases "hash (cb_op_url x) = hash u")
  case False
  with cb_step_isolated [of hash x "hash u" s] assms(1) show ?thesis by simp
next
  case True
  with assms(2) obtain v p t where x: "x = Check v p t" "hash v = hash u" by auto
  have "cb_state (cb_lookup hash s v) = HalfOpen" using assms(1) x by simp
  then have "snd (checkAndClaimAttempt hash s v p t) = s"
    by (simp add: checkAndClaimAttempt_def Let_def)
  then show ?thesis using assms(1) x by simp
qed

lemma halfopen_run:
  assumes "cb_state (cb_lookup hash s u) = HalfOpen"
    "\<And>x. x \<in> set xs \<Longrightarrow> hash (cb_op_url x) \<noteq> hash u \<or> (\<exists>v p t. x = Check v p t)"
  shows "cb_state (cb_lookup hash (foldl (cb_step hash) s xs) u) = HalfOpen"
  using assms
proof (induction xs arbitrary: s)
  case (Cons x xs)
  have "cb_state (cb_lookup hash (cb_step hash s x) u) = HalfOpen"
    using Cons.prems by (intro halfopen_step) auto
  with Cons show ?case by simp
qed simp


definition demo_policy :: CircuitBreakerPolicy where
  "demo_policy = \<lparr>circuitBreakerThreshold = Some 2, circuitBreakerResetMs = Some 1000\<rparr>"


lemma failures_count:
  assumes "cb_state (cb_lookup hash s u) = Closed"
    "cb_consecutiveFailures (cb_lookup hash s u) + int (length ts) < cb_threshold p" "0 < cb_threshold p"
  shows "cb_state (cb_lookup hash (foldl (cb_step hash) s (map (Failure u p) ts)) u) = Closed \<and>
    cb_consecutiveFailures (cb_lookup hash (foldl (cb_step hash) s (map (Failure u p) ts)) u) =
      cb_consecutiveFailures (cb_lookup hash s u) + int (length ts)"
  using assms
proof (induction ts arbitrary: s)
  case (Cons t ts)
  have "cb_state (cb_lookup hash (cb_step hash s (Failure u p t)) u) = Closed"
    "cb_consecutiveFailures (cb_lookup hash (cb_step hash s (Failure u p t)) u) =
       cb_consecutiveFailures (cb_lookup hash s u) + 1"
    using Cons.prems by (simp_all add: recordFailure_def Let_def)
  with Cons show ?case by simp
qed simp

text \<open>The failure threshold is exact: from a closed circuit with no failures, \<open>threshold - 1\<close>
  consecutive failures leave it closed and allowing deliveries, and the next failure, at time \<open>t\<close>,
  opens it: every check before \<open>t + resetMs\<close> is denied and the first check from then on is admitted
  as the probe.\<close>

theorem threshold_opens:
  assumes "0 < cb_threshold p" "cb_lookup hash s u = closed_record"
    "length ts + 1 = nat (cb_threshold p)"
  shows "let s1 = foldl (cb_step hash) s (map (Failure u p) ts); s2 = cb_step hash s1 (Failure u p t)
     in chk_allowed (fst (checkAndClaimAttempt hash s1 u p now)) \<and>
        chk_state (fst (checkAndClaimAttempt hash s1 u p now)) = Closed \<and>
        (chk_allowed (fst (checkAndClaimAttempt hash s2 u p now)) \<longleftrightarrow> t + cb_resetMs p \<le> now) \<and>
        cb_consecutiveFailures (cb_lookup hash s2 u) = cb_threshold p"
proof -
  let ?s1 = "foldl (cb_step hash) s (map (Failure u p) ts)"
  have c: "cb_state (cb_lookup hash ?s1 u) = Closed"
      "cb_consecutiveFailures (cb_lookup hash ?s1 u) = int (length ts)"
    using failures_count [where hash = hash and s = s and u = u and ts = ts and p = p] assms
    by (simp_all add: nat_eq_iff)
  have n: "cb_threshold p = int (length ts) + 1" using assms by simp
  have r: "cb_lookup hash (cb_step hash ?s1 (Failure u p t)) u =
      \<lparr>cb_state = Open, cb_consecutiveFailures = cb_threshold p, cb_resetAt = t + cb_resetMs p,
       cb_lastFailureAt = Some t, cb_expiresAt = t + ttlMs p\<rparr>"
    using c n by (simp add: recordFailure_def Let_def)
  have "\<not> probe_live hash (cb_step hash ?s1 (Failure u p t)) u now"
    using assms(1) by (simp add: probe_live_def recordFailure_def Let_def)
  then show ?thesis
    unfolding Let_def check_allowed_iff [OF assms(1)] r
    using c by (simp add: checkAndClaimAttempt_def Let_def)
qed

theorem threshold_opens_witness:
  "cb_lookup id cb_empty ''a'' = closed_record \<and>
   chk_allowed (fst (checkAndClaimAttempt id
     (cb_step id (foldl (cb_step id) cb_empty (map (Failure ''a'' demo_policy) [5]))
        (Failure ''a'' demo_policy 10)) ''a'' demo_policy 1010))"
proof -
  have h: "0 < cb_threshold demo_policy" "cb_lookup id cb_empty ''a'' = closed_record" by code_simp+
  have l: "length [5 :: int] + 1 = nat (cb_threshold demo_policy)" by code_simp
  have r: "10 + cb_resetMs demo_policy \<le> 1010" by code_simp
  show ?thesis
    using h(2) threshold_opens [where hash = id and s = cb_empty and u = "''a''" and ts = "[5]" and t = 10
        and now = 1010, OF h l] r unfolding Let_def by simp
qed

text \<open>Along every run of the store from the empty one, a probe reservation exists only for a half-open
  circuit, failure counters are never negative, and every counted transition is an edge of the
  documented state machine.\<close>

theorem cb_reachable_inv:
  "cb_inv (foldl (cb_step hash) cb_empty xs) \<and> cb_log_inv (foldl (cb_step hash) cb_empty xs)"
  by (rule cb_run.run_inv) (simp add: cb_inv_def cb_log_inv_def cb_empty_def)

text \<open>(C29) The receiver-facing description tells what the gate does: in every reachable state with the
  breaker enabled, a receiver is described as paused exactly when its next check is denied.\<close>

theorem describe_matches_gate:
  assumes "0 < cb_threshold p" "s = foldl (cb_step hash) cb_empty xs"
  shows "sts_paused (describeWebhookCircuitBreaker (cb_getState hash s u) p now) \<longleftrightarrow>
     \<not> chk_allowed (fst (checkAndClaimAttempt hash s u p now))"
proof -
  have "cb_inv s"
    using cb_run.run_inv [of cb_empty hash xs] assms(2)
    by (simp add: cb_inv_def cb_log_inv_def cb_empty_def)
  then have "cb_state (cb_lookup hash s u) = Open \<Longrightarrow> \<not> probe_live hash s u now"
    by (force simp: probe_live_def cb_inv_def split: option.splits)
  then show ?thesis
    unfolding check_allowed_iff [OF assms(1)]
    by (cases "cb_state (cb_lookup hash s u)")
       (simp_all add: describeWebhookCircuitBreaker_def Let_def cb_getState_def)
qed

theorem describe_matches_gate_witness:
  "0 < cb_threshold demo_policy \<and>
   (sts_paused (describeWebhookCircuitBreaker
      (cb_getState id (foldl (cb_step id) cb_empty [Failure ''a'' demo_policy 0]) ''a'') demo_policy 7) \<longleftrightarrow>
    \<not> chk_allowed (fst (checkAndClaimAttempt id
         (foldl (cb_step id) cb_empty [Failure ''a'' demo_policy 0]) ''a'' demo_policy 7)))"
proof -
  have h: "0 < cb_threshold demo_policy" by code_simp
  show ?thesis using h describe_matches_gate [OF h refl, of id] by blast
qed

text \<open>Receivers are isolated: operations for receivers whose hash differs from that of \<open>u\<close> do not
  change what any check for \<open>u\<close> returns.\<close>

theorem receivers_isolated:
  assumes "\<forall>x \<in> set xs. hash (cb_op_url x) \<noteq> hash u"
  shows "fst (checkAndClaimAttempt hash (foldl (cb_step hash) s xs) u p now) =
     fst (checkAndClaimAttempt hash s u p now)"
proof -
  have "map_get (cbs_states (foldl (cb_step hash) s xs)) (hash u) = map_get (cbs_states s) (hash u) \<and>
      map_get (cbs_probes (foldl (cb_step hash) s xs)) (hash u) = map_get (cbs_probes s) (hash u)"
    by (rule cb_run_isolated) (use assms in auto)
  then show ?thesis by (intro check_local) auto
qed

theorem receivers_isolated_witness:
  "(\<forall>x \<in> set [Failure ''b'' demo_policy 0]. id (cb_op_url x) \<noteq> id ''a'') = True \<and>
   fst (checkAndClaimAttempt id (foldl (cb_step id) cb_empty [Failure ''b'' demo_policy 0]) ''a'' demo_policy 1) =
   fst (checkAndClaimAttempt id cb_empty ''a'' demo_policy 1)"
  using receivers_isolated [of "[Failure ''b'' demo_policy 0]" id "''a''" cb_empty demo_policy 1] by simp

text \<open>An abandoned probe is never recovered by this store: while no outcome is recorded the circuit
  stays half-open and denies every check at every later time, although the description of the same
  record promises that delivery resumes at \<open>expiresAt\<close>.\<close>

theorem abandoned_probe_stuck:
  assumes "0 < cb_threshold p" "cb_state (cb_lookup hash s u) = HalfOpen"
    "sts_resumeAt (describeWebhookCircuitBreaker (cb_getState hash s u) p now) = Some resume"
    "\<forall>x \<in> set xs. hash (cb_op_url x) \<noteq> hash u \<or> (\<exists>v q t. x = Check v q t)"
    "resume \<le> later"
  shows "\<not> chk_allowed (fst (checkAndClaimAttempt hash (foldl (cb_step hash) s xs) u p later))"
proof -
  have "cb_state (cb_lookup hash (foldl (cb_step hash) s xs) u) = HalfOpen"
    by (rule halfopen_run) (use assms in auto)
  then show ?thesis by (simp add: check_halfopen assms(1))
qed

theorem abandoned_probe_stuck_witness:
  "let s = foldl (cb_step id) cb_empty
        [Failure ''a'' demo_policy 0, Failure ''a'' demo_policy 1, Check ''a'' demo_policy 2000]
   in sts_resumeAt (describeWebhookCircuitBreaker (cb_getState id s ''a'') demo_policy 2000) = Some 302000 \<and>
      \<not> chk_allowed (fst (checkAndClaimAttempt id (foldl (cb_step id) s []) ''a'' demo_policy 302000))"
proof -
  let ?s = "foldl (cb_step id) cb_empty
        [Failure ''a'' demo_policy 0, Failure ''a'' demo_policy 1, Check ''a'' demo_policy 2000]"
  have h: "0 < cb_threshold demo_policy" "cb_state (cb_lookup id ?s ''a'') = HalfOpen"
    "sts_resumeAt (describeWebhookCircuitBreaker (cb_getState id ?s ''a'') demo_policy 2000) = Some 302000"
    by code_simp+
  have o: "\<forall>x \<in> set []. id (cb_op_url x) \<noteq> id ''a'' \<or> (\<exists>v q t. x = Check v q t)" by simp
  show ?thesis using h(3) abandoned_probe_stuck [OF h o order_refl] unfolding Let_def by blast
qed

end
