(* ===== verification/Webhook_Rate_Limit.thy ===== *)
theory Webhook_Rate_Limit
  imports Fluxora_Prelude
begin

text \<open>
  The two rate limiters for outbound deliveries behind the interface \<open>IWebhookRateLimiter\<close>: the
  Redis sliding window of \<open>src/redis/webhookRateLimit.ts\<close> and the in-process token bucket of
  \<open>src/webhooks/rate-limiter.ts\<close>.

  The Redis sorted set is a service: its three uses (prune by score, count in the window, record
  members and set the expiry) are the fields of a \<open>zset_ops\<close> argument, with \<open>None\<close> for a Redis
  error. \<open>Date.now()\<close> is the argument \<open>now\<close>, the hash of the endpoint the argument \<open>hash\<close>; bucket
  levels, which the code keeps as fractions, are rationals.

  The locale \<open>webhook_rate_limiter\<close> is the contract the delivery gate relies on; it is interpreted
  on both limiters.
\<close>

section \<open>Data\<close>

record RateLimitConfig =
  rl_limit :: int
  rl_windowMs :: int
  rl_burst :: int
  rl_weight :: "int option"

record RateLimitDimensions =
  dim_tenant :: string
  dim_endpoint :: string
  dim_outcome :: string

record RateLimitResult =
  canAttempt :: bool
  retryAfterMs :: "int option"

datatype RateLimitConfigError =
    LimitNotPositive int | LimitTooLarge int | WindowTooSmall int | WindowTooLarge int | BurstNegative int

record 'r zset_ops =
  z_prune :: "'r \<Rightarrow> string \<Rightarrow> int \<Rightarrow> 'r option"
  z_count :: "'r \<Rightarrow> string \<Rightarrow> int \<Rightarrow> nat option"
  z_record :: "'r \<Rightarrow> string \<Rightarrow> int \<Rightarrow> int \<Rightarrow> int \<Rightarrow> 'r option"

record 'r WebhookRateLimiter =
  rl_redis :: 'r
  rl_consumerConfigs :: "(string, RateLimitConfig) jsmap"
  rl_failOpenTotal :: nat

definition RATE_LIMIT_MAX_WINDOW_MS :: int where "RATE_LIMIT_MAX_WINDOW_MS = 60 * 60 * 1000"
definition RATE_LIMIT_MAX_LIMIT :: int where "RATE_LIMIT_MAX_LIMIT = 100000"
definition RATE_LIMIT_MIN_WINDOW_MS :: int where "RATE_LIMIT_MIN_WINDOW_MS = 100"

section \<open>Operations\<close>

definition validateRateLimitConfig :: "RateLimitConfig \<Rightarrow> RateLimitConfigError option" where
  "validateRateLimitConfig c =
     (if rl_limit c \<le> 0 then Some (LimitNotPositive (rl_limit c))
      else if RATE_LIMIT_MAX_LIMIT < rl_limit c then Some (LimitTooLarge (rl_limit c))
      else if rl_windowMs c < RATE_LIMIT_MIN_WINDOW_MS then Some (WindowTooSmall (rl_windowMs c))
      else if RATE_LIMIT_MAX_WINDOW_MS < rl_windowMs c then Some (WindowTooLarge (rl_windowMs c))
      else if rl_burst c < 0 then Some (BurstNegative (rl_burst c))
      else None)"

definition setConsumerConfig ::
  "string \<Rightarrow> RateLimitConfig \<Rightarrow> 'r WebhookRateLimiter \<Rightarrow> RateLimitConfigError + 'r WebhookRateLimiter" where
  "setConsumerConfig endpoint c l =
     (case validateRateLimitConfig c of
        Some e \<Rightarrow> Inl e
      | None \<Rightarrow> Inr (l\<lparr>rl_consumerConfigs := map_set endpoint c (rl_consumerConfigs l)\<rparr>))"

definition removeConsumerConfig :: "string \<Rightarrow> 'r WebhookRateLimiter \<Rightarrow> 'r WebhookRateLimiter" where
  "removeConsumerConfig endpoint l =
     l\<lparr>rl_consumerConfigs := map_delete endpoint (rl_consumerConfigs l)\<rparr>"

definition resolveConfig :: "'r WebhookRateLimiter \<Rightarrow> string \<Rightarrow> RateLimitConfig \<Rightarrow> RateLimitConfig" where
  "resolveConfig l endpoint fallback = nullish (map_get (rl_consumerConfigs l) endpoint) fallback"

definition rl_key :: "(string \<Rightarrow> string) \<Rightarrow> RateLimitDimensions \<Rightarrow> string" where
  "rl_key hash d = ''webhook_rl:'' @ hash (dim_endpoint d)"

definition checkLimit ::
  "'r zset_ops \<Rightarrow> (string \<Rightarrow> string) \<Rightarrow> 'r WebhookRateLimiter \<Rightarrow> RateLimitDimensions \<Rightarrow> RateLimitConfig \<Rightarrow> millis \<Rightarrow>
   RateLimitConfigError + RateLimitResult \<times> 'r WebhookRateLimiter" where
  "checkLimit ops hash l dimensions config now =
     (case validateRateLimitConfig config of
        Some e \<Rightarrow> Inl e
      | None \<Rightarrow>
        let resolved = resolveConfig l (dim_endpoint dimensions) config;
            key = rl_key hash dimensions;
            windowStart = now - rl_windowMs resolved;
            weight = nullish (rl_weight resolved) 1;
            failOpen = (\<lambda>r. Inr (\<lparr>canAttempt = True, retryAfterMs = None\<rparr>,
                                 l\<lparr>rl_redis := r, rl_failOpenTotal := rl_failOpenTotal l + 1\<rparr>))
        in case z_prune ops (rl_redis l) key windowStart of
             None \<Rightarrow> failOpen (rl_redis l)
           | Some r1 \<Rightarrow>
             (case z_count ops r1 key windowStart of
                None \<Rightarrow> failOpen r1
              | Some count \<Rightarrow>
                  if rl_limit resolved < int count + weight
                  then Inr (\<lparr>canAttempt = False, retryAfterMs = Some (rl_windowMs resolved)\<rparr>,
                            l\<lparr>rl_redis := r1\<rparr>)
                  else (case z_record ops r1 key now weight (rl_windowMs resolved) of
                          None \<Rightarrow> failOpen r1
                        | Some r2 \<Rightarrow> Inr (\<lparr>canAttempt = True, retryAfterMs = None\<rparr>, l\<lparr>rl_redis := r2\<rparr>))))"

section \<open>The token bucket\<close>

record TokenBucket =
  tb_tokens :: rat
  tb_lastRefillMs :: int

record TokenBucketRateLimiter =
  tb_buckets :: "(string, TokenBucket) jsmap"
  tb_fill :: "(string, rat) jsmap"

definition MIN_STALE_AGE_MS :: int where "MIN_STALE_AGE_MS = 30000"

definition tb_capacity :: "RateLimitConfig \<Rightarrow> int" where
  "tb_capacity config = (if 0 < rl_burst config then rl_burst config else rl_limit config)"

definition tb_refillRate :: "RateLimitConfig \<Rightarrow> rat" where
  "tb_refillRate config = of_int (rl_limit config) / of_int (rl_windowMs config)"

text \<open>The refill step shared by \<open>checkLimit\<close> and \<open>getBucketLevel\<close>.\<close>

definition tb_refill :: "RateLimitConfig \<Rightarrow> millis \<Rightarrow> TokenBucket \<Rightarrow> TokenBucket" where
  "tb_refill config now bucket =
     (let elapsed = now - tb_lastRefillMs bucket
      in if 0 < elapsed
         then \<lparr>tb_tokens = min (of_int (tb_capacity config))
                 (tb_tokens bucket + of_int elapsed * tb_refillRate config),
               tb_lastRefillMs = now\<rparr>
         else bucket)"

definition tb_checkLimit ::
  "(string \<Rightarrow> string) \<Rightarrow> TokenBucketRateLimiter \<Rightarrow> RateLimitDimensions \<Rightarrow> RateLimitConfig \<Rightarrow> millis \<Rightarrow>
   RateLimitConfigError + RateLimitResult \<times> TokenBucketRateLimiter" where
  "tb_checkLimit hash l dimensions config now =
     (case validateRateLimitConfig config of
        Some e \<Rightarrow> Inl e
      | None \<Rightarrow>
        let key = hash (dim_endpoint dimensions);
            weight = nullish (rl_weight config) 1;
            bucket = tb_refill config now (nullish (map_get (tb_buckets l) key)
                       \<lparr>tb_tokens = of_int (tb_capacity config), tb_lastRefillMs = now\<rparr>);
            fill = map_set key (tb_tokens bucket) (tb_fill l)
        in if of_int weight \<le> tb_tokens bucket
           then Inr (\<lparr>canAttempt = True, retryAfterMs = None\<rparr>,
                     l\<lparr>tb_buckets := map_set key
                          (bucket\<lparr>tb_tokens := tb_tokens bucket - of_int weight\<rparr>) (tb_buckets l),
                       tb_fill := fill\<rparr>)
           else Inr (\<lparr>canAttempt = False,
                      retryAfterMs = Some \<lceil>(of_int weight - tb_tokens bucket) / tb_refillRate config\<rceil>\<rparr>,
                     l\<lparr>tb_buckets := map_set key bucket (tb_buckets l), tb_fill := fill\<rparr>))"

definition getBucketLevel ::
  "(string \<Rightarrow> string) \<Rightarrow> TokenBucketRateLimiter \<Rightarrow> RateLimitDimensions \<Rightarrow> RateLimitConfig option \<Rightarrow> millis \<Rightarrow>
   rat \<times> TokenBucketRateLimiter" where
  "getBucketLevel hash l dimensions config now =
     (let key = hash (dim_endpoint dimensions)
      in case map_get (tb_buckets l) key of
           None \<Rightarrow> (0, l)
         | Some bucket \<Rightarrow>
             (case config of
                None \<Rightarrow> (tb_tokens bucket, l)
              | Some c \<Rightarrow> let b = tb_refill c now bucket
                          in (tb_tokens b, l\<lparr>tb_buckets := map_set key b (tb_buckets l)\<rparr>)))"

definition cleanupStaleBuckets :: "TokenBucketRateLimiter \<Rightarrow> millis \<Rightarrow> TokenBucketRateLimiter" where
  "cleanupStaleBuckets l now =
     l\<lparr>tb_buckets := filter (\<lambda>(k, b). \<not> MIN_STALE_AGE_MS < now - tb_lastRefillMs b) (tb_buckets l)\<rparr>"

definition tb_dispose :: "TokenBucketRateLimiter \<Rightarrow> TokenBucketRateLimiter" where
  "tb_dispose l = l\<lparr>tb_buckets := []\<rparr>"

section \<open>The contract\<close>

text \<open>
  What a client may rely on, for limiters in a state \<open>up\<close>: a configuration error is reported for an
  invalid configuration and only then; a denial names a positive delay; an attempt that is \<open>heavy\<close>
  (weighs more than the limiter can ever admit) is denied, and stays heavy.
\<close>

locale webhook_rate_limiter =
  fixes check :: "'l \<Rightarrow> RateLimitDimensions \<Rightarrow> RateLimitConfig \<Rightarrow> millis \<Rightarrow> RateLimitConfigError + RateLimitResult \<times> 'l"
    and heavy :: "'l \<Rightarrow> string \<Rightarrow> RateLimitConfig \<Rightarrow> bool"
    and up :: "'l \<Rightarrow> bool"
  assumes check_error: "(\<exists>e. check l d c t = Inl e) \<longleftrightarrow> validateRateLimitConfig c \<noteq> None"
    and check_denied: "check l d c t = Inr (r, l') \<Longrightarrow> up l \<Longrightarrow> \<not> canAttempt r \<Longrightarrow>
       \<exists>delay. retryAfterMs r = Some delay \<and> 0 < delay"
    and check_heavy: "check l d c t = Inr (r, l') \<Longrightarrow> up l \<Longrightarrow> heavy l (dim_endpoint d) c \<Longrightarrow> \<not> canAttempt r"
    and check_keeps_up: "check l d c t = Inr (r, l') \<Longrightarrow> up l \<Longrightarrow> up l'"
    and check_keeps_heavy: "check l d c t = Inr (r, l') \<Longrightarrow> up l \<Longrightarrow> heavy l (dim_endpoint d) c \<Longrightarrow>
       heavy l' (dim_endpoint d) c"
begin

lemma check_valid:
  assumes "validateRateLimitConfig c = None"
  obtains r l' where "check l d c t = Inr (r, l')"
  using check_error [of l d c t] assms by (metis obj_sumE surj_pair)

lemma heavy_denied:
  assumes "up l" "validateRateLimitConfig c = None" "heavy l (dim_endpoint d) c"
  obtains r l' where "check l d c t = Inr (r, l')" "\<not> canAttempt r" "up l'" "heavy l' (dim_endpoint d) c"
proof -
  obtain r l' where "check l d c t = Inr (r, l')" using check_valid [OF assms(2)] .
  then show thesis using assms that check_heavy check_keeps_up check_keeps_heavy by blast
qed

end

lemma validate_None:
  "validateRateLimitConfig c = None \<Longrightarrow> 0 < rl_limit c \<and> 0 < rl_windowMs c \<and> 0 \<le> rl_burst c"
  by (auto simp: validateRateLimitConfig_def RATE_LIMIT_MIN_WINDOW_MS_def split: if_splits)

lemma validate_weight [simp]: "validateRateLimitConfig (c\<lparr>rl_weight := w\<rparr>) = validateRateLimitConfig c"
  by (simp add: validateRateLimitConfig_def)

text \<open>The Redis limiter: the sorted set answers every call, and every per-receiver configuration was
  validated when it was set.\<close>

definition zset_up :: "'r zset_ops \<Rightarrow> bool" where
  "zset_up ops \<longleftrightarrow> (\<forall>r k t. z_prune ops r k t \<noteq> None \<and> z_count ops r k t \<noteq> None) \<and>
     (\<forall>r k t w x. z_record ops r k t w x \<noteq> None)"

definition overrides_valid :: "'r WebhookRateLimiter \<Rightarrow> bool" where
  "overrides_valid l \<longleftrightarrow> (\<forall>e c. map_get (rl_consumerConfigs l) e = Some c \<longrightarrow> validateRateLimitConfig c = None)"

definition window_heavy :: "'r WebhookRateLimiter \<Rightarrow> string \<Rightarrow> RateLimitConfig \<Rightarrow> bool" where
  "window_heavy l e c \<longleftrightarrow> rl_limit (resolveConfig l e c) < nullish (rl_weight (resolveConfig l e c)) 1"

lemma overrides_valid_set:
  "overrides_valid l \<Longrightarrow> setConsumerConfig e c l = Inr l' \<Longrightarrow> overrides_valid l'"
  by (auto simp: overrides_valid_def setConsumerConfig_def split: option.splits if_splits)

lemma resolve_valid:
  "overrides_valid l \<Longrightarrow> validateRateLimitConfig c = None \<Longrightarrow> validateRateLimitConfig (resolveConfig l e c) = None"
  by (cases "map_get (rl_consumerConfigs l) e") (auto simp: overrides_valid_def resolveConfig_def)

lemma checkLimit_redis_only:
  "checkLimit ops hash l d c t = Inr (r, l') \<Longrightarrow> rl_consumerConfigs l' = rl_consumerConfigs l"
  by (auto simp: checkLimit_def Let_def split: option.splits if_splits)

interpretation wrl: webhook_rate_limiter "checkLimit ops hash" window_heavy
  "\<lambda>l. zset_up ops \<and> overrides_valid l" for ops hash
proof unfold_locales
  show "(\<exists>e. checkLimit ops hash l d c t = Inl e) \<longleftrightarrow> validateRateLimitConfig c \<noteq> None" for l d c t
    by (auto simp: checkLimit_def Let_def split: option.splits)
  show "\<exists>delay. retryAfterMs r = Some delay \<and> 0 < delay"
    if "checkLimit ops hash l d c t = Inr (r, l')" "zset_up ops \<and> overrides_valid l" "\<not> canAttempt r"
    for l d c t r l'
  proof -
    have v: "validateRateLimitConfig c = None"
      using that(1) by (auto simp: checkLimit_def split: option.splits)
    have "retryAfterMs r = Some (rl_windowMs (resolveConfig l (dim_endpoint d) c))"
      using that(1,3) by (auto simp: checkLimit_def Let_def split: option.splits if_splits)
    then show ?thesis using validate_None [OF resolve_valid [OF _ v]] that(2) by blast
  qed
  show "\<not> canAttempt r"
    if "checkLimit ops hash l d c t = Inr (r, l')" "zset_up ops \<and> overrides_valid l"
      "window_heavy l (dim_endpoint d) c" for l d c t r l'
    using that
    by (auto simp: checkLimit_def Let_def zset_up_def window_heavy_def simp del: not_None_eq
        split: option.splits if_splits)
  show "zset_up ops \<and> overrides_valid l'"
    if "checkLimit ops hash l d c t = Inr (r, l')" "zset_up ops \<and> overrides_valid l" for l d c t r l'
    using that(2) checkLimit_redis_only [OF that(1)] by (simp add: overrides_valid_def)
  show "window_heavy l' (dim_endpoint d) c"
    if "checkLimit ops hash l d c t = Inr (r, l')" "window_heavy l (dim_endpoint d) c" for l d c t r l'
    using checkLimit_redis_only [OF that(1)] that(2) by (simp add: window_heavy_def resolveConfig_def)
qed

text \<open>The token bucket: an attempt heavier than the capacity, on a bucket that does not hold that many
  tokens (it may after a change of configuration), waits for ever.\<close>

definition bucket_heavy :: "(string \<Rightarrow> string) \<Rightarrow> TokenBucketRateLimiter \<Rightarrow> string \<Rightarrow> RateLimitConfig \<Rightarrow> bool" where
  "bucket_heavy hash l e c \<longleftrightarrow> tb_capacity c < nullish (rl_weight c) 1 \<and>
     (case map_get (tb_buckets l) (hash e) of None \<Rightarrow> True
      | Some b \<Rightarrow> tb_tokens b < of_int (nullish (rl_weight c) 1))"

lemma tb_refillRate_pos: "validateRateLimitConfig c = None \<Longrightarrow> 0 < tb_refillRate c"
  using validate_None [of c] by (simp add: tb_refillRate_def)

lemma tb_capacity_pos: "validateRateLimitConfig c = None \<Longrightarrow> 0 < tb_capacity c"
  using validate_None [of c] by (simp add: tb_capacity_def)

text \<open>The level of a bucket just before the comparison with the weight.\<close>

definition tb_ready :: "(string \<Rightarrow> string) \<Rightarrow> TokenBucketRateLimiter \<Rightarrow> string \<Rightarrow> RateLimitConfig \<Rightarrow> millis \<Rightarrow> TokenBucket" where
  "tb_ready hash l e c now = tb_refill c now (nullish (map_get (tb_buckets l) (hash e))
     \<lparr>tb_tokens = of_int (tb_capacity c), tb_lastRefillMs = now\<rparr>)"

lemma tb_checkLimit_eq:
  "validateRateLimitConfig c = None \<Longrightarrow> tb_checkLimit hash l d c now =
     (let b = tb_ready hash l (dim_endpoint d) c now; w = nullish (rl_weight c) 1;
          ok = of_int w \<le> tb_tokens b
      in Inr (if ok then \<lparr>canAttempt = True, retryAfterMs = None\<rparr>
              else \<lparr>canAttempt = False, retryAfterMs = Some \<lceil>(of_int w - tb_tokens b) / tb_refillRate c\<rceil>\<rparr>,
              l\<lparr>tb_buckets := map_set (hash (dim_endpoint d))
                   (if ok then b\<lparr>tb_tokens := tb_tokens b - of_int w\<rparr> else b) (tb_buckets l),
                tb_fill := map_set (hash (dim_endpoint d)) (tb_tokens b) (tb_fill l)\<rparr>))"
  by (simp add: tb_checkLimit_def tb_ready_def Let_def)

lemma tb_checkLimit_Inr:
  assumes "tb_checkLimit hash l d c now = Inr (r, l')"
  shows "validateRateLimitConfig c = None"
    and "canAttempt r \<longleftrightarrow> of_int (nullish (rl_weight c) 1) \<le> tb_tokens (tb_ready hash l (dim_endpoint d) c now)"
    and "\<not> canAttempt r \<Longrightarrow> retryAfterMs r =
      Some \<lceil>(of_int (nullish (rl_weight c) 1) - tb_tokens (tb_ready hash l (dim_endpoint d) c now)) / tb_refillRate c\<rceil>"
    and "map_get (tb_buckets l') (hash (dim_endpoint d)) =
      Some (let b = tb_ready hash l (dim_endpoint d) c now
            in if canAttempt r then b\<lparr>tb_tokens := tb_tokens b - of_int (nullish (rl_weight c) 1)\<rparr> else b)"
    and "k \<noteq> hash (dim_endpoint d) \<Longrightarrow> map_get (tb_buckets l') k = map_get (tb_buckets l) k"
proof -
  show v: "validateRateLimitConfig c = None"
    using assms by (simp add: tb_checkLimit_def split: option.splits)
  note e = assms [unfolded tb_checkLimit_eq [OF v] Let_def, simplified]
  show "canAttempt r \<longleftrightarrow> of_int (nullish (rl_weight c) 1) \<le> tb_tokens (tb_ready hash l (dim_endpoint d) c now)"
    using e by (auto split: if_splits)
  show "retryAfterMs r =
      Some \<lceil>(of_int (nullish (rl_weight c) 1) - tb_tokens (tb_ready hash l (dim_endpoint d) c now)) / tb_refillRate c\<rceil>"
    if "\<not> canAttempt r" using e that by (auto split: if_splits)
  show "map_get (tb_buckets l') (hash (dim_endpoint d)) =
      Some (let b = tb_ready hash l (dim_endpoint d) c now
            in if canAttempt r then b\<lparr>tb_tokens := tb_tokens b - of_int (nullish (rl_weight c) 1)\<rparr> else b)"
    using e by (auto simp: Let_def split: if_splits)
  show "map_get (tb_buckets l') k = map_get (tb_buckets l) k" if "k \<noteq> hash (dim_endpoint d)"
    using e that by (auto split: if_splits)
qed

lemma tb_ready_heavy:
  "bucket_heavy hash l e c \<Longrightarrow> tb_tokens (tb_ready hash l e c now) < of_int (nullish (rl_weight c) 1)"
  by (auto simp: bucket_heavy_def tb_ready_def tb_refill_def Let_def min_less_iff_disj split: option.splits)

interpretation tbl: webhook_rate_limiter "tb_checkLimit hash" "bucket_heavy hash" "\<lambda>_. True" for hash
proof unfold_locales
  show "(\<exists>e. tb_checkLimit hash l d c t = Inl e) \<longleftrightarrow> validateRateLimitConfig c \<noteq> None" for l d c t
    by (auto simp: tb_checkLimit_def Let_def split: option.splits)
  show "\<exists>delay. retryAfterMs r = Some delay \<and> 0 < delay"
    if "tb_checkLimit hash l d c t = Inr (r, l')" "\<not> canAttempt r" for l d c t r l'
    using tb_checkLimit_Inr(2,3) [OF that(1)] tb_refillRate_pos [OF tb_checkLimit_Inr(1) [OF that(1)]] that(2)
    by (simp add: not_le)
  show "\<not> canAttempt r"
    if "tb_checkLimit hash l d c t = Inr (r, l')" "bucket_heavy hash l (dim_endpoint d) c" for l d c t r l'
    using tb_checkLimit_Inr(2) [OF that(1)] tb_ready_heavy [OF that(2), of t] by simp
  show "bucket_heavy hash l' (dim_endpoint d) c"
    if "tb_checkLimit hash l d c t = Inr (r, l')" "bucket_heavy hash l (dim_endpoint d) c" for l d c t r l'
    using tb_checkLimit_Inr(2,4) [OF that(1)] tb_ready_heavy [OF that(2), of t] that(2)
    by (auto simp: bucket_heavy_def Let_def)
qed simp

section \<open>Admission and the window\<close>

text \<open>Redis's documented behaviour of the three calls, over an abstraction \<open>scores\<close> that lists the scores
  stored under a key: ZREMRANGEBYSCORE from \<open>-inf\<close> removes the scores up to the bound, ZCOUNT counts those
  from the bound on, and the ZADDs of distinct members add the score once per member.\<close>

definition zset_laws :: "'r zset_ops \<Rightarrow> ('r \<Rightarrow> string \<Rightarrow> int list) \<Rightarrow> bool" where
  "zset_laws ops scores \<longleftrightarrow>
     (\<forall>r k t r'. z_prune ops r k t = Some r' \<longrightarrow> scores r' = (scores r)(k := filter (\<lambda>x. t < x) (scores r k))) \<and>
     (\<forall>r k t n. z_count ops r k t = Some n \<longrightarrow> n = length (filter (\<lambda>x. t \<le> x) (scores r k))) \<and>
     (\<forall>r k t w x r'. z_record ops r k t w x = Some r' \<longrightarrow>
        scores r' = (scores r)(k := scores r k @ replicate (nat w) t))"

definition list_zset :: "(string \<times> int) list zset_ops" where
  "list_zset =
     \<lparr>z_prune = (\<lambda>r k t. Some (filter (\<lambda>(k', x). k' = k \<longrightarrow> t < x) r)),
      z_count = (\<lambda>r k t. Some (length (filter (\<lambda>(k', x). k' = k \<and> t \<le> x) r))),
      z_record = (\<lambda>r k t w x. Some (r @ replicate (nat w) (k, t)))\<rparr>"

definition list_scores :: "(string \<times> int) list \<Rightarrow> string \<Rightarrow> int list" where
  "list_scores r k = map snd (filter (\<lambda>p. fst p = k) r)"

lemma list_zset_laws: "zset_laws list_zset list_scores"
proof -
  have "list_scores (filter (\<lambda>(k', x). k' = k \<longrightarrow> t < x) r) k' =
      ((list_scores r)(k := filter (\<lambda>x. t < x) (list_scores r k))) k'" for r k t k'
    by (induction r) (auto simp: list_scores_def)
  moreover have "length (filter (\<lambda>(k', x). k' = k \<and> t \<le> x) r) = length (filter (\<lambda>x. t \<le> x) (list_scores r k))"
    for r k t by (induction r) (auto simp: list_scores_def)
  moreover have "list_scores (r @ replicate n (k, t)) k' =
      ((list_scores r)(k := list_scores r k @ replicate n t)) k'" for r n k t k'
    by (auto simp: list_scores_def)
  ultimately show ?thesis by (auto simp: zset_laws_def list_zset_def fun_eq_iff)
qed

definition live_attempts ::
  "('r \<Rightarrow> string \<Rightarrow> int list) \<Rightarrow> (string \<Rightarrow> string) \<Rightarrow> 'r WebhookRateLimiter \<Rightarrow> RateLimitDimensions \<Rightarrow> int \<Rightarrow> int" where
  "live_attempts scores hash l d start =
     int (length (filter (\<lambda>x. start < x) (scores (rl_redis l) (rl_key hash d))))"

lemma window_check:
  assumes laws: "zset_laws ops scores" and up: "zset_up ops" and "overrides_valid l"
    and check: "checkLimit ops hash l d c now = Inr (r, l')"
    and cfg: "cfg = resolveConfig l (dim_endpoint d) c" and w: "w = nullish (rl_weight cfg) 1" "0 \<le> w"
  shows "canAttempt r \<longleftrightarrow> live_attempts scores hash l d (now - rl_windowMs cfg) + w \<le> rl_limit cfg"
    and "live_attempts scores hash l' d (now - rl_windowMs cfg) =
         live_attempts scores hash l d (now - rl_windowMs cfg) + (if canAttempt r then w else 0)"
proof -
  define k where "k = rl_key hash d"
  define st where "st = now - rl_windowMs cfg"
  have v: "validateRateLimitConfig c = None" using check by (auto simp: checkLimit_def split: option.splits)
  then have pos: "0 < rl_windowMs cfg"
    using validate_None [OF resolve_valid [OF \<open>overrides_valid l\<close> v]] cfg by blast
  obtain r1 where r1: "z_prune ops (rl_redis l) k st = Some r1" using up unfolding zset_up_def by blast
  obtain n where n: "z_count ops r1 k st = Some n" using up unfolding zset_up_def by blast
  obtain r2 where r2: "z_record ops r1 k now w (rl_windowMs cfg) = Some r2"
    using up unfolding zset_up_def by blast
  have s1: "scores r1 k = filter (\<lambda>x. st < x) (scores (rl_redis l) k)"
    using laws r1 by (auto simp: zset_laws_def)
  have strict: "(\<lambda>x. st < x \<and> st \<le> x) = (\<lambda>x. st < x)" by auto
  have "n = length (filter (\<lambda>x. st \<le> x) (scores r1 k))" using laws n by (auto simp: zset_laws_def)
  then have n': "int n = live_attempts scores hash l d st"
    using s1 strict by (simp add: live_attempts_def k_def)
  have s2: "scores r2 k = scores r1 k @ replicate (nat w) now" using laws r2 by (auto simp: zset_laws_def)
  have eq: "Inr (r, l') = (if rl_limit cfg < int n + w
      then Inr (\<lparr>canAttempt = False, retryAfterMs = Some (rl_windowMs cfg)\<rparr>, l\<lparr>rl_redis := r1\<rparr>)
      else Inr (\<lparr>canAttempt = True, retryAfterMs = None\<rparr>, l\<lparr>rl_redis := r2\<rparr>))"
    using check v r1 n r2 by (auto simp: checkLimit_def Let_def cfg w(1) st_def k_def split: if_splits)
  show "canAttempt r \<longleftrightarrow> live_attempts scores hash l d (now - rl_windowMs cfg) + w \<le> rl_limit cfg"
    using eq n' by (auto simp: st_def [symmetric] split: if_splits)
  have "live_attempts scores hash (l\<lparr>rl_redis := r1\<rparr>) d st = live_attempts scores hash l d st"
    by (simp add: live_attempts_def k_def [symmetric] s1)
  moreover have "live_attempts scores hash (l\<lparr>rl_redis := r2\<rparr>) d st = live_attempts scores hash l d st + w"
    using pos w(2) by (simp add: live_attempts_def k_def [symmetric] s1 s2 st_def)
  ultimately show "live_attempts scores hash l' d (now - rl_windowMs cfg) =
         live_attempts scores hash l d (now - rl_windowMs cfg) + (if canAttempt r then w else 0)"
    using eq by (auto simp: st_def [symmetric] split: if_splits)
qed

text \<open>The sliding window. With a Redis that answers as documented, an attempt of weight \<open>w\<close> is
  admitted exactly when the attempts recorded for that receiver within the last window and \<open>w\<close> together do
  not exceed the limit; an admission records \<open>w\<close> attempts, so the window never holds more than the limit
  admits, and a denial records nothing.\<close>

theorem window_limit:
  assumes "zset_laws ops scores" "zset_up ops" "overrides_valid l"
    and "checkLimit ops hash l d c now = Inr (r, l')"
    and "cfg = resolveConfig l (dim_endpoint d) c" "w = nullish (rl_weight cfg) 1" "0 \<le> w"
  shows "(canAttempt r \<longleftrightarrow> live_attempts scores hash l d (now - rl_windowMs cfg) + w \<le> rl_limit cfg) \<and>
    live_attempts scores hash l' d (now - rl_windowMs cfg) =
      live_attempts scores hash l d (now - rl_windowMs cfg) + (if canAttempt r then w else 0)"
  using window_check [OF assms] by blast

definition demo_config :: RateLimitConfig where
  "demo_config = \<lparr>rl_limit = 2, rl_windowMs = 1000, rl_burst = 0, rl_weight = None\<rparr>"

definition demo_dims :: RateLimitDimensions where
  "demo_dims = \<lparr>dim_tenant = ''t'', dim_endpoint = ''u'', dim_outcome = ''first_attempt''\<rparr>"

definition demo_limiter :: "(string \<times> int) list WebhookRateLimiter" where
  "demo_limiter = \<lparr>rl_redis = [(''webhook_rl:u'', 900), (''webhook_rl:u'', 100)], rl_consumerConfigs = [],
     rl_failOpenTotal = 0\<rparr>"

theorem window_limit_witness:
  "live_attempts list_scores id demo_limiter demo_dims 500 = 1 \<and>
   (\<exists>r l'. checkLimit list_zset id demo_limiter demo_dims demo_config 1500 = Inr (r, l') \<and> canAttempt r \<and>
      live_attempts list_scores id l' demo_dims 500 = 2)"
proof -
  have live: "live_attempts list_scores id demo_limiter demo_dims 500 = 1" by code_simp
  have w: "nullish (rl_weight demo_config) 1 = 1" "rl_windowMs demo_config = 1000" "rl_limit demo_config = 2"
    by (simp_all add: demo_config_def)
  obtain r l' where r: "checkLimit list_zset id demo_limiter demo_dims demo_config 1500 = Inr (r, l')"
    by (rule wrl.check_valid [of demo_config]) code_simp
  have up: "zset_up list_zset" "overrides_valid demo_limiter"
    by (simp_all add: zset_up_def list_zset_def overrides_valid_def demo_limiter_def)
  have cfg: "demo_config = resolveConfig demo_limiter (dim_endpoint demo_dims) demo_config"
    by (simp add: resolveConfig_def demo_limiter_def)
  from window_limit [OF list_zset_laws up r cfg refl] w live
  have "canAttempt r" "live_attempts list_scores id l' demo_dims 500 = 2" by simp_all
  with r live show ?thesis by blast
qed

section \<open>The rate of the token bucket\<close>

text \<open>A run of checks, with the weight admitted for the receivers of one key.\<close>

fun tb_run :: "(string \<Rightarrow> string) \<Rightarrow> string \<Rightarrow> TokenBucketRateLimiter \<Rightarrow>
    (RateLimitDimensions \<times> RateLimitConfig \<times> millis) list \<Rightarrow> int \<times> TokenBucketRateLimiter" where
  "tb_run hash k l [] = (0, l)"
| "tb_run hash k l ((d, c, t) # xs) =
     (case tb_checkLimit hash l d c t of
        Inl _ \<Rightarrow> tb_run hash k l xs
      | Inr (r, l') \<Rightarrow>
          let (a, l'') = tb_run hash k l' xs
          in ((if canAttempt r \<and> hash (dim_endpoint d) = k then nullish (rl_weight c) 1 else 0) + a, l''))"

text \<open>What the bucket of a key would hold at time \<open>t\<close>, for capacity \<open>cap\<close> and rate \<open>rate\<close>.\<close>

definition tb_level :: "int \<Rightarrow> rat \<Rightarrow> string \<Rightarrow> TokenBucketRateLimiter \<Rightarrow> millis \<Rightarrow> rat" where
  "tb_level cap rate k l t =
     (case map_get (tb_buckets l) k of
        None \<Rightarrow> of_int cap
      | Some b \<Rightarrow> if tb_lastRefillMs b < t
                  then min (of_int cap) (tb_tokens b + of_int (t - tb_lastRefillMs b) * rate) else tb_tokens b)"

lemma tb_level_later:
  assumes "0 \<le> rate" "t \<le> t'"
  shows "tb_level cap rate k l t' \<le> tb_level cap rate k l t + of_int (t' - t) * rate"
proof (cases "map_get (tb_buckets l) k")
  case None
  then show ?thesis using assms by (simp add: tb_level_def)
next
  case (Some b)
  define s where "s = tb_lastRefillMs b"
  define e where "e = of_int (t' - t) * rate"
  have lev: "tb_level cap rate k l u = (if s < u then min (of_int cap) (tb_tokens b + of_int (u - s) * rate)
      else tb_tokens b)" for u using Some by (simp add: tb_level_def s_def)
  have e: "0 \<le> e" using assms by (simp add: e_def)
  consider "s < t" | "t \<le> s" "s < t'" | "t' \<le> s" by linarith
  then show ?thesis
  proof cases
    case 1
    have "of_int (t' - s) * rate = of_int (t - s) * rate + e" by (simp add: e_def algebra_simps)
    with 1 e assms(2) show ?thesis unfolding lev e_def [symmetric] by (simp add: min_def)
  next
    case 2
    have "of_int (t' - s) * rate \<le> e" unfolding e_def using 2 assms by (intro mult_right_mono) auto
    with 2 show ?thesis unfolding lev e_def [symmetric] by (simp add: min_def)
  next
    case 3
    with e assms(2) show ?thesis unfolding lev e_def [symmetric] by simp
  qed
qed

lemma tb_level_check:
  assumes "tb_checkLimit hash l d c t = Inr (r, l')"
    and "hash (dim_endpoint d) = k \<Longrightarrow> tb_capacity c = cap \<and> tb_refillRate c = rate"
  shows "tb_level cap rate k l' t =
     tb_level cap rate k l t - of_int (if canAttempt r \<and> hash (dim_endpoint d) = k then nullish (rl_weight c) 1 else 0)"
proof (cases "hash (dim_endpoint d) = k")
  case True
  then show ?thesis
    using tb_checkLimit_Inr(4) [OF assms(1)] assms(2)
    by (auto simp: tb_level_def Let_def tb_ready_def tb_refill_def nullish_def split: option.splits)
next
  case False
  then show ?thesis using tb_checkLimit_Inr(5) [OF assms(1), of k] by (simp add: tb_level_def)
qed

lemma tb_run_level:
  assumes "0 \<le> rate" "\<And>d c t. (d, c, t) \<in> set xs \<Longrightarrow> hash (dim_endpoint d) = k \<Longrightarrow>
      tb_capacity c = cap \<and> tb_refillRate c = rate"
    and "sorted (map (\<lambda>(d, c, t). t) xs)" "\<And>d c t. (d, c, t) \<in> set xs \<Longrightarrow> t0 \<le> t \<and> t \<le> t1" "t0 \<le> t1"
  shows "of_int (fst (tb_run hash k l xs)) + tb_level cap rate k (snd (tb_run hash k l xs)) t1
     \<le> tb_level cap rate k l t0 + of_int (t1 - t0) * rate"
  using assms(2-)
proof (induction xs arbitrary: l t0)
  case Nil
  then show ?case using tb_level_later [OF assms(1) Nil.prems(4)] by simp
next
  case (Cons x xs)
  obtain d c t where x: "x = (d, c, t)" by (cases x)
  then have t: "t0 \<le> t" "t \<le> t1" using Cons.prems(3) by auto
  have IH: "of_int (fst (tb_run hash k l xs)) + tb_level cap rate k (snd (tb_run hash k l xs)) t1
     \<le> tb_level cap rate k l t + of_int (t1 - t) * rate" for l
    using Cons.prems(1,2) x t Cons.prems(3) [OF list.set_intros(2)] by (intro Cons.IH) (auto simp: split_beta)
  have later: "tb_level cap rate k l t + of_int (t1 - t) * rate \<le> tb_level cap rate k l t0 + of_int (t1 - t0) * rate"
    using tb_level_later [OF assms(1) t(1), of cap k l] by (simp add: algebra_simps)
  show ?case
  proof (cases "tb_checkLimit hash l d c t")
    case (Inl e)
    then show ?thesis using IH [of l] later x by simp
  next
    case (Inr p)
    then obtain r l' where p: "tb_checkLimit hash l d c t = Inr (r, l')" by (cases p) auto
    have "tb_level cap rate k l' t = tb_level cap rate k l t -
        of_int (if canAttempt r \<and> hash (dim_endpoint d) = k then nullish (rl_weight c) 1 else 0)"
      by (rule tb_level_check [OF p]) (use Cons.prems(1) x in auto)
    then show ?thesis using IH [of l'] later x p by (simp add: split_beta)
  qed
qed

definition tb_inv :: "TokenBucketRateLimiter \<Rightarrow> bool" where
  "tb_inv l \<longleftrightarrow> (\<forall>k b. map_get (tb_buckets l) k = Some b \<longrightarrow> 0 \<le> tb_tokens b)"

lemma tb_check_inv:
  assumes "tb_inv l" "tb_checkLimit hash l d c t = Inr (r, l')"
  shows "tb_inv l'"
  unfolding tb_inv_def
proof (intro allI impI)
  fix k b assume b: "map_get (tb_buckets l') k = Some b"
  note v = tb_checkLimit_Inr(1) [OF assms(2)]
  have "0 \<le> tb_tokens (tb_ready hash l (dim_endpoint d) c t)"
    using assms(1) tb_refillRate_pos [OF v] tb_capacity_pos [OF v]
    by (auto simp: tb_ready_def tb_refill_def tb_inv_def Let_def nullish_def split: option.splits)
  then show "0 \<le> tb_tokens b"
    using assms(1) b tb_checkLimit_Inr(2,4,5) [OF assms(2)]
    by (cases "k = hash (dim_endpoint d)") (auto simp: tb_inv_def Let_def split: if_splits)
qed

lemma tb_run_inv: "tb_inv l \<Longrightarrow> tb_inv (snd (tb_run hash k l xs))"
proof (induction xs arbitrary: l)
  case (Cons x xs)
  obtain d c t where "x = (d, c, t)" by (cases x)
  then show ?case using Cons tb_check_inv by (auto simp: split_beta split: sum.splits)
qed simp

lemma tb_level_nonneg: "tb_inv l \<Longrightarrow> 0 \<le> rate \<Longrightarrow> 0 \<le> cap \<Longrightarrow> 0 \<le> tb_level cap rate k l t"
  by (auto simp: tb_level_def tb_inv_def split: option.splits)

text \<open>(C16) The rate a receiver sees. Over any sequence of checks at non-decreasing times, for any mix of
  receivers and weights, the weight admitted to the receivers of one key between \<open>t0\<close> and \<open>t1\<close> is at most
  the bucket's capacity plus the refill rate times the time elapsed.\<close>

theorem token_bucket_rate:
  assumes "validateRateLimitConfig c = None" "tb_inv l" "map_get (tb_buckets l) k = None"
    and "\<And>d c' t. (d, c', t) \<in> set xs \<Longrightarrow> hash (dim_endpoint d) = k \<Longrightarrow> \<exists>w. c' = c\<lparr>rl_weight := w\<rparr>"
    and "sorted (map (\<lambda>(d, c, t). t) xs)" "\<And>d c t. (d, c, t) \<in> set xs \<Longrightarrow> t0 \<le> t \<and> t \<le> t1" "t0 \<le> t1"
  shows "of_int (fst (tb_run hash k l xs)) \<le> of_int (tb_capacity c) + of_int (t1 - t0) * tb_refillRate c"
proof -
  define lev where "lev = tb_level (tb_capacity c) (tb_refillRate c) k"
  have rate: "0 \<le> tb_refillRate c" using tb_refillRate_pos [OF assms(1)] by simp
  have same: "tb_capacity c' = tb_capacity c \<and> tb_refillRate c' = tb_refillRate c"
    if "(d, c', t) \<in> set xs" "hash (dim_endpoint d) = k" for d c' t
    using assms(4) [OF that] by (auto simp: tb_capacity_def tb_refillRate_def)
  have "of_int (fst (tb_run hash k l xs)) + lev (snd (tb_run hash k l xs)) t1 \<le> lev l t0 + of_int (t1 - t0) * tb_refillRate c"
    unfolding lev_def using assms(6) by (intro tb_run_level rate same assms(5,7)) auto
  moreover have "lev l t0 = of_int (tb_capacity c)" using assms(3) by (simp add: lev_def tb_level_def)
  moreover have "0 \<le> lev (snd (tb_run hash k l xs)) t1"
    unfolding lev_def using tb_capacity_pos [OF assms(1)] by (intro tb_level_nonneg tb_run_inv assms(2) rate) simp
  ultimately show ?thesis by linarith
qed

theorem token_bucket_rate_witness:
  "fst (tb_run id ''u'' \<lparr>tb_buckets = [], tb_fill = []\<rparr>
     [(demo_dims, demo_config, 0), (demo_dims, demo_config, 100), (demo_dims, demo_config, 200),
      (demo_dims, demo_config, 600)]) = 3 \<and>
   (of_int (fst (tb_run id ''u'' \<lparr>tb_buckets = [], tb_fill = []\<rparr>
     [(demo_dims, demo_config, 0), (demo_dims, demo_config, 100), (demo_dims, demo_config, 200),
      (demo_dims, demo_config, 600)])) :: rat) \<le> of_int (tb_capacity demo_config) + of_int (600 - 0) * tb_refillRate demo_config"
  (is "?a \<and> ?b")
proof
  show ?a by code_simp
  show ?b
    by (rule token_bucket_rate)
       (auto simp: validateRateLimitConfig_def RATE_LIMIT_MIN_WINDOW_MS_def RATE_LIMIT_MAX_WINDOW_MS_def
          RATE_LIMIT_MAX_LIMIT_def demo_config_def tb_inv_def intro!: exI [of _ None])
qed

text \<open>A denial of the token bucket tells when to come back: with no other check in between, an attempt
  within the capacity, repeated with the same configuration after the delay it was given, is admitted.\<close>

theorem retry_after_sufficient:
  assumes "tb_checkLimit hash l d c t = Inr (r, l')" "retryAfterMs r = Some delay"
    and "nullish (rl_weight c) 1 \<le> tb_capacity c"
    and "\<And>b. map_get (tb_buckets l) (hash (dim_endpoint d)) = Some b \<Longrightarrow> tb_lastRefillMs b \<le> t"
    and "t + delay \<le> t'"
  shows "\<exists>r' l''. tb_checkLimit hash l' d c t' = Inr (r', l'') \<and> canAttempt r'"
proof -
  define b where "b = tb_ready hash l (dim_endpoint d) c t"
  define w where "w = nullish (rl_weight c) 1"
  note v = tb_checkLimit_Inr(1) [OF assms(1)]
  have den: "\<not> canAttempt r"
    using assms(1,2) by (auto simp: tb_checkLimit_eq [OF v] Let_def split: if_splits)
  have delay: "delay = \<lceil>(of_int w - tb_tokens b) / tb_refillRate c\<rceil>"
    using tb_checkLimit_Inr(3) [OF assms(1) den] assms(2) by (simp add: b_def w_def)
  have get: "map_get (tb_buckets l') (hash (dim_endpoint d)) = Some b"
    using tb_checkLimit_Inr(4) [OF assms(1)] den by (simp add: b_def Let_def)
  have last: "tb_lastRefillMs b = t"
    using assms(4) by (auto simp: b_def tb_ready_def tb_refill_def Let_def nullish_def split: option.splits)
  have low: "tb_tokens b < of_int w" using tb_checkLimit_Inr(2) [OF assms(1)] den by (simp add: b_def w_def)
  have "0 < delay" using tbl.check_denied [OF assms(1) _ den] assms(2) by simp
  then have "t < t'" using assms(5) by linarith
  have "of_int w - tb_tokens b \<le> of_int delay * tb_refillRate c"
    using tb_refillRate_pos [OF v] by (simp add: delay pos_divide_le_eq [symmetric])
  also have "\<dots> \<le> of_int (t' - t) * tb_refillRate c"
    using tb_refillRate_pos [OF v] assms(5) by (intro mult_right_mono) auto
  finally have "of_int w \<le> tb_tokens (tb_ready hash l' (dim_endpoint d) c t')"
    using assms(3) \<open>t < t'\<close> last get by (simp add: tb_ready_def tb_refill_def Let_def w_def)
  then show ?thesis
    using tbl.check_valid [OF v] tb_checkLimit_Inr(2) by (metis w_def)
qed

theorem retry_after_sufficient_witness:
  "\<exists>r l'. tb_checkLimit id \<lparr>tb_buckets = [(''u'', \<lparr>tb_tokens = 0, tb_lastRefillMs = 0\<rparr>)], tb_fill = []\<rparr>
       demo_dims demo_config 100 = Inr (r, l') \<and> retryAfterMs r = Some 400 \<and>
     (\<exists>r' l''. tb_checkLimit id l' demo_dims demo_config 500 = Inr (r', l'') \<and> canAttempt r')"
proof -
  define l where "l = \<lparr>tb_buckets = [(''u'', \<lparr>tb_tokens = 0, tb_lastRefillMs = 0\<rparr>)], tb_fill = []\<rparr>"
  have "map_sum id (retryAfterMs \<circ> fst) (tb_checkLimit id l demo_dims demo_config 100) = Inr (Some 400)"
    unfolding l_def by code_simp
  then obtain r l' where r: "tb_checkLimit id l demo_dims demo_config 100 = Inr (r, l')" "retryAfterMs r = Some 400"
    by (cases "tb_checkLimit id l demo_dims demo_config 100") auto
  have w: "nullish (rl_weight demo_config) 1 \<le> tb_capacity demo_config" by code_simp
  have "tb_lastRefillMs b \<le> 100" if "map_get (tb_buckets l) (id (dim_endpoint demo_dims)) = Some b" for b
    using that by (auto simp: l_def demo_dims_def)
  from retry_after_sufficient [OF r w this, of 500] r show ?thesis unfolding l_def by auto
qed

lemma cleanup_get:
  assumes "map_wf (tb_buckets l)" "map_get (tb_buckets l) k = Some b" "MIN_STALE_AGE_MS < now - tb_lastRefillMs b"
  shows "map_get (tb_buckets (cleanupStaleBuckets l now)) k = None"
proof (rule ccontr)
  assume "map_get (tb_buckets (cleanupStaleBuckets l now)) k \<noteq> None"
  then obtain b' where "(k, b') \<in> set (tb_buckets l)" "\<not> MIN_STALE_AGE_MS < now - tb_lastRefillMs b'"
    by (auto simp: cleanupStaleBuckets_def dest!: map_of_SomeD)
  then show False using assms by (simp add: map_get_mem)
qed

text \<open>Cleaning up stale buckets forgets debt. A bucket that was last refilled more than
  \<open>MIN_STALE_AGE_MS\<close> ago is deleted whatever its level, so the next attempt finds a full bucket: one that
  the limiter would still deny is admitted just after a cleanup.\<close>

theorem cleanup_forgets_debt:
  assumes "map_wf (tb_buckets l)" "map_get (tb_buckets l) (hash (dim_endpoint d)) = Some b"
    and "MIN_STALE_AGE_MS < now - tb_lastRefillMs b" "validateRateLimitConfig c = None"
    and "nullish (rl_weight c) 1 \<le> tb_capacity c"
    and "tb_tokens b + of_int (now - tb_lastRefillMs b) * tb_refillRate c < of_int (nullish (rl_weight c) 1)"
  shows "(\<exists>r l'. tb_checkLimit hash l d c now = Inr (r, l') \<and> \<not> canAttempt r) \<and>
    (\<exists>r l'. tb_checkLimit hash (cleanupStaleBuckets l now) d c now = Inr (r, l') \<and> canAttempt r)"
proof
  have "tb_tokens (tb_ready hash l (dim_endpoint d) c now) < of_int (nullish (rl_weight c) 1)"
    using assms(2,3,6) by (simp add: tb_ready_def tb_refill_def Let_def MIN_STALE_AGE_MS_def min_less_iff_disj)
  then show "\<exists>r l'. tb_checkLimit hash l d c now = Inr (r, l') \<and> \<not> canAttempt r"
    by (simp add: tb_checkLimit_eq [OF assms(4)] Let_def)
  have "of_int (nullish (rl_weight c) 1) \<le> tb_tokens (tb_ready hash (cleanupStaleBuckets l now) (dim_endpoint d) c now)"
    using assms(5) cleanup_get [OF assms(1-3)] by (simp add: tb_ready_def tb_refill_def)
  then show "\<exists>r l'. tb_checkLimit hash (cleanupStaleBuckets l now) d c now = Inr (r, l') \<and> canAttempt r"
    by (simp add: tb_checkLimit_eq [OF assms(4)] Let_def)
qed

definition demo_slow_config :: RateLimitConfig where
  "demo_slow_config = \<lparr>rl_limit = 2, rl_windowMs = 3600000, rl_burst = 0, rl_weight = None\<rparr>"

definition demo_drained :: TokenBucketRateLimiter where
  "demo_drained = \<lparr>tb_buckets = [(''u'', \<lparr>tb_tokens = 0, tb_lastRefillMs = 0\<rparr>)], tb_fill = []\<rparr>"

theorem cleanup_forgets_debt_witness:
  "(\<exists>r l'. tb_checkLimit id demo_drained demo_dims demo_slow_config 40000 = Inr (r, l') \<and> \<not> canAttempt r) \<and>
   (\<exists>r l'. tb_checkLimit id (cleanupStaleBuckets demo_drained 40000) demo_dims demo_slow_config 40000 = Inr (r, l') \<and>
      canAttempt r)"
proof -
  have "map_wf (tb_buckets demo_drained)" by (simp add: demo_drained_def map_wf_def)
  moreover have "map_get (tb_buckets demo_drained) (id (dim_endpoint demo_dims)) = Some \<lparr>tb_tokens = 0, tb_lastRefillMs = 0\<rparr>"
    by code_simp
  moreover have "MIN_STALE_AGE_MS < 40000 - tb_lastRefillMs \<lparr>tb_tokens = 0, tb_lastRefillMs = 0\<rparr>" by code_simp
  moreover have "validateRateLimitConfig demo_slow_config = None" "nullish (rl_weight demo_slow_config) 1 \<le> tb_capacity demo_slow_config"
    "tb_tokens \<lparr>tb_tokens = 0, tb_lastRefillMs = 0\<rparr> +
       of_int (40000 - tb_lastRefillMs \<lparr>tb_tokens = 0, tb_lastRefillMs = 0\<rparr>) * tb_refillRate demo_slow_config < of_int (nullish (rl_weight demo_slow_config) 1)"
    by code_simp+
  ultimately show ?thesis by (rule cleanup_forgets_debt)
qed

end
