(* ===== verification/Webhook_Retry.thy ===== *)
theory Webhook_Retry
  imports Circuit_Breaker Webhook_Rate_Limit
begin

text \<open>
  Retry policy, backoff and the delivery gate: \<open>src/lib/retry.ts\<close> (\<open>calculateNextRetryDelay\<close>),
  \<open>src/webhooks/types.ts\<close> (the policy) and \<open>src/webhooks/retry.ts\<close> (all of its operations).

  A draw of \<open>random()\<close> is the argument \<open>rnd\<close>, a rational in \<open>[0, 1)\<close>; delays are computed over the
  rationals and rounded with \<open>Math.round\<close>. The circuit-breaker store the gate uses is a
  \<open>breaker_ops\<close> record (the interface \<open>WebhookCircuitBreakerStore\<close>), the rate limiter an optional
  check function. The locale \<open>webhook_breaker\<close> states what the gate relies on of the store; it is
  interpreted on the in-memory store.
\<close>

section \<open>Data\<close>

datatype JitterAlgorithm = Full | Decorrelated | Legacy

record JitteredRetryOptions =
  baseDelayMs :: int
  maxDelayMs :: int
  opt_maxAttempts :: nat
  opt_jitterAlgorithm :: "JitterAlgorithm option"
  opt_jitterPercent :: "int option"
  opt_previousDelayMs :: "int option"

record EnhancedRetryPolicy = CircuitBreakerPolicy +
  maxAttempts :: nat
  initialBackoffMs :: int
  backoffMultiplier :: int
  maxBackoffMs :: int
  jitterPercent :: int
  jitterAlgorithm :: "JitterAlgorithm option"
  timeoutMs :: int
  retryableStatusCodes :: "int list"
  deadLetterAfterMs :: "int option"
  previousDelayMs :: "int option"

abbreviation breaker_policy :: "EnhancedRetryPolicy \<Rightarrow> CircuitBreakerPolicy" where
  "breaker_policy p \<equiv> CircuitBreakerPolicy.truncate p"

definition DEFAULT_RETRY_POLICY :: EnhancedRetryPolicy where
  "DEFAULT_RETRY_POLICY =
     \<lparr>circuitBreakerThreshold = None, circuitBreakerResetMs = None,
      maxAttempts = 5, initialBackoffMs = 1000, backoffMultiplier = 2, maxBackoffMs = 60000,
      jitterPercent = 10, jitterAlgorithm = None, timeoutMs = 30000,
      retryableStatusCodes = [408, 425, 429, 500, 502, 503, 504],
      deadLetterAfterMs = None, previousDelayMs = None\<rparr>"

record WebhookDeliveryAttempt =
  att_attemptNumber :: nat
  att_timestamp :: int
  att_statusCode :: "int option"
  att_error :: "string option"
  att_nextRetryAt :: "int option"

record RetrySchedule =
  rs_attemptNumber :: nat
  rs_delayMs :: int
  rs_retryAt :: int

section \<open>Backoff\<close>

text \<open>\<open>Math.round\<close>\<close>

definition js_round :: "rat \<Rightarrow> int" where
  "js_round x = \<lfloor>x + 1 / 2\<rfloor>"

definition calculateNextRetryDelay :: "nat \<Rightarrow> JitteredRetryOptions \<Rightarrow> rat \<Rightarrow> int" where
  "calculateNextRetryDelay attemptNumber options rnd =
     (if opt_maxAttempts options \<le> attemptNumber then 0
      else
        let algorithm = nullish (opt_jitterAlgorithm options) Legacy;
            percent = nullish (opt_jitterPercent options) (if algorithm = Legacy then 100 else 10);
            exponential = baseDelayMs options * 2 ^ attemptNumber;
            capped = min (maxDelayMs options) exponential
        in if percent = 0 then js_round (of_int capped)
           else
             let jitteredDelay =
                   (case algorithm of
                      Full \<Rightarrow> rnd * of_int capped
                    | Decorrelated \<Rightarrow>
                        let previousDelay = nullish (opt_previousDelayMs options) (baseDelayMs options);
                            maxJitter = min (maxDelayMs options) (previousDelay * 3);
                            range = maxJitter - baseDelayMs options
                        in of_int (baseDelayMs options) + rnd * of_int (max 0 range)
                    | Legacy \<Rightarrow>
                        let range = of_int (capped - baseDelayMs options) * (of_int percent / 100)
                        in of_int (baseDelayMs options) + rnd * max 0 range)
             in max 0 (js_round jitteredDelay))"

definition retry_options :: "EnhancedRetryPolicy \<Rightarrow> int option \<Rightarrow> JitteredRetryOptions" where
  "retry_options policy prev =
     \<lparr>baseDelayMs = initialBackoffMs policy, maxDelayMs = maxBackoffMs policy,
      opt_maxAttempts = maxAttempts policy,
      opt_jitterAlgorithm = Some (nullish (jitterAlgorithm policy) Full),
      opt_jitterPercent = Some (jitterPercent policy), opt_previousDelayMs = prev\<rparr>"

section \<open>Policy operations\<close>

definition isRetryableStatusCode :: "int option \<Rightarrow> EnhancedRetryPolicy \<Rightarrow> bool" where
  "isRetryableStatusCode statusCode policy =
     (case statusCode of None \<Rightarrow> True | Some c \<Rightarrow> c \<in> set (retryableStatusCodes policy))"

definition calculateNextRetryTime ::
  "nat \<Rightarrow> EnhancedRetryPolicy \<Rightarrow> millis \<Rightarrow> int option \<Rightarrow> rat \<Rightarrow> int" where
  "calculateNextRetryTime attemptNumber policy now prev rnd =
     (if maxAttempts policy \<le> attemptNumber then 0
      else now + calculateNextRetryDelay attemptNumber
             (retry_options policy (case prev of Some d \<Rightarrow> Some d | None \<Rightarrow> previousDelayMs policy)) rnd)"

text \<open>The loop of \<open>generateRetrySchedule\<close> from attempt \<open>i\<close> on; \<open>rs i\<close> is the draw made for attempt \<open>i\<close>.\<close>

function generateRetryScheduleFrom ::
  "EnhancedRetryPolicy \<Rightarrow> millis \<Rightarrow> (nat \<Rightarrow> rat) \<Rightarrow> int option \<Rightarrow> nat \<Rightarrow> RetrySchedule list" where
  "generateRetryScheduleFrom policy now rs prev i =
     (if i < maxAttempts policy
      then let delayMs = calculateNextRetryDelay i (retry_options policy prev) (rs i)
           in \<lparr>rs_attemptNumber = i + 1, rs_delayMs = delayMs, rs_retryAt = now + delayMs\<rparr> #
              generateRetryScheduleFrom policy now rs
                (if nullish (jitterAlgorithm policy) Full = Decorrelated then Some delayMs else prev) (i + 1)
      else [])"
  by pat_completeness auto
termination
  by (relation "measure (\<lambda>(p, _, _, _, i). maxAttempts p - i)") auto

declare generateRetryScheduleFrom.simps [simp del]

definition generateRetrySchedule :: "EnhancedRetryPolicy \<Rightarrow> millis \<Rightarrow> (nat \<Rightarrow> rat) \<Rightarrow> RetrySchedule list" where
  "generateRetrySchedule policy now rs = generateRetryScheduleFrom policy now rs None 0"

definition json_nat :: "nat \<Rightarrow> jsval" where
  "json_nat n = JNumber (Finite (of_nat n))"

record WebhookOutboxRetryInput =
  in_consumerUrl :: "string option"
  in_streamId :: string
  in_payload :: jsval
  in_attemptNumber :: nat
  in_policy :: "EnhancedRetryPolicy option"
  in_now :: int

record WebhookOutboxRetryPlan =
  plan_shouldRetry :: bool
  plan_attemptNumber :: nat
  plan_retryAt :: "int option"
  plan_payload :: jsval
  plan_rateLimited :: "bool option"
  plan_attempt :: "WebhookDeliveryAttempt option"

definition scheduleWebhookOutboxRetry :: "WebhookOutboxRetryInput \<Rightarrow> rat \<Rightarrow> WebhookOutboxRetryPlan" where
  "scheduleWebhookOutboxRetry input rnd =
     (let policy = nullish (in_policy input) DEFAULT_RETRY_POLICY;
          nextAttemptNumber = in_attemptNumber input + 1
      in if maxAttempts policy < nextAttemptNumber
         then \<lparr>plan_shouldRetry = False, plan_attemptNumber = in_attemptNumber input, plan_retryAt = None,
               plan_payload = in_payload input, plan_rateLimited = None, plan_attempt = None\<rparr>
         else let meta = JObject [(''attemptNumber'', json_nat nextAttemptNumber)];
                  payload = (case in_payload input of
                      JObject m \<Rightarrow> JObject (map_set ''_webhookRetry'' meta m)
                    | _ \<Rightarrow> JObject [(''_webhookRetry'', meta)])
              in \<lparr>plan_shouldRetry = True, plan_attemptNumber = nextAttemptNumber,
                  plan_retryAt = Some (calculateNextRetryTime (in_attemptNumber input) policy (in_now input) None rnd),
                  plan_payload = payload, plan_rateLimited = None, plan_attempt = None\<rparr>)"

definition shouldRetry :: "WebhookDeliveryAttempt \<Rightarrow> nat \<Rightarrow> EnhancedRetryPolicy \<Rightarrow> int \<Rightarrow> bool" where
  "shouldRetry attempt attemptNumber policy consecutiveFailures =
     (if maxAttempts policy \<le> attemptNumber then False
      else if truthy_num (circuitBreakerThreshold policy) \<and>
              nullish (circuitBreakerThreshold policy) 0 \<le> consecutiveFailures then False
      else if att_statusCode attempt = None then True
      else isRetryableStatusCode (att_statusCode attempt) policy)"

definition shouldSendToDLQ :: "nat \<Rightarrow> EnhancedRetryPolicy \<Rightarrow> millis \<Rightarrow> millis \<Rightarrow> bool" where
  "shouldSendToDLQ attemptNumber policy createdAt clock =
     (if maxAttempts policy \<le> attemptNumber then True
      else if truthy_num (deadLetterAfterMs policy) \<and> nullish (deadLetterAfterMs policy) 0 < clock - createdAt
      then True else False)"

definition calculateCircuitBreakerResetTime :: "EnhancedRetryPolicy \<Rightarrow> millis \<Rightarrow> int" where
  "calculateCircuitBreakerResetTime policy now =
     (if truthy_num (circuitBreakerResetMs policy) then now + nullish (circuitBreakerResetMs policy) 0 else 0)"

definition HALF_OPEN_CONTENTION_DEFERRAL_MS :: int where
  "HALF_OPEN_CONTENTION_DEFERRAL_MS = 1000"

definition resolveCircuitBreakerDeferral ::
  "WebhookCircuitBreakerCheckResult \<Rightarrow> EnhancedRetryPolicy \<Rightarrow> millis \<Rightarrow> int" where
  "resolveCircuitBreakerDeferral breaker policy now =
     (case chk_resetAt breaker of
        Some r \<Rightarrow> if now < r then r
          else if chk_state breaker = HalfOpen then now + HALF_OPEN_CONTENTION_DEFERRAL_MS
          else max (calculateCircuitBreakerResetTime policy now) (now + HALF_OPEN_CONTENTION_DEFERRAL_MS)
      | None \<Rightarrow> if chk_state breaker = HalfOpen then now + HALF_OPEN_CONTENTION_DEFERRAL_MS
          else max (calculateCircuitBreakerResetTime policy now) (now + HALF_OPEN_CONTENTION_DEFERRAL_MS))"

definition attempt_ok :: "WebhookDeliveryAttempt \<Rightarrow> bool" where
  "attempt_ok a \<longleftrightarrow>
     (case att_statusCode a of Some c \<Rightarrow> 200 \<le> c \<and> c < 300 | None \<Rightarrow> False) \<and>
     (case att_error a of None \<Rightarrow> True | Some e \<Rightarrow> e = [])"

definition countsTowardCircuitBreaker :: "WebhookDeliveryAttempt \<Rightarrow> EnhancedRetryPolicy \<Rightarrow> bool" where
  "countsTowardCircuitBreaker attempt policy =
     (if attempt_ok attempt then False
      else if att_statusCode attempt = None then True
      else isRetryableStatusCode (att_statusCode attempt) policy)"

definition formatRetryPolicy :: "EnhancedRetryPolicy \<Rightarrow> string" where
  "formatRetryPolicy policy =
     (let jitterStr = (case jitterAlgorithm policy of
            None \<Rightarrow> show_int (jitterPercent policy) @ ''%''
          | Some a \<Rightarrow> (case a of Full \<Rightarrow> ''full'' | Decorrelated \<Rightarrow> ''decorrelated'' | Legacy \<Rightarrow> ''legacy'') @
              '' '' @ show_int (jitterPercent policy) @ ''%'');
          base = ''max_attempts='' @ show_nat (maxAttempts policy) @
            '', initial_backoff='' @ show_int (initialBackoffMs policy) @ ''ms, multiplier='' @
            show_int (backoffMultiplier policy) @ ''x, max_backoff='' @ show_int (maxBackoffMs policy) @
            ''ms, jitter='' @ jitterStr @ '', timeout='' @ show_int (timeoutMs policy) @ ''ms'';
          extras = (if truthy_num (deadLetterAfterMs policy)
                    then [''dlq_after='' @ show_int (nullish (deadLetterAfterMs policy) 0) @ ''ms''] else []) @
                   (if truthy_num (circuitBreakerThreshold policy)
                    then [''circuit_breaker='' @ show_int (nullish (circuitBreakerThreshold policy) 0)] else [])
      in concat (base # map (\<lambda>e. '', '' @ e) extras))"

datatype PolicyError =
    MaxAttempts_too_small | InitialBackoff_too_small | Multiplier_too_small | MaxBackoff_too_small
  | Timeout_too_small | DeadLetter_too_small

definition validateRetryPolicy :: "EnhancedRetryPolicy \<Rightarrow> PolicyError list" where
  "validateRetryPolicy policy =
     (if maxAttempts policy < 1 then [MaxAttempts_too_small] else []) @
     (if initialBackoffMs policy < 100 then [InitialBackoff_too_small] else []) @
     (if backoffMultiplier policy < 1 then [Multiplier_too_small] else []) @
     (if maxBackoffMs policy < initialBackoffMs policy then [MaxBackoff_too_small] else []) @
     (if timeoutMs policy < 1000 then [Timeout_too_small] else []) @
     (if truthy_num (deadLetterAfterMs policy) \<and> nullish (deadLetterAfterMs policy) 0 < 60000
      then [DeadLetter_too_small] else [])"

section \<open>The delivery gate\<close>

record 'b breaker_ops =
  bo_check :: "'b \<Rightarrow> string \<Rightarrow> CircuitBreakerPolicy \<Rightarrow> millis \<Rightarrow> WebhookCircuitBreakerCheckResult \<times> 'b"
  bo_success :: "'b \<Rightarrow> string \<Rightarrow> CircuitBreakerPolicy \<Rightarrow> millis \<Rightarrow> WebhookCircuitBreakerRecord \<times> 'b"
  bo_failure :: "'b \<Rightarrow> string \<Rightarrow> CircuitBreakerPolicy \<Rightarrow> millis \<Rightarrow> WebhookCircuitBreakerRecord \<times> 'b"

definition memory_breaker :: "(string \<Rightarrow> string) \<Rightarrow> InMemoryWebhookCircuitBreakerStore breaker_ops" where
  "memory_breaker hash =
     \<lparr>bo_check = checkAndClaimAttempt hash, bo_success = recordSuccess hash, bo_failure = recordFailure hash\<rparr>"

type_synonym 'l limiter_check =
  "'l \<Rightarrow> RateLimitDimensions \<Rightarrow> RateLimitConfig \<Rightarrow> millis \<Rightarrow> RateLimitConfigError + RateLimitResult \<times> 'l"

record WebhookDeliveryGateResult =
  gate_canDeliver :: bool
  gate_retryAt :: "int option"
  gate_rateLimited :: "bool option"
  gate_circuitBreakerOpen :: "bool option"
  gate_consecutiveFailures :: int

text \<open>\<open>limiter\<close> is \<open>deps.rateLimiter\<close> with \<open>deps.rateLimitConfig\<close> (both or neither, as the code tests),
  \<open>dims\<close> the dimensions and their weight; \<open>clock\<close> is the time the limiter reads. The state is that of the
  breaker and of the limiter.\<close>

definition checkWebhookDeliveryGate ::
  "'b breaker_ops \<Rightarrow> ('l limiter_check \<times> RateLimitConfig) option \<Rightarrow> RateLimitDimensions \<times> int \<Rightarrow>
   string \<Rightarrow> EnhancedRetryPolicy \<Rightarrow> millis \<Rightarrow> millis \<Rightarrow> 'b \<times> 'l \<Rightarrow>
   RateLimitConfigError + WebhookDeliveryGateResult \<times> 'b \<times> 'l" where
  "checkWebhookDeliveryGate bo limiter dims consumerKey policy now clock st =
     (let (breaker, b1) = bo_check bo (fst st) consumerKey (breaker_policy policy) now
      in if \<not> chk_allowed breaker
         then Inr (\<lparr>gate_canDeliver = False,
                    gate_retryAt = Some (resolveCircuitBreakerDeferral breaker policy now),
                    gate_rateLimited = None,
                    gate_circuitBreakerOpen = Some (chk_state breaker = Open \<or> chk_state breaker = HalfOpen),
                    gate_consecutiveFailures = chk_consecutiveFailures breaker\<rparr>, b1, snd st)
         else (case limiter of
             None \<Rightarrow> Inr (\<lparr>gate_canDeliver = True, gate_retryAt = None, gate_rateLimited = None,
                           gate_circuitBreakerOpen = None,
                           gate_consecutiveFailures = chk_consecutiveFailures breaker\<rparr>, b1, snd st)
           | Some (check, config) \<Rightarrow>
               (case check (snd st) (fst dims) (config\<lparr>rl_weight := Some (snd dims)\<rparr>) clock of
                  Inl e \<Rightarrow> Inl e
                | Inr (limit, l1) \<Rightarrow>
                    if \<not> canAttempt limit
                    then Inr (\<lparr>gate_canDeliver = False,
                               gate_retryAt = Some (now + nullish (retryAfterMs limit) (rl_windowMs config)),
                               gate_rateLimited = Some True, gate_circuitBreakerOpen = None,
                               gate_consecutiveFailures = chk_consecutiveFailures breaker\<rparr>, b1, l1)
                    else Inr (\<lparr>gate_canDeliver = True, gate_retryAt = None, gate_rateLimited = None,
                               gate_circuitBreakerOpen = None,
                               gate_consecutiveFailures = chk_consecutiveFailures breaker\<rparr>, b1, l1))))"

text \<open>Spreading an object or an array into an object literal.\<close>

definition spread :: "jsval \<Rightarrow> (string \<times> jsval) list option" where
  "spread v = (case v of
       JObject m \<Rightarrow> Some m
     | JArray xs \<Rightarrow> Some (zip (map show_nat [0..<length xs]) xs)
     | _ \<Rightarrow> None)"

definition augmentPayloadWithRetry :: "jsval \<Rightarrow> nat \<Rightarrow> jsval" where
  "augmentPayloadWithRetry payload attemptNumber =
     (let base = (case spread payload of Some m \<Rightarrow> m | None \<Rightarrow> [(''value'', payload)])
      in JObject (map_set ''_webhookRetry'' (JObject [(''attemptNumber'', json_nat attemptNumber)]) base))"

definition payload_string :: "jsval \<Rightarrow> string \<Rightarrow> string option" where
  "payload_string payload k =
     (case spread payload of
        None \<Rightarrow> None
      | Some m \<Rightarrow> (case map_get m k of Some (JString s) \<Rightarrow> Some s | _ \<Rightarrow> None))"

definition delivery_dimensions :: "WebhookOutboxRetryInput \<Rightarrow> RateLimitDimensions \<times> int" where
  "delivery_dimensions input =
     (let tenant = nullish (payload_string (in_payload input) ''tenant_id'')
            (nullish (payload_string (in_payload input) ''tenantId'') (in_streamId input));
          endpoint = nullish (in_consumerUrl input) ''unknown_endpoint'';
          isRetry = (1 < in_attemptNumber input);
          outcome = (if isRetry then ''retry'' else ''first_attempt'');
          weight = (if isRetry then int (in_attemptNumber input) else 1)
      in (\<lparr>dim_tenant = tenant, dim_endpoint = endpoint, dim_outcome = outcome\<rparr>, weight))"

text \<open>\<open>deliver\<close> is the result of the HTTP attempt, looked at only when the gate lets the attempt through;
  \<open>clock\<close> and \<open>clock'\<close> are the times read by the limiter and by \<open>recordSuccess\<close>.\<close>

definition attemptWebhookDeliveryWithRateLimit ::
  "'b breaker_ops \<Rightarrow> ('l limiter_check \<times> RateLimitConfig) option \<Rightarrow> WebhookOutboxRetryInput \<Rightarrow>
   WebhookDeliveryAttempt \<Rightarrow> millis \<Rightarrow> millis \<Rightarrow> rat \<Rightarrow> 'b \<times> 'l \<Rightarrow>
   RateLimitConfigError + WebhookOutboxRetryPlan \<times> 'b \<times> 'l" where
  "attemptWebhookDeliveryWithRateLimit bo limiter input deliver clock clock' rnd st =
     (let policy = nullish (in_policy input) DEFAULT_RETRY_POLICY;
          now = in_now input;
          consumerKey = nullish (in_consumerUrl input) (in_streamId input)
      in case checkWebhookDeliveryGate bo limiter (delivery_dimensions input) consumerKey policy now clock st of
           Inl e \<Rightarrow> Inl e
         | Inr (gate, b1, l1) \<Rightarrow>
             if \<not> gate_canDeliver gate
             then Inr (\<lparr>plan_shouldRetry = True, plan_attemptNumber = in_attemptNumber input + 1,
                        plan_retryAt = gate_retryAt gate, plan_payload = in_payload input,
                        plan_rateLimited = gate_rateLimited gate, plan_attempt = None\<rparr>, b1, l1)
             else
               let (consecutiveFailures, b2) =
                     (if attempt_ok deliver
                      then (case bo_success bo b1 consumerKey (breaker_policy policy) clock' of
                              (r, b) \<Rightarrow> (cb_consecutiveFailures r, b))
                      else if countsTowardCircuitBreaker deliver policy
                      then (case bo_failure bo b1 consumerKey (breaker_policy policy) now of
                              (r, b) \<Rightarrow> (cb_consecutiveFailures r, b))
                      else (gate_consecutiveFailures gate, b1))
               in if \<not> shouldRetry deliver (in_attemptNumber input) policy consecutiveFailures
                  then Inr (\<lparr>plan_shouldRetry = False, plan_attemptNumber = in_attemptNumber input + 1,
                             plan_retryAt = None, plan_payload = in_payload input,
                             plan_rateLimited = None, plan_attempt = Some deliver\<rparr>, b2, l1)
                  else Inr (\<lparr>plan_shouldRetry = True, plan_attemptNumber = in_attemptNumber input + 1,
                             plan_retryAt = Some (calculateNextRetryTime (in_attemptNumber input) policy now None rnd),
                             plan_payload = augmentPayloadWithRetry (in_payload input) (in_attemptNumber input + 1),
                             plan_rateLimited = None, plan_attempt = Some deliver\<rparr>, b2, l1))"

section \<open>Bounds on the backoff\<close>

lemma js_round_le: "x \<le> of_int m \<Longrightarrow> js_round x \<le> m"
  unfolding js_round_def by (simp add: floor_le_iff)

lemma js_round_ge: "of_int m \<le> x \<Longrightarrow> m \<le> js_round x"
  unfolding js_round_def by (simp add: le_floor_iff)

lemma js_round_int [simp]: "js_round (of_int m) = m"
  by (intro antisym js_round_le js_round_ge) simp_all

lemma scaled_le: "0 \<le> rnd \<Longrightarrow> rnd < 1 \<Longrightarrow> 0 \<le> (x :: rat) \<Longrightarrow> rnd * x \<le> x"
  by (simp add: mult_left_le_one_le)

lemma exponential_ge: "0 \<le> b \<Longrightarrow> b \<le> (b :: int) * 2 ^ n"
  by (simp add: mult_le_cancel_left1)

text \<open>The three algorithms, for options whose base delay is positive and at most the maximum.\<close>

definition options_ok :: "JitteredRetryOptions \<Rightarrow> bool" where
  "options_ok o' \<longleftrightarrow> 0 < baseDelayMs o' \<and> baseDelayMs o' \<le> maxDelayMs o' \<and>
     (case opt_jitterPercent o' of None \<Rightarrow> True | Some q \<Rightarrow> q \<le> 100)"

lemma legacy_range:
  assumes "0 \<le> d" "q \<le> 100"
  shows "max 0 (of_int d * (of_int q / 100)) \<le> (of_int d :: rat)"
proof -
  have "(of_int d :: rat) * (of_int q / 100) \<le> of_int d * 1"
    using assms by (intro mult_left_mono) auto
  then show ?thesis using assms by simp
qed

lemma delay_bounds:
  assumes ok: "options_ok o'" and r: "0 \<le> rnd" "rnd < 1" and n: "n < opt_maxAttempts o'"
  shows "0 \<le> calculateNextRetryDelay n o' rnd" "calculateNextRetryDelay n o' rnd \<le> maxDelayMs o'"
    and "opt_jitterPercent o' = Some 0 \<or> opt_jitterAlgorithm o' \<noteq> Some Full \<Longrightarrow>
      baseDelayMs o' \<le> calculateNextRetryDelay n o' rnd"
    and "opt_jitterAlgorithm o' \<noteq> Some Decorrelated \<Longrightarrow>
      calculateNextRetryDelay n o' rnd \<le> baseDelayMs o' * 2 ^ n"
proof -
  define base where "base = baseDelayMs o'"
  define capped where "capped = min (maxDelayMs o') (base * 2 ^ n)"
  define alg where "alg = nullish (opt_jitterAlgorithm o') Legacy"
  define q where "q = nullish (opt_jitterPercent o') (if alg = Legacy then 100 else 10)"
  define range where "range = min (maxDelayMs o') (nullish (opt_previousDelayMs o') base * 3) - base"
  have b: "0 < base" "base \<le> maxDelayMs o'" "q \<le> 100"
    using ok by (auto simp: options_ok_def base_def q_def nullish_def split: option.splits)
  have c: "base \<le> capped" "capped \<le> maxDelayMs o'" "capped \<le> base * 2 ^ n"
    using b exponential_ge [of base n] by (auto simp: capped_def)
  define x where "x = (case alg of Full \<Rightarrow> rnd * of_int capped
     | Decorrelated \<Rightarrow> of_int base + rnd * of_int (max 0 range)
     | Legacy \<Rightarrow> of_int base + rnd * max 0 (of_int (capped - base) * (of_int q / 100)))"
  have e: "calculateNextRetryDelay n o' rnd = (if q = 0 then capped else max 0 (js_round x))"
    using n by (simp add: calculateNextRetryDelay_def Let_def x_def capped_def q_def alg_def base_def range_def
        split: JitterAlgorithm.split)
  have full: "0 \<le> rnd * of_int capped" "rnd * of_int capped \<le> of_int capped"
    using r b c by (simp_all add: scaled_le)
  have full': "rnd * of_int capped \<le> of_int (maxDelayMs o')"
    using full(2) c(2) by (meson of_int_le_iff order_trans)
  have leg: "rnd * max 0 (of_int (capped - base) * (of_int q / 100)) \<le> of_int (capped - base)"
    using scaled_le [OF r, of "max 0 (of_int (capped - base) * (of_int q / 100))"]
      legacy_range [of "capped - base" q] b c by linarith
  have dec: "rnd * of_int (max 0 range) \<le> of_int (maxDelayMs o' - base)"
  proof -
    have "rnd * of_int (max 0 range) \<le> of_int (max 0 range)" using r by (intro scaled_le) auto
    also have "\<dots> \<le> of_int (maxDelayMs o' - base)" using b by (simp add: range_def)
    finally show ?thesis .
  qed
  have x: "0 \<le> x" "x \<le> of_int (maxDelayMs o')" "alg \<noteq> Full \<Longrightarrow> of_int base \<le> x"
      "alg \<noteq> Decorrelated \<Longrightarrow> x \<le> of_int capped"
    using full full' leg dec r b c by (auto simp: x_def split: JitterAlgorithm.splits)
  have alg: "opt_jitterAlgorithm o' \<noteq> Some a \<Longrightarrow> a \<noteq> Legacy \<Longrightarrow> alg \<noteq> a" for a
    by (cases "opt_jitterAlgorithm o'") (auto simp: alg_def)
  note j = js_round_ge [of 0 x] js_round_le [OF x(2)] js_round_ge [OF x(3)] js_round_le [OF x(4)]
  show "0 \<le> calculateNextRetryDelay n o' rnd" "calculateNextRetryDelay n o' rnd \<le> maxDelayMs o'"
    using b c x j by (simp_all add: e)
  show "baseDelayMs o' \<le> calculateNextRetryDelay n o' rnd"
    if "opt_jitterPercent o' = Some 0 \<or> opt_jitterAlgorithm o' \<noteq> Some Full"
    using that alg [of Full] b c j(3) by (auto simp: e base_def [symmetric] q_def)
  show "calculateNextRetryDelay n o' rnd \<le> baseDelayMs o' * 2 ^ n"
    if "opt_jitterAlgorithm o' \<noteq> Some Decorrelated"
    using alg [OF that] b c j(4) by (auto simp: e base_def [symmetric])
qed

lemma validateRetryPolicy_Nil:
  "validateRetryPolicy p = [] \<Longrightarrow>
   1 \<le> maxAttempts p \<and> 100 \<le> initialBackoffMs p \<and> initialBackoffMs p \<le> maxBackoffMs p"
  by (auto simp: validateRetryPolicy_def split: if_splits)

lemma retry_options_ok:
  "validateRetryPolicy p = [] \<Longrightarrow> jitterPercent p \<le> 100 \<Longrightarrow> options_ok (retry_options p prev)"
  using validateRetryPolicy_Nil [of p] by (simp add: options_ok_def retry_options_def)

text \<open>(C30) The next retry of a valid policy lies in the future and within the configured backoff: not before
  \<open>now\<close> and not after \<open>now + maxBackoffMs\<close>, whatever the random draw; without full jitter it is at least
  \<open>initialBackoffMs\<close> away, and except for decorrelated jitter at most \<open>initialBackoffMs * 2 ^ attempt\<close>
  (whatever \<open>backoffMultiplier\<close> says).\<close>

theorem backoff_bounds:
  assumes "validateRetryPolicy p = []" "jitterPercent p \<le> 100" "n < maxAttempts p" "0 \<le> rnd" "rnd < 1"
  shows "now \<le> calculateNextRetryTime n p now prev rnd \<and>
    calculateNextRetryTime n p now prev rnd \<le> now + maxBackoffMs p \<and>
    (jitterPercent p = 0 \<or> nullish (jitterAlgorithm p) Full \<noteq> Full \<longrightarrow>
       now + initialBackoffMs p \<le> calculateNextRetryTime n p now prev rnd) \<and>
    (nullish (jitterAlgorithm p) Full \<noteq> Decorrelated \<longrightarrow>
       calculateNextRetryTime n p now prev rnd \<le> now + initialBackoffMs p * 2 ^ n)"
proof -
  define o' where "o' = retry_options p (case prev of Some d \<Rightarrow> Some d | None \<Rightarrow> previousDelayMs p)"
  have "options_ok o'" "n < opt_maxAttempts o'"
    using retry_options_ok [OF assms(1,2)] assms(3) by (simp_all add: o'_def) (simp add: retry_options_def)
  note d = delay_bounds [OF this(1) assms(4,5) this(2)]
  have t: "calculateNextRetryTime n p now prev rnd = now + calculateNextRetryDelay n o' rnd"
    using assms(3) by (simp add: calculateNextRetryTime_def o'_def)
  have f: "opt_jitterPercent o' = Some (jitterPercent p)" "baseDelayMs o' = initialBackoffMs p"
      "opt_jitterAlgorithm o' = Some (nullish (jitterAlgorithm p) Full)" "maxDelayMs o' = maxBackoffMs p"
    by (simp_all add: o'_def retry_options_def)
  show ?thesis using d by (auto simp: t f)
qed

theorem backoff_bounds_witness:
  "60000 \<le> calculateNextRetryTime 2 DEFAULT_RETRY_POLICY 60000 None (1 / 2) \<and>
   calculateNextRetryTime 2 DEFAULT_RETRY_POLICY 60000 None (1 / 2) \<le> 64000"
proof -
  have h: "validateRetryPolicy DEFAULT_RETRY_POLICY = []" "jitterPercent DEFAULT_RETRY_POLICY \<le> 100"
    "2 < maxAttempts DEFAULT_RETRY_POLICY" "(0 :: rat) \<le> 1 / 2" "(1 / 2 :: rat) < 1" by code_simp+
  have f: "nullish (jitterAlgorithm DEFAULT_RETRY_POLICY) Full = Full" "initialBackoffMs DEFAULT_RETRY_POLICY = 1000"
    by code_simp+
  show ?thesis using backoff_bounds [OF h, of 60000 None] by (simp add: f)
qed

text \<open>The schedule: entry \<open>i\<close> is attempt \<open>i + 1\<close>.\<close>

lemma schedule_from:
  assumes "validateRetryPolicy p = []" "jitterPercent p \<le> 100" "\<And>i. 0 \<le> rs i \<and> rs i < 1"
  shows "map rs_attemptNumber (generateRetryScheduleFrom p now rs prev i) = [Suc i..<Suc (maxAttempts p)] \<and>
     (\<forall>e \<in> set (generateRetryScheduleFrom p now rs prev i).
        0 \<le> rs_delayMs e \<and> rs_delayMs e \<le> maxBackoffMs p \<and> rs_retryAt e = now + rs_delayMs e)"
proof (induction "maxAttempts p - i" arbitrary: prev i)
  case 0
  then show ?case by (simp add: generateRetryScheduleFrom.simps [of p now rs prev i])
next
  case (Suc k)
  then have i: "i < maxAttempts p" "k = maxAttempts p - Suc i" by linarith+
  define d where "d = calculateNextRetryDelay i (retry_options p prev) (rs i)"
  have "0 \<le> d" "d \<le> maxBackoffMs p"
    using delay_bounds(1,2) [OF retry_options_ok [OF assms(1,2)], of "rs i" i prev] assms(3) i(1)
    by (simp_all add: d_def retry_options_def)
  moreover define prev' where "prev' = (if nullish (jitterAlgorithm p) Full = Decorrelated then Some d else prev)"
  moreover have "generateRetryScheduleFrom p now rs prev i =
      \<lparr>rs_attemptNumber = Suc i, rs_delayMs = d, rs_retryAt = now + d\<rparr> # generateRetryScheduleFrom p now rs prev' (Suc i)"
    using i(1) by (simp add: generateRetryScheduleFrom.simps [of p now rs prev i] Let_def d_def prev'_def)
  ultimately show ?case using Suc.hyps(1) [of "Suc i" prev'] i by (auto simp: upt_conv_Cons simp del: upt_Suc)
qed

text \<open>The retry schedule of a valid policy lists the attempts \<open>1, ..., maxAttempts\<close> in order, each with
  a delay between \<open>0\<close> and \<open>maxBackoffMs\<close> and the time it stands for, whatever the random draws.\<close>

theorem schedule_well_formed:
  assumes "validateRetryPolicy p = []" "jitterPercent p \<le> 100" "\<And>i. 0 \<le> rs i \<and> rs i < 1"
  shows "map rs_attemptNumber (generateRetrySchedule p now rs) = [1..<Suc (maxAttempts p)] \<and>
     (\<forall>e \<in> set (generateRetrySchedule p now rs).
        0 \<le> rs_delayMs e \<and> rs_delayMs e \<le> maxBackoffMs p \<and> rs_retryAt e = now + rs_delayMs e)"
  using schedule_from [OF assms, where now = now and prev = None and i = 0] by (simp add: generateRetrySchedule_def del: upt_Suc)

theorem schedule_well_formed_witness:
  "map rs_attemptNumber (generateRetrySchedule DEFAULT_RETRY_POLICY 0 (\<lambda>_. 1 / 2)) = [1, 2, 3, 4, 5] \<and>
   list_all (\<lambda>e. rs_delayMs e \<le> 60000) (generateRetrySchedule DEFAULT_RETRY_POLICY 0 (\<lambda>_. 1 / 2))"
proof -
  have h: "validateRetryPolicy DEFAULT_RETRY_POLICY = []" "jitterPercent DEFAULT_RETRY_POLICY \<le> 100"
    "[1..<Suc (maxAttempts DEFAULT_RETRY_POLICY)] = [1, 2, 3, 4, 5]" "maxBackoffMs DEFAULT_RETRY_POLICY = 60000"
    by code_simp+
  show ?thesis using schedule_well_formed [OF h(1,2), of "\<lambda>_. 1 / 2" 0]
    unfolding h(3,4) list_all_iff by simp
qed

section \<open>What the gate relies on\<close>

text \<open>The laws of a circuit-breaker store, over the phase it keeps for a consumer: a denied check changes
  nothing, an admitted check of an open circuit makes it half-open, a half-open circuit admits nothing, and
  outcomes close or reopen it.\<close>

locale webhook_breaker =
  fixes ops :: "'b breaker_ops" and phase :: "'b \<Rightarrow> string \<Rightarrow> WebhookCircuitBreakerPhase"
  assumes denied_keeps: "\<not> chk_allowed (fst (bo_check ops b u p t)) \<Longrightarrow> snd (bo_check ops b u p t) = b"
    and closed_allows: "phase b u = Closed \<Longrightarrow> chk_allowed (fst (bo_check ops b u p t)) \<and> snd (bo_check ops b u p t) = b"
    and open_claims: "0 < cb_threshold p \<Longrightarrow> phase b u = Open \<Longrightarrow> chk_allowed (fst (bo_check ops b u p t)) \<Longrightarrow>
       phase (snd (bo_check ops b u p t)) u = HalfOpen"
    and halfopen_denied: "0 < cb_threshold p \<Longrightarrow> phase b u = HalfOpen \<Longrightarrow> \<not> chk_allowed (fst (bo_check ops b u p t))"
    and denied_future: "\<not> chk_allowed (fst (bo_check ops b u p t)) \<Longrightarrow>
       chk_state (fst (bo_check ops b u p t)) \<noteq> Closed"
    and success_closes: "phase (snd (bo_success ops b u p t)) u = Closed"
    and failure_reopens: "0 < cb_threshold p \<Longrightarrow> phase b u = HalfOpen \<Longrightarrow> phase (snd (bo_failure ops b u p t)) u = Open"

definition memory_phase ::
  "(string \<Rightarrow> string) \<Rightarrow> InMemoryWebhookCircuitBreakerStore \<Rightarrow> string \<Rightarrow> WebhookCircuitBreakerPhase" where
  "memory_phase hash s u = cb_state (cb_lookup hash s u)"

interpretation mb: webhook_breaker "memory_breaker hash" "memory_phase hash" for hash
proof unfold_locales
  fix b u p t
  show "snd (bo_check (memory_breaker hash) b u p t) = b" if "\<not> chk_allowed (fst (bo_check (memory_breaker hash) b u p t))"
    using check_cases [of hash b u p t] that by (cases "checkAndClaimAttempt hash b u p t") (auto simp: memory_breaker_def)
  show "chk_allowed (fst (bo_check (memory_breaker hash) b u p t)) \<and> snd (bo_check (memory_breaker hash) b u p t) = b"
    if "memory_phase hash b u = Closed"
    using that by (simp add: memory_breaker_def memory_phase_def checkAndClaimAttempt_def Let_def)
  show "memory_phase hash (snd (bo_check (memory_breaker hash) b u p t)) u = HalfOpen"
    if "0 < cb_threshold p" "memory_phase hash b u = Open" "chk_allowed (fst (bo_check (memory_breaker hash) b u p t))"
    using that check_claims_probe [where hash = hash and s = b and u = u and p = p and now = t] by (simp add: memory_breaker_def memory_phase_def)
  show "\<not> chk_allowed (fst (bo_check (memory_breaker hash) b u p t))"
    if "0 < cb_threshold p" "memory_phase hash b u = HalfOpen"
    using that by (simp add: memory_breaker_def memory_phase_def check_halfopen)
  show "chk_state (fst (bo_check (memory_breaker hash) b u p t)) \<noteq> Closed"
    if "\<not> chk_allowed (fst (bo_check (memory_breaker hash) b u p t))"
    using that by (cases "cb_state (cb_lookup hash b u)")
      (auto simp: memory_breaker_def checkAndClaimAttempt_def Let_def split: if_splits)
  show "memory_phase hash (snd (bo_success (memory_breaker hash) b u p t)) u = Closed"
    by (simp add: memory_breaker_def memory_phase_def recordSuccess_def Let_def)
  show "memory_phase hash (snd (bo_failure (memory_breaker hash) b u p t)) u = Open"
    if "0 < cb_threshold p" "memory_phase hash b u = HalfOpen"
    using that by (simp add: memory_breaker_def memory_phase_def recordFailure_def Let_def)
qed

lemma deferral_future: "now < resolveCircuitBreakerDeferral c p now"
  by (auto simp: resolveCircuitBreakerDeferral_def HALF_OPEN_CONTENTION_DEFERRAL_MS_def split: option.splits)

abbreviation input_policy :: "WebhookOutboxRetryInput \<Rightarrow> EnhancedRetryPolicy" where
  "input_policy input \<equiv> nullish (in_policy input) DEFAULT_RETRY_POLICY"

abbreviation input_key :: "WebhookOutboxRetryInput \<Rightarrow> string" where
  "input_key input \<equiv> nullish (in_consumerUrl input) (in_streamId input)"

abbreviation input_config :: "WebhookOutboxRetryInput \<Rightarrow> RateLimitConfig \<Rightarrow> RateLimitConfig" where
  "input_config input config \<equiv> config\<lparr>rl_weight := Some (snd (delivery_dimensions input))\<rparr>"

text \<open>Repeated attempts of one outbox row, at the times given: the state after them.\<close>

definition attempt_step ::
  "'b breaker_ops \<Rightarrow> ('l limiter_check \<times> RateLimitConfig) option \<Rightarrow> WebhookOutboxRetryInput \<Rightarrow>
   'b \<times> 'l \<Rightarrow> WebhookDeliveryAttempt \<times> millis \<times> millis \<times> millis \<times> rat \<Rightarrow> 'b \<times> 'l" where
  "attempt_step bo limiter input st x =
     (case x of (deliver, now, clock, clock', rnd) \<Rightarrow>
        (case attemptWebhookDeliveryWithRateLimit bo limiter (input\<lparr>in_now := now\<rparr>) deliver clock clock' rnd st of
           Inl e \<Rightarrow> st
         | Inr (plan, st') \<Rightarrow> st'))"

lemma delivery_dimensions_now [simp]: "delivery_dimensions (input\<lparr>in_now := t\<rparr>) = delivery_dimensions input"
  by (simp add: delivery_dimensions_def Let_def)

lemma delivery_endpoint: "dim_endpoint (fst (delivery_dimensions input)) = nullish (in_consumerUrl input) ''unknown_endpoint''"
  by (simp add: delivery_dimensions_def Let_def)

text \<open>The breaker after the outcome of a delivery is recorded.\<close>

definition outcome_state ::
  "'b breaker_ops \<Rightarrow> WebhookOutboxRetryInput \<Rightarrow> WebhookDeliveryAttempt \<Rightarrow> millis \<Rightarrow> 'b \<Rightarrow> 'b" where
  "outcome_state bo input deliver clock' b =
     (if attempt_ok deliver
      then snd (bo_success bo b (input_key input) (breaker_policy (input_policy input)) clock')
      else if countsTowardCircuitBreaker deliver (input_policy input)
      then snd (bo_failure bo b (input_key input) (breaker_policy (input_policy input)) (in_now input))
      else b)"

lemma attempt_denied:
  assumes "checkWebhookDeliveryGate bo lmt (delivery_dimensions input) (input_key input) (input_policy input)
      (in_now input) clock st = Inr (g, b1, l1)" "\<not> gate_canDeliver g"
  shows "attemptWebhookDeliveryWithRateLimit bo lmt input deliver clock clock' rnd st =
     Inr (\<lparr>plan_shouldRetry = True, plan_attemptNumber = in_attemptNumber input + 1, plan_retryAt = gate_retryAt g,
           plan_payload = in_payload input, plan_rateLimited = gate_rateLimited g, plan_attempt = None\<rparr>, b1, l1)"
  using assms by (simp add: attemptWebhookDeliveryWithRateLimit_def Let_def)

lemma attempt_delivered:
  assumes "checkWebhookDeliveryGate bo lmt (delivery_dimensions input) (input_key input) (input_policy input)
      (in_now input) clock st = Inr (g, b1, l1)" "gate_canDeliver g"
  shows "\<exists>plan. attemptWebhookDeliveryWithRateLimit bo lmt input deliver clock clock' rnd st =
      Inr (plan, outcome_state bo input deliver clock' b1, l1) \<and> plan_attempt plan = Some deliver \<and>
     (plan_shouldRetry plan \<longrightarrow> in_attemptNumber input < maxAttempts (input_policy input) \<and>
        isRetryableStatusCode (att_statusCode deliver) (input_policy input) \<and>
        plan_retryAt plan = Some (calculateNextRetryTime (in_attemptNumber input) (input_policy input) (in_now input) None rnd) \<and>
        plan_payload plan = augmentPayloadWithRetry (in_payload input) (in_attemptNumber input + 1)) \<and>
     (\<not> plan_shouldRetry plan \<longrightarrow> plan_retryAt plan = None \<and> plan_payload plan = in_payload input)"
  using assms
  by (simp add: attemptWebhookDeliveryWithRateLimit_def Let_def split_beta outcome_state_def shouldRetry_def
      isRetryableStatusCode_def split: if_splits)

lemma attempt_error:
  "attemptWebhookDeliveryWithRateLimit bo lmt input deliver clock clock' rnd st = Inl e \<longleftrightarrow>
   checkWebhookDeliveryGate bo lmt (delivery_dimensions input) (input_key input) (input_policy input)
      (in_now input) clock st = Inl e"
  by (auto simp: attemptWebhookDeliveryWithRateLimit_def Let_def split_beta split: sum.splits if_splits)

lemma attempt_gate:
  assumes "attemptWebhookDeliveryWithRateLimit bo lmt input deliver clock clock' rnd st = Inr (plan, b', l')"
  obtains g b1 where "checkWebhookDeliveryGate bo lmt (delivery_dimensions input) (input_key input) (input_policy input)
      (in_now input) clock st = Inr (g, b1, l')"
    "b' = (if gate_canDeliver g then outcome_state bo input deliver clock' b1 else b1)"
    "plan_attempt plan = (if gate_canDeliver g then Some deliver else None)"
    "\<not> gate_canDeliver g \<Longrightarrow> plan_shouldRetry plan"
proof (cases "checkWebhookDeliveryGate bo lmt (delivery_dimensions input) (input_key input) (input_policy input)
      (in_now input) clock st")
  case (Inl e)
  then show thesis using assms attempt_error [of bo lmt input deliver clock clock' rnd st e] by simp
next
  case (Inr x)
  obtain g b1 l1 where x: "x = (g, b1, l1)" by (cases x)
  show thesis
  proof (cases "gate_canDeliver g")
    case True
    then show thesis
      using attempt_delivered [OF Inr [unfolded x] True, of deliver clock' rnd] assms Inr x that by auto
  next
    case False
    then show thesis using attempt_denied [OF Inr [unfolded x] False, of deliver clock' rnd] assms Inr x that by auto
  qed
qed

locale delivery_gate =
  webhook_breaker ops phase + webhook_rate_limiter check heavy up
  for ops :: "'b breaker_ops" and phase and check :: "'l limiter_check" and heavy and up
begin

lemma gate_denied_future:
  assumes "checkWebhookDeliveryGate ops (Some (check, config)) dims u p now clock (b, l) = Inr (g, b', l')"
    and "\<not> gate_canDeliver g" "up l"
  shows "\<exists>due. gate_retryAt g = Some due \<and> now < due"
proof (cases "chk_allowed (fst (bo_check ops b u (breaker_policy p) now))")
  case False
  then show ?thesis using assms(1) deferral_future
    by (auto simp: checkWebhookDeliveryGate_def split_beta)
next
  case True
  let ?c = "check l (fst dims) (config\<lparr>rl_weight := Some (snd dims)\<rparr>) clock"
  obtain r where r: "?c = Inr (r, l')" "\<not> canAttempt r"
    "gate_retryAt g = Some (now + nullish (retryAfterMs r) (rl_windowMs config))"
    using True assms(1,2)
    by (auto simp: checkWebhookDeliveryGate_def split_beta split: if_splits sum.splits)
  then show ?thesis using check_denied [OF r(1) assms(3) r(2)] by auto
qed

lemma halfopen_deferred:
  assumes "0 < cb_threshold (breaker_policy (input_policy input))" "phase b (input_key input) = HalfOpen"
  shows "\<exists>plan. attemptWebhookDeliveryWithRateLimit ops lmt input deliver clock clock' rnd (b, l) = Inr (plan, b, l) \<and>
     plan_attempt plan = None \<and> plan_shouldRetry plan"
  using halfopen_denied [OF assms] denied_keeps
  by (simp add: attemptWebhookDeliveryWithRateLimit_def checkWebhookDeliveryGate_def split_beta Let_def)

lemma halfopen_run_stuck:
  assumes "0 < cb_threshold (breaker_policy (input_policy input))" "phase (fst st) (input_key input) = HalfOpen"
  shows "foldl (attempt_step ops lmt input) st xs = st"
proof (induction xs)
  case (Cons x xs)
  obtain deliver now clock clock' rnd where x: "x = (deliver, now, clock, clock', rnd)" by (cases x)
  obtain plan where "attemptWebhookDeliveryWithRateLimit ops lmt (input\<lparr>in_now := now\<rparr>) deliver clock clock' rnd
      (fst st, snd st) = Inr (plan, fst st, snd st)"
    using halfopen_deferred [of "input\<lparr>in_now := now\<rparr>" "fst st" lmt deliver clock clock' rnd "snd st"] assms by auto
  then have "attempt_step ops lmt input st x = st" by (simp add: attempt_step_def x)
  then show ?case using Cons.IH by simp
qed simp

lemma limited_probe_leaks:
  assumes "0 < cb_threshold (breaker_policy (input_policy input))" "phase b (input_key input) = Open"
    and "chk_allowed (fst (bo_check ops b (input_key input) (breaker_policy (input_policy input)) (in_now input)))"
    and "check l (fst (delivery_dimensions input)) (input_config input config) clock = Inr (r, l1)" "\<not> canAttempt r"
  shows "\<exists>plan b'. attemptWebhookDeliveryWithRateLimit ops (Some (check, config)) input deliver clock clock' rnd (b, l) =
       Inr (plan, b', l1) \<and> plan_attempt plan = None \<and> phase b' (input_key input) = HalfOpen"
  using open_claims [OF assms(1-3)] assms(3-5)
  by (simp add: attemptWebhookDeliveryWithRateLimit_def checkWebhookDeliveryGate_def split_beta Let_def)

lemma gate_opens:
  assumes "0 < cb_threshold (breaker_policy p)" "phase b u = Open"
    and "checkWebhookDeliveryGate ops lmt dims u p now clock (b, l) = Inr (g, b1, l1)" "gate_canDeliver g"
  shows "phase b1 u = HalfOpen"
  using open_claims [OF assms(1,2), of now] assms(3,4)
  by (auto simp: checkWebhookDeliveryGate_def split_beta Let_def split: if_splits option.splits sum.splits prod.splits)

lemma probe_outcome:
  assumes "0 < cb_threshold (breaker_policy (input_policy input))" "phase b (input_key input) = Open"
    and "attemptWebhookDeliveryWithRateLimit ops lmt input deliver clock clock' rnd (b, l) = Inr (plan, b', l')"
    and "plan_attempt plan \<noteq> None"
  shows "phase b' (input_key input) =
     (if attempt_ok deliver then Closed
      else if countsTowardCircuitBreaker deliver (input_policy input) then Open else HalfOpen)"
proof -
  obtain g b1 where g: "checkWebhookDeliveryGate ops lmt (delivery_dimensions input) (input_key input) (input_policy input)
      (in_now input) clock (b, l) = Inr (g, b1, l')" "gate_canDeliver g"
    "b' = outcome_state ops input deliver clock' b1"
    using assms(4) by (rule_tac attempt_gate [OF assms(3)]) (auto split: if_splits)
  then show ?thesis
    using success_closes failure_reopens [OF assms(1)] gate_opens [OF assms(1,2) g(1,2)]
    by (simp add: outcome_state_def)
qed

lemma heavy_deferred:
  assumes "validateRateLimitConfig config = None" "up l"
    and "heavy l (dim_endpoint (fst (delivery_dimensions input))) (input_config input config)"
    and "attemptWebhookDeliveryWithRateLimit ops (Some (check, config)) input deliver clock clock' rnd (b, l) =
      Inr (plan, b', l')"
  shows "plan_attempt plan = None \<and> plan_shouldRetry plan \<and> up l' \<and>
     heavy l' (dim_endpoint (fst (delivery_dimensions input))) (input_config input config)"
proof -
  obtain r l1 where r: "check l (fst (delivery_dimensions input)) (input_config input config) clock = Inr (r, l1)"
    "\<not> canAttempt r" "up l1" "heavy l1 (dim_endpoint (fst (delivery_dimensions input))) (input_config input config)"
    using heavy_denied [OF assms(2) _ assms(3)] assms(1) by (metis validate_weight)
  obtain g b1 where g: "checkWebhookDeliveryGate ops (Some (check, config)) (delivery_dimensions input) (input_key input)
      (input_policy input) (in_now input) clock (b, l) = Inr (g, b1, l')"
      "plan_attempt plan = (if gate_canDeliver g then Some deliver else None)"
      "\<not> gate_canDeliver g \<Longrightarrow> plan_shouldRetry plan"
    by (rule attempt_gate [OF assms(4)]) blast
  from g(1) r assms(2,3) have "\<not> gate_canDeliver g \<and> (l' = l1 \<or> l' = l)"
    by (auto simp: checkWebhookDeliveryGate_def split_beta Let_def split: if_splits)
  with g(2,3) r assms(2,3) show ?thesis by auto
qed

lemma heavy_run:
  assumes "validateRateLimitConfig config = None" "up (snd st)"
    and "heavy (snd st) (dim_endpoint (fst (delivery_dimensions input))) (input_config input config)"
  shows "up (snd (foldl (attempt_step ops (Some (check, config)) input) st xs)) \<and>
    heavy (snd (foldl (attempt_step ops (Some (check, config)) input) st xs))
      (dim_endpoint (fst (delivery_dimensions input))) (input_config input config)"
  using assms(2,3)
proof (induction xs arbitrary: st)
  case (Cons x xs)
  obtain deliver now clock clock' rnd where x: "x = (deliver, now, clock, clock', rnd)" by (cases x)
  let ?st = "attempt_step ops (Some (check, config)) input st x"
  have "up (snd ?st) \<and> heavy (snd ?st) (dim_endpoint (fst (delivery_dimensions input))) (input_config input config)"
    using heavy_deferred [OF assms(1), of "snd st" "input\<lparr>in_now := now\<rparr>" deliver clock clock' rnd "fst st"] Cons.prems
    by (auto simp: attempt_step_def x split: sum.splits)
  then show ?case using Cons.IH [of ?st] by simp
qed simp

end

interpretation memory_gate: delivery_gate "memory_breaker hash" "memory_phase hash" "tb_checkLimit hash'"
    "bucket_heavy hash'" "\<lambda>_. True" for hash hash'
  by unfold_locales

interpretation redis_gate: delivery_gate "memory_breaker hash" "memory_phase hash" "checkLimit zops hash'"
    window_heavy "\<lambda>l. zset_up zops \<and> overrides_valid l" for hash zops hash'
  by unfold_locales

section \<open>Properties of the gate\<close>


definition demo_retry_policy :: EnhancedRetryPolicy where
  "demo_retry_policy = DEFAULT_RETRY_POLICY\<lparr>circuitBreakerThreshold := Some 2, circuitBreakerResetMs := Some 1000\<rparr>"

definition demo_input :: WebhookOutboxRetryInput where
  "demo_input = \<lparr>in_consumerUrl = Some ''u'', in_streamId = ''s'', in_payload = JNull, in_attemptNumber = 3,
     in_policy = Some demo_retry_policy, in_now = 2000\<rparr>"

definition demo_deliver :: "int \<Rightarrow> WebhookDeliveryAttempt" where
  "demo_deliver code = \<lparr>att_attemptNumber = 3, att_timestamp = 2000, att_statusCode = Some code, att_error = None,
     att_nextRetryAt = None\<rparr>"

definition demo_open :: InMemoryWebhookCircuitBreakerStore where
  "demo_open = foldl (cb_step id) cb_empty
     [Failure ''u'' (breaker_policy demo_retry_policy) 0, Failure ''u'' (breaker_policy demo_retry_policy) 1]"

definition demo_buckets :: TokenBucketRateLimiter where
  "demo_buckets = \<lparr>tb_buckets = [], tb_fill = []\<rparr>"


text \<open>The outcome of a probe. A delivery made while the circuit was open closes the circuit when it
  succeeds and reopens it when it fails in a way that counts; a probe answered with a status that is neither
  a success nor retryable leaves the circuit half-open.\<close>

theorem probe_result:
  assumes "0 < cb_threshold (breaker_policy (input_policy input))" "memory_phase hash b (input_key input) = Open"
    and "attemptWebhookDeliveryWithRateLimit (memory_breaker hash) lmt input deliver clock clock' rnd (b, l) =
      Inr (plan, b', l')" "plan_attempt plan \<noteq> None"
  shows "memory_phase hash b' (input_key input) =
     (if attempt_ok deliver then Closed
      else if countsTowardCircuitBreaker deliver (input_policy input) then Open else HalfOpen)"
  using assms by (rule memory_gate.probe_outcome)

theorem probe_result_witness:
  "\<exists>plan b' l'. attemptWebhookDeliveryWithRateLimit (memory_breaker id) None demo_input
      (demo_deliver 404) 2000 2000 (1 / 2) (demo_open, ()) = Inr (plan, b', l') \<and> plan_attempt plan \<noteq> None \<and>
    memory_phase id b' ''u'' = HalfOpen"
proof -
  let ?a = "attemptWebhookDeliveryWithRateLimit (memory_breaker id) None demo_input
      (demo_deliver 404) 2000 2000 (1 / 2) (demo_open, ())"
  have "map_sum id (\<lambda>x. plan_attempt (fst x) \<noteq> None) ?a = Inr True" by code_simp
  then obtain plan b' l' where a: "?a = Inr (plan, b', l')" "plan_attempt plan \<noteq> None" by (cases ?a) auto
  have h: "0 < cb_threshold (breaker_policy (input_policy demo_input))" "memory_phase id demo_open (input_key demo_input) = Open"
    "input_key demo_input = ''u''" "attempt_ok (demo_deliver 404) = False"
    "countsTowardCircuitBreaker (demo_deliver 404) (input_policy demo_input) = False" by code_simp+
  from probe_result [OF h(1,2) a] h(3-5) a show ?thesis by auto
qed



text \<open>Weights can starve a delivery. The weight of a retry is its attempt number; when that exceeds what
  the limiter can ever admit (the limit of the sliding window), no repetition of the attempt, at any time, is
  delivered, although each plan promises a retry.\<close>

theorem heavy_retry_starves:
  assumes "validateRateLimitConfig config = None" "zset_up zops" "overrides_valid (snd st)"
    and "window_heavy (snd st) (nullish (in_consumerUrl input) ''unknown_endpoint'') (input_config input config)"
    and "attemptWebhookDeliveryWithRateLimit (memory_breaker hash) (Some (checkLimit zops hash', config))
      (input\<lparr>in_now := now\<rparr>) deliver clock clock' rnd
      (foldl (attempt_step (memory_breaker hash) (Some (checkLimit zops hash', config)) input) st xs) = Inr (plan, st')"
  shows "plan_attempt plan = None \<and> plan_shouldRetry plan"
proof -
  let ?st = "foldl (attempt_step (memory_breaker hash) (Some (checkLimit zops hash', config)) input) st xs"
  have "(zset_up zops \<and> overrides_valid (snd ?st)) \<and>
      window_heavy (snd ?st) (dim_endpoint (fst (delivery_dimensions input))) (input_config input config)"
    using assms(2-4) by (intro redis_gate.heavy_run assms(1)) (simp_all add: delivery_endpoint)
  then show ?thesis
    using redis_gate.heavy_deferred [of config zops "snd ?st" "input\<lparr>in_now := now\<rparr>" hash hash' deliver clock clock' rnd
        "fst ?st" plan "fst st'" "snd st'"] assms(1,5) by simp
qed

theorem heavy_retry_starves_witness:
  "\<exists>plan st'. attemptWebhookDeliveryWithRateLimit (memory_breaker id) (Some (checkLimit list_zset id, demo_config))
      (demo_input\<lparr>in_now := 99999\<rparr>) (demo_deliver 200) 99999 99999 0
      (foldl (attempt_step (memory_breaker id) (Some (checkLimit list_zset id, demo_config)) demo_input)
         (cb_empty, demo_limiter) [(demo_deliver 200, 5000, 5000, 5000, 0)]) = Inr (plan, st') \<and>
    plan_attempt plan = None \<and> plan_shouldRetry plan"
proof -
  let ?a = "attemptWebhookDeliveryWithRateLimit (memory_breaker id) (Some (checkLimit list_zset id, demo_config))
      (demo_input\<lparr>in_now := 99999\<rparr>) (demo_deliver 200) 99999 99999 0
      (foldl (attempt_step (memory_breaker id) (Some (checkLimit list_zset id, demo_config)) demo_input)
         (cb_empty, demo_limiter) [(demo_deliver 200, 5000, 5000, 5000, 0)])"
  have "map_sum id (plan_attempt \<circ> fst) ?a = Inr None" by code_simp
  then obtain plan st' where a: "?a = Inr (plan, st')" by (cases ?a) auto
  have h: "validateRateLimitConfig demo_config = None"
    "window_heavy demo_limiter (nullish (in_consumerUrl demo_input) ''unknown_endpoint'') (input_config demo_input demo_config)"
    by code_simp+
  have up: "zset_up list_zset" "overrides_valid demo_limiter"
    by (simp_all add: zset_up_def list_zset_def overrides_valid_def demo_limiter_def)
  from heavy_retry_starves [OF h(1) up(1) _ _ a] up(2) h(2) a show ?thesis by simp
qed

end
