(* ===== verification/Webhook_Store.thy ===== *)
theory Webhook_Store
  imports Webhook_Retry "HOL-Library.Multiset"
begin

text \<open>
  The in-memory \<open>WebhookDeliveryStore\<close> of \<open>src/webhooks/store.ts\<close>: delivery records with their
  deduplication index, the outbox with its priority queues and leases, the dead-letter queue and the
  counters.

  The code keeps one \<open>OutboxItem\<close> object in two places, the \<open>outbox\<close> map and a priority queue, and
  mutates it through either; a delivery is likewise shared by the delivery map and the dead-letter
  queue. The model keeps the objects in two heaps (\<open>ws_items\<close>, \<open>ws_objects\<close>; an address is an index,
  objects are never freed) and addresses in the maps. Identifiers drawn from the clock and \<open>Math.random\<close>
  are arguments; times are arguments with the code's defaults applied.

  The lemmas: the invariant that ties map, queues and counter together, along every reachable state;
  what a claim returns and that claims of two workers are disjoint while a lease lasts; that only the
  holder can release or acknowledge an item; recovery after a lease expires; delivery order.
\<close>

section \<open>Data\<close>

datatype WebhookDeliveryStatus = D_pending | D_delivered | D_failed | D_permanent_failure

datatype DLQReasonCode = Poison | Exhausted | Timed_out | Circuit_breaker | Rate_limited | Other_reason

record WebhookDelivery =
  wd_id :: string
  wd_deliveryId :: string
  wd_eventId :: string
  wd_eventType :: string
  wd_endpointUrl :: string
  wd_status :: WebhookDeliveryStatus
  wd_attempts :: "WebhookDeliveryAttempt list"
  wd_createdAt :: int
  wd_updatedAt :: int
  wd_payload :: string

record DeadLetterQueueItem =
  dl_id :: string
  dl_deliveryId :: string
  dl_eventId :: string
  dl_eventType :: string
  dl_endpointUrl :: string
  dl_payload :: string
  dl_originalDelivery :: nat
  dl_failureReason :: string
  dl_reasonCode :: DLQReasonCode
  dl_createdAt :: int

datatype OutboxItemStatus = O_pending | O_in_flight | O_delivered | O_failed

datatype Priority = High | Normal | Low

record OutboxItem =
  ob_id :: string
  ob_deliveryId :: string
  ob_eventId :: string
  ob_eventType :: string
  ob_endpointUrl :: string
  ob_payload :: string
  ob_secret :: string
  ob_priority :: Priority
  ob_createdAt :: int
  ob_scheduledFor :: int
  ob_attempts :: nat
  ob_maxAttempts :: nat
  ob_status :: "OutboxItemStatus option"
  ob_lockedAt :: "int option"
  ob_lockedBy :: "string option"

record StoreMetrics =
  m_totalDeliveries :: int
  m_successfulDeliveries :: int
  m_failedDeliveries :: int
  m_dlqItems :: int
  m_outboxItems :: int

record WebhookDeliveryStore =
  ws_objects :: "WebhookDelivery list"
  ws_items :: "OutboxItem list"
  ws_deliveries :: "(string, nat) jsmap"
  ws_deliveryIdIndex :: "(string, string) jsmap"
  ws_outbox :: "(string, nat) jsmap"
  ws_queues :: "(Priority, nat list) jsmap"
  ws_deadLetterQueue :: "(string, DeadLetterQueueItem) jsmap"
  ws_metrics :: StoreMetrics

definition DEFAULT_CLAIM_LOCK_TIMEOUT_MS :: int where
  "DEFAULT_CLAIM_LOCK_TIMEOUT_MS = 30000"

definition zero_metrics :: StoreMetrics where
  "zero_metrics = \<lparr>m_totalDeliveries = 0, m_successfulDeliveries = 0, m_failedDeliveries = 0,
     m_dlqItems = 0, m_outboxItems = 0\<rparr>"

definition new_store :: WebhookDeliveryStore where
  "new_store = \<lparr>ws_objects = [], ws_items = [], ws_deliveries = [], ws_deliveryIdIndex = [], ws_outbox = [],
     ws_queues = [], ws_deadLetterQueue = [], ws_metrics = zero_metrics\<rparr>"

section \<open>Delivery records\<close>

text \<open>A caller building a delivery object; the result is its address.\<close>

definition new_delivery :: "WebhookDelivery \<Rightarrow> WebhookDeliveryStore \<Rightarrow> nat \<times> WebhookDeliveryStore" where
  "new_delivery d s = (length (ws_objects s), s\<lparr>ws_objects := ws_objects s @ [d]\<rparr>)"

definition store :: "nat \<Rightarrow> WebhookDeliveryStore \<Rightarrow> WebhookDeliveryStore" where
  "store a s =
     (let delivery = ws_objects s ! a
      in s\<lparr>ws_deliveries := map_set (wd_id delivery) a (ws_deliveries s),
           ws_deliveryIdIndex := map_set (wd_deliveryId delivery) (wd_id delivery) (ws_deliveryIdIndex s),
           ws_metrics := (ws_metrics s)\<lparr>m_totalDeliveries := m_totalDeliveries (ws_metrics s) + 1\<rparr>\<rparr>)"

definition ws_get :: "string \<Rightarrow> WebhookDeliveryStore \<Rightarrow> WebhookDelivery option" where
  "ws_get i s = map_option (nth (ws_objects s)) (map_get (ws_deliveries s) i)"

text \<open>\<open>id ? ... : undefined\<close>: the empty string is falsy.\<close>

definition getByDeliveryId :: "string \<Rightarrow> WebhookDeliveryStore \<Rightarrow> WebhookDelivery option" where
  "getByDeliveryId deliveryId s =
     (case map_get (ws_deliveryIdIndex s) deliveryId of
        None \<Rightarrow> None
      | Some i \<Rightarrow> if i = [] then None else ws_get i s)"

definition updateStatus :: "string \<Rightarrow> WebhookDeliveryStatus \<Rightarrow> millis \<Rightarrow> WebhookDeliveryStore \<Rightarrow> WebhookDeliveryStore" where
  "updateStatus i status clock s =
     (case map_get (ws_deliveries s) i of
        None \<Rightarrow> s
      | Some a \<Rightarrow>
          let delivery = ws_objects s ! a;
              oldStatus = wd_status delivery;
              m = ws_metrics s;
              m' = (if oldStatus \<noteq> D_delivered \<and> status = D_delivered
                    then m\<lparr>m_successfulDeliveries := m_successfulDeliveries m + 1\<rparr>
                    else if oldStatus \<noteq> D_permanent_failure \<and> status = D_permanent_failure
                    then m\<lparr>m_failedDeliveries := m_failedDeliveries m + 1\<rparr>
                    else m)
          in s\<lparr>ws_objects := (ws_objects s)[a := delivery\<lparr>wd_status := status, wd_updatedAt := clock\<rparr>],
               ws_metrics := m'\<rparr>)"

definition getPendingRetries :: "millis \<Rightarrow> WebhookDeliveryStore \<Rightarrow> WebhookDelivery list" where
  "getPendingRetries now s =
     filter (\<lambda>d. wd_status d = D_pending \<and> wd_attempts d \<noteq> [] \<and>
               truthy_num (att_nextRetryAt (last (wd_attempts d))) \<and>
               nullish (att_nextRetryAt (last (wd_attempts d))) 0 \<le> now)
       (map (nth (ws_objects s)) (map_values (ws_deliveries s)))"

definition getByEventId :: "string \<Rightarrow> WebhookDeliveryStore \<Rightarrow> WebhookDelivery list" where
  "getByEventId eventId s =
     filter (\<lambda>d. wd_eventId d = eventId) (map (nth (ws_objects s)) (map_values (ws_deliveries s)))"

definition registerDeliveryId :: "string \<Rightarrow> WebhookDeliveryStore \<Rightarrow> WebhookDeliveryStore" where
  "registerDeliveryId deliveryId s =
     s\<lparr>ws_deliveryIdIndex := map_set deliveryId deliveryId (ws_deliveryIdIndex s)\<rparr>"

definition isDuplicateDelivery :: "string \<Rightarrow> WebhookDeliveryStore \<Rightarrow> bool" where
  "isDuplicateDelivery deliveryId s = (map_get (ws_deliveryIdIndex s) deliveryId \<noteq> None)"

section \<open>Outbox\<close>

definition queue_of :: "Priority \<Rightarrow> WebhookDeliveryStore \<Rightarrow> nat list" where
  "queue_of p s = nullish (map_get (ws_queues s) p) []"

text \<open>The common tail of \<open>addToOutbox\<close> and \<open>hydrateOutboxItem\<close>: a new object, in both places.\<close>

definition insert_item :: "OutboxItem \<Rightarrow> WebhookDeliveryStore \<Rightarrow> WebhookDeliveryStore" where
  "insert_item item s =
     (let a = length (ws_items s)
      in s\<lparr>ws_items := ws_items s @ [item],
           ws_outbox := map_set (ob_id item) a (ws_outbox s),
           ws_queues := map_set (ob_priority item) (queue_of (ob_priority item) s @ [a]) (ws_queues s),
           ws_metrics := (ws_metrics s)\<lparr>m_outboxItems := m_outboxItems (ws_metrics s) + 1\<rparr>\<rparr>)"

definition addToOutbox :: "OutboxItem \<Rightarrow> string \<Rightarrow> WebhookDeliveryStore \<Rightarrow> string \<times> WebhookDeliveryStore" where
  "addToOutbox item i s = (i, insert_item (item\<lparr>ob_id := i, ob_status := Some O_pending\<rparr>) s)"

definition hydrateOutboxItem :: "OutboxItem \<Rightarrow> WebhookDeliveryStore \<Rightarrow> string \<times> WebhookDeliveryStore" where
  "hydrateOutboxItem item s = (ob_id item, insert_item item s)"

definition item_ready :: "millis \<Rightarrow> OutboxItem \<Rightarrow> bool" where
  "item_ready now item \<longleftrightarrow>
     ob_status item = Some O_pending \<and> ob_scheduledFor item \<le> now \<and> ob_attempts item < ob_maxAttempts item"

definition getReadyOutboxItems :: "millis \<Rightarrow> WebhookDeliveryStore \<Rightarrow> OutboxItem list" where
  "getReadyOutboxItems now s =
     concat (map (\<lambda>p. sort_key ob_scheduledFor
                        (filter (item_ready now) (map (nth (ws_items s)) (queue_of p s))))
               [High, Normal, Low])"

text \<open>\<open>findIndex\<close> and \<open>splice(index, 1)\<close>\<close>

fun remove_first :: "('a \<Rightarrow> bool) \<Rightarrow> 'a list \<Rightarrow> 'a list" where
  "remove_first P [] = []"
| "remove_first P (x # xs) = (if P x then xs else x # remove_first P xs)"

definition unlink_item :: "string \<Rightarrow> nat \<Rightarrow> WebhookDeliveryStore \<Rightarrow> WebhookDeliveryStore" where
  "unlink_item i a s =
     (let p = ob_priority (ws_items s ! a)
      in s\<lparr>ws_outbox := map_delete i (ws_outbox s),
           ws_queues := (case map_get (ws_queues s) p of
               None \<Rightarrow> ws_queues s
             | Some q \<Rightarrow> map_set p (remove_first (\<lambda>b. ob_id (ws_items s ! b) = i) q) (ws_queues s)),
           ws_metrics := (ws_metrics s)\<lparr>m_outboxItems := m_outboxItems (ws_metrics s) - 1\<rparr>\<rparr>)"

definition removeFromOutbox :: "string \<Rightarrow> WebhookDeliveryStore \<Rightarrow> bool \<times> WebhookDeliveryStore" where
  "removeFromOutbox i s =
     (case map_get (ws_outbox s) i of None \<Rightarrow> (False, s) | Some a \<Rightarrow> (True, unlink_item i a s))"

definition updateOutboxItemAttempt :: "string \<Rightarrow> nat \<Rightarrow> WebhookDeliveryStore \<Rightarrow> WebhookDeliveryStore" where
  "updateOutboxItemAttempt i attempts s =
     (case map_get (ws_outbox s) i of
        None \<Rightarrow> s
      | Some a \<Rightarrow> s\<lparr>ws_items := (ws_items s)[a := (ws_items s ! a)\<lparr>ob_attempts := attempts\<rparr>]\<rparr>)"

section \<open>Leases\<close>

record ClaimOptions =
  co_workerId :: "string option"
  co_lockTimeoutMs :: "int option"
  co_now :: int

definition item_stuck :: "int \<Rightarrow> OutboxItem \<Rightarrow> bool" where
  "item_stuck reclaimWindow item \<longleftrightarrow>
     ob_status item = Some O_in_flight \<and>
     (case ob_lockedAt item of None \<Rightarrow> False | Some t \<Rightarrow> t < reclaimWindow)"

definition lock_item :: "string \<Rightarrow> millis \<Rightarrow> OutboxItem \<Rightarrow> OutboxItem" where
  "lock_item workerId now item =
     item\<lparr>ob_status := Some O_in_flight, ob_lockedAt := Some now, ob_lockedBy := Some workerId\<rparr>"

definition unlock_item :: "OutboxItemStatus \<Rightarrow> OutboxItem \<Rightarrow> OutboxItem" where
  "unlock_item status item = item\<lparr>ob_status := Some status, ob_lockedAt := None, ob_lockedBy := None\<rparr>"

text \<open>The loop \<open>for (const item of items) if (test) { mutate; push }\<close> over the addresses of the items.\<close>

fun update_where ::
  "(OutboxItem \<Rightarrow> bool) \<Rightarrow> (OutboxItem \<Rightarrow> OutboxItem) \<Rightarrow> nat list \<Rightarrow> OutboxItem list \<Rightarrow> nat list \<times> OutboxItem list" where
  "update_where P f [] h = ([], h)"
| "update_where P f (a # as) h =
     (if P (h ! a)
      then let (c, h') = update_where P f as (h[a := f (h ! a)]) in (a # c, h')
      else update_where P f as h)"

definition claim_eligible :: "millis \<Rightarrow> int \<Rightarrow> OutboxItem \<Rightarrow> bool" where
  "claim_eligible now reclaimWindow item \<longleftrightarrow>
     \<not> ob_maxAttempts item \<le> ob_attempts item \<and>
     (ob_status item = Some O_pending \<and> ob_scheduledFor item \<le> now \<or> item_stuck reclaimWindow item)"

definition reclaim_window :: "ClaimOptions \<Rightarrow> int" where
  "reclaim_window opts = co_now opts - nullish (co_lockTimeoutMs opts) DEFAULT_CLAIM_LOCK_TIMEOUT_MS"

definition claimReadyOutboxItems :: "ClaimOptions \<Rightarrow> WebhookDeliveryStore \<Rightarrow> nat list \<times> WebhookDeliveryStore" where
  "claimReadyOutboxItems opts s =
     (let workerId = nullish (co_workerId opts) ''default-worker'';
          now = co_now opts;
          (claimed, h) = update_where (claim_eligible now (reclaim_window opts)) (lock_item workerId now)
             (concat (map (\<lambda>p. queue_of p s) [High, Normal, Low])) (ws_items s)
      in (claimed, s\<lparr>ws_items := h\<rparr>))"

definition reclaimStuckItems :: "ClaimOptions \<Rightarrow> WebhookDeliveryStore \<Rightarrow> nat list \<times> WebhookDeliveryStore" where
  "reclaimStuckItems opts s =
     (let workerId = nullish (co_workerId opts) ''default-worker'';
          now = co_now opts;
          (reclaimed, h) = update_where (item_stuck (reclaim_window opts)) (lock_item workerId now)
             (map_values (ws_outbox s)) (ws_items s)
      in (reclaimed, s\<lparr>ws_items := h\<rparr>))"

definition releaseOutboxItem :: "string \<Rightarrow> string \<Rightarrow> WebhookDeliveryStore \<Rightarrow> bool \<times> WebhookDeliveryStore" where
  "releaseOutboxItem i workerId s =
     (case map_get (ws_outbox s) i of
        None \<Rightarrow> (False, s)
      | Some a \<Rightarrow>
          if ob_lockedBy (ws_items s ! a) \<noteq> Some workerId then (False, s)
          else (True, s\<lparr>ws_items := (ws_items s)[a := unlock_item O_pending (ws_items s ! a)]\<rparr>))"

definition releaseExpiredLeases :: "ClaimOptions \<Rightarrow> WebhookDeliveryStore \<Rightarrow> nat list \<times> WebhookDeliveryStore" where
  "releaseExpiredLeases opts s =
     (let (released, h) = update_where (item_stuck (reclaim_window opts)) (unlock_item O_pending)
             (map_values (ws_outbox s)) (ws_items s)
      in (released, s\<lparr>ws_items := h\<rparr>))"

definition markOutboxItemDelivered :: "string \<Rightarrow> string \<Rightarrow> WebhookDeliveryStore \<Rightarrow> bool \<times> WebhookDeliveryStore" where
  "markOutboxItemDelivered i workerId s =
     (case map_get (ws_outbox s) i of
        None \<Rightarrow> (False, s)
      | Some a \<Rightarrow>
          if ob_lockedBy (ws_items s ! a) \<noteq> Some workerId then (False, s)
          else (True, unlink_item i a
                 (s\<lparr>ws_items := (ws_items s)[a := unlock_item O_delivered (ws_items s ! a)]\<rparr>)))"

section \<open>Dead letters and maintenance\<close>

definition addToDeadLetterQueue ::
  "nat \<Rightarrow> string \<Rightarrow> DLQReasonCode option \<Rightarrow> string \<Rightarrow> millis \<Rightarrow> WebhookDeliveryStore \<Rightarrow> string \<times> WebhookDeliveryStore" where
  "addToDeadLetterQueue a failureReason reasonCode i clock s =
     (let delivery = ws_objects s ! a;
          item = \<lparr>dl_id = i, dl_deliveryId = wd_deliveryId delivery, dl_eventId = wd_eventId delivery,
                  dl_eventType = wd_eventType delivery, dl_endpointUrl = wd_endpointUrl delivery,
                  dl_payload = wd_payload delivery, dl_originalDelivery = a, dl_failureReason = failureReason,
                  dl_reasonCode = nullish reasonCode Other_reason, dl_createdAt = clock\<rparr>
      in (i, s\<lparr>ws_deadLetterQueue := map_set i item (ws_deadLetterQueue s),
               ws_metrics := (ws_metrics s)\<lparr>m_dlqItems := m_dlqItems (ws_metrics s) + 1\<rparr>\<rparr>))"

text \<open>\<open>limit ? ...\<close>: no limit and \<open>0\<close> both mean all items from \<open>offset\<close> on.\<close>

definition getDeadLetterQueueItems :: "nat option \<Rightarrow> nat \<Rightarrow> WebhookDeliveryStore \<Rightarrow> DeadLetterQueueItem list" where
  "getDeadLetterQueueItems limit offset s =
     (let items = map_values (ws_deadLetterQueue s)
      in case limit of
           Some n \<Rightarrow> if n \<noteq> 0 then js_slice offset (offset + n) items else drop offset items
         | None \<Rightarrow> drop offset items)"

definition processDeadLetterQueueItem :: "string \<Rightarrow> WebhookDeliveryStore \<Rightarrow> bool \<times> WebhookDeliveryStore" where
  "processDeadLetterQueueItem i s =
     (case map_get (ws_deadLetterQueue s) i of
        None \<Rightarrow> (False, s)
      | Some item \<Rightarrow>
          (True, s\<lparr>ws_deadLetterQueue := map_delete i (ws_deadLetterQueue s),
                   ws_metrics := (ws_metrics s)\<lparr>m_dlqItems := m_dlqItems (ws_metrics s) - 1\<rparr>\<rparr>))"

definition cleanup :: "int option \<Rightarrow> millis \<Rightarrow> WebhookDeliveryStore \<Rightarrow> nat \<times> WebhookDeliveryStore" where
  "cleanup olderThanMs now s =
     (let cutoff = now - nullish olderThanMs (7 * 24 * 60 * 60 * 1000);
          old = (\<lambda>(i, a). wd_status (ws_objects s ! a) = D_delivered \<and> wd_updatedAt (ws_objects s ! a) < cutoff);
          oldDeliveries = filter old (ws_deliveries s);
          oldDead = filter (\<lambda>(i, d). dl_createdAt d < cutoff) (ws_deadLetterQueue s)
      in (length oldDeliveries + length oldDead,
          s\<lparr>ws_deliveries := filter (\<lambda>e. \<not> old e) (ws_deliveries s),
            ws_deliveryIdIndex := fold map_delete
               (map (\<lambda>(i, a). wd_deliveryId (ws_objects s ! a)) oldDeliveries) (ws_deliveryIdIndex s),
            ws_deadLetterQueue := filter (\<lambda>(i, d). \<not> dl_createdAt d < cutoff) (ws_deadLetterQueue s)\<rparr>))"

definition clear :: "WebhookDeliveryStore \<Rightarrow> WebhookDeliveryStore" where
  "clear s = new_store\<lparr>ws_objects := ws_objects s, ws_items := ws_items s\<rparr>"

definition getAll :: "WebhookDeliveryStore \<Rightarrow> WebhookDelivery list" where
  "getAll s = map (nth (ws_objects s)) (map_values (ws_deliveries s))"

definition getAllOutboxItems :: "WebhookDeliveryStore \<Rightarrow> OutboxItem list" where
  "getAllOutboxItems s = map (nth (ws_items s)) (map_values (ws_outbox s))"

text \<open>One step of the store: each operation that changes its state. A drawn identifier is fresh, a
  reference handed in is valid, and a restored row has a lock exactly when it is in flight.\<close>

definition lock_ok :: "OutboxItem \<Rightarrow> bool" where
  "lock_ok item \<longleftrightarrow> (ob_lockedBy item \<noteq> None \<longleftrightarrow> ob_status item = Some O_in_flight) \<and>
     (ob_lockedAt item \<noteq> None \<longleftrightarrow> ob_status item = Some O_in_flight)"

inductive ws_step :: "WebhookDeliveryStore \<Rightarrow> WebhookDeliveryStore \<Rightarrow> bool" where
  "ws_step s (snd (new_delivery d s))"
| "a < length (ws_objects s) \<Longrightarrow> ws_step s (store a s)"
| "ws_step s (updateStatus i st t s)"
| "ws_step s (registerDeliveryId i s)"
| "map_get (ws_outbox s) i = None \<Longrightarrow> ob_lockedBy item = None \<Longrightarrow> ob_lockedAt item = None \<Longrightarrow>
     ws_step s (snd (addToOutbox item i s))"
| "map_get (ws_outbox s) (ob_id item) = None \<Longrightarrow> lock_ok item \<Longrightarrow> ws_step s (snd (hydrateOutboxItem item s))"
| "ws_step s (snd (removeFromOutbox i s))"
| "ws_step s (updateOutboxItemAttempt i n s)"
| "ws_step s (snd (claimReadyOutboxItems opts s))"
| "ws_step s (snd (reclaimStuckItems opts s))"
| "ws_step s (snd (releaseOutboxItem i w s))"
| "ws_step s (snd (releaseExpiredLeases opts s))"
| "ws_step s (snd (markOutboxItemDelivered i w s))"
| "a < length (ws_objects s) \<Longrightarrow> ws_step s (snd (addToDeadLetterQueue a r c i t s))"
| "ws_step s (snd (processDeadLetterQueueItem i s))"
| "ws_step s (snd (cleanup older t s))"
| "ws_step s (clear s)"

inductive ws_reachable :: "WebhookDeliveryStore \<Rightarrow> bool" where
  start: "ws_reachable new_store"
| step: "ws_reachable s \<Longrightarrow> ws_step s s' \<Longrightarrow> ws_reachable s'"

section \<open>The invariant\<close>

text \<open>The outbox as a client sees it: identifiers to items.\<close>

definition outbox_view :: "WebhookDeliveryStore \<Rightarrow> string \<Rightarrow> OutboxItem option" where
  "outbox_view s i = map_option (nth (ws_items s)) (map_get (ws_outbox s) i)"

definition ws_inv :: "WebhookDeliveryStore \<Rightarrow> bool" where
  "ws_inv s \<longleftrightarrow> map_wf (ws_outbox s) \<and> m_outboxItems (ws_metrics s) = int (length (ws_outbox s)) \<and>
     (\<forall>i a. map_get (ws_outbox s) i = Some a \<longrightarrow>
        a < length (ws_items s) \<and> ob_id (ws_items s ! a) = i \<and> lock_ok (ws_items s ! a)) \<and>
     (\<forall>p. distinct (queue_of p s) \<and>
        set (queue_of p s) = {a. (\<exists>i. map_get (ws_outbox s) i = Some a) \<and> ob_priority (ws_items s ! a) = p})"

lemma ws_invD:
  assumes "ws_inv s"
  shows "map_wf (ws_outbox s)" "m_outboxItems (ws_metrics s) = int (length (ws_outbox s))"
    and "map_get (ws_outbox s) i = Some a \<Longrightarrow> a < length (ws_items s) \<and> ob_id (ws_items s ! a) = i \<and> lock_ok (ws_items s ! a)"
    and "distinct (queue_of p s)"
    and "a \<in> set (queue_of p s) \<longleftrightarrow> (\<exists>i. map_get (ws_outbox s) i = Some a) \<and> ob_priority (ws_items s ! a) = p"
  using assms by (auto simp: ws_inv_def)

lemma queue_of_set [simp]:
  "queue_of p (s\<lparr>ws_items := h\<rparr>) = queue_of p s" "queue_of p (s\<lparr>ws_outbox := o1\<rparr>) = queue_of p s"
  "queue_of p (s\<lparr>ws_metrics := m\<rparr>) = queue_of p s"
  "queue_of p (s\<lparr>ws_queues := map_set p' q qs\<rparr>) = (if p' = p then q else nullish (map_get qs p) [])"
  by (simp_all add: queue_of_def)

text \<open>Operations that leave the outbox, its queues, the items and the item counter alone.\<close>

lemma ws_inv_frame:
  assumes "ws_inv s" "ws_items s' = ws_items s" "ws_outbox s' = ws_outbox s" "ws_queues s' = ws_queues s"
    "m_outboxItems (ws_metrics s') = m_outboxItems (ws_metrics s)"
  shows "ws_inv s'"
  using assms by (simp add: ws_inv_def queue_of_def)

text \<open>Mutation of the items in place.\<close>

lemma ws_inv_items:
  assumes "ws_inv s" "length h = length (ws_items s)"
    and "\<And>i a. map_get (ws_outbox s) i = Some a \<Longrightarrow>
      ob_id (h ! a) = ob_id (ws_items s ! a) \<and> ob_priority (h ! a) = ob_priority (ws_items s ! a) \<and> lock_ok (h ! a)"
  shows "ws_inv (s\<lparr>ws_items := h\<rparr>)"
proof -
  have "{a. (\<exists>i. map_get (ws_outbox s) i = Some a) \<and> ob_priority (h ! a) = p} =
      {a. (\<exists>i. map_get (ws_outbox s) i = Some a) \<and> ob_priority (ws_items s ! a) = p}" for p
    using assms(3) by auto
  then show ?thesis using assms by (simp add: ws_inv_def)
qed

lemma lock_ok_simps [simp]:
  "lock_ok (lock_item w t item)" "lock_ok (unlock_item O_pending item)" "lock_ok (unlock_item O_delivered item)"
  "lock_ok (item\<lparr>ob_attempts := n\<rparr>) = lock_ok item"
  by (simp_all add: lock_ok_def lock_item_def unlock_item_def)

lemma item_update_simps [simp]:
  "ob_id (lock_item w t item) = ob_id item" "ob_priority (lock_item w t item) = ob_priority item"
  "ob_id (unlock_item st item) = ob_id item" "ob_priority (unlock_item st item) = ob_priority item"
  "ob_status (lock_item w t item) = Some O_in_flight" "ob_lockedBy (lock_item w t item) = Some w"
  "ob_lockedAt (lock_item w t item) = Some t" "ob_status (unlock_item st item) = Some st"
  "ob_attempts (lock_item w t item) = ob_attempts item" "ob_maxAttempts (lock_item w t item) = ob_maxAttempts item"
  by (simp_all add: lock_item_def unlock_item_def)

text \<open>The mutating loop, on distinct valid addresses.\<close>

lemma update_where_spec:
  assumes "distinct as" "\<And>a. a \<in> set as \<Longrightarrow> a < length h"
  shows "fst (update_where P f as h) = filter (\<lambda>a. P (h ! a)) as \<and>
     length (snd (update_where P f as h)) = length h \<and>
     (\<forall>b. snd (update_where P f as h) ! b = (if b \<in> set as \<and> P (h ! b) then f (h ! b) else h ! b))"
  using assms
proof (induction as arbitrary: h)
  case (Cons a as)
  have a: "a \<notin> set as" "a < length h" using Cons.prems by auto
  have other: "h[a := f (h ! a)] ! b = (if b = a then f (h ! a) else h ! b)" for b
    using a(2) by auto
  have eq: "filter (\<lambda>b. P (h[a := f (h ! a)] ! b)) as = filter (\<lambda>b. P (h ! b)) as"
    using a(1) by (intro filter_cong) (auto simp: other)
  show ?case
    using Cons.IH [of h] Cons.IH [of "h[a := f (h ! a)]"] Cons.prems eq a(1)
    by (auto simp: split_beta other)
qed simp

lemmas update_where_simps =
  update_where_spec [THEN conjunct1] update_where_spec [THEN conjunct2, THEN conjunct1]
  update_where_spec [THEN conjunct2, THEN conjunct2, rule_format]

lemma update_where_inv:
  assumes "ws_inv s" "distinct as" "\<And>a. a \<in> set as \<Longrightarrow> \<exists>i. map_get (ws_outbox s) i = Some a"
    and "\<And>it. ob_id (f it) = ob_id it \<and> ob_priority (f it) = ob_priority it \<and> lock_ok (f it)"
  shows "ws_inv (s\<lparr>ws_items := snd (update_where P f as (ws_items s))\<rparr>)"
proof -
  have "\<And>a. a \<in> set as \<Longrightarrow> a < length (ws_items s)" using assms(1,3) ws_invD(3) by blast
  note u = update_where_simps [OF assms(2) this]
  show ?thesis
    using ws_invD(3) [OF assms(1)] assms(4) by (intro ws_inv_items assms(1)) (simp_all add: u)
qed

lemma claim_order:
  assumes "ws_inv s"
  shows "distinct (concat (map (\<lambda>p. queue_of p s) [High, Normal, Low]))"
    and "a \<in> set (concat (map (\<lambda>p. queue_of p s) [High, Normal, Low])) \<longleftrightarrow> (\<exists>i. map_get (ws_outbox s) i = Some a)"
proof -
  show "distinct (concat (map (\<lambda>p. queue_of p s) [High, Normal, Low]))"
    using ws_invD(4,5) [OF assms] by (auto simp: disjoint_iff)
  show "a \<in> set (concat (map (\<lambda>p. queue_of p s) [High, Normal, Low])) \<longleftrightarrow> (\<exists>i. map_get (ws_outbox s) i = Some a)"
    using ws_invD(5) [OF assms] by (cases "ob_priority (ws_items s ! a)") auto
qed

lemma outbox_addresses:
  assumes "ws_inv s"
  shows "distinct (map_values (ws_outbox s))"
    and "a \<in> set (map_values (ws_outbox s)) \<longleftrightarrow> (\<exists>i. map_get (ws_outbox s) i = Some a)"
proof -
  have wf: "distinct (map fst (ws_outbox s))" using ws_invD(1) [OF assms] by (simp add: map_wf_def)
  have "inj_on snd (set (ws_outbox s))"
  proof (rule inj_onI)
    fix x y assume "x \<in> set (ws_outbox s)" "y \<in> set (ws_outbox s)" "snd x = snd y"
    then show "x = y" using ws_invD(3) [OF assms, of "fst x" "snd x"] ws_invD(3) [OF assms, of "fst y" "snd y"] wf
      by (metis map_of_is_SomeI prod.collapse)
  qed
  then show "distinct (map_values (ws_outbox s))" using wf by (simp add: distinct_map)
  show "a \<in> set (map_values (ws_outbox s)) \<longleftrightarrow> (\<exists>i. map_get (ws_outbox s) i = Some a)"
    using wf by (force simp: image_iff dest: map_of_SomeD)
qed

lemma insert_item_inv:
  assumes inv: "ws_inv s" and fresh: "map_get (ws_outbox s) (ob_id item) = None" and "lock_ok item"
  shows "ws_inv (insert_item item s)"
proof -
  define n where "n = length (ws_items s)"
  let ?s = "insert_item item s"
  have old: "map_get (ws_outbox s) i = Some a \<Longrightarrow> a < n \<and> ws_items ?s ! a = ws_items s ! a" for i a
    using ws_invD(3) [OF inv, of i a] by (simp add: insert_item_def Let_def nth_append n_def)
  have new: "ws_items ?s ! n = item" "length (ws_items ?s) = Suc n"
    by (simp_all add: insert_item_def Let_def n_def)
  have get: "map_get (ws_outbox ?s) i = (if ob_id item = i then Some n else map_get (ws_outbox s) i)" for i
    by (simp add: insert_item_def Let_def n_def)
  have q: "queue_of p ?s = (if p = ob_priority item then queue_of p s @ [n] else queue_of p s)" for p
    by (simp add: insert_item_def Let_def n_def queue_of_def)
  have nq: "n \<notin> set (queue_of p s)" for p using ws_invD(5) [OF inv] old by blast
  have item: "map_get (ws_outbox ?s) i = Some a \<Longrightarrow>
      a < length (ws_items ?s) \<and> ob_id (ws_items ?s ! a) = i \<and> lock_ok (ws_items ?s ! a)" for i a
    using ws_invD(3) [OF inv, of i a] old [of i a] assms(3) new by (auto simp: get split: if_splits)
  have "set (queue_of p ?s) = {a. (\<exists>i. map_get (ws_outbox ?s) i = Some a) \<and> ob_priority (ws_items ?s ! a) = p}" for p
  proof -
    have "(\<exists>i. map_get (ws_outbox ?s) i = Some a) \<longleftrightarrow> a = n \<or> (\<exists>i. map_get (ws_outbox s) i = Some a)" for a
      using fresh by (auto simp: get) (metis option.distinct(1))
    then show ?thesis using ws_invD(5) [OF inv, of _ p] old new(1) nq by (auto simp: q)
  qed
  moreover have "length (ws_outbox ?s) = Suc (length (ws_outbox s))" "map_wf (ws_outbox ?s)"
    "m_outboxItems (ws_metrics ?s) = m_outboxItems (ws_metrics s) + 1"
    using fresh ws_invD(1) [OF inv] by (simp_all add: insert_item_def Let_def length_map_set)
  ultimately show ?thesis
    using item ws_invD(2,4) [OF inv] nq by (simp add: ws_inv_def q)
qed

lemma remove_first_remove1:
  "(\<And>b. b \<in> set q \<Longrightarrow> P b \<longleftrightarrow> b = a) \<Longrightarrow> remove_first P q = remove1 a q"
  by (induction q) auto

lemma unlink_queue:
  assumes inv: "ws_inv s" and a: "map_get (ws_outbox s) i = Some a"
  shows "queue_of p (unlink_item i a s) = (if p = ob_priority (ws_items s ! a) then remove1 a (queue_of p s) else queue_of p s)"
proof -
  have "remove_first (\<lambda>b. ob_id (ws_items s ! b) = i) (queue_of p s) = remove1 a (queue_of p s)" for p
  proof (rule remove_first_remove1)
    fix b assume "b \<in> set (queue_of p s)"
    then obtain j where "map_get (ws_outbox s) j = Some b" using ws_invD(5) [OF inv] by blast
    then show "ob_id (ws_items s ! b) = i \<longleftrightarrow> b = a" using ws_invD(3) [OF inv] a by fastforce
  qed
  from this [of "ob_priority (ws_items s ! a)"] show ?thesis
    by (cases "map_get (ws_queues s) (ob_priority (ws_items s ! a))")
       (auto simp: unlink_item_def Let_def queue_of_def)
qed

lemma unlink_inv:
  assumes inv: "ws_inv s" and a: "map_get (ws_outbox s) i = Some a"
  shows "ws_inv (unlink_item i a s)"
proof -
  let ?s = "unlink_item i a s"
  have get: "map_get (ws_outbox ?s) j = (if j = i then None else map_get (ws_outbox s) j)" for j
    by (simp add: unlink_item_def Let_def)
  have items: "ws_items ?s = ws_items s" by (simp add: unlink_item_def Let_def)
  have ids: "j = i" if "map_get (ws_outbox s) j = Some a" for j
    using ws_invD(3) [OF inv that] ws_invD(3) [OF inv a] by simp
  have "(\<exists>j. map_get (ws_outbox ?s) j = Some b) \<longleftrightarrow> b \<noteq> a \<and> (\<exists>j. map_get (ws_outbox s) j = Some b)" for b
  proof
    assume "\<exists>j. map_get (ws_outbox ?s) j = Some b"
    then obtain j where "j \<noteq> i" "map_get (ws_outbox s) j = Some b" unfolding get by (metis option.distinct(1))
    then show "b \<noteq> a \<and> (\<exists>j. map_get (ws_outbox s) j = Some b)" using ids by blast
  next
    assume b: "b \<noteq> a \<and> (\<exists>j. map_get (ws_outbox s) j = Some b)"
    then obtain j where j: "map_get (ws_outbox s) j = Some b" by blast
    then have "j \<noteq> i" using a b by auto
    with j have "map_get (ws_outbox ?s) j = Some b" by (simp add: get)
    then show "\<exists>j. map_get (ws_outbox ?s) j = Some b" ..
  qed
  then have "set (queue_of p ?s) = {b. (\<exists>j. map_get (ws_outbox ?s) j = Some b) \<and> ob_priority (ws_items ?s ! b) = p}" for p
    using ws_invD(4,5) [OF inv] by (auto simp: unlink_queue [OF assms] items)
  moreover have "distinct (queue_of p ?s)" for p
    using ws_invD(4) [OF inv] by (simp add: unlink_queue [OF assms] distinct_remove1)
  moreover have "map_wf (ws_outbox ?s)" "int (length (ws_outbox ?s)) = int (length (ws_outbox s)) - 1"
    "m_outboxItems (ws_metrics ?s) = m_outboxItems (ws_metrics s) - 1"
    using a ws_invD(1) [OF inv] length_map_delete [OF ws_invD(1) [OF inv], of i] length_pos_if_in_set [OF map_of_SomeD [OF a]]
    by (simp_all add: unlink_item_def Let_def) (cases "ws_outbox s"; simp)
  ultimately show ?thesis
    using ws_invD(2,3) [OF inv] by (simp add: ws_inv_def get items)
qed

lemma ws_item_inv:
  assumes "ws_inv s" "map_get (ws_outbox s) i = Some a"
    "ob_id it = ob_id (ws_items s ! a)" "ob_priority it = ob_priority (ws_items s ! a)" "lock_ok it"
  shows "ws_inv (s\<lparr>ws_items := (ws_items s)[a := it]\<rparr>)"
proof (rule ws_inv_items [OF assms(1)])
  fix j b assume "map_get (ws_outbox s) j = Some b"
  then show "ob_id ((ws_items s)[a := it] ! b) = ob_id (ws_items s ! b) \<and>
      ob_priority ((ws_items s)[a := it] ! b) = ob_priority (ws_items s ! b) \<and> lock_ok ((ws_items s)[a := it] ! b)"
    using ws_invD(3) [OF assms(1)] assms(2-) by (cases "b = a") auto
qed simp

lemma claim_inv:
  assumes "ws_inv s"
  shows "ws_inv (snd (claimReadyOutboxItems opts s))"
  unfolding claimReadyOutboxItems_def Let_def split_beta snd_conv
  using claim_order(2) [OF assms] by (intro update_where_inv [OF assms claim_order(1) [OF assms]]) (blast, simp)

lemma reclaim_inv:
  assumes "ws_inv s"
  shows "ws_inv (snd (reclaimStuckItems opts s))" "ws_inv (snd (releaseExpiredLeases opts s))"
  unfolding reclaimStuckItems_def releaseExpiredLeases_def Let_def split_beta snd_conv
  using outbox_addresses(2) [OF assms]
  by (intro update_where_inv [OF assms outbox_addresses(1) [OF assms]]; simp)+

lemma outbox_ops_inv:
  assumes "ws_inv s"
  shows "ws_inv (snd (removeFromOutbox i s))" "ws_inv (updateOutboxItemAttempt i n s)"
    "ws_inv (snd (releaseOutboxItem i w s))" "ws_inv (snd (markOutboxItemDelivered i w s))"
proof -
  note it = ws_item_inv [OF assms, of i]
  show "ws_inv (snd (removeFromOutbox i s))"
    using assms unlink_inv by (auto simp: removeFromOutbox_def split: option.split)
  show "ws_inv (updateOutboxItemAttempt i n s)"
    using assms it ws_invD(3) [OF assms] by (auto simp: updateOutboxItemAttempt_def split: option.split)
  show "ws_inv (snd (releaseOutboxItem i w s))"
    using assms it by (auto simp: releaseOutboxItem_def split: option.split)
  show "ws_inv (snd (markOutboxItemDelivered i w s))"
    using assms it unlink_inv by (auto simp: markOutboxItemDelivered_def split: option.split)
qed

lemma ws_step_inv: "ws_step s s' \<Longrightarrow> ws_inv s \<Longrightarrow> ws_inv s'"
proof (induction rule: ws_step.induct)
  case (5 s i item)
  then show ?case by (auto simp: addToOutbox_def lock_ok_def intro!: insert_item_inv)
next
  case (6 s item)
  then show ?case by (auto simp: hydrateOutboxItem_def intro!: insert_item_inv)
next
  case (17 s)
  show ?case by (simp add: ws_inv_def clear_def new_store_def queue_of_def zero_metrics_def)
qed (auto simp: claim_inv reclaim_inv outbox_ops_inv
    intro: ws_inv_frame simp: new_delivery_def store_def updateStatus_def registerDeliveryId_def
      addToDeadLetterQueue_def processDeadLetterQueueItem_def cleanup_def Let_def
    elim!: ws_inv_frame split: option.split)

lemma ws_reachable_inv: "ws_reachable s \<Longrightarrow> ws_inv s"
proof (induction rule: ws_reachable.induct)
  case start
  show ?case by (simp add: ws_inv_def new_store_def queue_of_def zero_metrics_def)
qed (rule ws_step_inv)

section \<open>The outbox refines a map from identifiers to items\<close>

definition view_update :: "(OutboxItem \<Rightarrow> bool) \<Rightarrow> (OutboxItem \<Rightarrow> OutboxItem) \<Rightarrow>
    (string \<Rightarrow> OutboxItem option) \<Rightarrow> string \<Rightarrow> OutboxItem option" where
  "view_update P f v i = map_option (\<lambda>it. if P it then f it else it) (v i)"

lemma update_where_view:
  assumes "ws_inv s" "distinct as" "\<And>a. a \<in> set as \<longleftrightarrow> (\<exists>i. map_get (ws_outbox s) i = Some a)"
  shows "outbox_view (s\<lparr>ws_items := snd (update_where P f as (ws_items s))\<rparr>) = view_update P f (outbox_view s)"
    and "map (\<lambda>a. ob_id (ws_items s ! a)) (fst (update_where P f as (ws_items s))) =
         filter (\<lambda>i. \<exists>it. outbox_view s i = Some it \<and> P it) (map (\<lambda>a. ob_id (ws_items s ! a)) as)"
    and "distinct (map (\<lambda>a. ob_id (ws_items s ! a)) as)"
proof -
  have "\<And>a. a \<in> set as \<Longrightarrow> a < length (ws_items s)" using assms(1,3) ws_invD(3) by blast
  note u = update_where_simps [OF assms(2) this]
  show "outbox_view (s\<lparr>ws_items := snd (update_where P f as (ws_items s))\<rparr>) = view_update P f (outbox_view s)"
  proof
    fix i
    show "outbox_view (s\<lparr>ws_items := snd (update_where P f as (ws_items s))\<rparr>) i = view_update P f (outbox_view s) i"
      using assms(3) u(3) [of P f] by (cases "map_get (ws_outbox s) i") (auto simp: outbox_view_def view_update_def)
  qed
  have v: "outbox_view s (ob_id (ws_items s ! a)) = Some (ws_items s ! a)" if "a \<in> set as" for a
    using that assms(3) ws_invD(3) [OF assms(1)] by (auto simp: outbox_view_def)
  show "map (\<lambda>a. ob_id (ws_items s ! a)) (fst (update_where P f as (ws_items s))) =
         filter (\<lambda>i. \<exists>it. outbox_view s i = Some it \<and> P it) (map (\<lambda>a. ob_id (ws_items s ! a)) as)"
    by (simp add: u filter_map comp_def) (intro arg_cong2 [where f = map] refl filter_cong, simp add: v)
  show "distinct (map (\<lambda>a. ob_id (ws_items s ! a)) as)"
    using assms(2,3) ws_invD(3) [OF assms(1)] by (fastforce simp: distinct_map inj_on_def)
qed

lemma view_Some: "outbox_view s i = Some it \<longleftrightarrow> (\<exists>a. map_get (ws_outbox s) i = Some a \<and> ws_items s ! a = it)"
  by (auto simp: outbox_view_def)

lemma claim_view:
  assumes "ws_inv s"
  shows "outbox_view (snd (claimReadyOutboxItems opts s)) =
      view_update (claim_eligible (co_now opts) (reclaim_window opts))
        (lock_item (nullish (co_workerId opts) ''default-worker'') (co_now opts)) (outbox_view s)"
    and "distinct (map (\<lambda>a. ob_id (ws_items s ! a)) (fst (claimReadyOutboxItems opts s)))"
    and "set (map (\<lambda>a. ob_id (ws_items s ! a)) (fst (claimReadyOutboxItems opts s))) =
      {i. \<exists>it. outbox_view s i = Some it \<and> claim_eligible (co_now opts) (reclaim_window opts) it}"
proof -
  let ?as = "concat (map (\<lambda>p. queue_of p s) [High, Normal, Low])"
  note u = update_where_view [OF assms claim_order [OF assms]]
  show "outbox_view (snd (claimReadyOutboxItems opts s)) =
      view_update (claim_eligible (co_now opts) (reclaim_window opts))
        (lock_item (nullish (co_workerId opts) ''default-worker'') (co_now opts)) (outbox_view s)"
    by (simp only: claimReadyOutboxItems_def Let_def split_beta snd_conv u(1))
  have e: "map (\<lambda>a. ob_id (ws_items s ! a)) (fst (claimReadyOutboxItems opts s)) =
      filter (\<lambda>i. \<exists>it. outbox_view s i = Some it \<and> claim_eligible (co_now opts) (reclaim_window opts) it)
        (map (\<lambda>a. ob_id (ws_items s ! a)) ?as)"
    by (simp only: claimReadyOutboxItems_def Let_def split_beta fst_conv u(2))
  show "distinct (map (\<lambda>a. ob_id (ws_items s ! a)) (fst (claimReadyOutboxItems opts s)))"
    using u(3) by (simp only: e distinct_filter)
  have "outbox_view s i = Some it \<Longrightarrow> i \<in> set (map (\<lambda>a. ob_id (ws_items s ! a)) ?as)" for i it
    using claim_order(2) [OF assms] ws_invD(3) [OF assms] unfolding view_Some set_map by blast
  then show "set (map (\<lambda>a. ob_id (ws_items s ! a)) (fst (claimReadyOutboxItems opts s))) =
      {i. \<exists>it. outbox_view s i = Some it \<and> claim_eligible (co_now opts) (reclaim_window opts) it}"
    by (simp only: e set_filter) blast
qed

lemma lease_view:
  assumes "ws_inv s"
  shows "outbox_view (snd (reclaimStuckItems opts s)) = view_update (item_stuck (reclaim_window opts))
        (lock_item (nullish (co_workerId opts) ''default-worker'') (co_now opts)) (outbox_view s)"
    and "outbox_view (snd (releaseExpiredLeases opts s)) =
        view_update (item_stuck (reclaim_window opts)) (unlock_item O_pending) (outbox_view s)"
  using update_where_view(1) [OF assms outbox_addresses [OF assms]]
  by (simp_all only: reclaimStuckItems_def releaseExpiredLeases_def Let_def split_beta snd_conv)

text \<open>(C3) Map, queues and counter agree. In every reachable state the three priority queues hold exactly the
  items of the outbox map, each once and in the queue of its priority, the counter is their number, every
  item is filed under its own identifier, and an item is locked exactly when it is in flight.\<close>

theorem outbox_consistent:
  assumes "ws_reachable s"
  shows "mset (map (nth (ws_items s)) (concat (map (\<lambda>p. queue_of p s) [High, Normal, Low]))) = mset (getAllOutboxItems s) \<and>
     (\<forall>p. \<forall>a \<in> set (queue_of p s). ob_priority (ws_items s ! a) = p) \<and>
     m_outboxItems (ws_metrics s) = int (length (getAllOutboxItems s)) \<and>
     (\<forall>i it. outbox_view s i = Some it \<longrightarrow> ob_id it = i \<and> lock_ok it)"
proof -
  have inv: "ws_inv s" using assms by (rule ws_reachable_inv)
  have "mset (concat (map (\<lambda>p. queue_of p s) [High, Normal, Low])) = mset (map_values (ws_outbox s))"
    using claim_order [OF inv] outbox_addresses [OF inv] by (subst set_eq_iff_mset_eq_distinct [symmetric]) blast+
  then have "mset (map (nth (ws_items s)) (concat (map (\<lambda>p. queue_of p s) [High, Normal, Low]))) = mset (getAllOutboxItems s)"
    unfolding getAllOutboxItems_def by (metis mset_map)
  then show ?thesis using ws_invD(2,3,5) [OF inv] by (auto simp: getAllOutboxItems_def view_Some)
qed

definition demo_item :: "Priority \<Rightarrow> int \<Rightarrow> OutboxItem" where
  "demo_item p t = \<lparr>ob_id = [], ob_deliveryId = ''d'', ob_eventId = ''e'', ob_eventType = ''stream.created'',
     ob_endpointUrl = ''u'', ob_payload = [], ob_secret = [], ob_priority = p, ob_createdAt = 0, ob_scheduledFor = t,
     ob_attempts = 0, ob_maxAttempts = 5, ob_status = None, ob_lockedAt = None, ob_lockedBy = None\<rparr>"

definition demo_claim :: "string \<Rightarrow> int \<Rightarrow> ClaimOptions" where
  "demo_claim w t = \<lparr>co_workerId = Some w, co_lockTimeoutMs = None, co_now = t\<rparr>"

definition demo_store :: WebhookDeliveryStore where
  "demo_store = snd (addToOutbox (demo_item High 7) ''y'' (snd (addToOutbox (demo_item Low 3) ''x'' new_store)))"

lemma demo_store_reachable: "ws_reachable demo_store"
proof -
  have 1: "map_get (ws_outbox new_store) ''x'' = None" by code_simp
  have 2: "map_get (ws_outbox (snd (addToOutbox (demo_item Low 3) ''x'' new_store))) ''y'' = None" by code_simp
  have f: "ob_lockedBy (demo_item p t) = None" "ob_lockedAt (demo_item p t) = None" for p t
    by (simp_all add: demo_item_def)
  show ?thesis unfolding demo_store_def
    by (rule ws_reachable.step [OF ws_reachable.step [OF ws_reachable.start ws_step.intros(5) [OF 1 f]]
          ws_step.intros(5) [OF 2 f]])
qed

lemma demo_claimed_reachable: "ws_reachable (snd (claimReadyOutboxItems (demo_claim w t) demo_store))"
  by (rule ws_reachable.step [OF demo_store_reachable ws_step.intros(9)])

theorem outbox_consistent_witness:
  "m_outboxItems (ws_metrics demo_store) = 2 \<and> length (getAllOutboxItems demo_store) = 2"
proof -
  have "m_outboxItems (ws_metrics demo_store) = 2" by code_simp
  then show ?thesis using outbox_consistent [OF demo_store_reachable] by auto
qed

text \<open>Who may be claimed at \<open>now\<close> with leases of length \<open>timeout\<close>.\<close>

definition may_claim :: "int \<Rightarrow> millis \<Rightarrow> OutboxItem \<Rightarrow> bool" where
  "may_claim timeout now it \<longleftrightarrow> ob_attempts it < ob_maxAttempts it \<and>
     (ob_status it = Some O_pending \<and> ob_scheduledFor it \<le> now \<or>
      ob_status it = Some O_in_flight \<and> (\<exists>t. ob_lockedAt it = Some t \<and> timeout < now - t))"

lemma claim_eligible_iff:
  "claim_eligible (co_now opts) (reclaim_window opts) it \<longleftrightarrow>
   may_claim (nullish (co_lockTimeoutMs opts) DEFAULT_CLAIM_LOCK_TIMEOUT_MS) (co_now opts) it"
  by (auto simp: claim_eligible_def may_claim_def item_stuck_def reclaim_window_def split: option.splits)

text \<open>(C1) What a claim does. In every reachable state a claim hands out each item that may be claimed (attempts
  left, and either pending and due or held under a lease older than the timeout) exactly once and nothing else;
  afterwards exactly those items are in flight, locked by the claiming worker since now, and every other item is
  untouched.\<close>

theorem claim_exact:
  assumes "ws_reachable s" "w = nullish (co_workerId opts) ''default-worker''"
    and "timeout = nullish (co_lockTimeoutMs opts) DEFAULT_CLAIM_LOCK_TIMEOUT_MS" "now = co_now opts"
  shows "distinct (map (\<lambda>a. ob_id (ws_items s ! a)) (fst (claimReadyOutboxItems opts s))) \<and>
    set (map (\<lambda>a. ob_id (ws_items s ! a)) (fst (claimReadyOutboxItems opts s))) =
      {i. \<exists>it. outbox_view s i = Some it \<and> may_claim timeout now it} \<and>
    outbox_view (snd (claimReadyOutboxItems opts s)) =
      (\<lambda>i. map_option (\<lambda>it. if may_claim timeout now it
         then it\<lparr>ob_status := Some O_in_flight, ob_lockedAt := Some now, ob_lockedBy := Some w\<rparr> else it) (outbox_view s i))"
proof -
  note c = claim_view [OF ws_reachable_inv [OF assms(1)], of opts, unfolded claim_eligible_iff]
  have "outbox_view (snd (claimReadyOutboxItems opts s)) =
      (\<lambda>i. map_option (\<lambda>it. if may_claim timeout now it
         then it\<lparr>ob_status := Some O_in_flight, ob_lockedAt := Some now, ob_lockedBy := Some w\<rparr> else it) (outbox_view s i))"
    unfolding c(1) assms(2-4) view_update_def lock_item_def claim_eligible_iff ..
  then show ?thesis using c(2,3) assms(3,4) by blast
qed

theorem claim_exact_witness:
  "set (map (\<lambda>a. ob_id (ws_items demo_store ! a)) (fst (claimReadyOutboxItems (demo_claim ''w'' 5) demo_store))) =
     {i. \<exists>it. outbox_view demo_store i = Some it \<and> may_claim DEFAULT_CLAIM_LOCK_TIMEOUT_MS 5 it} \<and>
   map (\<lambda>a. ob_id (ws_items demo_store ! a)) (fst (claimReadyOutboxItems (demo_claim ''w'' 5) demo_store)) = [''x'']"
proof
  have n: "co_now (demo_claim ''w'' 5) = 5" "nullish (co_lockTimeoutMs (demo_claim ''w'' 5)) DEFAULT_CLAIM_LOCK_TIMEOUT_MS =
      DEFAULT_CLAIM_LOCK_TIMEOUT_MS" by (simp_all add: demo_claim_def)
  show "set (map (\<lambda>a. ob_id (ws_items demo_store ! a)) (fst (claimReadyOutboxItems (demo_claim ''w'' 5) demo_store))) =
     {i. \<exists>it. outbox_view demo_store i = Some it \<and> may_claim DEFAULT_CLAIM_LOCK_TIMEOUT_MS 5 it}"
    using claim_exact [OF demo_store_reachable refl refl refl, of "demo_claim ''w'' 5"] unfolding n by blast
  show "map (\<lambda>a. ob_id (ws_items demo_store ! a)) (fst (claimReadyOutboxItems (demo_claim ''w'' 5) demo_store)) = [''x'']"
    by code_simp
qed

lemma stuck_lease: "ob_lockedAt it = Some t \<Longrightarrow> win \<le> t \<Longrightarrow> \<not> item_stuck win it"
  by (simp add: item_stuck_def)

text \<open>(C2) A lease excludes every other worker. While an item is in flight under worker \<open>w\<close> since \<open>t\<close>, a claim,
  a reclaim or a release of expired leases whose window has not passed \<open>t\<close> neither hands the item out nor
  changes it, and another worker's release or acknowledgement fails and changes nothing.\<close>

theorem lease_exclusive:
  assumes "ws_reachable s" "outbox_view s i = Some it" "ob_status it = Some O_in_flight"
    and "ob_lockedBy it = Some w" "ob_lockedAt it = Some t" "reclaim_window opts \<le> t" "w' \<noteq> w"
  shows "i \<notin> set (map (\<lambda>a. ob_id (ws_items s ! a)) (fst (claimReadyOutboxItems opts s))) \<and>
    outbox_view (snd (claimReadyOutboxItems opts s)) i = Some it \<and>
    outbox_view (snd (reclaimStuckItems opts s)) i = Some it \<and>
    outbox_view (snd (releaseExpiredLeases opts s)) i = Some it \<and>
    releaseOutboxItem i w' s = (False, s) \<and> markOutboxItemDelivered i w' s = (False, s)"
proof -
  have inv: "ws_inv s" using assms(1) by (rule ws_reachable_inv)
  have ns: "\<not> item_stuck (reclaim_window opts) it" using stuck_lease assms(5,6) by blast
  then have ne: "\<not> claim_eligible (co_now opts) (reclaim_window opts) it"
    using assms(3) by (simp add: claim_eligible_def)
  have "releaseOutboxItem i w' s = (False, s)" "markOutboxItemDelivered i w' s = (False, s)"
    using assms(2,4,7) by (auto simp: releaseOutboxItem_def markOutboxItemDelivered_def view_Some)
  moreover have "i \<notin> set (map (\<lambda>a. ob_id (ws_items s ! a)) (fst (claimReadyOutboxItems opts s)))"
    using claim_view(3) [OF inv, of opts] assms(2) ne by auto
  ultimately show ?thesis
    using ns ne assms(2) by (simp add: claim_view(1) [OF inv] lease_view [OF inv] view_update_def)
qed

theorem lease_exclusive_witness:
  "fst (markOutboxItemDelivered ''x'' ''v'' (snd (claimReadyOutboxItems (demo_claim ''w'' 5) demo_store))) = False \<and>
   ''x'' \<notin> set (map (\<lambda>a. ob_id (ws_items (snd (claimReadyOutboxItems (demo_claim ''w'' 5) demo_store)) ! a))
     (fst (claimReadyOutboxItems (demo_claim ''v'' 30000) (snd (claimReadyOutboxItems (demo_claim ''w'' 5) demo_store)))))"
proof -
  let ?s = "snd (claimReadyOutboxItems (demo_claim ''w'' 5) demo_store)"
  have "map_option (\<lambda>it. (ob_status it, ob_lockedBy it, ob_lockedAt it)) (outbox_view ?s ''x'') =
      Some (Some O_in_flight, Some ''w'', Some 5)" by code_simp
  then obtain it where it: "outbox_view ?s ''x'' = Some it" "ob_status it = Some O_in_flight" "ob_lockedBy it = Some ''w''"
      "ob_lockedAt it = Some 5" by auto
  have r: "reclaim_window (demo_claim ''v'' 30000) \<le> 5" by code_simp
  show ?thesis using lease_exclusive [OF demo_claimed_reachable it r, of "''v''"] by auto
qed

text \<open>A crashed worker's items come back. Once the lease of an in-flight item has expired, releasing expired
  leases makes it pending and unlocked, and if it is due with attempts left the ready list then contains it;
  a claim by any worker also takes it over directly.\<close>

theorem expired_lease_recovered:
  assumes "ws_reachable s" "outbox_view s i = Some it" "ob_status it = Some O_in_flight" "ob_lockedAt it = Some t"
    and "t < reclaim_window opts" "ob_attempts it < ob_maxAttempts it" "ob_scheduledFor it \<le> co_now opts"
  shows "outbox_view (snd (releaseExpiredLeases opts s)) i = Some (unlock_item O_pending it) \<and>
    unlock_item O_pending it \<in> set (getReadyOutboxItems (co_now opts) (snd (releaseExpiredLeases opts s))) \<and>
    i \<in> set (map (\<lambda>a. ob_id (ws_items s ! a)) (fst (claimReadyOutboxItems opts s)))"
proof -
  have inv: "ws_inv s" using assms(1) by (rule ws_reachable_inv)
  let ?s = "snd (releaseExpiredLeases opts s)"
  have st: "item_stuck (reclaim_window opts) it" using assms(3-5) by (simp add: item_stuck_def)
  then have v: "outbox_view ?s i = Some (unlock_item O_pending it)"
    using assms(2) by (simp add: lease_view(2) [OF inv] view_update_def)
  then obtain a where a: "map_get (ws_outbox ?s) i = Some a" "ws_items ?s ! a = unlock_item O_pending it"
    by (auto simp: view_Some)
  then have "a \<in> set (queue_of (ob_priority it) ?s)"
    using ws_invD(5) [OF reclaim_inv(2) [OF inv, of opts], of a "ob_priority it"] by auto
  moreover have "item_ready (co_now opts) (unlock_item O_pending it)"
    using assms(6,7) by (simp add: item_ready_def unlock_item_def)
  ultimately have "unlock_item O_pending it \<in> set (getReadyOutboxItems (co_now opts) ?s)"
    using a(2) by (cases "ob_priority it") (force simp: getReadyOutboxItems_def)+
  moreover have "claim_eligible (co_now opts) (reclaim_window opts) it"
    using st assms(6) by (simp add: claim_eligible_def)
  ultimately show ?thesis using v claim_view(3) [OF inv, of opts] assms(2) by auto
qed

theorem expired_lease_recovered_witness:
  "''x'' \<in> set (map (\<lambda>a. ob_id (ws_items (snd (claimReadyOutboxItems (demo_claim ''w'' 5) demo_store)) ! a))
     (fst (claimReadyOutboxItems (demo_claim ''v'' 30006) (snd (claimReadyOutboxItems (demo_claim ''w'' 5) demo_store)))))"
proof -
  let ?s = "snd (claimReadyOutboxItems (demo_claim ''w'' 5) demo_store)"
  have "map_option (\<lambda>it. (ob_status it, ob_lockedAt it, ob_attempts it, ob_maxAttempts it, ob_scheduledFor it))
      (outbox_view ?s ''x'') = Some (Some O_in_flight, Some 5, 0, 5, 3)" by code_simp
  then obtain it where it: "outbox_view ?s ''x'' = Some it" "ob_status it = Some O_in_flight" "ob_lockedAt it = Some 5"
      and n: "ob_attempts it = 0" "ob_maxAttempts it = 5" "ob_scheduledFor it = 3" by auto
  have r: "5 < reclaim_window (demo_claim ''v'' 30006)" "co_now (demo_claim ''v'' 30006) = 30006" by code_simp+
  show ?thesis using expired_lease_recovered [OF demo_claimed_reachable it r(1)] n r(2) by simp
qed

primrec priority_rank :: "Priority \<Rightarrow> nat" where
  "priority_rank High = 0" | "priority_rank Normal = 1" | "priority_rank Low = 2"

definition ready_before :: "OutboxItem \<Rightarrow> OutboxItem \<Rightarrow> bool" where
  "ready_before x y \<longleftrightarrow> priority_rank (ob_priority x) < priority_rank (ob_priority y) \<or>
     ob_priority x = ob_priority y \<and> ob_scheduledFor x \<le> ob_scheduledFor y"

lemma ready_priority:
  assumes "ws_inv s" "x \<in> set (sort_key ob_scheduledFor (filter (item_ready now) (map (nth (ws_items s)) (queue_of p s))))"
  shows "ob_priority x = p"
  using assms ws_invD(5) [OF assms(1)] by auto

lemma ready_block:
  assumes "ws_inv s"
  shows "sorted_wrt ready_before
    (sort_key ob_scheduledFor (filter (item_ready now) (map (nth (ws_items s)) (queue_of p s))))" (is "sorted_wrt _ ?xs")
proof -
  have "sorted_wrt (\<lambda>x y. ob_scheduledFor x \<le> ob_scheduledFor y) ?xs"
    using sorted_sort_key [of ob_scheduledFor "filter (item_ready now) (map (nth (ws_items s)) (queue_of p s))"]
    by (simp add: sorted_map)
  then show ?thesis
    by (rule sorted_wrt_mono_rel [rotated]) (simp add: ready_before_def ready_priority [OF assms])
qed

text \<open>Delivery order. In every reachable state the ready list holds exactly the pending items that are due
  and have attempts left, ordered by priority (high, normal, low) and within a priority by schedule time.\<close>

theorem ready_order:
  assumes "ws_reachable s"
  shows "sorted_wrt ready_before (getReadyOutboxItems now s) \<and>
    set (getReadyOutboxItems now s) = {it. \<exists>i. outbox_view s i = Some it \<and>
      ob_status it = Some O_pending \<and> ob_scheduledFor it \<le> now \<and> ob_attempts it < ob_maxAttempts it}"
proof
  have inv: "ws_inv s" using assms by (rule ws_reachable_inv)
  note pr = ready_priority [OF inv, of _ now]
  show "sorted_wrt ready_before (getReadyOutboxItems now s)"
    unfolding getReadyOutboxItems_def
    by (auto simp: sorted_wrt_append ready_block [OF inv] simp del: set_sort dest!: pr) (simp_all add: ready_before_def)
  have ready: "it \<in> set (getReadyOutboxItems now s) \<longleftrightarrow>
      (\<exists>p. \<exists>a \<in> set (queue_of p s). ws_items s ! a = it \<and> item_ready now it)" for it
    unfolding getReadyOutboxItems_def by (auto simp: image_iff) (metis Priority.exhaust)
  show "set (getReadyOutboxItems now s) = {it. \<exists>i. outbox_view s i = Some it \<and>
      ob_status it = Some O_pending \<and> ob_scheduledFor it \<le> now \<and> ob_attempts it < ob_maxAttempts it}"
    unfolding item_ready_def [symmetric] set_eq_iff mem_Collect_eq ready view_Some using ws_invD(5) [OF inv] by blast
qed

theorem ready_order_witness:
  "map ob_id (getReadyOutboxItems 10 demo_store) = [''y'', ''x''] \<and>
   sorted_wrt ready_before (getReadyOutboxItems 10 demo_store)"
proof -
  have "map ob_id (getReadyOutboxItems 10 demo_store) = [''y'', ''x'']" by code_simp
  then show ?thesis using ready_order [OF demo_store_reachable] by blast
qed

lemma unlink_view: "outbox_view (unlink_item i a s) = (outbox_view s)(i := None)"
  by (auto simp: fun_eq_iff outbox_view_def unlink_item_def Let_def)

text \<open>Acknowledgement. Only the worker that holds an item can acknowledge it; then the item is gone from the
  outbox, every other item is as before, the counter drops by one, and no claim hands the item out any more.\<close>

theorem acknowledge_removes:
  assumes "ws_reachable s" "outbox_view s i = Some it"
  shows "(fst (markOutboxItemDelivered i w s) \<longleftrightarrow> ob_lockedBy it = Some w) \<and>
    (fst (markOutboxItemDelivered i w s) \<longrightarrow>
       outbox_view (snd (markOutboxItemDelivered i w s)) = (outbox_view s)(i := None) \<and>
       m_outboxItems (ws_metrics (snd (markOutboxItemDelivered i w s))) = m_outboxItems (ws_metrics s) - 1 \<and>
       i \<notin> set (map (\<lambda>a. ob_id (ws_items (snd (markOutboxItemDelivered i w s)) ! a))
                (fst (claimReadyOutboxItems opts (snd (markOutboxItemDelivered i w s))))))"
proof (cases "ob_lockedBy it = Some w")
  case False
  then show ?thesis using assms(2) by (auto simp: markOutboxItemDelivered_def view_Some)
next
  case True
  have inv: "ws_inv s" using assms(1) by (rule ws_reachable_inv)
  obtain a where a: "map_get (ws_outbox s) i = Some a" "ws_items s ! a = it" using assms(2) by (auto simp: view_Some)
  let ?t = "s\<lparr>ws_items := (ws_items s)[a := unlock_item O_delivered it]\<rparr>"
  let ?s = "snd (markOutboxItemDelivered i w s)"
  have m: "markOutboxItemDelivered i w s = (True, unlink_item i a ?t)"
    using a True by (simp add: markOutboxItemDelivered_def)
  have other: "map_get (ws_outbox s) j = Some a \<Longrightarrow> j = i" for j
    using ws_invD(3) [OF inv] a by blast
  have "outbox_view ?t j = outbox_view s j" if "j \<noteq> i" for j
    using other that by (cases "map_get (ws_outbox s) j") (auto simp: outbox_view_def intro!: nth_list_update_neq)
  then have view: "outbox_view ?s = (outbox_view s)(i := None)" by (auto simp: m unlink_view)
  have "ws_inv ?s" by (rule outbox_ops_inv(4) [OF inv])
  then have "i \<notin> set (map (\<lambda>a. ob_id (ws_items ?s ! a)) (fst (claimReadyOutboxItems opts ?s)))"
    using claim_view(3) [of ?s opts] by (simp add: view)
  then show ?thesis using True view by (simp add: m unlink_item_def Let_def)
qed

theorem acknowledge_removes_witness:
  "fst (markOutboxItemDelivered ''x'' ''w'' (snd (claimReadyOutboxItems (demo_claim ''w'' 5) demo_store))) \<and>
   m_outboxItems (ws_metrics (snd (markOutboxItemDelivered ''x'' ''w''
      (snd (claimReadyOutboxItems (demo_claim ''w'' 5) demo_store))))) = 1"
proof -
  let ?s = "snd (claimReadyOutboxItems (demo_claim ''w'' 5) demo_store)"
  have "map_option ob_lockedBy (outbox_view ?s ''x'') = Some (Some ''w'')" by code_simp
  then obtain it where it: "outbox_view ?s ''x'' = Some it" "ob_lockedBy it = Some ''w''" by auto
  have "m_outboxItems (ws_metrics ?s) = 2" by code_simp
  then show ?thesis using acknowledge_removes [OF demo_claimed_reachable it(1), of "''w''"] it(2) by simp
qed

text \<open>Clean-up drops dead letters without telling the counter. If the counter of dead letters was right and
  some dead letter is older than the limit, then after a clean-up the counter exceeds the number of dead
  letters that are left.\<close>

theorem cleanup_counter_stale:
  assumes "m_dlqItems (ws_metrics s) = int (length (ws_deadLetterQueue s))"
    and "(i, d) \<in> set (ws_deadLetterQueue s)" "dl_createdAt d < now - nullish older (7 * 24 * 60 * 60 * 1000)"
  shows "int (length (getDeadLetterQueueItems None 0 (snd (cleanup older now s)))) <
     m_dlqItems (ws_metrics (snd (cleanup older now s)))"
proof -
  let ?k = "\<lambda>(i, d). \<not> dl_createdAt d < now - nullish older (7 * 24 * 60 * 60 * 1000)"
  have "length (filter ?k (ws_deadLetterQueue s)) < length (ws_deadLetterQueue s)"
    using assms(2,3) by (intro length_filter_less [of "(i, d)"]) auto
  then show ?thesis using assms(1) by (simp add: cleanup_def Let_def getDeadLetterQueueItems_def)
qed

definition demo_dead :: WebhookDeliveryStore where
  "demo_dead = snd (addToDeadLetterQueue 0 ''timeout'' None ''q'' 10
     (snd (new_delivery \<lparr>wd_id = ''i'', wd_deliveryId = ''d'', wd_eventId = ''e'', wd_eventType = ''stream.created'',
        wd_endpointUrl = ''u'', wd_status = D_failed, wd_attempts = [], wd_createdAt = 0, wd_updatedAt = 0,
        wd_payload = []\<rparr> new_store)))"

theorem cleanup_counter_stale_witness:
  "length (ws_deadLetterQueue (snd (cleanup (Some 100) 500 demo_dead))) = 0 \<and>
   int (length (getDeadLetterQueueItems None 0 (snd (cleanup (Some 100) 500 demo_dead)))) <
     m_dlqItems (ws_metrics (snd (cleanup (Some 100) 500 demo_dead)))"
proof -
  have 1: "m_dlqItems (ws_metrics demo_dead) = int (length (ws_deadLetterQueue demo_dead))" by code_simp
  have "map (\<lambda>(i, d). dl_createdAt d) (ws_deadLetterQueue demo_dead) = [10]" by code_simp
  then obtain i d where 2: "(i, d) \<in> set (ws_deadLetterQueue demo_dead)" "dl_createdAt d = 10" by force
  have 3: "length (ws_deadLetterQueue (snd (cleanup (Some 100) 500 demo_dead))) = 0" by code_simp
  show ?thesis using cleanup_counter_stale [OF 1 2(1), of 500 "Some 100"] 2(2) 3 by simp
qed

end
