(* ===== verification/Dedup.thy ===== *)
theory Dedup
  imports Fluxora_Prelude
begin

text \<open>
  Event deduplication, \<open>src/redis/dedup.ts\<close>: the in-memory cache with its FIFO eviction and window, the
  Redis cache, and the hybrid cache that falls back to memory when Redis fails.

  The Redis client's \<open>exists\<close> and \<open>setNx\<close> are the fields of a \<open>redis_dedup_ops\<close> argument, with \<open>None\<close>
  for an error. The two members of a hybrid cache are \<open>dedup_ops\<close> records, the interface \<open>DedupCache\<close>,
  whose operations may fail with \<open>None\<close>. \<open>Date.now()\<close> is an argument; the debug log is not modelled.

  The locale \<open>dedup_cache\<close> says what a cache that never fails promises: a key that was added is reported
  as a duplicate until its window ends or enough other keys were added. It is interpreted on the
  in-memory cache and, from that, on the hybrid cache over an arbitrary primary.
\<close>

section \<open>The caches\<close>

definition DEDUP_KEY_PREFIX :: string where "DEDUP_KEY_PREFIX = ''fluxora:dedup:''"
definition DEDUP_WINDOW_SECONDS_DEFAULT :: int where "DEDUP_WINDOW_SECONDS_DEFAULT = 86400"
definition DEDUP_CACHE_MAX :: nat where "DEDUP_CACHE_MAX = 10000"

record InMemoryDedupCache =
  dd_seen :: "(string, int) jsmap"
  dd_windowMs :: int

definition new_InMemoryDedupCache :: "int option \<Rightarrow> InMemoryDedupCache" where
  "new_InMemoryDedupCache windowSeconds =
     \<lparr>dd_seen = [], dd_windowMs = nullish windowSeconds DEDUP_WINDOW_SECONDS_DEFAULT * 1000\<rparr>"

definition dd_key :: "string \<Rightarrow> string \<Rightarrow> string" where
  "dd_key streamId eventId = streamId @ '':'' @ eventId"

definition isLive :: "string \<Rightarrow> InMemoryDedupCache \<Rightarrow> millis \<Rightarrow> bool \<times> InMemoryDedupCache" where
  "isLive key c now =
     (case map_get (dd_seen c) key of
        None \<Rightarrow> (False, c)
      | Some expiresAt \<Rightarrow>
          if now < expiresAt then (True, c)
          else (False, c\<lparr>dd_seen := map_delete key (dd_seen c)\<rparr>))"

definition mem_has :: "InMemoryDedupCache \<Rightarrow> string \<Rightarrow> string \<Rightarrow> millis \<Rightarrow> bool \<times> InMemoryDedupCache" where
  "mem_has c streamId eventId now = isLive (dd_key streamId eventId) c now"

definition mem_add :: "InMemoryDedupCache \<Rightarrow> string \<Rightarrow> string \<Rightarrow> millis \<Rightarrow> bool \<times> InMemoryDedupCache" where
  "mem_add c streamId eventId now =
     (let key = dd_key streamId eventId;
          (live, c1) = isLive key c now
      in if live then (False, c1)
         else let seen1 = (if DEDUP_CACHE_MAX \<le> length (dd_seen c1)
                           then (case dd_seen c1 of [] \<Rightarrow> [] | (oldest, _) # _ \<Rightarrow> map_delete oldest (dd_seen c1))
                           else dd_seen c1)
              in (True, c1\<lparr>dd_seen := map_set key (now + dd_windowMs c1) seen1\<rparr>))"

definition mem_clear :: "InMemoryDedupCache \<Rightarrow> InMemoryDedupCache" where
  "mem_clear c = c\<lparr>dd_seen := []\<rparr>"

record 'r redis_dedup_ops =
  r_exists :: "'r \<Rightarrow> string \<Rightarrow> millis \<Rightarrow> bool option"
  r_setNx :: "'r \<Rightarrow> string \<Rightarrow> string \<Rightarrow> int \<Rightarrow> millis \<Rightarrow> (bool \<times> 'r) option"

record 'r RedisDedupCache =
  rd_client :: 'r
  rd_ttlSeconds :: int
  rd_errors :: nat

definition rd_buildKey :: "string \<Rightarrow> string \<Rightarrow> string" where
  "rd_buildKey streamId eventId = DEDUP_KEY_PREFIX @ streamId @ '':'' @ eventId"

text \<open>An operation of a cache that may fail: \<open>None\<close> is a thrown error.\<close>

record 'c dedup_ops =
  dp_has :: "'c \<Rightarrow> string \<Rightarrow> string \<Rightarrow> millis \<Rightarrow> bool option \<times> 'c"
  dp_add :: "'c \<Rightarrow> string \<Rightarrow> string \<Rightarrow> millis \<Rightarrow> bool option \<times> 'c"

definition redis_has ::
  "'r redis_dedup_ops \<Rightarrow> 'r RedisDedupCache \<Rightarrow> string \<Rightarrow> string \<Rightarrow> millis \<Rightarrow> bool option \<times> 'r RedisDedupCache" where
  "redis_has ops c streamId eventId now =
     (case r_exists ops (rd_client c) (rd_buildKey streamId eventId) now of
        Some b \<Rightarrow> (Some b, c)
      | None \<Rightarrow> (None, c\<lparr>rd_errors := rd_errors c + 1\<rparr>))"

definition redis_add ::
  "'r redis_dedup_ops \<Rightarrow> 'r RedisDedupCache \<Rightarrow> string \<Rightarrow> string \<Rightarrow> millis \<Rightarrow> bool option \<times> 'r RedisDedupCache" where
  "redis_add ops c streamId eventId now =
     (case r_setNx ops (rd_client c) (rd_buildKey streamId eventId) ''1'' (rd_ttlSeconds c * 1000) now of
        Some (b, r) \<Rightarrow> (Some b, c\<lparr>rd_client := r\<rparr>)
      | None \<Rightarrow> (None, c\<lparr>rd_errors := rd_errors c + 1\<rparr>))"

definition redis_ops :: "'r redis_dedup_ops \<Rightarrow> 'r RedisDedupCache dedup_ops" where
  "redis_ops ops = \<lparr>dp_has = redis_has ops, dp_add = redis_add ops\<rparr>"

record ('p, 'c) HybridDedupCache =
  hy_primary :: 'p
  hy_fallback :: 'c
  hy_fallbackTotal :: nat

text \<open>The operations of the hybrid cache; the fallback is a cache that does not fail.\<close>

definition hybrid_has ::
  "'p dedup_ops \<Rightarrow> ('c \<Rightarrow> string \<Rightarrow> string \<Rightarrow> millis \<Rightarrow> bool \<times> 'c) \<Rightarrow> bool \<Rightarrow>
   ('p, 'c) HybridDedupCache \<Rightarrow> string \<Rightarrow> string \<Rightarrow> millis \<Rightarrow> bool \<times> ('p, 'c) HybridDedupCache" where
  "hybrid_has pops fhas useRedis c streamId eventId now =
     (let viaFallback = (\<lambda>c. case fhas (hy_fallback c) streamId eventId now of
            (b, f) \<Rightarrow> (b, c\<lparr>hy_fallback := f\<rparr>))
      in if useRedis
         then (case dp_has pops (hy_primary c) streamId eventId now of
                 (Some inRedis, p) \<Rightarrow>
                   if inRedis then (True, c\<lparr>hy_primary := p\<rparr>) else viaFallback (c\<lparr>hy_primary := p\<rparr>)
               | (None, p) \<Rightarrow> viaFallback (c\<lparr>hy_primary := p, hy_fallbackTotal := hy_fallbackTotal c + 1\<rparr>))
         else viaFallback c)"

definition hybrid_add ::
  "'p dedup_ops \<Rightarrow> ('c \<Rightarrow> string \<Rightarrow> string \<Rightarrow> millis \<Rightarrow> bool \<times> 'c) \<Rightarrow>
   ('c \<Rightarrow> string \<Rightarrow> string \<Rightarrow> millis \<Rightarrow> bool \<times> 'c) \<Rightarrow> bool \<Rightarrow>
   ('p, 'c) HybridDedupCache \<Rightarrow> string \<Rightarrow> string \<Rightarrow> millis \<Rightarrow> bool \<times> ('p, 'c) HybridDedupCache" where
  "hybrid_add pops fhas fadd useRedis c streamId eventId now =
     (let viaFallback = (\<lambda>c. case fadd (hy_fallback c) streamId eventId now of
            (b, f) \<Rightarrow> (b, c\<lparr>hy_fallback := f\<rparr>))
      in if useRedis
         then (case fhas (hy_fallback c) streamId eventId now of
                 (inFallback, f) \<Rightarrow>
                   (case dp_add pops (hy_primary c) streamId eventId now of
                      (added, p) \<Rightarrow>
                        let c1 = c\<lparr>hy_fallback := f, hy_primary := p\<rparr>
                        in if inFallback then (False, c1)
                           else case added of
                                  Some True \<Rightarrow> (True, snd (viaFallback c1))
                                | Some False \<Rightarrow> (False, c1)
                                | None \<Rightarrow> viaFallback (c1\<lparr>hy_fallbackTotal := hy_fallbackTotal c1 + 1\<rparr>)))
         else viaFallback c)"

section \<open>The contract\<close>

text \<open>\<open>remembers c s e u n\<close>: the key of \<open>(s, e)\<close> is held until \<open>u\<close>, and still will be after \<open>n\<close> further
  additions. \<open>capacity\<close> is the number of keys held, \<open>window\<close> the length of the window.\<close>

locale dedup_cache =
  fixes has :: "'c \<Rightarrow> string \<Rightarrow> string \<Rightarrow> millis \<Rightarrow> bool \<times> 'c"
    and add :: "'c \<Rightarrow> string \<Rightarrow> string \<Rightarrow> millis \<Rightarrow> bool \<times> 'c"
    and remembers :: "'c \<Rightarrow> string \<Rightarrow> string \<Rightarrow> millis \<Rightarrow> nat \<Rightarrow> bool"
    and ok :: "'c \<Rightarrow> bool" and window :: int and capacity :: nat
  assumes has_ok: "ok c \<Longrightarrow> ok (snd (has c s e t))"
    and add_ok: "ok c \<Longrightarrow> ok (snd (add c s e t))"
    and has_remembered: "ok c \<Longrightarrow> remembers c s e u n \<Longrightarrow> t < u \<Longrightarrow> fst (has c s e t)"
    and has_keeps: "ok c \<Longrightarrow> remembers c s e u n \<Longrightarrow> t < u \<Longrightarrow> remembers (snd (has c s' e' t)) s e u n"
    and add_remembered: "ok c \<Longrightarrow> remembers c s e u n \<Longrightarrow> t < u \<Longrightarrow> \<not> fst (add c s e t)"
    and add_keeps: "ok c \<Longrightarrow> remembers c s e u (Suc n) \<Longrightarrow> t < u \<Longrightarrow> remembers (snd (add c s' e' t)) s e u n"
    and add_new: "ok c \<Longrightarrow> fst (add c s e t) \<Longrightarrow> remembers (snd (add c s e t)) s e (t + window) (capacity - 1)"
begin

lemma adds_keep:
  assumes "ok c" "remembers c s e u (length xs + n)" "\<And>s' e' t. (s', e', t) \<in> set xs \<Longrightarrow> t < u"
  shows "ok (foldl (\<lambda>c (s', e', t). snd (add c s' e' t)) c xs) \<and>
     remembers (foldl (\<lambda>c (s', e', t). snd (add c s' e' t)) c xs) s e u n"
  using assms
proof (induction xs arbitrary: c)
  case (Cons x xs)
  obtain s' e' t where x: "x = (s', e', t)" by (cases x)
  have "remembers (snd (add c s' e' t)) s e u (length xs + n)" "ok (snd (add c s' e' t))"
    using Cons.prems x by (auto intro!: add_keeps add_ok)
  then show ?case using Cons x by auto
qed simp

lemma at_most_once:
  assumes "ok c" "fst (add c s e t0)" "length xs < capacity"
    and "\<And>s' e' t. (s', e', t) \<in> set xs \<Longrightarrow> t < t0 + window" "t1 < t0 + window"
  shows "\<not> fst (add (foldl (\<lambda>c (s', e', t). snd (add c s' e' t)) (snd (add c s e t0)) xs) s e t1)"
proof -
  have "remembers (snd (add c s e t0)) s e (t0 + window) (length xs + (capacity - 1 - length xs))"
    using add_new [OF assms(1,2)] assms(3) by simp
  note k = adds_keep [OF add_ok [OF assms(1)] this]
  show ?thesis by (rule add_remembered [OF conjunct1 [OF k] conjunct2 [OF k] assms(5)]) (use assms(4) in blast)+
qed

end

section \<open>The in-memory cache\<close>

text \<open>The entries added after that of a key.\<close>

definition newer :: "string \<Rightarrow> (string, int) jsmap \<Rightarrow> nat" where
  "newer k m = length (tl (dropWhile (\<lambda>p. fst p \<noteq> k) m))"

lemma newer_Cons: "newer k (p # m) = (if fst p = k then length m else newer k m)"
  by (simp add: newer_def)

lemma newer_less: "map_get m k \<noteq> None \<Longrightarrow> newer k m < length m"
  by (induction m) (auto simp: newer_Cons split: if_splits)

lemma newer_set:
  "map_get m k \<noteq> None \<Longrightarrow> k' \<noteq> k \<Longrightarrow> newer k (map_set k' v m) \<le> Suc (newer k m)"
  by (induction m) (auto simp: newer_Cons length_map_set split: if_splits)

lemma newer_set_new: "map_get m k = None \<Longrightarrow> newer k (map_set k v m) = 0"
  by (induction m) (auto simp: newer_def split: if_splits)

lemma newer_delete: "k' \<noteq> k \<Longrightarrow> newer k (map_delete k' m) \<le> newer k m"
proof (induction m)
  case (Cons p m)
  then show ?case using length_delete_le [of k' m] by (auto simp: newer_Cons)
qed (simp add: newer_def)

definition mem_ok :: "int \<Rightarrow> InMemoryDedupCache \<Rightarrow> bool" where
  "mem_ok window c \<longleftrightarrow> dd_windowMs c = window \<and> map_wf (dd_seen c) \<and> length (dd_seen c) \<le> DEDUP_CACHE_MAX"

definition mem_remembers :: "InMemoryDedupCache \<Rightarrow> string \<Rightarrow> string \<Rightarrow> millis \<Rightarrow> nat \<Rightarrow> bool" where
  "mem_remembers c s e u n \<longleftrightarrow>
     (\<exists>x \<ge> u. map_get (dd_seen c) (dd_key s e) = Some x) \<and> newer (dd_key s e) (dd_seen c) + n < DEDUP_CACHE_MAX"

lemma isLive_cases:
  "isLive k c t = (True, c) \<and> (\<exists>x. map_get (dd_seen c) k = Some x \<and> t < x) \<or>
   fst (isLive k c t) = False \<and> map_get (dd_seen (snd (isLive k c t))) k = None \<and>
   (snd (isLive k c t) = c \<or> snd (isLive k c t) = c\<lparr>dd_seen := map_delete k (dd_seen c)\<rparr>)"
  by (auto simp: isLive_def split: option.split)

lemma isLive_ok: "mem_ok w c \<Longrightarrow> mem_ok w (snd (isLive k c t))"
  using length_delete_le [of k "dd_seen c"] by (auto simp: isLive_def mem_ok_def split: option.split)

lemma isLive_remembers:
  "mem_remembers c s e u n \<Longrightarrow> t < u \<Longrightarrow> mem_remembers (snd (isLive k c t)) s e u n"
  using newer_delete [of k "dd_key s e" "dd_seen c"]
  by (auto simp: isLive_def mem_remembers_def split: option.split)

definition evict :: "(string, int) jsmap \<Rightarrow> (string, int) jsmap" where
  "evict m = (if DEDUP_CACHE_MAX \<le> length m then (case m of [] \<Rightarrow> [] | (oldest, _) # _ \<Rightarrow> map_delete oldest m) else m)"

lemma mem_add_eq:
  "mem_add c s e t =
     (if fst (isLive (dd_key s e) c t) then (False, snd (isLive (dd_key s e) c t))
      else (True, (snd (isLive (dd_key s e) c t))\<lparr>dd_seen := map_set (dd_key s e)
              (t + dd_windowMs (snd (isLive (dd_key s e) c t))) (evict (dd_seen (snd (isLive (dd_key s e) c t))))\<rparr>))"
  by (simp add: mem_add_def split_beta Let_def evict_def)

lemma evict_wf: "map_wf m \<Longrightarrow> map_wf (evict m)"
  using map_wf_delete [of m "fst (hd m)"] by (cases m) (auto simp: evict_def)

lemma evict_get: "map_get (evict m) k = None \<or> map_get (evict m) k = map_get m k"
proof (cases m)
  case (Cons p m')
  then show ?thesis by (cases p; cases "fst p = k"; simp add: evict_def)
next
  case Nil
  then have "evict m = m" by (simp add: evict_def)
  then show ?thesis by simp
qed

lemma evict_length:
  assumes "map_wf m" "length m \<le> DEDUP_CACHE_MAX"
  shows "length (evict m) < DEDUP_CACHE_MAX"
proof (cases "DEDUP_CACHE_MAX \<le> length m")
  case True
  then obtain k v m' where m: "m = (k, v) # m'" by (cases m) (auto simp: DEDUP_CACHE_MAX_def)
  then show ?thesis using assms length_map_delete [OF assms(1), of k] True by (simp add: evict_def)
qed (simp add: evict_def)

lemma evict_newer:
  assumes "map_get m k \<noteq> None" "newer k m + 1 < DEDUP_CACHE_MAX" 
  shows "map_get (evict m) k = map_get m k" "newer k (evict m) \<le> newer k m"
proof -
  have "map_get (evict m) k = map_get m k \<and> newer k (evict m) \<le> newer k m"
  proof (cases "DEDUP_CACHE_MAX \<le> length m")
    case True
    then obtain k' v m' where m: "m = (k', v) # m'" by (cases m) (auto simp: DEDUP_CACHE_MAX_def)
    have "k' \<noteq> k" using assms(2) True by (auto simp: m newer_Cons)
    then show ?thesis using True newer_delete [of k' k m] by (simp add: evict_def m)
  qed (simp add: evict_def)
  then show "map_get (evict m) k = map_get m k" "newer k (evict m) \<le> newer k m" by auto
qed

lemma mem_add_ok: 
  assumes "mem_ok w c"
  shows "mem_ok w (snd (mem_add c s e t))"
proof -
  have "mem_ok w (snd (isLive (dd_key s e) c t))" using assms by (rule isLive_ok)
  then show ?thesis
    using evict_length [of "dd_seen (snd (isLive (dd_key s e) c t))"]
    by (auto simp: mem_add_eq mem_ok_def length_map_set evict_wf)
qed

lemma mem_add_keeps:
  assumes "mem_remembers c s e u (Suc n)" "t < u"
  shows "mem_remembers (snd (mem_add c s' e' t)) s e u n"
proof -
  let ?k = "dd_key s e" and ?c = "snd (isLive (dd_key s' e') c t)"
  have r: "mem_remembers ?c s e u (Suc n)" using assms by (rule isLive_remembers)
  show ?thesis
  proof (cases "fst (isLive (dd_key s' e') c t)")
    case True
    then show ?thesis using r by (auto simp: mem_add_eq mem_remembers_def)
  next
    case False
    have "map_get (dd_seen ?c) (dd_key s' e') = None" using isLive_cases [of "dd_key s' e'" c t] False by auto
    then have ne: "dd_key s' e' \<noteq> ?k" using r by (auto simp: mem_remembers_def)
    have g: "map_get (dd_seen ?c) ?k \<noteq> None" "newer ?k (dd_seen ?c) + 1 < DEDUP_CACHE_MAX"
      using r by (auto simp: mem_remembers_def)
    note ev = evict_newer [OF g]
    have "newer ?k (map_set (dd_key s' e') v (evict (dd_seen ?c))) \<le> Suc (newer ?k (dd_seen ?c))" for v
      using newer_set [OF _ ne, of "evict (dd_seen ?c)" v] ev g(1) by simp
    moreover have "newer ?k (dd_seen ?c) + Suc n < DEDUP_CACHE_MAX" using r by (simp add: mem_remembers_def)
    ultimately have "newer ?k (map_set (dd_key s' e') v (evict (dd_seen ?c))) + n < DEDUP_CACHE_MAX" for v
      by (metis add_Suc_right add_Suc_shift add_le_mono1 le_less_trans)
    then show ?thesis using r ev(1) ne False by (auto simp: mem_add_eq mem_remembers_def)
  qed
qed

interpretation mem: dedup_cache mem_has mem_add mem_remembers "mem_ok window" window DEDUP_CACHE_MAX for window
proof unfold_locales
  fix c s e t s' e' u n
  show "mem_ok window c \<Longrightarrow> mem_ok window (snd (mem_has c s e t))" by (simp add: mem_has_def isLive_ok)
  show "mem_ok window c \<Longrightarrow> mem_ok window (snd (mem_add c s e t))" by (rule mem_add_ok)
  show "mem_remembers c s e u n \<Longrightarrow> t < u \<Longrightarrow> fst (mem_has c s e t)"
    by (auto simp: mem_has_def isLive_def mem_remembers_def)
  show "mem_remembers c s e u n \<Longrightarrow> t < u \<Longrightarrow> mem_remembers (snd (mem_has c s' e' t)) s e u n"
    by (simp add: mem_has_def isLive_remembers)
  show "mem_remembers c s e u n \<Longrightarrow> t < u \<Longrightarrow> \<not> fst (mem_add c s e t)"
    by (auto simp: mem_add_eq isLive_def mem_remembers_def)
  show "mem_remembers c s e u (Suc n) \<Longrightarrow> t < u \<Longrightarrow> mem_remembers (snd (mem_add c s' e' t)) s e u n"
    by (rule mem_add_keeps)
  show "mem_remembers (snd (mem_add c s e t)) s e (t + window) (DEDUP_CACHE_MAX - 1)"
    if "mem_ok window c" "fst (mem_add c s e t)"
  proof -
    have f: "\<not> fst (isLive (dd_key s e) c t)" using that(2) by (auto simp: mem_add_eq split: if_splits)
    then have "map_get (dd_seen (snd (isLive (dd_key s e) c t))) (dd_key s e) = None"
      using isLive_cases [of "dd_key s e" c t] by auto
    then have "map_get (evict (dd_seen (snd (isLive (dd_key s e) c t)))) (dd_key s e) = None"
      using evict_get by metis
    moreover have "dd_windowMs (snd (isLive (dd_key s e) c t)) = window"
      using isLive_ok [OF that(1)] by (simp add: mem_ok_def)
    ultimately show ?thesis using f by (simp add: mem_add_eq mem_remembers_def newer_set_new DEDUP_CACHE_MAX_def)
  qed
qed

section \<open>The hybrid cache\<close>

text \<open>Whatever the primary does, the hybrid cache keeps the contract of its fallback.\<close>

definition hybrid_remembers ::
  "('p, InMemoryDedupCache) HybridDedupCache \<Rightarrow> string \<Rightarrow> string \<Rightarrow> millis \<Rightarrow> nat \<Rightarrow> bool" where
  "hybrid_remembers c = mem_remembers (hy_fallback c)"

lemma hybrid_has_fallback:
  "hy_fallback (snd (hybrid_has pops fhas useRedis c s e t)) = hy_fallback c \<or>
   hy_fallback (snd (hybrid_has pops fhas useRedis c s e t)) = snd (fhas (hy_fallback c) s e t) \<and>
   fst (hybrid_has pops fhas useRedis c s e t) = fst (fhas (hy_fallback c) s e t)"
  "fst (fhas (hy_fallback c) s e t) \<Longrightarrow> fst (hybrid_has pops fhas useRedis c s e t)"
  by (auto simp: hybrid_has_def Let_def split: prod.splits option.splits)

lemma hybrid_add_fallback:
  "hy_fallback (snd (hybrid_add pops fhas fadd useRedis c s e t)) \<in>
      {snd (fhas (hy_fallback c) s e t), snd (fadd (snd (fhas (hy_fallback c) s e t)) s e t), snd (fadd (hy_fallback c) s e t)}"
  "fst (fhas (hy_fallback c) s e t) \<Longrightarrow> useRedis \<Longrightarrow> \<not> fst (hybrid_add pops fhas fadd useRedis c s e t)"
  "\<not> useRedis \<Longrightarrow> hybrid_add pops fhas fadd useRedis c s e t =
      (fst (fadd (hy_fallback c) s e t), c\<lparr>hy_fallback := snd (fadd (hy_fallback c) s e t)\<rparr>)"
  "fst (hybrid_add pops fhas fadd useRedis c s e t) \<Longrightarrow> useRedis \<Longrightarrow>
      \<not> fst (fhas (hy_fallback c) s e t) \<and> hy_fallback (snd (hybrid_add pops fhas fadd useRedis c s e t)) = snd (fadd (snd (fhas (hy_fallback c) s e t)) s e t)"
  by (auto simp: hybrid_add_def Let_def split: prod.splits option.splits bool.splits)

lemma mem_add_after_has: "\<not> fst (mem_has c s e t) \<Longrightarrow> fst (mem_add (snd (mem_has c s e t)) s e t)"
  using isLive_cases [of "dd_key s e" c t] by (auto simp: mem_has_def mem_add_eq isLive_def split: if_splits)

interpretation hyb: dedup_cache "hybrid_has pops mem_has useRedis" "hybrid_add pops mem_has mem_add useRedis"
    hybrid_remembers "\<lambda>c. mem_ok window (hy_fallback c)" window DEDUP_CACHE_MAX for pops useRedis window
proof unfold_locales
  fix c :: "('a, InMemoryDedupCache) HybridDedupCache" and s e t s' e' u n
  let ?has = "hybrid_has pops mem_has useRedis" and ?add = "hybrid_add pops mem_has mem_add useRedis"
  show "mem_ok window (hy_fallback c) \<Longrightarrow> mem_ok window (hy_fallback (snd (?has c s e t)))"
    using hybrid_has_fallback(1) [where pops = pops and fhas = mem_has and useRedis = useRedis and c = c and s = s and e = e and t = t] mem.has_ok by metis
  show "mem_ok window (hy_fallback c) \<Longrightarrow> mem_ok window (hy_fallback (snd (?add c s e t)))"
    using hybrid_add_fallback(1) [where pops = pops and fhas = mem_has and fadd = mem_add and useRedis = useRedis and c = c and s = s and e = e and t = t] mem.has_ok mem.add_ok by auto
  show "mem_ok window (hy_fallback c) \<Longrightarrow> hybrid_remembers c s e u n \<Longrightarrow> t < u \<Longrightarrow> fst (?has c s e t)"
    using hybrid_has_fallback(2) mem.has_remembered by (metis hybrid_remembers_def)
  show "hybrid_remembers (snd (?has c s' e' t)) s e u n"
    if "mem_ok window (hy_fallback c)" "hybrid_remembers c s e u n" "t < u"
    using that hybrid_has_fallback(1) [where pops = pops and fhas = mem_has and useRedis = useRedis and c = c and s = s' and e = e' and t = t] mem.has_keeps
    by (metis hybrid_remembers_def)
  show "\<not> fst (?add c s e t)" if "mem_ok window (hy_fallback c)" "hybrid_remembers c s e u n" "t < u"
    using that hybrid_add_fallback(2,3) [where pops = pops and fhas = mem_has and fadd = mem_add and useRedis = useRedis and c = c and s = s and e = e and t = t] mem.has_remembered mem.add_remembered
    by (cases useRedis) (auto simp: hybrid_remembers_def)
  show "hybrid_remembers (snd (?add c s' e' t)) s e u n"
    if "mem_ok window (hy_fallback c)" "hybrid_remembers c s e u (Suc n)" "t < u"
  proof -
    let ?f = "snd (mem_has (hy_fallback c) s' e' t)"
    have f: "mem_remembers ?f s e u (Suc n)" using that mem.has_keeps by (simp add: hybrid_remembers_def)
    then have "mem_remembers ?f s e u n" by (simp add: mem_remembers_def)
    then show ?thesis
      using hybrid_add_fallback(1) [where pops = pops and fhas = mem_has and fadd = mem_add and useRedis = useRedis and c = c and s = s' and e = e' and t = t] f that
        mem_add_keeps [of ?f s e u n t s' e'] mem_add_keeps [of "hy_fallback c" s e u n t s' e']
      by (auto simp: hybrid_remembers_def)
  qed
  show "hybrid_remembers (snd (?add c s e t)) s e (t + window) (DEDUP_CACHE_MAX - 1)"
    if "mem_ok window (hy_fallback c)" "fst (?add c s e t)"
  proof (cases useRedis)
    case True
    let ?f = "snd (mem_has (hy_fallback c) s e t)"
    have "fst (mem_add ?f s e t)" "hy_fallback (snd (?add c s e t)) = snd (mem_add ?f s e t)"
      using hybrid_add_fallback(4) [where pops = pops and fhas = mem_has and fadd = mem_add and useRedis = useRedis and c = c and s = s and e = e and t = t] that(2) True mem_add_after_has by blast+
    then show ?thesis using mem.add_new [OF mem.has_ok [OF that(1)]] by (simp add: hybrid_remembers_def)
  next
    case False
    then show ?thesis
      using that mem.add_new [OF that(1)] hybrid_add_fallback(3) [where pops = pops and fhas = mem_has and fadd = mem_add and useRedis = useRedis and c = c and s = s and e = e and t = t]
      by (simp add: hybrid_remembers_def)
  qed
qed

section \<open>Properties\<close>

text \<open>(C26) No duplicate gets through one process. Whatever Redis answers or throws, once the hybrid cache has
  reported a key as new, it reports the key as a duplicate for the rest of the window, as long as fewer than
  \<open>DEDUP_CACHE_MAX\<close> additions are made in between.\<close>

theorem hybrid_at_most_once:
  assumes "mem_ok window (hy_fallback c)" "fst (hybrid_add pops mem_has mem_add useRedis c s e t0)"
    and "length xs < DEDUP_CACHE_MAX" "\<forall>(s', e', t) \<in> set xs. t < t0 + window" "t1 < t0 + window"
  shows "\<not> fst (hybrid_add pops mem_has mem_add useRedis
     (foldl (\<lambda>c (s', e', t). snd (hybrid_add pops mem_has mem_add useRedis c s' e' t))
        (snd (hybrid_add pops mem_has mem_add useRedis c s e t0)) xs) s e t1)"
  by (rule hyb.at_most_once [OF assms(1-3) _ assms(5)]) (use assms(4) in auto)

definition down_ops :: "unit dedup_ops" where
  "down_ops = \<lparr>dp_has = (\<lambda>c s e t. (None, c)), dp_add = (\<lambda>c s e t. (None, c))\<rparr>"

definition demo_hybrid :: "(unit, InMemoryDedupCache) HybridDedupCache" where
  "demo_hybrid = \<lparr>hy_primary = (), hy_fallback = new_InMemoryDedupCache None, hy_fallbackTotal = 0\<rparr>"

theorem hybrid_at_most_once_witness:
  "fst (hybrid_add down_ops mem_has mem_add True demo_hybrid ''s'' ''e'' 0) \<and>
   \<not> fst (hybrid_add down_ops mem_has mem_add True
     (foldl (\<lambda>c (s', e', t). snd (hybrid_add down_ops mem_has mem_add True c s' e' t))
        (snd (hybrid_add down_ops mem_has mem_add True demo_hybrid ''s'' ''e'' 0)) [(''s'', ''f'', 5)]) ''s'' ''e'' 9)"
proof -
  have h: "mem_ok 86400000 (hy_fallback demo_hybrid)"
    by (simp add: mem_ok_def demo_hybrid_def new_InMemoryDedupCache_def DEDUP_WINDOW_SECONDS_DEFAULT_def)
  have a: "fst (hybrid_add down_ops mem_has mem_add True demo_hybrid ''s'' ''e'' 0)" by code_simp
  show ?thesis using a hybrid_at_most_once [OF h a, of "[(''s'', ''f'', 5)]" 9] by (simp add: DEDUP_CACHE_MAX_def)
qed

text \<open>The in-memory cache never holds more than \<open>DEDUP_CACHE_MAX\<close> keys, and it is exact about what it
  holds: along any sequence of additions, a key is reported as new exactly when it is absent or its window
  has ended.\<close>

theorem mem_cache_bounded:
  "length (dd_seen (foldl (\<lambda>c (s', e', t). snd (mem_add c s' e' t)) (new_InMemoryDedupCache w) xs)) \<le> DEDUP_CACHE_MAX \<and>
   (fst (mem_add c s e t) \<longleftrightarrow> (case map_get (dd_seen c) (dd_key s e) of None \<Rightarrow> True | Some x \<Rightarrow> x \<le> t))"
proof
  have "mem_ok w' c \<Longrightarrow> mem_ok w' (foldl (\<lambda>c (s', e', t). snd (mem_add c s' e' t)) c xs)" for c w'
    by (induction xs arbitrary: c) (auto simp: mem_add_ok)
  moreover have "mem_ok (dd_windowMs (new_InMemoryDedupCache w)) (new_InMemoryDedupCache w)"
    by (simp add: mem_ok_def new_InMemoryDedupCache_def)
  ultimately show "length (dd_seen (foldl (\<lambda>c (s', e', t). snd (mem_add c s' e' t)) (new_InMemoryDedupCache w) xs)) \<le> DEDUP_CACHE_MAX"
    using mem_ok_def by blast
  show "fst (mem_add c s e t) \<longleftrightarrow> (case map_get (dd_seen c) (dd_key s e) of None \<Rightarrow> True | Some x \<Rightarrow> x \<le> t)"
    by (auto simp: mem_add_eq isLive_def split: option.split)
qed

text \<open>What only Redis knew is lost in an outage. If Redis reports a key as a duplicate that the process has
  not added itself, the hybrid cache answers "duplicate" but remembers nothing, so the same key arriving at
  the same process while Redis fails is reported as new.\<close>

theorem redis_duplicate_forgotten:
  assumes "\<not> fst (mem_has (hy_fallback c) s e t)" "dp_add pops (hy_primary c) s e t = (Some False, p)"
    and "dp_add pops p s e t = (None, p')"
  shows "\<exists>c'. hybrid_add pops mem_has mem_add True c s e t = (False, c') \<and>
     fst (hybrid_add pops mem_has mem_add True c' s e t)"
proof -
  define f where "f = snd (mem_has (hy_fallback c) s e t)"
  have add: "fst (mem_add f s e t)" using mem_add_after_has [OF assms(1)] by (simp add: f_def)
  then have has: "\<not> fst (mem_has f s e t)" by (auto simp: mem_add_eq mem_has_def split: if_splits)
  have one: "hybrid_add pops mem_has mem_add True c s e t = (False, c\<lparr>hy_fallback := f, hy_primary := p\<rparr>)"
    using assms(1,2) by (simp add: hybrid_add_def split_beta f_def Let_def)
  have "fst (mem_add (snd (mem_has f s e t)) s e t)" using mem_add_after_has [OF has] .
  then have "fst (hybrid_add pops mem_has mem_add True (c\<lparr>hy_fallback := f, hy_primary := p\<rparr>) s e t)"
    using assms(3) has by (simp add: hybrid_add_def split_beta Let_def)
  with one show ?thesis by blast
qed

definition flaky_ops :: "bool dedup_ops" where
  "flaky_ops = \<lparr>dp_has = (\<lambda>c s e t. (None, c)), dp_add = (\<lambda>up s e t. (if up then Some False else None, False))\<rparr>"

theorem redis_duplicate_forgotten_witness:
  "\<exists>c'. hybrid_add flaky_ops mem_has mem_add True
       \<lparr>hy_primary = True, hy_fallback = new_InMemoryDedupCache None, hy_fallbackTotal = 0\<rparr> ''s'' ''e'' 0 = (False, c') \<and>
     fst (hybrid_add flaky_ops mem_has mem_add True c' ''s'' ''e'' 0)"
  by (rule redis_duplicate_forgotten [where p = False and p' = False])
     (simp_all add: flaky_ops_def new_InMemoryDedupCache_def mem_has_def isLive_def)

end
