(* ===== verification/Idempotency.thy ===== *)
theory Idempotency
  imports Decimal "HOL-Library.Char_ord" "HOL-Library.List_Lexorder" "HOL-Library.Multiset"
begin

text \<open>
  Idempotent requests: the body fingerprint and the middleware of \<open>src/middleware/idempotency.ts\<close>, the
  stores of \<open>src/redis/idempotencyStore.ts\<close> and the header check of
  \<open>src/middleware/requestProtection.ts\<close>.

  Bodies are JSON values (\<open>json\<close>); a missing body is \<open>None\<close>. SHA-256 is the argument \<open>sha\<close>, the text of a
  number that is not a small integer the argument \<open>ts\<close>. A string stored in Redis is either the marker of a
  request in progress, the text of a JSON value, or no JSON text (\<open>raw_value\<close>); \<open>JSON.parse\<close> and
  \<open>JSON.stringify\<close> go between the last two and \<open>json\<close>. The Redis client is an \<open>idem_redis_ops\<close> argument with
  \<open>None\<close> for an error. A store the middleware uses is an \<open>idem_ops\<close> record whose operations may throw.

  The locale \<open>idempotency_store\<close> states the promises of \<open>IdempotencyStore\<close> the middleware relies on; it is
  interpreted on the in-memory store.
\<close>

section \<open>Bodies and fingerprints\<close>

datatype json =
    JsonNull
  | JsonBool bool
  | JsonNumber rat
  | JsonString string
  | JsonArray "json list"
  | JsonObject "(string \<times> json) list"

definition json_escape :: "char \<Rightarrow> string" where
  "json_escape c =
     (let n = (of_char c :: nat)
      in if n = 34 then [char_of (92 :: nat), c]
         else if n = 92 then [c, c]
         else if n = 8 then [char_of (92 :: nat), CHR ''b'']
         else if n = 9 then [char_of (92 :: nat), CHR ''t'']
         else if n = 10 then [char_of (92 :: nat), CHR ''n'']
         else if n = 12 then [char_of (92 :: nat), CHR ''f'']
         else if n = 13 then [char_of (92 :: nat), CHR ''r'']
         else if n < 32 then char_of (92 :: nat) # ''u00'' @ [hex_digit (n div 16), hex_digit (n mod 16)]
         else [c])"

definition json_quote :: "string \<Rightarrow> string" where
  "json_quote s = [char_of (34 :: nat)] @ concat (map json_escape s) @ [char_of (34 :: nat)]"

text \<open>Keys are sorted as \<open>Array.prototype.sort\<close> sorts strings, by code unit. A key is put between quotes
  as it is.\<close>

fun canonicalizeBody :: "(rat \<Rightarrow> string) \<Rightarrow> json \<Rightarrow> string" where
  "canonicalizeBody ts JsonNull = ''null''"
| "canonicalizeBody ts (JsonBool b) = (if b then ''true'' else ''false'')"
| "canonicalizeBody ts (JsonNumber x) = js_num_toString ts x"
| "canonicalizeBody ts (JsonString s) = js_trim (json_quote s)"
| "canonicalizeBody ts (JsonArray xs) = ''['' @ join '','' (map (canonicalizeBody ts) xs) @ '']''"
| "canonicalizeBody ts (JsonObject m) =
     ''{'' @ join '','' (map (\<lambda>(k, v). [char_of (34 :: nat)] @ k @ [char_of (34 :: nat), CHR '':''] @ v)
        (sort_key fst (map (\<lambda>(k, v). (k, canonicalizeBody ts v)) m))) @ ''}''"

definition hashBody :: "(string \<Rightarrow> string) \<Rightarrow> (rat \<Rightarrow> string) \<Rightarrow> json option \<Rightarrow> string" where
  "hashBody sha ts body = sha (case body of None \<Rightarrow> [] | Some b \<Rightarrow> canonicalizeBody ts b)"

section \<open>The header\<close>

definition IDEMPOTENCY_KEY_MIN_LENGTH :: nat where "IDEMPOTENCY_KEY_MIN_LENGTH = 1"
definition IDEMPOTENCY_KEY_MAX_LENGTH :: nat where "IDEMPOTENCY_KEY_MAX_LENGTH = 128"

definition key_char :: "char \<Rightarrow> bool" where
  "key_char c \<longleftrightarrow> CHR ''A'' \<le> c \<and> c \<le> CHR ''Z'' \<or> CHR ''a'' \<le> c \<and> c \<le> CHR ''z'' \<or> is_digit c \<or>
     c = CHR '':'' \<or> c = CHR ''_'' \<or> c = CHR ''-''"

definition IDEMPOTENCY_KEY_REGEX :: "string \<Rightarrow> bool" where
  "IDEMPOTENCY_KEY_REGEX s \<longleftrightarrow> s \<noteq> [] \<and> list_all key_char s"

datatype KeyError = Key_missing | Key_length | Key_characters

definition parseIdempotencyKeyHeader :: "jsval \<Rightarrow> KeyError + string" where
  "parseIdempotencyKeyHeader headerValue =
     (case headerValue of
        JString s \<Rightarrow>
          let trimmed = js_trim s
          in if length trimmed < IDEMPOTENCY_KEY_MIN_LENGTH \<or> IDEMPOTENCY_KEY_MAX_LENGTH < length trimmed
             then Inl Key_length
             else if \<not> IDEMPOTENCY_KEY_REGEX trimmed then Inl Key_characters
             else Inr trimmed
      | _ \<Rightarrow> Inl Key_missing)"

section \<open>Envelopes\<close>

definition ENVELOPE_VERSION :: rat where "ENVELOPE_VERSION = 1"
definition IDEMPOTENCY_KEY_PREFIX :: string where "IDEMPOTENCY_KEY_PREFIX = ''fluxora:idempotency:''"

record IdempotentEntry =
  ie_version :: rat
  ie_requestFingerprint :: string
  ie_statusCode :: rat
  ie_body :: json

datatype invalidReason =
  Invalid_JSON | Not_an_object | Bad_fingerprint | Bad_statusCode | Missing_body | Missing_version | Version_mismatch rat

datatype raw_value = InProgressMarker | JsonText json | NotJson string

definition json_get :: "json \<Rightarrow> string \<Rightarrow> json option" where
  "json_get v k = (case v of JsonObject m \<Rightarrow> map_get m k | _ \<Rightarrow> None)"

definition parseAndValidateEnvelope :: "raw_value \<Rightarrow> invalidReason + IdempotentEntry" where
  "parseAndValidateEnvelope raw =
     (case raw of
        InProgressMarker \<Rightarrow> Inl Invalid_JSON
      | NotJson _ \<Rightarrow> Inl Invalid_JSON
      | JsonText v \<Rightarrow>
          if (case v of JsonObject _ \<Rightarrow> False | JsonArray _ \<Rightarrow> False | _ \<Rightarrow> True) then Inl Not_an_object
          else case json_get v ''requestFingerprint'' of
            Some (JsonString f) \<Rightarrow>
              (case json_get v ''statusCode'' of
                 Some (JsonNumber c) \<Rightarrow>
                   (case json_get v ''body'' of
                      None \<Rightarrow> Inl Missing_body
                    | Some b \<Rightarrow>
                        (case json_get v ''version'' of
                           Some (JsonNumber n) \<Rightarrow>
                             if n \<noteq> ENVELOPE_VERSION then Inl (Version_mismatch n)
                             else Inr \<lparr>ie_version = n, ie_requestFingerprint = f, ie_statusCode = c, ie_body = b\<rparr>
                         | _ \<Rightarrow> Inl Missing_version))
               | _ \<Rightarrow> Inl Bad_statusCode)
          | _ \<Rightarrow> Inl Bad_fingerprint)"

text \<open>\<open>JSON.stringify({ ...entry, version: ENVELOPE_VERSION })\<close>\<close>

definition envelope_text :: "IdempotentEntry \<Rightarrow> raw_value" where
  "envelope_text entry =
     JsonText (JsonObject [(''version'', JsonNumber ENVELOPE_VERSION),
       (''requestFingerprint'', JsonString (ie_requestFingerprint entry)),
       (''statusCode'', JsonNumber (ie_statusCode entry)), (''body'', ie_body entry)])"

section \<open>The stores\<close>

datatype lookup_result = Absent | In_progress | Found IdempotentEntry

record 'r idem_redis_ops =
  ir_setNx :: "'r \<Rightarrow> string \<Rightarrow> raw_value \<Rightarrow> int \<Rightarrow> millis \<Rightarrow> (bool \<times> 'r) option"
  ir_get :: "'r \<Rightarrow> string \<Rightarrow> millis \<Rightarrow> raw_value option option"
  ir_set_pxat :: "'r \<Rightarrow> string \<Rightarrow> raw_value \<Rightarrow> millis \<Rightarrow> 'r option"

record 'r RedisIdempotencyStore =
  is_client :: 'r
  is_expiryByKey :: "(string, int) jsmap"
  is_health :: "bool list"

definition redis_buildKey :: "string \<Rightarrow> string \<Rightarrow> string" where
  "redis_buildKey key tenantId = IDEMPOTENCY_KEY_PREFIX @ tenantId @ '':'' @ key"

definition pruneExpiredDeadlines :: "string option \<Rightarrow> millis \<Rightarrow> 'r RedisIdempotencyStore \<Rightarrow> 'r RedisIdempotencyStore" where
  "pruneExpiredDeadlines exceptKey now s =
     s\<lparr>is_expiryByKey := filter (\<lambda>(fullKey, expiresAt). \<not> (Some fullKey \<noteq> exceptKey \<and> expiresAt \<le> now)) (is_expiryByKey s)\<rparr>"

definition onStateChange :: "bool \<Rightarrow> 'r RedisIdempotencyStore \<Rightarrow> 'r RedisIdempotencyStore" where
  "onStateChange healthy s = s\<lparr>is_health := is_health s @ [healthy]\<rparr>"

definition redis_start ::
  "'r idem_redis_ops \<Rightarrow> 'r RedisIdempotencyStore \<Rightarrow> string \<Rightarrow> string \<Rightarrow> int \<Rightarrow> millis \<Rightarrow> bool \<times> 'r RedisIdempotencyStore" where
  "redis_start ops s key tenantId ttlSeconds now =
     (let fullKey = redis_buildKey key tenantId;
          s1 = pruneExpiredDeadlines None now s;
          expiresAt = now + ttlSeconds * 1000
      in case ir_setNx ops (is_client s1) fullKey InProgressMarker (ttlSeconds * 1000) now of
           Some (result, r) \<Rightarrow>
             let s2 = onStateChange True (s1\<lparr>is_client := r\<rparr>)
             in (result, if result then s2\<lparr>is_expiryByKey := map_set fullKey expiresAt (is_expiryByKey s2)\<rparr> else s2)
         | None \<Rightarrow>
             let s2 = onStateChange False s1
             in (True, s2\<lparr>is_expiryByKey := map_set fullKey expiresAt (is_expiryByKey s2)\<rparr>))"

definition redis_get ::
  "'r idem_redis_ops \<Rightarrow> 'r RedisIdempotencyStore \<Rightarrow> string \<Rightarrow> string \<Rightarrow> millis \<Rightarrow> lookup_result \<times> 'r RedisIdempotencyStore" where
  "redis_get ops s key tenantId now =
     (let s1 = pruneExpiredDeadlines None now s
      in case ir_get ops (is_client s1) (redis_buildKey key tenantId) now of
           None \<Rightarrow> (Absent, onStateChange False s1)
         | Some None \<Rightarrow> (Absent, onStateChange True s1)
         | Some (Some InProgressMarker) \<Rightarrow> (In_progress, onStateChange True s1)
         | Some (Some raw) \<Rightarrow>
             (case parseAndValidateEnvelope raw of
                Inl _ \<Rightarrow> (Absent, onStateChange True s1)
              | Inr entry \<Rightarrow> (Found entry, onStateChange True s1)))"

definition redis_set ::
  "'r idem_redis_ops \<Rightarrow> 'r RedisIdempotencyStore \<Rightarrow> string \<Rightarrow> string \<Rightarrow> IdempotentEntry \<Rightarrow> int \<Rightarrow> millis \<Rightarrow>
   'r RedisIdempotencyStore" where
  "redis_set ops s key tenantId entry ttlSeconds now =
     (let fullKey = redis_buildKey key tenantId;
          s1 = pruneExpiredDeadlines (Some fullKey) now s;
          deadline = nullish (map_get (is_expiryByKey s1) fullKey) (now + ttlSeconds * 1000);
          forget = (\<lambda>s. s\<lparr>is_expiryByKey := map_delete fullKey (is_expiryByKey s)\<rparr>)
      in if deadline \<le> now then forget s1
         else case ir_set_pxat ops (is_client s1) fullKey (envelope_text entry) deadline of
                Some r \<Rightarrow> forget (onStateChange True (s1\<lparr>is_client := r\<rparr>))
              | None \<Rightarrow> forget (onStateChange False s1))"

text \<open>An entry of the in-memory store: \<open>None\<close> is the value \<open>'in_progress'\<close>.\<close>

type_synonym InMemoryIdempotencyStore = "(string, IdempotentEntry option \<times> millis) jsmap"

definition mem_buildKey :: "string \<Rightarrow> string \<Rightarrow> string" where
  "mem_buildKey key tenantId = tenantId @ '':'' @ key"

definition mem_start :: "InMemoryIdempotencyStore \<Rightarrow> string \<Rightarrow> string \<Rightarrow> int \<Rightarrow> millis \<Rightarrow> bool \<times> InMemoryIdempotencyStore" where
  "mem_start s key tenantId ttlSeconds now =
     (let fullKey = mem_buildKey key tenantId
      in if (case map_get s fullKey of None \<Rightarrow> False | Some (_, expiresAt) \<Rightarrow> now < expiresAt) then (False, s)
         else (True, map_set fullKey (None, now + ttlSeconds * 1000) s))"

definition mem_get :: "InMemoryIdempotencyStore \<Rightarrow> string \<Rightarrow> string \<Rightarrow> millis \<Rightarrow> lookup_result" where
  "mem_get s key tenantId now =
     (case map_get s (mem_buildKey key tenantId) of
        None \<Rightarrow> Absent
      | Some (entry, expiresAt) \<Rightarrow> if expiresAt \<le> now then Absent
          else case entry of None \<Rightarrow> In_progress | Some e \<Rightarrow> Found e)"

definition mem_set ::
  "InMemoryIdempotencyStore \<Rightarrow> string \<Rightarrow> string \<Rightarrow> IdempotentEntry \<Rightarrow> int \<Rightarrow> millis \<Rightarrow> InMemoryIdempotencyStore" where
  "mem_set s key tenantId entry ttlSeconds now =
     (let fullKey = mem_buildKey key tenantId;
          expiresAt = (case map_get s fullKey of
              Some (None, e) \<Rightarrow> e
            | _ \<Rightarrow> now + ttlSeconds * 1000)
      in map_set fullKey (Some entry, expiresAt) s)"

section \<open>The middleware\<close>

record 's idem_ops =
  io_start :: "'s \<Rightarrow> string \<Rightarrow> string \<Rightarrow> int \<Rightarrow> millis \<Rightarrow> (bool \<times> 's) option"
  io_get :: "'s \<Rightarrow> string \<Rightarrow> string \<Rightarrow> millis \<Rightarrow> (lookup_result \<times> 's) option"
  io_set :: "'s \<Rightarrow> string \<Rightarrow> string \<Rightarrow> IdempotentEntry \<Rightarrow> int \<Rightarrow> millis \<Rightarrow> 's option"

definition mem_ops :: "InMemoryIdempotencyStore idem_ops" where
  "mem_ops = \<lparr>io_start = (\<lambda>s k t ttl now. Some (mem_start s k t ttl now)),
     io_get = (\<lambda>s k t now. Some (mem_get s k t now, s)),
     io_set = (\<lambda>s k t e ttl now. Some (mem_set s k t e ttl now))\<rparr>"

definition noop_ops :: "unit idem_ops" where
  "noop_ops = \<lparr>io_start = (\<lambda>s k t ttl now. Some (True, s)), io_get = (\<lambda>s k t now. Some (Absent, s)),
     io_set = (\<lambda>s k t e ttl now. Some s)\<rparr>"

definition redis_idem_ops :: "'r idem_redis_ops \<Rightarrow> 'r RedisIdempotencyStore idem_ops" where
  "redis_idem_ops ops = \<lparr>io_start = (\<lambda>s k t ttl now. Some (redis_start ops s k t ttl now)),
     io_get = (\<lambda>s k t now. Some (redis_get ops s k t now)),
     io_set = (\<lambda>s k t e ttl now. Some (redis_set ops s k t e ttl now))\<rparr>"

record idem_request =
  rq_method :: string
  rq_idempotencyKey :: jsval
  rq_keyId :: "string option"
  rq_userAddress :: "string option"
  rq_body :: "json option"

text \<open>What the middleware does with a request: hand it on untouched, answer 409 for either reason, replay the
  stored response, or hand it on with \<open>res.json\<close> intercepted.\<close>

datatype idem_action =
    PassThrough
  | ConflictInProgress
  | ConflictBody string string
  | Replay rat json
  | Execute

text \<open>\<open>a || b || 'anonymous'\<close>: absent and empty are falsy.\<close>

definition truthy_str :: "string option \<Rightarrow> bool" where
  "truthy_str x \<longleftrightarrow> (case x of None \<Rightarrow> False | Some s \<Rightarrow> s \<noteq> [])"

definition rq_tenant :: "idem_request \<Rightarrow> string" where
  "rq_tenant req =
     (if truthy_str (rq_keyId req) then nullish (rq_keyId req) []
      else if truthy_str (rq_userAddress req) then nullish (rq_userAddress req) []
      else ''anonymous'')"

definition rq_key :: "idem_request \<Rightarrow> string option" where
  "rq_key req =
     (if rq_method req \<noteq> ''POST'' then None
      else case rq_idempotencyKey req of JString k \<Rightarrow> if k = [] then None else Some k | _ \<Rightarrow> None)"

text \<open>\<open>body?.data ?? body\<close>\<close>

definition replay_data :: "json \<Rightarrow> json" where
  "replay_data body =
     (case json_get body ''data'' of None \<Rightarrow> body | Some JsonNull \<Rightarrow> body | Some d \<Rightarrow> d)"

definition idempotencyMiddleware ::
  "'s idem_ops \<Rightarrow> (string \<Rightarrow> string) \<Rightarrow> (rat \<Rightarrow> string) \<Rightarrow> int \<Rightarrow> idem_request \<Rightarrow> millis \<Rightarrow> 's \<Rightarrow> idem_action \<times> 's" where
  "idempotencyMiddleware ops sha ts ttlSeconds req now s =
     (case rq_key req of
        None \<Rightarrow> (PassThrough, s)
      | Some key \<Rightarrow>
          let tenantId = rq_tenant req; incomingHash = hashBody sha ts (rq_body req)
          in case io_get ops s key tenantId now of
               None \<Rightarrow> (PassThrough, s)
             | Some (existing, s1) \<Rightarrow>
                 (case existing of
                    In_progress \<Rightarrow> (ConflictInProgress, s1)
                  | Found entry \<Rightarrow>
                      if ie_requestFingerprint entry \<noteq> incomingHash
                      then (ConflictBody (ie_requestFingerprint entry) incomingHash, s1)
                      else (Replay (ie_statusCode entry) (replay_data (ie_body entry)), s1)
                  | Absent \<Rightarrow>
                      (case io_start ops s1 key tenantId ttlSeconds now of
                         None \<Rightarrow> (PassThrough, s1)
                       | Some (lockAcquired, s2) \<Rightarrow>
                           if lockAcquired then (Execute, s2) else (ConflictInProgress, s2))))"

text \<open>The intercepted \<open>res.json(body)\<close> of a request that was executed.\<close>

definition interceptedJson ::
  "'s idem_ops \<Rightarrow> (string \<Rightarrow> string) \<Rightarrow> (rat \<Rightarrow> string) \<Rightarrow> int \<Rightarrow> idem_request \<Rightarrow> rat \<Rightarrow> json \<Rightarrow> millis \<Rightarrow> 's \<Rightarrow> 's" where
  "interceptedJson ops sha ts ttlSeconds req statusCode body now s =
     (case rq_key req of
        None \<Rightarrow> s
      | Some key \<Rightarrow>
          if 200 \<le> statusCode \<and> statusCode < 300
          then nullish (io_set ops s key (rq_tenant req)
                 \<lparr>ie_version = ENVELOPE_VERSION, ie_requestFingerprint = hashBody sha ts (rq_body req),
                  ie_statusCode = statusCode, ie_body = body\<rparr> ttlSeconds now) s
          else s)"

section \<open>Fingerprints\<close>

text \<open>Equality of JSON values up to the order of the keys of objects, at every depth.\<close>

inductive json_equiv :: "json \<Rightarrow> json \<Rightarrow> bool" where
  same: "json_equiv v v"
| arrays: "list_all2 json_equiv xs ys \<Longrightarrow> json_equiv (JsonArray xs) (JsonArray ys)"
| objects: "list_all2 (\<lambda>p q. fst p = fst q \<and> json_equiv (snd p) (snd q)) m n \<Longrightarrow> mset n = mset n' \<Longrightarrow>
     distinct (map fst n) \<Longrightarrow> json_equiv (JsonObject m) (JsonObject n')"

lemma sort_key_perm:
  assumes "mset xs = mset ys" "distinct (map f xs)"
  shows "sort_key f xs = sort_key f ys"
proof (rule sort_key_inj_key_eq)
  show "inj_on f (set xs)" using assms(2) by (simp add: distinct_map)
  show "mset xs = mset (sort_key f ys)" using assms(1) by simp
qed simp

lemma canonicalizeBody_equiv: "json_equiv v w \<Longrightarrow> canonicalizeBody ts v = canonicalizeBody ts w"
proof (induction rule: json_equiv.induct)
  case (arrays xs ys)
  then have "map (canonicalizeBody ts) xs = map (canonicalizeBody ts) ys"
    by (induction rule: list_all2_induct) auto
  then show ?case by simp
next
  case (objects m n n')
  let ?c = "\<lambda>(k, v). (k, canonicalizeBody ts v)"
  have "map ?c m = map ?c n" using objects.IH by (induction rule: list_all2_induct) auto
  moreover have "sort_key fst (map ?c n) = sort_key fst (map ?c n')"
    using objects.hyps by (intro sort_key_perm) (simp_all add: comp_def split_beta)
  ultimately show ?case by simp
qed simp

text \<open>Fingerprints do not depend on the order of keys: bodies that differ only in the order of object keys,
  at any depth, have the same canonical form and hence the same hash.\<close>

theorem fingerprint_key_order:
  assumes "json_equiv v w"
  shows "hashBody sha ts (Some v) = hashBody sha ts (Some w)"
  using canonicalizeBody_equiv [OF assms] by (simp add: hashBody_def)

theorem fingerprint_key_order_witness:
  "hashBody id (\<lambda>_. []) (Some (JsonObject [(''a'', JsonNull), (''b'', JsonBool True)])) =
   hashBody id (\<lambda>_. []) (Some (JsonObject [(''b'', JsonBool True), (''a'', JsonNull)]))"
  by (rule fingerprint_key_order, rule json_equiv.objects [of _ "[(''a'', JsonNull), (''b'', JsonBool True)]"])
     (simp_all add: json_equiv.same add_mset_commute)

text \<open>Keys are not escaped, so fingerprints collide. The object with the one key \<open>a":1,"b\<close> has the same
  canonical form as the object with the keys \<open>a\<close> and \<open>b\<close>; a request with the one body is treated as a
  repetition of the other.\<close>

theorem unescaped_key_collision:
  "canonicalizeBody ts (JsonObject [(''a'' @ [char_of (34 :: nat)] @ '':1,'' @ [char_of (34 :: nat)] @ ''b'', JsonNumber 2)]) =
   canonicalizeBody ts (JsonObject [(''a'', JsonNumber 1), (''b'', JsonNumber 2)])"
proof -
  have n: "js_num_toString ts 1 = ''1''" "js_num_toString ts 2 = ''2''"
    using floor_numeral [of "num.Bit0 num.One", where 'a = rat]
    by (simp_all add: js_num_toString_def js_is_integer_def show_int_def) code_simp+
  have s: "sort_key fst [(''a'', x), (''b'', y)] = [(''a'', x), (''b'', y :: string)]" for x y
    by (rule sort_key_inj_key_eq) (auto simp: less_eq_char_def)
  show ?thesis by (simp add: n s join_def)
qed

section \<open>Envelopes and keys\<close>

text \<open>What the Redis store writes it can read back, with the current version; and nothing is accepted whose
  version differs, whatever else it contains.\<close>

theorem envelope_roundtrip:
  "parseAndValidateEnvelope (envelope_text e) = Inr (e\<lparr>ie_version := ENVELOPE_VERSION\<rparr>) \<and>
   (parseAndValidateEnvelope raw = Inr e' \<longrightarrow> ie_version e' = ENVELOPE_VERSION)"
proof
  show "parseAndValidateEnvelope (envelope_text e) = Inr (e\<lparr>ie_version := ENVELOPE_VERSION\<rparr>)"
    by (simp add: parseAndValidateEnvelope_def envelope_text_def json_get_def)
  show "parseAndValidateEnvelope raw = Inr e' \<longrightarrow> ie_version e' = ENVELOPE_VERSION"
    by (auto simp: parseAndValidateEnvelope_def split: raw_value.splits json.splits option.splits if_splits)
qed

theorem envelope_roundtrip_witness:
  "ie_version (\<lparr>ie_version = 7, ie_requestFingerprint = ''f'', ie_statusCode = 201, ie_body = JsonNull\<rparr>
      \<lparr>ie_version := ENVELOPE_VERSION\<rparr>) = ENVELOPE_VERSION"
  using envelope_roundtrip [of "\<lparr>ie_version = 7, ie_requestFingerprint = ''f'', ie_statusCode = 201, ie_body = JsonNull\<rparr>"
      "envelope_text \<lparr>ie_version = 7, ie_requestFingerprint = ''f'', ie_statusCode = 201, ie_body = JsonNull\<rparr>"]
  by blast

lemma colon_split:
  assumes "CHR '':'' \<notin> set t" "CHR '':'' \<notin> set t'" "t @ '':'' @ k = t' @ '':'' @ k'"
  shows "t = t' \<and> k = k'"
proof -
  have "split_on (CHR '':'') (t @ CHR '':'' # k) = split_on (CHR '':'') (t' @ CHR '':'' # k')" using assms(3) by simp
  then have "t = t'" by (simp add: split_on_append assms(1,2))
  then show ?thesis using assms(3) by simp
qed

text \<open>Tenants do not share keys. For tenant identifiers without a colon, as key identifiers and account
  addresses are, two storage keys of either store are equal only for the same tenant and the same
  Idempotency-Key, colons in the Idempotency-Key notwithstanding.\<close>

theorem tenant_isolation:
  assumes "CHR '':'' \<notin> set t" "CHR '':'' \<notin> set t'"
  shows "(mem_buildKey k t = mem_buildKey k' t' \<longleftrightarrow> k = k' \<and> t = t') \<and>
     (redis_buildKey k t = redis_buildKey k' t' \<longleftrightarrow> k = k' \<and> t = t')"
  using colon_split [OF assms, of k k'] by (auto simp: mem_buildKey_def redis_buildKey_def)

theorem tenant_isolation_witness:
  "mem_buildKey ''b:c'' ''a'' \<noteq> mem_buildKey ''c'' ''a-b'' \<and> redis_buildKey ''x'' ''a'' \<noteq> redis_buildKey ''x'' ''b''"
  using tenant_isolation [of "''a''" "''a-b''" "''b:c''" "''c''"] tenant_isolation [of "''a''" "''b''" "''x''" "''x''"] by simp

section \<open>The promises of a store\<close>

text \<open>\<open>holds s k t now\<close> is what the store has for a key at a time. A key that is free can be acquired, and then is in
  progress until its deadline; a key that is taken cannot; storing the response of an acquired key keeps the
  deadline; a key is never touched by operations on others.\<close>

locale idempotency_store =
  fixes ops :: "'s idem_ops" and holds :: "'s \<Rightarrow> string \<Rightarrow> string \<Rightarrow> millis \<Rightarrow> lookup_result"
  assumes get_holds: "io_get ops s k t now = Some (holds s k t now, s)"
    and start_free: "holds s k t now = Absent \<Longrightarrow> \<exists>s'. io_start ops s k t ttl now = Some (True, s') \<and>
       (\<forall>now'. holds s' k t now' = (if now' < now + ttl * 1000 then In_progress else Absent))"
    and start_busy: "holds s k t now \<noteq> Absent \<Longrightarrow> io_start ops s k t ttl now = Some (False, s)"
    and set_keeps_deadline: "holds s k t now = In_progress \<Longrightarrow> \<exists>s'. io_set ops s k t e ttl now = Some s' \<and>
       (\<forall>now'. holds s' k t now' = (if holds s k t now' = In_progress then Found e else Absent))"
begin

lemma executes_when_absent:
  assumes "rq_key req = Some k" "holds s k (rq_tenant req) now = Absent"
  shows "\<exists>s'. idempotencyMiddleware ops sha ts ttl req now s = (Execute, s') \<and>
     (\<forall>now'. holds s' k (rq_tenant req) now' = (if now' < now + ttl * 1000 then In_progress else Absent))"
  using start_free [OF assms(2), of ttl] assms by (auto simp: idempotencyMiddleware_def Let_def get_holds)

lemma conflict_when_in_progress:
  assumes "rq_key req = Some k" "holds s k (rq_tenant req) now = In_progress"
  shows "idempotencyMiddleware ops sha ts ttl req now s = (ConflictInProgress, s)"
  using assms by (simp add: idempotencyMiddleware_def Let_def get_holds)

lemma replay_or_conflict_when_found:
  assumes "rq_key req = Some k" "holds s k (rq_tenant req) now = Found e"
  shows "idempotencyMiddleware ops sha ts ttl req now s =
     (if ie_requestFingerprint e = hashBody sha ts (rq_body req)
      then Replay (ie_statusCode e) (replay_data (ie_body e))
      else ConflictBody (ie_requestFingerprint e) (hashBody sha ts (rq_body req)), s)"
  using assms by (simp add: idempotencyMiddleware_def Let_def get_holds)

lemma success_stored:
  assumes "rq_key req = Some k" "holds s k (rq_tenant req) now = In_progress" "200 \<le> c" "c < 300"
  shows "holds (interceptedJson ops sha ts ttl req c body now s) k (rq_tenant req) now' =
     (if holds s k (rq_tenant req) now' = In_progress
      then Found \<lparr>ie_version = ENVELOPE_VERSION, ie_requestFingerprint = hashBody sha ts (rq_body req),
                  ie_statusCode = c, ie_body = body\<rparr> else Absent)"
proof -
  let ?e = "\<lparr>ie_version = ENVELOPE_VERSION, ie_requestFingerprint = hashBody sha ts (rq_body req),
             ie_statusCode = c, ie_body = body\<rparr>"
  obtain s' where "io_set ops s k (rq_tenant req) ?e ttl now = Some s'"
      "\<And>now'. holds s' k (rq_tenant req) now' = (if holds s k (rq_tenant req) now' = In_progress then Found ?e else Absent)"
    using set_keeps_deadline [OF assms(2), of ?e ttl] by blast
  then show ?thesis using assms by (simp add: interceptedJson_def)
qed

lemma failure_stored:
  "\<not> (200 \<le> c \<and> c < 300) \<Longrightarrow> interceptedJson ops sha ts ttl req c body now s = s"
  by (auto simp: interceptedJson_def split: option.split)

end

interpretation mem_store: idempotency_store mem_ops mem_get
proof unfold_locales
  fix s k t now ttl e
  show "io_get mem_ops s k t now = Some (mem_get s k t now, s)" by (simp add: mem_ops_def)
  show "\<exists>s'. io_start mem_ops s k t ttl now = Some (True, s') \<and>
       (\<forall>now'. mem_get s' k t now' = (if now' < now + ttl * 1000 then In_progress else Absent))"
    if "mem_get s k t now = Absent"
    using that by (auto simp: mem_ops_def mem_start_def mem_get_def Let_def split: option.splits if_splits)
  show "io_start mem_ops s k t ttl now = Some (False, s)" if "mem_get s k t now \<noteq> Absent"
    using that by (auto simp: mem_ops_def mem_start_def mem_get_def Let_def split: option.splits if_splits)
  show "\<exists>s'. io_set mem_ops s k t e ttl now = Some s' \<and>
       (\<forall>now'. mem_get s' k t now' = (if mem_get s k t now' = In_progress then Found e else Absent))"
    if "mem_get s k t now = In_progress"
    using that by (auto simp: mem_ops_def mem_set_def mem_get_def Let_def split: option.splits if_splits)
qed


definition demo_request :: "json \<Rightarrow> idem_request" where
  "demo_request b = \<lparr>rq_method = ''POST'', rq_idempotencyKey = JString ''k'', rq_keyId = Some ''t'', rq_userAddress = None,
     rq_body = Some b\<rparr>"


text \<open>A failed request blocks its key. When the executed request answers with a status outside 2xx nothing is
  stored and the key stays in progress, so until the deadline every repetition of the request is refused as
  if the first one were still running.\<close>

theorem failed_request_blocks_key:
  assumes "rq_key req = Some k" "mem_get s k (rq_tenant req) t0 = Absent" "\<not> (200 \<le> c \<and> c < 300)"
    and "t2 < t0 + ttl * 1000"
  shows "fst (idempotencyMiddleware mem_ops sha ts ttl req t2
     (interceptedJson mem_ops sha ts ttl req c body t1 (snd (idempotencyMiddleware mem_ops sha ts ttl req t0 s)))) =
     ConflictInProgress"
proof -
  let ?s1 = "snd (idempotencyMiddleware mem_ops sha ts ttl req t0 s)"
  have "mem_get ?s1 k (rq_tenant req) t2 = In_progress"
    using mem_store.executes_when_absent [OF assms(1,2), of sha ts ttl] assms(4) by auto
  then show ?thesis
    using mem_store.conflict_when_in_progress [OF assms(1)] mem_store.failure_stored [OF assms(3)] by simp
qed

theorem failed_request_blocks_key_witness:
  "fst (idempotencyMiddleware mem_ops id (\<lambda>_. []) 86400 (demo_request JsonNull) 86399999
     (interceptedJson mem_ops id (\<lambda>_. []) 86400 (demo_request JsonNull) 503 JsonNull 5
       (snd (idempotencyMiddleware mem_ops id (\<lambda>_. []) 86400 (demo_request JsonNull) 0 [])))) = ConflictInProgress"
  by (rule failed_request_blocks_key [where k = "''k''"]) (simp_all add: rq_key_def demo_request_def mem_get_def)

section \<open>Deadlines in the Redis store\<close>

datatype idem_op =
    Op_start string string int millis
  | Op_get string string millis
  | Op_set string string IdempotentEntry int millis

primrec redis_step :: "'r idem_redis_ops \<Rightarrow> 'r RedisIdempotencyStore \<Rightarrow> idem_op \<Rightarrow> 'r RedisIdempotencyStore" where
  "redis_step ops s (Op_start k t ttl now) = snd (redis_start ops s k t ttl now)"
| "redis_step ops s (Op_get k t now) = snd (redis_get ops s k t now)"
| "redis_step ops s (Op_set k t e ttl now) = redis_set ops s k t e ttl now"

primrec op_key :: "idem_op \<Rightarrow> string option" where
  "op_key (Op_start k t ttl now) = Some (redis_buildKey k t)"
| "op_key (Op_get k t now) = None"
| "op_key (Op_set k t e ttl now) = Some (redis_buildKey k t)"

primrec op_time :: "idem_op \<Rightarrow> millis" where
  "op_time (Op_start k t ttl now) = now"
| "op_time (Op_get k t now) = now"
| "op_time (Op_set k t e ttl now) = now"

definition deadline_is :: "string \<Rightarrow> millis \<Rightarrow> 'r RedisIdempotencyStore \<Rightarrow> bool" where
  "deadline_is fk d s \<longleftrightarrow> map_wf (is_expiryByKey s) \<and> map_get (is_expiryByKey s) fk = Some d"

lemma onStateChange_fields [simp]:
  "is_expiryByKey (onStateChange h s) = is_expiryByKey s" "is_client (onStateChange h s) = is_client s"
  by (simp_all add: onStateChange_def)

lemma prune_client [simp]: "is_client (pruneExpiredDeadlines x now s) = is_client s"
  by (simp add: pruneExpiredDeadlines_def)

lemma prune_wf: "map_wf (is_expiryByKey s) \<Longrightarrow> map_wf (is_expiryByKey (pruneExpiredDeadlines x now s))"
  by (simp add: pruneExpiredDeadlines_def map_wf_def distinct_map_filter)

lemma prune_deadline:
  assumes "deadline_is fk d s" "now < d \<or> x = Some fk"
  shows "deadline_is fk d (pruneExpiredDeadlines x now s)"
proof -
  have wf: "map_wf (is_expiryByKey (pruneExpiredDeadlines x now s))"
    using assms(1) prune_wf by (auto simp: deadline_is_def)
  have "(fk, d) \<in> set (is_expiryByKey s)" using assms(1) by (auto simp: deadline_is_def dest: map_of_SomeD)
  then have "(fk, d) \<in> set (is_expiryByKey (pruneExpiredDeadlines x now s))"
    using assms(2) by (auto simp: pruneExpiredDeadlines_def)
  then show ?thesis using wf by (simp add: deadline_is_def map_get_mem)
qed

lemma redis_step_deadline:
  assumes "deadline_is fk d s" "op_key x \<noteq> Some fk" "op_time x < d"
  shows "deadline_is fk d (redis_step ops s x)"
proof -
  have p: "deadline_is fk d (pruneExpiredDeadlines y (op_time x) s)" for y
    using prune_deadline [OF assms(1)] assms(3) by blast
  show ?thesis
  proof (cases x)
    case (Op_start k t ttl now)
    then show ?thesis using p [of None] assms(2)
      by (auto simp: redis_start_def Let_def deadline_is_def split: option.splits prod.splits)
  next
    case (Op_get k t now)
    then show ?thesis using p [of None]
      by (auto simp: redis_get_def Let_def deadline_is_def split: option.splits raw_value.splits sum.splits)
  next
    case (Op_set k t e ttl now)
    then show ?thesis using p [of "Some (redis_buildKey k t)"] assms(2)
      by (auto simp: redis_set_def Let_def deadline_is_def split: option.splits)
  qed
qed

lemma redis_run_deadline:
  assumes "deadline_is fk d s" "\<And>x. x \<in> set xs \<Longrightarrow> op_key x \<noteq> Some fk \<and> op_time x < d"
  shows "deadline_is fk d (foldl (redis_step ops) s xs)"
  using assms by (induction xs arbitrary: s) (auto intro!: redis_step_deadline)

text \<open>The response shares the deadline of the lock. After the Redis store has acquired a key at \<open>t0\<close> (or failed
  open), and whatever is done with other keys in between, storing the response at \<open>t1\<close> writes it with the
  expiry \<open>t0 + ttl\<close>, whatever \<open>ttl\<close> is passed then; once that time has come nothing is written.\<close>

theorem response_shares_deadline:
  assumes "map_wf (is_expiryByKey s)" "redis_start ops s k t ttl t0 = (True, s1)"
    and "\<forall>x \<in> set xs. op_key x \<noteq> Some (redis_buildKey k t) \<and> op_time x < t0 + ttl * 1000"
    and "s2 = foldl (redis_step ops) s1 xs"
  shows "is_client (redis_set ops s2 k t e ttl' t1) =
    (if t1 < t0 + ttl * 1000
     then nullish (ir_set_pxat ops (is_client s2) (redis_buildKey k t) (envelope_text e) (t0 + ttl * 1000)) (is_client s2)
     else is_client s2)"
proof -
  let ?fk = "redis_buildKey k t"
  have "deadline_is ?fk (t0 + ttl * 1000) s1"
    using assms(1,2) prune_wf [of s None t0]
    by (auto simp: redis_start_def Let_def deadline_is_def split: option.splits if_splits)
  then have "deadline_is ?fk (t0 + ttl * 1000) s2"
    unfolding assms(4) by (rule redis_run_deadline) (use assms(3) in auto)
  then have "map_get (is_expiryByKey (pruneExpiredDeadlines (Some ?fk) t1 s2)) ?fk = Some (t0 + ttl * 1000)"
    using prune_deadline [of ?fk "t0 + ttl * 1000" s2 t1 "Some ?fk"] by (simp add: deadline_is_def)
  then show ?thesis by (auto simp: redis_set_def Let_def split: option.split)
qed

definition log_redis :: "(string \<times> raw_value \<times> millis) list idem_redis_ops" where
  "log_redis = \<lparr>ir_setNx = (\<lambda>r k v px now. Some (True, r @ [(k, v, now + px)])), ir_get = (\<lambda>r k now. Some None),
     ir_set_pxat = (\<lambda>r k v pxat. Some (r @ [(k, v, pxat)]))\<rparr>"

definition demo_redis :: "(string \<times> raw_value \<times> millis) list RedisIdempotencyStore" where
  "demo_redis = \<lparr>is_client = [], is_expiryByKey = [], is_health = []\<rparr>"

definition demo_entry :: IdempotentEntry where
  "demo_entry = \<lparr>ie_version = 1, ie_requestFingerprint = ''f'', ie_statusCode = 201, ie_body = JsonNull\<rparr>"

theorem response_shares_deadline_witness:
  "last (is_client (redis_set log_redis (snd (redis_start log_redis demo_redis ''k'' ''t'' 60 0)) ''k'' ''t'' demo_entry 60 5000)) =
     (redis_buildKey ''k'' ''t'', envelope_text demo_entry, 60000)"
proof -
  let ?m = "redis_start log_redis demo_redis ''k'' ''t'' 60 0"
  have "?m = (True, snd ?m)" by (simp add: redis_start_def log_redis_def Let_def)
  moreover have "map_wf (is_expiryByKey demo_redis)" by (simp add: demo_redis_def)
  ultimately show ?thesis
    using response_shares_deadline [of demo_redis log_redis "''k''" "''t''" 60 0 "snd ?m" "[]" "snd ?m" demo_entry 60 5000]
    by (simp add: log_redis_def)
qed

end
