(* ===== verification/Row_Mapping.thy ===== *)
theory Row_Mapping
  imports Decimal
begin

text \<open>
  Strict readers of database rows, \<open>src/db/rowMapping.ts\<close>.

  A column value as the driver delivers it is a \<open>dbval\<close>; a row is a map from column names, and a column
  that was not selected reads as \<open>undefined\<close>. \<open>Date.parse\<close> on a text is the argument \<open>pd\<close> (\<open>None\<close> for an
  invalid date). A thrown \<open>RowMappingError\<close> is the left value of a sum; its fields are those of the class.

  The lemmas say that a reader either returns the value the column holds or fails: nothing is defaulted or
  coerced, and an error message does not disclose what the column held.
\<close>

section \<open>Data\<close>

datatype dbval =
    DUndefined
  | DNull
  | DString string
  | DNumber jsnum
  | DBigint int
  | DBool bool
  | DDate "millis option"
  | DArray "dbval list"
  | DObject "(string \<times> dbval) list"
  | DOther string

type_synonym row = "(string, dbval) jsmap"

record RowMappingError =
  rme_table :: string
  rme_column :: string
  rme_reason :: string
  rme_received :: string

record IntegerBounds =
  ib_min :: "int option"
  ib_max :: "int option"

definition INT32_MIN :: int where "INT32_MIN = -2147483648"
definition INT32_MAX :: int where "INT32_MAX = 2147483647"
definition MAX_SAFE_INTEGER :: int where "MAX_SAFE_INTEGER = 2 ^ 53 - 1"

section \<open>Readers\<close>

definition describeValue :: "dbval \<Rightarrow> string" where
  "describeValue value =
     (case value of
        DNull \<Rightarrow> ''null''
      | DUndefined \<Rightarrow> ''undefined''
      | DString s \<Rightarrow> ''string(length='' @ show_nat (length s) @ '')''
      | DNumber NaN \<Rightarrow> ''number(NaN)''
      | DNumber (Infinity _) \<Rightarrow> ''number(Infinity)''
      | DNumber (Finite _) \<Rightarrow> ''number''
      | DBigint _ \<Rightarrow> ''bigint''
      | DBool _ \<Rightarrow> ''boolean''
      | DDate None \<Rightarrow> ''Date(Invalid Date)''
      | DDate (Some _) \<Rightarrow> ''Date''
      | DArray xs \<Rightarrow> ''array(length='' @ show_nat (length xs) @ '')''
      | DObject _ \<Rightarrow> ''object''
      | DOther t \<Rightarrow> t)"

definition row_get :: "row \<Rightarrow> string \<Rightarrow> dbval" where
  "row_get r column = nullish (map_get r column) DUndefined"

definition fail :: "string \<Rightarrow> string \<Rightarrow> string \<Rightarrow> dbval \<Rightarrow> RowMappingError + 'a" where
  "fail table column reason value =
     Inl \<lparr>rme_table = table, rme_column = column, rme_reason = reason, rme_received = describeValue value\<rparr>"

definition isNullish :: "dbval \<Rightarrow> bool" where
  "isNullish value \<longleftrightarrow> value = DNull \<or> value = DUndefined"

text \<open>\<open>/^[+-]?\d+$/\<close> and the number such a text denotes.\<close>

definition sign_digits :: "string \<Rightarrow> string" where
  "sign_digits s = (case s of c # cs \<Rightarrow> if c = CHR ''+'' \<or> c = CHR ''-'' then cs else s | [] \<Rightarrow> [])"

definition INTEGER_STRING :: "string \<Rightarrow> bool" where
  "INTEGER_STRING s \<longleftrightarrow> sign_digits s \<noteq> [] \<and> list_all is_digit (sign_digits s)"

definition integer_string_value :: "string \<Rightarrow> int" where
  "integer_string_value s =
     (case s of c # _ \<Rightarrow> if c = CHR ''-'' then - int (digits_val (sign_digits s)) else int (digits_val (sign_digits s))
      | [] \<Rightarrow> 0)"

definition readString :: "string \<Rightarrow> string \<Rightarrow> dbval \<Rightarrow> bool \<Rightarrow> RowMappingError + string" where
  "readString table column value allowEmpty =
     (case value of
        DString s \<Rightarrow> if \<not> allowEmpty \<and> s = [] then fail table column ''expected a non-empty string'' value else Inr s
      | _ \<Rightarrow> fail table column ''expected a string'' value)"

definition bounds_reason :: "int \<Rightarrow> int \<Rightarrow> string" where
  "bounds_reason mn mx = ''expected an integer within ['' @ show_int mn @ '', '' @ show_int mx @ '']''"

definition readInt :: "string \<Rightarrow> string \<Rightarrow> dbval \<Rightarrow> IntegerBounds \<Rightarrow> RowMappingError + int" where
  "readInt table column value bounds =
     (let mn = nullish (ib_min bounds) INT32_MIN; mx = nullish (ib_max bounds) INT32_MAX;
          bounded = (\<lambda>parsed. if parsed < mn \<or> mx < parsed then fail table column (bounds_reason mn mx) value else Inr parsed)
      in case value of
           DNumber n \<Rightarrow>
             (case n of
                Finite x \<Rightarrow> if \<not> js_is_integer x then fail table column ''expected an integer'' value else bounded \<lfloor>x\<rfloor>
              | _ \<Rightarrow> fail table column ''expected an integer'' value)
         | DString s \<Rightarrow>
             if \<not> INTEGER_STRING s then fail table column ''expected a decimal integer string'' value
             else if MAX_SAFE_INTEGER < \<bar>integer_string_value s\<bar>
             then fail table column ''value exceeds the safe integer range'' value
             else bounded (integer_string_value s)
         | _ \<Rightarrow> fail table column ''expected a number or a decimal integer string'' value)"

definition readDate :: "(string \<Rightarrow> millis option) \<Rightarrow> string \<Rightarrow> string \<Rightarrow> dbval \<Rightarrow> RowMappingError + millis" where
  "readDate pd table column value =
     (case value of
        DDate (Some t) \<Rightarrow> Inr t
      | DDate None \<Rightarrow> fail table column ''expected a valid Date'' value
      | DString s \<Rightarrow>
          (case pd s of None \<Rightarrow> fail table column ''expected a parseable timestamp string'' value | Some t \<Rightarrow> Inr t)
      | _ \<Rightarrow> fail table column ''expected a Date or a timestamp string'' value)"

definition requireString :: "string \<Rightarrow> row \<Rightarrow> string \<Rightarrow> bool \<Rightarrow> RowMappingError + string" where
  "requireString table row column allowEmpty =
     (let value = row_get row column
      in if isNullish value then fail table column ''required column was NULL or absent'' value
         else readString table column value allowEmpty)"

definition optionalString :: "string \<Rightarrow> row \<Rightarrow> string \<Rightarrow> bool \<Rightarrow> RowMappingError + string option" where
  "optionalString table row column allowEmpty =
     (let value = row_get row column
      in if value = DNull then Inr None
         else if value = DUndefined then fail table column ''expected a selected column'' value
         else map_sum id Some (readString table column value allowEmpty))"

definition requireInt :: "string \<Rightarrow> row \<Rightarrow> string \<Rightarrow> IntegerBounds \<Rightarrow> RowMappingError + int" where
  "requireInt table row column bounds =
     (let value = row_get row column
      in if isNullish value then fail table column ''required column was NULL or absent'' value
         else readInt table column value bounds)"

definition optionalInt :: "string \<Rightarrow> row \<Rightarrow> string \<Rightarrow> IntegerBounds \<Rightarrow> RowMappingError + int option" where
  "optionalInt table row column bounds =
     (let value = row_get row column
      in if value = DNull then Inr None
         else if value = DUndefined then fail table column ''expected a selected column'' value
         else map_sum id Some (readInt table column value bounds))"

definition requireDate :: "(string \<Rightarrow> millis option) \<Rightarrow> string \<Rightarrow> row \<Rightarrow> string \<Rightarrow> RowMappingError + millis" where
  "requireDate pd table row column =
     (let value = row_get row column
      in if isNullish value then fail table column ''required column was NULL or absent'' value
         else readDate pd table column value)"

definition optionalDate :: "(string \<Rightarrow> millis option) \<Rightarrow> string \<Rightarrow> row \<Rightarrow> string \<Rightarrow> RowMappingError + millis option" where
  "optionalDate pd table row column =
     (let value = row_get row column
      in if value = DNull then Inr None
         else if value = DUndefined then fail table column ''expected a selected column'' value
         else map_sum id Some (readDate pd table column value))"

definition requireJsonObject :: "string \<Rightarrow> row \<Rightarrow> string \<Rightarrow> RowMappingError + (string \<times> dbval) list" where
  "requireJsonObject table row column =
     (let value = row_get row column
      in if isNullish value then fail table column ''required JSON column was NULL or absent'' value
         else case value of
           DArray _ \<Rightarrow> fail table column ''expected a JSON object, not an array'' value
         | DObject m \<Rightarrow> Inr m
         | _ \<Rightarrow> fail table column ''expected a JSON object'' value)"

section \<open>Properties\<close>

text \<open>A value that stands for an integer: a number, or a text of digits in the safe range.\<close>

definition denotes_int :: "dbval \<Rightarrow> int \<Rightarrow> bool" where
  "denotes_int v n \<longleftrightarrow> v = DNumber (Finite (of_int n)) \<or>
     (\<exists>s. v = DString s \<and> INTEGER_STRING s \<and> integer_string_value s = n \<and> \<bar>n\<bar> \<le> MAX_SAFE_INTEGER)"

lemma fail_Inl [simp]: "fail t c r v \<noteq> Inr x" "\<exists>e. fail t c r v = Inl e"
  by (simp_all add: fail_def)

lemma readInt_iff:
  "readInt t c v b = Inr n \<longleftrightarrow>
   denotes_int v n \<and> nullish (ib_min b) INT32_MIN \<le> n \<and> n \<le> nullish (ib_max b) INT32_MAX"
proof (cases v)
  case (DNumber x)
  then show ?thesis
    by (cases x) (auto simp: readInt_def Let_def denotes_int_def js_is_integer_def)
qed (auto simp: readInt_def Let_def denotes_int_def)

text \<open>Integers are read exactly. A required integer column is read exactly when it holds a number or a decimal
  text denoting an integer within the bounds, and the result is that integer; an absent or NULL column and
  every other value is an error, never a default.\<close>

theorem requireInt_exact:
  "requireInt t r c b = Inr n \<longleftrightarrow>
   denotes_int (row_get r c) n \<and> nullish (ib_min b) INT32_MIN \<le> n \<and> n \<le> nullish (ib_max b) INT32_MAX"
proof (cases "isNullish (row_get r c)")
  case True
  then show ?thesis by (auto simp: requireInt_def Let_def isNullish_def denotes_int_def)
next
  case False
  then show ?thesis by (simp add: requireInt_def Let_def readInt_iff)
qed

text \<open>NULL is not absence. An optional reader returns nothing exactly for an explicit NULL; a column that was
  not selected is an error for the optional readers as for the required ones.\<close>

theorem optional_null_only:
  "(optionalString t r c e = Inr None \<longleftrightarrow> row_get r c = DNull) \<and>
   (optionalInt t r c b = Inr None \<longleftrightarrow> row_get r c = DNull) \<and>
   (optionalDate pd t r c = Inr None \<longleftrightarrow> row_get r c = DNull) \<and>
   (\<forall>x. map_get r c = None \<longrightarrow> optionalString t r c e \<noteq> Inr x)"
proof (intro conjI allI impI)
  show "optionalString t r c e = Inr None \<longleftrightarrow> row_get r c = DNull"
    by (cases "readString t c (row_get r c) e") (auto simp: optionalString_def Let_def)
  show "optionalInt t r c b = Inr None \<longleftrightarrow> row_get r c = DNull"
    by (cases "readInt t c (row_get r c) b") (auto simp: optionalInt_def Let_def)
  show "optionalDate pd t r c = Inr None \<longleftrightarrow> row_get r c = DNull"
    by (cases "readDate pd t c (row_get r c)") (auto simp: optionalDate_def Let_def)
  show "optionalString t r c e \<noteq> Inr x" if "map_get r c = None" for x
    using that by (simp add: optionalString_def Let_def row_get_def)
qed

theorem optional_null_only_witness:
  "optionalString ''t'' [(''a'', DString ''x'')] ''b'' True \<noteq> Inr None"
  using optional_null_only [of "''t''" "[(''a'', DString ''x'')]" "''b''" True] by simp

text \<open>Errors do not leak. The description of a rejected value, the only part of an error that depends on it,
  is the same for any two texts of equal length, any two finite numbers, any two objects, any two arrays of
  equal length and any two valid dates.\<close>

theorem describe_no_leak:
  assumes "length s = length s'" "length xs = length ys"
  shows "describeValue (DString s) = describeValue (DString s') \<and>
    describeValue (DArray xs) = describeValue (DArray ys) \<and>
    describeValue (DNumber (Finite x)) = describeValue (DNumber (Finite y)) \<and>
    describeValue (DObject m) = describeValue (DObject m') \<and>
    describeValue (DDate (Some d)) = describeValue (DDate (Some d'))"
  using assms by (simp add: describeValue_def)

theorem describe_no_leak_witness:
  "describeValue (DString ''secret'') = describeValue (DString ''public'')"
  using describe_no_leak [of "''secret''" "''public''" "[]" "[]"] by simp

end
