(* ===== verification/Contract_Events.thy ===== *)
theory Contract_Events
  imports Row_Mapping "HOL-Library.Product_Lexorder" "HOL-Library.List_Lexorder" "HOL-Library.Char_ord"
begin

text \<open>
  The contract-event store of the indexer, \<open>src/indexer/store.ts\<close>: the in-memory store with all its
  operations, and of the Postgres store the row it writes and the row mapper that reads it back.

  \<open>new Date().toISOString()\<close> is the argument \<open>stamp\<close>, \<open>Date.parse\<close> the argument \<open>pd\<close>; \<open>localeCompare\<close> compares
  the collation keys given by the argument \<open>coll\<close>. \<open>Array.prototype.sort\<close> is stable, as \<open>sort_key\<close> is.

  The lemmas: insertion is idempotent, a rollback removes exactly the ledgers from the fork on, following
  the cursors of \<open>getEvents\<close> visits every matching event once and in order, checkpoints never regress; and
  what the Postgres store writes cannot be read back.
\<close>

section \<open>Data\<close>

record ContractEventRecord =
  ce_eventId :: string
  ce_ledger :: int
  ce_contractId :: string
  ce_topic :: string
  ce_txHash :: string
  ce_txIndex :: int
  ce_operationIndex :: int
  ce_eventIndex :: int
  ce_payload :: "(string \<times> dbval) list"
  ce_happenedAt :: string
  ce_ledgerHash :: string
  ce_ingestedAt :: "string option"

record InsertContractEventsResult =
  insertedEventIds :: "string list"
  duplicateEventIds :: "string list"

record ReorgRecord =
  ro_forkLedger :: int
  ro_evictedHash :: string
  ro_incomingHash :: string
  ro_removedEventIds :: "string list"
  ro_rolledBackAt :: string

datatype CheckpointStatus = In_progress_checkpoint | Completed_checkpoint

record ReplayProgressCheckpoint =
  cp_cursorId :: string
  cp_total :: int
  cp_lastCommittedOffset :: int
  cp_status :: CheckpointStatus
  cp_updatedAt :: "string option"

record StreamEventReplayFilter =
  f_fromLedger :: "int option"
  f_toledger :: "int option"
  f_contractId :: "string option"
  f_topic :: "string option"
  f_limit :: "nat option"
  f_offset :: "nat option"
  f_fromHappenedAt :: "string option"
  f_toHappenedAt :: "string option"
  f_afterEventId :: "string option"

record StreamEventReplayResult =
  res_events :: "ContractEventRecord list"
  res_total :: nat
  res_limit :: nat
  res_offset :: nat
  res_nextCursor :: "string option"

datatype StoreError = StaleCursorError string | MonotonicityViolation int int

record InMemoryContractEventStore =
  es_records :: "(string, ContractEventRecord) jsmap"
  es_reorgLog :: "ReorgRecord list"
  es_checkpoints :: "(string, ReplayProgressCheckpoint) jsmap"

definition new_event_store :: InMemoryContractEventStore where
  "new_event_store = \<lparr>es_records = [], es_reorgLog = [], es_checkpoints = []\<rparr>"

section \<open>Operations of the in-memory store\<close>

text \<open>The staging loop of \<open>insertMany\<close>.\<close>

fun stage_events ::
  "(string, ContractEventRecord) jsmap \<Rightarrow> string \<Rightarrow> ContractEventRecord list \<Rightarrow> (string, ContractEventRecord) jsmap \<Rightarrow>
   InsertContractEventsResult \<Rightarrow> (string, ContractEventRecord) jsmap \<times> InsertContractEventsResult" where
  "stage_events records stamp [] staged r = (staged, r)"
| "stage_events records stamp (event # events) staged r =
     (if map_get records (ce_eventId event) \<noteq> None \<or> map_get staged (ce_eventId event) \<noteq> None
      then stage_events records stamp events staged (r\<lparr>duplicateEventIds := duplicateEventIds r @ [ce_eventId event]\<rparr>)
      else stage_events records stamp events
             (map_set (ce_eventId event) (event\<lparr>ce_ingestedAt := Some stamp\<rparr>) staged)
             (r\<lparr>insertedEventIds := insertedEventIds r @ [ce_eventId event]\<rparr>))"

definition insertMany ::
  "ContractEventRecord list \<Rightarrow> string \<Rightarrow> InMemoryContractEventStore \<Rightarrow> InsertContractEventsResult \<times> InMemoryContractEventStore" where
  "insertMany events stamp s =
     (let (staged, r) = stage_events (es_records s) stamp events [] \<lparr>insertedEventIds = [], duplicateEventIds = []\<rparr>
      in (r, s\<lparr>es_records := foldl (\<lambda>m (i, e). map_set i e m) (es_records s) staged\<rparr>))"

definition rollbackBeforeLedger :: "int \<Rightarrow> string \<Rightarrow> InMemoryContractEventStore \<Rightarrow> InMemoryContractEventStore" where
  "rollbackBeforeLedger forkLedger stamp s =
     (let evictedHash = (case find (\<lambda>r. ce_ledger r = forkLedger) (map_values (es_records s)) of
            None \<Rightarrow> [] | Some r \<Rightarrow> ce_ledgerHash r);
          removedEventIds = map_keys (filter (\<lambda>(i, r). forkLedger \<le> ce_ledger r) (es_records s));
          s1 = s\<lparr>es_records := filter (\<lambda>(i, r). \<not> forkLedger \<le> ce_ledger r) (es_records s)\<rparr>
      in if removedEventIds \<noteq> [] \<or> evictedHash \<noteq> []
         then s1\<lparr>es_reorgLog := es_reorgLog s1 @
                [\<lparr>ro_forkLedger = forkLedger, ro_evictedHash = evictedHash, ro_incomingHash = [],
                  ro_removedEventIds = removedEventIds, ro_rolledBackAt = stamp\<rparr>]\<rparr>
         else s1)"

definition getLedgerHash :: "int \<Rightarrow> InMemoryContractEventStore \<Rightarrow> string option" where
  "getLedgerHash ledger s =
     map_option ce_ledgerHash (find (\<lambda>r. ce_ledger r = ledger) (map_values (es_records s)))"

text \<open>\<open>findIndex\<close> of the cursor and \<open>slice(idx + 1)\<close>; \<open>None\<close> when there is no such event.\<close>

fun after_event :: "string \<Rightarrow> ContractEventRecord list \<Rightarrow> ContractEventRecord list option" where
  "after_event i [] = None"
| "after_event i (r # rs) = (if ce_eventId r = i then Some rs else after_event i rs)"

definition event_order :: "(string \<Rightarrow> string) \<Rightarrow> ContractEventRecord \<Rightarrow> int \<times> string" where
  "event_order coll r = (ce_ledger r, coll (ce_eventId r))"

text \<open>The six filters, applied one after the other. A comparison with an invalid date is false.\<close>

definition opt_filter :: "'a option \<Rightarrow> ('a \<Rightarrow> 'b \<Rightarrow> bool) \<Rightarrow> 'b list \<Rightarrow> 'b list" where
  "opt_filter x P rs = (case x of None \<Rightarrow> rs | Some a \<Rightarrow> filter (P a) rs)"

definition date_le :: "(string \<Rightarrow> millis option) \<Rightarrow> string \<Rightarrow> string \<Rightarrow> bool" where
  "date_le pd a b = (case (pd a, pd b) of (Some x, Some y) \<Rightarrow> x \<le> y | _ \<Rightarrow> False)"

definition apply_filters ::
  "(string \<Rightarrow> millis option) \<Rightarrow> StreamEventReplayFilter \<Rightarrow> ContractEventRecord list \<Rightarrow> ContractEventRecord list" where
  "apply_filters pd flt rs =
     opt_filter (f_toHappenedAt flt) (\<lambda>t r. date_le pd (ce_happenedAt r) t)
       (opt_filter (f_fromHappenedAt flt) (\<lambda>t r. date_le pd t (ce_happenedAt r))
         (opt_filter (f_topic flt) (\<lambda>t r. ce_topic r = t)
           (opt_filter (f_contractId flt) (\<lambda>c r. ce_contractId r = c)
             (opt_filter (f_toledger flt) (\<lambda>l r. ce_ledger r \<le> l)
               (opt_filter (f_fromLedger flt) (\<lambda>l r. l \<le> ce_ledger r) rs)))))"

definition getEvents ::
  "(string \<Rightarrow> string) \<Rightarrow> (string \<Rightarrow> millis option) \<Rightarrow> string \<Rightarrow> StreamEventReplayFilter \<Rightarrow> InMemoryContractEventStore \<Rightarrow>
   StoreError + StreamEventReplayResult" where
  "getEvents coll pd stamp flt s =
     (let limit = min (nullish (f_limit flt) 100) 1000;
          offset = nullish (f_offset flt) 0;
          sorted_records = sort_key (event_order coll) (map_values (es_records s));
          cursored = (case f_afterEventId flt of
              None \<Rightarrow> Some sorted_records
            | Some i \<Rightarrow> after_event i sorted_records)
      in case cursored of
           None \<Rightarrow> Inl (StaleCursorError (nullish (f_afterEventId flt) []))
         | Some rs \<Rightarrow>
             let results = apply_filters pd flt rs;
                 total = length results;
                 slice = (if f_afterEventId flt \<noteq> None then js_slice 0 limit results
                          else js_slice offset (offset + limit) results);
                 events = map (\<lambda>r. r\<lparr>ce_ingestedAt := Some (nullish (ce_ingestedAt r) stamp)\<rparr>) slice;
                 nextCursor = (if length events = limit \<and> limit < total \<and> events \<noteq> []
                               then Some (ce_eventId (last events)) else None)
             in Inr \<lparr>res_events = events, res_total = total, res_limit = limit,
                     res_offset = (if f_afterEventId flt \<noteq> None then 0 else offset),
                     res_nextCursor = nextCursor\<rparr>)"

definition saveCheckpoint ::
  "ReplayProgressCheckpoint \<Rightarrow> string \<Rightarrow> InMemoryContractEventStore \<Rightarrow> StoreError + InMemoryContractEventStore" where
  "saveCheckpoint checkpoint stamp s =
     (let existing = map_get (es_checkpoints s) (cp_cursorId checkpoint)
      in case existing of
           Some e \<Rightarrow>
             if cp_lastCommittedOffset checkpoint < cp_lastCommittedOffset e
             then Inl (MonotonicityViolation (cp_lastCommittedOffset e) (cp_lastCommittedOffset checkpoint))
             else Inr (s\<lparr>es_checkpoints := map_set (cp_cursorId checkpoint)
                    (checkpoint\<lparr>cp_lastCommittedOffset := max (cp_lastCommittedOffset e) (cp_lastCommittedOffset checkpoint),
                                cp_updatedAt := Some stamp\<rparr>) (es_checkpoints s)\<rparr>)
         | None \<Rightarrow> Inr (s\<lparr>es_checkpoints := map_set (cp_cursorId checkpoint)
                    (checkpoint\<lparr>cp_updatedAt := Some stamp\<rparr>) (es_checkpoints s)\<rparr>))"

definition getCheckpoint :: "string \<Rightarrow> InMemoryContractEventStore \<Rightarrow> ReplayProgressCheckpoint option" where
  "getCheckpoint cursorId s = map_get (es_checkpoints s) cursorId"

definition es_reset :: "InMemoryContractEventStore \<Rightarrow> InMemoryContractEventStore" where
  "es_reset s = new_event_store"

definition es_all :: "(string \<Rightarrow> string) \<Rightarrow> InMemoryContractEventStore \<Rightarrow> ContractEventRecord list" where
  "es_all coll s = sort_key (\<lambda>r. coll (ce_eventId r)) (map_values (es_records s))"

definition byLedger :: "int \<Rightarrow> InMemoryContractEventStore \<Rightarrow> ContractEventRecord list" where
  "byLedger ledger s = sort_key ce_eventIndex (filter (\<lambda>r. ce_ledger r = ledger) (map_values (es_records s)))"

definition ledgerCount :: "InMemoryContractEventStore \<Rightarrow> nat" where
  "ledgerCount s = length (remdups (map ce_ledger (map_values (es_records s))))"

definition tipLedger :: "InMemoryContractEventStore \<Rightarrow> int option" where
  "tipLedger s = foldl (\<lambda>tip r. case tip of None \<Rightarrow> Some (ce_ledger r)
      | Some t \<Rightarrow> if t < ce_ledger r then Some (ce_ledger r) else Some t) None (map_values (es_records s))"

section \<open>Rows of the Postgres store\<close>

text \<open>The row the \<open>INSERT\<close> of \<open>PostgresContractEventStore.insertMany\<close> writes: its column list against its
  \<open>VALUES\<close> list, with the positional parameters replaced by the values bound to them.\<close>

definition pg_insert_params :: "ContractEventRecord \<Rightarrow> dbval list" where
  "pg_insert_params event =
     [DString (ce_eventId event), DNumber (Finite (of_int (ce_ledger event))), DString (ce_ledgerHash event),
      DString (ce_contractId event), DString (ce_topic event), DNumber (Finite (of_int (ce_txIndex event))),
      DNumber (Finite (of_int (ce_operationIndex event))), DNumber (Finite (of_int (ce_eventIndex event))),
      DObject (ce_payload event), DString (ce_happenedAt event),
      (case ce_ingestedAt event of None \<Rightarrow> DNull | Some t \<Rightarrow> DString t)]"

definition pg_insert_row :: "ContractEventRecord \<Rightarrow> dbval \<Rightarrow> row" where
  "pg_insert_row event now =
     (let p = pg_insert_params event
      in zip [''event_id'', ''ledger'', ''ledger_hash'', ''contract_id'', ''topic'', ''tx_hash'', ''tx_index'',
              ''operation_index'', ''event_index'', ''payload'', ''happened_at'', ''ingested_at'']
             (map (\<lambda>n. p ! (n - 1)) [1, 2, 3, 4, 5, 4, 6, 7, 8, 9, 10] @
              [if p ! 10 = DNull then now else p ! 10]))"

record StreamEventRecord =
  se_eventId :: string
  se_ledger :: int
  se_ledgerHash :: "string option"
  se_contractId :: string
  se_topic :: string
  se_txHash :: string
  se_txIndex :: int
  se_operationIndex :: int
  se_eventIndex :: int
  se_payload :: "(string \<times> dbval) list"
  se_happenedAt :: millis
  se_ingestedAt :: millis

definition min0 :: IntegerBounds where
  "min0 = \<lparr>ib_min = Some 0, ib_max = None\<rparr>"

text \<open>The columns are read in the order of the object literal; the first failure is thrown. Instants are kept
  as such instead of as ISO-8601 texts.\<close>

definition bind_sum :: "'e + 'a \<Rightarrow> ('a \<Rightarrow> 'e + 'b) \<Rightarrow> 'e + 'b" where
  "bind_sum x f = (case x of Inl e \<Rightarrow> Inl e | Inr a \<Rightarrow> f a)"

definition rowToStreamEventRecord ::
  "(string \<Rightarrow> millis option) \<Rightarrow> row \<Rightarrow> string \<Rightarrow> RowMappingError + StreamEventRecord" where
  "rowToStreamEventRecord pd row table =
     bind_sum (requireString table row ''vent_id'' False) (\<lambda>eventId.
     bind_sum (requireInt table row ''ledger'' min0) (\<lambda>ledger.
     bind_sum (optionalString table row ''vent_id'' False) (\<lambda>ledgerHash.
     bind_sum (requireString table row ''contract_id'' False) (\<lambda>contractId.
     bind_sum (requireString table row ''topic'' False) (\<lambda>topic.
     bind_sum (requireString table row ''tx_hash'' False) (\<lambda>txHash.
     bind_sum (requireInt table row ''tx_index'' min0) (\<lambda>txIndex.
     bind_sum (requireInt table row ''operation_index'' min0) (\<lambda>operationIndex.
     bind_sum (requireInt table row ''event_index'' min0) (\<lambda>eventIndex.
     bind_sum (requireJsonObject table row ''payload'') (\<lambda>payload.
     bind_sum (requireDate pd table row ''happened_at'') (\<lambda>happenedAt.
     bind_sum (requireDate pd table row ''ingested_at'') (\<lambda>ingestedAt.
     Inr \<lparr>se_eventId = eventId, se_ledger = ledger, se_ledgerHash = ledgerHash, se_contractId = contractId,
          se_topic = topic, se_txHash = txHash, se_txIndex = txIndex, se_operationIndex = operationIndex,
          se_eventIndex = eventIndex, se_payload = payload, se_happenedAt = happenedAt,
          se_ingestedAt = ingestedAt\<rparr>))))))))))))"

section \<open>Insertion\<close>

text \<open>The specification of insertion: one event at a time, an event whose identifier is taken is dropped.\<close>

definition insert_event ::
  "string \<Rightarrow> (string, ContractEventRecord) jsmap \<Rightarrow> ContractEventRecord \<Rightarrow> (string, ContractEventRecord) jsmap" where
  "insert_event stamp m e =
     (if map_get m (ce_eventId e) = None then m @ [(ce_eventId e, e\<lparr>ce_ingestedAt := Some stamp\<rparr>)] else m)"

lemma map_set_new: "map_get m k = None \<Longrightarrow> map_set k v m = m @ [(k, v)]"
  by (induction m) (auto split: if_splits)

lemma map_set_all:
  "map_wf (m @ n) \<Longrightarrow> foldl (\<lambda>m (i, e). map_set i e m) m n = m @ n"
proof (induction n arbitrary: m)
  case (Cons p n)
  obtain i e where p: "p = (i, e)" by (cases p)
  have "map_get m i = None" using Cons.prems by (auto simp: p map_wf_def map_of_eq_None_iff)
  then have "map_set i e m = m @ [p]" by (simp add: map_set_new p)
  then show ?case using Cons.IH [of "m @ [p]"] Cons.prems by (simp add: p)
qed simp

lemma map_get_append_None: "map_get (m @ n) k = None \<longleftrightarrow> map_get m k = None \<and> map_get n k = None"
  by (auto simp: map_add_def split: option.splits)

lemma insert_event_wf: "map_wf m \<Longrightarrow> map_wf (insert_event stamp m e)"
  by (auto simp: insert_event_def map_wf_def map_of_eq_None_iff)

lemma insert_events_wf: "map_wf m \<Longrightarrow> map_wf (foldl (insert_event stamp) m es)"
  by (induction es arbitrary: m) (simp_all add: insert_event_wf)

lemma stage_events_spec:
  "map_wf (m @ staged) \<Longrightarrow>
   m @ fst (stage_events m stamp es staged r) = foldl (insert_event stamp) (m @ staged) es"
proof (induction es arbitrary: staged r)
  case (Cons e es)
  show ?case
  proof (cases "map_get (m @ staged) (ce_eventId e) = None")
    case True
    then have g: "map_get m (ce_eventId e) = None" "map_get staged (ce_eventId e) = None"
      by (simp_all only: map_get_append_None)
    have eq: "insert_event stamp (m @ staged) e =
        m @ map_set (ce_eventId e) (e\<lparr>ce_ingestedAt := Some stamp\<rparr>) staged"
      using True by (simp add: insert_event_def map_set_new [OF g(2)])
    have "map_wf (m @ map_set (ce_eventId e) (e\<lparr>ce_ingestedAt := Some stamp\<rparr>) staged)"
      using insert_event_wf [OF Cons.prems, of stamp e] by (simp only: eq)
    from Cons.IH [OF this] show ?thesis using g by (simp only: stage_events.simps foldl_Cons eq) simp
  next
    case False
    then have "insert_event stamp (m @ staged) e = m @ staged" by (simp add: insert_event_def)
    moreover have "map_get m (ce_eventId e) \<noteq> None \<or> map_get staged (ce_eventId e) \<noteq> None"
      using False by (simp only: map_get_append_None de_Morgan_conj)
    ultimately show ?thesis using Cons.IH [OF Cons.prems] by (simp only: stage_events.simps foldl_Cons if_True)
  qed
qed simp

lemma insertMany_records:
  assumes "map_wf (es_records s)"
  shows "es_records (snd (insertMany es stamp s)) = foldl (insert_event stamp) (es_records s) es"
proof -
  have e: "es_records s @ fst (stage_events (es_records s) stamp es [] r) = foldl (insert_event stamp) (es_records s) es" for r
    using stage_events_spec [of "es_records s" "[]" stamp es r] assms by simp
  then have "map_wf (es_records s @ fst (stage_events (es_records s) stamp es [] r))" for r
    using insert_events_wf [OF assms] by metis
  then show ?thesis by (simp add: insertMany_def split_beta Let_def map_set_all e)
qed

lemma stage_events_known:
  "(\<And>e. e \<in> set es \<Longrightarrow> map_get m (ce_eventId e) \<noteq> None) \<Longrightarrow>
   stage_events m stamp es staged r = (staged, r\<lparr>duplicateEventIds := duplicateEventIds r @ map ce_eventId es\<rparr>)"
  by (induction es arbitrary: r) (auto simp: not_None_eq [symmetric] simp del: not_None_eq)

lemma insert_events_keep: "map_get m i = Some x \<Longrightarrow> map_get (foldl (insert_event stamp) m es) i = Some x"
  by (induction es arbitrary: m) (auto simp: insert_event_def map_add_def split: option.splits)

lemma insert_events_has: "e \<in> set es \<Longrightarrow> map_get (foldl (insert_event stamp) m es) (ce_eventId e) \<noteq> None"
proof (induction es arbitrary: m)
  case (Cons a es)
  show ?case
  proof (cases "e = a")
    case True
    have "map_get (insert_event stamp m a) (ce_eventId a) \<noteq> None"
      by (simp add: insert_event_def map_get_append_None del: not_None_eq)
    then show ?thesis using insert_events_keep [of "insert_event stamp m a" "ce_eventId a" _ stamp es] True by auto
  next
    case False
    then show ?thesis using Cons by simp
  qed
qed simp

text \<open>(C15) Ingestion is idempotent. Inserting a batch changes no event already stored and makes every event of the
  batch known; replaying any batch of known events, in any order and however often it repeats them, inserts
  nothing, reports each of them as a duplicate and leaves the store as it was.\<close>

theorem ingest_idempotent:
  assumes "map_wf (es_records s)" "set es' \<subseteq> set es"
  shows "(\<forall>i r. map_get (es_records s) i = Some r \<longrightarrow> map_get (es_records (snd (insertMany es stamp s))) i = Some r) \<and>
    insertMany es' stamp' (snd (insertMany es stamp s)) =
      (\<lparr>insertedEventIds = [], duplicateEventIds = map ce_eventId es'\<rparr>, snd (insertMany es stamp s))"
proof
  note r = insertMany_records [OF assms(1), of es stamp]
  show "\<forall>i r. map_get (es_records s) i = Some r \<longrightarrow> map_get (es_records (snd (insertMany es stamp s))) i = Some r"
    by (simp add: r insert_events_keep)
  have "map_get (es_records (snd (insertMany es stamp s))) (ce_eventId e) \<noteq> None" if "e \<in> set es'" for e
    using that assms(2) insert_events_has [of e es] r by auto
  from stage_events_known [OF this] show "insertMany es' stamp' (snd (insertMany es stamp s)) =
      (\<lparr>insertedEventIds = [], duplicateEventIds = map ce_eventId es'\<rparr>, snd (insertMany es stamp s))"
    by (simp add: insertMany_def [of es'] Let_def)
qed

definition demo_event :: "string \<Rightarrow> int \<Rightarrow> ContractEventRecord" where
  "demo_event i l = \<lparr>ce_eventId = i, ce_ledger = l, ce_contractId = ''C'', ce_topic = ''stream.created'', ce_txHash = ''T'',
     ce_txIndex = 0, ce_operationIndex = 0, ce_eventIndex = 0, ce_payload = [], ce_happenedAt = ''h'', ce_ledgerHash = ''H'',
     ce_ingestedAt = None\<rparr>"

theorem ingest_idempotent_witness:
  "insertMany [demo_event ''b'' 2, demo_event ''b'' 2] ''u'' (snd (insertMany [demo_event ''a'' 1, demo_event ''b'' 2] ''t'' new_event_store)) =
    (\<lparr>insertedEventIds = [], duplicateEventIds = [''b'', ''b'']\<rparr>,
     snd (insertMany [demo_event ''a'' 1, demo_event ''b'' 2] ''t'' new_event_store))"
  using ingest_idempotent [of new_event_store "[demo_event ''b'' 2, demo_event ''b'' 2]" "[demo_event ''a'' 1, demo_event ''b'' 2]" "''t''" "''u''"]
  by (simp add: new_event_store_def demo_event_def)

section \<open>Runs of the store\<close>

datatype es_op =
    Op_insert "ContractEventRecord list" string
  | Op_rollback int string
  | Op_checkpoint ReplayProgressCheckpoint string

primrec es_step :: "InMemoryContractEventStore \<Rightarrow> es_op \<Rightarrow> InMemoryContractEventStore" where
  "es_step s (Op_insert es stamp) = snd (insertMany es stamp s)"
| "es_step s (Op_rollback l stamp) = rollbackBeforeLedger l stamp s"
| "es_step s (Op_checkpoint cp stamp) = (case saveCheckpoint cp stamp s of Inl e \<Rightarrow> s | Inr s' \<Rightarrow> s')"

text \<open>Every record is filed once, under its own identifier, with the time it was ingested.\<close>

definition filed :: "string \<times> ContractEventRecord \<Rightarrow> bool" where
  "filed p \<longleftrightarrow> ce_eventId (snd p) = fst p \<and> ce_ingestedAt (snd p) \<noteq> None"

definition es_inv :: "InMemoryContractEventStore \<Rightarrow> bool" where
  "es_inv s \<longleftrightarrow> map_wf (es_records s) \<and> (\<forall>p \<in> set (es_records s). filed p)"

lemma insert_event_filed:
  "\<forall>p \<in> set m. filed p \<Longrightarrow> \<forall>p \<in> set (foldl (insert_event stamp) m es). filed p"
proof (induction es arbitrary: m)
  case (Cons e es)
  have "\<forall>p \<in> set (insert_event stamp m e). filed p"
    using Cons.prems by (auto simp: insert_event_def filed_def)
  from Cons.IH [OF this] show ?case by simp
qed simp

lemma rollback_records:
  "es_records (rollbackBeforeLedger l stamp s) = filter (\<lambda>(i, r). ce_ledger r < l) (es_records s)"
  by (simp add: rollbackBeforeLedger_def Let_def not_le)

lemma es_step_inv: "es_inv s \<Longrightarrow> es_inv (es_step s x)"
proof (cases x)
  case (Op_insert es stamp)
  assume inv: "es_inv s"
  then have "map_wf (es_records s)" by (simp add: es_inv_def)
  with inv show ?thesis
    using insert_event_filed [of "es_records s" stamp es]
    by (simp add: es_inv_def Op_insert insertMany_records insert_events_wf)
next
  case (Op_rollback l stamp)
  assume "es_inv s"
  then show ?thesis by (auto simp: es_inv_def Op_rollback rollback_records map_wf_def distinct_map_filter)
next
  case (Op_checkpoint cp stamp)
  assume "es_inv s"
  then show ?thesis by (auto simp: es_inv_def Op_checkpoint saveCheckpoint_def Let_def split: sum.splits option.splits if_splits)
qed

interpretation es_run: op_invariant es_step es_inv
  by unfold_locales (rule es_step_inv)

lemma es_inv_new: "es_inv new_event_store"
  by (simp add: es_inv_def new_event_store_def)

lemma es_records_distinct:
  assumes "es_inv s"
  shows "distinct (map ce_eventId (map_values (es_records s)))"
proof -
  have "map ce_eventId (map_values (es_records s)) = map_keys (es_records s)"
    using assms by (auto simp: es_inv_def filed_def)
  then show ?thesis using assms unfolding es_inv_def map_wf_def by argo
qed

text \<open>(C28) A rollback is exact. After rolling back from a fork ledger on, the store has exactly the events of the
  earlier ledgers, unchanged, no hash for any ledger from the fork on, and if anything was removed the log
  ends with a record naming exactly the removed events; the removed events can be inserted again.\<close>

theorem rollback_exact:
  assumes "es_inv s" "s' = rollbackBeforeLedger l stamp s" "map_get (es_records s) (ce_eventId e) = Some r" "l \<le> ce_ledger r"
  shows "(\<forall>i. map_get (es_records s') i =
       (case map_get (es_records s) i of Some x \<Rightarrow> if ce_ledger x < l then Some x else None | None \<Rightarrow> None)) \<and>
    (\<forall>k \<ge> l. getLedgerHash k s' = None) \<and>
    (\<forall>i. i \<in> set (ro_removedEventIds (last (es_reorgLog s'))) \<longleftrightarrow>
       (\<exists>x. map_get (es_records s) i = Some x \<and> l \<le> ce_ledger x)) \<and>
    insertedEventIds (fst (insertMany [e] stamp' s')) = [ce_eventId e]"
proof -
  have wf: "map_wf (es_records s)" using assms(1) by (simp add: es_inv_def)
  have rec: "es_records s' = filter (\<lambda>(i, r). ce_ledger r < l) (es_records s)" by (simp add: assms(2) rollback_records)
  have wf': "map_wf (es_records s')" using wf by (simp add: rec map_wf_def distinct_map_filter)
  have get: "map_get (es_records s') i = Some x \<longleftrightarrow> map_get (es_records s) i = Some x \<and> ce_ledger x < l" for i x
  proof -
    have "(i, x) \<in> set (es_records s') \<longleftrightarrow> (i, x) \<in> set (es_records s) \<and> ce_ledger x < l" by (simp add: rec)
    then show ?thesis by (simp only: map_get_mem [OF wf] map_get_mem [OF wf'])
  qed
  have g: "map_get (es_records s') i =
       (case map_get (es_records s) i of Some x \<Rightarrow> if ce_ledger x < l then Some x else None | None \<Rightarrow> None)" for i
  proof (cases "map_get (es_records s') i")
    case (Some x)
    then show ?thesis using get [of i x] by simp
  next
    case None
    show ?thesis
    proof (cases "map_get (es_records s) i")
      case (Some x)
      then show ?thesis using get [of i x] None by simp
    qed (simp only: None option.case)
  qed
  have "find (\<lambda>r. ce_ledger r = k) (map_values (es_records s')) = None" if "l \<le> k" for k
    using that by (auto simp: find_None_iff rec)
  then have h: "\<forall>k \<ge> l. getLedgerHash k s' = None" by (simp add: getLedgerHash_def)
  have "(ce_eventId e, r) \<in> set (es_records s)" using assms(3) by (rule map_of_SomeD)
  then have ne: "map_keys (filter (\<lambda>(i, r). l \<le> ce_ledger r) (es_records s)) \<noteq> []"
    using assms(4) by (auto simp: filter_empty_conv)
  have log: "ro_removedEventIds (last (es_reorgLog s')) = map_keys (filter (\<lambda>(i, r). l \<le> ce_ledger r) (es_records s))"
    using ne unfolding assms(2) rollbackBeforeLedger_def Let_def by simp
  have "i \<in> set (ro_removedEventIds (last (es_reorgLog s'))) \<longleftrightarrow>
       (\<exists>x. map_get (es_records s) i = Some x \<and> l \<le> ce_ledger x)" for i
    unfolding log map_get_mem [OF wf, symmetric] by force
  moreover have "insertedEventIds (fst (insertMany [e] stamp' s')) = [ce_eventId e]"
    using g [of "ce_eventId e"] assms(3,4) by (simp add: insertMany_def Let_def)
  ultimately show ?thesis using g h by blast
qed

definition demo_events :: InMemoryContractEventStore where
  "demo_events = es_step new_event_store (Op_insert [demo_event ''b'' 2, demo_event ''a'' 1, demo_event ''c'' 2] ''t'')"

lemma demo_events_inv: "es_inv demo_events"
  unfolding demo_events_def by (rule es_step_inv [OF es_inv_new])

theorem rollback_exact_witness:
  "getLedgerHash 2 (rollbackBeforeLedger 2 ''t'' demo_events) = None \<and>
   insertedEventIds (fst (insertMany [demo_event ''b'' 2] ''u'' (rollbackBeforeLedger 2 ''t'' demo_events))) = [''b'']"
proof -
  have "map_option ce_ledger (map_get (es_records demo_events) (ce_eventId (demo_event ''b'' 2))) = Some 2" by code_simp
  then obtain r where r: "map_get (es_records demo_events) (ce_eventId (demo_event ''b'' 2)) = Some r" "2 \<le> ce_ledger r" by auto
  have "ce_eventId (demo_event ''b'' 2) = ''b''" by (simp add: demo_event_def)
  then show ?thesis using rollback_exact [OF demo_events_inv refl r, of "''t''" "''u''"] by auto
qed

section \<open>Paging through events\<close>

text \<open>The events a filter selects, cursor and paging aside, as \<open>getEvents\<close> delivers them.\<close>

definition matches :: "(string \<Rightarrow> millis option) \<Rightarrow> StreamEventReplayFilter \<Rightarrow> ContractEventRecord \<Rightarrow> bool" where
  "matches pd flt r \<longleftrightarrow>
     (case f_fromLedger flt of None \<Rightarrow> True | Some l \<Rightarrow> l \<le> ce_ledger r) \<and>
     (case f_toledger flt of None \<Rightarrow> True | Some l \<Rightarrow> ce_ledger r \<le> l) \<and>
     (case f_contractId flt of None \<Rightarrow> True | Some c \<Rightarrow> ce_contractId r = c) \<and>
     (case f_topic flt of None \<Rightarrow> True | Some t \<Rightarrow> ce_topic r = t) \<and>
     (case f_fromHappenedAt flt of None \<Rightarrow> True | Some t \<Rightarrow> date_le pd t (ce_happenedAt r)) \<and>
     (case f_toHappenedAt flt of None \<Rightarrow> True | Some t \<Rightarrow> date_le pd (ce_happenedAt r) t)"

lemma opt_filter_filter:
  "opt_filter x P rs = filter (\<lambda>r. case x of None \<Rightarrow> True | Some a \<Rightarrow> P a r) rs"
  by (cases x) (simp_all add: opt_filter_def)

lemma apply_filters_filter: "apply_filters pd flt rs = filter (matches pd flt) rs"
  unfolding apply_filters_def opt_filter_filter filter_filter matches_def by (rule filter_cong) auto

text \<open>Following the cursors, for at most so many pages.\<close>

fun follow ::
  "(string \<Rightarrow> string) \<Rightarrow> (string \<Rightarrow> millis option) \<Rightarrow> string \<Rightarrow> nat \<Rightarrow> StreamEventReplayFilter \<Rightarrow> InMemoryContractEventStore \<Rightarrow>
   ContractEventRecord list option" where
  "follow coll pd stamp 0 flt s = None"
| "follow coll pd stamp (Suc n) flt s =
     (case getEvents coll pd stamp flt s of
        Inl e \<Rightarrow> None
      | Inr res \<Rightarrow>
          (case res_nextCursor res of
             None \<Rightarrow> Some (res_events res)
           | Some c \<Rightarrow> map_option (\<lambda>es. res_events res @ es) (follow coll pd stamp n (flt\<lparr>f_afterEventId := Some c\<rparr>) s)))"

lemma after_event_append:
  "ce_eventId x \<notin> ce_eventId ` set as \<Longrightarrow> after_event (ce_eventId x) (as @ x # bs) = Some bs"
  by (induction as) auto

lemma filter_eq_append_Cons:
  "filter P zs = us @ x # vs \<Longrightarrow> \<exists>as bs. zs = as @ x # bs \<and> filter P as = us \<and> filter P bs = vs"
proof (induction zs arbitrary: us)
  case (Cons z zs)
  show ?case
  proof (cases "P z \<and> us = []")
    case True
    then show ?thesis using Cons.prems by (intro exI [of _ "[]"] exI [of _ zs]) auto
  next
    case False
    define us' where "us' = (if P z then tl us else us)"
    have "filter P zs = us' @ x # vs" using Cons.prems False by (cases us) (auto simp: us'_def split: if_splits)
    from Cons.IH [OF this] obtain as bs where ab: "zs = as @ x # bs" "filter P as = us'" "filter P bs = vs" by blast
    have "filter P (z # as) = us" using ab(2) Cons.prems False by (cases us) (auto simp: us'_def split: if_splits)
    with ab show ?thesis by (intro exI [of _ "z # as"] exI [of _ bs]) simp
  qed
qed simp

text \<open>The rest after the last event of a page, in a list without repetitions.\<close>

lemma after_page:
  assumes "distinct (map ce_eventId base)" "base = ys @ zs" "filter P zs = us @ x # vs"
  shows "\<exists>ws bs. after_event (ce_eventId x) base = Some bs \<and> filter P bs = vs \<and> base = ws @ bs"
proof -
  obtain as bs where z: "zs = as @ x # bs" "filter P bs = vs" using filter_eq_append_Cons [OF assms(3)] by blast
  have "ce_eventId x \<notin> ce_eventId ` set (ys @ as)" using assms(1) by (auto simp: assms(2) z(1))
  then have "after_event (ce_eventId x) base = Some bs"
    using after_event_append [of x "ys @ as" bs] by (simp add: assms(2) z(1))
  moreover have "base = (ys @ as @ [x]) @ bs" by (simp add: assms(2) z(1))
  ultimately show ?thesis using z(2) by blast
qed

abbreviation ordered_events :: "(string \<Rightarrow> string) \<Rightarrow> InMemoryContractEventStore \<Rightarrow> ContractEventRecord list" where
  "ordered_events coll s \<equiv> sort_key (event_order coll) (map_values (es_records s))"

definition page_limit :: "StreamEventReplayFilter \<Rightarrow> nat" where
  "page_limit flt = min (nullish (f_limit flt) 100) 1000"

lemma cursor_ignored [simp]:
  "matches pd (flt\<lparr>f_afterEventId := c\<rparr>) = matches pd flt" "page_limit (flt\<lparr>f_afterEventId := c\<rparr>) = page_limit flt"
  by (simp_all add: matches_def page_limit_def fun_eq_iff)

lemma stamped: "r \<in> snd ` set (es_records s) \<Longrightarrow> es_inv s \<Longrightarrow> r\<lparr>ce_ingestedAt := Some (nullish (ce_ingestedAt r) stamp)\<rparr> = r"
  by (cases "ce_ingestedAt r") (auto simp: es_inv_def filed_def)

lemma getEvents_page:
  assumes "es_inv s" "(case f_afterEventId flt of None \<Rightarrow> Some (ordered_events coll s) | Some i \<Rightarrow> after_event i (ordered_events coll s)) = Some rest"
    and "ordered_events coll s = ws @ rest" "f_afterEventId flt = None \<Longrightarrow> nullish (f_offset flt) 0 = 0"
    and m: "m = filter (matches pd flt) rest"
  shows "\<exists>res. getEvents coll pd stamp flt s = Inr res \<and> res_events res = take (page_limit flt) m \<and> res_total res = length m \<and>
     res_nextCursor res = (if 0 < page_limit flt \<and> page_limit flt < length m
        then Some (ce_eventId (m ! (page_limit flt - 1))) else None)"
proof -
  let ?n = "page_limit flt"
  have "set (ordered_events coll s) = snd ` set (es_records s)" by simp
  then have sub: "set rest \<subseteq> snd ` set (es_records s)" unfolding assms(3) by auto
  have "r\<lparr>ce_ingestedAt := Some (nullish (ce_ingestedAt r) stamp)\<rparr> = r" if "r \<in> set (take ?n m)" for r
  proof -
    have "r \<in> set rest" using in_set_takeD [OF that] by (simp add: m)
    then show ?thesis using sub by (intro stamped [OF _ assms(1)]) blast
  qed
  then have st: "map (\<lambda>r. r\<lparr>ce_ingestedAt := Some (nullish (ce_ingestedAt r) stamp)\<rparr>) (take ?n m) = take ?n m"
    by (simp add: map_idI)
  have sl: "(if f_afterEventId flt \<noteq> None then js_slice 0 ?n m
      else js_slice (nullish (f_offset flt) 0) (nullish (f_offset flt) 0 + ?n) m) = take ?n m"
    using assms(4) by (auto simp: js_slice_def)
  have last: "last (take ?n m) = m ! (?n - 1)" if "0 < ?n" "?n < length m"
    using that by (subst last_conv_nth) (auto simp: min_def)
  have "getEvents coll pd stamp flt s = Inr \<lparr>res_events = take ?n m, res_total = length m, res_limit = ?n,
      res_offset = (if f_afterEventId flt \<noteq> None then 0 else nullish (f_offset flt) 0),
      res_nextCursor = (if length (take ?n m) = ?n \<and> ?n < length m \<and> take ?n m \<noteq> []
         then Some (ce_eventId (last (take ?n m))) else None)\<rparr>"
    by (simp only: getEvents_def Let_def assms(2) option.case apply_filters_filter m [symmetric]
        page_limit_def [symmetric] sl st)
  then show ?thesis using last by auto
qed

lemma follow_rest:
  assumes inv: "es_inv s" and lim: "0 < page_limit flt" and "(case f_afterEventId flt of None \<Rightarrow> Some (ordered_events coll s) | Some i \<Rightarrow> after_event i (ordered_events coll s)) = Some rest"
    and "ordered_events coll s = ws @ rest" "f_afterEventId flt = None \<Longrightarrow> nullish (f_offset flt) 0 = 0"
    and "length (filter (matches pd flt) rest) < n"
  shows "follow coll pd stamp n flt s = Some (filter (matches pd flt) rest)"
  using assms(2-)
proof (induction n arbitrary: flt ws rest)
  case (Suc n)
  let ?m = "filter (matches pd flt) rest" and ?l = "page_limit flt"
  obtain res where res: "getEvents coll pd stamp flt s = Inr res" "res_events res = take ?l ?m"
      "res_nextCursor res = (if 0 < ?l \<and> ?l < length ?m then Some (ce_eventId (?m ! (?l - 1))) else None)"
    using getEvents_page [OF inv Suc.prems(2-4) refl, where stamp = stamp] by blast
  show ?case
  proof (cases "?l < length ?m")
    case False
    then show ?thesis using res by simp
  next
    case True
    let ?x = "?m ! (?l - 1)" and ?f = "flt\<lparr>f_afterEventId := Some (ce_eventId (?m ! (?l - 1)))\<rparr>"
    have m: "?m = take (?l - 1) ?m @ ?x # drop ?l ?m"
      using True Suc.prems(1) id_take_nth_drop [of "?l - 1" ?m] by simp
    have "distinct (map ce_eventId (ordered_events coll s))"
      using es_records_distinct [OF inv] unfolding distinct_map [of ce_eventId] by (simp only: distinct_sort set_sort)
    from after_page [OF this Suc.prems(3) m] obtain ws' bs where
      b: "after_event (ce_eventId ?x) (ordered_events coll s) = Some bs" "filter (matches pd flt) bs = drop ?l ?m"
        "ordered_events coll s = ws' @ bs" by blast
    have "follow coll pd stamp n ?f s = Some (filter (matches pd ?f) bs)"
      using b True Suc.prems(1,5) by (intro Suc.IH [of _ bs ws']) simp_all
    then show ?thesis using res True Suc.prems(1) by (simp add: b(2))
  qed
qed simp

text \<open>Paging is complete. Starting at the first page and following the cursors ends, after at most one page more
  than there are events, and yields every stored event that matches the filter, each once, in the order of ledger
  and event identifier.\<close>

theorem paging_complete:
  assumes "es_inv s" "0 < nullish (f_limit flt) 100" "f_afterEventId flt = None" "nullish (f_offset flt) 0 = 0"
  shows "follow coll pd stamp (Suc (length (es_records s))) flt s =
     Some (sort_key (event_order coll) (filter (matches pd flt) (map_values (es_records s))))"
proof -
  let ?m = "filter (matches pd flt) (ordered_events coll s)"
  have "0 < page_limit flt" using assms(2) by (simp add: page_limit_def)
  moreover have "length ?m < Suc (length (es_records s))"
    using length_filter_le [of "matches pd flt" "ordered_events coll s"] by simp
  ultimately have "follow coll pd stamp (Suc (length (es_records s))) flt s = Some ?m"
    using assms(3,4) by (intro follow_rest [OF assms(1), where ws = "[]"]) simp_all
  then show ?thesis unfolding filter_sort .
qed

definition all_events :: "nat \<Rightarrow> StreamEventReplayFilter" where
  "all_events n = \<lparr>f_fromLedger = None, f_toledger = None, f_contractId = None, f_topic = None, f_limit = Some n,
     f_offset = None, f_fromHappenedAt = None, f_toHappenedAt = None, f_afterEventId = None\<rparr>"

theorem paging_complete_witness:
  "map ce_eventId (ordered_events id demo_events) = [''a'', ''b'', ''c''] \<and>
   follow id (\<lambda>_. None) ''t'' (Suc (length (es_records demo_events))) (all_events 2) demo_events = Some (ordered_events id demo_events)"
proof
  show "map ce_eventId (ordered_events id demo_events) = [''a'', ''b'', ''c'']" by code_simp
  have "0 < nullish (f_limit (all_events 2)) 100" "f_afterEventId (all_events 2) = None" "nullish (f_offset (all_events 2)) 0 = 0"
    by (simp_all add: all_events_def)
  moreover have "filter (matches (\<lambda>_. None) (all_events 2)) rs = rs" for rs
    by (rule filter_True) (simp add: matches_def all_events_def)
  ultimately show "follow id (\<lambda>_. None) ''t'' (Suc (length (es_records demo_events))) (all_events 2) demo_events = Some (ordered_events id demo_events)"
    using paging_complete [OF demo_events_inv, of "all_events 2" id "\<lambda>_. None" "''t''"] by simp
qed

section \<open>Checkpoints\<close>

definition offset_of :: "string \<Rightarrow> InMemoryContractEventStore \<Rightarrow> int" where
  "offset_of c s = (case getCheckpoint c s of None \<Rightarrow> 0 | Some cp \<Rightarrow> cp_lastCommittedOffset cp)"

interpretation cp_run: op_monotone es_step "\<lambda>s. getCheckpoint c s \<noteq> None" "offset_of c" for c
proof unfold_locales
  fix s x
  assume h: "getCheckpoint c s \<noteq> None"
  show "getCheckpoint c (es_step s x) \<noteq> None"
    using h by (cases x) (auto simp: getCheckpoint_def insertMany_def rollbackBeforeLedger_def saveCheckpoint_def
        Let_def split: sum.splits option.splits if_splits prod.splits)
  show "offset_of c s \<le> offset_of c (es_step s x)"
    using h by (cases x) (auto simp: offset_of_def getCheckpoint_def insertMany_def rollbackBeforeLedger_def
        saveCheckpoint_def Let_def split: sum.splits option.splits if_splits prod.splits)
qed

text \<open>Replay progress never regresses. Once a cursor has a checkpoint it keeps one, and along every run of
  insertions, rollbacks and attempts to save checkpoints its committed offset does not decrease; saving a
  smaller offset is refused.\<close>

theorem checkpoint_monotone:
  assumes "getCheckpoint c s = Some cp"
  shows "(\<exists>cp'. getCheckpoint c (foldl es_step s xs) = Some cp' \<and> cp_lastCommittedOffset cp \<le> cp_lastCommittedOffset cp') \<and>
    (\<forall>new stamp. cp_cursorId new = c \<longrightarrow> cp_lastCommittedOffset new < cp_lastCommittedOffset cp \<longrightarrow>
       saveCheckpoint new stamp s = Inl (MonotonicityViolation (cp_lastCommittedOffset cp) (cp_lastCommittedOffset new)))"
proof
  have h: "getCheckpoint c s \<noteq> None" using assms by simp
  obtain cp' where "getCheckpoint c (foldl es_step s xs) = Some cp'" using cp_run.run_inv [OF h, of xs] by auto
  then show "\<exists>cp'. getCheckpoint c (foldl es_step s xs) = Some cp' \<and> cp_lastCommittedOffset cp \<le> cp_lastCommittedOffset cp'"
    using cp_run.run_mono [OF h, of xs] assms by (simp add: offset_of_def)
  show "\<forall>new stamp. cp_cursorId new = c \<longrightarrow> cp_lastCommittedOffset new < cp_lastCommittedOffset cp \<longrightarrow>
       saveCheckpoint new stamp s = Inl (MonotonicityViolation (cp_lastCommittedOffset cp) (cp_lastCommittedOffset new))"
    using assms by (simp add: saveCheckpoint_def getCheckpoint_def)
qed

definition demo_checkpoint :: "int \<Rightarrow> ReplayProgressCheckpoint" where
  "demo_checkpoint n = \<lparr>cp_cursorId = ''k'', cp_total = 10, cp_lastCommittedOffset = n, cp_status = In_progress_checkpoint,
     cp_updatedAt = None\<rparr>"

theorem checkpoint_monotone_witness:
  "\<exists>cp'. getCheckpoint ''k'' (foldl es_step (es_step new_event_store (Op_checkpoint (demo_checkpoint 5) ''t''))
      [Op_checkpoint (demo_checkpoint 3) ''u'', Op_rollback 0 ''u'']) = Some cp' \<and> 5 \<le> cp_lastCommittedOffset cp'"
proof -
  let ?s = "es_step new_event_store (Op_checkpoint (demo_checkpoint 5) ''t'')"
  have "map_option cp_lastCommittedOffset (getCheckpoint ''k'' ?s) = Some 5" by code_simp
  then obtain cp where cp: "getCheckpoint ''k'' ?s = Some cp" "cp_lastCommittedOffset cp = 5" by auto
  from checkpoint_monotone [OF cp(1), of "[Op_checkpoint (demo_checkpoint 3) ''u'', Op_rollback 0 ''u'']"] cp(2)
  show ?thesis by simp
qed

section \<open>Reading back what the Postgres store writes\<close>

text \<open>No row the Postgres store writes can be mapped back. The mapper asks for a column \<open>vent_id\<close> that the table
  does not have, so it rejects the row of every event; and the row carries the contract identifier in
  \<open>tx_hash\<close> instead of the transaction hash.\<close>

theorem pg_rows_unreadable:
  "rowToStreamEventRecord pd (pg_insert_row e now) t =
     Inl \<lparr>rme_table = t, rme_column = ''vent_id'', rme_reason = ''required column was NULL or absent'',
          rme_received = ''undefined''\<rparr> \<and>
   row_get (pg_insert_row e now) ''tx_hash'' = DString (ce_contractId e)"
  by (simp add: rowToStreamEventRecord_def bind_sum_def requireString_def row_get_def pg_insert_row_def pg_insert_params_def
      Let_def isNullish_def fail_def describeValue_def)

end
