(* ===== verification/Indexer_Health.thy ===== *)
theory Indexer_Health
  imports Fluxora_Prelude "HOL-Library.Product_Lexorder" "HOL-Library.List_Lexorder" "HOL-Library.Char_ord"
begin

text \<open>
  Two guards of the indexer: stall detection with its latch (\<open>src/indexer/stall.ts\<close>) and the check of
  ledger continuity after a replay (\<open>src/indexer/replayIntegrity.ts\<close>).

  The module variables of \<open>stall.ts\<close> are a state record; a field that was never given is \<open>None\<close>, an explicit
  \<open>null\<close> is \<open>Some None\<close>. \<open>Date.parse\<close> is the argument \<open>pd\<close>, \<open>Date.now()\<close> the argument \<open>clock\<close>; timestamps are
  integers of milliseconds and a \<open>Date\<close> is a valid one.

  The integrity check reads a table of rows; its three SQL queries are written as functions of the rows, and
  the failures the database meets are the argument \<open>pool\<close>: \<open>pool_fail start end attempt\<close> is the message of the
  error of one attempt on a chunk. \<open>coll\<close> gives the collation key of \<open>localeCompare\<close>. The delays
  between two attempts and the log lines are not modelled. \<open>mapWithConcurrency\<close> is modelled as the step relation of its workers, and shown to compute what
  \<open>map\<close> does under every interleaving.
\<close>

section \<open>Stall detection\<close>

definition DEFAULT_INDEXER_STALL_THRESHOLD_MS :: int where
  "DEFAULT_INDEXER_STALL_THRESHOLD_MS = 5 * 60 * 1000"

datatype IndexerHealthStatus = Not_configured | Starting | Healthy | Stalled

datatype ts_value = Ts_string string | Ts_number int | Ts_date int

record AssessIndexerHealthInput =
  ai_enabled :: "bool option"
  ai_lastSuccessfulSyncAt :: "ts_value option option"
  ai_now :: "ts_value option"
  ai_stallThresholdMs :: "int option"

datatype clientImpact = Impact_none | Stale_chain_state

datatype operatorAction = Action_none | Observe | Page

record IndexerHealth =
  ih_status :: IndexerHealthStatus
  ih_stalled :: bool
  ih_thresholdMs :: int
  ih_lastSuccessfulSyncAt :: "millis option"
  ih_lagMs :: "int option"
  ih_summary :: string
  ih_clientImpact :: clientImpact
  ih_operatorAction :: operatorAction

record stall_state =
  isStallLatched :: bool
  lk_enabled :: "bool option"
  lk_lastSuccessfulSyncAt :: "ts_value option option"
  lk_stallThresholdMs :: "int option"

definition stall_init :: stall_state where
  "stall_init = \<lparr>isStallLatched = False, lk_enabled = None, lk_lastSuccessfulSyncAt = None, lk_stallThresholdMs = None\<rparr>"

definition toTimestamp :: "(string \<Rightarrow> millis option) \<Rightarrow> ts_value \<Rightarrow> millis option" where
  "toTimestamp pd value = (case value of Ts_date t \<Rightarrow> Some t | Ts_number t \<Rightarrow> Some t | Ts_string s \<Rightarrow> pd s)"

text \<open>\<open>a ?? b\<close> where \<open>null\<close> and \<open>undefined\<close> both give way.\<close>

definition nullish_null :: "'a option option \<Rightarrow> 'a option option \<Rightarrow> 'a option" where
  "nullish_null x y = (case x of Some (Some v) \<Rightarrow> Some v | _ \<Rightarrow> (case y of Some z \<Rightarrow> z | None \<Rightarrow> None))"

definition truthy_ts :: "ts_value option \<Rightarrow> bool" where
  "truthy_ts x = (case x of
       None \<Rightarrow> False | Some (Ts_string s) \<Rightarrow> s \<noteq> [] | Some (Ts_number n) \<Rightarrow> n \<noteq> 0 | Some (Ts_date _) \<Rightarrow> True)"

definition stall_now :: "(string \<Rightarrow> millis option) \<Rightarrow> AssessIndexerHealthInput \<Rightarrow> millis \<Rightarrow> millis" where
  "stall_now pd input clock = nullish (toTimestamp pd (nullish (ai_now input) (Ts_number clock))) clock"

definition remember_input :: "AssessIndexerHealthInput \<Rightarrow> stall_state \<Rightarrow> stall_state" where
  "remember_input input s =
     s\<lparr>lk_enabled := (if ai_enabled input \<noteq> None then ai_enabled input else lk_enabled s),
       lk_lastSuccessfulSyncAt := (if ai_lastSuccessfulSyncAt input \<noteq> None then ai_lastSuccessfulSyncAt input
                                   else lk_lastSuccessfulSyncAt s),
       lk_stallThresholdMs := (if ai_stallThresholdMs input \<noteq> None then ai_stallThresholdMs input
                               else lk_stallThresholdMs s)\<rparr>"

definition stall_threshold :: "AssessIndexerHealthInput \<Rightarrow> stall_state \<Rightarrow> int" where
  "stall_threshold input s =
     nullish (ai_stallThresholdMs input) (nullish (lk_stallThresholdMs s) DEFAULT_INDEXER_STALL_THRESHOLD_MS)"

definition stall_enabled :: "AssessIndexerHealthInput \<Rightarrow> stall_state \<Rightarrow> bool" where
  "stall_enabled input s = nullish (ai_enabled input) (nullish (lk_enabled s) False)"

definition stall_sync :: "AssessIndexerHealthInput \<Rightarrow> stall_state \<Rightarrow> ts_value option" where
  "stall_sync input s = nullish_null (ai_lastSuccessfulSyncAt input) (lk_lastSuccessfulSyncAt s)"

definition unknown_sync :: "stall_state \<Rightarrow> int \<Rightarrow> string \<Rightarrow> string \<Rightarrow> IndexerHealth" where
  "unknown_sync s thresholdMs latchedSummary startingSummary =
     \<lparr>ih_status = (if isStallLatched s then Stalled else Starting), ih_stalled = isStallLatched s,
      ih_thresholdMs = thresholdMs, ih_lastSuccessfulSyncAt = None, ih_lagMs = None,
      ih_summary = (if isStallLatched s then latchedSummary else startingSummary),
      ih_clientImpact = Stale_chain_state,
      ih_operatorAction = (if isStallLatched s then Page else Observe)\<rparr>"

definition missing_sync :: "stall_state \<Rightarrow> int \<Rightarrow> IndexerHealth" where
  "missing_sync s thresholdMs =
     unknown_sync s thresholdMs ''Indexer remains stalled (missing sync time)''
       ''Indexer is enabled but no successful sync has been recorded yet''"

definition unreadable_sync :: "stall_state \<Rightarrow> int \<Rightarrow> IndexerHealth" where
  "unreadable_sync s thresholdMs =
     unknown_sync s thresholdMs ''Indexer remains stalled (unreadable sync time)''
       ''Indexer checkpoint is unreadable; treat the worker as not yet healthy''"

definition assessIndexerHealth ::
  "(string \<Rightarrow> millis option) \<Rightarrow> AssessIndexerHealthInput \<Rightarrow> millis \<Rightarrow> stall_state \<Rightarrow> IndexerHealth \<times> stall_state" where
  "assessIndexerHealth pd input clock s0 =
     (let s = remember_input input s0;
          thresholdMs = stall_threshold input s;
          sync = stall_sync input s
      in if \<not> stall_enabled input s
         then (\<lparr>ih_status = Not_configured, ih_stalled = False, ih_thresholdMs = thresholdMs,
                ih_lastSuccessfulSyncAt = None, ih_lagMs = None,
                ih_summary = ''Indexer is not configured in this environment'', ih_clientImpact = Impact_none,
                ih_operatorAction = Action_none\<rparr>, s\<lparr>isStallLatched := False\<rparr>)
         else if \<not> truthy_ts sync then (missing_sync s thresholdMs, s)
         else case toTimestamp pd (the sync) of
                None \<Rightarrow> (unreadable_sync s thresholdMs, s)
              | Some syncMs \<Rightarrow>
                  let lagMs = max 0 (stall_now pd input clock - syncMs)
                  in if thresholdMs < lagMs
                     then (\<lparr>ih_status = Stalled, ih_stalled = True, ih_thresholdMs = thresholdMs,
                            ih_lastSuccessfulSyncAt = Some syncMs, ih_lagMs = Some lagMs,
                            ih_summary = ''Indexer checkpoint is older than the allowed freshness threshold'',
                            ih_clientImpact = Stale_chain_state, ih_operatorAction = Page\<rparr>,
                           s\<lparr>isStallLatched := True\<rparr>)
                     else (\<lparr>ih_status = Healthy, ih_stalled = False, ih_thresholdMs = thresholdMs,
                            ih_lastSuccessfulSyncAt = Some syncMs, ih_lagMs = Some lagMs,
                            ih_summary = ''Indexer checkpoint is within the allowed freshness threshold'',
                            ih_clientImpact = Impact_none, ih_operatorAction = Action_none\<rparr>,
                           s\<lparr>isStallLatched := False\<rparr>))"

datatype ActiveStallError = ActiveStallError

definition clearIndexerStall ::
  "(string \<Rightarrow> millis option) \<Rightarrow> AssessIndexerHealthInput \<Rightarrow> millis \<Rightarrow> stall_state \<Rightarrow> ActiveStallError + stall_state" where
  "clearIndexerStall pd input clock s =
     (let thresholdMs = stall_threshold input s;
          sync = stall_sync input s
      in if stall_enabled input s \<and> truthy_ts sync \<and>
            (case toTimestamp pd (the sync) of
               None \<Rightarrow> False
             | Some syncMs \<Rightarrow> thresholdMs < max 0 (stall_now pd input clock - syncMs))
         then Inl ActiveStallError
         else Inr (s\<lparr>isStallLatched := False\<rparr>))"

section \<open>Bounded concurrency\<close>

text \<open>The state of \<open>mapWithConcurrency\<close>: the shared index, the result slots, and for each worker the item it is
  working on. A worker that is idle takes the next index, if there is one; a worker that has an item stores
  its result.\<close>

record 'r mwc_state =
  mwc_next :: nat
  mwc_results :: "'r option list"
  mwc_jobs :: "nat option list"

definition mwc_init :: "nat \<Rightarrow> 'a list \<Rightarrow> 'r mwc_state" where
  "mwc_init concurrency items =
     \<lparr>mwc_next = 0, mwc_results = replicate (length items) None,
      mwc_jobs = replicate (min concurrency (length items)) None\<rparr>"

inductive mwc_step :: "('a \<Rightarrow> 'r) \<Rightarrow> 'a list \<Rightarrow> 'r mwc_state \<Rightarrow> 'r mwc_state \<Rightarrow> bool" for worker items where
  take_job: "w < length (mwc_jobs s) \<Longrightarrow> mwc_jobs s ! w = None \<Longrightarrow> mwc_next s < length items \<Longrightarrow>
    mwc_step worker items s (s\<lparr>mwc_next := mwc_next s + 1, mwc_jobs := (mwc_jobs s)[w := Some (mwc_next s)]\<rparr>)"
| finish_job: "w < length (mwc_jobs s) \<Longrightarrow> mwc_jobs s ! w = Some i \<Longrightarrow>
    mwc_step worker items s (s\<lparr>mwc_results := (mwc_results s)[i := Some (worker (items ! i))],
                               mwc_jobs := (mwc_jobs s)[w := None]\<rparr>)"

definition mwc_done :: "'a list \<Rightarrow> 'r mwc_state \<Rightarrow> bool" where
  "mwc_done items s \<longleftrightarrow> length items \<le> mwc_next s \<and> (\<forall>j \<in> set (mwc_jobs s). j = None)"

section \<open>The integrity check\<close>

record duplicate_row =
  dup_eventId :: string
  dup_ledger :: int
  dup_count :: int

record chunk_result =
  cr_gaps :: "int list"
  cr_duplicates :: "duplicate_row list"
  cr_error :: "string option"

text \<open>The audit entry a check writes, and its result together with its effects: the audit entry, the increments of the
  two counters and the warning about a large range.\<close>

record integrity_audit =
  ia_gapCount :: nat
  ia_duplicateCount :: nat
  ia_ledgerRange :: "int \<times> int"
  ia_gaps :: "int list option"
  ia_duplicates :: "(string \<times> int) list option"

record ReplayIntegrityCheckResult =
  ri_hasIssues :: bool
  ri_gaps :: "int list"
  ri_duplicates :: "duplicate_row list"
  ri_checkedRange :: "int \<times> int"
  ri_contractId :: string
  ri_error :: "string option"
  ri_audit :: "integrity_audit option"
  ri_gapsTotal :: nat
  ri_duplicatesTotal :: nat
  ri_large :: bool

definition MAX_CONCURRENT_CHECKS :: nat where "MAX_CONCURRENT_CHECKS = 4"
definition INTEGRITY_CHUNK_SIZE :: int where "INTEGRITY_CHUNK_SIZE = 10000"
definition INTEGRITY_RETRY_BUDGET :: nat where "INTEGRITY_RETRY_BUDGET = 3"

definition MAX_INTEGRITY_RANGE :: int where "MAX_INTEGRITY_RANGE = 100000"

text \<open>The rows of \<open>contract_events\<close> the three queries read, and the pool: its rows and the failures it meets,
  \<open>pool_fail start end attempt\<close> being the message of the error of one attempt on a chunk.\<close>

record event_row =
  er_contract :: string
  er_ledger :: int
  er_event :: string

record pool =
  pool_rows :: "event_row list"
  pool_range_fail :: "string option"
  pool_fail :: "int \<Rightarrow> int \<Rightarrow> nat \<Rightarrow> string option"

definition contract_rows :: "event_row list \<Rightarrow> string \<Rightarrow> int \<Rightarrow> int \<Rightarrow> event_row list" where
  "contract_rows rows contractId b e = filter (\<lambda>r. er_contract r = contractId \<and> b \<le> er_ledger r \<and> er_ledger r \<le> e) rows"

definition GAP_QUERY :: "event_row list \<Rightarrow> string \<Rightarrow> int \<Rightarrow> int \<Rightarrow> int list" where
  "GAP_QUERY rows contractId b e = filter (\<lambda>l. l \<notin> set (map er_ledger (contract_rows rows contractId b e))) [b..e]"

definition DUPLICATE_QUERY :: "(string \<Rightarrow> string) \<Rightarrow> event_row list \<Rightarrow> string \<Rightarrow> int \<Rightarrow> int \<Rightarrow> duplicate_row list" where
  "DUPLICATE_QUERY coll rows contractId b e =
     (let keys = map (\<lambda>r. (er_event r, er_ledger r)) (contract_rows rows contractId b e)
      in sort_key (\<lambda>d. (dup_ledger d, coll (dup_eventId d)))
           (map (\<lambda>(x, l). \<lparr>dup_eventId = x, dup_ledger = l, dup_count = int (count_list keys (x, l))\<rparr>)
              (filter (\<lambda>k. 1 < count_list keys k) (remdups keys))))"

definition RANGE_QUERY :: "event_row list \<Rightarrow> string \<Rightarrow> int \<Rightarrow> int \<Rightarrow> (int \<times> int) option" where
  "RANGE_QUERY rows contractId b e =
     (case map er_ledger (contract_rows rows contractId b e) of
        [] \<Rightarrow> None
      | l # ls \<Rightarrow> Some (fold min ls l, fold max ls l))"

definition runIntegrityChunk :: "(string \<Rightarrow> string) \<Rightarrow> pool \<Rightarrow> string \<Rightarrow> int \<Rightarrow> int \<Rightarrow> nat \<Rightarrow> chunk_result" where
  "runIntegrityChunk coll p contractId fromLedger toLedger attempt =
     (case pool_fail p fromLedger toLedger attempt of
        None \<Rightarrow> \<lparr>cr_gaps = GAP_QUERY (pool_rows p) contractId fromLedger toLedger,
                 cr_duplicates = DUPLICATE_QUERY coll (pool_rows p) contractId fromLedger toLedger, cr_error = None\<rparr>
      | Some msg \<Rightarrow> \<lparr>cr_gaps = [], cr_duplicates = [], cr_error = Some msg\<rparr>)"

text \<open>The retry loop of one chunk from attempt \<open>i\<close> on. An empty message is no error for \<open>!r.error\<close>.\<close>

function retry_chunk :: "(string \<Rightarrow> string) \<Rightarrow> pool \<Rightarrow> string \<Rightarrow> int \<Rightarrow> int \<Rightarrow> nat \<Rightarrow> string \<Rightarrow> chunk_result" where
  "retry_chunk coll p contractId b e i lastError =
     (if i < INTEGRITY_RETRY_BUDGET
      then let r = runIntegrityChunk coll p contractId b e i
           in if cr_error r = None \<or> cr_error r = Some [] then r
              else retry_chunk coll p contractId b e (i + 1) (nullish (cr_error r) [])
      else \<lparr>cr_gaps = [], cr_duplicates = [], cr_error = Some lastError\<rparr>)"
  by pat_completeness auto
termination by (relation "measure (\<lambda>(_, _, _, _, _, i, _). INTEGRITY_RETRY_BUDGET - i)") auto

declare retry_chunk.simps [simp del]

function chunk_starts :: "int \<Rightarrow> int \<Rightarrow> int list" where
  "chunk_starts start maxLedger =
     (if start \<le> maxLedger then start # chunk_starts (start + INTEGRITY_CHUNK_SIZE) maxLedger else [])"
  by pat_completeness auto
termination by (relation "measure (\<lambda>(s, m). nat (m + 1 - s))") (auto simp: INTEGRITY_CHUNK_SIZE_def)

declare chunk_starts.simps [simp del]

definition chunk_end :: "int \<Rightarrow> int \<Rightarrow> int" where
  "chunk_end maxLedger start = min (start + INTEGRITY_CHUNK_SIZE - 1) maxLedger"

definition check_chunk :: "(string \<Rightarrow> string) \<Rightarrow> pool \<Rightarrow> string \<Rightarrow> int \<Rightarrow> int \<Rightarrow> chunk_result" where
  "check_chunk coll p contractId maxLedger start =
     retry_chunk coll p contractId start (chunk_end maxLedger start) 0 ''unknown''"

definition issue_audit :: "int list \<Rightarrow> duplicate_row list \<Rightarrow> int \<Rightarrow> int \<Rightarrow> integrity_audit" where
  "issue_audit gaps duplicates minLedger maxLedger =
     \<lparr>ia_gapCount = length gaps, ia_duplicateCount = length duplicates, ia_ledgerRange = (minLedger, maxLedger),
      ia_gaps = (if gaps \<noteq> [] then Some (take 100 gaps) else None),
      ia_duplicates = (if duplicates \<noteq> [] then Some (map (\<lambda>d. (dup_eventId d, dup_ledger d)) (take 50 duplicates)) else None)\<rparr>"

definition checkReplayIntegrity ::
  "(string \<Rightarrow> string) \<Rightarrow> pool \<Rightarrow> string \<Rightarrow> int \<Rightarrow> int \<Rightarrow> ReplayIntegrityCheckResult" where
  "checkReplayIntegrity coll p contractId fromLedger toLedger =
     (let effectiveFrom = min fromLedger toLedger;
          effectiveTo = max fromLedger toLedger;
          large = (MAX_INTEGRITY_RANGE < effectiveTo - effectiveFrom)
      in case pool_range_fail p of
           Some msg \<Rightarrow> \<lparr>ri_hasIssues = False, ri_gaps = [], ri_duplicates = [],
                        ri_checkedRange = (effectiveFrom, effectiveTo), ri_contractId = contractId,
                        ri_error = Some msg, ri_audit = None,
                        ri_gapsTotal = 0, ri_duplicatesTotal = 0, ri_large = large\<rparr>
         | None \<Rightarrow>
           (case RANGE_QUERY (pool_rows p) contractId effectiveFrom effectiveTo of
              None \<Rightarrow> \<lparr>ri_hasIssues = False, ri_gaps = [], ri_duplicates = [],
                       ri_checkedRange = (effectiveFrom, effectiveTo), ri_contractId = contractId,
                       ri_error = None, ri_audit = None,
                        ri_gapsTotal = 0, ri_duplicatesTotal = 0, ri_large = large\<rparr>
            | Some (minLedger, maxLedger) \<Rightarrow>
                let chunkResults = map (check_chunk coll p contractId maxLedger) (chunk_starts minLedger maxLedger);
                    firstError = (case find (\<lambda>r. cr_error r \<noteq> None) chunkResults of None \<Rightarrow> None | Some r \<Rightarrow> cr_error r);
                    ok = filter (\<lambda>r. cr_error r = None \<or> cr_error r = Some []) chunkResults;
                    gaps = sort (concat (map cr_gaps ok));
                    duplicates = sort_key (\<lambda>d. (dup_ledger d, coll (dup_eventId d))) (concat (map cr_duplicates ok));
                    hasIssues = (gaps \<noteq> [] \<or> duplicates \<noteq> [])
                in \<lparr>ri_hasIssues = hasIssues, ri_gaps = gaps, ri_duplicates = duplicates,
                    ri_checkedRange = (minLedger, maxLedger), ri_contractId = contractId, ri_error = firstError,
                    ri_audit = (if hasIssues then Some (issue_audit gaps duplicates minLedger maxLedger) else None),
                    ri_gapsTotal = length gaps, ri_duplicatesTotal = length duplicates, ri_large = large\<rparr>))"

section \<open>Properties of stall detection\<close>

lemma remember_input_sync [simp]:
  "stall_enabled input (remember_input input s) = stall_enabled input s"
  "stall_threshold input (remember_input input s) = stall_threshold input s"
  "isStallLatched (remember_input input s) = isStallLatched s"
  by (cases "ai_enabled input"; cases "ai_stallThresholdMs input";
      simp add: stall_enabled_def stall_threshold_def remember_input_def)+

text \<open>What is known of the last sync at an assessment.\<close>

definition sync_time :: "(string \<Rightarrow> millis option) \<Rightarrow> AssessIndexerHealthInput \<Rightarrow> stall_state \<Rightarrow> millis option" where
  "sync_time pd input s =
     (let sync = stall_sync input (remember_input input s)
      in if truthy_ts sync then toTimestamp pd (the sync) else None)"

lemma assess_cases:
  "assessIndexerHealth pd input clock s =
     (let s1 = remember_input input s; th = stall_threshold input s
      in if \<not> stall_enabled input s
         then (\<lparr>ih_status = Not_configured, ih_stalled = False, ih_thresholdMs = th, ih_lastSuccessfulSyncAt = None,
                ih_lagMs = None, ih_summary = ''Indexer is not configured in this environment'',
                ih_clientImpact = Impact_none, ih_operatorAction = Action_none\<rparr>, s1\<lparr>isStallLatched := False\<rparr>)
         else case sync_time pd input s of
           None \<Rightarrow> (if truthy_ts (stall_sync input s1) then unreadable_sync s1 th else missing_sync s1 th, s1)
         | Some t \<Rightarrow>
             let lag = max 0 (stall_now pd input clock - t); late = th < lag
             in (\<lparr>ih_status = (if late then Stalled else Healthy), ih_stalled = late, ih_thresholdMs = th,
                  ih_lastSuccessfulSyncAt = Some t, ih_lagMs = Some lag,
                  ih_summary = (if late then ''Indexer checkpoint is older than the allowed freshness threshold''
                                else ''Indexer checkpoint is within the allowed freshness threshold''),
                  ih_clientImpact = (if late then Stale_chain_state else Impact_none),
                  ih_operatorAction = (if late then Page else Action_none)\<rparr>, s1\<lparr>isStallLatched := late\<rparr>))"
  by (auto simp: assessIndexerHealth_def sync_time_def Let_def split: option.split)

text \<open>Stalls are detected exactly. An enabled indexer with a readable last sync is reported as stalled exactly
  when it lags behind by more than the threshold; with no readable sync it is reported as stalled exactly
  when the last definite assessment said so; a disabled indexer never is. The latch afterwards equals what
  was reported, and a report is stalled exactly when the operator is paged.\<close>

theorem stall_exact:
  assumes "assessIndexerHealth pd input clock s = (h, s')"
  shows "ih_stalled h = (stall_enabled input s \<and>
       (case sync_time pd input s of
          None \<Rightarrow> isStallLatched s
        | Some t \<Rightarrow> stall_threshold input s < max 0 (stall_now pd input clock - t))) \<and>
     isStallLatched s' = ih_stalled h \<and> (ih_operatorAction h = Page \<longleftrightarrow> ih_stalled h)"
  using assms by (auto simp: assess_cases Let_def missing_sync_def unreadable_sync_def unknown_sync_def split: option.splits if_splits)

theorem stall_exact_witness:
  "ih_stalled (fst (assessIndexerHealth (\<lambda>_. None) \<lparr>ai_enabled = Some True, ai_lastSuccessfulSyncAt = Some (Some (Ts_number 5)),
      ai_now = Some (Ts_number 400005), ai_stallThresholdMs = None\<rparr> 0 stall_init))"
proof -
  let ?i = "\<lparr>ai_enabled = Some True, ai_lastSuccessfulSyncAt = Some (Some (Ts_number 5)),
      ai_now = Some (Ts_number 400005), ai_stallThresholdMs = None\<rparr>"
  have "stall_enabled ?i stall_init" "sync_time (\<lambda>_. None) ?i stall_init = Some 5"
    "stall_threshold ?i stall_init < max 0 (stall_now (\<lambda>_. None) ?i 0 - 5)" by code_simp+
  then show ?thesis using stall_exact [OF prod.collapse [symmetric], of "\<lambda>_. None" ?i 0 stall_init] by simp
qed

text \<open>The latch and its release. Clearing the latch is refused exactly while an assessment with the same input
  would find a definite lag beyond the threshold; otherwise the latch is released.\<close>

theorem clear_refused_iff_stalled:
  assumes "ai_lastSuccessfulSyncAt input = None \<or> (\<exists>v. ai_lastSuccessfulSyncAt input = Some (Some v))"
  shows "clearIndexerStall pd input clock s =
     (if ih_stalled (fst (assessIndexerHealth pd input clock s)) \<and> sync_time pd input s \<noteq> None
      then Inl ActiveStallError else Inr (s\<lparr>isStallLatched := False\<rparr>))"
proof -
  have "stall_sync input (remember_input input s) = stall_sync input s"
    using assms by (auto simp: stall_sync_def remember_input_def nullish_null_def)
  then show ?thesis
    by (auto simp: clearIndexerStall_def assess_cases sync_time_def Let_def split: option.splits)
qed

theorem clear_refused_iff_stalled_witness:
  "clearIndexerStall (\<lambda>_. None) \<lparr>ai_enabled = Some True, ai_lastSuccessfulSyncAt = Some (Some (Ts_number 5)),
      ai_now = Some (Ts_number 400005), ai_stallThresholdMs = None\<rparr> 0 stall_init = Inl ActiveStallError"
proof -
  let ?i = "\<lparr>ai_enabled = Some True, ai_lastSuccessfulSyncAt = Some (Some (Ts_number 5)),
      ai_now = Some (Ts_number 400005), ai_stallThresholdMs = None\<rparr>"
  have "ih_stalled (fst (assessIndexerHealth (\<lambda>_. None) ?i 0 stall_init))" "sync_time (\<lambda>_. None) ?i stall_init = Some 5"
    by code_simp+
  then show ?thesis using clear_refused_iff_stalled [of ?i "\<lambda>_. None" 0 stall_init] by simp
qed

section \<open>Bounded concurrency computes map\<close>

definition mwc_inv :: "('a \<Rightarrow> 'r) \<Rightarrow> 'a list \<Rightarrow> nat \<Rightarrow> 'r mwc_state \<Rightarrow> bool" where
  "mwc_inv worker items k s \<longleftrightarrow> length (mwc_results s) = length items \<and> length (mwc_jobs s) = k \<and>
     mwc_next s \<le> length items \<and> (\<forall>w < k. \<forall>i. mwc_jobs s ! w = Some i \<longrightarrow> i < mwc_next s) \<and>
     (\<forall>i < mwc_next s. mwc_results s ! i = Some (worker (items ! i)) \<or> (\<exists>w < k. mwc_jobs s ! w = Some i))"

lemma mwc_inv_init: "mwc_inv worker items (min c (length items)) (mwc_init c items)"
  by (simp add: mwc_inv_def mwc_init_def)

lemma mwc_inv_step: "mwc_step worker items s s' \<Longrightarrow> mwc_inv worker items k s \<Longrightarrow> mwc_inv worker items k s'"
proof (induction rule: mwc_step.induct)
  case (take_job w s)
  have k: "length (mwc_jobs s) = k" using take_job by (simp add: mwc_inv_def)
  let ?js = "(mwc_jobs s)[w := Some (mwc_next s)]"
  have kept: "\<exists>v < k. ?js ! v = Some i" if "mwc_jobs s ! v = Some i" "v < k" for v i
    using that take_job(1,2) k by (intro exI [of _ v]) (auto simp: nth_list_update)
  have new: "\<exists>v < k. ?js ! v = Some (mwc_next s)" using take_job(1) k by (intro exI [of _ w]) simp
  have "i < Suc (mwc_next s)" if "v < k" "?js ! v = Some i" for v i
    using that take_job(4) k by (cases "v = w") (auto simp: mwc_inv_def less_Suc_eq)
  moreover have "mwc_results s ! i = Some (worker (items ! i)) \<or> (\<exists>v < k. ?js ! v = Some i)"
    if "i < Suc (mwc_next s)" for i
  proof (cases "i = mwc_next s")
    case False
    then have "mwc_results s ! i = Some (worker (items ! i)) \<or> (\<exists>v < k. mwc_jobs s ! v = Some i)"
      using that take_job(4) by (simp add: mwc_inv_def)
    then show ?thesis using kept by blast
  qed (use new in simp)
  ultimately show ?case using take_job(3,4) by (simp add: mwc_inv_def)
next
  case (finish_job w s i)
  have k: "length (mwc_jobs s) = k" "i < length (mwc_results s)" "length (mwc_results s) = length items"
    using finish_job by (auto simp: mwc_inv_def dest: spec [of _ w])
  let ?js = "(mwc_jobs s)[w := None]" and ?rs = "(mwc_results s)[i := Some (worker (items ! i))]"
  have kept: "\<exists>v < k. ?js ! v = Some j" if "mwc_jobs s ! v = Some j" "v < k" "j \<noteq> i" for v j
    using that finish_job(1,2) k(1) by (intro exI [of _ v]) (auto simp: nth_list_update)
  have "j < mwc_next s" if "v < k" "?js ! v = Some j" for v j
    using that finish_job(3) k(1) by (cases "v = w") (auto simp: mwc_inv_def)
  moreover have "?rs ! j = Some (worker (items ! j)) \<or> (\<exists>v < k. ?js ! v = Some j)" if "j < mwc_next s" for j
  proof (cases "j = i")
    case False
    then have "?rs ! j = Some (worker (items ! j)) \<or> (\<exists>v < k. mwc_jobs s ! v = Some j)"
      using that finish_job(3) by (simp add: mwc_inv_def)
    then show ?thesis using kept False by blast
  qed (use k in simp)
  ultimately show ?case using finish_job(3) by (simp add: mwc_inv_def)
qed

text \<open>The work left: two steps for an item not yet taken, one for an item being worked on.\<close>

definition mwc_left :: "'a list \<Rightarrow> 'r mwc_state \<Rightarrow> nat" where
  "mwc_left items s = 2 * (length items - mwc_next s) + length (filter (\<lambda>j. j \<noteq> None) (mwc_jobs s))"

lemma filter_update_None:
  "w < length js \<Longrightarrow> js ! w = None \<Longrightarrow> length (filter (\<lambda>j. j \<noteq> None) (js[w := Some i])) = Suc (length (filter (\<lambda>j. j \<noteq> None) js))"
proof (induction js arbitrary: w)
  case (Cons j js)
  then show ?case by (cases w) auto
qed simp

lemma filter_update_Some:
  "w < length js \<Longrightarrow> js ! w = Some i \<Longrightarrow> Suc (length (filter (\<lambda>j. j \<noteq> None) (js[w := None]))) = length (filter (\<lambda>j. j \<noteq> None) js)"
proof (induction js arbitrary: w)
  case (Cons j js)
  then show ?case by (cases w) auto
qed simp

lemma mwc_step_decreases: "mwc_step worker items s s' \<Longrightarrow> mwc_left items s' < mwc_left items s"
proof (induction rule: mwc_step.induct)
  case (take_job w s)
  then have "mwc_left items (s\<lparr>mwc_next := mwc_next s + 1, mwc_jobs := (mwc_jobs s)[w := Some (mwc_next s)]\<rparr>) =
      2 * (length items - (mwc_next s + 1)) + Suc (length (filter (\<lambda>j. j \<noteq> None) (mwc_jobs s)))"
    using filter_update_None [of w "mwc_jobs s" "mwc_next s"] by (simp add: mwc_left_def del: not_None_eq)
  also have "\<dots> < mwc_left items s" using take_job(3) by (simp add: mwc_left_def)
  finally show ?case .
next
  case (finish_job w s i)
  then show ?case using filter_update_Some [of w "mwc_jobs s" i] by (simp add: mwc_left_def del: not_None_eq)
qed

lemma mwc_progress:
  assumes "mwc_inv worker items k s" "0 < k" "\<not> mwc_done items s"
  shows "\<exists>s'. mwc_step worker items s s'"
proof (cases "\<exists>w < k. mwc_jobs s ! w \<noteq> None")
  case True
  then obtain w i where "w < length (mwc_jobs s)" "mwc_jobs s ! w = Some i" using assms(1) by (auto simp: mwc_inv_def)
  then show ?thesis using mwc_step.finish_job by blast
next
  case False
  have k: "length (mwc_jobs s) = k" using assms(1) by (simp add: mwc_inv_def)
  have "\<forall>j \<in> set (mwc_jobs s). j = None" using False k by (auto simp: in_set_conv_nth)
  then have "mwc_next s < length items" using assms(3) by (auto simp: mwc_done_def)
  moreover have "mwc_jobs s ! 0 = None" "0 < length (mwc_jobs s)" using False k assms(2) by auto
  ultimately show ?thesis using mwc_step.take_job by blast
qed

lemma mwc_run_inv:
  "(mwc_step worker items)\<^sup>*\<^sup>* s s' \<Longrightarrow> mwc_inv worker items k s \<Longrightarrow> mwc_inv worker items k s'"
  by (induction rule: rtranclp_induct) (auto intro: mwc_inv_step)

text \<open>(C24) \<open>mapWithConcurrency\<close> is \<open>map\<close>. Under every interleaving of its workers, at most \<open>concurrency\<close> items are being
  worked on at a time, the work left strictly decreases with every step, some worker can take a step as long
  as work is left, and when no work is left slot \<open>i\<close> of the result holds the result for item \<open>i\<close>.\<close>

theorem map_with_concurrency:
  assumes "(mwc_step worker items)\<^sup>*\<^sup>* (mwc_init c items) s" "0 < c" "items \<noteq> []"
  shows "length (filter (\<lambda>j. j \<noteq> None) (mwc_jobs s)) \<le> c \<and>
    (\<forall>s'. mwc_step worker items s s' \<longrightarrow> mwc_left items s' < mwc_left items s) \<and>
    (\<not> mwc_done items s \<longrightarrow> (\<exists>s'. mwc_step worker items s s')) \<and>
    (mwc_done items s \<longrightarrow> mwc_results s = map (\<lambda>x. Some (worker x)) items)"
proof (intro conjI allI impI)
  let ?k = "min c (length items)"
  have inv: "mwc_inv worker items ?k s" using mwc_run_inv [OF assms(1) mwc_inv_init] .
  show "length (filter (\<lambda>j. j \<noteq> None) (mwc_jobs s)) \<le> c"
    using inv length_filter_le [of "\<lambda>j. j \<noteq> None" "mwc_jobs s"] by (simp add: mwc_inv_def del: not_None_eq)
  show "mwc_left items s' < mwc_left items s" if "mwc_step worker items s s'" for s'
    using that by (rule mwc_step_decreases)
  show "\<exists>s'. mwc_step worker items s s'" if "\<not> mwc_done items s"
    using that assms(2,3) by (intro mwc_progress [OF inv]) simp_all
  show "mwc_results s = map (\<lambda>x. Some (worker x)) items" if "mwc_done items s"
  proof (rule nth_equalityI)
    show "length (mwc_results s) = length (map (\<lambda>x. Some (worker x)) items)" using inv by (simp add: mwc_inv_def)
    show "mwc_results s ! i = map (\<lambda>x. Some (worker x)) items ! i" if i: "i < length (mwc_results s)" for i
    proof -
      have "mwc_jobs s ! w \<noteq> Some i" if "w < ?k" for w
        using \<open>mwc_done items s\<close> inv that nth_mem [of w "mwc_jobs s"] by (force simp: mwc_done_def mwc_inv_def)
      then show ?thesis using \<open>mwc_done items s\<close> inv i by (auto simp: mwc_done_def mwc_inv_def)
    qed
  qed
qed

theorem map_with_concurrency_witness:
  "\<not> mwc_done [7 :: int, 8] (mwc_init 2 [7 :: int, 8] :: int mwc_state) \<and>
   (\<exists>s'. mwc_step (\<lambda>x :: int. x + 1) [7 :: int, 8] (mwc_init 2 [7 :: int, 8]) s')"
proof -
  have "\<not> mwc_done [7 :: int, 8] (mwc_init 2 [7 :: int, 8] :: int mwc_state)" by (simp add: mwc_done_def mwc_init_def)
  then show ?thesis
    using map_with_concurrency [of "\<lambda>x :: int. x + 1" "[7, 8]" 2 "mwc_init 2 [7 :: int, 8]"] by simp
qed

section \<open>The integrity check is exact\<close>

lemma upto_chunk: "b \<le> m \<Longrightarrow> 0 < (c :: int) \<Longrightarrow> [b..m] = [b..min (b + c - 1) m] @ [b + c..m]"
proof (cases "b + c - 1 \<le> m")
  case True
  assume "0 < c"
  then show ?thesis using True upto_split2 [of b "b + c - 1" m] by (simp add: min_def)
qed (simp add: min_def)

lemma concat_chunks:
  "(\<And>a. g (a :: int) = concat (map f [a..chunk_end m a])) \<Longrightarrow> concat (map g (chunk_starts a m)) = concat (map f [a..m])"
proof (induction a m rule: chunk_starts.induct)
  case (1 a m)
  show ?case
  proof (cases "a \<le> m")
    case True
    have "[a..m] = [a..chunk_end m a] @ [a + INTEGRITY_CHUNK_SIZE..m]"
      using upto_chunk [OF True, of INTEGRITY_CHUNK_SIZE] by (simp add: chunk_end_def INTEGRITY_CHUNK_SIZE_def)
    then show ?thesis using True 1 by (simp add: chunk_starts.simps [of a])
  next
    case False
    then show ?thesis by (simp add: chunk_starts.simps [of a])
  qed
qed

lemma chunk_starts_cover: "l \<in> {a..m} \<Longrightarrow> \<exists>b \<in> set (chunk_starts a m). b \<le> l \<and> l \<le> chunk_end m b"
proof (induction a m rule: chunk_starts.induct)
  case (1 a m)
  then show ?case
    by (cases "a + INTEGRITY_CHUNK_SIZE \<le> l") (auto simp: chunk_starts.simps [of a] chunk_end_def INTEGRITY_CHUNK_SIZE_def)
qed

lemma chunk_starts_bounds: "b \<in> set (chunk_starts a m) \<Longrightarrow> a \<le> b \<and> chunk_end m b \<le> m"
proof (induction a m rule: chunk_starts.induct)
  case (1 a m)
  then show ?case by (cases "a \<le> m") (auto simp: chunk_starts.simps [of a] chunk_end_def INTEGRITY_CHUNK_SIZE_def)
qed

text \<open>A chunk recovers when one of its attempts meets no error, and no error has an empty message.\<close>

definition chunk_recovers :: "pool \<Rightarrow> int \<Rightarrow> int \<Rightarrow> bool" where
  "chunk_recovers p b e \<longleftrightarrow> (\<exists>j < INTEGRITY_RETRY_BUDGET. pool_fail p b e j = None) \<and>
     (\<forall>j < INTEGRITY_RETRY_BUDGET. pool_fail p b e j \<noteq> Some [])"

lemma retry_recovers:
  assumes "j < INTEGRITY_RETRY_BUDGET" "i \<le> j" "pool_fail p b e j = None"
    "\<forall>k < INTEGRITY_RETRY_BUDGET. pool_fail p b e k \<noteq> Some []"
  shows "retry_chunk coll p c b e i er =
    \<lparr>cr_gaps = GAP_QUERY (pool_rows p) c b e, cr_duplicates = DUPLICATE_QUERY coll (pool_rows p) c b e, cr_error = None\<rparr>"
  using assms
proof (induction "j - i" arbitrary: i er)
  case 0
  then show ?case by (subst retry_chunk.simps) (simp add: runIntegrityChunk_def)
next
  case (Suc n)
  have rec: "retry_chunk coll p c b e (i + 1) m = \<lparr>cr_gaps = GAP_QUERY (pool_rows p) c b e,
      cr_duplicates = DUPLICATE_QUERY coll (pool_rows p) c b e, cr_error = None\<rparr>" for m
    using Suc.prems Suc.hyps(2) by (intro Suc.hyps(1)) auto
  have "i < INTEGRITY_RETRY_BUDGET" using Suc by simp
  then show ?case using rec Suc.prems(4)
    by (subst retry_chunk.simps) (auto simp: runIntegrityChunk_def Let_def split: option.split)
qed

lemma retry_fails:
  assumes "\<forall>k < INTEGRITY_RETRY_BUDGET. pool_fail p b e k \<noteq> None"
  shows "cr_error (retry_chunk coll p c b e i er) \<noteq> None"
  using assms
proof (induction coll p c b e i er rule: retry_chunk.induct)
  case (1 coll p c b e i er)
  then show ?case
    by (subst retry_chunk.simps) (auto simp: runIntegrityChunk_def Let_def split: option.split)
qed

lemma check_chunk_recovers:
  "chunk_recovers p b (chunk_end m b) \<Longrightarrow> check_chunk coll p c m b =
    \<lparr>cr_gaps = GAP_QUERY (pool_rows p) c b (chunk_end m b),
     cr_duplicates = DUPLICATE_QUERY coll (pool_rows p) c b (chunk_end m b), cr_error = None\<rparr>"
  unfolding chunk_recovers_def check_chunk_def using retry_recovers by (metis le0)

lemma fold_min_max_bounds: "(x :: int) \<in> set (l # ls) \<Longrightarrow> fold min ls l \<le> x \<and> x \<le> fold max ls l"
  using Min_le [of "set (l # ls)" x] Max_ge [of "set (l # ls)" x] by (simp only: Min.set_eq_fold Max.set_eq_fold) simp

lemma fold_min_max_in: "fold min ls (l :: int) \<in> set (l # ls)" "fold max ls (l :: int) \<in> set (l # ls)"
  using Min_in [of "set (l # ls)"] Max_in [of "set (l # ls)"] by (simp_all only: Min.set_eq_fold Max.set_eq_fold) simp_all

lemma range_query_bounds:
  assumes "RANGE_QUERY rows c b e = Some (mn, mx)"
  shows "(\<forall>r \<in> set rows. er_contract r = c \<longrightarrow> b \<le> er_ledger r \<longrightarrow> er_ledger r \<le> e \<longrightarrow> mn \<le> er_ledger r \<and> er_ledger r \<le> mx) \<and>
    b \<le> mn \<and> mx \<le> e"
proof -
  let ?ls = "map er_ledger (contract_rows rows c b e)"
  obtain l ls where ls: "?ls = l # ls" "mn = fold min ls l" "mx = fold max ls l"
    using assms by (auto simp: RANGE_QUERY_def split: list.splits)
  have mem: "er_ledger r \<in> set ?ls" if "r \<in> set rows" "er_contract r = c" "b \<le> er_ledger r" "er_ledger r \<le> e" for r
    using that by (auto simp: contract_rows_def)
  have "mn \<in> set ?ls" "mx \<in> set ?ls" using fold_min_max_in [of ls l] by (simp_all only: ls)
  then have "b \<le> mn" "mx \<le> e" by (auto simp: contract_rows_def)
  then show ?thesis using mem fold_min_max_bounds [of _ l ls] by (metis ls)
qed

lemma counted_rows_iff:
  "d \<in> set (map (\<lambda>(x, l). \<lparr>dup_eventId = x, dup_ledger = l, dup_count = int (count_list ks (x, l))\<rparr>)
       (filter (\<lambda>k. 1 < count_list ks k) (remdups ks))) \<longleftrightarrow>
   1 < count_list ks (dup_eventId d, dup_ledger d) \<and> dup_count d = int (count_list ks (dup_eventId d, dup_ledger d))"
proof -
  have mem: "k \<in> set ks" if "Suc 0 < count_list ks k" for k using that by (metis count_notin not_less0)
  then show ?thesis by (cases d) (force simp: image_iff)
qed

lemma duplicate_query_iff:
  "d \<in> set (DUPLICATE_QUERY coll rows c b e) \<longleftrightarrow> 1 < dup_count d \<and> b \<le> dup_ledger d \<and> dup_ledger d \<le> e \<and>
     dup_count d = int (length (filter (\<lambda>r. er_contract r = c \<and> er_event r = dup_eventId d \<and> er_ledger r = dup_ledger d) rows))"
proof -
  let ?keys = "map (\<lambda>r. (er_event r, er_ledger r)) (contract_rows rows c b e)"
  have count: "count_list ?keys (x, l) = (if b \<le> l \<and> l \<le> e
      then length (filter (\<lambda>r. er_contract r = c \<and> er_event r = x \<and> er_ledger r = l) rows) else 0)" for x l
    by (induction rows) (auto simp: contract_rows_def)
  have "d \<in> set (DUPLICATE_QUERY coll rows c b e) \<longleftrightarrow>
      1 < count_list ?keys (dup_eventId d, dup_ledger d) \<and> dup_count d = int (count_list ?keys (dup_eventId d, dup_ledger d))"
    unfolding counted_rows_iff [symmetric] by (simp only: DUPLICATE_QUERY_def Let_def set_sort)
  then show ?thesis unfolding count by auto
qed

lemma gap_query_cells:
  "GAP_QUERY rows c b e =
     concat (map (\<lambda>l. if \<exists>r \<in> set rows. er_contract r = c \<and> er_ledger r = l then [] else [l]) [b..e])"
proof -
  have cells: "filter P xs = concat (map (\<lambda>x. if P x then [x] else []) xs)" for P :: "int \<Rightarrow> bool" and xs
    by (induction xs) auto
  show ?thesis unfolding GAP_QUERY_def cells
    by (rule arg_cong [where f = concat], rule map_cong) (auto simp: contract_rows_def)
qed

lemma chunks_recover:
  fixes coll :: "string \<Rightarrow> string" and c :: string and p :: pool and mn mx :: int
  assumes "\<forall>b \<in> set (chunk_starts mn mx). chunk_recovers p b (chunk_end mx b)"
  defines "rs \<equiv> map (check_chunk coll p c mx) (chunk_starts mn mx)"
  shows "filter (\<lambda>r. cr_error r = None \<or> cr_error r = Some []) rs = rs"
    and "find (\<lambda>r. cr_error r \<noteq> None) rs = None"
    and "concat (map cr_gaps rs) = GAP_QUERY (pool_rows p) c mn mx"
    and "set (concat (map cr_duplicates rs)) = set (DUPLICATE_QUERY coll (pool_rows p) c mn mx)"
proof -
  let ?bs = "chunk_starts mn mx"
  have one: "check_chunk coll p c mx b = \<lparr>cr_gaps = GAP_QUERY (pool_rows p) c b (chunk_end mx b),
      cr_duplicates = DUPLICATE_QUERY coll (pool_rows p) c b (chunk_end mx b), cr_error = None\<rparr>" if "b \<in> set ?bs" for b
    using check_chunk_recovers assms(1) that by blast
  show "filter (\<lambda>r. cr_error r = None \<or> cr_error r = Some []) rs = rs" "find (\<lambda>r. cr_error r \<noteq> None) rs = None"
    using one by (auto simp: rs_def find_None_iff)
  have "concat (map cr_gaps rs) = concat (map (\<lambda>b. GAP_QUERY (pool_rows p) c b (chunk_end mx b)) ?bs)"
    using one by (simp add: rs_def cong: map_cong)
  also have "\<dots> = GAP_QUERY (pool_rows p) c mn mx"
    unfolding gap_query_cells by (rule concat_chunks) (rule refl)
  finally show "concat (map cr_gaps rs) = GAP_QUERY (pool_rows p) c mn mx" .
  have "set (concat (map cr_duplicates rs)) = (\<Union>b \<in> set ?bs. set (DUPLICATE_QUERY coll (pool_rows p) c b (chunk_end mx b)))"
    using one by (auto simp: rs_def)
  also have "\<dots> = set (DUPLICATE_QUERY coll (pool_rows p) c mn mx)"
  proof (rule set_eqI)
    fix d
    show "d \<in> (\<Union>b \<in> set ?bs. set (DUPLICATE_QUERY coll (pool_rows p) c b (chunk_end mx b))) \<longleftrightarrow>
      d \<in> set (DUPLICATE_QUERY coll (pool_rows p) c mn mx)"
      using chunk_starts_cover [of "dup_ledger d" mn mx] chunk_starts_bounds [of _ mn mx]
      by (auto simp: duplicate_query_iff) force+
  qed
  finally show "set (concat (map cr_duplicates rs)) = set (DUPLICATE_QUERY coll (pool_rows p) c mn mx)" .
qed

text \<open>(C19) The integrity check is exact. When every chunk succeeds within the retry budget, splitting the range into
  chunks and retrying them loses nothing: the gaps are exactly the ledgers between the first and the last
  ledger of the contract that have no event, in order and each once; the duplicates are exactly the events of
  the requested range that are stored more than once, with their number of rows; and no error is returned.\<close>

theorem integrity_exact:
  assumes "pool_range_fail p = None"
    and "RANGE_QUERY (pool_rows p) c (min f t) (max f t) = Some (mn, mx)"
    and "\<forall>b \<in> set (chunk_starts mn mx). chunk_recovers p b (chunk_end mx b)"
  shows "ri_error (checkReplayIntegrity coll p c f t) = None \<and>
    ri_gaps (checkReplayIntegrity coll p c f t) =
      filter (\<lambda>l. \<not> (\<exists>r \<in> set (pool_rows p). er_contract r = c \<and> er_ledger r = l)) [mn..mx] \<and>
    (\<forall>d. d \<in> set (ri_duplicates (checkReplayIntegrity coll p c f t)) \<longleftrightarrow>
       1 < dup_count d \<and> min f t \<le> dup_ledger d \<and> dup_ledger d \<le> max f t \<and>
       dup_count d = int (length (filter (\<lambda>r. er_contract r = c \<and> er_event r = dup_eventId d \<and>
         er_ledger r = dup_ledger d) (pool_rows p))))"
proof (intro conjI allI)
  note rs = chunks_recover [OF assms(3), where coll = coll and c = c]
  let ?r = "checkReplayIntegrity coll p c f t"
  show "ri_error ?r = None"
    using assms(1,2) rs(2) by (simp add: checkReplayIntegrity_def Let_def)
  have gaps: "GAP_QUERY (pool_rows p) c mn mx =
      filter (\<lambda>l. \<not> (\<exists>r \<in> set (pool_rows p). er_contract r = c \<and> er_ledger r = l)) [mn..mx]"
    by (auto simp: GAP_QUERY_def contract_rows_def intro!: filter_cong)
  show "ri_gaps ?r = filter (\<lambda>l. \<not> (\<exists>r \<in> set (pool_rows p). er_contract r = c \<and> er_ledger r = l)) [mn..mx]"
    using assms(1,2) rs(1,3) by (simp add: checkReplayIntegrity_def Let_def gaps sorted_sort_id sorted_wrt_filter)
  fix d :: duplicate_row
  let ?n = "int (length (filter (\<lambda>r. er_contract r = c \<and> er_event r = dup_eventId d \<and> er_ledger r = dup_ledger d) (pool_rows p)))"
  have dups: "set (ri_duplicates ?r) = set (DUPLICATE_QUERY coll (pool_rows p) c mn mx)"
    using assms(1,2) rs(1,4) by (simp add: checkReplayIntegrity_def Let_def)
  have "mn \<le> dup_ledger d \<and> dup_ledger d \<le> mx \<longleftrightarrow> min f t \<le> dup_ledger d \<and> dup_ledger d \<le> max f t" if "1 < ?n"
  proof -
    have "filter (\<lambda>r. er_contract r = c \<and> er_event r = dup_eventId d \<and> er_ledger r = dup_ledger d) (pool_rows p) \<noteq> []"
      using that by (metis list.size(3) of_nat_0 not_one_less_zero)
    then obtain r where r: "r \<in> set (pool_rows p)" "er_contract r = c" "er_ledger r = dup_ledger d"
      by (auto simp: filter_empty_conv)
    note rq = range_query_bounds [OF assms(2)]
    show ?thesis using rq [THEN conjunct1, rule_format, OF r(1,2)] rq [THEN conjunct2] r(3) by (metis order_trans)
  qed
  then show "d \<in> set (ri_duplicates ?r) \<longleftrightarrow>
      1 < dup_count d \<and> min f t \<le> dup_ledger d \<and> dup_ledger d \<le> max f t \<and> dup_count d = ?n"
    unfolding dups duplicate_query_iff by metis
qed

text \<open>The event of ledger 12 is missing and the event \<open>b\<close> is stored twice; the first attempt on the chunk fails.\<close>

definition example_pool :: pool where
  "example_pool = \<lparr>pool_rows = [\<lparr>er_contract = ''C'', er_ledger = 11, er_event = ''a''\<rparr>,
       \<lparr>er_contract = ''C'', er_ledger = 13, er_event = ''b''\<rparr>, \<lparr>er_contract = ''C'', er_ledger = 13, er_event = ''b''\<rparr>],
     pool_range_fail = None, pool_fail = (\<lambda>_ _ i. if i = 0 then Some ''timeout'' else None)\<rparr>"

theorem integrity_exact_witness:
  "ri_error (checkReplayIntegrity id example_pool ''C'' 20 1) = None \<and>
   ri_gaps (checkReplayIntegrity id example_pool ''C'' 20 1) = [12] \<and>
   \<lparr>dup_eventId = ''b'', dup_ledger = 13, dup_count = 2\<rparr> \<in> set (ri_duplicates (checkReplayIntegrity id example_pool ''C'' 20 1))"
proof -
  have range: "RANGE_QUERY (pool_rows example_pool) ''C'' (min 20 1) (max 20 1) = Some (11, 13)" by code_simp
  have "chunk_recovers example_pool b e" for b e
    by (auto simp: chunk_recovers_def example_pool_def INTEGRITY_RETRY_BUDGET_def intro!: exI [of _ 1])
  then have rec: "\<forall>b \<in> set (chunk_starts 11 13). chunk_recovers example_pool b (chunk_end 13 b)" by blast
  have fail: "pool_range_fail example_pool = None" by (simp add: example_pool_def)
  note r = integrity_exact [OF fail range rec, of id]
  have gaps: "filter (\<lambda>l. \<not> (\<exists>r \<in> set (pool_rows example_pool). er_contract r = ''C'' \<and> er_ledger r = l)) [11..13] = [12]"
    by code_simp
  have dup: "1 < dup_count d \<and> min 20 1 \<le> dup_ledger d \<and> dup_ledger d \<le> max 20 1 \<and>
       dup_count d = int (length (filter (\<lambda>r. er_contract r = ''C'' \<and> er_event r = dup_eventId d \<and>
         er_ledger r = dup_ledger d) (pool_rows example_pool)))"
    if "d = \<lparr>dup_eventId = ''b'', dup_ledger = 13, dup_count = 2\<rparr>" for d
    unfolding that example_pool_def by simp
  show ?thesis using r dup [OF refl] unfolding gaps by blast
qed

text \<open>A chunk that fails is never silent. If every attempt on one of the chunks fails, the result carries an
  error, so that the caller does not take the absence of gaps for continuity.\<close>

theorem failed_chunk_reported:
  assumes "pool_range_fail p = None"
    and "RANGE_QUERY (pool_rows p) c (min f t) (max f t) = Some (mn, mx)"
    and "b \<in> set (chunk_starts mn mx)"
    and "\<forall>k < INTEGRITY_RETRY_BUDGET. pool_fail p b (chunk_end mx b) k \<noteq> None"
  shows "ri_error (checkReplayIntegrity coll p c f t) \<noteq> None"
proof -
  let ?rs = "map (check_chunk coll p c mx) (chunk_starts mn mx)"
  have "cr_error (check_chunk coll p c mx b) \<noteq> None" using retry_fails [OF assms(4)] by (simp add: check_chunk_def)
  then obtain r where "find (\<lambda>r. cr_error r \<noteq> None) ?rs = Some r"
    using assms(3) by (cases "find (\<lambda>r. cr_error r \<noteq> None) ?rs") (auto simp: find_None_iff)
  moreover from this have "cr_error r \<noteq> None" by (auto simp: find_Some_iff)
  ultimately show ?thesis using assms(1,2) by (simp add: checkReplayIntegrity_def Let_def)
qed

theorem failed_chunk_reported_witness:
  "ri_error (checkReplayIntegrity id (example_pool\<lparr>pool_fail := \<lambda>_ _ _. Some ''down''\<rparr>) ''C'' 20 1) \<noteq> None"
proof -
  let ?p = "example_pool\<lparr>pool_fail := \<lambda>_ _ _. Some ''down''\<rparr>"
  have range: "RANGE_QUERY (pool_rows ?p) ''C'' (min 20 1) (max 20 1) = Some (11, 13)" by code_simp
  have mem: "11 \<in> set (chunk_starts 11 13)" by (subst chunk_starts.simps) simp
  show ?thesis by (rule failed_chunk_reported [OF _ range mem]) (simp_all add: example_pool_def)
qed

end
