(* ===== verification/Stellar_Address.thy ===== *)
theory Stellar_Address
  imports Fluxora_Prelude "HOL-Library.Word"
begin

unbundle bit_operations_syntax

text \<open>
  Stellar addresses, \<open>src/validation/stellarAddress.ts\<close>: base32 decoding, the CRC16-XModem checksum and the
  classification of StrKeys.

  JavaScript's bitwise operators work on 32-bit integers: the accumulator of the decoder is a \<open>32 word\<close>, whose
  upper bits overflow after seven characters, and \<open>>>\<close> is the arithmetic shift. Decoded bytes are \<open>8 word\<close>s; the
  checksum register is masked to 16 bits after every step and is a \<open>16 word\<close>.

  The lemmas: the overflow of the accumulator is harmless, the decoder computes the big-endian bytes of the
  number the string denotes in base 32; both decoder and checksum are linear over exclusive or, from which
  follows that one mistyped character is always noticed in an address of 56 characters.
\<close>

section \<open>Data\<close>

definition STELLAR_STRKEY_LENGTH :: nat where "STELLAR_STRKEY_LENGTH = 56"
definition STELLAR_STRKEY_DECODED_LENGTH :: nat where "STELLAR_STRKEY_DECODED_LENGTH = 35"
definition STELLAR_STRKEY_PAYLOAD_LENGTH :: nat where "STELLAR_STRKEY_PAYLOAD_LENGTH = 33"
definition STELLAR_MUXED_STRKEY_LENGTH :: nat where "STELLAR_MUXED_STRKEY_LENGTH = 69"
definition STELLAR_MUXED_STRKEY_DECODED_LENGTH :: nat where "STELLAR_MUXED_STRKEY_DECODED_LENGTH = 43"
definition STELLAR_MUXED_STRKEY_PAYLOAD_LENGTH :: nat where "STELLAR_MUXED_STRKEY_PAYLOAD_LENGTH = 41"

definition STELLAR_STRKEY_ALPHABET :: string where
  "STELLAR_STRKEY_ALPHABET = ''ABCDEFGHIJKLMNOPQRSTUVWXYZ234567''"

datatype StellarAddressKind = Account | Muxed | Contract | Seed | PreAuthTx | HashX | Invalid

record AddressClassification =
  ac_kind :: StellarAddressKind
  ac_valid :: bool
  ac_reason :: "string option"

definition VERSION_TO_KIND :: "8 word \<Rightarrow> StellarAddressKind" where
  "VERSION_TO_KIND v =
     (if v = push_bit 3 6 then Account
      else if v = push_bit 3 12 then Muxed
      else if v = push_bit 3 2 then Contract
      else if v = push_bit 3 18 then Seed
      else if v = push_bit 3 19 then PreAuthTx
      else if v = push_bit 3 23 then HashX
      else Invalid)"

section \<open>Operations\<close>

text \<open>The loop of the decoder: \<open>bits\<close> pending bits in \<open>current\<close>, and the bytes so far.\<close>

fun decode_loop :: "string \<Rightarrow> nat \<Rightarrow> 32 word \<Rightarrow> 8 word list \<Rightarrow> 8 word list option" where
  "decode_loop [] bits current bytes = Some bytes"
| "decode_loop (char # value) bits current bytes =
     (case index_of char STELLAR_STRKEY_ALPHABET of
        None \<Rightarrow> None
      | Some digit \<Rightarrow>
          let current' = push_bit 5 current OR of_nat digit;
              bits' = bits + 5
          in if 8 \<le> bits'
             then decode_loop value (bits' - 8) current'
                    (bytes @ [ucast (signed_drop_bit (bits' - 8) current' AND 0xff)])
             else decode_loop value bits' current' bytes)"

definition decodeStellarBase32 :: "string \<Rightarrow> 8 word list option" where
  "decodeStellarBase32 value = decode_loop value 0 0 []"

definition crc_bit :: "16 word \<Rightarrow> 16 word" where
  "crc_bit crc = (if crc AND 0x8000 \<noteq> 0 then push_bit 1 crc XOR 0x1021 else push_bit 1 crc)"

definition crc_byte :: "16 word \<Rightarrow> 8 word \<Rightarrow> 16 word" where
  "crc_byte crc byte = (crc_bit ^^ 8) (crc XOR push_bit 8 (ucast byte))"

definition crc16XModem :: "8 word list \<Rightarrow> 16 word" where
  "crc16XModem bytes = foldl crc_byte 0 bytes"

definition show_hex :: "8 word \<Rightarrow> string" where
  "show_hex w = (let n = unat w in if n < 16 then [hex_digit n] else [hex_digit (n div 16), hex_digit (n mod 16)])"

definition invalid_address :: "StellarAddressKind \<Rightarrow> string \<Rightarrow> AddressClassification" where
  "invalid_address kind reason = \<lparr>ac_kind = kind, ac_valid = False, ac_reason = Some reason\<rparr>"

definition classifyStellarAddress :: "jsval \<Rightarrow> AddressClassification" where
  "classifyStellarAddress value =
     (case value of
        JString s \<Rightarrow>
          let isMuxed = (length s = STELLAR_MUXED_STRKEY_LENGTH);
              expectedLength = (if isMuxed then STELLAR_MUXED_STRKEY_LENGTH else STELLAR_STRKEY_LENGTH)
          in if length s \<noteq> expectedLength
             then invalid_address Invalid
                    (''expected '' @ show_nat expectedLength @ '' characters, got '' @ show_nat (length s))
             else if s = [] \<or> \<not> list_all (\<lambda>c. c \<in> set STELLAR_STRKEY_ALPHABET) s
             then invalid_address Invalid
                    ''address contains characters outside the Stellar base32 alphabet (expected uppercase A-Z and 2-7)''
             else (case decodeStellarBase32 s of
                     None \<Rightarrow> invalid_address Invalid ''base32 decoding failed''
                   | Some decoded \<Rightarrow>
                       let expectedDecodedLength = (if isMuxed then STELLAR_MUXED_STRKEY_DECODED_LENGTH
                                                    else STELLAR_STRKEY_DECODED_LENGTH);
                           versionByte = decoded ! 0;
                           kind = VERSION_TO_KIND versionByte;
                           payloadLength = (if isMuxed then STELLAR_MUXED_STRKEY_PAYLOAD_LENGTH
                                            else STELLAR_STRKEY_PAYLOAD_LENGTH);
                           actualChecksum = (ucast (decoded ! payloadLength) OR
                             push_bit 8 (ucast (decoded ! (payloadLength + 1))) :: 16 word)
                       in if length decoded \<noteq> expectedDecodedLength
                          then invalid_address Invalid ''base32 decoding failed''
                          else if kind = Invalid
                          then invalid_address Invalid (''unrecognized StrKey version byte 0x'' @ show_hex versionByte)
                          else if crc16XModem (take payloadLength decoded) \<noteq> actualChecksum
                          then invalid_address kind ''StrKey checksum mismatch''
                          else \<lparr>ac_kind = kind, ac_valid = True, ac_reason = None\<rparr>)
      | _ \<Rightarrow> invalid_address Invalid ''address must be a string'')"

definition isValidStellarAccountAddress :: "jsval \<Rightarrow> bool" where
  "isValidStellarAccountAddress value =
     (let classification = classifyStellarAddress value
      in ac_valid classification \<and> ac_kind classification = Account)"

section \<open>The decoder computes the bytes of a number\<close>

text \<open>The number a list of 5-bit digits denotes, and the \<open>n\<close> low bytes of a number, most significant first.\<close>

definition digits5 :: "nat list \<Rightarrow> nat" where
  "digits5 ds = foldl (\<lambda>n d. push_bit 5 n XOR d) 0 ds"

fun be_bytes :: "nat \<Rightarrow> nat \<Rightarrow> 8 word list" where
  "be_bytes 0 m = []"
| "be_bytes (Suc n) m = be_bytes n (drop_bit 8 m) @ [of_nat m]"

definition char_digit :: "char \<Rightarrow> nat" where
  "char_digit c = the (index_of c STELLAR_STRKEY_ALPHABET)"

lemma length_be_bytes [simp]: "length (be_bytes n m) = n"
  by (induction n arbitrary: m) auto

lemma index_of_less: "index_of c s = Some i \<Longrightarrow> i < length s \<and> s ! i = c"
  by (induction s arbitrary: i) (auto split: if_splits option.splits)

lemma alphabet_digit:
  assumes "c \<in> set STELLAR_STRKEY_ALPHABET"
  shows "index_of c STELLAR_STRKEY_ALPHABET = Some (char_digit c) \<and> char_digit c < 32 \<and>
    STELLAR_STRKEY_ALPHABET ! char_digit c = c"
proof -
  obtain i where i: "index_of c STELLAR_STRKEY_ALPHABET = Some i"
    using assms index_of_None [of c STELLAR_STRKEY_ALPHABET] by auto
  then show ?thesis using index_of_less [OF i] by (simp add: char_digit_def STELLAR_STRKEY_ALPHABET_def)
qed

lemma digit_high_bit: "d < 32 \<Longrightarrow> 5 \<le> n \<Longrightarrow> \<not> bit (d :: nat) n"
proof -
  assume "d < 32" "5 \<le> n"
  then have "d < 2 ^ n" by (rule less_le_trans [OF _ power_increasing [of 5 n 2, simplified]]) simp_all
  then show ?thesis by (simp add: bit_iff_odd)
qed

lemma push_digit:
  assumes "(d :: nat) < 32"
  shows "push_bit 5 m OR d = push_bit 5 m XOR d" "drop_bit 5 (push_bit 5 m XOR d) = m"
proof -
  show "push_bit 5 m OR d = push_bit 5 m XOR d"
    using digit_high_bit [OF assms] by (intro bit_eqI) (auto simp: bit_simps)
  show "drop_bit 5 (push_bit 5 m XOR d) = m"
    using digit_high_bit [OF assms] by (intro bit_eqI) (auto simp: bit_simps)
qed

lemma loop_byte:
  assumes "b \<le> 4"
  shows "ucast (signed_drop_bit b (of_nat m :: 32 word) AND 0xff) = (of_nat (drop_bit b m) :: 8 word)"
proof (rule bit_word_eqI)
  fix n
  assume "n < LENGTH(8)"
  then have n: "n < 8" by simp
  have ff: "(0xff :: 32 word) = mask 8" by (simp add: mask_eq_exp_minus_1)
  show "bit (ucast (signed_drop_bit b (of_nat m :: 32 word) AND 0xff) :: 8 word) n =
      bit (of_nat (drop_bit b m) :: 8 word) n"
    unfolding ff using n assms by (auto simp: bit_simps)
qed

lemma decode_loop_number:
  "list_all (\<lambda>c. c \<in> set STELLAR_STRKEY_ALPHABET) cs \<Longrightarrow> bits < 8 \<Longrightarrow>
   decode_loop cs bits (of_nat m) (be_bytes k (drop_bit bits m)) =
     Some (be_bytes (k + (bits + 5 * length cs) div 8)
       (drop_bit ((bits + 5 * length cs) mod 8) (foldl (\<lambda>n d. push_bit 5 n XOR d) m (map char_digit cs))))"
proof (induction cs arbitrary: bits m k)
  case (Cons c cs)
  let ?d = "char_digit c" and ?m = "push_bit 5 m XOR char_digit c"
  have d: "index_of c STELLAR_STRKEY_ALPHABET = Some ?d" "?d < 32" using Cons.prems(1) alphabet_digit by auto
  have cur: "push_bit 5 (of_nat m) OR of_nat ?d = (of_nat ?m :: 32 word)"
    by (simp only: push_digit(1) [OF d(2), symmetric] of_nat_or_eq push_bit_of_nat)
  have drop: "drop_bit bits m = drop_bit (bits + 5) ?m"
    by (simp only: drop_bit_drop_bit [symmetric] push_digit(2) [OF d(2)])
  have cs: "list_all (\<lambda>c. c \<in> set STELLAR_STRKEY_ALPHABET) cs" using Cons.prems(1) by simp
  show ?case
  proof (cases "8 \<le> bits + 5")
    case True
    then have b: "bits + 5 - 8 \<le> 4" "bits + 5 - 8 < 8" "bits + 5 - 8 + 8 = bits + 5" using Cons.prems(2) by auto
    have "be_bytes k (drop_bit bits m) @ [of_nat (drop_bit (bits + 5 - 8) ?m)] = be_bytes (Suc k) (drop_bit (bits + 5 - 8) ?m)"
      using b(3) by (simp add: drop drop_bit_drop_bit add.commute)
    moreover have e: "bits + 5 * length (c # cs) = bits + 5 - 8 + 5 * length cs + 8" using b(3) by simp
    have "Suc k + (bits + 5 - 8 + 5 * length cs) div 8 = k + (bits + 5 * length (c # cs)) div 8"
      "(bits + 5 - 8 + 5 * length cs) mod 8 = (bits + 5 * length (c # cs)) mod 8"
      unfolding e div_add_self2 [OF numeral_neq_zero] mod_add_self2 by simp_all
    ultimately show ?thesis
      using Cons.IH [OF cs b(2), of ?m "Suc k"] True by (simp only: decode_loop.simps d(1) option.case Let_def cur loop_byte [OF b(1)] if_True list.map foldl_Cons)
  next
    case False
    then have b: "bits + 5 < 8" by simp
    show ?thesis
      using Cons.IH [OF cs b, of ?m k] False by (simp only: decode_loop.simps d(1) option.case Let_def cur if_False list.map foldl_Cons drop) (simp add: add.assoc)
  qed
qed simp

lemma decode_number:
  assumes "list_all (\<lambda>c. c \<in> set STELLAR_STRKEY_ALPHABET) cs"
  shows "decodeStellarBase32 cs = Some (be_bytes (5 * length cs div 8)
    (drop_bit (5 * length cs mod 8) (digits5 (map char_digit cs))))"
  using decode_loop_number [OF assms, of 0 0 0] by (simp add: decodeStellarBase32_def digits5_def)

section \<open>Linearity\<close>

lemma digits5_fold_xor:
  "length ds = length es \<Longrightarrow>
   foldl (\<lambda>n d. push_bit 5 n XOR d) (m XOR n) (map2 (XOR) ds es) =
   foldl (\<lambda>n d. push_bit 5 n XOR d) m ds XOR foldl (\<lambda>n d. push_bit 5 n XOR d) (n :: nat) es"
proof (induction ds es arbitrary: m n rule: list_induct2)
  case (Cons d ds e es)
  have "push_bit 5 (m XOR n) XOR (d XOR e) = (push_bit 5 m XOR d) XOR (push_bit 5 n XOR e)"
    by (simp add: push_bit_xor ac_simps)
  then show ?case using Cons.IH [of "push_bit 5 m XOR d" "push_bit 5 n XOR e"] by simp
qed simp

lemma digits5_xor: "length ds = length es \<Longrightarrow> digits5 (map2 (XOR) ds es) = digits5 ds XOR digits5 es"
  using digits5_fold_xor [of ds es 0 0] by (simp add: digits5_def)

lemma digits5_zeros: "foldl (\<lambda>n d. push_bit 5 n XOR d) (m :: nat) (replicate k 0) = push_bit (5 * k) m"
  by (induction k arbitrary: m) (simp_all add: add.commute)

lemma digits5_single: "digits5 (replicate a 0 @ e # replicate k 0) = push_bit (5 * k) e"
  using digits5_zeros [of 0 a] by (simp add: digits5_def digits5_zeros)

lemma be_bytes_xor: "be_bytes n (m XOR m') = map2 (XOR) (be_bytes n m) (be_bytes n m')"
  by (induction n arbitrary: m m') (simp_all add: of_nat_xor_eq)

lemma crc_bit_xor: "crc_bit (a XOR b) = crc_bit a XOR crc_bit b"
proof -
  have top: "c AND 0x8000 \<noteq> 0 \<longleftrightarrow> bit c 15" for c :: "16 word"
    using and_exp_eq_0_iff_not_bit [of c 15] by simp
  show ?thesis unfolding crc_bit_def top
    by (cases "bit a 15"; cases "bit b 15") (simp_all add: bit_xor_iff push_bit_xor ac_simps)
qed

lemma crc_bits_xor: "(crc_bit ^^ n) (a XOR b) = (crc_bit ^^ n) a XOR (crc_bit ^^ n) b"
  by (induction n) (simp_all add: crc_bit_xor)

lemma crc_bit_0 [simp]: "crc_bit c = 0 \<longleftrightarrow> c = 0"
proof
  assume c: "crc_bit c = 0"
  have top: "c AND 0x8000 \<noteq> 0 \<longleftrightarrow> bit c 15" using and_exp_eq_0_iff_not_bit [of c 15] by simp
  have "\<not> bit (crc_bit c) 0" using c by simp
  then have n: "\<not> bit c 15" by (auto simp: crc_bit_def top bit_0 even_xor_iff)
  show "c = 0"
  proof (rule bit_word_eqI)
    fix n assume "n < LENGTH(16)"
    then show "bit c n = bit 0 n"
    proof (cases "n = 15")
      case False
      then have "bit (push_bit 1 c) (Suc n) = bit c n" using \<open>n < LENGTH(16)\<close> by (simp only: bit_push_bit_iff) simp
      then show ?thesis using c n by (simp add: crc_bit_def top)
    qed (use n in simp)
  qed
qed (simp add: crc_bit_def)

lemma crc_bits_0 [simp]: "(crc_bit ^^ n) c = 0 \<longleftrightarrow> c = 0"
  by (induction n) simp_all

lemma crc_fold_xor:
  "length xs = length ys \<Longrightarrow> foldl crc_byte (a XOR b) (map2 (XOR) xs ys) = foldl crc_byte a xs XOR foldl crc_byte b ys"
proof (induction xs ys arbitrary: a b rule: list_induct2)
  case (Cons x xs y ys)
  have "ucast (x XOR y) = (ucast x XOR ucast y :: 16 word)"
    by (rule bit_word_eqI) (simp add: bit_simps)
  then have "crc_byte (a XOR b) (x XOR y) = crc_byte a x XOR crc_byte b y"
    unfolding crc_byte_def crc_bits_xor [symmetric] by (simp add: push_bit_xor ac_simps)
  then show ?case using Cons.IH by simp
qed simp

lemma crc_xor: "length xs = length ys \<Longrightarrow> crc16XModem (map2 (XOR) xs ys) = crc16XModem xs XOR crc16XModem ys"
  using crc_fold_xor [of xs ys 0 0] by (simp add: crc16XModem_def)

section \<open>An error of a few bits does not cancel\<close>

lemma crc_zeros: "foldl crc_byte c (replicate n 0) = (crc_bit ^^ (8 * n)) c"
proof (induction n arbitrary: c)
  case (Suc n)
  have "foldl crc_byte c (replicate (Suc n) 0) = foldl crc_byte ((crc_bit ^^ 8) c) (replicate n 0)"
    by (simp add: crc_byte_def)
  also have "\<dots> = (crc_bit ^^ (8 * n + 8)) c" unfolding Suc.IH by (simp only: funpow_add comp_apply)
  finally show ?case by (simp only: mult_Suc_right add.commute)
qed simp

lemma crc_leading_zeros: "foldl crc_byte 0 (replicate n 0 @ xs) = foldl crc_byte 0 xs"
proof -
  have "(crc_bit ^^ (8 * n)) 0 = 0" by (simp only: crc_bits_0)
  then show ?thesis by (simp only: foldl_append crc_zeros)
qed

lemma crc_low_byte: "(crc_bit ^^ 8) (ucast (y :: 8 word)) = push_bit 8 (ucast y)"
proof -
  have top: "c AND 0x8000 \<noteq> 0 \<longleftrightarrow> bit c 15" for c :: "16 word"
    using and_exp_eq_0_iff_not_bit [of c 15] by simp
  have "(crc_bit ^^ k) (ucast y) = push_bit k (ucast y)" if "k \<le> 8" for k
    using that
  proof (induction k)
    case (Suc k)
    have "\<not> bit (push_bit k (ucast y) :: 16 word) 15" using Suc.prems bit_imp_le_length [of y "15 - k"] by (auto simp: bit_simps)
    then show ?case using Suc by (simp add: crc_bit_def top)
  qed simp
  then show ?thesis by simp
qed

lemma ucast16_0 [simp]: "(ucast (y :: 8 word) :: 16 word) = 0 \<longleftrightarrow> y = 0"
proof
  assume z: "(ucast y :: 16 word) = 0"
  show "y = 0"
  proof (rule bit_word_eqI)
    show "bit y n = bit 0 n" if "n < LENGTH(8)" for n
      using arg_cong [OF z, of "\<lambda>w. bit w n"] that by (simp add: bit_simps)
  qed
qed simp

lemma word_bytes_0: "push_bit 8 (ucast x) XOR ucast y = (0 :: 16 word) \<longleftrightarrow> x = 0 \<and> y = (0 :: 8 word)" for x :: "8 word"
proof
  assume z: "push_bit 8 (ucast x) XOR ucast y = (0 :: 16 word)"
  have "y = 0"
  proof (rule bit_word_eqI)
    show "bit y n = bit 0 n" if "n < LENGTH(8)" for n
      using arg_cong [OF z, of "\<lambda>w. bit w n"] that by (simp add: bit_simps)
  qed
  moreover have "x = 0"
  proof (rule bit_word_eqI)
    show "bit x n = bit 0 n" if "n < LENGTH(8)" for n
      using arg_cong [OF z, of "\<lambda>w. bit w (n + 8)"] that \<open>y = 0\<close> by (simp add: bit_simps)
  qed
  ultimately show "x = 0 \<and> y = 0" by simp
qed simp

text \<open>Two adjacent error bytes in the payload.\<close>

lemma crc_two_bytes: "foldl crc_byte 0 (x # y # replicate n 0) = 0 \<longleftrightarrow> x = 0 \<and> y = 0"
proof -
  have "crc_byte (crc_byte 0 x) y = (crc_bit ^^ 8) ((crc_bit ^^ 8) (push_bit 8 (ucast x) XOR ucast y))"
    unfolding crc_bits_xor crc_low_byte by (simp add: crc_byte_def crc_bits_xor)
  then have "foldl crc_byte 0 (x # y # replicate n 0) = 0 \<longleftrightarrow> push_bit 8 (ucast x) XOR ucast y = (0 :: 16 word)"
    by (simp only: foldl_Cons crc_zeros crc_bits_0)
  then show ?thesis by (simp only: word_bytes_0)
qed

text \<open>An error in the low bits of the last payload byte, running on into the checksum.\<close>

lemma crc_unroll: "(crc_bit ^^ 8) c = crc_bit (crc_bit (crc_bit (crc_bit (crc_bit (crc_bit (crc_bit (crc_bit c)))))))"
  by (simp add: numeral_eq_Suc)

lemma crc_last_byte:
  assumes "unat x < 16" "(crc_bit ^^ 8) (push_bit 8 (ucast x)) = (ucast (y :: 8 word) :: 16 word)"
  shows "x = (0 :: 8 word) \<and> y = 0"
proof -
  have "\<forall>n \<in> {1,2,3,4,5,6,7,8,9,10,11,12,13,14,15 :: nat}. 255 < (unat ((crc_bit ^^ 8) (push_bit 8 (of_nat n))))"
    by (simp add: crc_unroll crc_bit_def)
  moreover have "unat (ucast y :: 16 word) \<le> 255" using unsigned_less [of y, where 'a = nat] by (simp add: unsigned_ucast_eq take_bit_eq_mod)
  moreover have "(ucast x :: 16 word) = of_nat (unat x)" by simp
  moreover have "unat x = 0 \<or> unat x \<in> {1,2,3,4,5,6,7,8,9,10,11,12,13,14,15}"
    using assms(1) by (simp only: insert_iff empty_iff) presburger
  ultimately have "unat x = 0" using assms(2) by (metis not_le)
  then have "x = 0" by (simp add: unat_eq_0)
  moreover have "(ucast y :: 16 word) = 0"
    using assms(2) crc_bits_0 [of 8 0] \<open>x = 0\<close> by (simp only: unsigned_0 push_bit_of_0)
  ultimately show ?thesis by simp
qed

section \<open>The syndrome of a decoded address\<close>

text \<open>The checksum as it follows from the payload, added to the one that is stored: zero exactly when they agree.\<close>

definition syndrome :: "8 word list \<Rightarrow> 16 word" where
  "syndrome ds = crc16XModem (take 33 ds) XOR (push_bit 8 (ucast (ds ! 34)) XOR ucast (ds ! 33))"

lemma ucast16_xor: "ucast (x XOR y) = (ucast x XOR ucast (y :: 8 word) :: 16 word)"
  by (rule bit_word_eqI) (simp add: bit_simps)

lemma syndrome_xor:
  assumes "length xs = 35" "length ys = 35"
  shows "syndrome (map2 (XOR) xs ys) = syndrome xs XOR syndrome ys"
proof -
  have "take 33 (map2 (XOR) xs ys) = map2 (XOR) (take 33 xs) (take 33 ys)" by (simp add: take_map take_zip)
  then have "crc16XModem (take 33 (map2 (XOR) xs ys)) = crc16XModem (take 33 xs) XOR crc16XModem (take 33 ys)"
    using assms crc_xor [of "take 33 xs" "take 33 ys"] by simp
  then show ?thesis
    using assms by (simp add: syndrome_def ucast16_xor push_bit_xor ac_simps)
qed

lemma be_bytes_shift: "q \<le> n \<Longrightarrow> be_bytes n (push_bit (8 * q) m) = be_bytes (n - q) m @ replicate q 0"
proof (induction q arbitrary: n)
  case (Suc q)
  obtain k where k: "n = Suc k" "q \<le> k" using Suc.prems by (cases n) auto
  have p: "push_bit (8 * Suc q) m = push_bit 8 (push_bit (8 * q) m)" by simp
  have "(of_nat (push_bit 8 (push_bit (8 * q) m)) :: 8 word) = 0"
    by (rule bit_word_eqI) (simp add: bit_simps)
  then show ?case using Suc.IH [OF k(2)] unfolding k(1) p
    by (simp add: replicate_append_same drop_bit_push_bit del: push_bit_push_bit)
qed simp

lemma be_bytes_small: "m < 2 ^ 16 \<Longrightarrow> be_bytes (Suc (Suc n)) m = replicate n 0 @ [of_nat (drop_bit 8 m), of_nat m]"
proof -
  assume m: "m < 2 ^ 16"
  have zero: "be_bytes n 0 = replicate n 0" for n
    by (induction n) (simp_all add: replicate_append_same)
  have "drop_bit 8 (drop_bit 8 m) = 0" using m by (simp add: drop_bit_eq_div)
  then show ?thesis by (simp add: zero)
qed

lemma two_bytes_of_nat:
  assumes "m < 4096"
  shows "unat (of_nat (drop_bit 8 m) :: 8 word) < 16" and "(of_nat (drop_bit 8 m) :: 8 word) = 0 \<and> (of_nat m :: 8 word) = 0 \<longleftrightarrow> m = 0"
proof -
  have d: "m div 256 < 16" using assms by simp
  then show "unat (of_nat (drop_bit 8 m) :: 8 word) < 16"
    by (simp add: unat_of_nat drop_bit_eq_div take_bit_eq_mod)
  have "(of_nat (drop_bit 8 m) :: 8 word) = 0 \<longleftrightarrow> m div 256 = 0" "(of_nat m :: 8 word) = 0 \<longleftrightarrow> m mod 256 = 0"
    using d by (simp_all add: word_of_nat_eq_0_iff drop_bit_eq_div dvd_eq_mod_eq_0)
  then show "(of_nat (drop_bit 8 m) :: 8 word) = 0 \<and> (of_nat m :: 8 word) = 0 \<longleftrightarrow> m = 0"
    using div_mult_mod_eq [of m 256] by auto
qed

lemma xor_zero_imp_eq: "a XOR b = 0 \<Longrightarrow> a = b" for a b :: "16 word"
proof -
  assume z: "a XOR b = 0"
  have "a = (a XOR b) XOR b" by (simp add: xor.assoc)
  then show "a = b" by (simp add: z)
qed

lemma syndrome_two_bytes:
  assumes "unat x < 16" "n + q = 33" "syndrome (replicate n 0 @ [x, y] @ replicate q 0) = 0"
  shows "x = 0 \<and> y = 0"
proof -
  let ?ds = "replicate n 0 @ [x, y] @ replicate q 0"
  consider "q = 0" | "q = 1" | "2 \<le> q" by linarith
  then show ?thesis
  proof cases
    case 1
    then have n: "n = 33" using assms(2) by simp
    have "crc16XModem (take 33 ?ds) = 0" using crc_leading_zeros [of 33 "[]"] by (simp add: n crc16XModem_def)
    then show ?thesis using assms(3) 1 n word_bytes_0 [of y x] by (simp add: syndrome_def nth_append)
  next
    case 2
    then have n: "n = 32" using assms(2) by simp
    have "crc16XModem (take 33 ?ds) = (crc_bit ^^ 8) (push_bit 8 (ucast x))"
      using crc_leading_zeros [of 32 "[x]"] 2 by (simp add: n crc16XModem_def crc_byte_def)
    then have "(crc_bit ^^ 8) (push_bit 8 (ucast x)) = (ucast y :: 16 word)"
      using assms(3) 2 n by - (rule xor_zero_imp_eq, simp add: syndrome_def nth_append)
    then show ?thesis by (rule crc_last_byte [OF assms(1)])
  next
    case 3
    then obtain k where k: "q = k + 2" by (metis add.commute le_iff_add)
    have n: "33 = n + Suc (Suc k)" using assms(2) k by simp
    have "take 33 ?ds = replicate n 0 @ x # y # replicate k 0" unfolding n k replicate_add by simp
    then have "syndrome ?ds = foldl crc_byte 0 (x # y # replicate k 0)"
      using assms(2) crc_leading_zeros [of n "x # y # replicate k 0"] by (simp add: syndrome_def k nth_append crc16XModem_def nth_Cons')
    then show ?thesis using assms(3) crc_two_bytes by metis
  qed
qed

lemma syndrome_error:
  assumes "0 < e" "e < 32" "k < 56"
  shows "syndrome (be_bytes 35 (push_bit (5 * k) e)) \<noteq> 0"
proof
  define q r where "q = 5 * k div 8" and "r = 5 * k mod 8"
  let ?f = "push_bit r e"
  have qr: "5 * k = 8 * q + r" "r \<le> 7" "q \<le> 34" using assms(3) by (auto simp: q_def r_def)
  have "2 ^ r \<le> (2 :: nat) ^ 7" using qr(2) by (intro power_increasing) auto
  then have "e * 2 ^ r < 32 * 2 ^ 7" using assms(2) by (intro mult_less_le_imp_less) simp_all
  then have f: "?f < 4096" "?f \<noteq> 0" using assms(1) by (simp_all add: push_bit_eq_mult)
  assume "syndrome (be_bytes 35 (push_bit (5 * k) e)) = 0"
  then have syn: "syndrome (be_bytes (35 - q) ?f @ replicate q 0) = 0"
    using be_bytes_shift [of q 35 ?f] qr(1,3) by simp
  show False
  proof (cases "q = 34")
    case False
    then obtain n where n: "35 - q = Suc (Suc n)" "n + q = 33" using qr(3) by (intro that [of "33 - q"]) auto
    show False
      using syndrome_two_bytes [OF two_bytes_of_nat(1) [OF f(1)] n(2), of "of_nat ?f"] syn f two_bytes_of_nat(2) [OF f(1)]
      by (simp add: n(1) be_bytes_small del: be_bytes.simps)
  next
    case True
    then have "k = 55" using qr(1,2) assms(3) by presburger
    then have r: "r = 3" using qr(1) True by simp
    have "take 33 (of_nat ?f # replicate 34 0) = of_nat ?f # (replicate 32 0 :: 8 word list)" by simp
    moreover have "foldl crc_byte 0 (of_nat ?f # replicate 32 0) = foldl crc_byte 0 (0 # of_nat ?f # replicate 32 0)"
      using crc_leading_zeros [of 1 "of_nat ?f # replicate 32 0"] by simp
    ultimately have "foldl crc_byte 0 (0 # of_nat ?f # replicate 32 0) = 0"
      using syn True by (simp add: syndrome_def crc16XModem_def)
    then have "(of_nat ?f :: 8 word) = 0" using crc_two_bytes by metis
    moreover have "?f < 256" "?f \<noteq> 0" using f(2) assms(2) r by (simp_all add: push_bit_eq_mult)
    ultimately show False by (simp add: word_of_nat_eq_0_iff nat_dvd_not_less)
  qed
qed

section \<open>One mistyped character\<close>

lemma stored_checksum:
  "(ucast (lo :: 8 word) OR push_bit 8 (ucast (hi :: 8 word)) :: 16 word) = push_bit 8 (ucast hi) XOR ucast lo"
proof (rule bit_word_eqI)
  fix n
  assume "n < LENGTH(16)"
  then show "bit (ucast lo OR push_bit 8 (ucast hi) :: 16 word) n = bit (push_bit 8 (ucast hi) XOR ucast lo :: 16 word) n"
    using bit_imp_le_length [of lo n] by (auto simp: bit_simps)
qed

lemma classify_56:
  assumes "length s = 56"
  shows "ac_valid (classifyStellarAddress (JString s)) \<longleftrightarrow>
    list_all (\<lambda>c. c \<in> set STELLAR_STRKEY_ALPHABET) s \<and>
    VERSION_TO_KIND (be_bytes 35 (digits5 (map char_digit s)) ! 0) \<noteq> Invalid \<and>
    syndrome (be_bytes 35 (digits5 (map char_digit s))) = 0"
proof (cases "list_all (\<lambda>c. c \<in> set STELLAR_STRKEY_ALPHABET) s")
  case True
  let ?ds = "be_bytes 35 (digits5 (map char_digit s))"
  have dec: "decodeStellarBase32 s = Some ?ds" using decode_number [OF True] assms by simp
  have syn: "syndrome ?ds = 0 \<longleftrightarrow> crc16XModem (take 33 ?ds) = ucast (?ds ! 33) OR push_bit 8 (ucast (?ds ! 34))"
    unfolding syndrome_def stored_checksum using xor_zero_imp_eq by (metis xor_self_eq)
  have "s \<noteq> []" using assms by auto
  then show ?thesis
    unfolding syn using True assms dec
    by (simp add: classifyStellarAddress_def Let_def invalid_address_def STELLAR_STRKEY_LENGTH_def
        STELLAR_MUXED_STRKEY_LENGTH_def STELLAR_STRKEY_DECODED_LENGTH_def STELLAR_STRKEY_PAYLOAD_LENGTH_def
        del: be_bytes.simps)
qed (simp add: classifyStellarAddress_def Let_def invalid_address_def assms STELLAR_STRKEY_LENGTH_def
      STELLAR_MUXED_STRKEY_LENGTH_def)

lemma xor_digit:
  assumes "(a :: nat) < 32" "b < 32" "a \<noteq> b"
  shows "0 < a XOR b \<and> a XOR b < 32"
proof -
  have "take_bit 5 a = a" "take_bit 5 b = b" using assms(1,2) by (simp_all add: take_bit_nat_eq_self_iff)
  then have "take_bit 5 (a XOR b) = a XOR b" by (simp add: take_bit_xor)
  then have "a XOR b < 2 ^ 5" by (simp only: take_bit_nat_eq_self_iff)
  moreover have "a XOR b \<noteq> 0"
  proof
    assume z: "a XOR b = 0"
    have "a = (a XOR b) XOR b" by (simp add: xor.assoc)
    then show False using assms(3) by (simp add: z)
  qed
  ultimately show ?thesis by simp
qed

lemma map2_xor_update:
  "i < length ds \<Longrightarrow> map2 (XOR) ds (ds[i := d]) = replicate i 0 @ (ds ! i XOR d) # replicate (length ds - i - 1) (0 :: nat)"
proof (induction ds arbitrary: i)
  case (Cons x ds)
  have "map2 (XOR) ds ds = replicate (length ds) (0 :: nat)" by (induction ds) auto
  then show ?case using Cons by (cases i) auto
qed simp

text \<open>(C40) One mistyped character is always noticed. Replacing any single character of a valid address of 56 characters
  (an account, a contract, a seed, ...) by another one gives a string that is not a valid address of any kind.\<close>

theorem single_typo_detected:
  assumes "ac_valid (classifyStellarAddress (JString s))" "length s = 56" "i < 56" "c \<noteq> s ! i"
  shows "\<not> ac_valid (classifyStellarAddress (JString (s[i := c])))"
proof
  let ?ds = "map char_digit s" and ?ds' = "map char_digit (s[i := c])"
  assume v: "ac_valid (classifyStellarAddress (JString (s[i := c])))"
  have len: "length (s[i := c]) = 56" using assms(2) by simp
  have al: "list_all (\<lambda>c. c \<in> set STELLAR_STRKEY_ALPHABET) s" and syn: "syndrome (be_bytes 35 (digits5 ?ds)) = 0"
    using assms(1) classify_56 [OF assms(2)] by auto
  have al': "list_all (\<lambda>c. c \<in> set STELLAR_STRKEY_ALPHABET) (s[i := c])" and syn': "syndrome (be_bytes 35 (digits5 ?ds')) = 0"
    using v classify_56 [OF len] by auto
  have "s ! i \<in> set STELLAR_STRKEY_ALPHABET" "c \<in> set STELLAR_STRKEY_ALPHABET"
    using al al' assms(2,3) by (auto simp: list_all_length)
  then have e: "0 < char_digit (s ! i) XOR char_digit c \<and> char_digit (s ! i) XOR char_digit c < 32"
    using alphabet_digit assms(4) by (intro xor_digit) metis+
  have "map2 (XOR) ?ds ?ds' = replicate i 0 @ (char_digit (s ! i) XOR char_digit c) # replicate (55 - i) 0"
    using map2_xor_update [of i ?ds "char_digit c"] assms(2,3) by (simp add: map_update)
  then have "digits5 ?ds XOR digits5 ?ds' = push_bit (5 * (55 - i)) (char_digit (s ! i) XOR char_digit c)"
    using digits5_xor [of ?ds ?ds'] digits5_single by simp
  then have "syndrome (be_bytes 35 (push_bit (5 * (55 - i)) (char_digit (s ! i) XOR char_digit c))) = 0"
    using syndrome_xor [of "be_bytes 35 (digits5 ?ds)" "be_bytes 35 (digits5 ?ds')"] be_bytes_xor syn syn' by (metis length_be_bytes xor_self_eq)
  moreover have "55 - i < 56" by simp
  ultimately show False using syndrome_error e by blast
qed

text \<open>Evaluation on a concrete address, the account of the all-zero key.\<close>

lemma be_bytes_numeral: "be_bytes (numeral k) m = be_bytes (pred_numeral k) (drop_bit 8 m) @ [of_nat m]"
  by (simp add: numeral_eq_Suc)

lemma crc_zero_account: "crc16XModem [0x30, 0, 0, 0, 0, 0, 0, 0, 0, 0, 0, 0, 0, 0, 0, 0, 0, 0, 0, 0, 0, 0, 0, 0, 0, 0, 0, 0, 0, 0, 0, 0, 0] = 58712"
  by (simp add: crc16XModem_def crc_byte_def crc_unroll crc_bit_def)

lemma zero_account_valid:
  "ac_valid (classifyStellarAddress (JString ''GAAAAAAAAAAAAAAAAAAAAAAAAAAAAAAAAAAAAAAAAAAAAAAAAAAAAWHF''))"
proof -
  let ?s = "''GAAAAAAAAAAAAAAAAAAAAAAAAAAAAAAAAAAAAAAAAAAAAAAAAAAAAWHF''"
  have "map char_digit ?s = [6, 0, 0, 0, 0, 0, 0, 0, 0, 0, 0, 0, 0, 0, 0, 0, 0, 0, 0, 0, 0, 0, 0, 0, 0, 0, 0, 0, 0, 0, 0, 0, 0, 0, 0, 0, 0, 0, 0, 0, 0, 0, 0, 0, 0, 0, 0, 0, 0, 0, 0, 0, 0, 22, 7, 5]"
    by (simp add: char_digit_def STELLAR_STRKEY_ALPHABET_def)
  then have "digits5 (map char_digit ?s) =
      364250417292324200797399107529409794995451282322276160234714826826044553475976616165"
    by (simp add: digits5_def)
  then have bytes: "be_bytes 35 (digits5 (map char_digit ?s)) =
      [0x30, 0, 0, 0, 0, 0, 0, 0, 0, 0, 0, 0, 0, 0, 0, 0, 0, 0, 0, 0, 0, 0, 0, 0, 0, 0, 0, 0, 0, 0, 0, 0, 0, 88, 229]"
    by (simp add: be_bytes_numeral)
  have "syndrome (be_bytes 35 (digits5 (map char_digit ?s))) = 0"
    unfolding bytes syndrome_def using crc_zero_account by simp
  moreover have "VERSION_TO_KIND (be_bytes 35 (digits5 (map char_digit ?s)) ! 0) \<noteq> Invalid"
    unfolding bytes by (simp add: VERSION_TO_KIND_def)
  moreover have "list_all (\<lambda>c. c \<in> set STELLAR_STRKEY_ALPHABET) ?s" by (simp add: STELLAR_STRKEY_ALPHABET_def)
  ultimately show ?thesis using classify_56 [of ?s] by simp
qed

theorem single_typo_detected_witness:
  "ac_valid (classifyStellarAddress (JString ''GAAAAAAAAAAAAAAAAAAAAAAAAAAAAAAAAAAAAAAAAAAAAAAAAAAAAWHF'')) \<and>
   \<not> ac_valid (classifyStellarAddress (JString (''GAAAAAAAAAAAAAAAAAAAAAAAAAAAAAAAAAAAAAAAAAAAAAAAAAAAAWHF''[5 := CHR ''B''])))"
  using single_typo_detected [OF zero_account_valid, of 5 "CHR ''B''"] zero_account_valid by simp

section \<open>One string per address\<close>

lemma digits5_snoc: "digits5 (ds @ [d]) = push_bit 5 (digits5 ds) XOR d"
  by (simp add: digits5_def)

lemma digits5_less: "list_all (\<lambda>d. d < 32) ds \<Longrightarrow> digits5 ds < 2 ^ (5 * length ds)"
proof (induction ds rule: rev_induct)
  case (snoc d ds)
  have "take_bit (5 * length (ds @ [d])) (digits5 (ds @ [d])) = digits5 (ds @ [d])"
  proof -
    have "take_bit (5 * length ds) (digits5 ds) = digits5 ds" using snoc by (simp add: take_bit_nat_eq_self_iff)
    moreover have "take_bit (5 + 5 * length ds) d = d"
      using snoc.prems by (simp add: take_bit_nat_eq_self_iff power_add) (metis less_le_trans mult_le_mono2 nat_mult_1_right one_le_numeral one_le_power)
    ultimately show ?thesis by (simp add: digits5_snoc take_bit_xor take_bit_push_bit)
  qed
  then show ?case by (simp only: take_bit_nat_eq_self_iff)
qed (simp add: digits5_def)

lemma digits5_inject:
  "length ds = length es \<Longrightarrow> list_all (\<lambda>d. d < 32) ds \<Longrightarrow> list_all (\<lambda>d. d < 32) es \<Longrightarrow> digits5 ds = digits5 es \<Longrightarrow> ds = es"
proof (induction ds arbitrary: es rule: rev_induct)
  case (snoc d ds)
  obtain e es' where es: "es = es' @ [e]" using snoc.prems(1) by (cases es rule: rev_cases) auto
  have "drop_bit 5 (digits5 (ds @ [d])) = drop_bit 5 (digits5 (es' @ [e]))" using snoc.prems(4) es by simp
  then have "digits5 ds = digits5 es'" using push_digit(2) snoc.prems(2,3) es by (simp only: digits5_snoc) simp
  moreover from this have "push_bit 5 (digits5 ds) XOR d = push_bit 5 (digits5 ds) XOR e"
    using snoc.prems(4) es by (simp add: digits5_snoc)
  from arg_cong [OF this, of "\<lambda>x. push_bit 5 (digits5 ds) XOR x"] have "d = e" by (simp add: xor.assoc [symmetric])
  ultimately show ?case using snoc es by simp
qed simp

lemma be_bytes_inject: "be_bytes n m = be_bytes n m' \<Longrightarrow> take_bit (8 * n) m = take_bit (8 * n) m'"
proof (induction n arbitrary: m m')
  case (Suc n)
  have hi: "take_bit (8 * n) (drop_bit 8 m) = take_bit (8 * n) (drop_bit 8 m')"
    using Suc.prems by (intro Suc.IH) simp
  have "(of_nat m :: 8 word) = of_nat m'" using Suc.prems by simp
  then have lo: "take_bit 8 m = take_bit 8 m'" by (simp add: word_of_nat_eq_iff)
  show ?case
  proof (rule bit_eqI)
    fix i
    show "bit (take_bit (8 * Suc n) m) i = bit (take_bit (8 * Suc n) m') i"
    proof (cases "i < 8")
      case True
      then show ?thesis using arg_cong [OF lo, of "\<lambda>x. bit x i"] by (simp add: bit_take_bit_iff)
    next
      case False
      then show ?thesis using arg_cong [OF hi, of "\<lambda>x. bit x (i - 8)"] by (auto simp: bit_take_bit_iff bit_drop_bit_eq)
    qed
  qed
qed simp

text \<open>Every address has one spelling: two strings of 56 characters that decode to the same bytes are equal, so
  comparing validated addresses as strings is comparing the keys they stand for.\<close>

theorem decode_injective:
  assumes "length s = 56" "length t = 56" "decodeStellarBase32 s = Some bytes" "decodeStellarBase32 t = Some bytes"
  shows "s = t"
proof -
  have al: "list_all (\<lambda>c. c \<in> set STELLAR_STRKEY_ALPHABET) u" if "decode_loop u b c bs = Some xs" for u b c bs xs
    using that
  proof (induction u b c bs rule: decode_loop.induct)
    case (2 char u b c bs)
    then show ?case using index_of_None [of char STELLAR_STRKEY_ALPHABET]
      by (auto simp: Let_def split: option.splits if_splits)
  qed simp
  have as: "list_all (\<lambda>c. c \<in> set STELLAR_STRKEY_ALPHABET) s" and at: "list_all (\<lambda>c. c \<in> set STELLAR_STRKEY_ALPHABET) t"
    using assms(3,4) al unfolding decodeStellarBase32_def by blast+
  then have ls: "list_all (\<lambda>d. d < 32) (map char_digit s)" and lt: "list_all (\<lambda>d. d < 32) (map char_digit t)"
    using alphabet_digit by (auto simp: list_all_iff)
  have "be_bytes 35 (digits5 (map char_digit s)) = be_bytes 35 (digits5 (map char_digit t))"
    using decode_number [OF as] decode_number [OF at] assms by simp
  from be_bytes_inject [OF this]
  have "take_bit 280 (digits5 (map char_digit s)) = take_bit 280 (digits5 (map char_digit t))" by simp
  moreover have "take_bit 280 (digits5 (map char_digit s)) = digits5 (map char_digit s)"
    "take_bit 280 (digits5 (map char_digit t)) = digits5 (map char_digit t)"
    using digits5_less [OF ls] digits5_less [OF lt] assms(1,2) by (simp_all add: take_bit_nat_eq_self_iff)
  ultimately have "map char_digit s = map char_digit t" using digits5_inject [OF _ ls lt] assms(1,2) by simp
  moreover have "inj_on char_digit (set s \<union> set t)"
    using as at alphabet_digit by (intro inj_onI) (metis Un_iff list_all_iff)
  ultimately show ?thesis using inj_on_map_eq_map by blast
qed

theorem decode_injective_witness:
  "decodeStellarBase32 ''GAAAAAAAAAAAAAAAAAAAAAAAAAAAAAAAAAAAAAAAAAAAAAAAAAAAAWHF'' \<noteq>
   decodeStellarBase32 ''GAAAAAAAAAAAAAAAAAAAAAAAAAAAAAAAAAAAAAAAAAAAAAAAAAAAAWHG''"
proof
  let ?s = "''GAAAAAAAAAAAAAAAAAAAAAAAAAAAAAAAAAAAAAAAAAAAAAAAAAAAAWHF''"
    and ?t = "''GAAAAAAAAAAAAAAAAAAAAAAAAAAAAAAAAAAAAAAAAAAAAAAAAAAAAWHG''"
  assume eq: "decodeStellarBase32 ?s = decodeStellarBase32 ?t"
  have "list_all (\<lambda>c. c \<in> set STELLAR_STRKEY_ALPHABET) ?s" by (simp add: STELLAR_STRKEY_ALPHABET_def)
  from decode_number [OF this] obtain bytes where "decodeStellarBase32 ?s = Some bytes" by blast
  then have "?s = ?t" using decode_injective [of ?s ?t bytes] eq by simp
  then show False by simp
qed

section \<open>What the length does not tell\<close>

text \<open>The lowest bit of the last character of a muxed address is ignored: 69 characters carry 345 bits, of which only
  344 make up the 43 bytes. Two characters that differ in that bit only are interchangeable, so a muxed address has
  two spellings that are both accepted.\<close>

theorem muxed_last_bit_ignored:
  assumes "length s = 68" "list_all (\<lambda>c. c \<in> set STELLAR_STRKEY_ALPHABET) (s @ [c, d])"
    and "char_digit c div 2 = char_digit d div 2"
  shows "classifyStellarAddress (JString (s @ [c])) = classifyStellarAddress (JString (s @ [d]))"
proof -
  have al: "list_all (\<lambda>c. c \<in> set STELLAR_STRKEY_ALPHABET) (s @ [x])" if "x = c \<or> x = d" for x
    using assms(2) that by auto
  have "decodeStellarBase32 (s @ [x]) =
      Some (be_bytes 43 (push_bit 4 (digits5 (map char_digit s)) XOR char_digit c div 2))" if "x = c \<or> x = d" for x
  proof -
    have "5 * length (s @ [x]) div 8 = 43" "5 * length (s @ [x]) mod 8 = 1" using assms(1) by simp_all
    moreover have "drop_bit 1 (digits5 (map char_digit (s @ [x]))) =
        push_bit 4 (digits5 (map char_digit s)) XOR drop_bit 1 (char_digit x)"
      by (simp add: digits5_snoc drop_bit_xor drop_bit_push_bit del: One_nat_def)
    moreover have "drop_bit 1 (char_digit x) = char_digit c div 2"
      using assms(3) that by (auto simp: drop_bit_eq_div simp del: One_nat_def)
    ultimately show ?thesis using decode_number [OF al [OF that]] by (simp del: be_bytes.simps map_append)
  qed
  then have "decodeStellarBase32 (s @ [c]) = decodeStellarBase32 (s @ [d])" by simp
  then show ?thesis using al assms(1)
    by (simp only: classifyStellarAddress_def jsval.case length_append_singleton Let_def) auto
qed

text \<open>The kind is read off the version byte alone. A string of 69 characters whose version byte is that of an account is
  therefore taken for an account address, although account addresses have 56 characters.\<close>

theorem account_of_69_characters:
  "length ''GAAAAAAAAAAAAAAAAAAAAAAAAAAAAAAAAAAAAAAAAAAAAAAAAAAAAAAAAAAAAAAAAC6UC'' = 69 \<and>
   isValidStellarAccountAddress (JString ''GAAAAAAAAAAAAAAAAAAAAAAAAAAAAAAAAAAAAAAAAAAAAAAAAAAAAAAAAAAAAAAAAC6UC'')"
proof
  let ?s = "''GAAAAAAAAAAAAAAAAAAAAAAAAAAAAAAAAAAAAAAAAAAAAAAAAAAAAAAAAAAAAAAAAC6UC''"
  have "map char_digit ?s = [6, 0, 0, 0, 0, 0, 0, 0, 0, 0, 0, 0, 0, 0, 0, 0, 0, 0, 0, 0, 0, 0, 0, 0, 0, 0, 0, 0, 0, 0, 0, 0, 0, 0, 0, 0, 0, 0, 0, 0, 0, 0, 0, 0, 0, 0, 0, 0, 0, 0, 0, 0, 0, 0, 0, 0, 0, 0, 0, 0, 0, 0, 0, 0, 0, 2, 30, 20, 2]"
    by (simp add: char_digit_def STELLAR_STRKEY_ALPHABET_def)
  then have num: "digits5 (map char_digit ?s) =
      13438468453066825263344653683410665668729872983407897209399934605782751227080965672285264959629642791554"
    by (simp add: digits5_def)
  have al: "list_all (\<lambda>c. c \<in> set STELLAR_STRKEY_ALPHABET) ?s" by (simp add: STELLAR_STRKEY_ALPHABET_def)
  have "decodeStellarBase32 ?s = Some (be_bytes 43 (drop_bit 1 (digits5 (map char_digit ?s))))"
    using decode_number [OF al] by simp
  also have "be_bytes 43 (drop_bit 1 (digits5 (map char_digit ?s))) =
      [0x30, 0, 0, 0, 0, 0, 0, 0, 0, 0, 0, 0, 0, 0, 0, 0, 0, 0, 0, 0, 0, 0, 0, 0, 0, 0, 0, 0, 0, 0, 0, 0, 0, 0, 0, 0, 0, 0, 0, 0, 0, 189, 65]"
    unfolding num by (simp add: be_bytes_numeral)
  finally have dec: "decodeStellarBase32 ?s = Some [0x30, 0, 0, 0, 0, 0, 0, 0, 0, 0, 0, 0, 0, 0, 0, 0, 0, 0, 0, 0, 0, 0, 0, 0, 0, 0, 0, 0, 0, 0, 0, 0, 0, 0, 0, 0, 0, 0, 0, 0, 0, 189, 65]" .
  have crc: "crc16XModem [0x30, 0, 0, 0, 0, 0, 0, 0, 0, 0, 0, 0, 0, 0, 0, 0, 0, 0, 0, 0, 0, 0, 0, 0, 0, 0, 0, 0, 0, 0, 0, 0, 0, 0, 0, 0, 0, 0, 0, 0, 0] = 16829"
    by (simp add: crc16XModem_def crc_byte_def crc_unroll crc_bit_def)
  have "classifyStellarAddress (JString ?s) = \<lparr>ac_kind = Account, ac_valid = True, ac_reason = None\<rparr>"
    using al dec crc by (simp add: classifyStellarAddress_def Let_def VERSION_TO_KIND_def STELLAR_MUXED_STRKEY_LENGTH_def
        STELLAR_MUXED_STRKEY_DECODED_LENGTH_def STELLAR_MUXED_STRKEY_PAYLOAD_LENGTH_def)
  then show "isValidStellarAccountAddress (JString ?s)" by (simp add: isValidStellarAccountAddress_def)
qed simp

end
