(* ===== verification/Http_Limit_Store.thy ===== *)
theory Http_Limit_Store
  imports Fluxora_Prelude
begin

text \<open>
  The stores behind the HTTP rate limiter, \<open>src/redis/rateLimitStore.ts\<close>: input validation, the in-memory sliding
  window with its periodic sweep, the Redis sorted-set window and the hybrid store that falls back from Redis to memory.

  A thrown error is the \<open>Inl\<close> of a sum. \<open>Date.now()\<close> is an argument of each operation. Redis is the argument \<open>ops\<close>: the
  transaction of \<open>increment\<close> (\<open>ZADD\<close>, \<open>ZREMRANGEBYSCORE\<close>, \<open>ZCARD\<close>, \<open>PEXPIRE\<close>) answers nothing, an error of one of its
  commands, or the value of \<open>ZCARD\<close>.

  The lemmas: bad input is refused before any state changes; the count an increment returns is exactly the number of
  increments of that key within the last window, whatever happened to other keys and however often the store was
  swept; hence no window of the configured length admits more requests than the limit.
\<close>

section \<open>Input validation\<close>

definition MAX_RATE_LIMIT_KEY_LENGTH :: nat where "MAX_RATE_LIMIT_KEY_LENGTH = 1024"
definition MIN_RATE_LIMIT_WINDOW_MS :: int where "MIN_RATE_LIMIT_WINDOW_MS = 1000"
definition MAX_WINDOW_MS :: int where "MAX_WINDOW_MS = 24 * 60 * 60 * 1000"

record RateLimitInputError =
  rle_field :: string
  rle_rule :: string

definition assertKey :: "jsval \<Rightarrow> RateLimitInputError option" where
  "assertKey key =
     (case key of
        JString k \<Rightarrow>
          if js_trim k = [] then Some \<lparr>rle_field = ''key'', rle_rule = ''must be a non-empty string''\<rparr>
          else if MAX_RATE_LIMIT_KEY_LENGTH < length k
          then Some \<lparr>rle_field = ''key'',
                     rle_rule = ''must not exceed '' @ show_nat MAX_RATE_LIMIT_KEY_LENGTH @ '' characters (got '' @
                       show_nat (length k) @ '')''\<rparr>
          else None
      | _ \<Rightarrow> Some \<lparr>rle_field = ''key'', rle_rule = ''must be a non-empty string''\<rparr>)"

definition assertWindowMs :: "jsval \<Rightarrow> RateLimitInputError + int" where
  "assertWindowMs windowMs =
     (case windowMs of
        JNumber (Finite r) \<Rightarrow>
          if of_int \<lfloor>r\<rfloor> \<noteq> r then Inl \<lparr>rle_field = ''windowMs'', rle_rule = ''must be an integer''\<rparr>
          else if \<lfloor>r\<rfloor> < MIN_RATE_LIMIT_WINDOW_MS
          then Inl \<lparr>rle_field = ''windowMs'',
                    rle_rule = ''must be at least '' @ show_int MIN_RATE_LIMIT_WINDOW_MS @ ''ms (got '' @ show_int \<lfloor>r\<rfloor> @ '')''\<rparr>
          else if MAX_WINDOW_MS < \<lfloor>r\<rfloor>
          then Inl \<lparr>rle_field = ''windowMs'',
                    rle_rule = ''must not exceed '' @ show_int MAX_WINDOW_MS @ ''ms (got '' @ show_int \<lfloor>r\<rfloor> @ '')''\<rparr>
          else Inr \<lfloor>r\<rfloor>
      | _ \<Rightarrow> Inl \<lparr>rle_field = ''windowMs'', rle_rule = ''must be a finite number''\<rparr>)"

text \<open>The validated window, or the error.\<close>

definition assertOperationInputs :: "jsval \<Rightarrow> jsval \<Rightarrow> RateLimitInputError + int" where
  "assertOperationInputs key windowMs =
     (case assertKey key of Some e \<Rightarrow> Inl e | None \<Rightarrow> assertWindowMs windowMs)"

definition key_char_ok :: "char \<Rightarrow> bool" where
  "key_char_ok c \<longleftrightarrow> is_alnum c \<or> c \<in> set ''._-''"

definition sanitiseIdentifier :: "string \<Rightarrow> string" where
  "sanitiseIdentifier i =
     (let s = take 256 (map (\<lambda>c. if key_char_ok c then c else CHR ''_'') i)
      in if s = [] then ''unknown'' else s)"

section \<open>The in-memory store\<close>

record SlidingBucket =
  sb_timestamps :: "millis list"
  sb_windowMs :: int

record InMemoryStore =
  im_buckets :: "(string, SlidingBucket) jsmap"
  im_operationsSinceSweep :: nat

definition new_InMemoryStore :: InMemoryStore where
  "new_InMemoryStore = \<lparr>im_buckets = [], im_operationsSinceSweep = 0\<rparr>"

definition SWEEP_INTERVAL :: nat where "SWEEP_INTERVAL = 256"

record limit_count =
  lc_count :: nat
  lc_resetAt :: millis

definition prune :: "SlidingBucket \<Rightarrow> millis \<Rightarrow> SlidingBucket" where
  "prune bucket now =
     bucket\<lparr>sb_timestamps := dropWhile (\<lambda>t. t \<le> now - sb_windowMs bucket) (sb_timestamps bucket)\<rparr>"

definition maybeSweep :: "millis \<Rightarrow> InMemoryStore \<Rightarrow> InMemoryStore" where
  "maybeSweep now s =
     (if im_operationsSinceSweep s + 1 < SWEEP_INTERVAL
      then s\<lparr>im_operationsSinceSweep := im_operationsSinceSweep s + 1\<rparr>
      else s\<lparr>im_operationsSinceSweep := 0,
             im_buckets := filter (\<lambda>(k, b). sb_timestamps b \<noteq> []) (map (\<lambda>(k, b). (k, prune b now)) (im_buckets s))\<rparr>)"

definition im_increment ::
  "string \<Rightarrow> jsval \<Rightarrow> millis \<Rightarrow> InMemoryStore \<Rightarrow> RateLimitInputError + limit_count \<times> InMemoryStore" where
  "im_increment key windowArg now s0 =
     (case assertOperationInputs (JString key) windowArg of
        Inl e \<Rightarrow> Inl e
      | Inr windowMs \<Rightarrow>
          let s = maybeSweep now s0;
              kept = (case map_get (im_buckets s) key of
                        None \<Rightarrow> []
                      | Some bucket \<Rightarrow> sb_timestamps (prune (bucket\<lparr>sb_windowMs := windowMs\<rparr>) now));
              timestamps = kept @ [now]
          in Inr (\<lparr>lc_count = length timestamps, lc_resetAt = timestamps ! 0 + windowMs\<rparr>,
                  s\<lparr>im_buckets := map_set key \<lparr>sb_timestamps = timestamps, sb_windowMs = windowMs\<rparr> (im_buckets s)\<rparr>))"

definition im_getCount ::
  "string \<Rightarrow> jsval \<Rightarrow> millis \<Rightarrow> InMemoryStore \<Rightarrow> RateLimitInputError + limit_count \<times> InMemoryStore" where
  "im_getCount key windowArg now s0 =
     (case assertOperationInputs (JString key) windowArg of
        Inl e \<Rightarrow> Inl e
      | Inr windowMs \<Rightarrow>
          let s = maybeSweep now s0
          in case map_get (im_buckets s) key of
               None \<Rightarrow> Inr (\<lparr>lc_count = 0, lc_resetAt = now + windowMs\<rparr>, s)
             | Some bucket0 \<Rightarrow>
                 let bucket = prune (bucket0\<lparr>sb_windowMs := windowMs\<rparr>) now
                 in if sb_timestamps bucket = []
                    then Inr (\<lparr>lc_count = 0, lc_resetAt = now + windowMs\<rparr>,
                              s\<lparr>im_buckets := map_delete key (im_buckets s)\<rparr>)
                    else Inr (\<lparr>lc_count = length (sb_timestamps bucket),
                               lc_resetAt = sb_timestamps bucket ! 0 + windowMs\<rparr>,
                              s\<lparr>im_buckets := map_set key bucket (im_buckets s)\<rparr>))"

definition im_close :: "InMemoryStore \<Rightarrow> InMemoryStore" where
  "im_close s = s\<lparr>im_buckets := [], im_operationsSinceSweep := 0\<rparr>"

section \<open>The Redis store\<close>

datatype pipeline_result =
    Pipeline_null
  | Pipeline_failed nat string
  | Pipeline_counted "nat option"

record 'r window_ops =
  wo_exec :: "'r \<Rightarrow> string \<Rightarrow> string \<Rightarrow> millis \<Rightarrow> int \<Rightarrow> pipeline_result \<times> 'r"
  wo_zcount :: "'r \<Rightarrow> string \<Rightarrow> millis \<Rightarrow> string + nat"
  wo_close :: "'r \<Rightarrow> 'r"

datatype StoreFailure =
    Bad_input RateLimitInputError
  | Store_closed
  | Pipeline_not_executed
  | Command_failed nat string
  | Redis_error string

record 'r SlidingWindowStore =
  sw_client :: 'r
  sw_closed :: bool

definition KEY_PREFIX :: string where "KEY_PREFIX = ''fluxora:rl:''"

definition sw_buildKey :: "string \<Rightarrow> string" where
  "sw_buildKey key = KEY_PREFIX @ sanitiseIdentifier key"

text \<open>\<open>hex\<close> are the six random characters that make the member unique.\<close>

definition sw_increment ::
  "'r window_ops \<Rightarrow> string \<Rightarrow> string \<Rightarrow> jsval \<Rightarrow> millis \<Rightarrow> 'r SlidingWindowStore \<Rightarrow>
   (StoreFailure + limit_count) \<times> 'r SlidingWindowStore" where
  "sw_increment ops hex key windowArg now s =
     (case assertOperationInputs (JString key) windowArg of
        Inl e \<Rightarrow> (Inl (Bad_input e), s)
      | Inr windowMs \<Rightarrow>
          if sw_closed s then (Inl Store_closed, s)
          else let (result, r) = wo_exec ops (sw_client s) (sw_buildKey key) (show_int now @ ''-'' @ hex) now windowMs;
                   s' = s\<lparr>sw_client := r\<rparr>
               in case result of
                    Pipeline_null \<Rightarrow> (Inl Pipeline_not_executed, s')
                  | Pipeline_failed i msg \<Rightarrow> (Inl (Command_failed i msg), s')
                  | Pipeline_counted c \<Rightarrow> (Inr \<lparr>lc_count = nullish c 0, lc_resetAt = now + windowMs\<rparr>, s'))"

definition sw_getCount ::
  "'r window_ops \<Rightarrow> string \<Rightarrow> jsval \<Rightarrow> millis \<Rightarrow> 'r SlidingWindowStore \<Rightarrow>
   (StoreFailure + limit_count) \<times> 'r SlidingWindowStore" where
  "sw_getCount ops key windowArg now s =
     (case assertOperationInputs (JString key) windowArg of
        Inl e \<Rightarrow> (Inl (Bad_input e), s)
      | Inr windowMs \<Rightarrow>
          if sw_closed s then (Inl Store_closed, s)
          else case wo_zcount ops (sw_client s) (sw_buildKey key) (now - windowMs) of
                 Inl msg \<Rightarrow> (Inl (Redis_error msg), s)
               | Inr c \<Rightarrow> (Inr \<lparr>lc_count = c, lc_resetAt = now + windowMs\<rparr>, s))"

definition sw_close :: "'r window_ops \<Rightarrow> 'r SlidingWindowStore \<Rightarrow> 'r SlidingWindowStore" where
  "sw_close ops s = s\<lparr>sw_closed := True, sw_client := wo_close ops (sw_client s)\<rparr>"

section \<open>The hybrid store\<close>

text \<open>\<open>onError\<close> is a log line and a counter; the calls are recorded in \<open>hs_errors\<close>.\<close>

record 'r HybridStore =
  hs_primary :: "'r SlidingWindowStore"
  hs_fallback :: InMemoryStore
  hs_usingFallback :: bool
  hs_errors :: "(StoreFailure \<times> string) list"

definition hs_increment ::
  "'r window_ops \<Rightarrow> string \<Rightarrow> string \<Rightarrow> jsval \<Rightarrow> millis \<Rightarrow> 'r HybridStore \<Rightarrow>
   (RateLimitInputError + limit_count) \<times> 'r HybridStore" where
  "hs_increment ops hex key windowArg now h =
     (case assertOperationInputs (JString key) windowArg of
        Inl e \<Rightarrow> (Inl e, h)
      | Inr windowMs \<Rightarrow>
          let (result, p) = sw_increment ops hex key windowArg now (hs_primary h); h1 = h\<lparr>hs_primary := p\<rparr>
          in case result of
               Inr c \<Rightarrow> (Inr c, h1)
             | Inl err \<Rightarrow>
                 let h2 = h1\<lparr>hs_errors := hs_errors h1 @ [(err, ''increment'')], hs_usingFallback := True\<rparr>
                 in case im_increment key windowArg now (hs_fallback h2) of
                      Inl e \<Rightarrow> (Inl e, h2)
                    | Inr (c, f) \<Rightarrow> (Inr c, h2\<lparr>hs_fallback := f\<rparr>))"

definition hs_getCount ::
  "'r window_ops \<Rightarrow> string \<Rightarrow> jsval \<Rightarrow> millis \<Rightarrow> 'r HybridStore \<Rightarrow>
   (RateLimitInputError + limit_count) \<times> 'r HybridStore" where
  "hs_getCount ops key windowArg now h =
     (case assertOperationInputs (JString key) windowArg of
        Inl e \<Rightarrow> (Inl e, h)
      | Inr windowMs \<Rightarrow>
          let (result, p) = sw_getCount ops key windowArg now (hs_primary h); h1 = h\<lparr>hs_primary := p\<rparr>
          in case result of
               Inr c \<Rightarrow> (Inr c, h1)
             | Inl err \<Rightarrow>
                 let h2 = h1\<lparr>hs_errors := hs_errors h1 @ [(err, ''getCount'')], hs_usingFallback := True\<rparr>
                 in case im_getCount key windowArg now (hs_fallback h2) of
                      Inl e \<Rightarrow> (Inl e, h2)
                    | Inr (c, f) \<Rightarrow> (Inr c, h2\<lparr>hs_fallback := f\<rparr>))"

definition hs_close :: "'r window_ops \<Rightarrow> 'r HybridStore \<Rightarrow> 'r HybridStore" where
  "hs_close ops h = h\<lparr>hs_primary := sw_close ops (hs_primary h), hs_fallback := im_close (hs_fallback h)\<rparr>"

section \<open>Bad input is refused, good input answered\<close>

text \<open>What a client of a store relies on: invalid arguments are refused and change nothing, valid ones are answered with
  a reset time in the future.\<close>

locale rate_limit_store =
  fixes incr :: "string \<Rightarrow> jsval \<Rightarrow> millis \<Rightarrow> 's \<Rightarrow> (RateLimitInputError + limit_count) \<times> 's"
  assumes refuses: "assertOperationInputs (JString k) w = Inl e \<Longrightarrow> incr k w t s = (Inl e, s)"
    and answers: "assertOperationInputs (JString k) w = Inr n \<Longrightarrow> \<exists>c s'. incr k w t s = (Inr c, s') \<and> t < lc_resetAt c"
begin

lemma answered_iff: "(\<exists>c s'. incr k w t s = (Inr c, s')) \<longleftrightarrow> (\<exists>n. assertOperationInputs (JString k) w = Inr n)"
  by (cases "assertOperationInputs (JString k) w") (use refuses answers in fastforce)+

lemma retry_later:
  assumes "incr k w t s = (Inr c, s')"
  shows "t < lc_resetAt c"
proof (cases "assertOperationInputs (JString k) w")
  case (Inl e)
  then show ?thesis using refuses assms by fastforce
next
  case (Inr n)
  then show ?thesis using answers [OF Inr, of t s] assms by auto
qed

end

lemma valid_window: "assertOperationInputs key w = Inr n \<Longrightarrow> 1000 \<le> n \<and> n \<le> MAX_WINDOW_MS"
  by (auto simp: assertOperationInputs_def assertWindowMs_def MIN_RATE_LIMIT_WINDOW_MS_def
      split: option.splits jsval.splits jsnum.splits if_splits)

lemma dropWhile_hd: "dropWhile P xs = y # ys \<Longrightarrow> \<not> P y"
  by (metis hd_dropWhile list.discI list.sel(1))

lemma im_increment_reset:
  assumes "assertOperationInputs (JString k) w = Inr n"
  shows "\<exists>c s'. im_increment k w now s = Inr (c, s') \<and> now < lc_resetAt c"
proof -
  let ?b = "map_get (im_buckets (maybeSweep now s)) k"
  let ?kept = "case ?b of None \<Rightarrow> [] | Some bucket \<Rightarrow> sb_timestamps (prune (bucket\<lparr>sb_windowMs := n\<rparr>) now)"
  have "now < (?kept @ [now]) ! 0 + n"
  proof (cases ?kept)
    case Nil
    then show ?thesis using valid_window [OF assms] by simp
  next
    case (Cons t ts)
    then have "\<not> t \<le> now - n" by (auto simp: prune_def split: option.splits dest: dropWhile_hd)
    then show ?thesis using Cons by simp
  qed
  then show ?thesis using assms by (simp add: im_increment_def Let_def)
qed

definition im_incr :: "string \<Rightarrow> jsval \<Rightarrow> millis \<Rightarrow> InMemoryStore \<Rightarrow> (RateLimitInputError + limit_count) \<times> InMemoryStore" where
  "im_incr k w now s = (case im_increment k w now s of Inl e \<Rightarrow> (Inl e, s) | Inr (c, s') \<Rightarrow> (Inr c, s'))"

interpretation ims: rate_limit_store im_incr
proof
  show "im_incr k w t s = (Inl e, s)" if "assertOperationInputs (JString k) w = Inl e" for k w e t s
    using that by (simp add: im_incr_def im_increment_def)
  show "\<exists>c s'. im_incr k w t s = (Inr c, s') \<and> t < lc_resetAt c"
    if "assertOperationInputs (JString k) w = Inr n" for k w n t s
    using im_increment_reset [OF that, of t s] by (auto simp: im_incr_def)
qed

interpretation hys: rate_limit_store "hs_increment ops hex" for ops :: "'r window_ops" and hex
proof
  show "hs_increment ops hex k w t s = (Inl e, s)" if "assertOperationInputs (JString k) w = Inl e" for k w e t s
    using that by (simp add: hs_increment_def)
  show "\<exists>c s'. hs_increment ops hex k w t s = (Inr c, s') \<and> t < lc_resetAt c"
    if v: "assertOperationInputs (JString k) w = Inr n" for k w n t s
  proof -
    obtain result p where sw: "sw_increment ops hex k w t (hs_primary s) = (result, p)" by fastforce
    show ?thesis
    proof (cases result)
      case (Inr c)
      then have "lc_resetAt c = t + n"
        using sw v by (auto simp: sw_increment_def Let_def split: prod.splits if_splits pipeline_result.splits)
      then show ?thesis using Inr sw v valid_window [OF v] by (simp add: hs_increment_def)
    next
      case (Inl err)
      obtain c f where "im_increment k w t (hs_fallback s) = Inr (c, f)" "t < lc_resetAt c"
        using im_increment_reset [OF v] by blast
      then show ?thesis using Inl sw v by (simp add: hs_increment_def Let_def)
    qed
  qed
qed

section \<open>The in-memory window is exact\<close>

datatype limit_op =
    Increment (op_key: string) (op_window: jsval) (op_time: millis)
  | Get_count (op_key: string) (op_window: jsval) (op_time: millis)

definition im_step :: "InMemoryStore \<Rightarrow> limit_op \<Rightarrow> InMemoryStore" where
  "im_step s x =
     (case (case x of Increment k w t \<Rightarrow> im_increment k w t s | Get_count k w t \<Rightarrow> im_getCount k w t s) of
        Inl e \<Rightarrow> s
      | Inr (c, s') \<Rightarrow> s')"

text \<open>The times at which a key was incremented, and what the store keeps of them.\<close>

fun increments :: "string \<Rightarrow> limit_op list \<Rightarrow> millis list" where
  "increments k [] = []"
| "increments k (Increment k' w t # xs) = (if k' = k then t # increments k xs else increments k xs)"
| "increments k (Get_count k' w t # xs) = increments k xs"

definition kept :: "InMemoryStore \<Rightarrow> string \<Rightarrow> millis list" where
  "kept s k = (case map_get (im_buckets s) k of None \<Rightarrow> [] | Some b \<Rightarrow> sb_timestamps b)"

definition tracks :: "(string \<Rightarrow> int) \<Rightarrow> (string \<Rightarrow> millis list) \<Rightarrow> millis \<Rightarrow> InMemoryStore \<Rightarrow> bool" where
  "tracks win hist now s \<longleftrightarrow> map_wf (im_buckets s) \<and>
     (\<forall>k b. map_get (im_buckets s) k = Some b \<longrightarrow> sb_windowMs b = win k) \<and>
     (\<forall>k. \<exists>c \<le> now - win k. kept s k = dropWhile (\<lambda>t. t \<le> c) (hist k))"

lemma dropWhile_le: "c \<le> d \<Longrightarrow> dropWhile (\<lambda>t. t \<le> d) (dropWhile (\<lambda>t. t \<le> c) xs) = dropWhile (\<lambda>t. t \<le> d) (xs :: int list)"
  by (induction xs) auto

lemma dropWhile_snoc_late: "\<not> t \<le> c \<Longrightarrow> dropWhile (\<lambda>t. t \<le> c) (xs @ [t]) = dropWhile (\<lambda>t. t \<le> c) xs @ [t]" for t :: int
  by (induction xs) auto

lemma dropWhile_filter: "sorted xs \<Longrightarrow> dropWhile (\<lambda>t. t \<le> c) xs = filter (\<lambda>t. c < t) xs" for c :: int
proof (induction xs)
  case (Cons x xs)
  then show ?case by (auto simp: filter_id_conv) (metis filter_True not_le order_trans)
qed simp

lemma map_get_sweep:
  "map_wf m \<Longrightarrow> map_get (filter (\<lambda>(k, b). P b) (map (\<lambda>(k, b). (k, f b)) m)) k =
     (case map_get m k of None \<Rightarrow> None | Some b \<Rightarrow> if P (f b) then Some (f b) else None)"
proof (induction m arbitrary: k)
  case (Cons p m)
  have "map_get (filter (\<lambda>(k, b). P b) (map (\<lambda>(k, b). (k, f b)) m)) (fst p) = None"
    using Cons.IH [of "fst p"] Cons.prems map_of_eq_None_iff [of m "fst p"] by (simp add: map_wf_def)
  then show ?case using Cons by (cases p) (auto simp: map_wf_def)
qed simp

lemma map_wf_sweep: "map_wf m \<Longrightarrow> map_wf (filter (\<lambda>(k, b). P b) (map (\<lambda>(k, b). (k, f b)) m))"
  by (induction m) (auto simp: map_wf_def rev_image_eqI)

lemma tracks_sweep:
  assumes "tracks win hist now s" "now \<le> t"
  shows "tracks win hist t (maybeSweep t s)"
proof -
  have wf: "map_wf (im_buckets s)" and w: "\<And>k b. map_get (im_buckets s) k = Some b \<Longrightarrow> sb_windowMs b = win k"
    using assms(1) by (auto simp: tracks_def)
  have old: "\<exists>c \<le> t - win k. kept s k = dropWhile (\<lambda>t. t \<le> c) (hist k)" for k
  proof -
    obtain c where "c \<le> now - win k" "kept s k = dropWhile (\<lambda>t. t \<le> c) (hist k)" using assms(1) tracks_def by blast
    then show ?thesis using assms(2) by (intro exI [of _ c]) simp
  qed
  show ?thesis
  proof (cases "im_operationsSinceSweep s + 1 < SWEEP_INTERVAL")
    case True
    then show ?thesis using wf w old by (simp add: maybeSweep_def tracks_def kept_def)
  next
    case False
    let ?m = "filter (\<lambda>(k, b). sb_timestamps b \<noteq> []) (map (\<lambda>(k, b). (k, prune b t)) (im_buckets s))"
    have sweep: "maybeSweep t s = s\<lparr>im_operationsSinceSweep := 0, im_buckets := ?m\<rparr>" using False by (simp add: maybeSweep_def)
    note get = map_get_sweep [OF wf, where P = "\<lambda>b. sb_timestamps b \<noteq> []" and f = "\<lambda>b. prune b t"]
    have "kept (maybeSweep t s) k = dropWhile (\<lambda>x. x \<le> t - win k) (kept s k)" for k
      using get [of k] w [of k] by (auto simp: sweep kept_def prune_def dropWhile_eq_Nil_conv [symmetric] simp del: dropWhile_eq_Nil_conv split: option.splits)
    moreover have "dropWhile (\<lambda>x. x \<le> t - win k) (kept s k) = dropWhile (\<lambda>x. x \<le> t - win k) (hist k)" for k
      using old [of k] dropWhile_le by metis
    ultimately have "\<exists>c \<le> t - win k. kept (maybeSweep t s) k = dropWhile (\<lambda>t. t \<le> c) (hist k)" for k by auto
    moreover have "sb_windowMs b = win k" if "map_get ?m k = Some b" for k b
      using that get [of k] w [of k] by (auto simp: prune_def split: option.splits if_splits)
    ultimately show ?thesis using map_wf_sweep [OF wf] by (simp add: tracks_def sweep)
  qed
qed

text \<open>What is left of a bucket after pruning, with the window of its key.\<close>

lemma pruned_bucket:
  assumes "tracks win hist t s"
  shows "(case map_get (im_buckets s) k of None \<Rightarrow> [] | Some b \<Rightarrow> sb_timestamps (prune (b\<lparr>sb_windowMs := win k\<rparr>) t)) =
    dropWhile (\<lambda>x. x \<le> t - win k) (hist k)"
proof -
  obtain c where c: "c \<le> t - win k" "kept s k = dropWhile (\<lambda>t. t \<le> c) (hist k)" using assms tracks_def by blast
  have "(case map_get (im_buckets s) k of None \<Rightarrow> [] | Some b \<Rightarrow> sb_timestamps (prune (b\<lparr>sb_windowMs := win k\<rparr>) t)) =
      dropWhile (\<lambda>x. x \<le> t - win k) (kept s k)"
    by (simp add: kept_def prune_def split: option.split)
  then show ?thesis using c dropWhile_le by metis
qed

lemma im_increment_tracks:
  assumes "tracks win hist now s" "now \<le> t" "assertOperationInputs (JString k) w = Inr (win k)"
  shows "\<exists>s'. im_increment k w t s =
      Inr (\<lparr>lc_count = Suc (length (dropWhile (\<lambda>x. x \<le> t - win k) (hist k))),
            lc_resetAt = (dropWhile (\<lambda>x. x \<le> t - win k) (hist k) @ [t]) ! 0 + win k\<rparr>, s') \<and>
    tracks win (hist(k := hist k @ [t])) t s'"
proof -
  let ?s = "maybeSweep t s" and ?d = "dropWhile (\<lambda>x. x \<le> t - win k) (hist k)"
  let ?s' = "?s\<lparr>im_buckets := map_set k \<lparr>sb_timestamps = ?d @ [t], sb_windowMs = win k\<rparr> (im_buckets ?s)\<rparr>"
  have tr: "tracks win hist t ?s" using tracks_sweep [OF assms(1,2)] .
  have "\<not> t \<le> t - win k" using valid_window [OF assms(3)] by simp
  then have "kept ?s' k = dropWhile (\<lambda>x. x \<le> t - win k) (hist k @ [t])" by (simp add: kept_def dropWhile_snoc_late)
  moreover have "kept ?s' k' = kept ?s k'" if "k' \<noteq> k" for k' using that by (simp add: kept_def)
  ultimately have "tracks win (hist(k := hist k @ [t])) t ?s'"
    using tr unfolding tracks_def by (auto split: if_splits)
  moreover have "im_increment k w t s = Inr (\<lparr>lc_count = Suc (length ?d), lc_resetAt = (?d @ [t]) ! 0 + win k\<rparr>, ?s')"
    using assms(3) by (simp add: im_increment_def Let_def pruned_bucket [OF tr])
  ultimately show ?thesis by blast
qed

lemma im_getCount_tracks:
  assumes "tracks win hist now s" "now \<le> t" "assertOperationInputs (JString k) w = Inr (win k)"
  shows "\<exists>c s'. im_getCount k w t s = Inr (c, s') \<and> lc_count c = length (dropWhile (\<lambda>x. x \<le> t - win k) (hist k)) \<and>
    tracks win hist t s'"
proof -
  let ?s = "maybeSweep t s" and ?d = "dropWhile (\<lambda>x. x \<le> t - win k) (hist k)"
  have tr: "tracks win hist t ?s" using tracks_sweep [OF assms(1,2)] .
  note p = pruned_bucket [OF tr, of k]
  show ?thesis
  proof (cases "map_get (im_buckets ?s) k")
    case None
    then show ?thesis using assms(3) p tr by (simp add: im_getCount_def Let_def)
  next
    case (Some b)
    let ?b = "prune (b\<lparr>sb_windowMs := win k\<rparr>) t"
    have b: "sb_timestamps ?b = ?d" "sb_windowMs ?b = win k" using p Some by (simp_all add: prune_def)
    have cut: "\<exists>c \<le> t - win k. ?d = dropWhile (\<lambda>t. t \<le> c) (hist k)" by blast
    have "tracks win hist t (?s\<lparr>im_buckets := map_set k ?b (im_buckets ?s)\<rparr>)"
      using tr b cut unfolding tracks_def by (auto simp: kept_def split: if_splits)
    moreover have "tracks win hist t (?s\<lparr>im_buckets := map_delete k (im_buckets ?s)\<rparr>)" if "?d = []"
      using tr cut that unfolding tracks_def by (auto simp: kept_def split: if_splits)
    ultimately show ?thesis using assms(3) Some b by (auto simp: im_getCount_def Let_def)
  qed
qed

lemma increments_append: "increments k (xs @ ys) = increments k xs @ increments k ys"
  by (induction k xs rule: increments.induct) auto

lemma increments_times: "t \<in> set (increments k xs) \<Longrightarrow> t \<in> op_time ` set xs"
  by (induction k xs rule: increments.induct) (auto split: if_splits)

lemma increments_sorted: "sorted (map op_time xs) \<Longrightarrow> sorted (increments k xs)"
  by (induction k xs rule: increments.induct) (auto dest: increments_times)

definition ops_valid :: "(string \<Rightarrow> int) \<Rightarrow> limit_op list \<Rightarrow> bool" where
  "ops_valid win xs \<longleftrightarrow> (\<forall>x \<in> set xs. assertOperationInputs (JString (op_key x)) (op_window x) = Inr (win (op_key x)))"

lemma tracks_mono: "tracks win hist now s \<Longrightarrow> now \<le> t \<Longrightarrow> tracks win hist t s"
  unfolding tracks_def by (meson diff_right_mono order_trans)

lemma run_tracks:
  assumes "ops_valid win xs" "sorted (map op_time xs)" "\<forall>x \<in> set xs. op_time x \<le> t"
  shows "tracks win (\<lambda>k. increments k xs) t (foldl im_step new_InMemoryStore xs)"
  using assms
proof (induction xs arbitrary: t rule: rev_induct)
  case Nil
  then show ?case by (auto simp: tracks_def new_InMemoryStore_def kept_def)
next
  case (snoc x xs)
  let ?s = "foldl im_step new_InMemoryStore xs"
  have tr: "tracks win (\<lambda>k. increments k xs) (op_time x) ?s"
    using snoc by (intro snoc.IH) (auto simp: ops_valid_def sorted_append)
  have v: "assertOperationInputs (JString (op_key x)) (op_window x) = Inr (win (op_key x))"
    using snoc.prems(1) by (simp add: ops_valid_def)
  have "tracks win (\<lambda>k. increments k (xs @ [x])) (op_time x) (im_step ?s x)"
  proof (cases x)
    case (Increment k w u)
    have h: "(\<lambda>k. increments k (xs @ [x])) = (\<lambda>k. increments k xs)(k := increments k xs @ [u])"
      by (auto simp: Increment increments_append)
    show ?thesis
      using im_increment_tracks [OF tr order_refl, of k w] v unfolding h by (auto simp: Increment im_step_def)
  next
    case (Get_count k w u)
    have h: "(\<lambda>k. increments k (xs @ [x])) = (\<lambda>k. increments k xs)" by (simp add: Get_count increments_append)
    show ?thesis
      using im_getCount_tracks [OF tr order_refl, of k w] v unfolding h by (auto simp: Get_count im_step_def)
  qed
  then show ?case using tracks_mono snoc.prems(3) by simp
qed

lemma window_filter:
  "sorted (map op_time xs) \<Longrightarrow> dropWhile (\<lambda>x. x \<le> t - w) (increments k xs) = filter (\<lambda>u. t - w < u) (increments k xs)"
  using dropWhile_filter [OF increments_sorted] .

lemma im_increment_window:
  assumes "ops_valid win xs" "sorted (map op_time xs)" "\<forall>x \<in> set xs. op_time x \<le> now"
    and "assertOperationInputs (JString k) w = Inr (win k)"
  shows "\<exists>s'. im_increment k w now (foldl im_step new_InMemoryStore xs) =
    Inr (\<lparr>lc_count = Suc (length (filter (\<lambda>u. now - win k < u) (increments k xs))),
          lc_resetAt = hd (filter (\<lambda>u. now - win k < u) (increments k xs) @ [now]) + win k\<rparr>, s')"
  using im_increment_tracks [OF run_tracks [OF assms(1-3)] order_refl assms(4)]
  by (auto simp: window_filter [OF assms(2)] hd_conv_nth)

text \<open>(C38) The in-memory window is exact. After any sequence of increments and queries of any keys at non-decreasing times, with
  one window length per key, an increment returns one plus the number of increments of that key within the last
  window, neither fewer, however often the store was swept and whatever other keys it holds, nor more; its reset time
  is when the oldest of them leaves the window.\<close>

theorem sliding_window_exact:
  assumes "ops_valid win xs" "sorted (map op_time xs)" "\<forall>x \<in> set xs. op_time x \<le> now"
    and "assertOperationInputs (JString k) w = Inr (win k)"
  shows "\<exists>s'. im_increment k w now (foldl im_step new_InMemoryStore xs) =
    Inr (\<lparr>lc_count = Suc (length (filter (\<lambda>u. now - win k < u) (increments k xs))),
          lc_resetAt = hd (filter (\<lambda>u. now - win k < u) (increments k xs) @ [now]) + win k\<rparr>, s')"
  using im_increment_window [OF assms] .

definition minute :: jsval where "minute = JNumber (Finite 60000)"

lemma minute_valid: "js_trim k \<noteq> [] \<Longrightarrow> length k \<le> 1024 \<Longrightarrow> assertOperationInputs (JString k) minute = Inr 60000"
  by (simp add: assertOperationInputs_def assertKey_def assertWindowMs_def minute_def MIN_RATE_LIMIT_WINDOW_MS_def
      MAX_WINDOW_MS_def MAX_RATE_LIMIT_KEY_LENGTH_def)

theorem sliding_window_exact_witness:
  "\<exists>s'. im_increment ''k'' minute 70000
      (foldl im_step new_InMemoryStore [Increment ''k'' minute 5000, Increment ''j'' minute 6000, Increment ''k'' minute 20000]) =
    Inr (\<lparr>lc_count = 2, lc_resetAt = 80000\<rparr>, s')"
proof -
  let ?xs = "[Increment ''k'' minute 5000, Increment ''j'' minute 6000, Increment ''k'' minute 20000]"
  have j: "js_trim ''k'' \<noteq> []" "js_trim ''j'' \<noteq> []" by (simp_all add: js_trim_def is_space_def)
  have v: "ops_valid (\<lambda>_. 60000) ?xs" using minute_valid [OF j(1)] minute_valid [OF j(2)] by (simp add: ops_valid_def)
  have s: "sorted (map op_time ?xs)" "\<forall>x \<in> set ?xs. op_time x \<le> 70000" by simp_all
  have c: "filter (\<lambda>u. 70000 - 60000 < u) (increments ''k'' ?xs) = [20000]" by simp
  show ?thesis using sliding_window_exact [OF v s minute_valid [OF j(1)]] unfolding c by (simp del: foldl_Cons add: numeral_2_eq_2)
qed

text \<open>The results of a run: for each increment the key, the time and the count that was returned.\<close>

fun im_result :: "InMemoryStore \<Rightarrow> limit_op \<Rightarrow> (string \<times> millis \<times> nat) list" where
  "im_result s (Increment k w t) = (case im_increment k w t s of Inl e \<Rightarrow> [] | Inr (c, s') \<Rightarrow> [(k, t, lc_count c)])"
| "im_result s (Get_count k w t) = []"

definition im_results :: "limit_op list \<Rightarrow> (string \<times> millis \<times> nat) list" where
  "im_results xs = concat (map (\<lambda>i. im_result (foldl im_step new_InMemoryStore (take i xs)) (xs ! i)) [0..<length xs])"

lemma im_results_snoc: "im_results (xs @ [x]) = im_results xs @ im_result (foldl im_step new_InMemoryStore xs) x"
proof -
  have "[0..<length (xs @ [x])] = [0..<length xs] @ [length xs]" "take (length xs) (xs @ [x]) = xs" by simp_all
  moreover have "map (\<lambda>i. im_result (foldl im_step new_InMemoryStore (take i (xs @ [x]))) ((xs @ [x]) ! i)) [0..<length xs] =
      map (\<lambda>i. im_result (foldl im_step new_InMemoryStore (take i xs)) (xs ! i)) [0..<length xs]"
    by (rule map_cong) (simp_all add: nth_append)
  ultimately show ?thesis
    by (simp only: im_results_def map_append concat_append list.map concat.simps append_Nil2 nth_append_length)
qed

lemma im_results_increments:
  assumes "ops_valid win xs" "sorted (map op_time xs)"
  shows "map (\<lambda>(k, t, c). t) (filter (\<lambda>(k', t, c). k' = k) (im_results xs)) = increments k xs"
  using assms
proof (induction xs rule: rev_induct)
  case (snoc x xs)
  have v: "ops_valid win xs" "sorted (map op_time xs)" "\<forall>y \<in> set xs. op_time y \<le> op_time x"
    "assertOperationInputs (JString (op_key x)) (op_window x) = Inr (win (op_key x))"
    using snoc.prems by (auto simp: ops_valid_def sorted_append)
  show ?case
  proof (cases x)
    case (Increment k' w t)
    then show ?thesis using snoc.IH [OF v(1,2)] im_increment_window [OF v(1,2), of t k' w] v(3,4)
      by (auto simp: im_results_snoc increments_append)
  qed (use snoc.IH [OF v(1,2)] in \<open>simp add: im_results_snoc increments_append\<close>)
qed (simp add: im_results_def)

lemma window_bound:
  assumes "ops_valid win xs" "sorted (map op_time xs)"
  shows "length (filter (\<lambda>(k', t, c). k' = k \<and> u < t \<and> t \<le> u + win k \<and> c \<le> limit) (im_results xs)) \<le> limit"
  using assms
proof (induction xs rule: rev_induct)
  case (snoc x xs)
  have v: "ops_valid win xs" "sorted (map op_time xs)" "\<forall>y \<in> set xs. op_time y \<le> op_time x"
    "assertOperationInputs (JString (op_key x)) (op_window x) = Inr (win (op_key x))"
    using snoc.prems by (auto simp: ops_valid_def sorted_append)
  let ?P = "\<lambda>(k', t, c). k' = k \<and> u < t \<and> t \<le> u + win k \<and> c \<le> limit"
  show ?case
  proof (cases x)
    case (Increment k' w t)
    let ?c = "Suc (length (filter (\<lambda>v. t - win k' < v) (increments k' xs)))"
    obtain c s' where c: "im_increment k' w t (foldl im_step new_InMemoryStore xs) = Inr (c, s')" "lc_count c = ?c"
      using im_increment_window [OF v(1,2), of t k' w] v(3,4) Increment by auto
    have res: "im_results (xs @ [x]) = im_results xs @ [(k', t, ?c)]" using c by (simp add: im_results_snoc Increment)
    show ?thesis
    proof (cases "?P (k', t, ?c)")
      case True
      have "length (filter ?P (im_results xs)) \<le> length (filter (\<lambda>v. t - win k < v) (map (\<lambda>(k, t, c). t) (filter (\<lambda>(k', t, c). k' = k) (im_results xs))))"
        unfolding filter_map length_map filter_filter using True
        by (intro length_filter_le_filter) auto
      then show ?thesis using True res im_results_increments [OF v(1,2), of k] by auto
    next
      case False
      then show ?thesis using snoc.IH [OF v(1,2)] res by auto
    qed
  qed (use snoc.IH [OF v(1,2)] in \<open>simp add: im_results_snoc\<close>)
qed (simp add: im_results_def)

text \<open>The limit holds in every window. Over any run at non-decreasing times, however the requests are spread over the
  boundaries of minutes, any interval of the length of the window contains at most \<open>limit\<close> increments of a key that
  were admitted, that is, answered with a count of at most \<open>limit\<close>.\<close>

theorem window_never_exceeded:
  assumes "ops_valid win xs" "sorted (map op_time xs)"
  shows "length (filter (\<lambda>(k', t, c). k' = k \<and> u < t \<and> t \<le> u + win k \<and> c \<le> limit) (im_results xs)) \<le> limit"
  using window_bound [OF assms] .

theorem window_never_exceeded_witness:
  "length (filter (\<lambda>(k', t, c). k' = ''k'' \<and> 0 < t \<and> t \<le> 0 + 60000 \<and> c \<le> 1)
     (im_results [Increment ''k'' minute 5000, Increment ''k'' minute 20000])) \<le> 1"
proof -
  have j: "js_trim ''k'' \<noteq> []" by (simp add: js_trim_def is_space_def)
  have v: "ops_valid (\<lambda>_. 60000) [Increment ''k'' minute 5000, Increment ''k'' minute 20000]"
    using minute_valid [OF j] by (simp add: ops_valid_def)
  show ?thesis using window_never_exceeded [OF v, of "''k''" 0 1] by simp
qed

end
