(* ===== verification/Rate_Limit_Config.thy ===== *)
theory Rate_Limit_Config
  imports Http_Limit_Store
begin

text \<open>
  The configuration of the HTTP rate limiter: \<open>src/config/rateLimits.ts\<close>, the admin route
  \<open>PUT /api/rate-limits/config\<close> of \<open>src/routes/rateLimits.ts\<close> and the checks on per-tenant overrides of
  \<open>src/services/tenantRateLimitOverride.service.ts\<close>.

  The module variable \<open>runtimeConfig\<close> is passed as an argument and returned. A spread \<open>{...a, ...b}\<close> of a partial object is
  \<open>apply_patch\<close>. The lemmas: which budget a path has; what an accepted admin request leaves behind; that
  overrides only tighten the limit; and where validation and use disagree.
\<close>

section \<open>Tiers and routes\<close>

record RateLimitConfig =
  rc_windowMs :: int
  rc_max :: int
  rc_enabled :: bool

record RouteRateLimitConfig =
  rr_baseLimit :: int
  rr_writeLimit :: int
  rr_exempt :: bool

definition DEFAULT_IP_CONFIG :: RateLimitConfig where
  "DEFAULT_IP_CONFIG = \<lparr>rc_windowMs = 60000, rc_max = 100, rc_enabled = True\<rparr>"

definition DEFAULT_APIKEY_CONFIG :: RateLimitConfig where
  "DEFAULT_APIKEY_CONFIG = \<lparr>rc_windowMs = 60000, rc_max = 500, rc_enabled = True\<rparr>"

definition DEFAULT_ADMIN_CONFIG :: RateLimitConfig where
  "DEFAULT_ADMIN_CONFIG = \<lparr>rc_windowMs = 60000, rc_max = 2000, rc_enabled = True\<rparr>"

abbreviation budget :: "int \<Rightarrow> int \<Rightarrow> bool \<Rightarrow> RouteRateLimitConfig" where
  "budget b w e \<equiv> \<lparr>rr_baseLimit = b, rr_writeLimit = w, rr_exempt = e\<rparr>"

definition DEFAULT_ROUTE_CONFIG :: RouteRateLimitConfig where
  "DEFAULT_ROUTE_CONFIG = budget 0 0 False"

definition ROUTE_BUDGETS :: "(string \<times> RouteRateLimitConfig) list" where
  "ROUTE_BUDGETS =
     [(''/api/streams'', budget 100 20 False),
      (''/api/auth'', budget 50 10 False),
      (''/api/streams/:id'', budget 30 5 False),
      (''/api/privacy/consent'', budget 10 10 False),
      (''/api/privacy/erasure/:recipientAddress'', budget 5 5 False),
      (''/api/admin'', budget 50 10 False),
      (''/internal/indexer'', budget 1000 100 False),
      (''/metrics'', budget 0 0 True),
      (''/health'', budget 0 0 True)]"

definition route_matches :: "string \<Rightarrow> string \<Rightarrow> bool" where
  "route_matches pattern path \<longleftrightarrow>
     CHR '':'' \<in> set pattern \<and>
     list_all2 (\<lambda>patternPart pathPart. starts_with '':'' patternPart \<or> patternPart = pathPart)
       (split_on (CHR ''/'') pattern) (split_on (CHR ''/'') path)"

definition getRouteRateLimitConfig :: "string \<Rightarrow> RouteRateLimitConfig option" where
  "getRouteRateLimitConfig path =
     (case find (\<lambda>(p, c). p = path) ROUTE_BUDGETS of
        Some (p, c) \<Rightarrow> Some c
      | None \<Rightarrow> map_option snd (find (\<lambda>(p, c). route_matches p path) ROUTE_BUDGETS))"

section \<open>Runtime configuration\<close>

record RuntimeRateLimitConfig =
  rt_ip :: RateLimitConfig
  rt_apiKey :: RateLimitConfig
  rt_admin :: RateLimitConfig

record config_patch =
  cp_windowMs :: "int option"
  cp_max :: "int option"
  cp_enabled :: "bool option"

definition apply_patch :: "RateLimitConfig \<Rightarrow> config_patch \<Rightarrow> RateLimitConfig" where
  "apply_patch base p =
     \<lparr>rc_windowMs = nullish (cp_windowMs p) (rc_windowMs base), rc_max = nullish (cp_max p) (rc_max base),
      rc_enabled = nullish (cp_enabled p) (rc_enabled base)\<rparr>"

record runtime_patch =
  rp_ip :: "config_patch option"
  rp_apiKey :: "config_patch option"
  rp_admin :: "config_patch option"

definition merge_tier :: "RateLimitConfig \<Rightarrow> config_patch option \<Rightarrow> RateLimitConfig" where
  "merge_tier base p = (case p of None \<Rightarrow> base | Some q \<Rightarrow> apply_patch base q)"

definition merge_tiers :: "RuntimeRateLimitConfig \<Rightarrow> runtime_patch \<Rightarrow> RuntimeRateLimitConfig" where
  "merge_tiers base p =
     \<lparr>rt_ip = merge_tier (rt_ip base) (rp_ip p), rt_apiKey = merge_tier (rt_apiKey base) (rp_apiKey p),
      rt_admin = merge_tier (rt_admin base) (rp_admin p)\<rparr>"

definition default_tiers :: RuntimeRateLimitConfig where
  "default_tiers = \<lparr>rt_ip = DEFAULT_IP_CONFIG, rt_apiKey = DEFAULT_APIKEY_CONFIG, rt_admin = DEFAULT_ADMIN_CONFIG\<rparr>"

definition setRuntimeRateLimitConfig ::
  "runtime_patch \<Rightarrow> RuntimeRateLimitConfig option \<Rightarrow> RuntimeRateLimitConfig" where
  "setRuntimeRateLimitConfig patch runtimeConfig = merge_tiers (nullish runtimeConfig default_tiers) patch"

record rate_limit_settings =
  rl_ip :: RateLimitConfig
  rl_apiKey :: RateLimitConfig
  rl_admin :: RateLimitConfig
  rl_trustProxy :: bool
  rl_trustedProxyCount :: int
  rl_trustedProxies :: "string list"
  rl_allowlistIps :: "string list"

definition tier_config ::
  "bool \<Rightarrow> RateLimitConfig option \<Rightarrow> string option \<Rightarrow> string option \<Rightarrow> RateLimitConfig \<Rightarrow> RateLimitConfig" where
  "tier_config enabled runtime windowEnv maxEnv d =
     (case runtime of
        Some r \<Rightarrow> r\<lparr>rc_enabled := rc_enabled r \<and> enabled\<rparr>
      | None \<Rightarrow> \<lparr>rc_windowMs = parse_int_or windowEnv (rc_windowMs d), rc_max = parse_int_or maxEnv (rc_max d),
                 rc_enabled = enabled\<rparr>)"

definition nullish_chain :: "string option list \<Rightarrow> string option" where
  "nullish_chain xs = (case find (\<lambda>x. x \<noteq> None) xs of Some x \<Rightarrow> x | None \<Rightarrow> None)"

definition getRateLimitConfig :: "env \<Rightarrow> RuntimeRateLimitConfig option \<Rightarrow> rate_limit_settings" where
  "getRateLimitConfig env runtime =
     (let enabled = (env ''RATE_LIMIT_ENABLED'' \<noteq> Some ''false'')
      in \<lparr>rl_ip = tier_config enabled (map_option rt_ip runtime) (env ''RATE_LIMIT_IP_WINDOW_MS'') (env ''RATE_LIMIT_IP_MAX'')
            DEFAULT_IP_CONFIG,
          rl_apiKey = tier_config enabled (map_option rt_apiKey runtime) (env ''RATE_LIMIT_APIKEY_WINDOW_MS'')
            (env ''RATE_LIMIT_APIKEY_MAX'') DEFAULT_APIKEY_CONFIG,
          rl_admin = tier_config enabled (map_option rt_admin runtime) (env ''RATE_LIMIT_ADMIN_WINDOW_MS'')
            (env ''RATE_LIMIT_ADMIN_MAX'') DEFAULT_ADMIN_CONFIG,
          rl_trustProxy = (env ''RATE_LIMIT_TRUST_PROXY'' \<noteq> Some ''false''),
          rl_trustedProxyCount = parse_int_or (nullish_chain [env ''TRUSTED_PROXY_COUNT'', env ''TRUST_PROXY_HOPS'',
            env ''RATE_LIMIT_TRUSTED_PROXY_COUNT'']) 0,
          rl_trustedProxies = comma_entries (nullish (nullish_chain [env ''TRUSTED_PROXIES'', env ''WS_TRUSTED_PROXIES'',
            env ''RATE_LIMIT_TRUSTED_PROXIES'']) []),
          rl_allowlistIps = comma_entries (nullish (env ''RATE_LIMIT_ALLOWLIST_IPS'') [])\<rparr>)"

section \<open>Start-up validation\<close>

datatype config_issue =
    Not_an_integer string string
  | Below_minimum string int string
  | Above_maximum string int string

record IntegerRange =
  ir_min :: int
  ir_max :: "int option"

abbreviation at_least :: "int \<Rightarrow> IntegerRange" where
  "at_least n \<equiv> \<lparr>ir_min = n, ir_max = None\<rparr>"

abbreviation window_range :: IntegerRange where
  "window_range \<equiv> \<lparr>ir_min = 1, ir_max = Some MAX_WINDOW_MS\<rparr>"

definition RATE_LIMIT_INTEGER_ENVS :: "(string \<times> IntegerRange) list" where
  "RATE_LIMIT_INTEGER_ENVS =
     [(''RATE_LIMIT_IP_WINDOW_MS'', window_range), (''RATE_LIMIT_IP_MAX'', at_least 1),
      (''RATE_LIMIT_APIKEY_WINDOW_MS'', window_range), (''RATE_LIMIT_APIKEY_MAX'', at_least 1),
      (''RATE_LIMIT_ADMIN_WINDOW_MS'', window_range), (''RATE_LIMIT_ADMIN_MAX'', at_least 1),
      (''WEBHOOK_RETRY_RPS'', at_least 1), (''WEBHOOK_RETRY_BURST'', at_least 0)]"

definition integer_text :: "string \<Rightarrow> bool" where
  "integer_text s = (let ds = (if s \<noteq> [] \<and> hd s = CHR ''-'' then tl s else s) in ds \<noteq> [] \<and> list_all is_digit ds)"

definition check_integer_env :: "env \<Rightarrow> string \<times> IntegerRange \<Rightarrow> config_issue list" where
  "check_integer_env env = (\<lambda>(name, range).
     case env name of
       None \<Rightarrow> []
     | Some raw \<Rightarrow>
         if js_trim raw = [] then []
         else if \<not> integer_text (js_trim raw) then [Not_an_integer name raw]
         else case js_parse_int raw of
                None \<Rightarrow> []
              | Some n \<Rightarrow>
                  if n < ir_min range then [Below_minimum name (ir_min range) raw]
                  else case ir_max range of
                         None \<Rightarrow> []
                       | Some m \<Rightarrow> if m < n then [Above_maximum name m raw] else [])"

definition validateRateLimitsConfig :: "env \<Rightarrow> config_issue list" where
  "validateRateLimitsConfig env = concat (map (check_integer_env env) RATE_LIMIT_INTEGER_ENVS)"

section \<open>The admin route\<close>

definition js_integer :: "jsval \<Rightarrow> int option" where
  "js_integer v = (case v of JNumber (Finite r) \<Rightarrow> if of_int \<lfloor>r\<rfloor> = r then Some \<lfloor>r\<rfloor> else None | _ \<Rightarrow> None)"

definition is_object :: "jsval \<Rightarrow> bool" where
  "is_object v \<longleftrightarrow> (case v of JObject _ \<Rightarrow> True | JArray _ \<Rightarrow> True | _ \<Rightarrow> False)"

definition validateConfigPatch :: "jsval \<Rightarrow> string option" where
  "validateConfigPatch obj =
     (let windowMs = js_get obj ''windowMs''; max = js_get obj ''max''; enabled = js_get obj ''enabled''
      in if \<not> is_object obj then Some ''must be an object''
         else if windowMs \<noteq> JUndefined \<and> (case js_integer windowMs of None \<Rightarrow> True | Some n \<Rightarrow> n < 1000)
         then Some ''windowMs must be an integer >= 1000''
         else if windowMs \<noteq> JUndefined \<and> MAX_WINDOW_MS < the (js_integer windowMs)
         then Some (''windowMs must not exceed '' @ show_int MAX_WINDOW_MS @ '' (24 hours)'')
         else if max \<noteq> JUndefined \<and> (case js_integer max of None \<Rightarrow> True | Some n \<Rightarrow> n < 1)
         then Some ''max must be a positive integer''
         else if enabled \<noteq> JUndefined \<and> (case enabled of JBool _ \<Rightarrow> False | _ \<Rightarrow> True)
         then Some ''enabled must be a boolean''
         else None)"

text \<open>What a validated patch object contributes to a spread.\<close>

definition patch_of :: "jsval \<Rightarrow> config_patch" where
  "patch_of obj =
     \<lparr>cp_windowMs = js_integer (js_get obj ''windowMs''), cp_max = js_integer (js_get obj ''max''),
      cp_enabled = (case js_get obj ''enabled'' of JBool b \<Rightarrow> Some b | _ \<Rightarrow> None)\<rparr>"

definition tier_patch :: "jsval \<Rightarrow> config_patch option" where
  "tier_patch v = (if v = JUndefined then None else Some (patch_of v))"

datatype put_response =
    Put_error nat string string
  | Put_updated RuntimeRateLimitConfig

definition invalid_tier :: "jsval \<Rightarrow> (string \<times> string) option" where
  "invalid_tier body =
     (case filter (\<lambda>(k, e). e \<noteq> None)
             (map (\<lambda>k. (k, if js_get body k = JUndefined then None else validateConfigPatch (js_get body k)))
                [''ip'', ''apiKey'', ''admin'']) of
        (k, Some e) # _ \<Rightarrow> Some (k, e)
      | _ \<Rightarrow> None)"

definition body_patch :: "jsval \<Rightarrow> runtime_patch" where
  "body_patch body =
     \<lparr>rp_ip = tier_patch (js_get body ''ip''), rp_apiKey = tier_patch (js_get body ''apiKey''),
      rp_admin = tier_patch (js_get body ''admin'')\<rparr>"

definition put_config ::
  "RuntimeRateLimitConfig \<Rightarrow> jsval \<Rightarrow> RuntimeRateLimitConfig option \<Rightarrow> put_response \<times> RuntimeRateLimitConfig option" where
  "put_config defaults body runtimeConfig =
     (if js_get body ''ip'' = JUndefined \<and> js_get body ''apiKey'' = JUndefined \<and> js_get body ''admin'' = JUndefined
      then (Put_error 400 ''VALIDATION_ERROR'' ''Body must include at least one of: ip, apiKey, admin.'', runtimeConfig)
      else case invalid_tier body of
        Some (key, err) \<Rightarrow>
          (Put_error 400 ''VALIDATION_ERROR'' (''Invalid config for '' @ [char_of (39 :: nat)] @ key @ [char_of (39 :: nat)] @ '': '' @ err),
           runtimeConfig)
      | None \<Rightarrow>
          let merged = merge_tiers (nullish runtimeConfig defaults) (body_patch body)
          in if \<not> rc_enabled (rt_ip merged) \<and> \<not> rc_enabled (rt_apiKey merged) \<and> \<not> rc_enabled (rt_admin merged)
             then (Put_error 409 ''CONFLICT'' ''Cannot disable all rate-limit tiers simultaneously.'', runtimeConfig)
             else let updated = setRuntimeRateLimitConfig (body_patch body) runtimeConfig
                  in (Put_updated updated, Some updated))"

definition env_defaults :: "env \<Rightarrow> RuntimeRateLimitConfig" where
  "env_defaults env = (let c = getRateLimitConfig env None in \<lparr>rt_ip = rl_ip c, rt_apiKey = rl_apiKey c, rt_admin = rl_admin c\<rparr>)"

section \<open>Tenant overrides\<close>

record CreateOverrideParams =
  ov_keyId :: string
  ov_maxRequests :: jsval
  ov_windowMs :: jsval
  ov_expiresAt :: "string option"

record RateLimitOverride =
  ro_id :: string
  ro_keyId :: string
  ro_maxRequests :: int
  ro_windowMs :: int
  ro_expiresAt :: "millis option"
  ro_createdBy :: string
  ro_createdAt :: millis

datatype override_error =
    Empty_identifier string
  | Long_identifier string nat
  | Bad_max_requests
  | Max_requests_above int
  | Bad_window
  | Bad_expiry
  | Above_ceiling int
  | Window_above_ceiling int
  | Override_not_found string
  | Key_taken string

definition MAX_IDENTIFIER_LENGTH :: nat where "MAX_IDENTIFIER_LENGTH = 128"
definition MAX_REQUESTS_UPPER_BOUND :: int where "MAX_REQUESTS_UPPER_BOUND = 10000000"
definition MIN_WINDOW_MS :: int where "MIN_WINDOW_MS = 1000"

definition validateIdentifier :: "string \<Rightarrow> string \<Rightarrow> override_error option" where
  "validateIdentifier fieldName s =
     (if js_trim s = [] then Some (Empty_identifier fieldName)
      else if MAX_IDENTIFIER_LENGTH < length s then Some (Long_identifier fieldName (length s))
      else None)"

text \<open>\<open>date\<close> is \<open>Date.parse\<close>.\<close>

definition validateCreateOverrideParams :: "(string \<Rightarrow> millis option) \<Rightarrow> CreateOverrideParams \<Rightarrow> override_error option" where
  "validateCreateOverrideParams date params =
     (case validateIdentifier ''keyId'' (ov_keyId params) of
        Some e \<Rightarrow> Some e
      | None \<Rightarrow>
          (case js_integer (ov_maxRequests params) of
             None \<Rightarrow> Some Bad_max_requests
           | Some n \<Rightarrow>
               if n \<le> 0 then Some Bad_max_requests
               else if MAX_REQUESTS_UPPER_BOUND < n then Some (Max_requests_above n)
               else (case js_integer (ov_windowMs params) of
                       None \<Rightarrow> Some Bad_window
                     | Some w \<Rightarrow>
                         if w < MIN_WINDOW_MS then Some Bad_window
                         else (case ov_expiresAt params of
                                 None \<Rightarrow> None
                               | Some e \<Rightarrow> if date e = None then Some Bad_expiry else None))))"

record OverrideCeiling =
  oc_maxRequests :: int
  oc_windowMs :: int

definition getOverrideCeiling :: "env \<Rightarrow> RuntimeRateLimitConfig option \<Rightarrow> OverrideCeiling" where
  "getOverrideCeiling env runtime =
     \<lparr>oc_maxRequests = rc_max (rl_apiKey (getRateLimitConfig env runtime)), oc_windowMs = MAX_WINDOW_MS\<rparr>"

definition assertOverrideWithinCeiling :: "int \<Rightarrow> int \<Rightarrow> OverrideCeiling \<Rightarrow> override_error option" where
  "assertOverrideWithinCeiling maxRequests windowMs bound =
     (if oc_maxRequests bound < maxRequests then Some (Above_ceiling (oc_maxRequests bound))
      else if oc_windowMs bound < windowMs then Some (Window_above_ceiling (oc_windowMs bound))
      else None)"

text \<open>The table \<open>tenant_rate_limit_overrides\<close> is a list of rows; its migration declares \<open>key_id\<close> unique, so an \<open>INSERT\<close> of
  a key that has a row fails. \<open>now\<close> is the clock of the database.\<close>

definition override_active :: "millis \<Rightarrow> RateLimitOverride \<Rightarrow> bool" where
  "override_active now r \<longleftrightarrow> (case ro_expiresAt r of None \<Rightarrow> True | Some e \<Rightarrow> now < e)"

definition getOverride :: "string \<Rightarrow> millis \<Rightarrow> RateLimitOverride list \<Rightarrow> override_error + RateLimitOverride option" where
  "getOverride keyId now rows =
     (case validateIdentifier ''keyId'' keyId of
        Some e \<Rightarrow> Inl e
      | None \<Rightarrow> Inr (find (\<lambda>r. ro_keyId r = keyId \<and> override_active now r) rows))"

definition getOverrideById :: "string \<Rightarrow> millis \<Rightarrow> RateLimitOverride list \<Rightarrow> override_error + RateLimitOverride option" where
  "getOverrideById i now rows =
     (case validateIdentifier ''id'' i of
        Some e \<Rightarrow> Inl e
      | None \<Rightarrow> Inr (find (\<lambda>r. ro_id r = i \<and> override_active now r) rows))"

text \<open>\<open>cuid\<close> is the identifier generated for the row.\<close>

definition createOverride ::
  "(string \<Rightarrow> millis option) \<Rightarrow> OverrideCeiling \<Rightarrow> string \<Rightarrow> CreateOverrideParams \<Rightarrow> string \<Rightarrow> millis \<Rightarrow>
   RateLimitOverride list \<Rightarrow> (override_error + RateLimitOverride) \<times> RateLimitOverride list" where
  "createOverride date bound cuid params createdBy now rows =
     (case validateCreateOverrideParams date params of
        Some e \<Rightarrow> (Inl e, rows)
      | None \<Rightarrow>
          (case validateIdentifier ''createdBy'' createdBy of
             Some e \<Rightarrow> (Inl e, rows)
           | None \<Rightarrow>
               let n = the (js_integer (ov_maxRequests params)); w = the (js_integer (ov_windowMs params))
               in case assertOverrideWithinCeiling n w bound of
                    Some e \<Rightarrow> (Inl e, rows)
                  | None \<Rightarrow>
                      if \<exists>r \<in> set rows. ro_keyId r = ov_keyId params then (Inl (Key_taken (ov_keyId params)), rows)
                      else let r = \<lparr>ro_id = cuid, ro_keyId = ov_keyId params, ro_maxRequests = n, ro_windowMs = w,
                                    ro_expiresAt = Option.bind (ov_expiresAt params) date, ro_createdBy = createdBy, ro_createdAt = now\<rparr>
                           in (Inr r, rows @ [r])))"

definition deleteOverride ::
  "string \<Rightarrow> RateLimitOverride list \<Rightarrow> (override_error + RateLimitOverride) \<times> RateLimitOverride list" where
  "deleteOverride i rows =
     (case validateIdentifier ''id'' i of
        Some e \<Rightarrow> (Inl e, rows)
      | None \<Rightarrow>
          (case find (\<lambda>r. ro_id r = i) rows of
             None \<Rightarrow> (Inl (Override_not_found i), rows)
           | Some r \<Rightarrow> (Inr r, filter (\<lambda>r. ro_id r \<noteq> i) rows)))"

definition listOverrides :: "millis \<Rightarrow> RateLimitOverride list \<Rightarrow> RateLimitOverride list" where
  "listOverrides now rows = sort_key (\<lambda>r. - ro_createdAt r) (filter (override_active now) rows)"

section \<open>Overrides only tighten\<close>

lemma createOverride_row:
  assumes "createOverride date bound cuid params createdBy now rows = (Inr r, rows')"
  shows "rows' = rows @ [r] \<and> ro_id r = cuid \<and> 1 \<le> ro_maxRequests r \<and> ro_maxRequests r \<le> oc_maxRequests bound \<and>
    MIN_WINDOW_MS \<le> ro_windowMs r \<and> ro_windowMs r \<le> oc_windowMs bound \<and>
    ro_keyId r = ov_keyId params \<and> validateIdentifier ''keyId'' (ro_keyId r) = None \<and> (\<forall>r' \<in> set rows. ro_keyId r' \<noteq> ro_keyId r)"
  using assms
  by (auto simp: createOverride_def validateCreateOverrideParams_def assertOverrideWithinCeiling_def Let_def MIN_WINDOW_MS_def
      split: option.splits if_splits)

text \<open>A tenant override can only tighten the limit: whatever is requested, a created override allows between one request and the
  limit of the API-key tier in force, over a window that the store accepts; it is the override found for its key from
  then on until it expires, and no other key is affected. A request that is refused leaves the table unchanged.\<close>

theorem overrides_only_tighten:
  assumes "createOverride date (getOverrideCeiling env runtime) cuid params createdBy now rows = (res, rows')"
  shows "case res of
      Inl e \<Rightarrow> rows' = rows
    | Inr r \<Rightarrow>
        1 \<le> ro_maxRequests r \<and> ro_maxRequests r \<le> rc_max (rl_apiKey (getRateLimitConfig env runtime)) \<and>
        MIN_RATE_LIMIT_WINDOW_MS \<le> ro_windowMs r \<and> ro_windowMs r \<le> MAX_WINDOW_MS \<and>
        (\<forall>t. getOverride (ov_keyId params) t rows' = Inr (if override_active t r then Some r else None)) \<and>
        (\<forall>k t. k \<noteq> ov_keyId params \<longrightarrow> getOverride k t rows' = getOverride k t rows)"
proof (cases res)
  case (Inl e)
  then show ?thesis using assms
    by (auto simp: createOverride_def Let_def split: option.splits if_splits)
next
  case (Inr r)
  note row = createOverride_row [OF assms [unfolded Inr]]
  have "find (\<lambda>r'. ro_keyId r' = ov_keyId params \<and> override_active t r') rows = None" for t
    using row by (auto simp: find_None_iff)
  moreover have "find P (rows @ [r]) = (case find P rows of None \<Rightarrow> if P r then Some r else None | Some x \<Rightarrow> Some x)" for P
    by (induction rows) auto
  ultimately show ?thesis
    using row by (auto simp: Inr getOverrideCeiling_def MIN_WINDOW_MS_def MIN_RATE_LIMIT_WINDOW_MS_def getOverride_def split: option.split)
qed

theorem overrides_only_tighten_witness:
  "case createOverride (\<lambda>_. None) (getOverrideCeiling (\<lambda>_. None) None) ''c1''
      \<lparr>ov_keyId = ''tenant'', ov_maxRequests = JNumber (Finite 40), ov_windowMs = JNumber (Finite 2000), ov_expiresAt = None\<rparr> ''admin'' 5 [] of
     (Inr r, rows') \<Rightarrow> ro_maxRequests r \<le> 500 \<and> getOverride ''tenant'' 6 rows' = Inr (Some r)
   | _ \<Rightarrow> False"
proof -
  let ?p = "\<lparr>ov_keyId = ''tenant'', ov_maxRequests = JNumber (Finite 40), ov_windowMs = JNumber (Finite 2000), ov_expiresAt = None\<rparr>"
  let ?r = "\<lparr>ro_id = ''c1'', ro_keyId = ''tenant'', ro_maxRequests = 40, ro_windowMs = 2000, ro_expiresAt = None,
      ro_createdBy = ''admin'', ro_createdAt = 5\<rparr>"
  have c: "createOverride (\<lambda>_. None) (getOverrideCeiling (\<lambda>_. None) None) ''c1'' ?p ''admin'' 5 [] = (Inr ?r, [?r])"
    by code_simp
  have m: "rc_max (rl_apiKey (getRateLimitConfig (\<lambda>_. None) None)) = 500" by code_simp
  show ?thesis using overrides_only_tighten [OF c] m unfolding c by (simp add: override_active_def)
qed

section \<open>Accepted configurations\<close>

definition tier_ok :: "RateLimitConfig \<Rightarrow> bool" where
  "tier_ok c \<longleftrightarrow> MIN_RATE_LIMIT_WINDOW_MS \<le> rc_windowMs c \<and> rc_windowMs c \<le> MAX_WINDOW_MS \<and> 1 \<le> rc_max c"

definition runtime_ok :: "RuntimeRateLimitConfig option \<Rightarrow> bool" where
  "runtime_ok s = (case s of
     None \<Rightarrow> True
   | Some r \<Rightarrow> tier_ok (rt_ip r) \<and> tier_ok (rt_apiKey r) \<and> tier_ok (rt_admin r) \<and>
       (rc_enabled (rt_ip r) \<or> rc_enabled (rt_apiKey r) \<or> rc_enabled (rt_admin r)))"

definition put_step ::
  "RuntimeRateLimitConfig \<Rightarrow> RuntimeRateLimitConfig option \<Rightarrow> jsval \<Rightarrow> RuntimeRateLimitConfig option" where
  "put_step defaults s body = snd (put_config defaults body s)"

lemma valid_patch_ok:
  "validateConfigPatch v = None \<Longrightarrow> tier_ok c \<Longrightarrow> tier_ok (apply_patch c (patch_of v))"
  by (auto simp: validateConfigPatch_def Let_def tier_ok_def apply_patch_def patch_of_def MIN_RATE_LIMIT_WINDOW_MS_def
      nullish_def js_integer_def split: if_splits option.splits)

lemma merge_tier_ok:
  assumes "invalid_tier body = None" "tier_ok c" "k \<in> {''ip'', ''apiKey'', ''admin''}"
  shows "tier_ok (merge_tier c (tier_patch (js_get body k)))"
proof (cases "js_get body k = JUndefined")
  case False
  then have "validateConfigPatch (js_get body k) = None"
    using assms(1,3) by (auto simp: invalid_tier_def split: if_splits option.splits)
  then show ?thesis using False assms(2) by (simp add: merge_tier_def tier_patch_def valid_patch_ok)
qed (simp add: merge_tier_def tier_patch_def assms(2))

lemma default_tiers_ok:
  "tier_ok (rt_ip default_tiers)" "tier_ok (rt_apiKey default_tiers)" "tier_ok (rt_admin default_tiers)"
  "rc_enabled (rt_ip default_tiers)" "rc_enabled (rt_apiKey default_tiers)" "rc_enabled (rt_admin default_tiers)"
  by (simp_all add: default_tiers_def tier_ok_def DEFAULT_IP_CONFIG_def DEFAULT_APIKEY_CONFIG_def DEFAULT_ADMIN_CONFIG_def
      MIN_RATE_LIMIT_WINDOW_MS_def MAX_WINDOW_MS_def)

lemma merged_enabled:
  "rc_enabled (merge_tier c p) \<Longrightarrow> rc_enabled d \<Longrightarrow> rc_enabled (merge_tier d p)"
  by (cases p) (auto simp: merge_tier_def apply_patch_def nullish_def split: option.splits)

lemma put_config_ok:
  assumes "runtime_ok s"
  shows "runtime_ok (snd (put_config defaults body s))"
proof (cases "fst (put_config defaults body s)")
  case (Put_updated r)
  let ?base = "nullish s default_tiers"
  have v: "invalid_tier body = None" and s': "snd (put_config defaults body s) = Some r"
    and r: "r = merge_tiers ?base (body_patch body)"
    and en: "let m = merge_tiers (nullish s defaults) (body_patch body)
      in rc_enabled (rt_ip m) \<or> rc_enabled (rt_apiKey m) \<or> rc_enabled (rt_admin m)"
    using Put_updated by (auto simp: put_config_def setRuntimeRateLimitConfig_def Let_def split: if_splits option.splits)
  have ok: "tier_ok (rt_ip ?base)" "tier_ok (rt_apiKey ?base)" "tier_ok (rt_admin ?base)"
    using assms default_tiers_ok by (auto simp: runtime_ok_def split: option.splits)
  have "rc_enabled (rt_ip r) \<or> rc_enabled (rt_apiKey r) \<or> rc_enabled (rt_admin r)"
    using en default_tiers_ok(4-6)
    by (cases s) (auto simp: r Let_def merge_tiers_def intro: merged_enabled)
  then show ?thesis
    using s' merge_tier_ok [OF v ok(1)] merge_tier_ok [OF v ok(2)] merge_tier_ok [OF v ok(3)]
    by (simp add: runtime_ok_def r merge_tiers_def body_patch_def)
next
  case (Put_error a b c)
  then have "snd (put_config defaults body s) = s"
    by (auto simp: put_config_def Let_def split: if_splits option.splits)
  then show ?thesis using assms by simp
qed

interpretation put_run: op_invariant "put_step defaults" runtime_ok for defaults
  by unfold_locales (simp add: put_step_def put_config_ok)

text \<open>No sequence of requests to the admin route, valid or not, from whatever start-up defaults, leaves a configuration
  that the store would refuse: every tier keeps a window between one second and one day and a limit of at
  least one, and some tier stays enabled.\<close>

theorem admin_config_safe: "runtime_ok (foldl (put_step defaults) None bodies)"
  by (rule put_run.run_inv) (simp add: runtime_ok_def)

text \<open>An admin request discards the configured limits of the tiers it does not mention. Until the first request the API-key
  tier has the limit of the environment; after an accepted request that only names other tiers it has the built-in
  default, although the route compares and reports against the limits of the environment.\<close>

theorem admin_patch_discards_env:
  assumes "put_config (env_defaults env) body None = (Put_updated r, s)" "js_get body ''apiKey'' = JUndefined"
  shows "rc_max (rl_apiKey (getRateLimitConfig env None)) = parse_int_or (env ''RATE_LIMIT_APIKEY_MAX'') 500 \<and>
    rc_max (rl_apiKey (getRateLimitConfig env s)) = 500 \<and> rc_windowMs (rl_apiKey (getRateLimitConfig env s)) = 60000"
proof -
  have "s = Some (merge_tiers default_tiers (body_patch body))"
    using assms(1) by (auto simp: put_config_def setRuntimeRateLimitConfig_def Let_def split: if_splits option.splits)
  then show ?thesis using assms(2)
    by (simp add: getRateLimitConfig_def Let_def tier_config_def merge_tiers_def merge_tier_def body_patch_def tier_patch_def
        default_tiers_def DEFAULT_APIKEY_CONFIG_def)
qed

theorem admin_patch_discards_env_witness:
  "rc_max (rl_apiKey (getRateLimitConfig ((\<lambda>_. None)(''RATE_LIMIT_APIKEY_MAX'' := Some ''50'')) None)) = 50 \<and>
   rc_max (rl_apiKey (getRateLimitConfig ((\<lambda>_. None)(''RATE_LIMIT_APIKEY_MAX'' := Some ''50''))
     (snd (put_config (env_defaults ((\<lambda>_. None)(''RATE_LIMIT_APIKEY_MAX'' := Some ''50'')))
        (JObject [(''ip'', JObject [(''max'', JNumber (Finite 200))])]) None)))) = 500"
proof -
  let ?env = "(\<lambda>_. None)(''RATE_LIMIT_APIKEY_MAX'' := Some ''50'') :: env"
  let ?body = "JObject [(''ip'', JObject [(''max'', JNumber (Finite 200))])]"
  have c: "put_config (env_defaults ?env) ?body None =
      (Put_updated (default_tiers\<lparr>rt_ip := DEFAULT_IP_CONFIG\<lparr>rc_max := 200\<rparr>\<rparr>), Some (default_tiers\<lparr>rt_ip := DEFAULT_IP_CONFIG\<lparr>rc_max := 200\<rparr>\<rparr>))"
    by code_simp
  have u: "js_get ?body ''apiKey'' = JUndefined" by code_simp
  have e: "parse_int_or (?env ''RATE_LIMIT_APIKEY_MAX'') 500 = 50" by code_simp
  show ?thesis using admin_patch_discards_env [OF c u] e unfolding c by simp
qed

end
