(* ===== verification/Client_Ip.thy ===== *)
theory Client_Ip
  imports Fluxora_Prelude
begin

text \<open>
  The client address of a request, \<open>src/lib/ipExtraction.ts\<close>, on which rate limiting, the authentication lockout and the
  connection limits rest: the peer of the socket, or an entry of \<open>X-Forwarded-For\<close> that a trusted proxy has
  written.

  The environment is the argument \<open>env\<close>, a set of addresses a list. The lemmas show which entry is chosen and that a
  client cannot change the result by sending forwarding entries of its own.
\<close>

section \<open>Requests and options\<close>

datatype header_value = Header_text string | Header_list "string list"

text \<open>The value of the Express setting \<open>trust proxy\<close>; \<open>Trust_other\<close> is a function given to Express.\<close>

datatype trust_setting =
    Trust_unset
  | Trust_bool bool
  | Trust_number int
  | Trust_text string
  | Trust_list "string list"
  | Trust_other

record incoming =
  in_remoteAddress :: "string option"
  in_ip :: "string option"
  in_trustProxy :: trust_setting
  in_forwarded :: "header_value option"

datatype proxy_list = Proxy_array "string list" | Proxy_set "string list"

record ClientIpOptions =
  co_trustedProxies :: "proxy_list option"
  co_trustedProxyCount :: "int option"
  co_trustProxy :: "bool option"

definition no_options :: ClientIpOptions where
  "no_options = \<lparr>co_trustedProxies = None, co_trustedProxyCount = None, co_trustProxy = None\<rparr>"

definition trust_truthy :: "trust_setting \<Rightarrow> bool" where
  "trust_truthy t =
     (case t of Trust_unset \<Rightarrow> False | Trust_bool b \<Rightarrow> b | Trust_number n \<Rightarrow> n \<noteq> 0 | Trust_text s \<Rightarrow> s \<noteq> []
      | Trust_list xs \<Rightarrow> True | Trust_other \<Rightarrow> True)"

text \<open>\<open>!Number.isNaN(Number(s))\<close>: the numeric literals that \<open>Number\<close> accepts.\<close>

definition drop_sign :: "string \<Rightarrow> string" where
  "drop_sign s = (if s \<noteq> [] \<and> (hd s = CHR ''+'' \<or> hd s = CHR ''-'') then tl s else s)"

definition exponent_text :: "string \<Rightarrow> bool" where
  "exponent_text s \<longleftrightarrow> s = [] \<or> (hd s \<in> set ''eE'' \<and> drop_sign (tl s) \<noteq> [] \<and> list_all is_digit (drop_sign (tl s)))"

definition decimal_text :: "string \<Rightarrow> bool" where
  "decimal_text s \<longleftrightarrow>
     s = ''Infinity'' \<or>
     (let whole = takeWhile is_digit s; r = dropWhile is_digit s;
          dot = (r \<noteq> [] \<and> hd r = CHR ''.'');
          frac = (if dot then takeWhile is_digit (tl r) else []);
          rest = (if dot then dropWhile is_digit (tl r) else r)
      in (whole \<noteq> [] \<or> frac \<noteq> []) \<and> exponent_text rest)"

definition radix_text :: "string \<Rightarrow> bool" where
  "radix_text s \<longleftrightarrow>
     drop 2 s \<noteq> [] \<and>
     (take 2 s \<in> set [''0x'', ''0X''] \<and> list_all (\<lambda>c. c \<in> set ''0123456789abcdefABCDEF'') (drop 2 s) \<or>
      take 2 s \<in> set [''0o'', ''0O''] \<and> list_all (\<lambda>c. c \<in> set ''01234567'') (drop 2 s) \<or>
      take 2 s \<in> set [''0b'', ''0B''] \<and> list_all (\<lambda>c. c \<in> set ''01'') (drop 2 s))"

definition is_number_text :: "string \<Rightarrow> bool" where
  "is_number_text s \<longleftrightarrow> (let t = js_trim s in t = [] \<or> decimal_text (drop_sign t) \<or> radix_text t)"

section \<open>Extraction\<close>

definition normalizeIp :: "string \<Rightarrow> string" where
  "normalizeIp ip = (let trimmed = js_trim ip in if starts_with ''::ffff:'' trimmed then drop 7 trimmed else trimmed)"

definition parseTrustedProxies :: "string \<Rightarrow> string list" where
  "parseTrustedProxies raw = concat (map (\<lambda>part. [part, normalizeIp part]) (comma_entries raw))"

definition isTrustedProxy :: "string \<Rightarrow> string list \<Rightarrow> bool" where
  "isTrustedProxy ip trustedProxies \<longleftrightarrow>
     trustedProxies \<noteq> [] \<and> (ip \<in> set trustedProxies \<or> normalizeIp ip \<in> set trustedProxies)"

definition remote_address :: "incoming \<Rightarrow> string" where
  "remote_address req = str_or (in_remoteAddress req) (str_or (in_ip req) ''unknown'')"

definition trust_enabled :: "env \<Rightarrow> ClientIpOptions \<Rightarrow> incoming \<Rightarrow> bool" where
  "trust_enabled env options req =
     (if in_trustProxy req = Trust_bool False \<and> co_trustProxy options = None then False
      else nullish (co_trustProxy options) (env ''RATE_LIMIT_TRUST_PROXY'' \<noteq> Some ''false''))"

definition trusted_proxies :: "env \<Rightarrow> ClientIpOptions \<Rightarrow> incoming \<Rightarrow> string list" where
  "trusted_proxies env options req =
     (case co_trustedProxies options of
        Some (Proxy_set xs) \<Rightarrow> xs
      | Some (Proxy_array xs) \<Rightarrow> parseTrustedProxies (join '','' xs)
      | None \<Rightarrow>
          let fromEnv = parseTrustedProxies (str_or (env ''TRUSTED_PROXIES'') (str_or (env ''WS_TRUSTED_PROXIES'')
                          (str_or (env ''RATE_LIMIT_TRUSTED_PROXIES'') [])))
          in if fromEnv \<noteq> [] then fromEnv
             else case in_trustProxy req of
                    Trust_list xs \<Rightarrow> parseTrustedProxies (join '','' xs)
                  | Trust_text s \<Rightarrow> if s \<noteq> [] \<and> \<not> is_number_text s then parseTrustedProxies s else []
                  | _ \<Rightarrow> [])"

definition hop_count_env :: "env \<Rightarrow> string" where
  "hop_count_env env = str_or (env ''TRUSTED_PROXY_COUNT'') (str_or (env ''TRUST_PROXY_HOPS'')
     (str_or (env ''RATE_LIMIT_TRUSTED_PROXY_COUNT'') ''0''))"

text \<open>\<open>parseInt\<close> of a numeric text without leading digits is \<open>NaN\<close>, for which every comparison is false; \<open>0\<close> stands for it.\<close>

definition trusted_count :: "env \<Rightarrow> ClientIpOptions \<Rightarrow> incoming \<Rightarrow> int" where
  "trusted_count env options req =
     (let configured = (case co_trustedProxyCount options of Some n \<Rightarrow> Some n | None \<Rightarrow> js_parse_int (hop_count_env env));
          n = (case configured of None \<Rightarrow> 0 | Some n \<Rightarrow> if n < 0 then 0 else n)
      in if n = 0 \<and> trust_truthy (in_trustProxy req) \<and> trusted_proxies env options req = []
         then case in_trustProxy req of
                Trust_number k \<Rightarrow> k
              | Trust_bool True \<Rightarrow> 1
              | Trust_text s \<Rightarrow> if is_number_text s then nullish (js_parse_int s) 0 else n
              | _ \<Rightarrow> n
         else n)"

definition forwarded_entries :: "header_value \<Rightarrow> string list" where
  "forwarded_entries raw = comma_entries (case raw of Header_text s \<Rightarrow> s | Header_list xs \<Rightarrow> join '','' xs)"

definition nth_from_right :: "int \<Rightarrow> string list \<Rightarrow> string" where
  "nth_from_right n ips =
     (let targetIndex = int (length ips) - n in if 0 \<le> targetIndex then ips ! nat targetIndex else ips ! 0)"

definition last_untrusted :: "string list \<Rightarrow> string list \<Rightarrow> string" where
  "last_untrusted proxies ips =
     (case find (\<lambda>candidate. \<not> isTrustedProxy candidate proxies) (rev ips) of Some c \<Rightarrow> c | None \<Rightarrow> ips ! 0)"

definition getClientIp :: "env \<Rightarrow> ClientIpOptions \<Rightarrow> incoming \<Rightarrow> string" where
  "getClientIp env options req =
     (let remoteAddress = remote_address req; proxies = trusted_proxies env options req; n = trusted_count env options req
      in if remoteAddress = ''unknown'' then ''unknown''
         else if \<not> trust_enabled env options req then remoteAddress
         else case in_forwarded req of
                None \<Rightarrow> remoteAddress
              | Some raw \<Rightarrow>
                  if raw = Header_text [] then remoteAddress
                  else if n \<le> 0 \<and> proxies = [] then remoteAddress
                  else let ips = forwarded_entries raw
                       in if ips = [] then remoteAddress
                          else if 0 < n
                          then if proxies \<noteq> [] \<and> \<not> isTrustedProxy remoteAddress proxies then remoteAddress
                               else nth_from_right n ips
                          else if proxies \<noteq> []
                          then if \<not> isTrustedProxy remoteAddress proxies then remoteAddress
                               else last_untrusted proxies ips
                          else remoteAddress)"

section \<open>Which entry is chosen\<close>

lemma nth_from_right_prepend: "0 < n \<Longrightarrow> n \<le> int (length ys) \<Longrightarrow> nth_from_right n (xs @ ys) = nth_from_right n ys"
  by (auto simp: nth_from_right_def nth_append Let_def nat_less_iff intro!: arg_cong [where f = "nth ys"])

lemma find_append: "find P (xs @ ys) = (case find P xs of None \<Rightarrow> find P ys | Some x \<Rightarrow> Some x)"
  by (induction xs) auto

lemma last_untrusted_prepend:
  assumes "\<exists>y \<in> set ys. \<not> isTrustedProxy y proxies"
  shows "last_untrusted proxies (xs @ ys) = last_untrusted proxies ys"
proof -
  have "find (\<lambda>c. \<not> isTrustedProxy c proxies) (rev ys) \<noteq> None" using assms by (auto simp: find_None_iff)
  then show ?thesis by (auto simp: last_untrusted_def find_append)
qed

lemma last_untrusted_between:
  assumes "\<not> isTrustedProxy c proxies" "\<forall>y \<in> set ys. isTrustedProxy y proxies"
  shows "last_untrusted proxies (xs @ c # ys) = c"
proof -
  have "find (\<lambda>c. \<not> isTrustedProxy c proxies) (rev ys) = None" using assms(2) by (auto simp: find_None_iff)
  then show ?thesis using assms(1) by (simp add: last_untrusted_def find_append)
qed

lemma forwarded_entries_prepend:
  "forwarded_entries (Header_text (spoof @ CHR '','' # genuine)) = comma_entries spoof @ forwarded_entries (Header_text genuine)"
  by (simp add: forwarded_entries_def comma_entries_concat)

text \<open>The entries that trusted proxies wrote decide: enough hops for the configured count, or an address that is not a
  proxy.\<close>

definition entries_decide :: "env \<Rightarrow> ClientIpOptions \<Rightarrow> incoming \<Rightarrow> string list \<Rightarrow> bool" where
  "entries_decide env options req ips \<longleftrightarrow>
     (if 0 < trusted_count env options req then trusted_count env options req \<le> int (length ips)
      else \<exists>ip \<in> set ips. \<not> isTrustedProxy ip (trusted_proxies env options req))"

lemma proxies_of_forwarded [simp]:
  "trusted_proxies env options (req\<lparr>in_forwarded := f\<rparr>) = trusted_proxies env options req"
  "trusted_count env options (req\<lparr>in_forwarded := f\<rparr>) = trusted_count env options req"
  "trust_enabled env options (req\<lparr>in_forwarded := f\<rparr>) = trust_enabled env options req"
  "remote_address (req\<lparr>in_forwarded := f\<rparr>) = remote_address req"
proof -
  have same: "in_trustProxy (req\<lparr>in_forwarded := f\<rparr>) = in_trustProxy req" by simp
  show "trusted_proxies env options (req\<lparr>in_forwarded := f\<rparr>) = trusted_proxies env options req"
    "trusted_count env options (req\<lparr>in_forwarded := f\<rparr>) = trusted_count env options req"
    "trust_enabled env options (req\<lparr>in_forwarded := f\<rparr>) = trust_enabled env options req"
    unfolding trusted_proxies_def trusted_count_def trust_enabled_def same by (rule refl)+
qed (simp add: remote_address_def)

text \<open>(C39) A client cannot choose its address. Whatever a client puts in front of the forwarding header, the address that
  is extracted does not change, provided the entries added by the proxies behind it include the configured number of hops
  (or, with a list of proxies only, one address that is not a proxy). And when proxies are listed, a request whose peer is not
  one of them gets the address of its peer, whatever the header says.\<close>

theorem forwarding_not_spoofable:
  assumes "entries_decide env options req (forwarded_entries (Header_text genuine))"
  shows "getClientIp env options (req\<lparr>in_forwarded := Some (Header_text (spoof @ CHR '','' # genuine))\<rparr>) =
      getClientIp env options (req\<lparr>in_forwarded := Some (Header_text genuine)\<rparr>) \<and>
    (trusted_proxies env options req \<noteq> [] \<and> \<not> isTrustedProxy (remote_address req) (trusted_proxies env options req) \<longrightarrow>
      getClientIp env options (req\<lparr>in_forwarded := f\<rparr>) = remote_address req)"
proof -
  let ?ips = "forwarded_entries (Header_text genuine)"
  have ne: "?ips \<noteq> []" using assms by (auto simp: entries_decide_def split: if_splits)
  then have "genuine \<noteq> []" by (auto simp: forwarded_entries_def comma_entries_def js_trim_def)
  moreover have "nth_from_right (trusted_count env options req) (comma_entries spoof @ ?ips) =
      nth_from_right (trusted_count env options req) ?ips" if "0 < trusted_count env options req"
    using assms that by (intro nth_from_right_prepend) (simp_all add: entries_decide_def)
  moreover have "last_untrusted (trusted_proxies env options req) (comma_entries spoof @ ?ips) =
      last_untrusted (trusted_proxies env options req) ?ips" if "\<not> 0 < trusted_count env options req"
    using assms that by (intro last_untrusted_prepend) (simp_all add: entries_decide_def)
  ultimately show ?thesis using ne
    by (auto simp: getClientIp_def Let_def forwarded_entries_prepend split: option.split)
qed

theorem forwarding_not_spoofable_witness:
  "getClientIp ((\<lambda>_. None)(''TRUSTED_PROXIES'' := Some ''10.0.0.1, 10.0.0.2'')) no_options
     \<lparr>in_remoteAddress = Some ''::ffff:10.0.0.1'', in_ip = None, in_trustProxy = Trust_unset,
      in_forwarded = Some (Header_text (''1.1.1.1'' @ CHR '','' # ''203.0.113.7, 10.0.0.2''))\<rparr> = ''203.0.113.7'' \<and>
   getClientIp ((\<lambda>_. None)(''TRUSTED_PROXIES'' := Some ''10.0.0.1, 10.0.0.2'')) no_options
     \<lparr>in_remoteAddress = Some ''192.0.2.9'', in_ip = None, in_trustProxy = Trust_unset, in_forwarded = Some (Header_text ''1.1.1.1'')\<rparr> =
     ''192.0.2.9''"
proof -
  let ?env = "(\<lambda>_. None)(''TRUSTED_PROXIES'' := Some ''10.0.0.1, 10.0.0.2'') :: env"
  let ?req = "\<lambda>a. \<lparr>in_remoteAddress = Some a, in_ip = None, in_trustProxy = Trust_unset, in_forwarded = None\<rparr>"
  have d: "entries_decide ?env no_options (?req ''::ffff:10.0.0.1'') (forwarded_entries (Header_text ''203.0.113.7, 10.0.0.2''))"
    "entries_decide ?env no_options (?req ''192.0.2.9'') (forwarded_entries (Header_text ''203.0.113.7, 10.0.0.2''))" by code_simp+
  have g: "getClientIp ?env no_options (?req ''::ffff:10.0.0.1''\<lparr>in_forwarded := Some (Header_text ''203.0.113.7, 10.0.0.2'')\<rparr>) =
      ''203.0.113.7''" by code_simp
  have u: "trusted_proxies ?env no_options (?req ''192.0.2.9'') \<noteq> [] \<and>
      \<not> isTrustedProxy (remote_address (?req ''192.0.2.9'')) (trusted_proxies ?env no_options (?req ''192.0.2.9''))"
    "remote_address (?req ''192.0.2.9'') = ''192.0.2.9''" by code_simp+
  show ?thesis
    using forwarding_not_spoofable [OF d(1), of "''1.1.1.1''"] forwarding_not_spoofable [OF d(2), of _ "Some (Header_text ''1.1.1.1'')"] g u
    by simp
qed

end
