(* ===== verification/Ip_Text.thy ===== *)
theory Ip_Text
  imports Fluxora_Prelude
begin

text \<open>
  Textual IP addresses, shared by the HTTP rate limiter and the guard of webhook targets: the string functions both use
  (\<open>toLowerCase\<close> and \<open>split('::')\<close>) and the relation \<open>ipv6_text\<close> between the text of an IPv6 address and its eight groups, with the
  lemmas that take such a text apart.
\<close>

section \<open>String functions\<close>

definition to_lower :: "char \<Rightarrow> char" where
  "to_lower c =
     (let n = (of_char c :: nat)
      in if 65 \<le> n \<and> n \<le> 90 \<or> 192 \<le> n \<and> n \<le> 222 \<and> n \<noteq> 215 then char_of (n + 32) else c)"

text \<open>\<open>s.split('::')\<close>.\<close>

fun split_double_colon :: "string \<Rightarrow> string list" where
  "split_double_colon [] = [[]]"
| "split_double_colon [x] = [[x]]"
| "split_double_colon (x # y # zs) =
     (if x = CHR '':'' \<and> y = CHR '':'' then [] # split_double_colon zs
      else case split_double_colon (y # zs) of [] \<Rightarrow> [[x]] | w # ws \<Rightarrow> (x # w) # ws)"

section \<open>The text of an IPv6 address\<close>

text \<open>The textual forms of an IPv6 address (RFC 4291): eight groups of one to four hexadecimal digits of either case, or fewer with
  one run of zero groups written as a double colon.\<close>

definition hex_val :: "char \<Rightarrow> nat" where
  "hex_val c = (let n = of_char c in if n \<le> 57 then n - 48 else if n \<le> 70 then n - 55 else n - 87)"

definition is_hex :: "char \<Rightarrow> bool" where
  "is_hex c \<longleftrightarrow> (let n = (of_char c :: nat) in 48 \<le> n \<and> n \<le> 57 \<or> 65 \<le> n \<and> n \<le> 70 \<or> 97 \<le> n \<and> n \<le> 102)"

definition hex_group :: "string \<Rightarrow> bool" where
  "hex_group g \<longleftrightarrow> g \<noteq> [] \<and> length g \<le> 4 \<and> list_all is_hex g"

definition group_val :: "string \<Rightarrow> nat" where
  "group_val g = foldl (\<lambda>a c. 16 * a + hex_val c) 0 g"

inductive ipv6_text :: "string \<Rightarrow> nat list \<Rightarrow> bool" where
  full: "length gs = 8 \<Longrightarrow> list_all hex_group gs \<Longrightarrow> ipv6_text (join '':'' gs) (map group_val gs)"
| compressed: "length gs + length hs \<le> 7 \<Longrightarrow> list_all hex_group gs \<Longrightarrow> list_all hex_group hs \<Longrightarrow>
    ipv6_text (join '':'' gs @ ''::'' @ join '':'' hs)
      (map group_val gs @ replicate (8 - length gs - length hs) 0 @ map group_val hs)"

lemma hex_val_less: "is_hex c \<Longrightarrow> hex_val c < 16"
  by (auto simp: is_hex_def hex_val_def Let_def)

lemma to_lower_hex: "is_hex c \<Longrightarrow> to_lower c = hex_digit (hex_val c)"
proof -
  assume h: "is_hex c"
  then have "(of_char (to_lower c) :: nat) = of_char (hex_digit (hex_val c))"
    unfolding of_char_hex_digit [OF hex_val_less [OF h]] by (auto simp: is_hex_def hex_val_def to_lower_def Let_def)
  then show ?thesis by simp
qed

definition prepend :: "string \<Rightarrow> string list \<Rightarrow> string list" where
  "prepend x ws = (case ws of [] \<Rightarrow> [x] | w # ws' \<Rightarrow> (x @ w) # ws')"

lemma split_dc_nonempty [simp]: "split_double_colon s \<noteq> []"
  by (induction s rule: split_double_colon.induct) (auto split: list.splits)

lemma prepend_append: "ws \<noteq> [] \<Longrightarrow> prepend (x @ y) ws = prepend x (prepend y ws)"
  by (cases ws) (simp_all add: prepend_def)

lemma prepend_Nil [simp]: "ws \<noteq> [] \<Longrightarrow> prepend [] ws = ws"
  by (cases ws) (simp_all add: prepend_def)

lemma split_dc_step: "c \<noteq> CHR '':'' \<or> s \<noteq> [] \<and> hd s \<noteq> CHR '':'' \<Longrightarrow> split_double_colon (c # s) = prepend [c] (split_double_colon s)"
  by (cases s) (auto simp: prepend_def split: list.split)

lemma split_dc_word: "CHR '':'' \<notin> set x \<Longrightarrow> split_double_colon (x @ s) = prepend x (split_double_colon s)"
proof (induction x)
  case (Cons c x)
  then show ?case using split_dc_step [of c "x @ s"] prepend_append [of "split_double_colon s" "[c]" x] by auto
qed simp

lemma split_dc_join:
  assumes "\<forall>g \<in> set gs. g \<noteq> [] \<and> CHR '':'' \<notin> set g"
  shows "split_double_colon (join '':'' gs @ t) = prepend (join '':'' gs) (split_double_colon t)"
  using assms
proof (induction gs rule: induct_list012)
  case (3 x y zs)
  let ?r = "join '':'' (y # zs) @ t"
  obtain c y' where y: "y = c # y'" "c \<noteq> CHR '':''" using "3.prems" by (cases y) auto
  have "hd ?r \<noteq> CHR '':''" "?r \<noteq> []" using y(2) unfolding y(1) by (cases zs; simp)+
  then have "split_double_colon (CHR '':'' # ?r) = prepend '':'' (split_double_colon ?r)" by (simp add: split_dc_step)
  then show ?case using "3.IH"(2) "3.prems" split_dc_word [of x "CHR '':'' # ?r"]
      prepend_append [of "split_double_colon t" "'':''" "join '':'' (y # zs)"]
    by (simp add: prepend_append)
qed (simp_all add: split_dc_word)

lemma hex_group_word: "hex_group g \<Longrightarrow> g \<noteq> [] \<and> CHR '':'' \<notin> set g \<and> CHR ''.'' \<notin> set g"
  by (auto simp: hex_group_def list_all_iff is_hex_def Let_def)

lemma split_dc_groups:
  "list_all hex_group gs \<Longrightarrow> split_double_colon (join '':'' gs @ t) = prepend (join '':'' gs) (split_double_colon t)"
  using hex_group_word by (intro split_dc_join) (auto simp: list_all_iff)

lemma lower_hex_group: "hex_group g \<Longrightarrow> hex_group (map to_lower g)"
proof -
  assume g: "hex_group g"
  have "is_hex (hex_digit (hex_val c))" if "is_hex c" for c
    unfolding is_hex_def of_char_hex_digit [OF hex_val_less [OF that]] using hex_val_less [OF that] by (auto simp: Let_def)
  then show ?thesis using g by (auto simp: hex_group_def list_all_iff to_lower_hex)
qed

lemma to_lower_colon [simp]: "to_lower (CHR '':'') = CHR '':''"
  by (simp add: to_lower_def Let_def)

lemma map_join: "f (CHR '':'') = CHR '':'' \<Longrightarrow> map f (join '':'' gs) = join '':'' (map (map f) gs)"
  by (induction gs rule: induct_list012) simp_all

lemma join_no_dot: "list_all hex_group gs \<Longrightarrow> CHR ''.'' \<notin> set (join '':'' gs)"
  using hex_group_word by (induction gs rule: induct_list012) auto

lemma group_val_less: "hex_group g \<Longrightarrow> group_val g < 65536"
proof -
  assume g: "hex_group g"
  have "foldl (\<lambda>a c. 16 * a + hex_val c) a g < (a + 1) * 16 ^ length g" if "list_all is_hex g" for a
    using that
  proof (induction g arbitrary: a)
    case (Cons c g)
    have "hex_val c < 16" using Cons.prems hex_val_less by simp
    then have "16 * a + hex_val c + 1 \<le> 16 * (a + 1)" by simp
    then have "(16 * a + hex_val c + 1) * 16 ^ length g \<le> 16 * (a + 1) * 16 ^ length g" by (rule mult_le_mono1)
    moreover have "16 * (a + 1) * 16 ^ length g = (a + 1) * 16 ^ length (c # g)" by (simp add: algebra_simps)
    moreover have "foldl (\<lambda>a c. 16 * a + hex_val c) (16 * a + hex_val c) g < (16 * a + hex_val c + 1) * 16 ^ length g"
      using Cons.IH Cons.prems by simp
    ultimately show ?case by (simp only: foldl_Cons)
  qed simp
  from this [of 0] g have "group_val g < 16 ^ length g" by (simp add: hex_group_def group_val_def)
  also have "... \<le> 16 ^ 4" using g by (intro power_increasing) (simp_all add: hex_group_def)
  finally show ?thesis by simp
qed

lemma ipv6_groups_less: "ipv6_text s a \<Longrightarrow> list_all (\<lambda>n. n < 65536) a"
  by (induction rule: ipv6_text.induct) (auto simp: list_all_iff group_val_less)

end
