(* ===== verification/Http_Rate_Limit.thy ===== *)
theory Http_Rate_Limit
  imports Rate_Limit_Config Client_Ip Ip_Text
begin

text \<open>
  The HTTP rate limiter, \<open>src/middleware/rateLimiter.ts\<close>: canonical client addresses and store keys, the effective limit of a
  request, the middleware itself and the status query, over the configuration (\<open>Rate_Limit_Config\<close>), the client address
  (\<open>Client_Ip\<close>) and a store (\<open>Http_Limit_Store\<close>).

  \<open>isIP\<close> of \<open>node:net\<close>, SHA-256 and the override lookup are arguments. The store is a record of its operations, because the factory
  accepts any \<open>RateLimitStore\<close>; \<open>memory_store\<close> and \<open>hybrid_store\<close> are the ones it builds. Each \<open>await\<close> on the
  store reads its own clock, so a request carries three times. The response is the list of headers set and either
  \<open>next()\<close> or a body with its status.

  The lemmas: textual forms of one IPv6 address have one key; keys of different kinds of principal and of different
  routes differ; the middleware over the in-memory store never lets more than the effective limit through in any window;
  windows that the store refuses switch the limiter off.
\<close>

section \<open>Small helpers\<close>

definition EXEMPT_PATHS :: "string list" where
  "EXEMPT_PATHS = [''/'', ''/health'', ''/api/rate-limits'']"

definition last_chars :: "nat \<Rightarrow> string \<Rightarrow> string" where
  "last_chars n s = drop (length s - n) s"

definition maskApiKey :: "string \<Rightarrow> string" where
  "maskApiKey key =
     (if length key \<le> 8 then take 2 key @ ''...'' @ last_chars 2 key else take 4 key @ ''...'' @ last_chars 4 key)"

definition getRemainingRequests :: "int \<Rightarrow> int \<Rightarrow> int" where
  "getRemainingRequests count m = max 0 (m - count)"

definition ceil_div :: "int \<Rightarrow> int \<Rightarrow> int" where
  "ceil_div a b = - ((- a) div b)"

definition secondsUntil :: "millis \<Rightarrow> millis \<Rightarrow> int" where
  "secondsUntil now resetAt = max 0 (ceil_div (resetAt - now) 1000)"

record RateLimitHeaderValues =
  hv_limit :: int
  hv_remaining :: int
  hv_reset :: int
  hv_retryAfter :: "int option"

definition rate_limit_headers :: "RateLimitHeaderValues \<Rightarrow> (string \<times> string) list" where
  "rate_limit_headers values =
     [(''X-RateLimit-Limit'', show_int (hv_limit values)), (''X-RateLimit-Remaining'', show_int (hv_remaining values)),
      (''X-RateLimit-Reset'', show_int (hv_reset values))] @
     (case hv_retryAfter values of None \<Rightarrow> [] | Some v \<Rightarrow> [(''Retry-After'', show_int v)])"

section \<open>Store keys\<close>

definition v4_mapped :: "string \<Rightarrow> string option" where
  "v4_mapped lower =
     (let rest = drop 7 lower
      in if starts_with ''::ffff:'' lower \<and> length (split_on (CHR ''.'') rest) = 4 \<and>
            list_all (\<lambda>p. p \<noteq> [] \<and> length p \<le> 3 \<and> list_all is_digit p) (split_on (CHR ''.'') rest)
         then Some rest else None)"

definition hextets :: "string option \<Rightarrow> string list" where
  "hextets part = (case part of None \<Rightarrow> [] | Some s \<Rightarrow> filter (\<lambda>h. h \<noteq> []) (split_on (CHR '':'') s))"

definition canonicalIpv6 :: "string \<Rightarrow> string" where
  "canonicalIpv6 ip =
     (let lower = map to_lower ip
      in case v4_mapped lower of
           Some v4 \<Rightarrow> v4
         | None \<Rightarrow>
             let pieces = split_double_colon lower;
                 headParts = hextets (Some (pieces ! 0));
                 tailParts = hextets (if 1 < length pieces then Some (pieces ! 1) else None);
                 parts = headParts @ replicate (8 - length headParts - length tailParts) ''0'' @ tailParts
             in join '':'' (map (pad_start 4 (CHR ''0'')) parts))"

definition normaliseIp :: "(string \<Rightarrow> nat) \<Rightarrow> string \<Rightarrow> string" where
  "normaliseIp isIP ip =
     (let trimmed = js_trim ip
      in if trimmed = [] then ''unknown''
         else if isIP trimmed = 4 then trimmed
         else if isIP trimmed = 6 then canonicalIpv6 trimmed
         else trimmed)"

definition AGGREGATE_ROUTE :: string where "AGGREGATE_ROUTE = ''global''"
definition MAX_ROUTE_SEGMENT_LENGTH :: nat where "MAX_ROUTE_SEGMENT_LENGTH = 96"

definition strip_slashes :: "string \<Rightarrow> string" where
  "strip_slashes path = rev (dropWhile (\<lambda>c. c = CHR ''/'') (rev (dropWhile (\<lambda>c. c = CHR ''/'') path)))"

definition encode_char :: "char \<Rightarrow> string" where
  "encode_char ch = (if is_alnum ch then [ch] else CHR ''_'' # pad_start 2 (CHR ''0'') (show_hex_nat (of_char ch)))"

definition routeKeyFromPath :: "(string \<Rightarrow> string) \<Rightarrow> string option \<Rightarrow> string" where
  "routeKeyFromPath sha256Hex path =
     (case path of
        None \<Rightarrow> AGGREGATE_ROUTE
      | Some p \<Rightarrow>
          if p = [] \<or> p = ''/'' then AGGREGATE_ROUTE
          else let cleaned = strip_slashes p; encoded = concat (map encode_char cleaned)
               in if cleaned = [] then AGGREGATE_ROUTE
                  else if length encoded \<le> MAX_ROUTE_SEGMENT_LENGTH then encoded
                  else ''h_'' @ sha256Hex cleaned)"

datatype RateLimitPrincipalType = Principal_ip | Principal_apikey | Principal_admin

definition principal_name :: "RateLimitPrincipalType \<Rightarrow> string" where
  "principal_name p = (case p of Principal_ip \<Rightarrow> ''ip'' | Principal_apikey \<Rightarrow> ''apikey'' | Principal_admin \<Rightarrow> ''admin'')"

text \<open>Library functions the middleware calls: \<open>isIP\<close> and the hexadecimal SHA-256.\<close>

record key_functions =
  kf_isIP :: "string \<Rightarrow> nat"
  kf_sha256Hex :: "string \<Rightarrow> string"

definition buildStoreKey :: "key_functions \<Rightarrow> RateLimitPrincipalType \<Rightarrow> string \<Rightarrow> string \<Rightarrow> string" where
  "buildStoreKey kf principalType identifier routeKey =
     (let principalKey = (if principalType = Principal_ip then normaliseIp (kf_isIP kf) identifier else kf_sha256Hex kf identifier)
      in ''v1:'' @ principal_name principalType @ '':'' @ principalKey @ '':'' @ routeKey)"

datatype identifier_type = Id_ip | Id_apiKey

definition principalTypeFor :: "identifier_type \<Rightarrow> bool \<Rightarrow> RateLimitPrincipalType" where
  "principalTypeFor identifierType isAdmin =
     (if identifierType = Id_ip then Principal_ip else if isAdmin then Principal_admin else Principal_apikey)"

section \<open>The middleware\<close>

record request =
  rq_path :: string
  rq_method :: string
  rq_apiKey :: "header_value option"
  rq_keyId :: "string option"
  rq_incoming :: incoming

record ('e, 's) rate_store =
  st_increment :: "string \<Rightarrow> int \<Rightarrow> millis \<Rightarrow> 's \<Rightarrow> ('e + limit_count) \<times> 's"
  st_getCount :: "string \<Rightarrow> int \<Rightarrow> millis \<Rightarrow> 's \<Rightarrow> ('e + limit_count) \<times> 's"
  st_usingFallback :: "'s \<Rightarrow> bool"

definition memory_store :: "(RateLimitInputError, InMemoryStore) rate_store" where
  "memory_store =
     \<lparr>st_increment = (\<lambda>k w. im_incr k (JNumber (Finite (of_int w)))),
      st_getCount = (\<lambda>k w t s. case im_getCount k (JNumber (Finite (of_int w))) t s of
        Inl e \<Rightarrow> (Inl e, s) | Inr (c, s') \<Rightarrow> (Inr c, s')),
      st_usingFallback = (\<lambda>_. False)\<rparr>"

definition hybrid_store :: "'r window_ops \<Rightarrow> string \<Rightarrow> (RateLimitInputError, 'r HybridStore) rate_store" where
  "hybrid_store ops hex =
     \<lparr>st_increment = (\<lambda>k w t. hs_increment ops hex k (JNumber (Finite (of_int w))) t),
      st_getCount = (\<lambda>k w t. hs_getCount ops k (JNumber (Finite (of_int w))) t),
      st_usingFallback = hs_usingFallback\<rparr>"

text \<open>What the factory fixes: the environment it was given, and from it the allow-list and the admin keys.
  \<open>lm_processEnv\<close> is the environment that \<open>getClientIp\<close> reads.\<close>

record limiter =
  lm_env :: env
  lm_processEnv :: env
  lm_allowlistIps :: "string list"
  lm_adminKeys :: "string list"

definition createRateLimiter :: "env \<Rightarrow> env \<Rightarrow> RuntimeRateLimitConfig option \<Rightarrow> limiter" where
  "createRateLimiter env processEnv runtime =
     \<lparr>lm_env = env, lm_processEnv = processEnv, lm_allowlistIps = rl_allowlistIps (getRateLimitConfig env runtime),
      lm_adminKeys = comma_entries (nullish (env ''ADMIN_API_KEY'') [])\<rparr>"

definition isAdminKey :: "string \<Rightarrow> env \<Rightarrow> bool" where
  "isAdminKey key env = (let adminKeyEnv = nullish (env ''ADMIN_API_KEY'') [] in
     if adminKeyEnv = [] then False else key \<in> set (comma_entries adminKeyEnv))"

definition extractClientIdentifier :: "env \<Rightarrow> request \<Rightarrow> string \<times> identifier_type" where
  "extractClientIdentifier processEnv req =
     (case rq_apiKey req of
        Some (Header_text apiKey) \<Rightarrow>
          if apiKey \<noteq> [] then (apiKey, Id_apiKey) else (getClientIp processEnv no_options (rq_incoming req), Id_ip)
      | _ \<Rightarrow> (getClientIp processEnv no_options (rq_incoming req), Id_ip))"

definition resolveEffectiveLimit :: "RateLimitConfig \<Rightarrow> RouteRateLimitConfig option \<Rightarrow> string \<Rightarrow> int \<times> bool" where
  "resolveEffectiveLimit baseConfig routeConfig method =
     (case routeConfig of
        None \<Rightarrow> (rc_max baseConfig, False)
      | Some r \<Rightarrow>
          if rr_exempt r then (rc_max baseConfig, True)
          else if method \<in> set [''POST'', ''PUT'', ''PATCH'', ''DELETE''] \<and> 0 < rr_writeLimit r then (rr_writeLimit r, False)
          else (if 0 < rr_baseLimit r then rr_baseLimit r else rc_max baseConfig, False))"

definition tier_for :: "rate_limit_settings \<Rightarrow> identifier_type \<Rightarrow> bool \<Rightarrow> RateLimitConfig" where
  "tier_for c identifierType isAdmin =
     (if isAdmin then rl_admin c else if identifierType = Id_apiKey then rl_apiKey c else rl_ip c)"

definition with_override ::
  "(string \<Rightarrow> 'x + RateLimitOverride option) \<Rightarrow> string option \<Rightarrow> identifier_type \<Rightarrow> bool \<Rightarrow> RateLimitConfig \<Rightarrow> RateLimitConfig" where
  "with_override lookup keyId identifierType isAdmin config =
     (case keyId of
        None \<Rightarrow> config
      | Some k \<Rightarrow>
          if k \<noteq> [] \<and> identifierType = Id_apiKey \<and> \<not> isAdmin
          then (case lookup k of
                  Inr (Some ov) \<Rightarrow> config\<lparr>rc_max := ro_maxRequests ov, rc_windowMs := ro_windowMs ov\<rparr>
                | _ \<Rightarrow> config)
          else config)"

record rate_limit_body =
  eb_message :: string
  eb_retryAfter :: int
  eb_limit :: int
  eb_window :: string
  eb_identifier :: string
  eb_route :: "string option"
  eb_method :: "string option"

definition shown_identifier :: "string \<Rightarrow> identifier_type \<Rightarrow> string" where
  "shown_identifier identifier identifierType = (if identifierType = Id_ip then identifier else maskApiKey identifier)"

definition window_name :: "int \<Rightarrow> string" where
  "window_name windowMs = (if windowMs = 60000 then ''minute'' else ''unknown'')"

definition buildErrorBody ::
  "string \<Rightarrow> identifier_type \<Rightarrow> int \<Rightarrow> int \<Rightarrow> int \<Rightarrow> string \<Rightarrow> string \<Rightarrow> rate_limit_body" where
  "buildErrorBody identifier identifierType limit windowMs retryAfterSeconds route method =
     \<lparr>eb_message = ''Too many requests. Retry after '' @ show_int retryAfterSeconds @ '' seconds.'',
      eb_retryAfter = retryAfterSeconds, eb_limit = limit, eb_window = window_name windowMs,
      eb_identifier = shown_identifier identifier identifierType,
      eb_route = (if route \<noteq> [] then Some route else None), eb_method = (if method \<noteq> [] then Some method else None)\<rparr>"

datatype handled =
    Next "(string \<times> string) list"
  | Too_many "(string \<times> string) list" rate_limit_body

record times =
  tm_first :: millis
  tm_aggregate :: millis
  tm_reply :: millis

definition rateLimitHandlerAsync ::
  "limiter \<Rightarrow> key_functions \<Rightarrow> ('e, 's) rate_store \<Rightarrow> (string \<Rightarrow> 'x + RateLimitOverride option) \<Rightarrow>
   RuntimeRateLimitConfig option \<Rightarrow> times \<Rightarrow> request \<Rightarrow> 's \<Rightarrow> handled \<times> 's" where
  "rateLimitHandlerAsync lm kf st lookup runtime tm req s =
     (let settings = getRateLimitConfig (lm_env lm) runtime; path = rq_path req; method = rq_method req
      in if \<not> rc_enabled (rl_ip settings) \<and> \<not> rc_enabled (rl_apiKey settings) then (Next [], s)
         else if path \<in> set EXEMPT_PATHS then (Next [], s)
         else let (identifier, identifierType) = extractClientIdentifier (lm_processEnv lm) req
         in if identifierType = Id_ip \<and> identifier \<in> set (lm_allowlistIps lm) then (Next [], s)
         else let isAdmin = (identifierType = Id_apiKey \<and> identifier \<in> set (lm_adminKeys lm));
                  tier = tier_for settings identifierType isAdmin
         in if \<not> rc_enabled tier then (Next [], s)
         else let config = with_override lookup (rq_keyId req) identifierType isAdmin tier;
                  (effectiveLimit, isExempt) = resolveEffectiveLimit config (getRouteRateLimitConfig path) method
         in if isExempt then (Next [], s)
         else let principalType = principalTypeFor identifierType isAdmin;
                  routeKey = routeKeyFromPath (kf_sha256Hex kf) (Some path);
                  storeKey = buildStoreKey kf principalType identifier routeKey;
                  aggregateKey = buildStoreKey kf principalType identifier AGGREGATE_ROUTE
         in case st_increment st storeKey (rc_windowMs config) (tm_first tm) s of
              (Inl err, s1) \<Rightarrow> (Next [], s1)
            | (Inr result, s1) \<Rightarrow>
                let storeBackend = (if st_usingFallback st s1 then ''memory'' else ''redis'');
                    (_, s2) = st_increment st aggregateKey (rc_windowMs config) (tm_aggregate tm) s1;
                    count = int (lc_count result);
                    resetAtSeconds = ceil_div (lc_resetAt result) 1000
                in if effectiveLimit < count
                   then let retryAfter = secondsUntil (tm_reply tm) (lc_resetAt result)
                        in (Too_many
                              ((''X-RateLimit-Store'', storeBackend) #
                               rate_limit_headers \<lparr>hv_limit = effectiveLimit, hv_remaining = 0, hv_reset = resetAtSeconds,
                                 hv_retryAfter = Some retryAfter\<rparr>)
                              (buildErrorBody identifier identifierType effectiveLimit (rc_windowMs config) retryAfter path method), s2)
                   else (Next
                           ((''X-RateLimit-Store'', storeBackend) #
                            rate_limit_headers \<lparr>hv_limit = effectiveLimit, hv_remaining = getRemainingRequests count effectiveLimit,
                              hv_reset = resetAtSeconds, hv_retryAfter = None\<rparr>), s2))"

section \<open>The status query\<close>

record RateLimitStatus =
  ls_identifier :: string
  ls_identifierType :: identifier_type
  ls_limit :: int
  ls_remaining :: int
  ls_resetsAt :: millis
  ls_window :: string
  ls_store :: string
  ls_degraded :: bool
  ls_route :: "string option"
  ls_method :: "string option"

definition getStatus ::
  "limiter \<Rightarrow> key_functions \<Rightarrow> ('e, 's) rate_store \<Rightarrow> (string \<Rightarrow> 'x + RateLimitOverride option) \<Rightarrow>
   RuntimeRateLimitConfig option \<Rightarrow> millis \<Rightarrow> string \<Rightarrow> identifier_type \<Rightarrow> string option \<Rightarrow> string option \<Rightarrow> string option \<Rightarrow>
   's \<Rightarrow> RateLimitStatus \<times> 's" where
  "getStatus lm kf st lookup runtime now identifier identifierType path method keyId s =
     (let settings = getRateLimitConfig (lm_env lm) runtime;
          isAdmin = (identifierType = Id_apiKey \<and> identifier \<in> set (lm_adminKeys lm));
          config = with_override lookup keyId identifierType isAdmin (tier_for settings identifierType isAdmin);
          routeConfig = (case path of None \<Rightarrow> None | Some p \<Rightarrow> if p = [] then None else getRouteRateLimitConfig p);
          effectiveLimit = fst (resolveEffectiveLimit config routeConfig (nullish method ''GET''));
          routeKey = (if path \<noteq> None then routeKeyFromPath (kf_sha256Hex kf) path else AGGREGATE_ROUTE);
          storeKey = buildStoreKey kf (principalTypeFor identifierType isAdmin) identifier routeKey;
          (result, s1) = st_getCount st storeKey (rc_windowMs config) now s;
          (count, resetAt, storeBackend, degraded) =
            (case result of
               Inl _ \<Rightarrow> (0, now + rc_windowMs config, ''memory'', True)
             | Inr c \<Rightarrow> (int (lc_count c), lc_resetAt c, if st_usingFallback st s1 then ''memory'' else ''redis'', st_usingFallback st s1))
      in (\<lparr>ls_identifier = shown_identifier identifier identifierType, ls_identifierType = identifierType, ls_limit = effectiveLimit,
           ls_remaining = getRemainingRequests count effectiveLimit, ls_resetsAt = resetAt, ls_window = window_name (rc_windowMs config),
           ls_store = storeBackend, ls_degraded = degraded, ls_route = path, ls_method = method\<rparr>, s1))"

section \<open>One key per IPv6 address\<close>

definition hex4 :: "nat \<Rightarrow> string" where
  "hex4 n = [hex_digit (n div 16 div 16 div 16 mod 16), hex_digit (n div 16 div 16 mod 16), hex_digit (n div 16 mod 16), hex_digit (n mod 16)]"

lemma hex_digit_0: "hex_digit 0 = CHR ''0''"
proof -
  have "(of_char (hex_digit 0) :: nat) = of_char (CHR ''0'')" by (simp add: hex_digit_def)
  then show ?thesis by (simp only: of_char_eq_iff)
qed

lemma base16: "r < 16 \<Longrightarrow> (16 * q + r) div 16 = q \<and> (16 * q + r) mod 16 = (r :: nat)"
  by simp

lemma hex4_digits:
  "a < 16 \<Longrightarrow> b < 16 \<Longrightarrow> c < 16 \<Longrightarrow> d < 16 \<Longrightarrow>
   hex4 (16 * (16 * (16 * a + b) + c) + d) = [hex_digit a, hex_digit b, hex_digit c, hex_digit d]"
  using base16 [of d "16 * (16 * a + b) + c"] base16 [of c "16 * a + b"] base16 [of b a] by (simp only: hex4_def) simp

lemma pad_hex_group:
  assumes "hex_group g"
  shows "pad_start 4 (CHR ''0'') (map to_lower g) = hex4 (group_val g)"
proof -
  have h: "list_all is_hex g" using assms by (simp add: hex_group_def)
  consider a where "g = [a]" | a b where "g = [a, b]" | a b c where "g = [a, b, c]" | a b c d where "g = [a, b, c, d]"
    using assms unfolding hex_group_def
    by (cases g; cases "tl g"; cases "tl (tl g)"; cases "tl (tl (tl g))") auto
  then show ?thesis
  proof cases
    case 1
    then show ?thesis using h hex4_digits [of 0 0 0 "hex_val a"]
      by (simp add: pad_start_def group_val_def to_lower_hex hex_val_less hex_digit_0 numeral_3_eq_3)
  next
    case 2
    then show ?thesis using h hex4_digits [of 0 0 "hex_val a" "hex_val b"]
      by (simp add: pad_start_def group_val_def to_lower_hex hex_val_less hex_digit_0 numeral_2_eq_2)
  next
    case 3
    then show ?thesis using h hex4_digits [of 0 "hex_val a" "hex_val b" "hex_val c"]
      by (simp add: pad_start_def group_val_def to_lower_hex hex_val_less hex_digit_0)
  next
    case 4
    then show ?thesis using h hex4_digits [of "hex_val a" "hex_val b" "hex_val c" "hex_val d"]
      by (simp add: pad_start_def group_val_def to_lower_hex hex_val_less)
  qed
qed

lemma pad_zero: "pad_start 4 (CHR ''0'') ''0'' = hex4 0"
  by (simp add: pad_start_def hex4_def hex_digit_0 numeral_3_eq_3)

lemma hextets_join: "list_all hex_group gs \<Longrightarrow> hextets (Some (join '':'' gs)) = gs"
proof (cases "gs = []")
  case False
  assume g: "list_all hex_group gs"
  then have "split_on (CHR '':'') (join '':'' gs) = gs"
    using False hex_group_word by (intro split_on_join) (auto simp: list_all_iff)
  then show ?thesis using g hex_group_word by (auto simp: hextets_def list_all_iff filter_id_conv)
qed (simp add: hextets_def)

lemma not_v4_mapped: "CHR ''.'' \<notin> set s \<Longrightarrow> v4_mapped s = None"
proof -
  assume "CHR ''.'' \<notin> set s"
  then have "CHR ''.'' \<notin> set (drop 7 s)" by (auto dest: in_set_dropD)
  from split_on_notin [OF this] show ?thesis by (simp add: v4_mapped_def Let_def)
qed

lemma pad_lower_groups:
  "list_all hex_group gs \<Longrightarrow> map (pad_start 4 (CHR ''0'')) (map (map to_lower) gs) = map hex4 (map group_val gs)"
  by (auto simp: list_all_iff pad_hex_group)

lemma canonicalIpv6_text: "ipv6_text s a \<Longrightarrow> canonicalIpv6 s = join '':'' (map hex4 a) \<and> length a = 8"
proof (induction rule: ipv6_text.induct)
  case (full gs)
  let ?l = "map (map to_lower) gs"
  have l: "list_all hex_group ?l" using full(2) by (auto simp: list_all_iff lower_hex_group)
  have low: "map to_lower (join '':'' gs) = join '':'' ?l" by (simp add: map_join)
  have "split_double_colon (join '':'' ?l) = [join '':'' ?l]"
    using split_dc_groups [OF l, of "[]"] by (simp add: prepend_def)
  then show ?case using full l
    by (simp add: canonicalIpv6_def map_join not_v4_mapped join_no_dot hextets_join Let_def pad_lower_groups hextets_def [of None] del: map_map)
next
  case (compressed gs hs)
  let ?l = "map (map to_lower) gs" and ?m = "map (map to_lower) hs"
  have l: "list_all hex_group ?l" "list_all hex_group ?m" using compressed by (auto simp: list_all_iff lower_hex_group)
  have low: "map to_lower (join '':'' gs @ ''::'' @ join '':'' hs) = join '':'' ?l @ ''::'' @ join '':'' ?m" by (simp add: map_join)
  have "split_double_colon (join '':'' ?m) = [join '':'' ?m]"
    using split_dc_groups [OF l(2), of "[]"] by (simp add: prepend_def)
  then have "split_double_colon (join '':'' ?l @ ''::'' @ join '':'' ?m) = [join '':'' ?l, join '':'' ?m]"
    using split_dc_groups [OF l(1), of "''::'' @ join '':'' ?m"] by (simp add: prepend_def)
  moreover have "CHR ''.'' \<notin> set (join '':'' ?l @ ''::'' @ join '':'' ?m)" using l by (simp add: join_no_dot)
  ultimately show ?case using compressed l
    by (simp add: canonicalIpv6_def map_join not_v4_mapped hextets_join Let_def pad_zero pad_lower_groups del: map_map)
qed

lemma hex4_inj: "m < 65536 \<Longrightarrow> n < 65536 \<Longrightarrow> hex4 m = hex4 n \<longleftrightarrow> m = n"
proof -
  assume "m < 65536" "n < 65536"
  then have d: "m = 16 * (16 * (16 * (m div 16 div 16 div 16 mod 16) + m div 16 div 16 mod 16) + m div 16 mod 16) + m mod 16"
    "n = 16 * (16 * (16 * (n div 16 div 16 div 16 mod 16) + n div 16 div 16 mod 16) + n div 16 mod 16) + n mod 16" by simp_all
  show ?thesis
  proof
    assume "hex4 m = hex4 n"
    then show "m = n" using d by (simp add: hex4_def hex_digit_inj)
  qed simp
qed

text \<open>A client cannot split its quota over spellings of its address: two textual forms of IPv6 addresses, in whatever case,
  with or without leading zeros and with or without a double colon, have the same canonical form exactly when they
  denote the same address.\<close>

theorem ipv6_canonical:
  assumes "ipv6_text s a" "ipv6_text t b"
  shows "canonicalIpv6 s = canonicalIpv6 t \<longleftrightarrow> a = b"
proof
  assume "canonicalIpv6 s = canonicalIpv6 t"
  then have j: "join '':'' (map hex4 a) = join '':'' (map hex4 b)" and ne: "a \<noteq> []" "b \<noteq> []"
    using canonicalIpv6_text [OF assms(1)] canonicalIpv6_text [OF assms(2)] by auto
  have "CHR '':'' \<notin> set (hex4 n)" for n
  proof -
    have "CHR '':'' \<noteq> hex_digit (k mod 16)" for k by (simp add: hex_digit_no_colon)
    then show ?thesis by (simp add: hex4_def)
  qed
  then have s: "split_on (CHR '':'') (join '':'' (map hex4 xs)) = map hex4 xs" if "xs \<noteq> []" for xs
    using that by (intro split_on_join) auto
  have "map hex4 a = map hex4 b" using s [OF ne(1)] s [OF ne(2)] unfolding j by (rule trans [OF sym])
  moreover have "inj_on hex4 (set a \<union> set b)"
    using ipv6_groups_less [OF assms(1)] ipv6_groups_less [OF assms(2)] by (auto simp: inj_on_def list_all_iff hex4_inj)
  ultimately show "a = b" using inj_on_map_eq_map by blast
next
  assume "a = b"
  then show "canonicalIpv6 s = canonicalIpv6 t" using canonicalIpv6_text assms by metis
qed

theorem ipv6_canonical_witness:
  "canonicalIpv6 ''2001:DB8::1'' = canonicalIpv6 ''2001:0db8:0:0:0:0:0:1''"
proof -
  have a: "ipv6_text ''2001:DB8::1'' [8193, 3512, 0, 0, 0, 0, 0, 1]"
    using ipv6_text.compressed [of "[''2001'', ''DB8'']" "[''1'']"]
    by (simp add: hex_group_def is_hex_def group_val_def hex_val_def numeral_eq_Suc)
  have b: "ipv6_text ''2001:0db8:0:0:0:0:0:1'' [8193, 3512, 0, 0, 0, 0, 0, 1]"
    using ipv6_text.full [of "[''2001'', ''0db8'', ''0'', ''0'', ''0'', ''0'', ''0'', ''1'']"]
    by (simp add: hex_group_def is_hex_def group_val_def hex_val_def)
  show ?thesis using ipv6_canonical [OF a b] by simp
qed

section \<open>Distinct principals and routes have distinct keys\<close>

lemma hex2: "n < 256 \<Longrightarrow> pad_start 2 (CHR ''0'') (show_hex_nat n) = [hex_digit (n div 16), hex_digit (n mod 16)]"
proof -
  assume "n < 256"
  then have "n div 16 < 16" by simp
  then show ?thesis
    by (cases "n < 16") (simp_all add: show_hex_nat.simps [of n] show_hex_nat.simps [of "n div 16"] pad_start_def hex_digit_0)
qed

lemma hex2_inj:
  assumes "m < 256" "n < 256" "hex_digit (m div 16) = hex_digit (n div 16)" "hex_digit (m mod 16) = hex_digit (n mod 16)"
  shows "m = n"
proof -
  have "m div 16 < 16" "n div 16 < 16" using assms(1,2) by simp_all
  then have "m div 16 = n div 16" "m mod 16 = n mod 16" using assms(3,4) by (simp_all add: hex_digit_inj)
  then show ?thesis by (metis div_mult_mod_eq)
qed

lemma of_char_less: "(of_char c :: nat) < 256"
  by (simp add: of_char_def)

lemma encode_char_cases:
  "encode_char c = (if is_alnum c then [c] else [CHR ''_'', hex_digit (of_char c div 16), hex_digit (of_char c mod 16)])"
  using hex2 [OF of_char_less [of c]] by (simp add: encode_char_def)

lemma not_alnum_underscore: "\<not> is_alnum (CHR ''_'')"
  by (simp add: is_alnum_def is_digit_def)

lemma encode_inj: "concat (map encode_char xs) = concat (map encode_char ys) \<Longrightarrow> xs = ys"
proof (induction xs arbitrary: ys)
  case Nil
  then show ?case by (cases ys) (auto simp: encode_char_cases split: if_splits)
next
  case (Cons x xs)
  then obtain y ys' where y: "ys = y # ys'" by (cases ys) (auto simp: encode_char_cases split: if_splits)
  have "is_alnum x \<longleftrightarrow> is_alnum y"
    using Cons.prems not_alnum_underscore by (auto simp: y encode_char_cases split: if_splits)
  then have "x = y \<and> concat (map encode_char xs) = concat (map encode_char ys')"
    using Cons.prems hex2_inj [OF of_char_less [of x] of_char_less [of y]]
    by (auto simp: y encode_char_cases [of x] encode_char_cases [of y] split: if_splits)
  then show ?case using Cons.IH y by blast
qed

lemma alnum_not_colon: "is_alnum c \<Longrightarrow> c \<noteq> CHR '':''"
  by (auto simp: is_alnum_def is_digit_def)

lemma encode_no_colon: "CHR '':'' \<notin> set (concat (map encode_char xs))"
proof -
  have "CHR '':'' \<notin> set (encode_char c)" for c
    using alnum_not_colon [of c] hex_digit_no_colon of_char_less [of c] by (auto simp: encode_char_cases less_mult_imp_div_less)
  then show ?thesis by auto
qed

text \<open>A path whose readable key is used: not empty apart from slashes, and short enough.\<close>

definition readable_path :: "string \<Rightarrow> bool" where
  "readable_path p \<longleftrightarrow> strip_slashes p \<noteq> [] \<and> length (concat (map encode_char (strip_slashes p))) \<le> MAX_ROUTE_SEGMENT_LENGTH"

lemma routeKey_readable:
  assumes "readable_path p"
  shows "routeKeyFromPath h (Some p) = concat (map encode_char (strip_slashes p))"
proof -
  have "strip_slashes [] = []" "strip_slashes ''/'' = []" by (simp_all add: strip_slashes_def)
  then show ?thesis using assms by (auto simp: readable_path_def routeKeyFromPath_def Let_def)
qed

definition principal_key :: "key_functions \<Rightarrow> RateLimitPrincipalType \<Rightarrow> string \<Rightarrow> string" where
  "principal_key kf p i = (if p = Principal_ip then normaliseIp (kf_isIP kf) i else kf_sha256Hex kf i)"

lemma principal_name_no_colon: "CHR '':'' \<notin> set (principal_name p)"
  by (cases p) (simp_all add: principal_name_def)

lemma principal_name_inj: "principal_name p = principal_name q \<longleftrightarrow> p = q"
  by (cases p; cases q) (simp_all add: principal_name_def)

lemma append_colon_first: "CHR '':'' \<notin> set a \<Longrightarrow> CHR '':'' \<notin> set b \<Longrightarrow> a @ CHR '':'' # x = b @ CHR '':'' # y \<longleftrightarrow> a = b \<and> x = y"
proof (induction a arbitrary: b)
  case Nil
  then show ?case by (cases b) auto
next
  case (Cons c a)
  then show ?case by (cases b) auto
qed

lemma append_colon_last:
  assumes "CHR '':'' \<notin> set a" "CHR '':'' \<notin> set b"
  shows "x @ CHR '':'' # a = y @ CHR '':'' # b \<longleftrightarrow> x = y \<and> a = b"
  using append_colon_first [of "rev a" "rev b" "rev x" "rev y"] assms
  by (metis append.assoc append_Cons append_Nil rev.simps(2) rev_append rev_rev_ident set_rev)

lemma buildStoreKey_eq:
  assumes "CHR '':'' \<notin> set r" "CHR '':'' \<notin> set r'"
  shows "buildStoreKey kf p i r = buildStoreKey kf p' i' r' \<longleftrightarrow> p = p' \<and> principal_key kf p i = principal_key kf p' i' \<and> r = r'"
proof -
  have "buildStoreKey kf p i r = ''v1:'' @ principal_name p @ CHR '':'' # (principal_key kf p i @ CHR '':'' # r)" for p i r
    by (simp add: buildStoreKey_def principal_key_def)
  then show ?thesis
    using append_colon_first [OF principal_name_no_colon [of p] principal_name_no_colon [of p']] append_colon_last [OF assms]
    by (auto simp: principal_name_inj)
qed

text \<open>The key of a counter determines whose it is. For paths short enough to be spelled out, the keys of two requests are equal
  exactly when the principals are of the same kind (client address, API key or admin key), have the same canonical
  address or hash, and the paths agree apart from slashes at either end. So neither a tenant and an admin, nor two
  routes such as \<open>/api/foo/bar\<close> and \<open>/api/foo_bar\<close>, share a counter.\<close>

theorem store_keys_separate:
  assumes "readable_path r" "readable_path r'"
  shows "buildStoreKey kf p i (routeKeyFromPath (kf_sha256Hex kf) (Some r)) =
      buildStoreKey kf p' i' (routeKeyFromPath (kf_sha256Hex kf) (Some r')) \<longleftrightarrow>
    p = p' \<and> principal_key kf p i = principal_key kf p' i' \<and> strip_slashes r = strip_slashes r'"
  using encode_inj [of "strip_slashes r" "strip_slashes r'"]
  unfolding routeKey_readable [OF assms(1)] routeKey_readable [OF assms(2)] buildStoreKey_eq [OF encode_no_colon encode_no_colon]
  by auto

theorem store_keys_separate_witness:
  "buildStoreKey \<lparr>kf_isIP = (\<lambda>_. 4), kf_sha256Hex = id\<rparr> Principal_ip ''10.0.0.1'' (routeKeyFromPath id (Some ''/api/foo/bar'')) \<noteq>
   buildStoreKey \<lparr>kf_isIP = (\<lambda>_. 4), kf_sha256Hex = id\<rparr> Principal_ip ''10.0.0.1'' (routeKeyFromPath id (Some ''/api/foo_bar''))"
proof -
  have r: "readable_path ''/api/foo/bar''" "readable_path ''/api/foo_bar''" by code_simp+
  have "strip_slashes ''/api/foo/bar'' \<noteq> strip_slashes ''/api/foo_bar''" by code_simp
  then show ?thesis
    using store_keys_separate [OF r, of "\<lparr>kf_isIP = (\<lambda>_. 4), kf_sha256Hex = id\<rparr>" Principal_ip "''10.0.0.1''" Principal_ip "''10.0.0.1''"]
    by simp
qed

section \<open>What a request counts against\<close>

text \<open>The decision the middleware takes before it reaches the store: the request is let through uncounted, or it is counted under a
  store key and an aggregate key, over a window and against a limit.\<close>

datatype plan = Bypass | Counted string string int int

definition handler_plan ::
  "limiter \<Rightarrow> key_functions \<Rightarrow> (string \<Rightarrow> 'x + RateLimitOverride option) \<Rightarrow> RuntimeRateLimitConfig option \<Rightarrow> request \<Rightarrow> plan" where
  "handler_plan lm kf lookup runtime req =
     (let settings = getRateLimitConfig (lm_env lm) runtime;
          (identifier, identifierType) = extractClientIdentifier (lm_processEnv lm) req;
          isAdmin = (identifierType = Id_apiKey \<and> identifier \<in> set (lm_adminKeys lm));
          tier = tier_for settings identifierType isAdmin;
          config = with_override lookup (rq_keyId req) identifierType isAdmin tier;
          (effectiveLimit, isExempt) = resolveEffectiveLimit config (getRouteRateLimitConfig (rq_path req)) (rq_method req);
          principalType = principalTypeFor identifierType isAdmin
      in if \<not> rc_enabled (rl_ip settings) \<and> \<not> rc_enabled (rl_apiKey settings) \<or> rq_path req \<in> set EXEMPT_PATHS \<or>
            identifierType = Id_ip \<and> identifier \<in> set (lm_allowlistIps lm) \<or> \<not> rc_enabled tier \<or> isExempt
         then Bypass
         else Counted (buildStoreKey kf principalType identifier (routeKeyFromPath (kf_sha256Hex kf) (Some (rq_path req))))
                (buildStoreKey kf principalType identifier AGGREGATE_ROUTE) (rc_windowMs config) effectiveLimit)"

fun passed :: "handled \<Rightarrow> bool" where
  "passed (Next _) = True"
| "passed (Too_many _ _) = False"

lemma handler_bypass:
  "handler_plan lm kf lookup runtime req = Bypass \<Longrightarrow> rateLimitHandlerAsync lm kf st lookup runtime tm req s = (Next [], s)"
  unfolding handler_plan_def rateLimitHandlerAsync_def Let_def by (auto split: prod.splits if_splits)

lemma handler_refused:
  assumes "handler_plan lm kf lookup runtime req = Counted k a w l" "st_increment st k w (tm_first tm) s = (Inl e, s1)"
  shows "rateLimitHandlerAsync lm kf st lookup runtime tm req s = (Next [], s1)"
  using assms unfolding handler_plan_def rateLimitHandlerAsync_def Let_def by (auto split: prod.splits if_splits)

lemma handler_counted:
  assumes "handler_plan lm kf lookup runtime req = Counted k a w l" "st_increment st k w (tm_first tm) s = (Inr r, s1)"
  shows "snd (rateLimitHandlerAsync lm kf st lookup runtime tm req s) = snd (st_increment st a w (tm_aggregate tm) s1) \<and>
    (passed (fst (rateLimitHandlerAsync lm kf st lookup runtime tm req s)) \<longleftrightarrow> int (lc_count r) \<le> l) \<and>
    (\<forall>hs b. fst (rateLimitHandlerAsync lm kf st lookup runtime tm req s) = Too_many hs b \<longrightarrow>
       eb_retryAfter b = secondsUntil (tm_reply tm) (lc_resetAt r) \<and> eb_limit b = l)"
proof -
  obtain r2 s2 where agg: "st_increment st a w (tm_aggregate tm) s1 = (r2, s2)" by fastforce
  obtain i ty where i: "extractClientIdentifier (lm_processEnv lm) req = (i, ty)" by fastforce
  let ?admin = "ty = Id_apiKey \<and> i \<in> set (lm_adminKeys lm)" and ?c = "getRateLimitConfig (lm_env lm) runtime"
  obtain l' ex where r: "resolveEffectiveLimit (with_override lookup (rq_keyId req) ty ?admin (tier_for ?c ty ?admin))
      (getRouteRateLimitConfig (rq_path req)) (rq_method req) = (l', ex)" by fastforce
  show ?thesis
    using assms agg unfolding handler_plan_def rateLimitHandlerAsync_def Let_def i prod.case r
    by (cases "l < int (lc_count r)") (simp_all add: buildErrorBody_def split: if_splits, (blast+)?)
qed

section \<open>No window lets more through than the limit\<close>

definition js_int :: "int \<Rightarrow> jsval" where "js_int n = JNumber (Finite (of_int n))"

fun plan_ops :: "plan \<Rightarrow> times \<Rightarrow> limit_op list" where
  "plan_ops Bypass tm = []"
| "plan_ops (Counted k a w l) tm = [Increment k (js_int w) (tm_first tm), Increment a (js_int w) (tm_aggregate tm)]"

definition run_ops ::
  "limiter \<Rightarrow> key_functions \<Rightarrow> (string \<Rightarrow> 'x + RateLimitOverride option) \<Rightarrow> RuntimeRateLimitConfig option \<Rightarrow>
   (times \<times> request) list \<Rightarrow> limit_op list" where
  "run_ops lm kf lookup runtime xs = concat (map (\<lambda>(tm, req). plan_ops (handler_plan lm kf lookup runtime req) tm) xs)"

text \<open>Requests served one after the other with the in-memory store, with the answers they get.\<close>

fun serve_all ::
  "limiter \<Rightarrow> key_functions \<Rightarrow> (string \<Rightarrow> 'x + RateLimitOverride option) \<Rightarrow> RuntimeRateLimitConfig option \<Rightarrow>
   InMemoryStore \<Rightarrow> (times \<times> request) list \<Rightarrow> (times \<times> request \<times> handled) list" where
  "serve_all lm kf lookup runtime s [] = []"
| "serve_all lm kf lookup runtime s ((tm, req) # xs) =
     (let (h, s') = rateLimitHandlerAsync lm kf memory_store lookup runtime tm req s
      in (tm, req, h) # serve_all lm kf lookup runtime s' xs)"

fun counts_against :: "plan \<Rightarrow> string \<Rightarrow> int \<Rightarrow> bool" where
  "counts_against Bypass k L = False"
| "counts_against (Counted k' a w l) k L = (k' = k \<and> l \<le> L)"

definition served_state ::
  "limiter \<Rightarrow> key_functions \<Rightarrow> (string \<Rightarrow> 'x + RateLimitOverride option) \<Rightarrow> RuntimeRateLimitConfig option \<Rightarrow>
   InMemoryStore \<Rightarrow> (times \<times> request) list \<Rightarrow> InMemoryStore" where
  "served_state lm kf lookup runtime s xs =
     foldl (\<lambda>s (tm, req). snd (rateLimitHandlerAsync lm kf memory_store lookup runtime tm req s)) s xs"

lemma serve_all_snoc:
  "serve_all lm kf lookup runtime s (xs @ [(tm, req)]) = serve_all lm kf lookup runtime s xs @
     [(tm, req, fst (rateLimitHandlerAsync lm kf memory_store lookup runtime tm req (served_state lm kf lookup runtime s xs)))]"
proof (induction xs arbitrary: s)
  case (Cons x xs)
  then show ?case by (cases x) (auto simp: served_state_def split: prod.split)
qed (simp add: served_state_def split: prod.split)

lemma memory_increment:
  assumes "assertOperationInputs (JString k) (js_int w) = Inr n"
  shows "\<exists>c. im_increment k (js_int w) t s = Inr (c, im_step s (Increment k (js_int w) t)) \<and>
    st_increment memory_store k w t s = (Inr c, im_step s (Increment k (js_int w) t))"
proof -
  obtain c s' where "im_incr k (js_int w) t s = (Inr c, s')" using ims.answers [OF assms] by blast
  then show ?thesis
    by (cases "im_increment k (js_int w) t s") (auto simp: im_incr_def im_step_def memory_store_def js_int_def split: prod.splits)
qed

lemma served_plan:
  assumes "ops_valid win (plan_ops (handler_plan lm kf lookup runtime req) tm)"
  shows "snd (rateLimitHandlerAsync lm kf memory_store lookup runtime tm req s) =
    foldl im_step s (plan_ops (handler_plan lm kf lookup runtime req) tm)"
proof (cases "handler_plan lm kf lookup runtime req")
  case (Counted k a w l)
  then have k: "assertOperationInputs (JString k) (js_int w) = Inr (win k)"
    and a: "assertOperationInputs (JString a) (js_int w) = Inr (win a)" using assms by (simp_all add: ops_valid_def)
  let ?s1 = "im_step s (Increment k (js_int w) (tm_first tm))"
  obtain c where c: "st_increment memory_store k w (tm_first tm) s = (Inr c, ?s1)"
    using memory_increment [OF k] by blast
  obtain d where "st_increment memory_store a w (tm_aggregate tm) ?s1 = (Inr d, im_step ?s1 (Increment a (js_int w) (tm_aggregate tm)))"
    using memory_increment [OF a] by blast
  then show ?thesis using handler_counted [OF Counted c] by (simp add: Counted)
qed (simp add: handler_bypass)

lemma served_run:
  assumes "ops_valid win (run_ops lm kf lookup runtime xs)"
  shows "served_state lm kf lookup runtime s xs = foldl im_step s (run_ops lm kf lookup runtime xs)"
  using assms
proof (induction xs arbitrary: s)
  case (Cons x xs)
  obtain tm req where x: "x = (tm, req)" by (cases x)
  have v: "ops_valid win (plan_ops (handler_plan lm kf lookup runtime req) tm)" "ops_valid win (run_ops lm kf lookup runtime xs)"
    using Cons.prems by (auto simp: x run_ops_def ops_valid_def)
  show ?case using Cons.IH [OF v(2)] served_plan [OF v(1)] by (simp add: x served_state_def run_ops_def)
qed (simp add: served_state_def run_ops_def)

lemma served_counts:
  assumes "ops_valid win (run_ops lm kf lookup runtime xs)"
  shows "length (filter (\<lambda>(tm, req, h). passed h \<and> P (tm_first tm) \<and> counts_against (handler_plan lm kf lookup runtime req) k L)
      (serve_all lm kf lookup runtime new_InMemoryStore xs)) \<le>
    length (filter (\<lambda>(k', t, c). k' = k \<and> P t \<and> c \<le> nat L) (im_results (run_ops lm kf lookup runtime xs)))"
  using assms
proof (induction xs rule: rev_induct)
  case (snoc x xs)
  obtain tm req where x: "x = (tm, req)" by (cases x)
  let ?s = "foldl im_step new_InMemoryStore (run_ops lm kf lookup runtime xs)"
  let ?h = "rateLimitHandlerAsync lm kf memory_store lookup runtime tm req ?s"
  have v: "ops_valid win (run_ops lm kf lookup runtime xs)" "ops_valid win (plan_ops (handler_plan lm kf lookup runtime req) tm)"
    and ops: "run_ops lm kf lookup runtime (xs @ [x]) = run_ops lm kf lookup runtime xs @ plan_ops (handler_plan lm kf lookup runtime req) tm"
    using snoc.prems by (auto simp: x run_ops_def ops_valid_def)
  have all: "serve_all lm kf lookup runtime new_InMemoryStore (xs @ [x]) =
      serve_all lm kf lookup runtime new_InMemoryStore xs @ [(tm, req, fst ?h)]"
    using serve_all_snoc [of lm kf lookup runtime new_InMemoryStore xs tm req] served_run [OF v(1)] by (simp add: x)
  show ?case
  proof (cases "handler_plan lm kf lookup runtime req")
    case Bypass
    then show ?thesis using snoc.IH [OF v(1)] all ops by simp
  next
    case (Counted k' a w l)
    then have k': "assertOperationInputs (JString k') (js_int w) = Inr (win k')" using v(2) by (simp add: ops_valid_def)
    obtain c where c: "im_increment k' (js_int w) (tm_first tm) ?s = Inr (c, im_step ?s (Increment k' (js_int w) (tm_first tm)))"
      "st_increment memory_store k' w (tm_first tm) ?s = (Inr c, im_step ?s (Increment k' (js_int w) (tm_first tm)))"
      using memory_increment [OF k'] by blast
    have "passed (fst ?h) \<longleftrightarrow> int (lc_count c) \<le> l" using handler_counted [OF Counted c(2)] by blast
    moreover obtain rest where "im_results (run_ops lm kf lookup runtime (xs @ [x])) =
        im_results (run_ops lm kf lookup runtime xs) @ (k', tm_first tm, lc_count c) # rest"
      using im_results_snoc [of "run_ops lm kf lookup runtime xs" "Increment k' (js_int w) (tm_first tm)"]
        im_results_snoc [of "run_ops lm kf lookup runtime xs @ [Increment k' (js_int w) (tm_first tm)]" "Increment a (js_int w) (tm_aggregate tm)"]
        c(1) ops Counted by simp
    ultimately show ?thesis using snoc.IH [OF v(1)] all Counted by (auto simp: le_nat_iff)
  qed
qed (simp add: run_ops_def)

text \<open>(C37) The middleware keeps its promise. However requests to one route by one principal are timed, over any interval of the
  length of the window at most \<open>L\<close> of those whose effective limit is at most \<open>L\<close> are let through; reads and writes
  of a route share the counter. The hypotheses are that the clock does not go backwards and that the store accepts the windows,
  one per key.\<close>

theorem limiter_never_exceeded:
  assumes "ops_valid win (run_ops lm kf lookup runtime xs)" "sorted (map op_time (run_ops lm kf lookup runtime xs))" "0 \<le> L"
  shows "int (length (filter (\<lambda>(tm, req, h). passed h \<and> (u < tm_first tm \<and> tm_first tm \<le> u + win k) \<and>
      counts_against (handler_plan lm kf lookup runtime req) k L)
    (serve_all lm kf lookup runtime new_InMemoryStore xs))) \<le> L"
proof -
  have "length (filter (\<lambda>(k', t, c). k' = k \<and> (u < t \<and> t \<le> u + win k) \<and> c \<le> nat L) (im_results (run_ops lm kf lookup runtime xs))) \<le> nat L"
    using window_bound [OF assms(1,2), of k u "nat L"] by simp
  then show ?thesis
    using served_counts [OF assms(1), where P = "\<lambda>t. u < t \<and> t \<le> u + win k" and k = k and L = L] assms(3) by linarith
qed

definition sample_limiter :: limiter where
  "sample_limiter = createRateLimiter ((\<lambda>_. None)(''RATE_LIMIT_IP_MAX'' := Some ''1'')) (\<lambda>_. None) None"

definition sample_keys :: key_functions where
  "sample_keys = \<lparr>kf_isIP = (\<lambda>_. 4), kf_sha256Hex = filter (\<lambda>c. c \<noteq> CHR '':'')\<rparr>"

definition sample_request :: request where
  "sample_request = \<lparr>rq_path = ''/api/x'', rq_method = ''GET'', rq_apiKey = None, rq_keyId = None,
     rq_incoming = \<lparr>in_remoteAddress = Some ''192.0.2.9'', in_ip = None, in_trustProxy = Trust_unset, in_forwarded = None\<rparr>\<rparr>"

definition no_override :: "string \<Rightarrow> override_error + RateLimitOverride option" where
  "no_override k = Inr None"

lemma sample_plan:
  "handler_plan sample_limiter sample_keys no_override None sample_request = Counted ''v1:ip:192.0.2.9:api_2fx'' ''v1:ip:192.0.2.9:global'' 60000 1"
  by code_simp

theorem limiter_never_exceeded_witness:
  "int (length (filter (\<lambda>(tm, req, h). passed h \<and> (0 < tm_first tm \<and> tm_first tm \<le> 0 + 60000) \<and>
      counts_against (handler_plan sample_limiter sample_keys no_override None req) ''v1:ip:192.0.2.9:api_2fx'' 1)
    (serve_all sample_limiter sample_keys no_override None new_InMemoryStore
       [(\<lparr>tm_first = 5000, tm_aggregate = 5001, tm_reply = 5002\<rparr>, sample_request),
        (\<lparr>tm_first = 20000, tm_aggregate = 20000, tm_reply = 20001\<rparr>, sample_request)]))) \<le> 1"
proof -
  let ?xs = "[(\<lparr>tm_first = 5000, tm_aggregate = 5001, tm_reply = 5002\<rparr>, sample_request),
        (\<lparr>tm_first = 20000, tm_aggregate = 20000, tm_reply = 20001\<rparr>, sample_request)]"
  have "js_trim ''v1:ip:192.0.2.9:api_2fx'' \<noteq> []" "js_trim ''v1:ip:192.0.2.9:global'' \<noteq> []" by code_simp+
  then have "ops_valid (\<lambda>_. 60000) (run_ops sample_limiter sample_keys no_override None ?xs)"
    using minute_valid [of "''v1:ip:192.0.2.9:api_2fx''"] minute_valid [of "''v1:ip:192.0.2.9:global''"]
    by (simp add: run_ops_def sample_plan ops_valid_def js_int_def minute_def)
  moreover have "sorted (map op_time (run_ops sample_limiter sample_keys no_override None ?xs))"
    by (simp add: run_ops_def sample_plan)
  ultimately show ?thesis by (rule limiter_never_exceeded) simp
qed

section \<open>When a rejected client may come back\<close>

definition at_once :: "millis \<Rightarrow> times" where "at_once t = \<lparr>tm_first = t, tm_aggregate = t, tm_reply = t\<rparr>"

definition repeated :: "request \<Rightarrow> millis list \<Rightarrow> (times \<times> request) list" where
  "repeated req ts = map (\<lambda>t. (at_once t, req)) ts"

lemma repeated_ops:
  assumes "handler_plan lm kf lookup runtime req = Counted k a w l"
  shows "run_ops lm kf lookup runtime (repeated req ts) = concat (map (\<lambda>t. [Increment k (js_int w) t, Increment a (js_int w) t]) ts)"
  using assms by (simp add: run_ops_def repeated_def comp_def at_once_def)

lemma repeated_increments: "k \<noteq> a \<Longrightarrow> increments k (concat (map (\<lambda>t. [Increment k w t, Increment a w t]) ts)) = ts"
  by (induction ts) simp_all

lemma repeated_sorted: "sorted ts \<Longrightarrow> sorted (map op_time (concat (map (\<lambda>t. [Increment k w t, Increment a w t]) ts)))"
  by (induction ts) auto

lemma serve_repeated:
  assumes plan: "handler_plan lm kf lookup runtime req = Counted k a w l" and "k \<noteq> a"
    and valid: "assertOperationInputs (JString k) (js_int w) = Inr w" "assertOperationInputs (JString a) (js_int w) = Inr w"
    and sorted: "sorted (ts @ [t])"
  shows "\<exists>h. serve_all lm kf lookup runtime new_InMemoryStore (repeated req (ts @ [t])) =
      serve_all lm kf lookup runtime new_InMemoryStore (repeated req ts) @ [(at_once t, req, h)] \<and>
    (passed h \<longleftrightarrow> int (length (filter (\<lambda>u. t - w < u) ts)) < l) \<and>
    (\<forall>hs b. h = Too_many hs b \<longrightarrow> eb_retryAfter b = secondsUntil t (hd (filter (\<lambda>u. t - w < u) ts @ [t]) + w))"
proof -
  let ?ops = "run_ops lm kf lookup runtime (repeated req ts)"
  let ?s = "foldl im_step new_InMemoryStore ?ops"
  have v: "ops_valid (\<lambda>_. w) ?ops" unfolding repeated_ops [OF plan] using valid by (auto simp: ops_valid_def)
  have s: "sorted (map op_time ?ops)" "\<forall>x \<in> set ?ops. op_time x \<le> t"
    using sorted unfolding repeated_ops [OF plan] by (auto simp: sorted_append intro!: repeated_sorted)
  obtain c where c: "im_increment k (js_int w) t ?s = Inr (c, im_step ?s (Increment k (js_int w) t))"
    "st_increment memory_store k w (tm_first (at_once t)) ?s = (Inr c, im_step ?s (Increment k (js_int w) t))"
    using memory_increment [OF valid(1)] by (fastforce simp: at_once_def)
  have "lc_count c = Suc (length (filter (\<lambda>u. t - w < u) ts))" "lc_resetAt c = hd (filter (\<lambda>u. t - w < u) ts @ [t]) + w"
    using im_increment_window [OF v s valid(1)] c(1) repeated_increments [OF \<open>k \<noteq> a\<close>] unfolding repeated_ops [OF plan] by auto
  moreover have "serve_all lm kf lookup runtime new_InMemoryStore (repeated req (ts @ [t])) =
      serve_all lm kf lookup runtime new_InMemoryStore (repeated req ts) @
      [(at_once t, req, fst (rateLimitHandlerAsync lm kf memory_store lookup runtime (at_once t) req ?s))]"
    using serve_all_snoc [of lm kf lookup runtime new_InMemoryStore "repeated req ts" "at_once t" req] served_run [OF v]
    by (simp add: repeated_def)
  ultimately show ?thesis using handler_counted [OF plan c(2)] by (auto simp: at_once_def)
qed

lemma serve_all_length [simp]: "length (serve_all lm kf lookup runtime s xs) = length xs"
  by (induction xs arbitrary: s) (auto split: prod.split)

lemma secondsUntil_bounds:
  assumes "now < resetAt"
  shows "resetAt \<le> now + 1000 * secondsUntil now resetAt" "now + 1000 * secondsUntil now resetAt < resetAt + 1000"
  using assms by (simp_all add: secondsUntil_def ceil_div_def max_def) linarith+

text \<open>Waiting as long as the 429 response asks does not help. A client that has used its limit with requests at least a second
  apart gets a 429 with a \<open>Retry-After\<close>; a request after exactly that time is rejected again, because the rejected
  request was itself recorded and took the place of the one that left the window.\<close>

theorem retry_rejected_again:
  assumes "handler_plan lm kf lookup runtime req = Counted k a w (int (length ts))" "k \<noteq> a"
    and "assertOperationInputs (JString k) (js_int w) = Inr w" "assertOperationInputs (JString a) (js_int w) = Inr w"
    and "sorted (t0 # ts' @ [t])" "ts = t0 # ts'" "t < t0 + w" "\<forall>v \<in> set (ts' @ [t]). t0 + 1000 \<le> v"
  shows "let r = secondsUntil t (t0 + w);
      answers = map (\<lambda>(tm, req, h). h) (serve_all lm kf lookup runtime new_InMemoryStore (repeated req (ts @ [t, t + 1000 * r])))
    in (\<exists>hs b. answers ! length ts = Too_many hs b \<and> eb_retryAfter b = r) \<and> \<not> passed (answers ! Suc (length ts))"
proof -
  let ?r = "secondsUntil t (t0 + w)"
  let ?v = "t + 1000 * ?r"
  have r: "t0 + w \<le> ?v" "?v < t0 + w + 1000" using secondsUntil_bounds [OF assms(7)] by simp_all
  have s1: "sorted (ts @ [t])" using assms(5,6) by simp
  have "t \<le> ?v" using r assms(7) by simp
  then have s2: "sorted ((ts @ [t]) @ [?v])" using s1 by (auto simp: sorted_append)
  have f1: "filter (\<lambda>u. t - w < u) ts = ts" using assms(5-7) by (auto simp: filter_id_conv)
  have f2: "filter (\<lambda>u. ?v - w < u) (ts @ [t]) = ts' @ [t]" using assms(6,8) r by (auto simp: filter_id_conv)
  obtain h1 where h1: "serve_all lm kf lookup runtime new_InMemoryStore (repeated req (ts @ [t])) =
      serve_all lm kf lookup runtime new_InMemoryStore (repeated req ts) @ [(at_once t, req, h1)]"
    "\<not> passed h1" "\<And>hs b. h1 = Too_many hs b \<Longrightarrow> eb_retryAfter b = ?r"
    using serve_repeated [OF assms(1-4) s1] unfolding f1 by (auto simp: assms(6))
  obtain h2 where h2: "serve_all lm kf lookup runtime new_InMemoryStore (repeated req ((ts @ [t]) @ [?v])) =
      serve_all lm kf lookup runtime new_InMemoryStore (repeated req (ts @ [t])) @ [(at_once ?v, req, h2)]" "\<not> passed h2"
    using serve_repeated [OF assms(1-4) s2] unfolding f2 by (auto simp: assms(6))
  obtain hs b where "h1 = Too_many hs b" using h1(2) by (cases h1) auto
  then show ?thesis using h1 h2 by (simp add: Let_def nth_append repeated_def)
qed

theorem retry_rejected_again_witness:
  "let answers = map (\<lambda>(tm, req, h). h)
      (serve_all sample_limiter sample_keys no_override None new_InMemoryStore (repeated sample_request [5000, 20000, 65000]))
   in \<not> passed (answers ! Suc 0) \<and> \<not> passed (answers ! Suc (Suc 0))"
proof -
  have "js_trim ''v1:ip:192.0.2.9:api_2fx'' \<noteq> []" "js_trim ''v1:ip:192.0.2.9:global'' \<noteq> []" by code_simp+
  then have v: "assertOperationInputs (JString ''v1:ip:192.0.2.9:api_2fx'') (js_int 60000) = Inr 60000"
    "assertOperationInputs (JString ''v1:ip:192.0.2.9:global'') (js_int 60000) = Inr 60000"
    using minute_valid by (simp_all add: js_int_def minute_def)
  have p: "handler_plan sample_limiter sample_keys no_override None sample_request =
      Counted ''v1:ip:192.0.2.9:api_2fx'' ''v1:ip:192.0.2.9:global'' 60000 (int (length [5000 :: millis]))"
    by (simp add: sample_plan)
  have r: "secondsUntil 20000 (5000 + 60000) = 45" by code_simp
  show ?thesis
    using retry_rejected_again [OF p _ v, of 5000 "[]" 20000] unfolding r Let_def by (auto simp del: serve_all.simps)
qed

section \<open>Windows that switch the limiter off\<close>

lemma refused_window:
  assumes "w < MIN_RATE_LIMIT_WINDOW_MS \<or> MAX_WINDOW_MS < w"
  obtains e where "assertOperationInputs (JString k) (js_int w) = Inl e"
  using assms
  by (cases "assertKey (JString k)"; cases "w < MIN_RATE_LIMIT_WINDOW_MS") (auto simp: assertOperationInputs_def assertWindowMs_def js_int_def)

lemma plan_window_ip:
  assumes "snd (extractClientIdentifier (lm_processEnv lm) req) = Id_ip" "handler_plan lm kf lookup runtime req = Counted k a w l"
  shows "w = rc_windowMs (rl_ip (getRateLimitConfig (lm_env lm) runtime))"
  using assms
  by (auto simp: handler_plan_def Let_def with_override_def tier_for_def split: prod.splits if_splits option.splits)

lemma refused_window_passes:
  assumes "snd (extractClientIdentifier (lm_processEnv lm) req) = Id_ip"
    and "rc_windowMs (rl_ip (getRateLimitConfig (lm_env lm) runtime)) < MIN_RATE_LIMIT_WINDOW_MS"
  shows "rateLimitHandlerAsync lm kf (hybrid_store ops hex) lookup runtime tm req s = (Next [], s)"
proof (cases "handler_plan lm kf lookup runtime req")
  case (Counted k a w l)
  then have "w < MIN_RATE_LIMIT_WINDOW_MS" using plan_window_ip assms by metis
  then obtain e where "assertOperationInputs (JString k) (js_int w) = Inl e" using refused_window [of w k] by blast
  then have "st_increment (hybrid_store ops hex) k w (tm_first tm) s = (Inl e, s)"
    using hys.refuses by (simp add: hybrid_store_def js_int_def)
  from handler_refused [OF Counted this] show ?thesis .
qed (simp add: handler_bypass)

lemma validate_update:
  assumes "validateRateLimitsConfig env = []" "\<And>r. (name, r) \<in> set RATE_LIMIT_INTEGER_ENVS \<Longrightarrow> check_integer_env (env(name := v)) (name, r) = []"
  shows "validateRateLimitsConfig (env(name := v)) = []"
proof -
  have "check_integer_env (env(name := v)) (n, r) = []" if "(n, r) \<in> set RATE_LIMIT_INTEGER_ENVS" for n r
  proof (cases "n = name")
    case False
    then have "check_integer_env (env(name := v)) (n, r) = check_integer_env env (n, r)" by (simp add: check_integer_env_def)
    then show ?thesis using assms(1) that by (auto simp: validateRateLimitsConfig_def)
  qed (use assms(2) that in simp)
  then show ?thesis by (auto simp: validateRateLimitsConfig_def)
qed

text \<open>A window below one second passes start-up validation and turns rate limiting off. With any environment that validates, setting
  the window of the address tier to between 1 and 999 milliseconds still validates; but the store refuses such a window,
  the middleware takes the refusal for an outage, and every request identified by its address is let through without
  being counted and without rate-limit headers.\<close>

theorem subsecond_window_disables_limiter:
  assumes "validateRateLimitsConfig env = []" "1 \<le> n" "n < 1000"
    and "env' = env(''RATE_LIMIT_IP_WINDOW_MS'' := Some (show_int n))"
  shows "validateRateLimitsConfig env' = [] \<and>
    (snd (extractClientIdentifier processEnv req) = Id_ip \<longrightarrow>
      rateLimitHandlerAsync (createRateLimiter env' processEnv None) kf (hybrid_store ops hex) lookup None tm req s = (Next [], s))"
proof -
  have p: "js_parse_int (show_int n) = Some n" "js_trim (show_int n) = show_int n" "integer_text (show_int n)" "show_int n \<noteq> []"
    using assms(2) by (simp_all add: parse_show_nat js_trim_digits integer_text_def show_int_nonneg show_nat_digits show_nat_not_sign)
  have "validateRateLimitsConfig env' = []"
    unfolding assms(4) using assms(1) p assms(2,3)
    by (intro validate_update) (auto simp: check_integer_env_def RATE_LIMIT_INTEGER_ENVS_def MAX_WINDOW_MS_def)
  moreover have "rc_windowMs (rl_ip (getRateLimitConfig env' None)) = n"
    using p(1) assms(2) by (simp add: assms(4) getRateLimitConfig_def tier_config_def parse_int_or_def Let_def)
  ultimately show ?thesis
    using refused_window_passes [of "createRateLimiter env' processEnv None" req None kf ops hex lookup tm s] assms(3)
    by (simp add: createRateLimiter_def MIN_RATE_LIMIT_WINDOW_MS_def)
qed

theorem subsecond_window_disables_limiter_witness:
  "validateRateLimitsConfig ((\<lambda>_. None)(''RATE_LIMIT_IP_WINDOW_MS'' := Some (show_int 500))) = [] \<and>
   rateLimitHandlerAsync (createRateLimiter ((\<lambda>_. None)(''RATE_LIMIT_IP_WINDOW_MS'' := Some (show_int 500))) (\<lambda>_. None) None) sample_keys
     (hybrid_store \<lparr>wo_exec = (\<lambda>r _ _ _ _. (Pipeline_null, r)), wo_zcount = (\<lambda>_ _ _. Inr 0), wo_close = id\<rparr> ''abc'') no_override None (at_once 5) sample_request
     \<lparr>hs_primary = \<lparr>sw_client = (0 :: nat), sw_closed = False\<rparr>, hs_fallback = new_InMemoryStore, hs_usingFallback = False, hs_errors = []\<rparr> =
     (Next [], \<lparr>hs_primary = \<lparr>sw_client = (0 :: nat), sw_closed = False\<rparr>, hs_fallback = new_InMemoryStore, hs_usingFallback = False, hs_errors = []\<rparr>)"
proof -
  have v: "validateRateLimitsConfig (\<lambda>_. None) = []" by code_simp
  have i: "snd (extractClientIdentifier (\<lambda>_. None) sample_request) = Id_ip" by code_simp
  show ?thesis
    by (rule conjI, rule subsecond_window_disables_limiter [OF v _ _ refl, THEN conjunct1], simp, simp)
      (rule subsecond_window_disables_limiter [OF v _ _ refl, THEN conjunct2, THEN mp, OF _ _ i], simp_all)
qed

section \<open>The decision on each request\<close>

lemma serve_decision:
  assumes "handler_plan lm kf lookup runtime req = Counted k a w l"
    and "ops_valid win (run_ops lm kf lookup runtime (xs @ [(tm, req)]))"
    and "sorted (map op_time (run_ops lm kf lookup runtime (xs @ [(tm, req)])))"
  shows "\<exists>h. serve_all lm kf lookup runtime new_InMemoryStore (xs @ [(tm, req)]) =
      serve_all lm kf lookup runtime new_InMemoryStore xs @ [(tm, req, h)] \<and>
    (passed h \<longleftrightarrow> int (length (filter (\<lambda>u. tm_first tm - win k < u) (increments k (run_ops lm kf lookup runtime xs)))) < l)"
proof -
  let ?ops = "run_ops lm kf lookup runtime xs"
  let ?s = "foldl im_step new_InMemoryStore ?ops"
  have ops: "run_ops lm kf lookup runtime (xs @ [(tm, req)]) = ?ops @ plan_ops (Counted k a w l) tm"
    using assms(1) by (simp add: run_ops_def)
  have v: "ops_valid win ?ops" "assertOperationInputs (JString k) (js_int w) = Inr (win k)"
    using assms(2) unfolding ops by (auto simp: ops_valid_def)
  have s: "sorted (map op_time ?ops)" "\<forall>x \<in> set ?ops. op_time x \<le> tm_first tm"
    using assms(3) unfolding ops by (auto simp: sorted_append)
  obtain c where c: "im_increment k (js_int w) (tm_first tm) ?s = Inr (c, im_step ?s (Increment k (js_int w) (tm_first tm)))"
    "st_increment memory_store k w (tm_first tm) ?s = (Inr c, im_step ?s (Increment k (js_int w) (tm_first tm)))"
    using memory_increment [OF v(2)] by blast
  have "lc_count c = Suc (length (filter (\<lambda>u. tm_first tm - win k < u) (increments k ?ops)))"
    using im_increment_window [OF v(1) s v(2)] c(1) by auto
  then show ?thesis
    using handler_counted [OF assms(1) c(2)] serve_all_snoc [of lm kf lookup runtime new_InMemoryStore xs tm req] served_run [OF v(1)]
    by auto
qed

lemma increments_new: "\<forall>x \<in> set ops. op_key x \<noteq> k \<Longrightarrow> increments k ops = []"
  by (induction k ops rule: increments.induct) auto

lemma plan_keys:
  assumes "handler_plan lm kf lookup runtime req = Counted k a w l" "extractClientIdentifier (lm_processEnv lm) req = (i, ty)"
  shows "let p = principalTypeFor ty (ty = Id_apiKey \<and> i \<in> set (lm_adminKeys lm)) in
    k = buildStoreKey kf p i (routeKeyFromPath (kf_sha256Hex kf) (Some (rq_path req))) \<and> a = buildStoreKey kf p i AGGREGATE_ROUTE"
  using assms by (auto simp: handler_plan_def Let_def split: prod.splits if_splits)

lemma routeKey_no_colon:
  assumes "\<And>s. CHR '':'' \<notin> set (h s)"
  shows "CHR '':'' \<notin> set (routeKeyFromPath h p)"
  using assms encode_no_colon by (auto simp: routeKeyFromPath_def Let_def AGGREGATE_ROUTE_def split: option.split simp del: set_concat)

text \<open>The API key that names a counter is taken from the request unverified. A client that sends a key it has not sent before is let
  through, whatever it did before and however many of its requests the address tier or other keys would have rejected: rotating
  made-up keys evades the limit. (The hash is assumed to separate the new key from the earlier ones.)\<close>

theorem made_up_key_evades_limit:
  assumes "rq_apiKey req = Some (Header_text key)" "key \<noteq> []" "key \<notin> set (lm_adminKeys lm)"
    and "handler_plan lm kf lookup runtime req = Counted k a w l" "1 \<le> l"
    and "\<And>s. CHR '':'' \<notin> set (kf_sha256Hex kf s)"
    and "\<forall>(tm', req') \<in> set xs. \<forall>key'. rq_apiKey req' = Some (Header_text key') \<longrightarrow> kf_sha256Hex kf key' \<noteq> kf_sha256Hex kf key"
    and "ops_valid win (run_ops lm kf lookup runtime (xs @ [(tm, req)]))"
    and "sorted (map op_time (run_ops lm kf lookup runtime (xs @ [(tm, req)])))"
  shows "case last (serve_all lm kf lookup runtime new_InMemoryStore (xs @ [(tm, req)])) of (_, _, h) \<Rightarrow> passed h"
proof -
  have k: "k = buildStoreKey kf Principal_apikey key (routeKeyFromPath (kf_sha256Hex kf) (Some (rq_path req)))"
    using plan_keys [OF assms(4), of key Id_apiKey] assms(1-3) by (simp add: extractClientIdentifier_def principalTypeFor_def)
  have ag: "CHR '':'' \<notin> set AGGREGATE_ROUTE" by (simp add: AGGREGATE_ROUTE_def)
  note rk = routeKey_no_colon [OF assms(6)]
  have "op_key x \<noteq> k" if "x \<in> set (run_ops lm kf lookup runtime xs)" for x
  proof -
    obtain tm' req' where r: "(tm', req') \<in> set xs" "x \<in> set (plan_ops (handler_plan lm kf lookup runtime req') tm')"
      using \<open>x \<in> _\<close> by (auto simp: run_ops_def)
    obtain i ty where i: "extractClientIdentifier (lm_processEnv lm) req' = (i, ty)" by fastforce
    obtain k' a' w' l' where plan: "handler_plan lm kf lookup runtime req' = Counted k' a' w' l'"
      using r(2) by (cases "handler_plan lm kf lookup runtime req'") auto
    let ?p = "principalTypeFor ty (ty = Id_apiKey \<and> i \<in> set (lm_adminKeys lm))"
    have "principal_key kf ?p i \<noteq> principal_key kf Principal_apikey key" if "?p = Principal_apikey"
    proof -
      have "ty = Id_apiKey" using that by (cases ty) (auto simp: principalTypeFor_def)
      then have "rq_apiKey req' = Some (Header_text i)"
        using i by (auto simp: extractClientIdentifier_def split: option.splits header_value.splits if_splits)
      then show ?thesis using assms(7) r(1) that by (auto simp: principal_key_def)
    qed
    then have "buildStoreKey kf ?p i (routeKeyFromPath (kf_sha256Hex kf) (Some (rq_path req'))) \<noteq> k" "buildStoreKey kf ?p i AGGREGATE_ROUTE \<noteq> k"
      unfolding k buildStoreKey_eq [OF rk rk] buildStoreKey_eq [OF ag rk] by blast+
    moreover have "op_key x = k' \<or> op_key x = a'" using r(2) plan by auto
    ultimately show ?thesis using plan_keys [OF plan i] by (auto simp: Let_def)
  qed
  then show ?thesis using serve_decision [OF assms(4,8,9)] increments_new assms(5) by fastforce
qed

theorem made_up_key_evades_limit_witness:
  "case last (serve_all sample_limiter sample_keys no_override None new_InMemoryStore
      [(at_once 5000, sample_request), (at_once 5000, sample_request), (at_once 6000, sample_request\<lparr>rq_apiKey := Some (Header_text ''x'')\<rparr>)])
   of (_, _, h) \<Rightarrow> passed h"
proof -
  let ?req = "sample_request\<lparr>rq_apiKey := Some (Header_text ''x'')\<rparr>"
  let ?xs = "[(at_once 5000, sample_request), (at_once 5000, sample_request)]"
  have p: "handler_plan sample_limiter sample_keys no_override None ?req = Counted ''v1:apikey:x:api_2fx'' ''v1:apikey:x:global'' 60000 500"
    "handler_plan sample_limiter sample_keys no_override None sample_request = Counted ''v1:ip:192.0.2.9:api_2fx'' ''v1:ip:192.0.2.9:global'' 60000 1"
    by code_simp+
  have "\<forall>k \<in> {''v1:ip:192.0.2.9:api_2fx'', ''v1:ip:192.0.2.9:global'', ''v1:apikey:x:api_2fx'', ''v1:apikey:x:global''}. js_trim k \<noteq> []"
    by code_simp
  then have v: "ops_valid (\<lambda>_. 60000) (run_ops sample_limiter sample_keys no_override None (?xs @ [(at_once 6000, ?req)]))"
    using minute_valid by (simp add: run_ops_def p ops_valid_def js_int_def minute_def)
  have s: "sorted (map op_time (run_ops sample_limiter sample_keys no_override None (?xs @ [(at_once 6000, ?req)])))"
    by (simp add: run_ops_def p at_once_def)
  have "rq_apiKey sample_request = None" "lm_adminKeys sample_limiter = []" by code_simp+
  moreover have "\<And>s. CHR '':'' \<notin> set (kf_sha256Hex sample_keys s)" by (simp add: sample_keys_def)
  ultimately show ?thesis using made_up_key_evades_limit [OF _ _ _ p(1) _ _ _ v s, of "''x''"] by (simp del: serve_all.simps)
qed

end
