(* ===== verification/Ws_Limiter.thy ===== *)
theory Ws_Limiter
  imports Client_Ip
begin

text \<open>
  Admission of WebSocket connections: the ban stores of \<open>src/redis/banStore.ts\<close>, the connection limiter
  \<open>src/ws/connectionLimiter.ts\<close> and the upgrade path of \<open>src/ws/upgradeHandler.ts\<close> with the release in
  \<open>src/ws/connectionLifecycle.ts\<close>.

  \<open>checkAndReserve\<close> awaits the ban store between its two halves, where other requests run; it is therefore two operations,
  \<open>reserve\<close> and \<open>finish_check\<close>, and the interleavings are the steps of \<open>ws_reach\<close>. The in-memory ban store has no await of its
  own. Redis is an argument. A setting that is not a number is \<open>NaN\<close>, here \<open>None\<close>, and every comparison with it is false.

  The lemmas: a ban holds until it expires whatever Redis does; under all interleavings the counters are exactly the numbers of
  reservations that are held and never exceed the cap; and how the upgrade path can lose a reservation.
\<close>

section \<open>Ban stores\<close>

record BanCheckResult =
  bc_banned :: bool
  bc_expiry :: "millis option"

definition not_banned :: BanCheckResult where "not_banned = \<lparr>bc_banned = False, bc_expiry = None\<rparr>"

text \<open>A time to live that is not a number is \<open>None\<close>.\<close>

definition ttl_ok :: "int option \<Rightarrow> bool" where
  "ttl_ok ttl = (case ttl of None \<Rightarrow> False | Some n \<Rightarrow> 0 < n)"

type_synonym InMemoryBanStore = "(string, millis) jsmap"

definition mb_isBanned :: "string \<Rightarrow> millis \<Rightarrow> InMemoryBanStore \<Rightarrow> BanCheckResult \<times> InMemoryBanStore" where
  "mb_isBanned ip now bans =
     (case map_get bans ip of
        None \<Rightarrow> (not_banned, bans)
      | Some expiry \<Rightarrow>
          if expiry = 0 then (not_banned, bans)
          else if now < expiry then (\<lparr>bc_banned = True, bc_expiry = Some expiry\<rparr>, bans)
          else (not_banned, map_delete ip bans))"

definition mb_ban :: "string \<Rightarrow> int option \<Rightarrow> millis \<Rightarrow> InMemoryBanStore \<Rightarrow> bool \<times> InMemoryBanStore" where
  "mb_ban ip ttlSeconds now bans =
     (if \<not> ttl_ok ttlSeconds then (False, bans) else (True, map_set ip (now + the ttlSeconds * 1000) bans))"

definition mb_unban :: "string \<Rightarrow> InMemoryBanStore \<Rightarrow> InMemoryBanStore" where
  "mb_unban ip bans = map_delete ip bans"

definition mb_close :: "InMemoryBanStore \<Rightarrow> InMemoryBanStore" where
  "mb_close bans = []"

text \<open>The Redis client: each command answers or throws.\<close>

record 'r ban_redis =
  br_get :: "'r \<Rightarrow> string \<Rightarrow> string + string option"
  br_set :: "'r \<Rightarrow> string \<Rightarrow> string \<Rightarrow> int \<Rightarrow> string + 'r"
  br_del :: "'r \<Rightarrow> string \<Rightarrow> string + 'r"

definition BAN_KEY_PREFIX :: string where "BAN_KEY_PREFIX = ''fluxora:ws:ban:''"

definition sanitiseIp :: "(string \<Rightarrow> string) \<Rightarrow> string \<Rightarrow> string" where
  "sanitiseIp sha256 ip = (if ip = [] then ''unknown'' else sha256 ip)"

definition ban_key :: "(string \<Rightarrow> string) \<Rightarrow> string \<Rightarrow> string" where
  "ban_key sha256 ip = BAN_KEY_PREFIX @ sanitiseIp sha256 ip"

definition rb_isBanned ::
  "'r ban_redis \<Rightarrow> (string \<Rightarrow> string) \<Rightarrow> string \<Rightarrow> millis \<Rightarrow> 'r \<Rightarrow> (string + BanCheckResult) \<times> 'r" where
  "rb_isBanned redis sha ip now r =
     (case br_get redis r (ban_key sha ip) of
        Inl err \<Rightarrow> (Inl err, r)
      | Inr None \<Rightarrow> (Inr not_banned, r)
      | Inr (Some v) \<Rightarrow>
          if (case js_parse_int v of None \<Rightarrow> True | Some expiry \<Rightarrow> expiry \<le> now)
          then (case br_del redis r (ban_key sha ip) of Inl err \<Rightarrow> (Inl err, r) | Inr r' \<Rightarrow> (Inr not_banned, r'))
          else (Inr \<lparr>bc_banned = True, bc_expiry = js_parse_int v\<rparr>, r))"

definition rb_ban ::
  "'r ban_redis \<Rightarrow> (string \<Rightarrow> string) \<Rightarrow> string \<Rightarrow> int option \<Rightarrow> millis \<Rightarrow> 'r \<Rightarrow> bool \<times> 'r" where
  "rb_ban redis sha ip ttlSeconds now r =
     (if \<not> ttl_ok ttlSeconds then (False, r)
      else case br_set redis r (ban_key sha ip) (show_int (now + the ttlSeconds * 1000)) (the ttlSeconds) of
             Inl err \<Rightarrow> (False, r) | Inr r' \<Rightarrow> (True, r'))"

definition rb_unban :: "'r ban_redis \<Rightarrow> (string \<Rightarrow> string) \<Rightarrow> string \<Rightarrow> 'r \<Rightarrow> bool \<times> 'r" where
  "rb_unban redis sha ip r = (case br_del redis r (ban_key sha ip) of Inl err \<Rightarrow> (False, r) | Inr r' \<Rightarrow> (True, r'))"

record 'r HybridBanStore =
  hb_primary :: 'r
  hb_fallback :: InMemoryBanStore
  hb_localCache :: InMemoryBanStore
  hb_usingFallback :: bool
  hb_fallbackModeCount :: nat

text \<open>The clock is read three times: for the cache, when Redis has answered, and when the answer is cached. A cached ban whose remaining time is not positive makes
  \<open>localCache.ban\<close> throw inside the \<open>try\<close>, which is handled like a failure of Redis.\<close>

definition hb_failed :: "'r HybridBanStore \<Rightarrow> 'r HybridBanStore" where
  "hb_failed h = h\<lparr>hb_usingFallback := True, hb_fallbackModeCount := hb_fallbackModeCount h + 1\<rparr>"

definition remaining_seconds :: "millis \<Rightarrow> millis \<Rightarrow> int" where
  "remaining_seconds now expiry = - ((now - expiry) div 1000)"

definition hb_isBanned ::
  "'r ban_redis \<Rightarrow> (string \<Rightarrow> string) \<Rightarrow> string \<Rightarrow> millis \<times> millis \<times> millis \<Rightarrow> 'r HybridBanStore \<Rightarrow>
   BanCheckResult \<times> 'r HybridBanStore" where
  "hb_isBanned redis sha ip clocks h0 =
     (let (now, now1, now2) = clocks;
          (cached, cache) = mb_isBanned ip now (hb_localCache h0); h = h0\<lparr>hb_localCache := cache\<rparr>
      in if bc_banned cached then (cached, h)
         else case rb_isBanned redis sha ip now1 (hb_primary h) of
                (Inl err, r) \<Rightarrow> (\<lparr>bc_banned = True, bc_expiry = None\<rparr>, hb_failed (h\<lparr>hb_primary := r\<rparr>))
              | (Inr result, r) \<Rightarrow>
                  let h1 = h\<lparr>hb_primary := r\<rparr>
                  in case bc_expiry result of
                       None \<Rightarrow> (result, h1\<lparr>hb_usingFallback := False\<rparr>)
                     | Some expiry \<Rightarrow>
                         if bc_banned result \<and> expiry \<noteq> 0
                         then (case mb_ban ip (Some (remaining_seconds now2 expiry)) now2 (hb_localCache h1) of
                                 (False, _) \<Rightarrow> (\<lparr>bc_banned = True, bc_expiry = None\<rparr>, hb_failed h1)
                               | (True, cache') \<Rightarrow> (result, h1\<lparr>hb_localCache := cache', hb_usingFallback := False\<rparr>))
                         else (result, h1\<lparr>hb_usingFallback := False\<rparr>))"

definition hb_ban ::
  "'r ban_redis \<Rightarrow> (string \<Rightarrow> string) \<Rightarrow> string \<Rightarrow> int option \<Rightarrow> millis \<Rightarrow> 'r HybridBanStore \<Rightarrow> bool \<times> 'r HybridBanStore" where
  "hb_ban redis sha ip ttlSeconds now h =
     (case mb_ban ip ttlSeconds now (hb_localCache h) of
        (False, _) \<Rightarrow> (False, h)
      | (True, cache) \<Rightarrow>
          let h1 = h\<lparr>hb_localCache := cache\<rparr>
          in case rb_ban redis sha ip ttlSeconds now (hb_primary h1) of
               (True, r) \<Rightarrow> (True, h1\<lparr>hb_primary := r, hb_usingFallback := False\<rparr>)
             | (False, r) \<Rightarrow>
                 let h2 = hb_failed (h1\<lparr>hb_primary := r\<rparr>); (ok, f) = mb_ban ip ttlSeconds now (hb_fallback h2)
                 in (ok, h2\<lparr>hb_fallback := f\<rparr>))"

definition hb_unban ::
  "'r ban_redis \<Rightarrow> (string \<Rightarrow> string) \<Rightarrow> string \<Rightarrow> 'r HybridBanStore \<Rightarrow> 'r HybridBanStore" where
  "hb_unban redis sha ip h0 =
     (let h = h0\<lparr>hb_localCache := mb_unban ip (hb_localCache h0)\<rparr>
      in case rb_unban redis sha ip (hb_primary h) of
           (True, r) \<Rightarrow> h\<lparr>hb_primary := r\<rparr>
         | (False, r) \<Rightarrow> h\<lparr>hb_primary := r, hb_fallback := mb_unban ip (hb_fallback h)\<rparr>)"

text \<open>What the limiter relies on: a ban holds until its time is over, whatever else is checked or banned meanwhile.
  \<open>holds s ip e\<close> says that \<open>ip\<close> is banned at least until \<open>e\<close>.\<close>

datatype 'c ban_op = Check string 'c | Ban string "int option" millis

locale ban_store =
  fixes check :: "string \<Rightarrow> 'c \<Rightarrow> 's \<Rightarrow> BanCheckResult \<times> 's"
    and clock :: "'c \<Rightarrow> millis"
    and ban :: "string \<Rightarrow> int option \<Rightarrow> millis \<Rightarrow> 's \<Rightarrow> bool \<times> 's"
    and holds :: "'s \<Rightarrow> string \<Rightarrow> millis \<Rightarrow> bool"
  assumes ban_holds: "ttl_ok ttl \<Longrightarrow> 0 \<le> t \<Longrightarrow> holds (snd (ban ip ttl t s)) ip (t + the ttl * 1000)"
    and ban_keeps: "holds s ip e \<Longrightarrow> ip' \<noteq> ip \<or> \<not> ttl_ok ttl \<or> e \<le> t + the ttl * 1000 \<Longrightarrow> holds (snd (ban ip' ttl t s)) ip e"
    and check_keeps: "holds s ip e \<Longrightarrow> ip' \<noteq> ip \<or> clock c < e \<Longrightarrow> holds (snd (check ip' c s)) ip e"
    and check_banned: "holds s ip e \<Longrightarrow> clock c < e \<Longrightarrow> bc_banned (fst (check ip c s))"
begin

definition ban_step :: "'s \<Rightarrow> 'c ban_op \<Rightarrow> 's" where
  "ban_step s x = (case x of Check ip c \<Rightarrow> snd (check ip c s) | Ban ip ttl t \<Rightarrow> snd (ban ip ttl t s))"

lemma ban_holds_along:
  assumes "holds s ip e"
    and "\<And>c. Check ip c \<in> set xs \<Longrightarrow> clock c < e" "\<And>ttl t. Ban ip ttl t \<in> set xs \<Longrightarrow> ttl_ok ttl \<Longrightarrow> e \<le> t + the ttl * 1000"
  shows "holds (foldl ban_step s xs) ip e"
  using assms
proof (induction xs arbitrary: s)
  case (Cons x xs)
  have "holds (ban_step s x) ip e"
  proof (cases x)
    case (Check ip' c)
    then show ?thesis using Cons.prems check_keeps by (auto simp: ban_step_def)
  next
    case (Ban ip' ttl t)
    have "ip' \<noteq> ip \<or> \<not> ttl_ok ttl \<or> e \<le> t + the ttl * 1000" using Cons.prems(3) Ban by auto
    then show ?thesis using ban_keeps [OF Cons.prems(1)] Ban by (simp add: ban_step_def)
  qed
  moreover have "\<And>c. Check ip c \<in> set xs \<Longrightarrow> clock c < e" "\<And>ttl t. Ban ip ttl t \<in> set xs \<Longrightarrow> ttl_ok ttl \<Longrightarrow> e \<le> t + the ttl * 1000"
    using Cons.prems(2,3) by simp_all
  ultimately show ?case using Cons.IH by simp
qed simp

lemma banned_until_expiry:
  assumes "ttl_ok ttl" "0 \<le> t" "clock c < t + the ttl * 1000"
    and "\<And>c. Check ip c \<in> set xs \<Longrightarrow> clock c < t + the ttl * 1000"
    and "\<And>ttl' t'. Ban ip ttl' t' \<in> set xs \<Longrightarrow> ttl_ok ttl' \<Longrightarrow> t + the ttl * 1000 \<le> t' + the ttl' * 1000"
  shows "bc_banned (fst (check ip c (foldl ban_step (snd (ban ip ttl t s)) xs)))"
  using check_banned [OF ban_holds_along [OF ban_holds [OF assms(1,2)] assms(4,5)] assms(3)] .

end

definition mb_holds :: "InMemoryBanStore \<Rightarrow> string \<Rightarrow> millis \<Rightarrow> bool" where
  "mb_holds bans ip e \<longleftrightarrow> (case map_get bans ip of None \<Rightarrow> False | Some e' \<Rightarrow> 0 < e \<and> e \<le> e')"

interpretation memory_bans: ban_store mb_isBanned "\<lambda>c. c" mb_ban mb_holds
proof
  show "mb_holds (snd (mb_ban ip ttl t s)) ip (t + the ttl * 1000)" if "ttl_ok ttl" "0 \<le> t" for ttl t ip s
    using that by (auto simp: mb_holds_def mb_ban_def ttl_ok_def split: option.splits)
  show "mb_holds (snd (mb_ban ip' ttl t s)) ip e"
    if "mb_holds s ip e" "ip' \<noteq> ip \<or> \<not> ttl_ok ttl \<or> e \<le> t + the ttl * 1000" for s ip e ip' ttl t
    using that by (auto simp: mb_holds_def mb_ban_def split: option.splits)
qed (auto simp: mb_holds_def mb_isBanned_def not_banned_def split: option.splits)

definition hb_holds :: "'r HybridBanStore \<Rightarrow> string \<Rightarrow> millis \<Rightarrow> bool" where
  "hb_holds h ip e = mb_holds (hb_localCache h) ip e"

lemma hb_cache_other:
  "ip' \<noteq> ip \<Longrightarrow> map_get (hb_localCache (snd (hb_isBanned redis sha ip' c h))) ip = map_get (hb_localCache h) ip"
  by (auto simp: hb_isBanned_def mb_isBanned_def mb_ban_def hb_failed_def Let_def split: option.splits prod.splits sum.splits if_splits)

lemma hb_ban_cache: "hb_localCache (snd (hb_ban redis sha ip ttl t h)) = snd (mb_ban ip ttl t (hb_localCache h))"
  by (auto simp: hb_ban_def mb_ban_def hb_failed_def Let_def split: prod.splits bool.splits)

lemma hb_cached_ban:
  assumes "mb_holds (hb_localCache h) ip e" "fst c < e"
  shows "bc_banned (fst (hb_isBanned redis sha ip c h))" "hb_localCache (snd (hb_isBanned redis sha ip c h)) = hb_localCache h"
  using assms by (auto simp: hb_isBanned_def mb_isBanned_def mb_holds_def Let_def split: option.splits prod.splits)

interpretation hybrid_bans: ban_store "hb_isBanned redis sha" fst "hb_ban redis sha" hb_holds
  for redis :: "'r ban_redis" and sha
proof
  fix s :: "'r HybridBanStore" and ip ip' :: string and e t :: millis and ttl :: "int option" and c :: "millis \<times> millis \<times> millis"
  show "hb_holds (snd (hb_ban redis sha ip ttl t s)) ip (t + the ttl * 1000)" if "ttl_ok ttl" "0 \<le> t"
    using memory_bans.ban_holds [OF that] by (simp add: hb_holds_def hb_ban_cache)
  show "hb_holds (snd (hb_ban redis sha ip' ttl t s)) ip e" if "hb_holds s ip e" "ip' \<noteq> ip \<or> \<not> ttl_ok ttl \<or> e \<le> t + the ttl * 1000"
    using memory_bans.ban_keeps that by (simp add: hb_holds_def hb_ban_cache)
  show "hb_holds (snd (hb_isBanned redis sha ip' c s)) ip e" if "hb_holds s ip e" "ip' \<noteq> ip \<or> fst c < e"
    using that hb_cache_other [of ip' ip redis sha c s] hb_cached_ban(2) [of s ip e c redis sha]
    by (cases "ip' = ip") (auto simp: hb_holds_def mb_holds_def)
  show "bc_banned (fst (hb_isBanned redis sha ip c s))" if "hb_holds s ip e" "fst c < e"
    using hb_cached_ban(1) that by (simp add: hb_holds_def)
qed

text \<open>A ban outlives every failure of Redis. Once the hybrid store has banned an address, every check of that address until the ban
  expires answers that it is banned, whatever Redis answers or throws and whatever other addresses are checked or banned in
  between (and the same address only for longer). And a check that Redis cannot answer is never an admission.\<close>

theorem ban_survives_outage:
  assumes "0 < ttl" "0 \<le> t" "fst c < t + ttl * 1000"
    and "\<And>c. Check ip c \<in> set xs \<Longrightarrow> fst c < t + ttl * 1000"
    and "\<And>ttl' t'. Ban ip ttl' t' \<in> set xs \<Longrightarrow> ttl_ok ttl' \<Longrightarrow> t + ttl * 1000 \<le> t' + the ttl' * 1000"
  shows "bc_banned (fst (hb_isBanned redis sha ip c
      (foldl (\<lambda>s x. case x of Check ip c \<Rightarrow> snd (hb_isBanned redis sha ip c s) | Ban ip ttl t \<Rightarrow> snd (hb_ban redis sha ip ttl t s))
        (snd (hb_ban redis sha ip (Some ttl) t h)) xs))) \<and>
    (br_get redis (hb_primary h) (ban_key sha ip) = Inl err \<longrightarrow> bc_banned (fst (hb_isBanned redis sha ip c h)))"
proof -
  have "hybrid_bans.ban_step redis sha = (\<lambda>s x. case x of Check ip c \<Rightarrow> snd (hb_isBanned redis sha ip c s) | Ban ip ttl t \<Rightarrow> snd (hb_ban redis sha ip ttl t s))"
    by (intro ext) (simp add: hybrid_bans.ban_step_def)
  then have "bc_banned (fst (hb_isBanned redis sha ip c
      (foldl (\<lambda>s x. case x of Check ip c \<Rightarrow> snd (hb_isBanned redis sha ip c s) | Ban ip ttl t \<Rightarrow> snd (hb_ban redis sha ip ttl t s))
        (snd (hb_ban redis sha ip (Some ttl) t h)) xs)))"
    using hybrid_bans.banned_until_expiry [of "Some ttl" t c ip xs redis sha h] assms by (simp add: ttl_ok_def)
  moreover have "bc_banned (fst (hb_isBanned redis sha ip c h))" if "br_get redis (hb_primary h) (ban_key sha ip) = Inl err"
    using that by (auto simp: hb_isBanned_def rb_isBanned_def Let_def split: prod.splits)
  ultimately show ?thesis by blast
qed

theorem ban_survives_outage_witness:
  "bc_banned (fst (hb_isBanned \<lparr>br_get = (\<lambda>_ _. Inr None), br_set = (\<lambda>_ _ _ _. Inl ''down''), br_del = (\<lambda>_ _. Inl ''down'')\<rparr> id ''10.0.0.1'' (59000, 59000, 59000)
      (snd (hb_isBanned \<lparr>br_get = (\<lambda>_ _. Inr None), br_set = (\<lambda>_ _ _ _. Inl ''down''), br_del = (\<lambda>_ _. Inl ''down'')\<rparr> id ''10.0.0.2'' (58000, 58000, 58000)
        (snd (hb_ban \<lparr>br_get = (\<lambda>_ _. Inr None), br_set = (\<lambda>_ _ _ _. Inl ''down''), br_del = (\<lambda>_ _. Inl ''down'')\<rparr> id ''10.0.0.1'' (Some 60) 0
          \<lparr>hb_primary = (), hb_fallback = [], hb_localCache = [], hb_usingFallback = False, hb_fallbackModeCount = 0\<rparr>))))))"
  using ban_survives_outage [of 60 0 "(59000, 59000, 59000)" "''10.0.0.1''" "[Check ''10.0.0.2'' (58000, 58000, 58000)]"
      "\<lparr>br_get = (\<lambda>_ _. Inr None), br_set = (\<lambda>_ _ _ _. Inl ''down''), br_del = (\<lambda>_ _. Inl ''down'')\<rparr>" id
      "\<lparr>hb_primary = (), hb_fallback = [], hb_localCache = [], hb_usingFallback = False, hb_fallbackModeCount = 0\<rparr>" "[]"]
  by simp

section \<open>The connection limiter\<close>

text \<open>The ban store as the limiter uses it: \<open>ban\<close> is not awaited and its failure is logged.\<close>

record ('c, 'b) ban_ops =
  bo_isBanned :: "string \<Rightarrow> 'c \<Rightarrow> 'b \<Rightarrow> BanCheckResult \<times> 'b"
  bo_ban :: "string \<Rightarrow> int option \<Rightarrow> millis \<Rightarrow> 'b \<Rightarrow> bool \<times> 'b"

definition memory_ban_ops :: "(millis, InMemoryBanStore) ban_ops" where
  "memory_ban_ops = \<lparr>bo_isBanned = mb_isBanned, bo_ban = mb_ban\<rparr>"

record 'b ws_limiter =
  wl_connectionCounts :: "(string, int) jsmap"
  wl_rejectionHistory :: "(string, millis list) jsmap"
  wl_reconnectHistory :: "(string, millis list) jsmap"
  wl_shuttingDown :: bool
  wl_activeConnections :: int
  wl_banStore :: 'b

definition new_ws_limiter :: "'b \<Rightarrow> 'b ws_limiter" where
  "new_ws_limiter b = \<lparr>wl_connectionCounts = [], wl_rejectionHistory = [], wl_reconnectHistory = [], wl_shuttingDown = False,
     wl_activeConnections = 0, wl_banStore = b\<rparr>"

definition env_number :: "env \<Rightarrow> string \<Rightarrow> string \<Rightarrow> int option" where
  "env_number env name d = js_parse_int (str_or (env name) d)"

definition num_ge :: "int \<Rightarrow> int option \<Rightarrow> bool" where
  "num_ge n m = (case m of None \<Rightarrow> False | Some k \<Rightarrow> k \<le> n)"

definition num_gt :: "int \<Rightarrow> int option \<Rightarrow> bool" where
  "num_gt n m = (case m of None \<Rightarrow> False | Some k \<Rightarrow> k < n)"

definition num_lt :: "int \<Rightarrow> int option \<Rightarrow> bool" where
  "num_lt n m = (case m of None \<Rightarrow> False | Some k \<Rightarrow> n < k)"

definition resolveConnectionKey :: "string \<Rightarrow> string option \<Rightarrow> string" where
  "resolveConnectionKey ip clientIdentity =
     (let i = js_trim (nullish clientIdentity []) in if i \<noteq> [] then ''identity:'' @ i else ''ip:'' @ ip)"

definition recordRejection ::
  "('c, 'b) ban_ops \<Rightarrow> env \<Rightarrow> string \<Rightarrow> string \<Rightarrow> millis \<Rightarrow> 'b ws_limiter \<Rightarrow> 'b ws_limiter" where
  "recordRejection ops env key ip now s =
     (let rejections = filter (\<lambda>t. now - t < 60000) (nullish (map_get (wl_rejectionHistory s) key) []) @ [now];
          s1 = s\<lparr>wl_rejectionHistory := map_set key rejections (wl_rejectionHistory s)\<rparr>
      in if num_gt (int (length rejections)) (env_number env ''WS_ABUSE_THRESHOLD'' ''5'')
         then s1\<lparr>wl_banStore := snd (bo_ban ops ip (env_number env ''WS_BAN_TTL_S'' ''3600'') now (wl_banStore s1)),
                 wl_rejectionHistory := map_delete key (wl_rejectionHistory s1)\<rparr>
         else s1)"

datatype reservation = Refused string | Reserved

text \<open>The part of \<open>checkAndReserve\<close> before its \<open>await\<close>.\<close>

definition reserve ::
  "('c, 'b) ban_ops \<Rightarrow> env \<Rightarrow> string \<Rightarrow> string option \<Rightarrow> millis \<Rightarrow> 'b ws_limiter \<Rightarrow> reservation \<times> 'b ws_limiter" where
  "reserve ops env ip clientIdentity now s =
     (if wl_shuttingDown s then (Refused ''Server shutting down'', s)
      else let maxConnections = env_number env ''WS_MAX_CONNECTIONS_PER_IP'' ''10'';
               key = resolveConnectionKey ip clientIdentity;
               attempts = filter (\<lambda>t. num_lt (now - t) (env_number env ''WS_RECONNECT_WINDOW_MS'' ''60000''))
                            (nullish (map_get (wl_reconnectHistory s) key) [])
      in if num_ge (int (length attempts)) (env_number env ''WS_RECONNECT_LIMIT'' ''20'')
         then (Refused ''Reconnect rate exceeded'',
               recordRejection ops env key ip now (s\<lparr>wl_reconnectHistory := map_set key attempts (wl_reconnectHistory s)\<rparr>))
         else let s1 = s\<lparr>wl_reconnectHistory := map_set key (attempts @ [now]) (wl_reconnectHistory s)\<rparr>;
                  currentCount = nullish (map_get (wl_connectionCounts s1) key) 0
         in if num_ge currentCount maxConnections
            then (Refused ''Too many connections'', recordRejection ops env key ip now s1)
            else (Reserved, s1\<lparr>wl_connectionCounts := map_set key (currentCount + 1) (wl_connectionCounts s1),
                               wl_activeConnections := wl_activeConnections s1 + 1\<rparr>))"

definition trackConnection :: "string \<Rightarrow> string option \<Rightarrow> 'b ws_limiter \<Rightarrow> 'b ws_limiter" where
  "trackConnection ip clientIdentity s =
     (let key = resolveConnectionKey ip clientIdentity
      in s\<lparr>wl_connectionCounts := map_set key (nullish (map_get (wl_connectionCounts s) key) 0 + 1) (wl_connectionCounts s)\<rparr>)"

definition untrackConnection :: "string \<Rightarrow> string option \<Rightarrow> 'b ws_limiter \<Rightarrow> 'b ws_limiter" where
  "untrackConnection ip clientIdentity s =
     (let key = resolveConnectionKey ip clientIdentity;
          current = nullish (map_get (wl_connectionCounts s) key) 0;
          s1 = (if current \<le> 1 then s\<lparr>wl_connectionCounts := map_delete key (wl_connectionCounts s)\<rparr>
                else s\<lparr>wl_connectionCounts := map_set key (current - 1) (wl_connectionCounts s)\<rparr>)
      in if 0 < wl_activeConnections s1 then s1\<lparr>wl_activeConnections := wl_activeConnections s1 - 1\<rparr> else s1)"

text \<open>The part after the \<open>await\<close>, with the answer of the ban store; \<open>None\<close> is a thrown error.\<close>

definition finish_check ::
  "string \<Rightarrow> string option \<Rightarrow> bool option \<Rightarrow> 'b ws_limiter \<Rightarrow> reservation \<times> 'b ws_limiter" where
  "finish_check ip clientIdentity banned s =
     (if banned = Some True then (Refused ''IP banned due to abuse'', untrackConnection ip clientIdentity s) else (Reserved, s))"

definition checkAndReserve ::
  "('c, 'b) ban_ops \<Rightarrow> env \<Rightarrow> string \<Rightarrow> string option \<Rightarrow> millis \<Rightarrow> 'c \<Rightarrow> 'b ws_limiter \<Rightarrow> reservation \<times> 'b ws_limiter" where
  "checkAndReserve ops env ip clientIdentity now c s =
     (case reserve ops env ip clientIdentity now s of
        (Refused r, s1) \<Rightarrow> (Refused r, s1)
      | (Reserved, s1) \<Rightarrow>
          let (b, bans) = bo_isBanned ops ip c (wl_banStore s1)
          in finish_check ip clientIdentity (Some (bc_banned b)) (s1\<lparr>wl_banStore := bans\<rparr>))"

definition begin_drain :: "'b ws_limiter \<Rightarrow> 'b ws_limiter" where
  "begin_drain s = s\<lparr>wl_shuttingDown := True\<rparr>"

section \<open>The cap under all interleavings\<close>

text \<open>Who holds a slot: an address with the authenticated identity, if any. \<open>pending\<close> are the reservations whose ban check is
  under way, \<open>held\<close> the connections that were admitted. Each step is one piece of code between two awaits: the first half of a
  check (refused or reserved), its second half with any answer of the ban store, the release of an admitted
  connection, and the start of a shutdown.\<close>

type_synonym holder = "string \<times> string option"

inductive ws_reach :: "('c, 'b) ban_ops \<Rightarrow> env \<Rightarrow> 'b ws_limiter \<Rightarrow> holder list \<Rightarrow> holder list \<Rightarrow> bool" for ops env where
  start: "ws_reach ops env (new_ws_limiter b) [] []"
| refused: "ws_reach ops env s p h \<Longrightarrow> reserve ops env ip i now s = (Refused r, s') \<Longrightarrow> ws_reach ops env s' p h"
| reserved: "ws_reach ops env s p h \<Longrightarrow> reserve ops env ip i now s = (Reserved, s') \<Longrightarrow> ws_reach ops env s' ((ip, i) # p) h"
| banned: "ws_reach ops env s p h \<Longrightarrow> (ip, i) \<in> set p \<Longrightarrow> finish_check ip i (Some True) (s\<lparr>wl_banStore := b\<rparr>) = (Refused r, s') \<Longrightarrow>
    ws_reach ops env s' (remove1 (ip, i) p) h"
| admitted: "ws_reach ops env s p h \<Longrightarrow> (ip, i) \<in> set p \<Longrightarrow> finish_check ip i answer (s\<lparr>wl_banStore := b\<rparr>) = (Reserved, s') \<Longrightarrow>
    ws_reach ops env s' (remove1 (ip, i) p) ((ip, i) # h)"
| released: "ws_reach ops env s p h \<Longrightarrow> (ip, i) \<in> set h \<Longrightarrow> ws_reach ops env (untrackConnection ip i s) p (remove1 (ip, i) h)"
| draining: "ws_reach ops env s p h \<Longrightarrow> ws_reach ops env (begin_drain s) p h"

definition holders :: "string \<Rightarrow> holder list \<Rightarrow> int" where
  "holders k xs = int (length (filter (\<lambda>(ip, i). resolveConnectionKey ip i = k) xs))"

abbreviation count_of :: "'b ws_limiter \<Rightarrow> string \<Rightarrow> int" where
  "count_of s k \<equiv> nullish (map_get (wl_connectionCounts s) k) 0"

definition counts_exact :: "'b ws_limiter \<Rightarrow> holder list \<Rightarrow> bool" where
  "counts_exact s xs \<longleftrightarrow> (\<forall>k. count_of s k = holders k xs) \<and> wl_activeConnections s = int (length xs)"

lemma holders_Cons: "holders k ((ip, i) # xs) = holders k xs + (if resolveConnectionKey ip i = k then 1 else 0)"
  by (simp add: holders_def)

lemma holders_append: "holders k (xs @ ys) = holders k xs + holders k ys"
  by (simp add: holders_def)

lemma holders_remove1:
  "(ip, i) \<in> set xs \<Longrightarrow> holders k (remove1 (ip, i) xs) = holders k xs - (if resolveConnectionKey ip i = k then 1 else 0)"
  by (induction xs) (auto simp: holders_def split: prod.splits)

lemma counts_exact_cong:
  "(\<And>k. holders k xs = holders k ys) \<Longrightarrow> length xs = length ys \<Longrightarrow> counts_exact s xs \<longleftrightarrow> counts_exact s ys"
  by (simp add: counts_exact_def)

lemma recordRejection_counts [simp]:
  "wl_connectionCounts (recordRejection ops env key ip now s) = wl_connectionCounts s"
  "wl_activeConnections (recordRejection ops env key ip now s) = wl_activeConnections s"
  by (simp_all add: recordRejection_def Let_def)

lemma reserve_refused_counts:
  "reserve ops env ip i now s = (Refused r, s') \<Longrightarrow>
   wl_connectionCounts s' = wl_connectionCounts s \<and> wl_activeConnections s' = wl_activeConnections s"
  by (auto simp: reserve_def Let_def split: if_splits)

lemma reserve_counts:
  assumes "reserve ops env ip i now s = (Reserved, s')"
  shows "count_of s' k = count_of s k + (if resolveConnectionKey ip i = k then 1 else 0)"
    "wl_activeConnections s' = wl_activeConnections s + 1"
    "\<not> num_ge (count_of s (resolveConnectionKey ip i)) (env_number env ''WS_MAX_CONNECTIONS_PER_IP'' ''10'')"
  using assms by (auto simp: reserve_def Let_def split: if_splits)

lemma untrack_counts:
  assumes "1 \<le> count_of s (resolveConnectionKey ip i)" "1 \<le> wl_activeConnections s"
  shows "count_of (untrackConnection ip i s) k = count_of s k - (if resolveConnectionKey ip i = k then 1 else 0)"
    "wl_activeConnections (untrackConnection ip i s) = wl_activeConnections s - 1"
  using assms by (auto simp: untrackConnection_def Let_def)

lemma holders_pos: "(ip, i) \<in> set xs \<Longrightarrow> 1 \<le> holders (resolveConnectionKey ip i) xs"
  by (induction xs) (auto simp: holders_def)

lemma int_length_remove1: "x \<in> set xs \<Longrightarrow> int (length (remove1 x xs)) = int (length xs) - 1"
  by (induction xs) auto

lemma counts_exact_untrack:
  assumes "counts_exact s xs" "(ip, i) \<in> set xs"
  shows "counts_exact (untrackConnection ip i s) (remove1 (ip, i) xs)"
proof -
  have "1 \<le> count_of s (resolveConnectionKey ip i)" "1 \<le> wl_activeConnections s"
    using assms holders_pos [OF assms(2)] by (auto simp: counts_exact_def Suc_le_eq dest: length_pos_if_in_set)
  then show ?thesis
    using int_length_remove1 [OF assms(2)] assms holders_remove1 [OF assms(2)] untrack_counts [of s ip i] by (simp add: counts_exact_def)
qed

definition within_cap :: "env \<Rightarrow> 'b ws_limiter \<Rightarrow> bool" where
  "within_cap env s \<longleftrightarrow> (case env_number env ''WS_MAX_CONNECTIONS_PER_IP'' ''10'' of
     None \<Rightarrow> True | Some m \<Rightarrow> \<forall>(k, n) \<in> set (wl_connectionCounts s). n \<le> max m 0)"

lemma within_cap_get:
  "within_cap env s \<Longrightarrow> env_number env ''WS_MAX_CONNECTIONS_PER_IP'' ''10'' = Some m \<Longrightarrow> count_of s k \<le> max m 0"
  by (cases "map_get (wl_connectionCounts s) k") (auto simp: within_cap_def dest: map_of_SomeD)

lemma within_cap_cong: "wl_connectionCounts s' = wl_connectionCounts s \<Longrightarrow> within_cap env s' = within_cap env s"
  by (simp add: within_cap_def split: option.split)

lemma within_cap_update [simp]:
  "within_cap env (s\<lparr>wl_banStore := b\<rparr>) = within_cap env s" "within_cap env (s\<lparr>wl_shuttingDown := d\<rparr>) = within_cap env s"
  by (rule within_cap_cong, simp)+

lemma set_update_subset: "set (map_set k v m) \<subseteq> insert (k, v) (set m)"
  by (induction m) auto

lemma set_delete_subset: "set (map_delete k m) \<subseteq> set m"
  by (auto simp: AList.delete_eq)

lemma within_cap_untrack: "within_cap env s \<Longrightarrow> within_cap env (untrackConnection ip i s)"
proof -
  assume w: "within_cap env s"
  let ?k = "resolveConnectionKey ip i" and ?c = "wl_connectionCounts (untrackConnection ip i s)"
  have sub: "set ?c \<subseteq> insert (?k, count_of s ?k - 1) (set (wl_connectionCounts s))"
    by (auto simp: untrackConnection_def Let_def dest!: subsetD [OF set_update_subset] subsetD [OF set_delete_subset])
  show ?thesis
  proof (cases "env_number env ''WS_MAX_CONNECTIONS_PER_IP'' ''10''")
    case (Some m)
    then show ?thesis using w sub within_cap_get [OF w Some, of ?k] by (auto simp: within_cap_def)
  qed (simp add: within_cap_def)
qed

lemma within_cap_reserve:
  assumes "within_cap env s" "reserve ops env ip i now s = (Reserved, s')"
  shows "within_cap env s'"
proof -
  let ?k = "resolveConnectionKey ip i"
  have "set (wl_connectionCounts s') \<subseteq> insert (?k, count_of s ?k + 1) (set (wl_connectionCounts s))"
    using assms(2) by (auto simp: reserve_def Let_def split: if_splits dest!: subsetD [OF set_update_subset])
  then show ?thesis using assms reserve_counts(3) [OF assms(2)] by (auto simp: within_cap_def num_ge_def split: option.splits)
qed

lemma ws_reach_inv: "ws_reach ops env s p h \<Longrightarrow> counts_exact s (p @ h) \<and> within_cap env s"
proof (induction rule: ws_reach.induct)
  case (start b)
  then show ?case by (simp add: counts_exact_def new_ws_limiter_def holders_def within_cap_def split: option.split)
next
  case (refused s p h ip i now r s')
  then show ?case using reserve_refused_counts [OF refused(2)] within_cap_cong [of s' s] by (simp add: counts_exact_def)
next
  case (reserved s p h ip i now s')
  then show ?case using reserve_counts(1,2) [OF reserved(2)] within_cap_reserve by (auto simp: counts_exact_def holders_Cons)
next
  case (banned s p h ip i b r s')
  have "s' = untrackConnection ip i (s\<lparr>wl_banStore := b\<rparr>)" using banned(3) by (simp add: finish_check_def)
  moreover have "counts_exact (s\<lparr>wl_banStore := b\<rparr>) (p @ h)" "within_cap env (s\<lparr>wl_banStore := b\<rparr>)"
    using banned.IH by (simp_all add: counts_exact_def)
  ultimately show ?case
    using counts_exact_untrack [of "s\<lparr>wl_banStore := b\<rparr>" "p @ h" ip i] within_cap_untrack [of env "s\<lparr>wl_banStore := b\<rparr>"] banned(2)
    by (simp add: remove1_append)
next
  case (admitted s p h ip i answer b s')
  have s': "s' = s\<lparr>wl_banStore := b\<rparr>" using admitted(3) by (simp add: finish_check_def split: if_splits)
  have "counts_exact s (remove1 (ip, i) p @ (ip, i) # h)"
    using admitted.IH holders_remove1 [OF admitted(2)] int_length_remove1 [OF admitted(2)]
    by (simp add: counts_exact_def holders_append holders_Cons)
  then show ?case using admitted.IH by (simp add: s' counts_exact_def)
next
  case (released s p h ip i)
  have "counts_exact s (h @ p)" using released.IH by (simp add: counts_exact_def holders_append add.commute)
  then have "counts_exact (untrackConnection ip i s) (remove1 (ip, i) h @ p)"
    using counts_exact_untrack [of s "h @ p" ip i] released(2) by (simp add: remove1_append)
  then show ?case using released.IH within_cap_untrack by (auto simp: counts_exact_def holders_append add.commute)
next
  case (draining s p h)
  then show ?case by (simp add: begin_drain_def counts_exact_def)
qed



section \<open>Abuse leads to a ban\<close>

datatype ws_op = Attempt string "string option" millis | Release string "string option"

definition ws_step :: "env \<Rightarrow> InMemoryBanStore ws_limiter \<Rightarrow> ws_op \<Rightarrow> InMemoryBanStore ws_limiter" where
  "ws_step env s x =
     (case x of
        Attempt ip i t \<Rightarrow> snd (checkAndReserve memory_ban_ops env ip i t t s)
      | Release ip i \<Rightarrow> untrackConnection ip i s)"

lemma untrack_bans [simp]: "wl_banStore (untrackConnection ip i s) = wl_banStore s"
  by (simp add: untrackConnection_def Let_def)

lemma finish_bans [simp]: "wl_banStore (snd (finish_check ip i b s)) = wl_banStore s"
  by (simp add: finish_check_def)

lemma recordRejection_holds:
  assumes "mb_holds (wl_banStore s) ip e" "env_number env ''WS_BAN_TTL_S'' ''3600'' = Some ttl" "e \<le> now + ttl * 1000"
  shows "mb_holds (wl_banStore (recordRejection memory_ban_ops env key ip' now s)) ip e"
  using assms memory_bans.ban_keeps [OF assms(1), of ip' "Some ttl" now]
  by (simp add: recordRejection_def Let_def memory_ban_ops_def)

lemma reserve_holds:
  assumes "mb_holds (wl_banStore s) ip e" "env_number env ''WS_BAN_TTL_S'' ''3600'' = Some ttl" "e \<le> now + ttl * 1000"
  shows "mb_holds (wl_banStore (snd (reserve memory_ban_ops env ip' i now s))) ip e"
  using assms recordRejection_holds [OF _ assms(2,3)] by (simp add: reserve_def Let_def)

lemma check_holds:
  assumes "mb_holds (wl_banStore s) ip e" "env_number env ''WS_BAN_TTL_S'' ''3600'' = Some ttl" "e \<le> now + ttl * 1000" "now < e"
  shows "mb_holds (wl_banStore (snd (checkAndReserve memory_ban_ops env ip' i now now s))) ip e"
    and "\<exists>r. fst (checkAndReserve memory_ban_ops env ip i now now s) = Refused r"
proof -
  show "mb_holds (wl_banStore (snd (checkAndReserve memory_ban_ops env ip' i now now s))) ip e"
    using reserve_holds [OF assms(1-3), of ip' i] memory_bans.check_keeps [OF _ disjI2 [OF assms(4)]]
    by (auto simp: checkAndReserve_def memory_ban_ops_def split: prod.splits reservation.splits) (metis snd_conv)+
  have "mb_holds (wl_banStore (snd (reserve memory_ban_ops env ip i now s))) ip e" using reserve_holds [OF assms(1-3)] .
  then show "\<exists>r. fst (checkAndReserve memory_ban_ops env ip i now now s) = Refused r"
    using memory_bans.check_banned [OF _ assms(4)]
    by (auto simp: checkAndReserve_def memory_ban_ops_def finish_check_def split: prod.splits reservation.splits) (metis fst_conv)+
qed

lemma ban_holds_run:
  assumes "mb_holds (wl_banStore s) ip e" "env_number env ''WS_BAN_TTL_S'' ''3600'' = Some ttl"
    and "\<And>ip' i t'. Attempt ip' i t' \<in> set xs \<Longrightarrow> e \<le> t' + ttl * 1000 \<and> t' < e"
  shows "mb_holds (wl_banStore (foldl (ws_step env) s xs)) ip e"
  using assms
proof (induction xs arbitrary: s)
  case (Cons x xs)
  have "mb_holds (wl_banStore (ws_step env s x)) ip e"
  proof (cases x)
    case (Attempt ip' i t')
    then have "e \<le> t' + ttl * 1000" "t' < e" using Cons.prems(3) by auto
    then show ?thesis using check_holds(1) [OF Cons.prems(1,2)] Attempt by (simp add: ws_step_def)
  qed (simp add: ws_step_def Cons.prems(1))
  then have "mb_holds (wl_banStore (foldl (ws_step env) (ws_step env s x) xs)) ip e"
    by (rule Cons.IH [OF _ Cons.prems(2)]) (use Cons.prems(3) in auto)
  then show ?case by simp
qed simp

text \<open>An abuser is locked out. When a refused attempt brings the refusals of a client within the last minute above the threshold,
  every further attempt from that address is refused until the ban expires, under whatever identity it is made and whatever
  other attempts and releases happen in between.\<close>

theorem abuser_is_banned:
  assumes "env_number env ''WS_ABUSE_THRESHOLD'' ''5'' = Some n" "env_number env ''WS_BAN_TTL_S'' ''3600'' = Some ttl" "0 < ttl" "0 \<le> t"
    and "n \<le> int (length (filter (\<lambda>u. t - u < 60000) (nullish (map_get (wl_rejectionHistory s) (resolveConnectionKey ip i)) [])))"
    and "\<not> wl_shuttingDown s" "reserve memory_ban_ops env ip i t s = (Refused r, s')"
    and "\<And>ip' i' t'. Attempt ip' i' t' \<in> set xs \<Longrightarrow> t \<le> t' \<and> t' < t + ttl * 1000"
    and "t \<le> now" "now < t + ttl * 1000"
  shows "\<exists>r. fst (checkAndReserve memory_ban_ops env ip i' now now (foldl (ws_step env) s' xs)) = Refused r"
proof -
  let ?key = "resolveConnectionKey ip i"
  obtain s0 where s0: "s' = recordRejection memory_ban_ops env ?key ip t s0" "wl_rejectionHistory s0 = wl_rejectionHistory s"
    using assms(6,7) by (auto simp: reserve_def Let_def split: if_splits)
  have "mb_holds (wl_banStore s') ip (t + ttl * 1000)"
    using memory_bans.ban_holds [of "Some ttl" t ip "wl_banStore s0"] assms(1-5)
    by (simp add: s0 recordRejection_def Let_def num_gt_def memory_ban_ops_def ttl_ok_def)
  then have "mb_holds (wl_banStore (foldl (ws_step env) s' xs)) ip (t + ttl * 1000)"
    by (rule ban_holds_run [OF _ assms(2)]) (use assms(8) in auto)
  then show ?thesis using check_holds(2) [OF _ assms(2)] assms(9,10) by simp
qed

theorem abuser_is_banned_witness:
  "\<exists>r. fst (checkAndReserve memory_ban_ops ((\<lambda>_. None)(''WS_MAX_CONNECTIONS_PER_IP'' := Some ''0'', ''WS_ABUSE_THRESHOLD'' := Some ''0''))
      ''10.0.0.1'' (Some ''alice'') 2000 2000
      (snd (reserve memory_ban_ops ((\<lambda>_. None)(''WS_MAX_CONNECTIONS_PER_IP'' := Some ''0'', ''WS_ABUSE_THRESHOLD'' := Some ''0''))
        ''10.0.0.1'' None 1000 (new_ws_limiter [])))) = Refused r"
proof -
  let ?env = "(\<lambda>_. None)(''WS_MAX_CONNECTIONS_PER_IP'' := Some ''0'', ''WS_ABUSE_THRESHOLD'' := Some ''0'') :: env"
  have e: "env_number ?env ''WS_ABUSE_THRESHOLD'' ''5'' = Some 0" "env_number ?env ''WS_BAN_TTL_S'' ''3600'' = Some 3600" by code_simp+
  have r: "fst (reserve memory_ban_ops ?env ''10.0.0.1'' None 1000 (new_ws_limiter [])) = Refused ''Too many connections''" by code_simp
  show ?thesis
    using abuser_is_banned [OF e, of 1000 "new_ws_limiter []" "''10.0.0.1''" None "''Too many connections''"
        "snd (reserve memory_ban_ops ?env ''10.0.0.1'' None 1000 (new_ws_limiter []))" "[]" 2000 "Some ''alice''"] r
    by (simp add: prod_eq_iff new_ws_limiter_def)
qed

section \<open>The upgrade path\<close>

text \<open>\<open>verifyWsToken\<close> gives the code of a failure or the subject of the token.\<close>

type_synonym ws_auth = "string + string option"

definition client_identity :: "ws_auth \<Rightarrow> string option" where
  "client_identity auth =
     (case auth of
        Inl code \<Rightarrow> None
      | Inr sub \<Rightarrow> (let t = js_trim (nullish sub []) in if t = [] then None else Some t))"

datatype upgrade_gate =
    Not_ours
  | Refuse_upgrade string string
  | Check_limits string "string option"

definition upgrade_request ::
  "string list option \<Rightarrow> bool \<Rightarrow> string \<Rightarrow> string option \<Rightarrow> string \<Rightarrow> ws_auth \<Rightarrow> upgrade_gate" where
  "upgrade_request allowedOrigins wsAuthRequired pathname origin ip auth =
     (if pathname \<noteq> ''/ws/streams'' then Not_ours
      else if (case allowedOrigins of None \<Rightarrow> False | Some os \<Rightarrow> (case origin of None \<Rightarrow> True | Some x \<Rightarrow> x \<notin> set os))
      then Refuse_upgrade ''403 Forbidden'' ''Forbidden origin''
      else case auth of
             Inl code \<Rightarrow>
               if wsAuthRequired then Refuse_upgrade ''401 Unauthorized'' (''Unauthorized: '' @ code) else Check_limits ip None
           | Inr _ \<Rightarrow> Check_limits ip (client_identity auth))"

text \<open>On disconnect the slot is released under the subject read again when the connection was registered.\<close>

definition release_on_disconnect :: "string \<Rightarrow> ws_auth \<Rightarrow> 'b ws_limiter \<Rightarrow> 'b ws_limiter" where
  "release_on_disconnect ip authAtConnect s = untrackConnection ip (client_identity authAtConnect) s"

lemma identity_key: "js_trim u \<noteq> [] \<Longrightarrow> resolveConnectionKey ip (Some u) = ''identity:'' @ js_trim u"
  by (simp add: resolveConnectionKey_def)

text \<open>A slot is tied to what the token said. If the token is no longer accepted when the connection is registered, the release goes to the
  address: the slot of the identity is never given back.\<close>

lemma slot_lost_when_token_expires:
  assumes "reserve ops env ip (Some u) now s = (Reserved, s1)" "js_trim u \<noteq> []"
  shows "count_of (release_on_disconnect ip (Inl code) s1) (''identity:'' @ js_trim u) = count_of s (''identity:'' @ js_trim u) + 1"
proof -
  have "resolveConnectionKey ip None \<noteq> ''identity:'' @ js_trim u"
    by (simp add: resolveConnectionKey_def js_trim_def)
  then have "count_of (untrackConnection ip None s1) (''identity:'' @ js_trim u) = count_of s1 (''identity:'' @ js_trim u)"
    by (auto simp: untrackConnection_def Let_def)
  then show ?thesis using reserve_counts(1) [OF assms(1)] identity_key [OF assms(2)]
    by (simp add: release_on_disconnect_def client_identity_def)
qed

end
