(* ===== verification/Ws_Registry.thy ===== *)
theory Ws_Registry
  imports Stellar_Address
begin

text \<open>
  Connections and subscriptions of the WebSocket hub: the registry \<open>src/ws/connectionRegistry.ts\<close>, the authorisation and
  routing of \<open>src/ws/subscriptionRouter.ts\<close>, the normalisation of client messages in \<open>src/ws/messageHandler.ts\<close>
  and the dispatch of \<open>src/ws/hub.ts\<close>.

  A socket is a number, a \<open>Set\<close> of sockets a list without repetitions in insertion order. The table of streams is an argument that
  answers or throws. \<open>authorize\<close> awaits it, so a message is handled in two pieces: the request and, later, its effect; the
  steps of \<open>hub_reach\<close> interleave them freely with other messages and disconnections. Zod schemas are library
  code; what they let through is the input of \<open>normalizeSubscriptionFilter\<close>.

  The lemmas: the indexes hold exactly what the connections subscribed to; an update reaches exactly the subscribers, each once;
  and only clients that were authorised for it.
\<close>

section \<open>Filters\<close>

record SubscriptionFilter =
  sf_streamId :: "string option"
  sf_recipientAddress :: "string option"
  sf_batchingEnabled :: "bool option"

definition empty_filter :: SubscriptionFilter where
  "empty_filter = \<lparr>sf_streamId = None, sf_recipientAddress = None, sf_batchingEnabled = None\<rparr>"

definition subscriptionKey :: "SubscriptionFilter \<Rightarrow> string" where
  "subscriptionKey f =
     (case sf_streamId f of
        Some i \<Rightarrow> ''stream:'' @ i
      | None \<Rightarrow> (case sf_recipientAddress f of Some a \<Rightarrow> ''recipient:'' @ a | None \<Rightarrow> ''recipient:''))"

text \<open>The fields a \<open>subscribe\<close> or \<open>unsubscribe\<close> message may carry, with their aliases.\<close>

record filter_fields =
  ff_stream_id :: "string option"
  ff_streamId :: "string option"
  ff_recipient_address :: "string option"
  ff_recipientAddress :: "string option"
  ff_batching :: "bool option"

record subscription_message =
  sm_fields :: filter_fields
  sm_filter :: "filter_fields option"

definition firstConsistentValue :: "string option list \<Rightarrow> string \<Rightarrow> string + string option" where
  "firstConsistentValue values field =
     (case concat (map (\<lambda>v. case v of None \<Rightarrow> [] | Some x \<Rightarrow> [x]) values) of
        [] \<Rightarrow> Inr None
      | v # vs \<Rightarrow>
          if list_ex (\<lambda>x. x \<noteq> v) (v # vs) then Inl (field @ '' aliases must not contain conflicting values'') else Inr (Some v))"

definition normalizeSubscriptionFilter :: "subscription_message \<Rightarrow> string + SubscriptionFilter" where
  "normalizeSubscriptionFilter m =
     (let fs = sm_fields m; nested = (\<lambda>sel. Option.bind (sm_filter m) sel)
      in case firstConsistentValue [ff_stream_id fs, ff_streamId fs, nested ff_stream_id, nested ff_streamId] ''stream_id'' of
           Inl e \<Rightarrow> Inl e
         | Inr streamId \<Rightarrow>
             (case firstConsistentValue [ff_recipient_address fs, ff_recipientAddress fs, nested ff_recipient_address,
                     nested ff_recipientAddress] ''recipient_address'' of
                Inl e \<Rightarrow> Inl e
              | Inr recipientAddress \<Rightarrow>
                  let batchingEnabled = (case ff_batching fs of Some b \<Rightarrow> Some b | None \<Rightarrow> Option.bind (sm_filter m) ff_batching)
                  in if streamId \<noteq> None \<and> recipientAddress \<noteq> None
                     then Inl ''subscription filter accepts either stream_id or recipient_address, not both''
                     else if streamId \<noteq> None
                     then Inr \<lparr>sf_streamId = streamId, sf_recipientAddress = None, sf_batchingEnabled = batchingEnabled\<rparr>
                     else if recipientAddress \<noteq> None
                     then Inr \<lparr>sf_streamId = None, sf_recipientAddress = recipientAddress, sf_batchingEnabled = batchingEnabled\<rparr>
                     else if sm_filter m \<noteq> None then Inr empty_filter
                     else Inl ''subscribe and unsubscribe messages require stream_id, recipient_address, or an explicit empty filter''))"

definition MAX_FILTER_FIELD_LENGTH :: nat where "MAX_FILTER_FIELD_LENGTH = 256"

text \<open>The code and the message of a rejection.\<close>

type_synonym rejection = "string \<times> string"

definition check_field :: "string \<Rightarrow> string option \<Rightarrow> rejection option" where
  "check_field name v =
     (case v of
        None \<Rightarrow> None
      | Some x \<Rightarrow>
          if js_trim x = [] then Some (''INVALID_FILTER'', name @ '' must be a non-empty string'')
          else if MAX_FILTER_FIELD_LENGTH < length x then Some (''OVERSIZED_INPUT'', name @ '' is too long'')
          else None)"

definition validateSubscriptionFilter :: "SubscriptionFilter \<Rightarrow> rejection option" where
  "validateSubscriptionFilter f =
     (if sf_streamId f = None \<and> sf_recipientAddress f = None
      then Some (''EMPTY_INPUT'', ''Subscription filter must not be empty'')
      else case check_field ''streamId'' (sf_streamId f) of
             Some e \<Rightarrow> Some e
           | None \<Rightarrow> check_field ''recipientAddress'' (sf_recipientAddress f))"

section \<open>The registry\<close>

type_synonym socket = nat

record ClientState =
  cl_id :: string
  cl_ip :: string
  cl_authenticatedSubject :: "string option"
  cl_subscriptionFilters :: "(string, SubscriptionFilter) jsmap"
  cl_messageTimestamps :: "millis list"
  cl_missedPongs :: nat

definition createClientState :: "string \<Rightarrow> string \<Rightarrow> string option \<Rightarrow> ClientState" where
  "createClientState i ip subject =
     \<lparr>cl_id = i, cl_ip = ip, cl_authenticatedSubject = subject, cl_subscriptionFilters = [], cl_messageTimestamps = [],
      cl_missedPongs = 0\<rparr>"

record ConnectionRegistry =
  cr_clients :: "(socket, ClientState) jsmap"
  cr_streamSubscriptions :: "(string, socket list) jsmap"
  cr_recipientSubscriptions :: "(string, socket list) jsmap"

definition new_registry :: ConnectionRegistry where
  "new_registry = \<lparr>cr_clients = [], cr_streamSubscriptions = [], cr_recipientSubscriptions = []\<rparr>"

definition register :: "socket \<Rightarrow> ClientState \<Rightarrow> ConnectionRegistry \<Rightarrow> ConnectionRegistry" where
  "register ws c r = r\<lparr>cr_clients := map_set ws c (cr_clients r)\<rparr>"

definition unregister :: "socket \<Rightarrow> ConnectionRegistry \<Rightarrow> ConnectionRegistry" where
  "unregister ws r = r\<lparr>cr_clients := map_delete ws (cr_clients r)\<rparr>"

definition RATE_LIMIT_MAX :: nat where "RATE_LIMIT_MAX = 30"
definition RATE_LIMIT_WINDOW_MS :: int where "RATE_LIMIT_WINDOW_MS = 10000"

definition checkRateLimit :: "socket \<Rightarrow> millis \<Rightarrow> ConnectionRegistry \<Rightarrow> bool \<times> ConnectionRegistry" where
  "checkRateLimit ws now r =
     (case map_get (cr_clients r) ws of
        None \<Rightarrow> (False, r)
      | Some c \<Rightarrow>
          let ts = filter (\<lambda>t. now - RATE_LIMIT_WINDOW_MS \<le> t) (cl_messageTimestamps c)
          in if RATE_LIMIT_MAX \<le> length ts
             then (False, r\<lparr>cr_clients := map_set ws (c\<lparr>cl_messageTimestamps := ts\<rparr>) (cr_clients r)\<rparr>)
             else (True, r\<lparr>cr_clients := map_set ws (c\<lparr>cl_messageTimestamps := ts @ [now]\<rparr>) (cr_clients r)\<rparr>))"

definition index_add :: "string \<Rightarrow> socket \<Rightarrow> (string, socket list) jsmap \<Rightarrow> (string, socket list) jsmap" where
  "index_add k ws m = (let xs = nullish (map_get m k) [] in map_set k (if ws \<in> set xs then xs else xs @ [ws]) m)"

definition index_remove :: "string \<Rightarrow> socket \<Rightarrow> (string, socket list) jsmap \<Rightarrow> (string, socket list) jsmap" where
  "index_remove k ws m =
     (case map_get m k of
        None \<Rightarrow> m
      | Some xs \<Rightarrow> let ys = filter (\<lambda>x. x \<noteq> ws) xs in if ys = [] then map_delete k m else map_set k ys m)"

definition set_filters :: "socket \<Rightarrow> (string, SubscriptionFilter) jsmap \<Rightarrow> ConnectionRegistry \<Rightarrow> ConnectionRegistry" where
  "set_filters ws fs r =
     (case map_get (cr_clients r) ws of
        None \<Rightarrow> r | Some c \<Rightarrow> r\<lparr>cr_clients := map_set ws (c\<lparr>cl_subscriptionFilters := fs\<rparr>) (cr_clients r)\<rparr>)"

definition addSubscription :: "socket \<Rightarrow> SubscriptionFilter \<Rightarrow> ConnectionRegistry \<Rightarrow> bool \<times> ConnectionRegistry" where
  "addSubscription ws f r =
     (case map_get (cr_clients r) ws of
        None \<Rightarrow> (False, r)
      | Some c \<Rightarrow>
          if map_get (cl_subscriptionFilters c) (subscriptionKey f) \<noteq> None then (False, r)
          else let r1 = set_filters ws (map_set (subscriptionKey f) f (cl_subscriptionFilters c)) r
               in case sf_streamId f of
                    Some i \<Rightarrow> (True, r1\<lparr>cr_streamSubscriptions := index_add i ws (cr_streamSubscriptions r1)\<rparr>)
                  | None \<Rightarrow>
                      (case sf_recipientAddress f of
                         Some a \<Rightarrow> (True, r1\<lparr>cr_recipientSubscriptions := index_add a ws (cr_recipientSubscriptions r1)\<rparr>)
                       | None \<Rightarrow> (True, r1)))"

definition removeSubscription :: "socket \<Rightarrow> SubscriptionFilter \<Rightarrow> ConnectionRegistry \<Rightarrow> ConnectionRegistry" where
  "removeSubscription ws f r =
     (case map_get (cr_clients r) ws of
        None \<Rightarrow> r
      | Some c \<Rightarrow>
          let r1 = set_filters ws (map_delete (subscriptionKey f) (cl_subscriptionFilters c)) r
          in case sf_streamId f of
               Some i \<Rightarrow> r1\<lparr>cr_streamSubscriptions := index_remove i ws (cr_streamSubscriptions r1)\<rparr>
             | None \<Rightarrow>
                 (case sf_recipientAddress f of
                    Some a \<Rightarrow> r1\<lparr>cr_recipientSubscriptions := index_remove a ws (cr_recipientSubscriptions r1)\<rparr>
                  | None \<Rightarrow> r1))"

definition removeAllSubscriptions :: "socket \<Rightarrow> ConnectionRegistry \<Rightarrow> ConnectionRegistry" where
  "removeAllSubscriptions ws r =
     (case map_get (cr_clients r) ws of
        None \<Rightarrow> r | Some c \<Rightarrow> foldl (\<lambda>r f. removeSubscription ws f r) r (map_values (cl_subscriptionFilters c)))"

definition streamSubscribers :: "string \<Rightarrow> ConnectionRegistry \<Rightarrow> socket list" where
  "streamSubscribers i r = nullish (map_get (cr_streamSubscriptions r) i) []"

definition recipientSubscribers :: "string \<Rightarrow> ConnectionRegistry \<Rightarrow> socket list" where
  "recipientSubscribers a r = nullish (map_get (cr_recipientSubscriptions r) a) []"

definition takeStreamSubscribers :: "string \<Rightarrow> ConnectionRegistry \<Rightarrow> socket list \<times> ConnectionRegistry" where
  "takeStreamSubscribers i r =
     (if streamSubscribers i r = [] then ([], r)
      else (streamSubscribers i r, r\<lparr>cr_streamSubscriptions := map_delete i (cr_streamSubscriptions r)\<rparr>))"

section \<open>Authorisation and routing\<close>

datatype authorization =
    Authorized SubscriptionFilter
  | Denied string string
  | Lookup_failed string

definition isValidStellarPublicKey :: "string \<Rightarrow> bool" where
  "isValidStellarPublicKey s = isValidStellarAccountAddress (JString (js_trim s))"

definition authenticatedRecipientSubject :: "ClientState \<Rightarrow> string option" where
  "authenticatedRecipientSubject c =
     (case cl_authenticatedSubject c of None \<Rightarrow> None | Some s \<Rightarrow> if isValidStellarPublicKey s then Some s else None)"

text \<open>\<open>db\<close> is \<open>streamRepository.getById\<close>: it throws, finds nothing, or gives the sender and the recipient of the stream.\<close>

type_synonym stream_table = "string \<Rightarrow> string + (string \<times> string) option"

definition authorize :: "stream_table \<Rightarrow> socket \<Rightarrow> SubscriptionFilter \<Rightarrow> ConnectionRegistry \<Rightarrow> authorization" where
  "authorize db ws f r =
     (case validateSubscriptionFilter f of
        Some (code, msg) \<Rightarrow> Denied code msg
      | None \<Rightarrow>
          (case map_get (cr_clients r) ws of
             None \<Rightarrow> Denied ''UNAUTHORIZED'' ''WebSocket client is not registered''
           | Some c \<Rightarrow>
               (case sf_streamId f of
                  Some i \<Rightarrow>
                    (case db i of
                       Inl err \<Rightarrow> Lookup_failed err
                     | Inr None \<Rightarrow> Denied ''NOT_FOUND'' ''Stream not found''
                     | Inr (Some (sender, recipient)) \<Rightarrow>
                         if cl_authenticatedSubject c = None \<or> cl_authenticatedSubject c = Some [] \<or>
                            (Some sender \<noteq> cl_authenticatedSubject c \<and> Some recipient \<noteq> cl_authenticatedSubject c)
                         then Denied ''FORBIDDEN'' ''Not authorized for this stream''
                         else Authorized f)
                | None \<Rightarrow>
                    (case (sf_recipientAddress f, authenticatedRecipientSubject c) of
                       (Some a, None) \<Rightarrow>
                         Denied ''UNAUTHORIZED'' ''recipient_address subscriptions require an authenticated Stellar public key subject''
                     | (Some a, Some s) \<Rightarrow>
                         if a \<noteq> s
                         then Denied ''FORBIDDEN'' ''recipient_address subscriptions must match the authenticated subject''
                         else Authorized f
                     | (None, None) \<Rightarrow>
                         Denied ''UNAUTHORIZED'' ''empty subscription filters require an authenticated Stellar public key subject''
                     | (None, Some s) \<Rightarrow> Authorized (empty_filter\<lparr>sf_recipientAddress := Some s\<rparr>)))))"

text \<open>\<open>subscribe\<close> returns the error frame it sends, if any.\<close>

definition subscribe ::
  "nat \<Rightarrow> socket \<Rightarrow> SubscriptionFilter \<Rightarrow> ConnectionRegistry \<Rightarrow> rejection option \<times> ConnectionRegistry" where
  "subscribe maxSubscriptions ws f r =
     (case map_get (cr_clients r) ws of
        None \<Rightarrow> (None, r)
      | Some c \<Rightarrow>
          (case validateSubscriptionFilter f of
             Some e \<Rightarrow> (Some e, r)
           | None \<Rightarrow>
               if map_get (cl_subscriptionFilters c) (subscriptionKey f) \<noteq> None then (None, r)
               else if maxSubscriptions \<le> length (cl_subscriptionFilters c)
               then (Some (''SUBSCRIPTION_LIMIT_EXCEEDED'',
                       ''Connection is limited to '' @ show_nat maxSubscriptions @ '' subscriptions''), r)
               else (None, snd (addSubscription ws f r))))"

definition unsubscribe :: "socket \<Rightarrow> SubscriptionFilter \<Rightarrow> ConnectionRegistry \<Rightarrow> ConnectionRegistry" where
  "unsubscribe ws f r =
     (case map_get (cr_clients r) ws of
        None \<Rightarrow> r
      | Some c \<Rightarrow>
          if map_get (cl_subscriptionFilters c) (subscriptionKey f) = None then r else removeSubscription ws f r)"

record StreamUpdateEvent =
  su_streamId :: string
  su_eventId :: string
  su_payload :: jsval
  su_recipientAddress :: "string option"

definition js_nullish :: "jsval \<Rightarrow> jsval \<Rightarrow> jsval" where
  "js_nullish a b = (if a = JUndefined \<or> a = JNull then b else a)"

definition extractRecipientAddress :: "StreamUpdateEvent \<Rightarrow> string option" where
  "extractRecipientAddress e =
     (if su_recipientAddress e \<noteq> None \<and> js_trim (the (su_recipientAddress e)) \<noteq> []
      then Some (js_trim (the (su_recipientAddress e)))
      else case su_payload e of
             JObject _ \<Rightarrow>
               (case js_nullish (js_get (su_payload e) ''recipient_address'')
                       (js_nullish (js_get (su_payload e) ''recipientAddress'') (js_get (su_payload e) ''recipient'')) of
                  JString s \<Rightarrow> if js_trim s \<noteq> [] then Some (js_trim s) else None
                | _ \<Rightarrow> None)
           | _ \<Rightarrow> None)"

definition matchingSubscribers :: "StreamUpdateEvent \<Rightarrow> ConnectionRegistry \<Rightarrow> socket list" where
  "matchingSubscribers e r =
     (let targets = streamSubscribers (su_streamId e) r
      in case extractRecipientAddress e of
           None \<Rightarrow> targets
         | Some a \<Rightarrow> targets @ filter (\<lambda>ws. ws \<notin> set targets) (recipientSubscribers a r))"

definition wantsBatching :: "ClientState \<Rightarrow> bool" where
  "wantsBatching c = list_ex (\<lambda>f. sf_batchingEnabled f = Some True) (map_values (cl_subscriptionFilters c))"

definition resolveTargets :: "StreamUpdateEvent \<Rightarrow> ConnectionRegistry \<Rightarrow> socket list \<times> socket list" where
  "resolveTargets e r =
     (let known = filter (\<lambda>ws. map_get (cr_clients r) ws \<noteq> None) (matchingSubscribers e r);
          batching = (\<lambda>ws. wantsBatching (the (map_get (cr_clients r) ws)))
      in (filter batching known, filter (\<lambda>ws. \<not> batching ws) known))"

text \<open>Disconnecting releases the subscriptions and forgets the connection.\<close>

definition disconnect :: "socket \<Rightarrow> ConnectionRegistry \<Rightarrow> ConnectionRegistry" where
  "disconnect ws r = (if map_get (cr_clients r) ws = None then r else unregister ws (removeAllSubscriptions ws r))"

section \<open>The hub as a transition system\<close>

text \<open>\<open>hs_pending\<close> are the authorised messages whose effect is still to come (\<open>True\<close> for \<open>subscribe\<close>). The other fields are for the
  statements only: \<open>hs_log\<close> remembers each authorisation for a stream with the row that was read, \<open>hs_closing\<close> the sockets
  that an administrator is disconnecting, \<open>hs_used\<close> the sockets that were ever connected.\<close>

record hub =
  hs_registry :: ConnectionRegistry
  hs_pending :: "(socket \<times> bool \<times> SubscriptionFilter) list"
  hs_log :: "(socket \<times> string \<times> string \<times> string) set"
  hs_closing :: "socket set"
  hs_used :: "socket set"

definition new_hub :: hub where
  "new_hub = \<lparr>hs_registry = new_registry, hs_pending = [], hs_log = {}, hs_closing = {}, hs_used = {}\<rparr>"

definition log_entry :: "stream_table \<Rightarrow> socket \<Rightarrow> SubscriptionFilter \<Rightarrow> (socket \<times> string \<times> string \<times> string) set" where
  "log_entry db ws f =
     (case sf_streamId f of
        None \<Rightarrow> {}
      | Some i \<Rightarrow> (case db i of Inr (Some (a, b)) \<Rightarrow> {(ws, i, a, b)} | _ \<Rightarrow> {}))"

inductive hub_reach :: "nat \<Rightarrow> hub \<Rightarrow> bool" for maxSubscriptions where
  start: "hub_reach maxSubscriptions new_hub"
| connect: "hub_reach maxSubscriptions h \<Longrightarrow> ws \<notin> hs_used h \<Longrightarrow>
    hub_reach maxSubscriptions (h\<lparr>hs_registry := register ws (createClientState i ip subject) (hs_registry h), hs_used := insert ws (hs_used h)\<rparr>)"
| message: "hub_reach maxSubscriptions h \<Longrightarrow> authorize db ws f (hs_registry h) = Authorized f' \<Longrightarrow>
    hub_reach maxSubscriptions (h\<lparr>hs_pending := (ws, sub, f') # hs_pending h, hs_log := hs_log h \<union> log_entry db ws f'\<rparr>)"
| effect: "hub_reach maxSubscriptions h \<Longrightarrow> (ws, sub, f) \<in> set (hs_pending h) \<Longrightarrow>
    r = (if sub then snd (subscribe maxSubscriptions ws f (hs_registry h)) else unsubscribe ws f (hs_registry h)) \<Longrightarrow>
    hub_reach maxSubscriptions (h\<lparr>hs_registry := r, hs_pending := remove1 (ws, sub, f) (hs_pending h)\<rparr>)"
| rate: "hub_reach maxSubscriptions h \<Longrightarrow> hub_reach maxSubscriptions (h\<lparr>hs_registry := snd (checkRateLimit ws now (hs_registry h))\<rparr>)"
| leave: "hub_reach maxSubscriptions h \<Longrightarrow> hub_reach maxSubscriptions (h\<lparr>hs_registry := disconnect ws (hs_registry h)\<rparr>)"
| evict: "hub_reach maxSubscriptions h \<Longrightarrow> takeStreamSubscribers i (hs_registry h) = (targets, r) \<Longrightarrow>
    hub_reach maxSubscriptions (h\<lparr>hs_registry := r, hs_closing := hs_closing h \<union> set targets\<rparr>)"

section \<open>What the operations change\<close>

text \<open>Four views of a registry: the subject of a connection, its filter under a key, and the two indexes.\<close>

definition subj :: "ConnectionRegistry \<Rightarrow> socket \<Rightarrow> string option option" where
  "subj r ws = map_option cl_authenticatedSubject (map_get (cr_clients r) ws)"

definition filt :: "ConnectionRegistry \<Rightarrow> socket \<Rightarrow> string \<Rightarrow> SubscriptionFilter option" where
  "filt r ws k = Option.bind (map_get (cr_clients r) ws) (\<lambda>c. map_get (cl_subscriptionFilters c) k)"

named_theorems ws_views

lemma views_new [ws_views]: "subj new_registry ws = None" "filt new_registry ws k = None"
  "streamSubscribers i new_registry = []" "recipientSubscribers a new_registry = []"
  by (simp_all add: subj_def filt_def new_registry_def streamSubscribers_def recipientSubscribers_def)

lemma views_register [ws_views]:
  "subj (register ws c r) v = (if v = ws then Some (cl_authenticatedSubject c) else subj r v)"
  "filt (register ws c r) v k = (if v = ws then map_get (cl_subscriptionFilters c) k else filt r v k)"
  "streamSubscribers i (register ws c r) = streamSubscribers i r"
  "recipientSubscribers a (register ws c r) = recipientSubscribers a r"
  by (simp_all add: subj_def filt_def register_def streamSubscribers_def recipientSubscribers_def)

lemma views_unregister [ws_views]:
  "subj (unregister ws r) v = (if v = ws then None else subj r v)"
  "filt (unregister ws r) v k = (if v = ws then None else filt r v k)"
  "streamSubscribers i (unregister ws r) = streamSubscribers i r"
  "recipientSubscribers a (unregister ws r) = recipientSubscribers a r"
  by (simp_all add: subj_def filt_def unregister_def streamSubscribers_def recipientSubscribers_def)

lemma views_rate [ws_views]:
  "subj (snd (checkRateLimit ws now r)) v = subj r v"
  "filt (snd (checkRateLimit ws now r)) v k = filt r v k"
  "streamSubscribers i (snd (checkRateLimit ws now r)) = streamSubscribers i r"
  "recipientSubscribers a (snd (checkRateLimit ws now r)) = recipientSubscribers a r"
  by (simp_all add: subj_def filt_def checkRateLimit_def streamSubscribers_def recipientSubscribers_def Let_def
      split: option.splits)

lemma index_add_get: "nullish (map_get (index_add k ws m) j) [] =
  (let xs = nullish (map_get m j) [] in if j = k \<and> ws \<notin> set xs then xs @ [ws] else xs)"
  by (simp add: index_add_def Let_def)

lemma index_remove_get: "nullish (map_get (index_remove k ws m) j) [] =
  (let xs = nullish (map_get m j) [] in if j = k then filter (\<lambda>x. x \<noteq> ws) xs else xs)"
  by (simp add: index_remove_def Let_def split: option.splits)

lemma add_views:
  assumes "subj r ws \<noteq> None" "filt r ws (subscriptionKey f) = None"
  shows "subj (snd (addSubscription ws f r)) v = subj r v"
    and "filt (snd (addSubscription ws f r)) v k = (if v = ws \<and> k = subscriptionKey f then Some f else filt r v k)"
    and "streamSubscribers i (snd (addSubscription ws f r)) =
      (let xs = streamSubscribers i r in if sf_streamId f = Some i \<and> ws \<notin> set xs then xs @ [ws] else xs)"
    and "recipientSubscribers a (snd (addSubscription ws f r)) =
      (let xs = recipientSubscribers a r
       in if sf_streamId f = None \<and> sf_recipientAddress f = Some a \<and> ws \<notin> set xs then xs @ [ws] else xs)"
  using assms
  by (auto simp: addSubscription_def set_filters_def subj_def filt_def streamSubscribers_def recipientSubscribers_def
      index_add_get Let_def split: option.splits)

lemma remove_views:
  assumes "subj r ws \<noteq> None"
  shows "subj (removeSubscription ws f r) v = subj r v"
    and "filt (removeSubscription ws f r) v k = (if v = ws \<and> k = subscriptionKey f then None else filt r v k)"
    and "streamSubscribers i (removeSubscription ws f r) =
      (if sf_streamId f = Some i then filter (\<lambda>x. x \<noteq> ws) (streamSubscribers i r) else streamSubscribers i r)"
    and "recipientSubscribers a (removeSubscription ws f r) =
      (if sf_streamId f = None \<and> sf_recipientAddress f = Some a
       then filter (\<lambda>x. x \<noteq> ws) (recipientSubscribers a r) else recipientSubscribers a r)"
  using assms
  by (auto simp: removeSubscription_def set_filters_def subj_def filt_def streamSubscribers_def recipientSubscribers_def
      index_remove_get Let_def split: option.splits)

lemma take_views:
  assumes "takeStreamSubscribers i r = (targets, r')"
  shows "subj r' v = subj r v" "filt r' v k = filt r v k" "targets = streamSubscribers i r"
    and "streamSubscribers j r' = (if j = i then [] else streamSubscribers j r)"
    and "recipientSubscribers a r' = recipientSubscribers a r"
  using assms
  by (auto simp: takeStreamSubscribers_def subj_def filt_def streamSubscribers_def recipientSubscribers_def split: if_splits)

section \<open>The indexes agree with the connections\<close>

definition skey :: "string \<Rightarrow> string" where "skey i = ''stream:'' @ i"
definition rkey :: "string \<Rightarrow> string" where "rkey a = ''recipient:'' @ a"

definition proper :: "SubscriptionFilter \<Rightarrow> bool" where
  "proper f \<longleftrightarrow> sf_streamId f \<noteq> None \<or> sf_recipientAddress f \<noteq> None"

lemma valid_proper: "validateSubscriptionFilter f = None \<Longrightarrow> proper f"
  by (auto simp: validateSubscriptionFilter_def proper_def split: if_splits)

lemma key_is_stream: "subscriptionKey f = skey i \<longleftrightarrow> sf_streamId f = Some i"
  by (auto simp: subscriptionKey_def skey_def rkey_def split: option.splits)

lemma key_is_recipient: "proper f \<Longrightarrow> subscriptionKey f = rkey a \<longleftrightarrow> sf_streamId f = None \<and> sf_recipientAddress f = Some a"
  by (auto simp: subscriptionKey_def skey_def rkey_def proper_def split: option.splits)

text \<open>The invariant; connections in \<open>closing\<close> may be missing from the index of streams.\<close>

definition registry_inv :: "socket set \<Rightarrow> ConnectionRegistry \<Rightarrow> bool" where
  "registry_inv closing r \<longleftrightarrow>
     (\<forall>ws k f. filt r ws k = Some f \<longrightarrow> k = subscriptionKey f \<and> proper f) \<and>
     (\<forall>i. distinct (streamSubscribers i r)) \<and> (\<forall>a. distinct (recipientSubscribers a r)) \<and>
     (\<forall>i ws. ws \<in> set (streamSubscribers i r) \<longrightarrow> filt r ws (skey i) \<noteq> None) \<and>
     (\<forall>i ws. filt r ws (skey i) \<noteq> None \<longrightarrow> ws \<in> closing \<or> ws \<in> set (streamSubscribers i r)) \<and>
     (\<forall>a ws. ws \<in> set (recipientSubscribers a r) \<longleftrightarrow> filt r ws (rkey a) \<noteq> None)"

lemma registry_invD:
  assumes "registry_inv cl r"
  shows "filt r ws k = Some f \<Longrightarrow> k = subscriptionKey f \<and> proper f"
    and "distinct (streamSubscribers i r)" and "distinct (recipientSubscribers a r)"
    and "ws \<in> set (streamSubscribers i r) \<Longrightarrow> filt r ws (skey i) \<noteq> None"
    and "filt r ws (skey i) \<noteq> None \<Longrightarrow> ws \<in> cl \<or> ws \<in> set (streamSubscribers i r)"
    and "ws \<in> set (recipientSubscribers a r) \<longleftrightarrow> filt r ws (rkey a) \<noteq> None"
  using assms unfolding registry_inv_def by blast+

lemma inv_same_views:
  assumes "registry_inv cl r" "cl \<subseteq> cl'" "\<And>v k. filt r' v k = filt r v k"
    "\<And>i. streamSubscribers i r' = streamSubscribers i r" "\<And>a. recipientSubscribers a r' = recipientSubscribers a r"
  shows "registry_inv cl' r'"
  unfolding registry_inv_def assms(3-5) using registry_invD [OF assms(1)] assms(2) by blast

lemma inv_add:
  assumes inv: "registry_inv cl r" and new: "subj r ws \<noteq> None" "filt r ws (subscriptionKey f) = None" and f: "proper f"
  shows "registry_inv cl (snd (addSubscription ws f r))"
proof -
  note D = registry_invD [OF inv]
  have s: "subscriptionKey f = skey i \<longleftrightarrow> sf_streamId f = Some i" "skey i = subscriptionKey f \<longleftrightarrow> sf_streamId f = Some i" for i
    using key_is_stream [of f i] by auto
  have r: "rkey a = subscriptionKey f \<longleftrightarrow> sf_streamId f = None \<and> sf_recipientAddress f = Some a" for a
    using key_is_recipient [OF f, of a] by auto
  show ?thesis
    unfolding registry_inv_def add_views [OF new] Let_def
    by (intro conjI allI) (use D f new(2) in \<open>auto simp: s r split: if_splits\<close>)
qed

lemma inv_remove:
  assumes inv: "registry_inv cl r" and ws: "subj r ws \<noteq> None" and f: "proper f"
  shows "registry_inv cl (removeSubscription ws f r)"
proof -
  note D = registry_invD [OF inv]
  have s: "skey i = subscriptionKey f \<longleftrightarrow> sf_streamId f = Some i" for i using key_is_stream [of f i] by auto
  have r: "rkey a = subscriptionKey f \<longleftrightarrow> sf_streamId f = None \<and> sf_recipientAddress f = Some a" for a
    using key_is_recipient [OF f, of a] by auto
  show ?thesis
    unfolding registry_inv_def remove_views [OF ws]
    by (intro conjI allI) (use D f in \<open>auto simp: s r split: if_splits\<close>)
qed

text \<open>Each map of filters has its keys once.\<close>

definition filters_wf :: "ConnectionRegistry \<Rightarrow> bool" where
  "filters_wf r \<longleftrightarrow> (\<forall>ws c. map_get (cr_clients r) ws = Some c \<longrightarrow> map_wf (cl_subscriptionFilters c))"

lemma wf_new: "filters_wf new_registry"
  by (simp add: filters_wf_def new_registry_def)

lemma wf_register: "filters_wf r \<Longrightarrow> filters_wf (register ws (createClientState i ip s) r)"
  by (auto simp: filters_wf_def register_def createClientState_def map_wf_def)

lemma wf_unregister: "filters_wf r \<Longrightarrow> filters_wf (unregister ws r)"
  by (auto simp: filters_wf_def unregister_def split: if_splits)

lemma wf_rate: "filters_wf r \<Longrightarrow> filters_wf (snd (checkRateLimit ws now r))"
  by (auto simp: filters_wf_def checkRateLimit_def Let_def split: if_splits option.splits)

lemma wf_add: "filters_wf r \<Longrightarrow> filters_wf (snd (addSubscription ws f r))"
  by (auto simp: filters_wf_def addSubscription_def set_filters_def Let_def split: if_splits option.splits)

lemma wf_remove: "filters_wf r \<Longrightarrow> filters_wf (removeSubscription ws f r)"
  by (auto simp: filters_wf_def removeSubscription_def set_filters_def Let_def split: if_splits option.splits)

lemma wf_take: "filters_wf r \<Longrightarrow> takeStreamSubscribers i r = (t, r') \<Longrightarrow> filters_wf r'"
  by (auto simp: filters_wf_def takeStreamSubscribers_def split: if_splits)

lemma remove_list:
  assumes "registry_inv cl r" "filters_wf r" "subj r ws \<noteq> None" "\<forall>f \<in> set fs. proper f"
  shows "registry_inv cl (foldl (\<lambda>r f. removeSubscription ws f r) r fs) \<and>
    filters_wf (foldl (\<lambda>r f. removeSubscription ws f r) r fs) \<and>
    subj (foldl (\<lambda>r f. removeSubscription ws f r) r fs) v = subj r v \<and>
    filt (foldl (\<lambda>r f. removeSubscription ws f r) r fs) v k =
      (if v = ws \<and> k \<in> subscriptionKey ` set fs then None else filt r v k)"
  using assms
proof (induction fs arbitrary: r)
  case Nil
  then show ?case by simp
next
  case (Cons f fs)
  let ?r = "removeSubscription ws f r"
  have "registry_inv cl ?r" "filters_wf ?r" "subj ?r ws \<noteq> None"
    using Cons.prems by (simp_all add: inv_remove wf_remove remove_views)
  from Cons.IH [OF this] Cons.prems show ?case by (auto simp: remove_views)
qed

lemma disconnect_views:
  assumes inv: "registry_inv cl r" and wf: "filters_wf r"
  shows "registry_inv cl (disconnect ws r) \<and> filters_wf (disconnect ws r) \<and>
    subj (disconnect ws r) v = (if v = ws then None else subj r v) \<and>
    filt (disconnect ws r) v k = (if v = ws then None else filt r v k)"
proof (cases "map_get (cr_clients r) ws")
  case None
  then show ?thesis using inv wf by (auto simp: disconnect_def subj_def filt_def)
next
  case (Some c)
  let ?fs = "map_values (cl_subscriptionFilters c)"
  let ?r = "removeAllSubscriptions ws r"
  have r: "?r = foldl (\<lambda>r f. removeSubscription ws f r) r ?fs" by (simp add: removeAllSubscriptions_def Some)
  have w: "map_wf (cl_subscriptionFilters c)" using wf Some by (simp add: filters_wf_def)
  have "proper f" if "f \<in> set ?fs" for f
  proof -
    from that obtain k where "(k, f) \<in> set (cl_subscriptionFilters c)" by auto
    with w have "map_get (cl_subscriptionFilters c) k = Some f" by (simp add: map_get_mem)
    then have "filt r ws k = Some f" by (simp add: filt_def Some)
    with registry_invD(1) [OF inv] show ?thesis by blast
  qed
  note L = remove_list [OF inv wf, of ws ?fs, folded r]
  have L: "registry_inv cl ?r" "filters_wf ?r" "subj ?r v = subj r v"
    "filt ?r v k = (if v = ws \<and> k \<in> subscriptionKey ` set ?fs then None else filt r v k)" for v k
    using L \<open>\<And>f. f \<in> set ?fs \<Longrightarrow> proper f\<close> Some by (auto simp: subj_def)
  have gone: "filt ?r ws k = None" for k
  proof (cases "filt r ws k")
    case None
    then show ?thesis by (simp add: L(4))
  next
    case (Some f)
    then have "f \<in> set ?fs" using \<open>map_get (cr_clients r) ws = Some c\<close>
      by (auto simp: filt_def dest!: map_of_SomeD intro!: image_eqI [where x = "(k, f)"])
    with registry_invD(1) [OF inv Some] show ?thesis by (auto simp: L(4))
  qed
  have d: "disconnect ws r = unregister ws ?r" by (simp add: disconnect_def Some)
  have filt: "filt (disconnect ws r) v k = filt ?r v k" for v k using gone by (simp add: d ws_views)
  have "registry_inv cl (disconnect ws r)"
    by (rule inv_same_views [OF L(1) subset_refl]) (simp_all add: filt, simp_all add: d ws_views)
  moreover have "filters_wf (disconnect ws r)" using L(2) by (simp add: d wf_unregister)
  moreover have "subj (disconnect ws r) v = (if v = ws then None else subj r v)" by (simp add: d ws_views L(3))
  moreover have "filt (disconnect ws r) v k = (if v = ws then None else filt r v k)"
    using gone [of k] L(4) [of v k] by (cases "v = ws") (simp_all add: filt)
  ultimately show ?thesis by blast
qed

text \<open>The effect of a message is one addition, one removal or nothing.\<close>

lemma subscribe_effect:
  "snd (subscribe n ws f r) = r \<or>
   subj r ws \<noteq> None \<and> filt r ws (subscriptionKey f) = None \<and> proper f \<and>
   snd (subscribe n ws f r) = snd (addSubscription ws f r)"
  by (simp add: subscribe_def subj_def filt_def valid_proper split: option.splits)

lemma unsubscribe_effect:
  "unsubscribe ws f r = r \<or> subj r ws \<noteq> None \<and> unsubscribe ws f r = removeSubscription ws f r"
  by (simp add: unsubscribe_def subj_def split: option.splits)

section \<open>The invariant of the hub\<close>

text \<open>\<open>allowed\<close>: the stream of the filter was authorised for the connection, or the filter names the connection's own subject.\<close>

definition allowed :: "hub \<Rightarrow> socket \<Rightarrow> SubscriptionFilter \<Rightarrow> bool" where
  "allowed h ws f \<longleftrightarrow>
     (case sf_streamId f of
        Some i \<Rightarrow> \<exists>a b. (ws, i, a, b) \<in> hs_log h
      | None \<Rightarrow> \<exists>s. sf_recipientAddress f = Some s \<and> subj (hs_registry h) ws \<in> {None, Some (Some s)})"

definition log_ok :: "hub \<Rightarrow> bool" where
  "log_ok h \<longleftrightarrow> (\<forall>ws i a b. (ws, i, a, b) \<in> hs_log h \<longrightarrow>
     ws \<in> hs_used h \<and> subj (hs_registry h) ws \<in> {None, Some (Some a), Some (Some b)})"

definition hub_inv :: "hub \<Rightarrow> bool" where
  "hub_inv h \<longleftrightarrow>
     registry_inv (hs_closing h) (hs_registry h) \<and> filters_wf (hs_registry h) \<and> log_ok h \<and>
     (\<forall>ws sub f. (ws, sub, f) \<in> set (hs_pending h) \<longrightarrow> ws \<in> hs_used h \<and> allowed h ws f) \<and>
     (\<forall>ws k f. filt (hs_registry h) ws k = Some f \<longrightarrow> allowed h ws f) \<and>
     (\<forall>ws. subj (hs_registry h) ws \<noteq> None \<longrightarrow> ws \<in> hs_used h)"

lemma allowed_proper: "allowed h ws f \<Longrightarrow> proper f"
  by (auto simp: allowed_def proper_def split: option.splits)

lemma allowed_mono:
  assumes "allowed h ws f" "hs_log h \<subseteq> hs_log h'" "subj (hs_registry h') ws \<in> {None, subj (hs_registry h) ws}"
  shows "allowed h' ws f"
  using assms unfolding allowed_def by (cases "sf_streamId f") auto

text \<open>A step that changes only the registry, and neither adds connections nor changes subjects.\<close>

lemma hub_inv_registry:
  assumes inv: "hub_inv h" and r: "registry_inv cl r" "filters_wf r" and p: "set ps \<subseteq> set (hs_pending h)"
    and s: "\<And>ws. subj r ws \<in> {None, subj (hs_registry h) ws}"
    and f: "\<And>ws k f. filt r ws k = Some f \<Longrightarrow> allowed h ws f"
  shows "hub_inv (h\<lparr>hs_registry := r, hs_closing := cl, hs_pending := ps\<rparr>)" (is "hub_inv ?h")
proof -
  have a: "allowed ?h ws f" if "allowed h ws f" for ws f by (rule allowed_mono [OF that]) (use s in auto)
  have "log_ok ?h" using inv s unfolding hub_inv_def log_ok_def by (simp, metis)
  moreover have "\<forall>ws sub f. (ws, sub, f) \<in> set ps \<longrightarrow> ws \<in> hs_used h \<and> allowed ?h ws f"
    using inv p a unfolding hub_inv_def by blast
  moreover have "\<forall>ws. subj r ws \<noteq> None \<longrightarrow> ws \<in> hs_used h" using inv s unfolding hub_inv_def by (metis insertE singletonD)
  ultimately show ?thesis using r f a unfolding hub_inv_def by simp
qed

lemma hub_inv_new: "hub_inv new_hub"
  by (auto simp: hub_inv_def new_hub_def log_ok_def registry_inv_def wf_new ws_views)

lemma hub_inv_connect:
  assumes inv: "hub_inv h" and new: "ws \<notin> hs_used h"
  shows "hub_inv (h\<lparr>hs_registry := register ws (createClientState i ip s) (hs_registry h), hs_used := insert ws (hs_used h)\<rparr>)"
    (is "hub_inv ?h")
proof -
  let ?r = "hs_registry h"
  have none: "subj ?r ws = None" using inv new unfolding hub_inv_def by blast
  then have nof: "filt ?r ws k = None" for k by (simp add: subj_def filt_def)
  have filt: "filt (hs_registry ?h) v k = filt ?r v k" for v k using nof by (simp add: ws_views createClientState_def)
  have a: "allowed ?h v f" if "allowed h v f" "v \<noteq> ws" for v f
    by (rule allowed_mono [OF that(1)]) (use that in \<open>auto simp: ws_views\<close>)
  have "registry_inv (hs_closing h) (hs_registry ?h)"
    by (rule inv_same_views [where r = ?r]) (use inv filt in \<open>auto simp: hub_inv_def ws_views\<close>)
  moreover have "log_ok ?h" using inv new unfolding hub_inv_def log_ok_def by (auto simp: ws_views)
  moreover have "\<forall>v k f. filt (hs_registry ?h) v k = Some f \<longrightarrow> allowed ?h v f"
    using inv nof a unfolding hub_inv_def filt by (metis option.distinct(1))
  moreover have "\<forall>v sub f. (v, sub, f) \<in> set (hs_pending h) \<longrightarrow> v \<in> insert ws (hs_used h) \<and> allowed ?h v f"
    using inv a new unfolding hub_inv_def by (metis insertCI)
  ultimately show ?thesis using inv unfolding hub_inv_def by (simp add: wf_register ws_views)
qed

lemma authorized:
  assumes "authorize db ws f r = Authorized f'"
  shows "\<exists>s. subj r ws = Some (Some s) \<and>
    (case sf_streamId f' of
       Some i \<Rightarrow> \<exists>a b. db i = Inr (Some (a, b)) \<and> (s = a \<or> s = b)
     | None \<Rightarrow> sf_recipientAddress f' = Some s)"
  using assms
  by (auto simp: authorize_def subj_def authenticatedRecipientSubject_def empty_filter_def split: option.splits sum.splits if_splits)

lemma hub_inv_message:
  assumes inv: "hub_inv h" and auth: "authorize db ws f (hs_registry h) = Authorized f'"
  shows "hub_inv (h\<lparr>hs_pending := (ws, sub, f') # hs_pending h, hs_log := hs_log h \<union> log_entry db ws f'\<rparr>)" (is "hub_inv ?h")
proof -
  from authorized [OF auth] obtain s where s: "subj (hs_registry h) ws = Some (Some s)"
    "case sf_streamId f' of Some i \<Rightarrow> \<exists>a b. db i = Inr (Some (a, b)) \<and> (s = a \<or> s = b)
     | None \<Rightarrow> sf_recipientAddress f' = Some s" by blast
  then have used: "ws \<in> hs_used h" using inv unfolding hub_inv_def by blast
  have a: "allowed ?h v g" if "allowed h v g" for v g by (rule allowed_mono [OF that]) auto
  have "allowed ?h ws f'" using s by (force simp: allowed_def log_entry_def split: option.splits)
  moreover have "log_ok ?h"
    using inv s used unfolding hub_inv_def log_ok_def by (auto simp: log_entry_def split: option.splits sum.splits)
  ultimately show ?thesis using inv a used unfolding hub_inv_def by simp
qed

lemma hub_inv_effect:
  assumes inv: "hub_inv h" and p: "(ws, sub, f) \<in> set (hs_pending h)"
    and r: "r = (if sub then snd (subscribe n ws f (hs_registry h)) else unsubscribe ws f (hs_registry h))"
  shows "hub_inv (h\<lparr>hs_registry := r, hs_pending := remove1 (ws, sub, f) (hs_pending h)\<rparr>)"
proof -
  let ?r = "hs_registry h"
  have f: "allowed h ws f" "proper f" using inv p allowed_proper unfolding hub_inv_def by blast+
  have old: "registry_inv (hs_closing h) ?r" "filters_wf ?r" "\<And>v k g. filt ?r v k = Some g \<Longrightarrow> allowed h v g"
    using inv unfolding hub_inv_def by blast+
  consider "r = ?r" | "subj ?r ws \<noteq> None" "filt ?r ws (subscriptionKey f) = None" "r = snd (addSubscription ws f ?r)"
    | "subj ?r ws \<noteq> None" "r = removeSubscription ws f ?r"
    using subscribe_effect [of n ws f ?r] unsubscribe_effect [of ws f ?r] r by (cases sub) auto
  then have "registry_inv (hs_closing h) r \<and> filters_wf r \<and> (\<forall>v. subj r v = subj ?r v) \<and>
      (\<forall>v k g. filt r v k = Some g \<longrightarrow> allowed h v g)"
  proof cases
    case 1
    then show ?thesis using old by blast
  next
    case 2
    then show ?thesis using old f by (auto simp: inv_add wf_add add_views split: if_splits)
  next
    case 3
    then show ?thesis using old f by (auto simp: inv_remove wf_remove remove_views split: if_splits)
  qed
  then have "hub_inv (h\<lparr>hs_registry := r, hs_closing := hs_closing h, hs_pending := remove1 (ws, sub, f) (hs_pending h)\<rparr>)"
    by (intro hub_inv_registry [OF inv]) (auto dest: set_remove1_subset [THEN subsetD])
  then show ?thesis by simp
qed

lemma hub_reach_inv: "hub_reach n h \<Longrightarrow> hub_inv h"
proof (induction rule: hub_reach.induct)
  case start
  show ?case by (rule hub_inv_new)
next
  case (connect h ws i ip s)
  from hub_inv_connect [OF connect.IH connect.hyps(2)] show ?case .
next
  case (message h db ws f f' sub)
  from hub_inv_message [OF message.IH message.hyps(2)] show ?case .
next
  case (effect h ws sub f r)
  from hub_inv_effect [OF effect.IH effect.hyps(2,3)] show ?case .
next
  case (rate h ws now)
  have "registry_inv (hs_closing h) (snd (checkRateLimit ws now (hs_registry h)))"
    by (rule inv_same_views [where r = "hs_registry h"]) (use rate.IH in \<open>auto simp: hub_inv_def ws_views\<close>)
  then have "hub_inv (h\<lparr>hs_registry := snd (checkRateLimit ws now (hs_registry h)), hs_closing := hs_closing h,
      hs_pending := hs_pending h\<rparr>)"
    using rate.IH by (intro hub_inv_registry) (auto simp: hub_inv_def wf_rate ws_views)
  then show ?case by simp
next
  case (leave h ws)
  note inv = leave.IH [unfolded hub_inv_def]
  have "hub_inv (h\<lparr>hs_registry := disconnect ws (hs_registry h), hs_closing := hs_closing h, hs_pending := hs_pending h\<rparr>)"
    using inv disconnect_views [of "hs_closing h" "hs_registry h" ws]
    by (intro hub_inv_registry [OF leave.IH]) (auto split: if_splits)
  then show ?case by simp
next
  case (evict h i targets r)
  note v = take_views [OF evict.hyps(2)]
  have "registry_inv (hs_closing h \<union> set targets) r"
    unfolding registry_inv_def v
    by (intro conjI allI) (use registry_invD [OF evict.IH [unfolded hub_inv_def, THEN conjunct1]] in \<open>(auto split: if_splits, blast)\<close>)
  then have "hub_inv (h\<lparr>hs_registry := r, hs_closing := hs_closing h \<union> set targets, hs_pending := hs_pending h\<rparr>)"
    using evict.IH wf_take [OF _ evict.hyps(2)] by (intro hub_inv_registry) (auto simp: hub_inv_def v)
  then show ?case by simp
qed

section \<open>Delivery\<close>

lemma subj_client: "subj r ws = Some s \<longleftrightarrow> (\<exists>c. map_get (cr_clients r) ws = Some c \<and> cl_authenticatedSubject c = s)"
  by (auto simp: subj_def)

lemma filt_client:
  "filt r ws k = Some f \<longleftrightarrow> (\<exists>c. map_get (cr_clients r) ws = Some c \<and> map_get (cl_subscriptionFilters c) k = Some f)"
  by (auto simp: filt_def bind_eq_Some_conv)

lemma targets_set:
  assumes "resolveTargets e r = (batched, immediate)"
  shows "set (batched @ immediate) = {ws \<in> set (matchingSubscribers e r). map_get (cr_clients r) ws \<noteq> None}"
    and "ws \<in> set batched \<longleftrightarrow> ws \<in> set (batched @ immediate) \<and> wantsBatching (the (map_get (cr_clients r) ws))"
    and "distinct (matchingSubscribers e r) \<Longrightarrow> distinct (batched @ immediate)"
  using assms by (auto simp: resolveTargets_def Let_def)

lemma matching_inv:
  assumes "registry_inv cl r"
  shows "distinct (matchingSubscribers e r)"
    and "ws \<in> set (matchingSubscribers e r) \<Longrightarrow>
      filt r ws (skey (su_streamId e)) \<noteq> None \<or> (\<exists>a. extractRecipientAddress e = Some a \<and> filt r ws (rkey a) \<noteq> None)"
    and "ws \<notin> cl \<Longrightarrow> filt r ws (skey (su_streamId e)) \<noteq> None \<Longrightarrow> ws \<in> set (matchingSubscribers e r)"
    and "extractRecipientAddress e = Some a \<Longrightarrow> filt r ws (rkey a) \<noteq> None \<Longrightarrow> ws \<in> set (matchingSubscribers e r)"
  using registry_invD [OF assms] by (auto simp: matchingSubscribers_def Let_def split: option.splits, blast+)

text \<open>(C8) Nobody receives what it was not authorised for: after any interleaving of connections, messages, their delayed effects,
  evictions and disconnections, each target of an update is a connected client with an authenticated subject, and either
  a lookup of that very stream for that very connection named the subject as sender or recipient, or the update is addressed to the subject.\<close>

theorem delivery_authorised:
  assumes "hub_reach n h" "resolveTargets e (hs_registry h) = (batched, immediate)" "ws \<in> set (batched @ immediate)"
  shows "\<exists>c s. map_get (cr_clients (hs_registry h)) ws = Some c \<and> cl_authenticatedSubject c = Some s \<and>
    ((\<exists>a b. (ws, su_streamId e, a, b) \<in> hs_log h \<and> (s = a \<or> s = b)) \<or> extractRecipientAddress e = Some s)"
proof -
  let ?r = "hs_registry h"
  from hub_reach_inv [OF assms(1)] have inv: "registry_inv (hs_closing h) ?r" "log_ok h"
    and al: "\<And>k f. filt ?r ws k = Some f \<Longrightarrow> allowed h ws f"
    unfolding hub_inv_def by blast+
  from assms(3) have m: "ws \<in> set (matchingSubscribers e ?r)" and c: "map_get (cr_clients ?r) ws \<noteq> None"
    unfolding targets_set [OF assms(2)] by blast+
  from matching_inv(2) [OF inv(1) m] consider
    (stream) f where "filt ?r ws (skey (su_streamId e)) = Some f"
    | (recipient) a f where "extractRecipientAddress e = Some a" "filt ?r ws (rkey a) = Some f" by blast
  then show ?thesis
  proof cases
    case stream
    then have "sf_streamId f = Some (su_streamId e)" using registry_invD(1) [OF inv(1)] key_is_stream by metis
    with al [OF stream] obtain a b where ab: "(ws, su_streamId e, a, b) \<in> hs_log h" by (auto simp: allowed_def)
    with inv(2) have "subj ?r ws \<in> {None, Some (Some a), Some (Some b)}" unfolding log_ok_def by blast
    with c have "subj ?r ws \<in> {Some (Some a), Some (Some b)}" by (auto simp: subj_def)
    with ab show ?thesis by (auto simp: subj_client)
  next
    case recipient
    then have "sf_streamId f = None \<and> sf_recipientAddress f = Some a"
      using registry_invD(1) [OF inv(1)] key_is_recipient by metis
    with al [OF recipient(2)] c have "subj ?r ws = Some (Some a)" by (auto simp: allowed_def subj_def)
    with recipient(1) show ?thesis by (auto simp: subj_client)
  qed
qed

text \<open>(C21) Routing is exact: after any such run the two lists of targets hold no socket twice, and a connection that no administrator is
  closing is a target if and only if it holds a filter for the update's stream or for its recipient. It is in the
  batched list exactly when one of its filters asks for batching.\<close>

theorem targets_exact:
  assumes "hub_reach n h" "resolveTargets e (hs_registry h) = (batched, immediate)"
  shows "distinct (batched @ immediate) \<and>
    (\<forall>ws c. map_get (cr_clients (hs_registry h)) ws = Some c \<and> ws \<notin> hs_closing h \<longrightarrow>
       (ws \<in> set (batched @ immediate) \<longleftrightarrow>
          map_get (cl_subscriptionFilters c) (''stream:'' @ su_streamId e) \<noteq> None \<or>
          (\<exists>a. extractRecipientAddress e = Some a \<and> map_get (cl_subscriptionFilters c) (''recipient:'' @ a) \<noteq> None)) \<and>
       (ws \<in> set batched \<longleftrightarrow> ws \<in> set (batched @ immediate) \<and> wantsBatching c))"
proof -
  from hub_reach_inv [OF assms(1)] have inv: "registry_inv (hs_closing h) (hs_registry h)" unfolding hub_inv_def by blast
  have "ws \<in> set (batched @ immediate) \<longleftrightarrow>
      map_get (cl_subscriptionFilters c) (''stream:'' @ su_streamId e) \<noteq> None \<or>
      (\<exists>a. extractRecipientAddress e = Some a \<and> map_get (cl_subscriptionFilters c) (''recipient:'' @ a) \<noteq> None)"
    if "map_get (cr_clients (hs_registry h)) ws = Some c" "ws \<notin> hs_closing h" for ws c
  proof -
    have f: "filt (hs_registry h) ws k = map_get (cl_subscriptionFilters c) k" for k by (simp add: filt_def that(1))
    have "ws \<in> set (batched @ immediate) \<longleftrightarrow> ws \<in> set (matchingSubscribers e (hs_registry h))"
      using that(1) unfolding targets_set [OF assms(2)] by simp
    then show ?thesis
      using matching_inv(2-4) [OF inv, where ws = ws and e = e] that(2) unfolding f skey_def rkey_def by blast
  qed
  moreover have "ws \<in> set batched \<longleftrightarrow> ws \<in> set (batched @ immediate) \<and> wantsBatching c"
    if "map_get (cr_clients (hs_registry h)) ws = Some c" for ws c
    using targets_set(2) [OF assms(2), of ws] that by simp
  ultimately show ?thesis using targets_set(3) [OF assms(2) matching_inv(1) [OF inv]] by blast
qed

text \<open>A run for the witnesses: two clients connect, the first subscribes to a stream it sent, an administrator evicts nobody.\<close>

definition demo_table :: stream_table where
  "demo_table i = (if i = ''s1'' then Inr (Some (''GALICE'', ''GBOB'')) else Inr None)"

definition demo_filter :: SubscriptionFilter where
  "demo_filter = \<lparr>sf_streamId = Some ''s1'', sf_recipientAddress = None, sf_batchingEnabled = Some True\<rparr>"

definition demo_hub_2 :: hub where
  "demo_hub_2 =
     (let r = register 6 (createClientState ''b'' ''10.0.0.2'' None) (register 5 (createClientState ''a'' ''10.0.0.1'' (Some ''GALICE'')) new_registry)
      in new_hub\<lparr>hs_registry := r, hs_used := {6, 5}\<rparr>)"

definition demo_hub :: hub where
  "demo_hub = demo_hub_2\<lparr>hs_registry := snd (subscribe 100 5 demo_filter (hs_registry demo_hub_2)), hs_log := {(5, ''s1'', ''GALICE'', ''GBOB'')}\<rparr>"

definition demo_update :: StreamUpdateEvent where
  "demo_update = \<lparr>su_streamId = ''s1'', su_eventId = ''e1'', su_payload = JNull, su_recipientAddress = None\<rparr>"

lemma demo_reach: "hub_reach 100 demo_hub"
proof -
  have a: "hub_reach 100 demo_hub_2"
    using hub_reach.connect [OF hub_reach.connect [OF hub_reach.start [of 100], of 5 "''a''" "''10.0.0.1''" "Some ''GALICE''"],
        of 6 "''b''" "''10.0.0.2''" None]
    by (simp add: demo_hub_2_def new_hub_def Let_def)
  have b: "authorize demo_table 5 demo_filter (hs_registry demo_hub_2) = Authorized demo_filter" by code_simp
  have c: "log_entry demo_table 5 demo_filter = {(5, ''s1'', ''GALICE'', ''GBOB'')}" by code_simp
  from hub_reach.effect [OF hub_reach.message [OF a b, of True], of 5 True demo_filter]
  show ?thesis by (simp add: c demo_hub_def demo_hub_2_def new_hub_def Let_def)
qed

lemma demo_targets: "resolveTargets demo_update (hs_registry demo_hub) = ([5], [])" by code_simp

theorem delivery_authorised_witness:
  "hub_reach 100 demo_hub \<and>
   (\<exists>c s. map_get (cr_clients (hs_registry demo_hub)) 5 = Some c \<and> cl_authenticatedSubject c = Some s \<and>
     ((\<exists>a b. (5, su_streamId demo_update, a, b) \<in> hs_log demo_hub \<and> (s = a \<or> s = b)) \<or> extractRecipientAddress demo_update = Some s))"
  using delivery_authorised [OF demo_reach demo_targets, of 5] demo_reach by simp

theorem targets_exact_witness:
  "hub_reach 100 demo_hub \<and> distinct ([5 :: socket] @ []) \<and> wantsBatching (the (map_get (cr_clients (hs_registry demo_hub)) 5)) \<and>
   map_get (cl_subscriptionFilters (the (map_get (cr_clients (hs_registry demo_hub)) 6))) ''stream:s1'' = None"
proof -
  let ?c = "\<lambda>ws. the (map_get (cr_clients (hs_registry demo_hub)) ws)"
  have c: "map_get (cr_clients (hs_registry demo_hub)) 5 = Some (?c 5)" "map_get (cr_clients (hs_registry demo_hub)) 6 = Some (?c 6)"
    by code_simp+
  have x: "hs_closing demo_hub = {}" "su_streamId demo_update = ''s1''"
    by (simp_all add: demo_hub_def demo_hub_2_def new_hub_def Let_def demo_update_def)
  note T = targets_exact [OF demo_reach demo_targets, unfolded x, THEN conjunct2, THEN spec, THEN spec]
  show ?thesis using T [of 5 "?c 5"] T [of 6 "?c 6"] c demo_reach by simp
qed

text \<open>The narrowing of an empty filter to the authenticated recipient is dead code: \<open>validateSubscriptionFilter\<close> refuses it first.\<close>

lemma empty_filter_refused:
  "sf_streamId f = None \<Longrightarrow> sf_recipientAddress f = None \<Longrightarrow>
   authorize db ws f r = Denied ''EMPTY_INPUT'' ''Subscription filter must not be empty''"
  by (simp add: authorize_def validateSubscriptionFilter_def)

end
