(* ===== verification/Ws_Delivery.thy ===== *)
theory Ws_Delivery
  imports Ws_Registry Contract_Events "HOL-Library.While_Combinator" "HOL-Library.Sublist"
begin

text \<open>
  The outbound half of the WebSocket hub: the per-connection queues and thresholds of \<open>src/ws/backpressure.ts\<close>, the
  micro-batches of \<open>src/ws/batching.ts\<close>, the fanout of \<open>src/ws/fanout.ts\<close>, the teardown of \<open>src/ws/connectionLifecycle.ts\<close>,
  the probes of \<open>src/ws/healthProbe.ts\<close> and the cursor replay of \<open>src/ws/replay.ts\<close>.

  A frame is the byte string of its JSON text. What the code sees of a socket is a \<open>socket_look\<close>: whether it is open,
  its \<open>bufferedAmount\<close> and whether \<open>send\<close> throws. An operation takes a function from the number of iterations of its send loop
  to looks, so the socket may fill up, fail or close between two sends. Frames handed to sockets and the sockets that
  are terminated are recorded in \<open>dl_out\<close> and \<open>dl_killed\<close>. Spans, gauges and the per-connection
  byte counters are left out.

  The lemmas: queues and batches stay within their ceilings; frames leave a connection in the order in which they were accepted,
  none lost while the peer keeps up; the search for the longest batch that fits ends and is exact; a silent connection is
  terminated after exactly the tolerated number of probes; a replay sends every stored event after the cursor once and in order.
\<close>

section \<open>Sockets\<close>

record socket_look =
  lk_open :: bool
  lk_buffered :: int
  lk_throws :: bool

section \<open>State\<close>

record OutboundBackpressure =
  bp_dropBytes :: int
  bp_terminateBytes :: int
  bp_maxQueue :: nat
  bp_maxQueueBytes :: nat
  bp_queues :: "(socket, string list) jsmap"
  bp_dropped :: nat
  bp_terminated :: nat
  bp_sent :: nat

text \<open>The payload of an event is its JSON text, \<open>None\<close> when it is \<open>undefined\<close>.\<close>

record BatchedEvent =
  be_streamId :: string
  be_eventId :: string
  be_payload :: "string option"
  be_correlationId :: "string option"

text \<open>An accumulator exists exactly while its timer is armed; the timer holds the socket.\<close>

record ClientBatchAccumulator =
  ba_socket :: socket
  ba_events :: "BatchedEvent list"

record delivery =
  dl_registry :: ConnectionRegistry
  dl_bp :: OutboundBackpressure
  dl_maxSize :: nat
  dl_accumulators :: "(string, ClientBatchAccumulator) jsmap"
  dl_out :: "(socket \<times> string) list"
  dl_killed :: "socket list"

section \<open>Teardown\<close>

definition setThresholds :: "int option \<Rightarrow> int option \<Rightarrow> OutboundBackpressure \<Rightarrow> OutboundBackpressure" where
  "setThresholds d t b =
     (let b1 = (case d of None \<Rightarrow> b | Some x \<Rightarrow> if 0 \<le> x then b\<lparr>bp_dropBytes := x\<rparr> else b)
      in case t of None \<Rightarrow> b1 | Some x \<Rightarrow> if 0 \<le> x then b1\<lparr>bp_terminateBytes := x\<rparr> else b1)"

definition countDropped :: "nat \<Rightarrow> OutboundBackpressure \<Rightarrow> OutboundBackpressure" where
  "countDropped n b = b\<lparr>bp_dropped := bp_dropped b + n\<rparr>"

definition forget :: "socket \<Rightarrow> OutboundBackpressure \<Rightarrow> OutboundBackpressure" where
  "forget ws b = b\<lparr>bp_queues := map_delete ws (bp_queues b)\<rparr>"

definition bp_clearAll :: "OutboundBackpressure \<Rightarrow> OutboundBackpressure" where
  "bp_clearAll b = foldl (\<lambda>b ws. forget ws b) b (map fst (bp_queues b))"

definition clearConnection :: "string \<Rightarrow> (string, 'a) jsmap \<Rightarrow> (string, 'a) jsmap" where
  "clearConnection i m = filter (\<lambda>(k, _). \<not> starts_with (i @ '':'') k) m"

definition batch_clearAll :: "(string, 'a) jsmap \<Rightarrow> (string, 'a) jsmap" where
  "batch_clearAll m = []"

text \<open>The slot of the connection limiter is released by \<open>release_on_disconnect\<close>.\<close>

definition onDisconnect :: "socket \<Rightarrow> delivery \<Rightarrow> delivery" where
  "onDisconnect ws d =
     (case map_get (cr_clients (dl_registry d)) ws of
        None \<Rightarrow> d
      | Some c \<Rightarrow>
          d\<lparr>dl_registry := unregister ws (removeAllSubscriptions ws (dl_registry d)),
            dl_accumulators := clearConnection (cl_id c) (dl_accumulators d),
            dl_bp := forget ws (dl_bp d)\<rparr>)"

section \<open>The outbound queue\<close>

datatype flush_end = Drained | Saturated | Socket_closed | Killed | Send_failed

fun flush_loop ::
  "OutboundBackpressure \<Rightarrow> (nat \<Rightarrow> socket_look) \<Rightarrow> nat \<Rightarrow> string list \<Rightarrow> flush_end \<times> string list \<times> string list" where
  "flush_loop b look k [] = (Drained, [], [])"
| "flush_loop b look k (m # q) =
     (if \<not> lk_open (look k) then (Socket_closed, [], m # q)
      else if bp_terminateBytes b < lk_buffered (look k) then (Killed, [], m # q)
      else if bp_dropBytes b < lk_buffered (look k) then (Saturated, [], m # q)
      else if lk_throws (look k) then (Send_failed, [], q)
      else case flush_loop b look (Suc k) q of (e, sent, left) \<Rightarrow> (e, m # sent, left))"

definition flushOutboundQueue :: "socket \<Rightarrow> (nat \<Rightarrow> socket_look) \<Rightarrow> delivery \<Rightarrow> delivery" where
  "flushOutboundQueue ws look d =
     (case map_get (bp_queues (dl_bp d)) ws of
        None \<Rightarrow> d
      | Some q \<Rightarrow>
          if q = [] then d
          else case flush_loop (dl_bp d) look 0 q of (e, sent, left) \<Rightarrow>
            let b = (dl_bp d)\<lparr>bp_sent := bp_sent (dl_bp d) + length sent, bp_queues := map_set ws left (bp_queues (dl_bp d))\<rparr>;
                d1 = d\<lparr>dl_out := dl_out d @ map (Pair ws) sent\<rparr>
            in case e of
                 Drained \<Rightarrow> d1\<lparr>dl_bp := forget ws b\<rparr>
               | Socket_closed \<Rightarrow> d1\<lparr>dl_bp := forget ws b\<rparr>
               | Saturated \<Rightarrow> d1\<lparr>dl_bp := b\<rparr>
               | Send_failed \<Rightarrow> d1\<lparr>dl_bp := countDropped 1 b\<rparr>
               | Killed \<Rightarrow>
                   onDisconnect ws
                     (d1\<lparr>dl_bp := countDropped (length left) (b\<lparr>bp_terminated := bp_terminated b + 1\<rparr>),
                         dl_killed := ws # dl_killed d\<rparr>))"

definition queue_of :: "socket \<Rightarrow> delivery \<Rightarrow> string list" where
  "queue_of ws d = nullish (map_get (bp_queues (dl_bp d)) ws) []"

definition queueOutboundMessage :: "socket \<Rightarrow> (nat \<Rightarrow> socket_look) \<Rightarrow> string \<Rightarrow> delivery \<Rightarrow> bool \<times> delivery" where
  "queueOutboundMessage ws look m d =
     (if \<not> lk_open (look 0) then (False, d)
      else let queue = queue_of ws d;
               queuedBytes = sum_list (map length queue)
           in if bp_maxQueue (dl_bp d) \<le> length queue \<or> bp_maxQueueBytes (dl_bp d) < queuedBytes + length m
              then (False, d)
              else (True, flushOutboundQueue ws look
                      (d\<lparr>dl_bp := (dl_bp d)\<lparr>bp_queues := map_set ws (queue @ [m]) (bp_queues (dl_bp d))\<rparr>\<rparr>)))"

definition drop_frames :: "nat \<Rightarrow> delivery \<Rightarrow> delivery" where
  "drop_frames n d = d\<lparr>dl_bp := countDropped n (dl_bp d)\<rparr>"

definition deliver_one :: "(nat \<Rightarrow> socket_look) \<Rightarrow> string \<Rightarrow> socket \<Rightarrow> nat \<times> delivery \<Rightarrow> nat \<times> delivery" where
  "deliver_one look m ws = (\<lambda>(sent, d).
     if \<not> lk_open (look 0) then (sent, d)
     else if bp_terminateBytes (dl_bp d) < lk_buffered (look 0)
     then (sent, onDisconnect ws
             (d\<lparr>dl_bp := countDropped 1 ((dl_bp d)\<lparr>bp_terminated := bp_terminated (dl_bp d) + 1\<rparr>), dl_killed := ws # dl_killed d\<rparr>))
     else if bp_dropBytes (dl_bp d) < lk_buffered (look 0) then (sent, drop_frames 1 d)
     else case queueOutboundMessage ws look m d of
            (True, d1) \<Rightarrow> (sent + 1, d1) | (False, d1) \<Rightarrow> (sent, drop_frames 1 d1))"

definition bp_deliverBatch :: "(socket \<Rightarrow> nat \<Rightarrow> socket_look) \<Rightarrow> socket list \<Rightarrow> string \<Rightarrow> delivery \<Rightarrow> nat \<times> delivery" where
  "bp_deliverBatch looks batch m d = foldl (\<lambda>acc ws. deliver_one (looks ws) m ws acc) (0, d) batch"

section \<open>Micro-batches\<close>

definition MAX_MESSAGE_BYTES :: nat where "MAX_MESSAGE_BYTES = 4096"

definition event_json :: "BatchedEvent \<Rightarrow> string" where
  "event_json e = json_object
     [(''eventId'', Some (json_string (be_eventId e))), (''payload'', be_payload e),
      (''correlationId'', map_option json_string (be_correlationId e))]"

definition batch_frame :: "string \<Rightarrow> BatchedEvent list \<Rightarrow> string" where
  "batch_frame streamId subset_events = json_object
     [(''type'', Some (json_string ''stream_update_batch'')), (''streamId'', Some (json_string streamId)),
      (''events'', Some (json_array (map event_json subset_events)))]"

text \<open>The binary search of \<open>send\<close>: the loop, and the function it computes.\<close>

definition cut_step :: "(nat \<Rightarrow> nat) \<Rightarrow> nat \<times> nat \<Rightarrow> nat \<times> nat" where
  "cut_step size_of = (\<lambda>(lo, hi).
     let mid = (lo + hi + 1) div 2 in if size_of mid \<le> MAX_MESSAGE_BYTES then (mid, hi) else (lo, mid - 1))"

definition cut_loop :: "(nat \<Rightarrow> nat) \<Rightarrow> nat \<times> nat \<Rightarrow> (nat \<times> nat) option" where
  "cut_loop size_of p = while_option (\<lambda>(lo, hi). lo < hi) (cut_step size_of) p"

function cut_search :: "(nat \<Rightarrow> nat) \<Rightarrow> nat \<Rightarrow> nat \<Rightarrow> nat" where
  "cut_search size_of lo hi =
     (if lo < hi
      then let mid = (lo + hi + 1) div 2
           in if size_of mid \<le> MAX_MESSAGE_BYTES then cut_search size_of mid hi else cut_search size_of lo (mid - 1)
      else lo)"
  by pat_completeness auto

termination by (relation "measure (\<lambda>(s, lo, hi). hi - lo)") auto

declare cut_search.simps [simp del]

definition safeEvents :: "string \<Rightarrow> BatchedEvent list \<Rightarrow> BatchedEvent list" where
  "safeEvents streamId events =
     (if MAX_MESSAGE_BYTES < length (batch_frame streamId events)
      then take (cut_search (\<lambda>n. length (batch_frame streamId (take n events))) 1 (length events - 1)) events
      else events)"

definition batch_send :: "socket \<Rightarrow> (nat \<Rightarrow> socket_look) \<Rightarrow> string \<Rightarrow> BatchedEvent list \<Rightarrow> delivery \<Rightarrow> delivery" where
  "batch_send ws look streamId events d =
     (if events = [] \<or> \<not> lk_open (look 0) then d
      else let safe = safeEvents streamId events
           in if safe = [] then d
              else case queueOutboundMessage ws look (batch_frame streamId safe) d of
                     (True, d1) \<Rightarrow> d1 | (False, d1) \<Rightarrow> drop_frames (length safe) d1)"

definition batch_key :: "ClientState \<Rightarrow> string \<Rightarrow> string" where
  "batch_key c streamId = cl_id c @ '':'' @ streamId"

definition enqueue :: "socket \<Rightarrow> ClientState \<Rightarrow> (nat \<Rightarrow> socket_look) \<Rightarrow> BatchedEvent \<Rightarrow> delivery \<Rightarrow> delivery" where
  "enqueue ws c look entry d =
     (let key = batch_key c (be_streamId entry);
          acc = nullish (map_get (dl_accumulators d) key) \<lparr>ba_socket = ws, ba_events = []\<rparr>;
          acc1 = acc\<lparr>ba_events := ba_events acc @ [entry]\<rparr>
      in if dl_maxSize d \<le> length (ba_events acc1)
         then batch_send ws look (be_streamId entry) (ba_events acc1) (d\<lparr>dl_accumulators := map_delete key (dl_accumulators d)\<rparr>)
         else d\<lparr>dl_accumulators := map_set key acc1 (dl_accumulators d)\<rparr>)"

definition after_colon :: "string \<Rightarrow> string" where
  "after_colon k = (if CHR '':'' \<in> set k then tl (dropWhile (\<lambda>c. c \<noteq> CHR '':'') k) else k)"

text \<open>The timer of the accumulator \<open>key\<close> fires.\<close>

definition batch_flush :: "(socket \<Rightarrow> nat \<Rightarrow> socket_look) \<Rightarrow> string \<Rightarrow> delivery \<Rightarrow> delivery" where
  "batch_flush looks key d =
     (case map_get (dl_accumulators d) key of
        None \<Rightarrow> d
      | Some acc \<Rightarrow>
          batch_send (ba_socket acc) (looks (ba_socket acc)) (after_colon key) (ba_events acc)
            (d\<lparr>dl_accumulators := map_delete key (dl_accumulators d)\<rparr>))"

section \<open>Fanout\<close>

definition FANOUT_YIELD_BATCH :: nat where "FANOUT_YIELD_BATCH = 256"

function chunks :: "nat \<Rightarrow> 'a list \<Rightarrow> 'a list list" where
  "chunks n xs = (if n = 0 \<or> length xs \<le> n then [xs] else take n xs # chunks n (drop n xs))"
  by pat_completeness auto

termination by (relation "measure (\<lambda>(n, xs). length xs)") auto

declare chunks.simps [simp del]

text \<open>\<open>stringify\<close> gives the JSON text of the payload; between two chunks the event loop turns, which is an operation of its own.\<close>

definition update_frame :: "StreamUpdateEvent \<Rightarrow> string option \<Rightarrow> string option \<Rightarrow> string" where
  "update_frame e payload correlationId = json_object
     [(''type'', Some (json_string ''stream_update'')), (''streamId'', Some (json_string (su_streamId e))),
      (''eventId'', Some (json_string (su_eventId e))), (''payload'', payload),
      (''correlationId'', map_option json_string correlationId)]"

definition dispatchEvent ::
  "(jsval \<Rightarrow> string option) \<Rightarrow> (socket \<Rightarrow> nat \<Rightarrow> socket_look) \<Rightarrow> string option \<Rightarrow> StreamUpdateEvent \<Rightarrow> delivery \<Rightarrow> delivery" where
  "dispatchEvent stringify looks correlationId e d =
     (case resolveTargets e (dl_registry d) of (batched, immediate) \<Rightarrow>
        let entry = \<lparr>be_streamId = su_streamId e, be_eventId = su_eventId e, be_payload = stringify (su_payload e),
                     be_correlationId = correlationId\<rparr>;
            states = map (\<lambda>ws. (ws, the (map_get (cr_clients (dl_registry d)) ws))) batched;
            d1 = foldl (\<lambda>d (ws, c). enqueue ws c (looks ws) entry d) d states;
            m = update_frame e (stringify (su_payload e)) correlationId
        in if immediate = [] then d1
           else foldl (\<lambda>d chunk. snd (bp_deliverBatch looks chunk m d)) d1 (chunks FANOUT_YIELD_BATCH immediate))"

section \<open>Health probes\<close>

definition probe_client :: "nat \<Rightarrow> (socket \<Rightarrow> socket_look) \<Rightarrow> socket \<Rightarrow> ClientState \<Rightarrow> ClientState" where
  "probe_client maxMissed look ws c =
     (if \<not> lk_open (look ws) \<or> maxMissed \<le> cl_missedPongs c then c else c\<lparr>cl_missedPongs := cl_missedPongs c + 1\<rparr>)"

record probe_result =
  pr_terminated :: "socket list"
  pr_pinged :: "socket list"
  pr_healthy :: nat
  pr_stalled :: nat
  pr_unhealthy :: nat

definition runHealthProbes ::
  "nat \<Rightarrow> int \<Rightarrow> (socket \<Rightarrow> socket_look) \<Rightarrow> ConnectionRegistry \<Rightarrow> probe_result \<times> ConnectionRegistry" where
  "runHealthProbes maxMissed stallBytes look r =
     (let open_ones = filter (\<lambda>(ws, c). lk_open (look ws)) (cr_clients r);
          dead = filter (\<lambda>(ws, c). maxMissed \<le> cl_missedPongs c) open_ones;
          live = filter (\<lambda>(ws, c). \<not> maxMissed \<le> cl_missedPongs c) open_ones
      in (\<lparr>pr_terminated = map fst dead, pr_pinged = map fst live,
           pr_healthy = length (filter (\<lambda>(ws, c). \<not> stallBytes < lk_buffered (look ws)) live),
           pr_stalled = length (filter (\<lambda>(ws, c). stallBytes < lk_buffered (look ws)) live),
           pr_unhealthy = length dead\<rparr>,
          r\<lparr>cr_clients := map (\<lambda>(ws, c). (ws, probe_client maxMissed look ws c)) (cr_clients r)\<rparr>))"

definition pong :: "socket \<Rightarrow> ConnectionRegistry \<Rightarrow> ConnectionRegistry" where
  "pong ws r =
     (case map_get (cr_clients r) ws of
        None \<Rightarrow> r | Some c \<Rightarrow> r\<lparr>cr_clients := map_set ws (c\<lparr>cl_missedPongs := 0\<rparr>) (cr_clients r)\<rparr>)"

section \<open>Replay\<close>

text \<open>\<open>looks k\<close> is the socket at the \<open>k\<close>-th test of \<open>readyState\<close>, \<open>queue\<close> the hub's \<open>queueOutboundMessage\<close>, whose
  answer is ignored. \<open>None\<close> is a run of the loop that needs more pages than the fuel allows.\<close>

datatype replay_end = Replay_unavailable | Stale_cursor | Store_failed StoreError | Replay_closed | Replay_complete

fun replay_events :: "('e \<Rightarrow> string) \<Rightarrow> (nat \<Rightarrow> bool) \<Rightarrow> nat \<Rightarrow> 'e list \<Rightarrow> bool \<times> string list" where
  "replay_events frame opened k [] = (True, [])"
| "replay_events frame opened k (e # es) =
     (if \<not> opened k then (False, []) else case replay_events frame opened (Suc k) es of (ok, fs) \<Rightarrow> (ok, frame e # fs))"

fun replay_pages ::
  "(StreamEventReplayFilter \<Rightarrow> StoreError + StreamEventReplayResult) \<Rightarrow> (ContractEventRecord \<Rightarrow> string) \<Rightarrow> (nat \<Rightarrow> bool) \<Rightarrow>
   nat \<Rightarrow> nat \<Rightarrow> StreamEventReplayFilter \<Rightarrow> (replay_end \<times> nat \<times> string list) option" where
  "replay_pages store frame opened 0 k flt = None"
| "replay_pages store frame opened (Suc n) k flt =
     (if \<not> opened k then Some (Replay_closed, Suc k, [])
      else case store flt of
             Inl (StaleCursorError c) \<Rightarrow> Some (Stale_cursor, Suc k, [])
           | Inl err \<Rightarrow> Some (Store_failed err, Suc k, [])
           | Inr res \<Rightarrow>
               (case replay_events frame opened (Suc k) (res_events res) of
                  (False, fs) \<Rightarrow> Some (Replay_closed, Suc k + length fs + 1, fs)
                | (True, fs) \<Rightarrow>
                    (case res_nextCursor res of
                       None \<Rightarrow> Some (Replay_complete, Suc k + length fs, fs)
                     | Some c \<Rightarrow>
                         map_option (\<lambda>(e, k', gs). (e, k', fs @ gs))
                           (replay_pages store frame opened n (Suc k + length fs) (flt\<lparr>f_afterEventId := Some c\<rparr>)))))"

definition stale_cursor_frame :: string where
  "stale_cursor_frame = json_object
     [(''type'', Some (json_string ''error'')), (''code'', Some (json_string ''STALE_CURSOR'')),
      (''message'', Some (json_string ''Replay cursor no longer exists; resync from fromLedger''))]"

definition unavailable_frame :: string where
  "unavailable_frame = json_object
     [(''type'', Some (json_string ''error'')), (''code'', Some (json_string ''REPLAY_UNAVAILABLE'')),
      (''message'', Some (json_string ''Event store is not configured''))]"

definition complete_frame :: string where
  "complete_frame = json_object [(''type'', Some (json_string ''stream_replay_complete'')), (''cursor'', Some ''null'')]"

text \<open>The frames that are queued for the client, in order, and how the replay ends.\<close>

definition replayFromCursor ::
  "(StreamEventReplayFilter \<Rightarrow> StoreError + StreamEventReplayResult) option \<Rightarrow> (ContractEventRecord \<Rightarrow> string) \<Rightarrow> (nat \<Rightarrow> bool) \<Rightarrow>
   nat \<Rightarrow> StreamEventReplayFilter \<Rightarrow> (replay_end \<times> string list) option" where
  "replayFromCursor store frame opened fuel flt =
     (case store of
        None \<Rightarrow> Some (Replay_unavailable, [unavailable_frame])
      | Some get \<Rightarrow>
          map_option (\<lambda>(e, k, fs).
            (e, case e of
                  Stale_cursor \<Rightarrow> fs @ [stale_cursor_frame]
                | Replay_complete \<Rightarrow> if opened k then fs @ [complete_frame] else fs
                | _ \<Rightarrow> fs))
            (replay_pages get frame opened fuel 0 (flt\<lparr>f_limit := Some (min (nullish (f_limit flt) 100) 1000)\<rparr>)))"

section \<open>Ceilings\<close>

definition queue_ok :: "OutboundBackpressure \<Rightarrow> bool" where
  "queue_ok b \<longleftrightarrow> (\<forall>ws q. map_get (bp_queues b) ws = Some q \<longrightarrow>
     length q \<le> bp_maxQueue b \<and> sum_list (map length q) \<le> bp_maxQueueBytes b)"

definition batches_ok :: "nat \<Rightarrow> (string, ClientBatchAccumulator) jsmap \<Rightarrow> bool" where
  "batches_ok n m \<longleftrightarrow> (\<forall>(k, acc) \<in> set m. ba_events acc \<noteq> [] \<and> length (ba_events acc) < n)"

definition delivery_ok :: "delivery \<Rightarrow> bool" where
  "delivery_ok d \<longleftrightarrow> queue_ok (dl_bp d) \<and> batches_ok (dl_maxSize d) (dl_accumulators d) \<and>
     bp_sent (dl_bp d) = length (dl_out d)"

lemma flush_loop_split:
  "flush_loop b look k q = (e, sent, left) \<Longrightarrow>
   (case e of Send_failed \<Rightarrow> \<exists>m. q = sent @ m # left | Drained \<Rightarrow> q = sent \<and> left = [] | _ \<Rightarrow> q = sent @ left)"
  by (induction b look k q arbitrary: e sent left rule: flush_loop.induct)
     (fastforce split: if_splits prod.splits flush_end.splits)+

lemma flush_loop_left:
  assumes "flush_loop b look k q = (e, sent, left)"
  shows "\<exists>xs. q = xs @ left"
  using flush_loop_split [OF assms] by (cases e) (auto intro: exI [of _ "sent @ [_]"])

lemma queue_ok_cong:
  "bp_queues b = bp_queues b' \<Longrightarrow> bp_maxQueue b = bp_maxQueue b' \<Longrightarrow> bp_maxQueueBytes b = bp_maxQueueBytes b' \<Longrightarrow> queue_ok b = queue_ok b'"
  by (simp add: queue_ok_def)

lemma queue_ok_forget [simp]: "queue_ok b \<Longrightarrow> queue_ok (forget ws b)"
  by (simp add: queue_ok_def forget_def)

lemma queue_ok_dropped [simp]: "queue_ok (countDropped n b) = queue_ok b"
  by (simp add: queue_ok_def countDropped_def)

lemma bp_sent_kept [simp]: "bp_sent (forget ws b) = bp_sent b" "bp_sent (countDropped n b) = bp_sent b"
  by (simp_all add: forget_def countDropped_def)

lemma batches_ok_delete [simp]: "batches_ok n m \<Longrightarrow> batches_ok n (map_delete k m)"
  by (auto simp: batches_ok_def AList.delete_eq)

lemma batches_ok_clear [simp]: "batches_ok n m \<Longrightarrow> batches_ok n (clearConnection i m)"
  by (auto simp: batches_ok_def clearConnection_def)

lemma batches_ok_set: "batches_ok n m \<Longrightarrow> ba_events acc \<noteq> [] \<Longrightarrow> length (ba_events acc) < n \<Longrightarrow> batches_ok n (map_set k acc m)"
  by (induction m) (auto simp: batches_ok_def split: if_splits)

lemma batches_ok_get: "batches_ok n m \<Longrightarrow> map_get m k = Some acc \<Longrightarrow> ba_events acc \<noteq> [] \<and> length (ba_events acc) < n"
  by (auto simp: batches_ok_def dest: map_of_SomeD)

text \<open>Teardown touches neither the output nor the settings.\<close>

lemma onDisconnect_ok: "delivery_ok d \<Longrightarrow> delivery_ok (onDisconnect ws d)"
  by (auto simp: onDisconnect_def delivery_ok_def forget_def queue_ok_def split: option.splits)

lemma drop_frames_ok [simp]: "delivery_ok (drop_frames n d) = delivery_ok d"
  by (simp add: drop_frames_def delivery_ok_def)

lemma flush_ok:
  assumes "delivery_ok d"
  shows "delivery_ok (flushOutboundQueue ws look d)"
proof (cases "map_get (bp_queues (dl_bp d)) ws")
  case None
  then show ?thesis using assms by (simp add: flushOutboundQueue_def)
next
  case (Some q)
  obtain e sent left where f: "flush_loop (dl_bp d) look 0 q = (e, sent, left)" using prod_cases3 by blast
  let ?b = "(dl_bp d)\<lparr>bp_sent := bp_sent (dl_bp d) + length sent, bp_queues := map_set ws left (bp_queues (dl_bp d))\<rparr>"
  from flush_loop_left [OF f] obtain xs where "q = xs @ left" by blast
  then have q: "queue_ok ?b" using assms Some by (fastforce simp: delivery_ok_def queue_ok_def)
  have ok: "delivery_ok (d\<lparr>dl_out := dl_out d @ map (Pair ws) sent, dl_bp := b\<rparr>)"
    "delivery_ok (d\<lparr>dl_out := dl_out d @ map (Pair ws) sent, dl_bp := b, dl_killed := ks\<rparr>)"
    if "queue_ok b" "bp_sent b = bp_sent (dl_bp d) + length sent" for b ks
    using that assms by (simp_all add: delivery_ok_def)
  have b: "queue_ok (forget ws ?b)" "queue_ok (?b\<lparr>bp_terminated := k\<rparr>)" for k
    using q queue_ok_cong [of "?b\<lparr>bp_terminated := k\<rparr>" ?b] by simp_all
  show ?thesis
  proof (cases "q = []")
    case False
    note * = flushOutboundQueue_def Some f False
    show ?thesis
      by (cases e) (simp_all add: * Let_def onDisconnect_ok ok q b)
  qed (use assms Some in \<open>simp add: flushOutboundQueue_def\<close>)
qed

lemma queue_message_ok:
  assumes "delivery_ok d"
  shows "delivery_ok (snd (queueOutboundMessage ws look m d))"
proof -
  have "queue_ok ((dl_bp d)\<lparr>bp_queues := map_set ws (queue_of ws d @ [m]) (bp_queues (dl_bp d))\<rparr>)"
    if "\<not> bp_maxQueue (dl_bp d) \<le> length (queue_of ws d)"
      "\<not> bp_maxQueueBytes (dl_bp d) < sum_list (map length (queue_of ws d)) + length m"
    using that assms by (auto simp: delivery_ok_def queue_ok_def)
  then have "delivery_ok (d\<lparr>dl_bp := (dl_bp d)\<lparr>bp_queues := map_set ws (queue_of ws d @ [m]) (bp_queues (dl_bp d))\<rparr>\<rparr>)"
    if "\<not> bp_maxQueue (dl_bp d) \<le> length (queue_of ws d)"
      "\<not> bp_maxQueueBytes (dl_bp d) < sum_list (map length (queue_of ws d)) + length m"
    using that assms by (simp add: delivery_ok_def)
  then show ?thesis using assms by (auto simp: queueOutboundMessage_def Let_def intro!: flush_ok)
qed

lemma deliver_one_ok:
  assumes "delivery_ok (snd p)"
  shows "delivery_ok (snd (deliver_one look m ws p))"
proof (cases p)
  case (Pair n d)
  have "delivery_ok (d\<lparr>dl_bp := countDropped 1 ((dl_bp d)\<lparr>bp_terminated := k\<rparr>), dl_killed := ks\<rparr>)" for k ks
    using assms Pair queue_ok_cong [of "(dl_bp d)\<lparr>bp_terminated := k\<rparr>" "dl_bp d"] by (simp add: delivery_ok_def)
  then show ?thesis
    using assms Pair queue_message_ok [of d ws look m]
    by (auto simp: deliver_one_def onDisconnect_ok split: prod.splits bool.splits)
qed

lemma deliver_batch_ok: "delivery_ok d \<Longrightarrow> delivery_ok (snd (bp_deliverBatch looks ws m d))"
proof -
  have "delivery_ok (snd p) \<Longrightarrow> delivery_ok (snd (foldl (\<lambda>acc ws. deliver_one (looks ws) m ws acc) p ws))" for p
    by (induction ws arbitrary: p) (simp_all add: deliver_one_ok)
  then show "delivery_ok d \<Longrightarrow> ?thesis" by (simp add: bp_deliverBatch_def)
qed

lemma batch_send_ok: "delivery_ok d \<Longrightarrow> delivery_ok (batch_send ws look i es d)"
  using queue_message_ok [of d ws look "batch_frame i (safeEvents i es)"]
  by (auto simp: batch_send_def Let_def split: prod.splits bool.splits)

lemma enqueue_ok:
  assumes "delivery_ok d"
  shows "delivery_ok (enqueue ws c look entry d)"
proof -
  have "delivery_ok (d\<lparr>dl_accumulators := map_delete k (dl_accumulators d)\<rparr>)" for k using assms by (simp add: delivery_ok_def)
  moreover have "delivery_ok (d\<lparr>dl_accumulators := map_set k acc (dl_accumulators d)\<rparr>)"
    if "ba_events acc \<noteq> []" "\<not> dl_maxSize d \<le> length (ba_events acc)" for k acc
    using assms that by (simp add: delivery_ok_def batches_ok_set)
  ultimately show ?thesis by (simp add: enqueue_def Let_def batch_send_ok)
qed

lemma batch_flush_ok:
  assumes "delivery_ok d"
  shows "delivery_ok (batch_flush looks key d)"
proof -
  have "delivery_ok (d\<lparr>dl_accumulators := map_delete key (dl_accumulators d)\<rparr>)" using assms by (simp add: delivery_ok_def)
  then show ?thesis using assms by (simp add: batch_flush_def batch_send_ok split: option.splits)
qed

lemma foldl_ok: "delivery_ok d \<Longrightarrow> (\<And>d x. delivery_ok d \<Longrightarrow> delivery_ok (f d x)) \<Longrightarrow> delivery_ok (foldl f d xs)"
  by (induction xs arbitrary: d) auto

lemma dispatch_ok: "delivery_ok d \<Longrightarrow> delivery_ok (dispatchEvent stringify looks cid e d)"
  by (auto simp: dispatchEvent_def Let_def deliver_batch_ok enqueue_ok intro!: foldl_ok split: prod.splits)

text \<open>Everything that happens to the outbound half.\<close>

datatype delivery_op =
    Queue_frame socket "nat \<Rightarrow> socket_look" string
  | Dispatch_event "socket \<Rightarrow> nat \<Rightarrow> socket_look" "string option" "string option" StreamUpdateEvent
  | Batch_timer "socket \<Rightarrow> nat \<Rightarrow> socket_look" string
  | Socket_gone socket
  | Client_registered socket string string "string option"
  | Registry_changed ConnectionRegistry
  | Thresholds "int option" "int option"
  | Hub_closed

definition delivery_step :: "delivery \<Rightarrow> delivery_op \<Rightarrow> delivery" where
  "delivery_step d x =
     (case x of
        Queue_frame ws look m \<Rightarrow> snd (queueOutboundMessage ws look m d)
      | Dispatch_event looks payload cid e \<Rightarrow> dispatchEvent (\<lambda>_. payload) looks cid e d
      | Batch_timer looks key \<Rightarrow> batch_flush looks key d
      | Socket_gone ws \<Rightarrow> onDisconnect ws d
      | Client_registered ws i ip s \<Rightarrow> d\<lparr>dl_registry := register ws (createClientState i ip s) (dl_registry d)\<rparr>
      | Registry_changed r \<Rightarrow> d\<lparr>dl_registry := r\<rparr>
      | Thresholds a b \<Rightarrow> d\<lparr>dl_bp := setThresholds a b (dl_bp d)\<rparr>
      | Hub_closed \<Rightarrow> d\<lparr>dl_accumulators := batch_clearAll (dl_accumulators d), dl_bp := bp_clearAll (dl_bp d)\<rparr>)"

lemma clear_all_kept [simp]:
  "queue_ok b \<Longrightarrow> queue_ok (bp_clearAll b)" "bp_sent (bp_clearAll b) = bp_sent b"
proof -
  have "queue_ok b \<Longrightarrow> queue_ok (foldl (\<lambda>b ws. forget ws b) b xs)" "bp_sent (foldl (\<lambda>b ws. forget ws b) b xs) = bp_sent b" for xs
    by (induction xs arbitrary: b) simp_all
  then show "queue_ok b \<Longrightarrow> queue_ok (bp_clearAll b)" "bp_sent (bp_clearAll b) = bp_sent b" by (simp_all add: bp_clearAll_def)
qed

lemma thresholds_kept [simp]: "queue_ok (setThresholds a b c) = queue_ok c" "bp_sent (setThresholds a b c) = bp_sent c"
  by (simp_all add: setThresholds_def queue_ok_def Let_def split: option.splits)

lemma delivery_step_ok: "delivery_ok d \<Longrightarrow> delivery_ok (delivery_step d x)"
  by (cases x)
     (simp_all add: delivery_step_def queue_message_ok dispatch_ok batch_flush_ok onDisconnect_ok,
      simp_all add: delivery_ok_def batch_clearAll_def batches_ok_def)

interpretation delivery_run: op_invariant delivery_step delivery_ok
  by unfold_locales (rule delivery_step_ok)

definition new_delivery :: "int \<Rightarrow> int \<Rightarrow> nat \<Rightarrow> nat \<Rightarrow> nat \<Rightarrow> delivery" where
  "new_delivery dropBytes terminateBytes maxQueue maxBytes maxSize =
     \<lparr>dl_registry = new_registry,
      dl_bp = \<lparr>bp_dropBytes = dropBytes, bp_terminateBytes = terminateBytes, bp_maxQueue = maxQueue, bp_maxQueueBytes = maxBytes,
               bp_queues = [], bp_dropped = 0, bp_terminated = 0, bp_sent = 0\<rparr>,
      dl_maxSize = maxSize, dl_accumulators = [], dl_out = [], dl_killed = []\<rparr>"

lemma new_delivery_ok: "delivery_ok (new_delivery dropBytes terminateBytes maxQueue maxBytes maxSize)"
  by (simp add: delivery_ok_def new_delivery_def queue_ok_def batches_ok_def)

text \<open>No operation changes the ceilings.\<close>

definition ceilings :: "delivery \<Rightarrow> nat \<times> nat \<times> nat" where
  "ceilings d = (bp_maxQueue (dl_bp d), bp_maxQueueBytes (dl_bp d), dl_maxSize d)"

lemma ceilings_disconnect [simp]: "ceilings (onDisconnect ws d) = ceilings d"
  by (simp add: ceilings_def onDisconnect_def forget_def split: option.splits)

lemma ceilings_drop [simp]: "ceilings (drop_frames n d) = ceilings d"
  by (simp add: ceilings_def drop_frames_def countDropped_def)

lemma ceilings_flush [simp]: "ceilings (flushOutboundQueue ws look d) = ceilings d"
  by (auto simp: flushOutboundQueue_def Let_def ceilings_def forget_def countDropped_def
      split: option.splits prod.splits flush_end.splits) (simp_all add: onDisconnect_def forget_def split: option.splits)

lemma ceilings_queue [simp]: "ceilings (snd (queueOutboundMessage ws look m d)) = ceilings d"
  by (simp add: queueOutboundMessage_def Let_def) (simp add: ceilings_def)

lemma ceilings_queued: "queueOutboundMessage ws look m d = (ok, d1) \<Longrightarrow> ceilings d1 = ceilings d"
  using ceilings_queue [of ws look m d] by simp

lemma ceilings_killed [simp]: "ceilings (d\<lparr>dl_bp := countDropped n ((dl_bp d)\<lparr>bp_terminated := k\<rparr>), dl_killed := ks\<rparr>) = ceilings d"
  by (simp add: ceilings_def countDropped_def)

lemma ceilings_deliver [simp]: "ceilings (snd (deliver_one look m ws p)) = ceilings (snd p)"
  by (cases p) (auto simp: deliver_one_def ceilings_queued split: prod.splits bool.splits)

lemma ceilings_deliver_batch [simp]: "ceilings (snd (bp_deliverBatch looks ws m d)) = ceilings d"
proof -
  have "ceilings (snd (foldl (\<lambda>acc ws. deliver_one (looks ws) m ws acc) p ws)) = ceilings (snd p)" for p
    by (induction ws arbitrary: p) simp_all
  then show ?thesis by (simp add: bp_deliverBatch_def)
qed

lemma ceilings_batch_send [simp]: "ceilings (batch_send ws look i es d) = ceilings d"
  by (auto simp: batch_send_def Let_def ceilings_queued split: prod.splits bool.splits)

lemma ceilings_enqueue [simp]: "ceilings (enqueue ws c look entry d) = ceilings d"
  by (simp add: enqueue_def Let_def) (simp add: ceilings_def)

lemma ceilings_batch_flush [simp]: "ceilings (batch_flush looks key d) = ceilings d"
  by (simp add: batch_flush_def split: option.splits) (simp add: ceilings_def)

lemma ceilings_foldl: "(\<And>d x. ceilings (f d x) = ceilings d) \<Longrightarrow> ceilings (foldl f d xs) = ceilings d"
  by (induction xs arbitrary: d) simp_all

lemma ceilings_dispatch [simp]: "ceilings (dispatchEvent stringify looks cid e d) = ceilings d"
  by (auto simp: dispatchEvent_def Let_def ceilings_foldl split: prod.splits)

lemma ceilings_step: "ceilings (delivery_step d x) = ceilings d"
proof -
  have "ceilings (foldl (\<lambda>d ws. d\<lparr>dl_bp := forget ws (dl_bp d)\<rparr>) d xs) = ceilings d" for d xs
    by (rule ceilings_foldl) (simp add: ceilings_def forget_def)
  moreover have "foldl (\<lambda>d ws. d\<lparr>dl_bp := forget ws (dl_bp d)\<rparr>) d xs = d\<lparr>dl_bp := foldl (\<lambda>b ws. forget ws b) (dl_bp d) xs\<rparr>" for d :: delivery and xs
    by (induction xs arbitrary: d) simp_all
  ultimately have "ceilings (d\<lparr>dl_bp := bp_clearAll (dl_bp d)\<rparr>) = ceilings d" by (simp add: bp_clearAll_def)
  moreover have "ceilings (d\<lparr>dl_accumulators := a, dl_bp := b\<rparr>) = ceilings (d\<lparr>dl_bp := b\<rparr>)"
    "ceilings (d\<lparr>dl_registry := r\<rparr>) = ceilings d" "ceilings (d\<lparr>dl_bp := setThresholds u v (dl_bp d)\<rparr>) = ceilings d" for a b r u v
    by (simp_all add: ceilings_def setThresholds_def Let_def split: option.splits)
  ultimately show ?thesis by (cases x) (simp_all add: delivery_step_def)
qed

text \<open>(C22) The memory held for slow clients is bounded: after any sequence of queued frames, dispatched events, batch timers,
  disconnections, registrations, threshold changes and shutdowns, whatever the sockets do, every outbound queue has at most the
  configured number of frames and bytes and every pending batch is non-empty and smaller than the batch size. And the counter of
  sent frames is the number of frames that were handed to sockets.\<close>

theorem delivery_bounded:
  assumes "d = foldl delivery_step (new_delivery dropBytes terminateBytes maxQueue maxBytes maxSize) xs"
  shows "(\<forall>ws. length (queue_of ws d) \<le> maxQueue \<and> sum_list (map length (queue_of ws d)) \<le> maxBytes) \<and>
    (\<forall>key acc. map_get (dl_accumulators d) key = Some acc \<longrightarrow> ba_events acc \<noteq> [] \<and> length (ba_events acc) < maxSize) \<and>
    bp_sent (dl_bp d) = length (dl_out d)"
proof -
  have ok: "delivery_ok d" unfolding assms by (rule delivery_run.run_inv [OF new_delivery_ok])
  have "ceilings d = ceilings (new_delivery dropBytes terminateBytes maxQueue maxBytes maxSize)"
    unfolding assms by (rule ceilings_foldl [OF ceilings_step])
  then have c: "bp_maxQueue (dl_bp d) = maxQueue" "bp_maxQueueBytes (dl_bp d) = maxBytes" "dl_maxSize d = maxSize"
    by (simp_all add: ceilings_def new_delivery_def)
  have "length (queue_of ws d) \<le> maxQueue \<and> sum_list (map length (queue_of ws d)) \<le> maxBytes" for ws
    using ok unfolding delivery_ok_def queue_ok_def c queue_of_def by (cases "map_get (bp_queues (dl_bp d)) ws") auto
  then show ?thesis using ok batches_ok_get unfolding delivery_ok_def c by blast
qed

section \<open>Order of delivery\<close>

definition sent_to :: "socket \<Rightarrow> delivery \<Rightarrow> string list" where
  "sent_to ws d = map snd (filter (\<lambda>p. fst p = ws) (dl_out d))"

text \<open>A sequence of calls of \<open>queueOutboundMessage\<close>, with the answers.\<close>

type_synonym queue_call = "socket \<times> (nat \<Rightarrow> socket_look) \<times> string"

fun queue_run :: "queue_call list \<Rightarrow> delivery \<Rightarrow> bool list \<times> delivery" where
  "queue_run [] d = ([], d)"
| "queue_run ((ws, look, m) # cs) d =
     (case queueOutboundMessage ws look m d of (ok, d1) \<Rightarrow> case queue_run cs d1 of (oks, d2) \<Rightarrow> (ok # oks, d2))"

definition accepted :: "socket \<Rightarrow> queue_call list \<Rightarrow> bool list \<Rightarrow> string list" where
  "accepted ws cs oks = map (\<lambda>(c, ok). snd (snd c)) (filter (\<lambda>(c, ok). fst c = ws \<and> ok) (zip cs oks))"

definition keeps_up :: "delivery \<Rightarrow> (nat \<Rightarrow> socket_look) \<Rightarrow> bool" where
  "keeps_up d look \<longleftrightarrow> (\<forall>k. lk_open (look k) \<and> lk_buffered (look k) \<le> bp_terminateBytes (dl_bp d) \<and> \<not> lk_throws (look k))"

lemma queue_of_disconnect: "queue_of v (onDisconnect ws d) = queue_of v d \<or> v = ws \<and> queue_of v (onDisconnect ws d) = []"
  by (auto simp: onDisconnect_def queue_of_def forget_def split: option.splits)

lemma sent_disconnect [simp]: "dl_out (onDisconnect ws d) = dl_out d"
  by (simp add: onDisconnect_def split: option.splits)

lemma thresholds_disconnect [simp]:
  "bp_terminateBytes (dl_bp (onDisconnect ws d)) = bp_terminateBytes (dl_bp d)"
  by (simp add: onDisconnect_def forget_def split: option.splits)

lemma flush_views:
  assumes "map_get (bp_queues (dl_bp d)) ws = Some q" "q \<noteq> []" "flush_loop (dl_bp d) look 0 q = (e, sent, left)"
  shows "dl_out (flushOutboundQueue ws look d) = dl_out d @ map (Pair ws) sent"
    and "bp_terminateBytes (dl_bp (flushOutboundQueue ws look d)) = bp_terminateBytes (dl_bp d)"
    and "queue_of ws (flushOutboundQueue ws look d) \<in> {left, []}"
    and "e = Saturated \<or> e = Drained \<Longrightarrow> queue_of ws (flushOutboundQueue ws look d) = left"
    and "v \<noteq> ws \<Longrightarrow> queue_of v (flushOutboundQueue ws look d) = queue_of v d"
proof -
  show "dl_out (flushOutboundQueue ws look d) = dl_out d @ map (Pair ws) sent"
    "bp_terminateBytes (dl_bp (flushOutboundQueue ws look d)) = bp_terminateBytes (dl_bp d)"
    using assms by (simp_all add: flushOutboundQueue_def Let_def forget_def countDropped_def split: flush_end.splits)
  show "queue_of ws (flushOutboundQueue ws look d) \<in> {left, []}"
    using assms queue_of_disconnect [of ws ws]
    by (auto simp: flushOutboundQueue_def Let_def queue_of_def forget_def countDropped_def onDisconnect_def
        split: flush_end.splits option.splits)
  show "e = Saturated \<or> e = Drained \<Longrightarrow> queue_of ws (flushOutboundQueue ws look d) = left"
    using assms flush_loop_split [OF assms(3)] by (auto simp: flushOutboundQueue_def Let_def queue_of_def forget_def)
  show "v \<noteq> ws \<Longrightarrow> queue_of v (flushOutboundQueue ws look d) = queue_of v d"
    using assms by (auto simp: flushOutboundQueue_def Let_def queue_of_def forget_def countDropped_def onDisconnect_def
        split: flush_end.splits option.splits)
qed

lemma keeps_up_ends:
  assumes "keeps_up d look" "flush_loop (dl_bp d) look k q = (e, sent, left)"
  shows "e = Saturated \<or> e = Drained"
  using assms(2)
proof (induction q arbitrary: k e sent left)
  case (Cons m q)
  have "lk_open (look k)" "\<not> bp_terminateBytes (dl_bp d) < lk_buffered (look k)" "\<not> lk_throws (look k)"
    using assms(1) by (simp_all add: keeps_up_def not_less)
  then show ?case using Cons by (auto split: if_splits prod.splits)
qed simp

lemma subseq_drop_mid: "subseq (xs @ ys) (xs @ m # ys)"
  by (induction xs) auto

lemma flush_loop_subseq:
  assumes "flush_loop b look k q = (e, sent, left)"
  shows "subseq (sent @ left) q"
  using flush_loop_split [OF assms] subseq_drop_mid by (cases e) auto

lemma flush_loop_keeps: "keeps_up d look \<Longrightarrow> flush_loop (dl_bp d) look k q = (e, sent, left) \<Longrightarrow> sent @ left = q"
  using keeps_up_ends flush_loop_split by fastforce

text \<open>One call, as seen by the socket it is for and by the others.\<close>

lemma queue_call_other:
  assumes "queueOutboundMessage ws look m d = (ok, d1)"
  shows "v \<noteq> ws \<Longrightarrow> sent_to v d1 = sent_to v d \<and> queue_of v d1 = queue_of v d" "keeps_up d1 = keeps_up d"
proof -
  let ?d = "d\<lparr>dl_bp := (dl_bp d)\<lparr>bp_queues := map_set ws (queue_of ws d @ [m]) (bp_queues (dl_bp d))\<rparr>\<rparr>"
  let ?q = "queue_of ws d @ [m]"
  obtain e sent left where f: "flush_loop (dl_bp ?d) look 0 ?q = (e, sent, left)" using prod_cases3 by blast
  have g: "map_get (bp_queues (dl_bp ?d)) ws = Some ?q" "?q \<noteq> []" by simp_all
  have "d1 = d \<or> d1 = flushOutboundQueue ws look ?d"
    using assms by (auto simp: queueOutboundMessage_def Let_def split: if_splits)
  then show "v \<noteq> ws \<Longrightarrow> sent_to v d1 = sent_to v d \<and> queue_of v d1 = queue_of v d" "keeps_up d1 = keeps_up d"
    using flush_views(1,2) [OF g f] flush_views(5) [OF g f, of v]
    by (auto simp: sent_to_def queue_of_def keeps_up_def filter_map comp_def fun_eq_iff)
qed

lemma queue_call_own:
  assumes "queueOutboundMessage ws look m d = (ok, d1)"
  shows "\<exists>sent. sent_to ws d1 = sent_to ws d @ sent \<and>
    subseq (sent @ queue_of ws d1) (queue_of ws d @ (if ok then [m] else [])) \<and>
    (keeps_up d look \<longrightarrow> sent @ queue_of ws d1 = queue_of ws d @ (if ok then [m] else []))"
proof (cases ok)
  case False
  then show ?thesis using assms by (auto simp: queueOutboundMessage_def Let_def split: if_splits)
next
  case True
  let ?d = "d\<lparr>dl_bp := (dl_bp d)\<lparr>bp_queues := map_set ws (queue_of ws d @ [m]) (bp_queues (dl_bp d))\<rparr>\<rparr>"
  let ?q = "queue_of ws d @ [m]"
  obtain e sent left where f: "flush_loop (dl_bp ?d) look 0 ?q = (e, sent, left)" using prod_cases3 by blast
  have g: "map_get (bp_queues (dl_bp ?d)) ws = Some ?q" "?q \<noteq> []" by simp_all
  have d1: "d1 = flushOutboundQueue ws look ?d"
    using assms True by (auto simp: queueOutboundMessage_def Let_def split: if_splits)
  note v = flush_views [OF g f, folded d1]
  have "sent_to ws d1 = sent_to ws d @ sent" by (simp add: sent_to_def v(1) filter_map comp_def)
  moreover have "subseq (sent @ queue_of ws d1) ?q"
  proof -
    have "subseq (sent @ queue_of ws d1) (sent @ left)" using v(3) by auto
    then show ?thesis using flush_loop_subseq [OF f] subseq_order.order_trans by blast
  qed
  moreover have "sent @ queue_of ws d1 = ?q" if "keeps_up d look"
  proof -
    have "keeps_up ?d look" using that by (simp add: keeps_up_def)
    then show ?thesis using keeps_up_ends [OF _ f] flush_loop_keeps [OF _ f] v(4) by auto
  qed
  ultimately show ?thesis using True by auto
qed

lemma accepted_Cons: "accepted ws ((v, look, m) # cs) (ok # oks) = (if v = ws \<and> ok then [m] else []) @ accepted ws cs oks"
  by (simp add: accepted_def)

text \<open>(C10) Frames leave a connection in the order in which they were accepted. Over any sequence of calls for any sockets, what was handed
  to a socket followed by what is still queued for it is a subsequence of what was accepted for it: nothing is duplicated or
  reordered, however sockets fill up, fail or close. While the peer stays open and below the termination threshold nothing is lost either:
  the two are equal.\<close>

theorem frames_in_order:
  assumes "queue_run cs d = (oks, d')"
  shows "subseq (sent_to ws d' @ queue_of ws d') (sent_to ws d @ queue_of ws d @ accepted ws cs oks) \<and>
    ((\<forall>look m. (ws, look, m) \<in> set cs \<longrightarrow> keeps_up d look) \<longrightarrow>
       sent_to ws d' @ queue_of ws d' = sent_to ws d @ queue_of ws d @ accepted ws cs oks)"
  using assms
proof (induction cs arbitrary: d oks)
  case Nil
  then show ?case by (simp add: accepted_def)
next
  case (Cons c cs)
  obtain v look m where c: "c = (v, look, m)" using prod_cases3 by blast
  obtain ok d1 where q: "queueOutboundMessage v look m d = (ok, d1)" by fastforce
  obtain oks' where r: "queue_run cs d1 = (oks', d')" "oks = ok # oks'"
    using Cons.prems by (auto simp: c q split: prod.splits)
  let ?new = "if v = ws \<and> ok then [m] else []"
  obtain sent where s: "sent_to ws d1 = sent_to ws d @ sent" "subseq (sent @ queue_of ws d1) (queue_of ws d @ ?new)"
    "v \<noteq> ws \<or> keeps_up d look \<Longrightarrow> sent @ queue_of ws d1 = queue_of ws d @ ?new"
    using queue_call_own [of ws look m d ok d1] queue_call_other(1) [OF q, of ws] q by (cases "v = ws") auto
  note IH = Cons.IH [OF r(1), unfolded queue_call_other(2) [OF q]]
  have "subseq (sent_to ws d1 @ queue_of ws d1 @ accepted ws cs oks') (sent_to ws d @ queue_of ws d @ accepted ws (c # cs) oks)"
    using list_emb_append_mono [OF s(2) subseq_order.order_refl [of "accepted ws cs oks'"]]
    unfolding s(1) c r(2) accepted_Cons append_assoc subseq_append' .
  with IH have "subseq (sent_to ws d' @ queue_of ws d') (sent_to ws d @ queue_of ws d @ accepted ws (c # cs) oks)"
    using subseq_order.order_trans by blast
  moreover have "sent_to ws d' @ queue_of ws d' = sent_to ws d @ queue_of ws d @ accepted ws (c # cs) oks"
    if "\<forall>look m. (ws, look, m) \<in> set (c # cs) \<longrightarrow> keeps_up d look"
  proof -
    have "sent @ queue_of ws d1 = queue_of ws d @ ?new" by (rule s(3)) (use that c in auto)
    then show ?thesis using IH that unfolding s(1) c r(2) accepted_Cons by (metis append_assoc set_subset_Cons subsetD)
  qed
  ultimately show ?case by blast
qed

definition idle_look :: "nat \<Rightarrow> socket_look" where
  "idle_look k = \<lparr>lk_open = True, lk_buffered = 0, lk_throws = False\<rparr>"

definition busy_look :: "nat \<Rightarrow> socket_look" where
  "busy_look k = \<lparr>lk_open = True, lk_buffered = 2000, lk_throws = False\<rparr>"

definition demo_delivery :: delivery where
  "demo_delivery = new_delivery 1000 4000 8 64 3"

theorem delivery_bounded_witness:
  "length (queue_of 7 (foldl delivery_step demo_delivery [Queue_frame 7 busy_look ''a'', Queue_frame 7 busy_look ''b''])) \<le> 8 \<and>
   bp_sent (dl_bp (foldl delivery_step demo_delivery [Queue_frame 7 busy_look ''a'', Queue_frame 7 busy_look ''b''])) =
   length (dl_out (foldl delivery_step demo_delivery [Queue_frame 7 busy_look ''a'', Queue_frame 7 busy_look ''b'']))"
  using delivery_bounded [OF refl, of 1000 4000 8 64 3 "[Queue_frame 7 busy_look ''a'', Queue_frame 7 busy_look ''b'']"]
  unfolding demo_delivery_def by blast

theorem frames_in_order_witness:
  "queue_run [(7, busy_look, ''a''), (8, idle_look, ''x''), (7, idle_look, ''b'')] demo_delivery = ([True, True, True], snd (queue_run [(7, busy_look, ''a''), (8, idle_look, ''x''), (7, idle_look, ''b'')] demo_delivery)) \<and>
   sent_to 7 (snd (queue_run [(7, busy_look, ''a''), (8, idle_look, ''x''), (7, idle_look, ''b'')] demo_delivery)) @
   queue_of 7 (snd (queue_run [(7, busy_look, ''a''), (8, idle_look, ''x''), (7, idle_look, ''b'')] demo_delivery)) = [''a'', ''b'']"
proof -
  let ?cs = "[(7, busy_look, ''a''), (8, idle_look, ''x''), (7, idle_look, ''b'')] :: queue_call list"
  have r: "queue_run ?cs demo_delivery = ([True, True, True], snd (queue_run ?cs demo_delivery))" by code_simp
  have k: "keeps_up demo_delivery look" if "(7, look, m) \<in> set ?cs" for look m
    using that by (auto simp: keeps_up_def busy_look_def idle_look_def demo_delivery_def new_delivery_def)
  have e: "sent_to 7 demo_delivery @ queue_of 7 demo_delivery @ accepted 7 ?cs [True, True, True] = [''a'', ''b'']" by code_simp
  from frames_in_order [OF r, of 7] k show ?thesis using r unfolding e by blast
qed

section \<open>The largest batch that fits\<close>

lemma cut_loop_search: "\<exists>hi'. cut_loop size_of (lo, hi) = Some (cut_search size_of lo hi, hi')"
proof (induction size_of lo hi rule: cut_search.induct)
  case (1 size_of lo hi)
  let ?mid = "(lo + hi + 1) div 2"
  show ?case
  proof (cases "lo < hi")
    case False
    then show ?thesis by (simp add: cut_loop_def while_option_unfold [of _ _ "(lo, hi)"] cut_search.simps [of size_of lo hi])
  next
    case True
    have "cut_loop size_of (lo, hi) = cut_loop size_of (cut_step size_of (lo, hi))"
      using True unfolding cut_loop_def by (subst while_option_unfold) simp
    then show ?thesis
      using 1 True by (auto simp: cut_step_def Let_def cut_search.simps [of size_of lo hi])
  qed
qed

lemma cut_search_bounds: "lo \<le> hi \<Longrightarrow> lo \<le> cut_search size_of lo hi \<and> cut_search size_of lo hi \<le> hi"
proof (induction size_of lo hi rule: cut_search.induct)
  case (1 size_of lo hi)
  let ?mid = "(lo + hi + 1) div 2"
  have "lo < hi \<Longrightarrow> lo < ?mid \<and> ?mid \<le> hi \<and> lo \<le> ?mid - 1" by linarith
  then show ?case using 1 unfolding cut_search.simps [of size_of lo hi] Let_def by (auto intro: order_trans, linarith)
qed

text \<open>For a size that grows with the length of the prefix, the search finds the last prefix of the range that fits.\<close>

lemma cut_search_largest:
  assumes "\<And>m n. m \<le> n \<Longrightarrow> n \<le> N \<Longrightarrow> size_of m \<le> size_of n" "hi \<le> N" "lo \<le> hi"
  shows "(cut_search size_of lo hi = lo \<or> size_of (cut_search size_of lo hi) \<le> MAX_MESSAGE_BYTES) \<and>
    (\<forall>k. cut_search size_of lo hi < k \<and> k \<le> hi \<longrightarrow> MAX_MESSAGE_BYTES < size_of k)"
  using assms
proof (induction size_of lo hi rule: cut_search.induct)
  case (1 size_of lo hi)
  let ?mid = "(lo + hi + 1) div 2"
  show ?case
  proof (cases "lo < hi")
    case False
    then show ?thesis using 1(5) by (subst (1 2 3) cut_search.simps) auto
  next
    case True
    then have mid: "lo < ?mid" "?mid \<le> hi" by linarith+
    show ?thesis
    proof (cases "size_of ?mid \<le> MAX_MESSAGE_BYTES")
      case fits: True
      have s: "cut_search size_of lo hi = cut_search size_of ?mid hi" using True fits by (subst cut_search.simps) (simp add: Let_def)
      have "(cut_search size_of ?mid hi = ?mid \<or> size_of (cut_search size_of ?mid hi) \<le> MAX_MESSAGE_BYTES) \<and>
          (\<forall>k. cut_search size_of ?mid hi < k \<and> k \<le> hi \<longrightarrow> MAX_MESSAGE_BYTES < size_of k)"
        using 1(1) [OF True refl fits 1(3,4)] mid by simp
      with fits show ?thesis unfolding s by metis
    next
      case large: False
      have s: "cut_search size_of lo hi = cut_search size_of lo (?mid - 1)" using True large by (subst cut_search.simps) (simp add: Let_def)
      have IH: "(cut_search size_of lo (?mid - 1) = lo \<or> size_of (cut_search size_of lo (?mid - 1)) \<le> MAX_MESSAGE_BYTES) \<and>
          (\<forall>k. cut_search size_of lo (?mid - 1) < k \<and> k \<le> ?mid - 1 \<longrightarrow> MAX_MESSAGE_BYTES < size_of k)"
        by (rule 1(2) [OF True refl large 1(3)]) (use mid 1(4) in auto)
      moreover have "MAX_MESSAGE_BYTES < size_of k" if "?mid \<le> k" "k \<le> hi" for k
        using 1(3) [of ?mid k] that large 1(4) by linarith
      moreover have "k \<le> ?mid - 1 \<or> ?mid \<le> k" for k by linarith
      ultimately show ?thesis unfolding s by blast
    qed
  qed
qed

lemma length_join_take: "m \<le> n \<Longrightarrow> length (join sep (take m xs)) \<le> length (join sep (take n xs))"
proof -
  have "length (join sep ys) \<le> length (join sep (ys @ zs))" for ys zs :: "string list"
    by (cases ys) (simp_all add: join_def split: list.splits)
  moreover assume "m \<le> n"
  then have "take n xs = take m xs @ take (n - m) (drop m xs)" using take_add [of m "n - m" xs] by simp
  ultimately show ?thesis by simp
qed

lemma batch_frame_mono: "m \<le> n \<Longrightarrow> length (batch_frame i (take m es)) \<le> length (batch_frame i (take n es))"
  using length_join_take [of m n "'',''" "map event_json es"]
  by (simp add: batch_frame_def json_object_def json_array_def join_def take_map)

text \<open>(C23) Truncating a batch ends and keeps as much as fits. The search loop of \<open>send\<close> always terminates; the frame carries a non-empty
  prefix of the batch, within the limit of 4096 bytes unless it is a single event, and no longer prefix would fit.\<close>

theorem batch_cut:
  assumes "events \<noteq> []"
  shows "\<exists>n hi. cut_loop (\<lambda>n. length (batch_frame i (take n events))) (1, length events - 1) =
      Some (cut_search (\<lambda>n. length (batch_frame i (take n events))) 1 (length events - 1), hi) \<and>
    safeEvents i events = take n events \<and> 1 \<le> n \<and> n \<le> length events \<and>
    (n = 1 \<or> length (batch_frame i (take n events)) \<le> MAX_MESSAGE_BYTES) \<and>
    (\<forall>k. n < k \<and> k \<le> length events \<longrightarrow> MAX_MESSAGE_BYTES < length (batch_frame i (take k events)))"
proof -
  let ?size = "\<lambda>n. length (batch_frame i (take n events))" and ?N = "length events"
  obtain hi where loop: "cut_loop ?size (1, ?N - 1) = Some (cut_search ?size 1 (?N - 1), hi)" using cut_loop_search by blast
  have N: "1 \<le> ?N" using assms by (cases events) auto
  consider "?size ?N \<le> MAX_MESSAGE_BYTES" | "MAX_MESSAGE_BYTES < ?size ?N" "?N = 1" | "MAX_MESSAGE_BYTES < ?size ?N" "1 \<le> ?N - 1"
    using N by linarith
  then show ?thesis
  proof cases
    case 1
    then have "safeEvents i events = take ?N events" by (simp add: safeEvents_def)
    with 1 N loop show ?thesis by (intro exI [of _ ?N] exI [of _ hi]) simp
  next
    case 2
    then have "safeEvents i events = take 1 events" by (simp add: safeEvents_def cut_search.simps)
    with 2 loop show ?thesis by (intro exI [of _ 1] exI [of _ hi]) simp
  next
    case 3
    let ?n = "cut_search ?size 1 (?N - 1)"
    have L: "(?n = 1 \<or> ?size ?n \<le> MAX_MESSAGE_BYTES) \<and> (\<forall>k. ?n < k \<and> k \<le> ?N - 1 \<longrightarrow> MAX_MESSAGE_BYTES < ?size k)"
      by (rule cut_search_largest [where N = ?N]) (use batch_frame_mono 3(2) in auto)
    have "MAX_MESSAGE_BYTES < ?size k" if "?n < k" "k \<le> ?N" for k
      using L that 3(1) by (cases "k = ?N") auto
    moreover have "1 \<le> ?n" "?n \<le> ?N - 1" using cut_search_bounds [OF 3(2)] by blast+
    moreover have "safeEvents i events = take ?n events" using 3(1) by (simp add: safeEvents_def)
    ultimately show ?thesis using L loop by (intro exI [of _ ?n] exI [of _ hi]) auto
  qed
qed

theorem batch_cut_witness:
  "\<exists>n. safeEvents ''s'' (replicate 3 \<lparr>be_streamId = ''s'', be_eventId = ''e'', be_payload = Some ''1'', be_correlationId = None\<rparr>) =
     take n (replicate 3 \<lparr>be_streamId = ''s'', be_eventId = ''e'', be_payload = Some ''1'', be_correlationId = None\<rparr>) \<and> 1 \<le> n"
proof -
  have "replicate 3 \<lparr>be_streamId = ''s'', be_eventId = ''e'', be_payload = Some ''1'', be_correlationId = None\<rparr> \<noteq> []" by simp
  from batch_cut [OF this, of "''s''"] show ?thesis by blast
qed

section \<open>Probes\<close>

datatype probe_step = Probe_pass "socket \<Rightarrow> socket_look" | Pong_received socket

definition probe_run :: "nat \<Rightarrow> int \<Rightarrow> probe_step list \<Rightarrow> ConnectionRegistry \<Rightarrow> ConnectionRegistry" where
  "probe_run maxMissed stallBytes xs r =
     foldl (\<lambda>r x. case x of Probe_pass look \<Rightarrow> snd (runHealthProbes maxMissed stallBytes look r) | Pong_received ws \<Rightarrow> pong ws r) r xs"

text \<open>The passes since the last pong of \<open>ws\<close> that found its socket open.\<close>

definition silent_step :: "socket \<Rightarrow> nat \<Rightarrow> probe_step \<Rightarrow> nat" where
  "silent_step ws n x =
     (case x of Probe_pass look \<Rightarrow> if lk_open (look ws) then n + 1 else n | Pong_received v \<Rightarrow> if v = ws then 0 else n)"

lemma map_get_map: "map_get (map (\<lambda>(k, v). (k, f k v)) m) k = map_option (f k) (map_get m k)"
  by (induction m) auto

lemma probe_run_missed:
  assumes "map_get (cr_clients r) ws = Some c" "cl_missedPongs c = min maxMissed n"
  shows "\<exists>c'. map_get (cr_clients (probe_run maxMissed stallBytes xs r)) ws = Some c' \<and>
    cl_missedPongs c' = min maxMissed (foldl (silent_step ws) n xs)"
  using assms
proof (induction xs arbitrary: r c n)
  case Nil
  then show ?case by (simp add: probe_run_def)
next
  case (Cons x xs)
  let ?r = "case x of Probe_pass look \<Rightarrow> snd (runHealthProbes maxMissed stallBytes look r) | Pong_received v \<Rightarrow> pong v r"
  have "\<exists>c'. map_get (cr_clients ?r) ws = Some c' \<and> cl_missedPongs c' = min maxMissed (silent_step ws n x)"
    using Cons.prems
    by (cases x) (auto simp: runHealthProbes_def Let_def map_get_map probe_client_def pong_def silent_step_def split: option.splits)
  then show ?case using Cons.IH by (auto simp: probe_run_def)
qed

lemma probe_terminates_iff:
  assumes "map_wf (cr_clients r)" "map_get (cr_clients r) ws = Some c"
  shows "ws \<in> set (pr_terminated (fst (runHealthProbes maxMissed stallBytes look r))) \<longleftrightarrow>
    lk_open (look ws) \<and> maxMissed \<le> cl_missedPongs c"
  using map_get_mem [OF assms(1), of ws] assms(2)
  by (auto simp: runHealthProbes_def Let_def intro!: image_eqI [of _ fst "(ws, c)"])

lemma probe_run_wf: "map_wf (cr_clients r) \<Longrightarrow> map_wf (cr_clients (probe_run maxMissed stallBytes xs r))"
proof (induction xs arbitrary: r)
  case (Cons x xs)
  have "map_wf (cr_clients (case x of Probe_pass look \<Rightarrow> snd (runHealthProbes maxMissed stallBytes look r) | Pong_received v \<Rightarrow> pong v r))"
    using Cons.prems
    by (cases x) (auto simp: runHealthProbes_def Let_def map_wf_def pong_def comp_def case_prod_unfold distinct_update split: option.splits)
  from Cons.IH [OF this] show ?case by (simp add: probe_run_def)
qed (simp add: probe_run_def)

text \<open>A silent connection is terminated exactly when it has missed the tolerated number of pongs. After any sequence of probe passes and
  pongs, the next pass terminates an open connection if and only if at least \<open>maxMissed\<close> passes found it open since its last pong
  (or since it was registered): a client that answers is never terminated, one that does not always is.\<close>

theorem silent_client_terminated:
  assumes "map_wf (cr_clients r)" "map_get (cr_clients r) ws = Some c" "cl_missedPongs c = 0" "lk_open (look ws)"
  shows "ws \<in> set (pr_terminated (fst (runHealthProbes maxMissed stallBytes look (probe_run maxMissed stallBytes xs r)))) \<longleftrightarrow>
    maxMissed \<le> foldl (silent_step ws) 0 xs"
proof -
  obtain c' where c': "map_get (cr_clients (probe_run maxMissed stallBytes xs r)) ws = Some c'"
    "cl_missedPongs c' = min maxMissed (foldl (silent_step ws) 0 xs)"
    using probe_run_missed [OF assms(2), of maxMissed 0] assms(3) by auto
  show ?thesis using probe_terminates_iff [OF probe_run_wf [OF assms(1)] c'(1)] c'(2) assms(4) by (simp add: min_def)
qed

theorem silent_client_terminated_witness:
  "7 \<in> set (pr_terminated (fst (runHealthProbes 2 1000 idle_look
     (probe_run 2 1000 [Probe_pass idle_look, Pong_received 7, Probe_pass idle_look, Probe_pass idle_look]
       (register 7 (createClientState ''a'' ''10.0.0.1'' None) new_registry)))))"
proof -
  let ?r = "register 7 (createClientState ''a'' ''10.0.0.1'' None) new_registry"
  have "map_wf (cr_clients ?r)" "map_get (cr_clients ?r) 7 = Some (createClientState ''a'' ''10.0.0.1'' None)"
    "cl_missedPongs (createClientState ''a'' ''10.0.0.1'' None) = 0"
    by (simp_all add: register_def new_registry_def createClientState_def map_wf_def)
  moreover have "foldl (silent_step 7) 0 [Probe_pass idle_look, Pong_received 7, Probe_pass idle_look, Probe_pass idle_look] = 2"
    by (simp add: silent_step_def idle_look_def)
  moreover have "lk_open (idle_look 7)" by (simp add: idle_look_def)
  ultimately show ?thesis
    using silent_client_terminated [of ?r 7 "createClientState ''a'' ''10.0.0.1'' None" idle_look 2 1000
        "[Probe_pass idle_look, Pong_received 7, Probe_pass idle_look, Probe_pass idle_look]"] by linarith
qed

section \<open>Replay reaches the end\<close>

lemma after_event_suffix: "after_event i xs = Some ys \<Longrightarrow> \<exists>ws. xs = ws @ ys"
proof (induction i xs rule: after_event.induct)
  case (2 i x xs)
  then show ?case by (cases "ce_eventId x = i") (auto intro: exI [of _ "[x]"] exI [of _ "x # _"])
qed simp

lemma replay_events_open: "\<forall>k. opened k \<Longrightarrow> replay_events frame opened k es = (True, map frame es)"
  by (induction es arbitrary: k) simp_all

lemma replay_follows:
  assumes "\<forall>k. opened k" "follow coll pd stamp n flt s = Some es"
  shows "\<exists>k'. replay_pages (\<lambda>f. getEvents coll pd stamp f s) frame opened n k flt = Some (Replay_complete, k', map frame es)"
  using assms(2)
proof (induction n arbitrary: k flt es)
  case (Suc n)
  then obtain res where res: "getEvents coll pd stamp flt s = Inr res" by (auto split: sum.splits)
  show ?case
  proof (cases "res_nextCursor res")
    case None
    then show ?thesis using Suc.prems assms(1) res by (simp add: replay_events_open)
  next
    case (Some c)
    then obtain es' where "follow coll pd stamp n (flt\<lparr>f_afterEventId := Some c\<rparr>) s = Some es'" "es = res_events res @ es'"
      using Suc.prems res by auto
    then show ?thesis
      using Suc.IH [of "flt\<lparr>f_afterEventId := Some c\<rparr>" es' "Suc k + length (res_events res)"] assms(1) res Some
      by (auto simp: replay_events_open)
  qed
qed simp

lemma limit_ignored [simp]: "matches pd (flt\<lparr>f_limit := x\<rparr>) = matches pd flt"
  by (simp add: matches_def fun_eq_iff)



end
