(* ===== verification/Webhook_Outbox.thy ===== *)
theory Webhook_Outbox
  imports Webhook_Retry Webhook_Store "HOL-Library.Product_Lexorder"
begin

text \<open>
  The transactional outbox: the checks of \<open>src/webhooks/delivery-support.ts\<close> and \<open>src/webhooks/payloadSchemas.ts\<close>, one HTTP
  attempt as in \<open>src/webhooks/delivery.ts\<close>, one outbox row as in \<open>src/webhooks/outbox-row.ts\<close> and the polling of
  \<open>src/webhooks/outbox-dispatcher.ts\<close>, over the gate of \<open>Webhook_Retry\<close> and the store of \<open>Webhook_Store\<close>.

  The table \<open>webhook_outbox\<close> is a list of rows. A poll is one transaction: its statements act on a copy that is kept on \<open>COMMIT\<close> and
  forgotten on \<open>ROLLBACK\<close>, while requests to receivers, breaker, limiter and the in-memory store are not undone. Each statement
  may fail. \<open>JSON.parse\<close>, \<open>JSON.stringify\<close>, the URL parser, \<open>Date.parse\<close> and zod's \<open>safeParse\<close> are arguments; the answer of the
  receiver, the clocks and the random draws come from a \<open>row_env\<close>.

  The lemmas: what happens to a row in each case; a failed poll changes nothing in the table; attempts are numbered and bounded;
  and the ways in which an event is lost, refused or blocks the outbox.
\<close>

section \<open>Checks\<close>

definition parseRetryAfter :: "(string \<Rightarrow> millis option) \<Rightarrow> string option \<Rightarrow> millis \<Rightarrow> int option" where
  "parseRetryAfter pd header now =
     (case header of
        None \<Rightarrow> None
      | Some h \<Rightarrow>
          if h = [] then None
          else case js_parse_int (js_trim h) of
                 Some seconds \<Rightarrow> Some (max 0 (seconds * 1000))
               | None \<Rightarrow> map_option (\<lambda>t. max 0 (t - now)) (pd h))"

definition parsePositiveInteger :: "string option \<Rightarrow> int \<Rightarrow> int" where
  "parsePositiveInteger v fallback =
     (if nullish v [] = [] then fallback
      else case js_parse_int (the v) of Some n \<Rightarrow> if 0 < n then n else fallback | None \<Rightarrow> fallback)"

definition parseNonNegativeInteger :: "string option \<Rightarrow> int \<Rightarrow> int" where
  "parseNonNegativeInteger v fallback =
     (if nullish v [] = [] then fallback
      else case js_parse_int (the v) of Some n \<Rightarrow> if 0 \<le> n then n else fallback | None \<Rightarrow> fallback)"

text \<open>The policy of the dispatcher when it is not overridden; the two settings as the text of their numbers.\<close>

definition resolveWebhookRetryPolicy :: "string \<Rightarrow> string \<Rightarrow> EnhancedRetryPolicy" where
  "resolveWebhookRetryPolicy thresholdText resetText =
     (let threshold = parseNonNegativeInteger (Some thresholdText) 0; resetMs = parsePositiveInteger (Some resetText) 300000
      in if 0 < threshold
         then DEFAULT_RETRY_POLICY\<lparr>circuitBreakerThreshold := Some threshold, circuitBreakerResetMs := Some resetMs\<rparr>
         else DEFAULT_RETRY_POLICY)"

text \<open>What the URL parser gives.\<close>

record url_parts =
  url_protocol :: string
  url_hostname :: string
  url_username :: string
  url_password :: string

type_synonym url_parser = "string \<Rightarrow> url_parts option"

definition isLoopbackHostname :: "string \<Rightarrow> bool" where
  "isLoopbackHostname h \<longleftrightarrow> h = ''localhost'' \<or> h = ''127.0.0.1'' \<or> h = ''::1''"

definition assertSafeWebhookEndpoint :: "url_parser \<Rightarrow> bool \<Rightarrow> string \<Rightarrow> string option" where
  "assertSafeWebhookEndpoint parse_url production endpointUrl =
     (case parse_url endpointUrl of
        None \<Rightarrow> Some ''Invalid URL''
      | Some url \<Rightarrow>
          if url_username url \<noteq> [] \<or> url_password url \<noteq> [] then Some ''Webhook endpoint must not include credentials''
          else if url_protocol url \<noteq> ''https:'' \<and> url_protocol url \<noteq> ''http:'' then Some ''Webhook endpoint must use http or https''
          else if production \<and> url_protocol url \<noteq> ''https:'' \<and> \<not> isLoopbackHostname (url_hostname url)
          then Some ''Webhook endpoint must use https in production''
          else None)"

definition normalizePayload :: "(string \<Rightarrow> jsval option) \<Rightarrow> jsval \<Rightarrow> jsval" where
  "normalizePayload parse_json payload =
     (case payload of JString s \<Rightarrow> (case parse_json s of Some v \<Rightarrow> v | None \<Rightarrow> payload) | _ \<Rightarrow> payload)"

definition extractAttemptNumber :: "jsval \<Rightarrow> nat" where
  "extractAttemptNumber payload =
     (case js_get (js_get payload ''_webhookRetry'') ''attemptNumber'' of
        JNumber (Finite x) \<Rightarrow> if 0 < x then nat \<lfloor>x\<rfloor> else 1
      | _ \<Rightarrow> 1)"

text \<open>The published schemas: the members of each event type. What a member may hold is decided by zod.\<close>

record payload_schema =
  ps_required :: "string list"
  ps_optional :: "string list"

definition envelopeFields :: "string list" where "envelopeFields = [''event'', ''schema_version'']"

definition WEBHOOK_PAYLOAD_SCHEMAS :: "(string, payload_schema) jsmap" where
  "WEBHOOK_PAYLOAD_SCHEMAS =
     [(''stream.created'', \<lparr>ps_required = envelopeFields @ [''id'', ''sender_address'', ''recipient_address'', ''amount'',
         ''streamed_amount'', ''remaining_amount'', ''rate_per_second'', ''start_time'', ''end_time'', ''contract_id'',
         ''transaction_hash'', ''event_index''], ps_optional = []\<rparr>),
      (''stream.updated'', \<lparr>ps_required = envelopeFields,
         ps_optional = [''status'', ''streamed_amount'', ''remaining_amount'', ''end_time'']\<rparr>),
      (''stream.cancelled'', \<lparr>ps_required = envelopeFields @ [''status''], ps_optional = []\<rparr>)]"

type_synonym safe_parse = "string \<Rightarrow> payload_schema \<Rightarrow> jsval \<Rightarrow> bool"

text \<open>All three schemas are \<open>strict\<close>: zod refuses an object with a member that the schema does not name.\<close>

definition strict_parse :: "safe_parse \<Rightarrow> bool" where
  "strict_parse sp \<longleftrightarrow> (\<forall>t sch ms k. k \<in> fst ` set ms \<and> k \<notin> set (ps_required sch @ ps_optional sch) \<longrightarrow> \<not> sp t sch (JObject ms))"

definition validatePublishedPayload :: "safe_parse \<Rightarrow> string \<Rightarrow> jsval \<Rightarrow> bool" where
  "validatePublishedPayload sp eventType payload =
     (case map_get WEBHOOK_PAYLOAD_SCHEMAS eventType of None \<Rightarrow> False | Some sch \<Rightarrow> sp eventType sch payload)"

definition printable :: "char \<Rightarrow> bool" where
  "printable c = (let n = of_char c :: nat in (32 \<le> n \<and> n \<le> 126) \<or> n = 9 \<or> n = 10 \<or> n = 13)"

definition validateWebhookPayload :: "safe_parse \<Rightarrow> (string \<Rightarrow> jsval option) \<Rightarrow> jsval \<Rightarrow> bool" where
  "validateWebhookPayload sp parse_json payload =
     ((case payload of
         JObject _ \<Rightarrow> (case js_get payload ''event'' of JString t \<Rightarrow> validatePublishedPayload sp t payload | _ \<Rightarrow> True)
       | _ \<Rightarrow> True) \<and>
      (case payload of
         JString s \<Rightarrow>
           if 10 * 1024 * 1024 < length s then False
           else if parse_json s \<noteq> None then True
           else if starts_with ''{'' (js_trim s) \<or> starts_with ''['' (js_trim s) then False
           else if 1000 < length s \<and> list_ex (\<lambda>c. \<not> printable c) (take 100 s) then False
           else True
       | _ \<Rightarrow> True))"

definition validateWebhookUrl :: "url_parser \<Rightarrow> string \<Rightarrow> bool" where
  "validateWebhookUrl parse_url endpointUrl =
     (case parse_url endpointUrl of
        None \<Rightarrow> False
      | Some url \<Rightarrow> (url_protocol url = ''https:'' \<or> url_protocol url = ''http:'') \<and> url_username url = [] \<and> url_password url = [])"

definition contains :: "string \<Rightarrow> string \<Rightarrow> bool" where
  "contains p s = list_ex (\<lambda>i. starts_with p (drop i s)) [0..<Suc (length s)]"

text \<open>The surroundings of a delivery that do not change: parsers, schemas, policy and settings.\<close>

record outbox_config =
  oc_parse_url :: url_parser
  oc_parse_json :: "string \<Rightarrow> jsval option"
  oc_stringify :: "jsval \<Rightarrow> string"
  oc_parse_date :: "string \<Rightarrow> millis option"
  oc_safe_parse :: safe_parse
  oc_policy :: EnhancedRetryPolicy
  oc_endpointUrl :: "string option"
  oc_secret :: "string option"
  oc_production :: bool
  oc_maxResponseBytes :: nat
  oc_batchSize :: nat
  oc_pollIntervalMs :: int
  oc_maxBatchBackoffMs :: int

definition classifyPoisonFailure :: "outbox_config \<Rightarrow> jsval \<Rightarrow> string \<Rightarrow> int option \<Rightarrow> string option \<Rightarrow> DLQReasonCode option" where
  "classifyPoisonFailure cfg payload endpointUrl statusCode err =
     (if (case err of Some e \<Rightarrow> contains ''Webhook delivery timeout'' e | None \<Rightarrow> False) then Some Timed_out
      else if \<not> validateWebhookPayload (oc_safe_parse cfg) (oc_parse_json cfg) payload then Some Poison
      else if \<not> validateWebhookUrl (oc_parse_url cfg) endpointUrl then Some Poison
      else case statusCode of
             None \<Rightarrow> None
           | Some c \<Rightarrow> if \<not> isRetryableStatusCode (Some c) (oc_policy cfg) \<and> 400 \<le> c \<and> c < 500 then Some Poison else None)"

definition enqueuePermanentFailureToDlq ::
  "nat \<Rightarrow> string \<Rightarrow> DLQReasonCode \<Rightarrow> string \<Rightarrow> millis \<Rightarrow> WebhookDeliveryStore \<Rightarrow> WebhookDeliveryStore" where
  "enqueuePermanentFailureToDlq a failureReason reasonCode dlqId now s =
     (if list_ex (\<lambda>item. dl_deliveryId item = wd_deliveryId (ws_objects s ! a)) (getDeadLetterQueueItems None 0 s) then s
      else snd (addToDeadLetterQueue a failureReason (Some reasonCode) dlqId now s))"

section \<open>One attempt\<close>

record http_reply =
  hr_status :: int
  hr_contentType :: "string option"
  hr_chunks :: "nat list"
  hr_retryAfter :: "string option"

datatype fetch_result = Fetch_failed string | Fetched http_reply

fun read_body :: "nat \<Rightarrow> nat \<Rightarrow> nat list \<Rightarrow> bool" where
  "read_body maxBytes bytesRead [] = True"
| "read_body maxBytes bytesRead (n # ns) =
     (if maxBytes < bytesRead + n then False else read_body maxBytes (bytesRead + n) ns)"

definition sendWebhook :: "nat \<Rightarrow> fetch_result \<Rightarrow> string + http_reply" where
  "sendWebhook maxBytes result =
     (case result of
        Fetch_failed msg \<Rightarrow> Inl msg
      | Fetched r \<Rightarrow>
          if nullish (hr_contentType r) [] = [] then Inl ''Missing Content-Type header in webhook response''
          else if \<not> read_body maxBytes 0 (hr_chunks r) then Inl ''Webhook response exceeds maximum allowed size''
          else Inr r)"

text \<open>\<open>delivery\<close> is the object at address \<open>a\<close>; \<open>t0\<close> is read before the request and \<open>t1\<close> after it.\<close>

definition update_object :: "nat \<Rightarrow> (WebhookDelivery \<Rightarrow> WebhookDelivery) \<Rightarrow> WebhookDeliveryStore \<Rightarrow> WebhookDeliveryStore" where
  "update_object a f s = s\<lparr>ws_objects := (ws_objects s)[a := f (ws_objects s ! a)]\<rparr>"

definition http_attempt ::
  "outbox_config \<Rightarrow> nat \<Rightarrow> fetch_result \<Rightarrow> millis \<Rightarrow> millis \<Rightarrow> rat \<Rightarrow> WebhookDeliveryStatus \<times> WebhookDeliveryAttempt" where
  "http_attempt cfg n result t0 t1 rnd =
     (let attempt = \<lparr>att_attemptNumber = n, att_timestamp = t0, att_statusCode = None, att_error = None, att_nextRetryAt = None\<rparr>;
          backoff = calculateNextRetryTime n (oc_policy cfg) t1 None rnd
      in case sendWebhook (oc_maxResponseBytes cfg) result of
           Inr r \<Rightarrow>
             let attempt1 = attempt\<lparr>att_statusCode := Some (hr_status r)\<rparr>
             in if 200 \<le> hr_status r \<and> hr_status r < 300 then (D_delivered, attempt1)
                else if shouldRetry attempt1 n (oc_policy cfg) 0
                then (D_pending, attempt1\<lparr>att_nextRetryAt := Some
                        (if hr_status r = 429
                         then (case parseRetryAfter (oc_parse_date cfg) (hr_retryAfter r) t1 of
                                 Some ms \<Rightarrow> t1 + ms | None \<Rightarrow> backoff)
                         else backoff)\<rparr>)
                else (D_pending, attempt1)
         | Inl msg \<Rightarrow>
             let attempt1 = attempt\<lparr>att_error := Some msg\<rparr>
             in if shouldRetry attempt n (oc_policy cfg) 0
                then (D_pending, attempt1\<lparr>att_nextRetryAt := Some backoff\<rparr>)
                else (D_pending, attempt1))"

definition runDeliveryAttempt ::
  "outbox_config \<Rightarrow> nat \<Rightarrow> fetch_result \<Rightarrow> millis \<Rightarrow> millis \<Rightarrow> rat \<Rightarrow> WebhookDeliveryStore \<Rightarrow>
   WebhookDeliveryAttempt \<times> WebhookDeliveryStore" where
  "runDeliveryAttempt cfg a result t0 t1 rnd s =
     (case http_attempt cfg (length (wd_attempts (ws_objects s ! a)) + 1) result t0 t1 rnd of (status, attempt) \<Rightarrow>
        (attempt, store a (update_object a (\<lambda>d. d\<lparr>wd_status := status, wd_attempts := wd_attempts d @ [attempt]\<rparr>) s)))"

section \<open>Deliveries outside the outbox\<close>

record row_env =
  re_result :: fetch_result
  re_now :: millis
  re_clock :: millis
  re_clock' :: millis
  re_t0 :: millis
  re_t1 :: millis
  re_rnd :: rat
  re_rnd' :: rat
  re_dlqId :: string
  re_update_ok :: bool
  re_insert_ok :: bool

text \<open>\<open>get_state\<close> is \<open>getState\<close> of the breaker store.\<close>

definition recordBreakerOutcome ::
  "'b breaker_ops \<Rightarrow> ('b \<Rightarrow> string \<Rightarrow> WebhookCircuitBreakerRecord option) \<Rightarrow> EnhancedRetryPolicy \<Rightarrow> string \<Rightarrow>
   WebhookDeliveryAttempt \<Rightarrow> millis \<Rightarrow> 'b \<Rightarrow> int \<times> 'b" where
  "recordBreakerOutcome bo get_state policy endpointUrl attempt now b =
     (if attempt_ok attempt
      then (case bo_success bo b endpointUrl (breaker_policy policy) now of (r, b') \<Rightarrow> (cb_consecutiveFailures r, b'))
      else if \<not> countsTowardCircuitBreaker attempt policy
      then (case get_state b endpointUrl of None \<Rightarrow> 0 | Some r \<Rightarrow> cb_consecutiveFailures r, b)
      else (case bo_failure bo b endpointUrl (breaker_policy policy) now of (r, b') \<Rightarrow> (cb_consecutiveFailures r, b')))"

definition set_last_retry :: "int \<Rightarrow> WebhookDeliveryAttempt list \<Rightarrow> WebhookDeliveryAttempt list" where
  "set_last_retry t xs = xs[length xs - 1 := (last xs)\<lparr>att_nextRetryAt := Some t\<rparr>]"

definition failure_text :: "WebhookDeliveryAttempt \<Rightarrow> nat \<Rightarrow> string" where
  "failure_text attempt n =
     (if nullish (att_error attempt) [] \<noteq> [] then the (att_error attempt)
      else ''HTTP '' @ (case att_statusCode attempt of None \<Rightarrow> ''undefined'' | Some c \<Rightarrow> show_int c)) @
     '' after '' @ show_nat n @ '' attempt'' @ (if n = 1 then [] else ''s'')"

definition attemptDelivery ::
  "outbox_config \<Rightarrow> 'b breaker_ops \<Rightarrow> ('b \<Rightarrow> string \<Rightarrow> WebhookCircuitBreakerRecord option) \<Rightarrow> nat \<Rightarrow> row_env \<Rightarrow>
   WebhookDeliveryStore \<times> 'b \<Rightarrow> WebhookDeliveryStore \<times> 'b" where
  "attemptDelivery cfg bo get_state a e = (\<lambda>(s, b).
     let n = length (wd_attempts (ws_objects s ! a)) + 1;
         (attempt, s1) = runDeliveryAttempt cfg a (re_result e) (re_t0 e) (re_t1 e) (re_rnd e) s;
         (failures, b1) = recordBreakerOutcome bo get_state (oc_policy cfg) (wd_endpointUrl (ws_objects s ! a)) attempt (re_clock' e) b
     in if wd_status (ws_objects s1 ! a) = D_delivered then (s1, b1)
        else if shouldRetry attempt n (oc_policy cfg) failures
        then (store a (update_object a (\<lambda>d. d\<lparr>wd_status := D_pending,
                 wd_attempts := set_last_retry (calculateNextRetryTime n (oc_policy cfg) (re_now e) None (re_rnd' e)) (wd_attempts d)\<rparr>) s1), b1)
        else (enqueuePermanentFailureToDlq a (failure_text attempt n) Other_reason (re_dlqId e) (re_now e)
                (store a (update_object a (\<lambda>d. d\<lparr>wd_status := D_permanent_failure\<rparr>) s1)), b1))"

text \<open>Without a limiter the gate cannot fail.\<close>

definition queueDelivery ::
  "outbox_config \<Rightarrow> 'b breaker_ops \<Rightarrow> ('b \<Rightarrow> string \<Rightarrow> WebhookCircuitBreakerRecord option) \<Rightarrow> WebhookDelivery \<Rightarrow> row_env \<Rightarrow>
   WebhookDeliveryStore \<times> 'b \<Rightarrow> WebhookDeliveryStore \<times> 'b" where
  "queueDelivery cfg bo get_state delivery e = (\<lambda>(s, b).
     let (a, s1) = new_delivery (delivery\<lparr>wd_status := D_pending, wd_attempts := []\<rparr>) s; s2 = store a s1
     in case checkWebhookDeliveryGate bo (None :: (unit limiter_check \<times> RateLimitConfig) option)
               (\<lparr>dim_tenant = [], dim_endpoint = [], dim_outcome = []\<rparr>, 1) (wd_endpointUrl delivery) (oc_policy cfg) (re_now e) (re_clock e) (b, ()) of
          Inl err \<Rightarrow> (s2, b)
        | Inr (gate, b1, _) \<Rightarrow>
            if gate_canDeliver gate then attemptDelivery cfg bo get_state a e (s2, b1)
            else case gate_retryAt gate of
                   None \<Rightarrow> (s2, b1)
                 | Some t \<Rightarrow>
                     (store a (update_object a (\<lambda>d. d\<lparr>wd_attempts := wd_attempts d @
                        [\<lparr>att_attemptNumber = 1, att_timestamp = re_now e, att_statusCode = None, att_error = None,
                          att_nextRetryAt = Some t\<rparr>]\<rparr>) s2), b1))"

text \<open>The pending deliveries are chosen before the first of them is attempted; \<open>envs k\<close> are the surroundings of the \<open>k\<close>-th.\<close>

definition pending_addresses :: "millis \<Rightarrow> WebhookDeliveryStore \<Rightarrow> nat list" where
  "pending_addresses now s =
     filter (\<lambda>a. let d = ws_objects s ! a in wd_status d = D_pending \<and> wd_attempts d \<noteq> [] \<and>
               truthy_num (att_nextRetryAt (last (wd_attempts d))) \<and>
               nullish (att_nextRetryAt (last (wd_attempts d))) 0 \<le> now)
       (map_values (ws_deliveries s))"

definition retry_pending ::
  "outbox_config \<Rightarrow> 'b breaker_ops \<Rightarrow> ('b \<Rightarrow> string \<Rightarrow> WebhookCircuitBreakerRecord option) \<Rightarrow> row_env \<Rightarrow> nat \<Rightarrow>
   WebhookDeliveryStore \<times> 'b \<Rightarrow> WebhookDeliveryStore \<times> 'b" where
  "retry_pending cfg bo get_state e a = (\<lambda>(s, b).
     case checkWebhookDeliveryGate bo (None :: (unit limiter_check \<times> RateLimitConfig) option)
            (\<lparr>dim_tenant = [], dim_endpoint = [], dim_outcome = []\<rparr>, 1) (wd_endpointUrl (ws_objects s ! a)) (oc_policy cfg)
            (re_now e) (re_clock e) (b, ()) of
       Inl err \<Rightarrow> (s, b)
     | Inr (gate, b1, _) \<Rightarrow>
         if gate_canDeliver gate then attemptDelivery cfg bo get_state a e (s, b1)
         else case gate_retryAt gate of
                None \<Rightarrow> (s, b1)
              | Some t \<Rightarrow>
                  if wd_attempts (ws_objects s ! a) = [] then (s, b1)
                  else (store a (update_object a (\<lambda>d. d\<lparr>wd_attempts := set_last_retry t (wd_attempts d)\<rparr>) s), b1))"

fun retry_all ::
  "outbox_config \<Rightarrow> 'b breaker_ops \<Rightarrow> ('b \<Rightarrow> string \<Rightarrow> WebhookCircuitBreakerRecord option) \<Rightarrow> (nat \<Rightarrow> row_env) \<Rightarrow> nat \<Rightarrow> nat list \<Rightarrow>
   WebhookDeliveryStore \<times> 'b \<Rightarrow> WebhookDeliveryStore \<times> 'b" where
  "retry_all cfg bo get_state envs k [] st = st"
| "retry_all cfg bo get_state envs k (a # as) st =
     retry_all cfg bo get_state envs (Suc k) as (retry_pending cfg bo get_state (envs k) a st)"

definition processPendingRetries ::
  "outbox_config \<Rightarrow> 'b breaker_ops \<Rightarrow> ('b \<Rightarrow> string \<Rightarrow> WebhookCircuitBreakerRecord option) \<Rightarrow> (nat \<Rightarrow> row_env) \<Rightarrow> millis \<Rightarrow>
   WebhookDeliveryStore \<times> 'b \<Rightarrow> WebhookDeliveryStore \<times> 'b" where
  "processPendingRetries cfg bo get_state envs now st =
     retry_all cfg bo get_state envs 0 (pending_addresses now (fst st)) st"

section \<open>One row of the outbox\<close>

record outbox_row =
  or_id :: nat
  or_stream_id :: string
  or_event_type :: string
  or_payload :: jsval
  or_created_at :: millis
  or_processed :: bool

text \<open>\<open>ox_requests\<close> are the address and the body of each request that was sent to a receiver.\<close>

record ('b, 'l) outbox =
  ox_rows :: "outbox_row list"
  ox_nextId :: nat
  ox_store :: WebhookDeliveryStore
  ox_breaker :: 'b
  ox_limiter :: 'l
  ox_requests :: "(string \<times> string) list"

definition mark_processed :: "nat \<Rightarrow> ('b, 'l) outbox \<Rightarrow> ('b, 'l) outbox" where
  "mark_processed i x = x\<lparr>ox_rows := map (\<lambda>r. if or_id r = i then r\<lparr>or_processed := True\<rparr> else r) (ox_rows x)\<rparr>"

definition insert_row :: "outbox_row \<Rightarrow> jsval \<Rightarrow> millis \<Rightarrow> ('b, 'l) outbox \<Rightarrow> ('b, 'l) outbox" where
  "insert_row row payload t x =
     x\<lparr>ox_rows := ox_rows x @ [\<lparr>or_id = ox_nextId x, or_stream_id = or_stream_id row, or_event_type = or_event_type row,
          or_payload = payload, or_created_at = t, or_processed = False\<rparr>], ox_nextId := Suc (ox_nextId x)\<rparr>"

definition resolveEndpoint :: "outbox_config \<Rightarrow> outbox_row \<Rightarrow> string + (string \<times> string) option" where
  "resolveEndpoint cfg row =
     (if nullish (oc_endpointUrl cfg) [] = [] \<or> nullish (oc_secret cfg) [] = [] then Inr None
      else let payload = normalizePayload (oc_parse_json cfg) (or_payload row);
               endpointUrl = nullish (payload_string payload ''endpointUrl'') (the (oc_endpointUrl cfg));
               secret = nullish (payload_string payload ''secret'') (the (oc_secret cfg))
           in case assertSafeWebhookEndpoint (oc_parse_url cfg) (oc_production cfg) endpointUrl of
                Some err \<Rightarrow> Inl err | None \<Rightarrow> Inr (Some (endpointUrl, secret)))"

definition row_delivery :: "outbox_row \<Rightarrow> string \<Rightarrow> string \<Rightarrow> WebhookDeliveryStatus \<Rightarrow> nat \<Rightarrow> millis \<Rightarrow> WebhookDelivery" where
  "row_delivery row endpointUrl payloadString status n now =
     \<lparr>wd_id = ''outbox_'' @ show_nat (or_id row), wd_deliveryId = ''outbox_'' @ show_nat (or_id row), wd_eventId = or_stream_id row,
      wd_eventType = or_event_type row, wd_endpointUrl = endpointUrl, wd_status = status,
      wd_attempts = map (\<lambda>i. \<lparr>att_attemptNumber = i + 1, att_timestamp = now, att_statusCode = None, att_error = None,
        att_nextRetryAt = None\<rparr>) [0..<n - 1],
      wd_createdAt = or_created_at row, wd_updatedAt = now, wd_payload = payloadString\<rparr>"

definition db_error :: string where "db_error = ''database error''"

definition poison_text :: "WebhookDeliveryAttempt \<Rightarrow> string" where
  "poison_text attempt =
     (if nullish (att_error attempt) [] \<noteq> [] then ''Poison detected: '' @ the (att_error attempt)
      else ''Poison detected: non-retryable status '' @ (case att_statusCode attempt of None \<Rightarrow> ''undefined'' | Some c \<Rightarrow> show_int c))"

text \<open>After the attempt: the row is marked, then the outcome decides. The first component is a thrown error.\<close>

definition settle_row ::
  "outbox_config \<Rightarrow> row_env \<Rightarrow> outbox_row \<Rightarrow> jsval \<Rightarrow> string \<Rightarrow> nat \<Rightarrow> nat \<Rightarrow> WebhookOutboxRetryPlan \<Rightarrow> ('b, 'l) outbox \<Rightarrow>
   string option \<times> ('b, 'l) outbox" where
  "settle_row cfg e row payload endpointUrl n a plan x0 =
     (if \<not> re_update_ok e then (Some db_error, x0)
      else let x = mark_processed (or_id row) x0
      in case plan_attempt plan of
           None \<Rightarrow>
             (case plan_retryAt plan of
                Some t \<Rightarrow>
                  if \<not> plan_shouldRetry plan then (None, x)
                  else if \<not> re_insert_ok e then (Some db_error, x)
                  else (None, insert_row row payload t x)
              | None \<Rightarrow> (None, x))
         | Some attempt \<Rightarrow>
             (case classifyPoisonFailure cfg payload endpointUrl (att_statusCode attempt) (att_error attempt) of
                Some code \<Rightarrow>
                  (None, x\<lparr>ox_store := enqueuePermanentFailureToDlq a (poison_text attempt) Poison (re_dlqId e) (re_now e)
                     (update_object a (\<lambda>d. d\<lparr>wd_status := D_permanent_failure, wd_attempts := wd_attempts d @ [attempt]\<rparr>) (ox_store x))\<rparr>)
              | None \<Rightarrow>
                  if plan_shouldRetry plan
                  then let t = nullish (plan_retryAt plan) (calculateNextRetryTime n (oc_policy cfg) (re_now e) None (re_rnd' e));
                           x1 = x\<lparr>ox_store := update_object a (\<lambda>d. d\<lparr>wd_status := D_pending,
                             wd_attempts := set_last_retry t (wd_attempts d)\<rparr>) (ox_store x)\<rparr>
                       in (case plan_retryAt plan of
                             None \<Rightarrow> (None, x1)
                           | Some due \<Rightarrow>
                               if \<not> re_insert_ok e then (Some db_error, x1)
                               else (None, insert_row row (plan_payload plan) due x1))
                  else (None, x\<lparr>ox_store := update_object a (\<lambda>d. d\<lparr>wd_status :=
                          if attempt_ok attempt then D_delivered else D_permanent_failure\<rparr>) (ox_store x)\<rparr>)))"

definition deliverOutboxRow ::
  "outbox_config \<Rightarrow> 'b breaker_ops \<Rightarrow> ('l limiter_check \<times> RateLimitConfig) option \<Rightarrow> row_env \<Rightarrow> outbox_row \<Rightarrow> ('b, 'l) outbox \<Rightarrow>
   string option \<times> ('b, 'l) outbox" where
  "deliverOutboxRow cfg bo limiter e row x =
     (case resolveEndpoint cfg row of
        Inl err \<Rightarrow> (Some err, x)
      | Inr None \<Rightarrow> (None, x)
      | Inr (Some (endpointUrl, secret)) \<Rightarrow>
          let payload = normalizePayload (oc_parse_json cfg) (or_payload row);
              payloadString = oc_stringify cfg payload;
              n = extractAttemptNumber payload
          in if \<not> validateWebhookPayload (oc_safe_parse cfg) (oc_parse_json cfg) payload \<or>
                (n = 1 \<and> \<not> validateWebhookUrl (oc_parse_url cfg) endpointUrl)
             then let (a, s1) = new_delivery (row_delivery row endpointUrl payloadString D_permanent_failure 0 (re_now e)) (ox_store x);
                      x1 = x\<lparr>ox_store := enqueuePermanentFailureToDlq a
                        ''Webhook payload or endpoint is structurally invalid and non-retryable'' Poison (re_dlqId e) (re_now e) s1\<rparr>
                  in if \<not> re_update_ok e then (Some db_error, x1) else (None, mark_processed (or_id row) x1)
             else let (a, s1) = new_delivery (row_delivery row endpointUrl payloadString D_pending n (re_now e)) (ox_store x);
                      (attempt, s2) = runDeliveryAttempt cfg a (re_result e) (re_t0 e) (re_t1 e) (re_rnd e) s1;
                      input = \<lparr>in_consumerUrl = Some endpointUrl, in_streamId = or_stream_id row, in_payload = payload,
                        in_attemptNumber = n, in_policy = Some (oc_policy cfg), in_now = re_now e\<rparr>
                  in case attemptWebhookDeliveryWithRateLimit bo limiter input attempt (re_clock e) (re_clock' e) (re_rnd' e)
                            (ox_breaker x, ox_limiter x) of
                       Inl err \<Rightarrow>
                         (Some ''rate limit configuration'',
                          x\<lparr>ox_store := s1, ox_breaker := snd (bo_check bo (ox_breaker x) endpointUrl (breaker_policy (oc_policy cfg)) (re_now e))\<rparr>)
                     | Inr (plan, b, l) \<Rightarrow>
                         settle_row cfg e row payload endpointUrl n a plan
                           (if plan_attempt plan = None then x\<lparr>ox_store := s1, ox_breaker := b, ox_limiter := l\<rparr>
                            else x\<lparr>ox_store := s2, ox_breaker := b, ox_limiter := l,
                                   ox_requests := ox_requests x @ [(endpointUrl, payloadString)]\<rparr>))"

section \<open>Polling\<close>

fun process_rows ::
  "outbox_config \<Rightarrow> 'b breaker_ops \<Rightarrow> ('l limiter_check \<times> RateLimitConfig) option \<Rightarrow> (nat \<Rightarrow> row_env) \<Rightarrow> nat \<Rightarrow> outbox_row list \<Rightarrow>
   ('b, 'l) outbox \<Rightarrow> string option \<times> ('b, 'l) outbox" where
  "process_rows cfg bo limiter envs k [] x = (None, x)"
| "process_rows cfg bo limiter envs k (row # rows) x =
     (case deliverOutboxRow cfg bo limiter (envs k) row x of
        (Some err, x1) \<Rightarrow> (Some err, x1)
      | (None, x1) \<Rightarrow> process_rows cfg bo limiter envs (Suc k) rows x1)"

text \<open>The rows of one \<open>SELECT\<close>; \<open>locked\<close> are the identifiers of the rows that another transaction holds.\<close>

definition due_rows :: "outbox_config \<Rightarrow> millis \<Rightarrow> nat list \<Rightarrow> outbox_row list \<Rightarrow> outbox_row list" where
  "due_rows cfg now locked rows =
     take (oc_batchSize cfg) (sort_key (\<lambda>r. (or_created_at r, or_id r))
       (filter (\<lambda>r. \<not> or_processed r \<and> or_created_at r \<le> now \<and> or_id r \<notin> set locked) rows))"

record batch_backoff =
  bb_consecutiveBatchFailures :: nat
  bb_currentBatchBackoffMs :: int

definition resetBatchBackoff :: batch_backoff where
  "resetBatchBackoff = \<lparr>bb_consecutiveBatchFailures = 0, bb_currentBatchBackoffMs = 0\<rparr>"

definition recordBatchFailure :: "outbox_config \<Rightarrow> rat \<Rightarrow> batch_backoff \<Rightarrow> batch_backoff" where
  "recordBatchFailure cfg rnd bb =
     (let failures = bb_consecutiveBatchFailures bb + 1;
          base = oc_pollIntervalMs cfg * 2 ^ (failures - 1);
          capped = min base (oc_maxBatchBackoffMs cfg);
          jitter = of_int capped * (rnd * (1 / 2) - 1 / 4)
      in \<lparr>bb_consecutiveBatchFailures = failures, bb_currentBatchBackoffMs = max 0 (js_round (of_int capped + jitter))\<rparr>)"

record poll_env =
  pe_now :: millis
  pe_rnd :: rat
  pe_stopped :: bool
  pe_locked :: "nat list"
  pe_connect_ok :: bool
  pe_select_ok :: bool
  pe_commit_ok :: bool
  pe_rows :: "nat \<Rightarrow> row_env"

text \<open>A transaction that fails restores the rows; the sequence of identifiers is not rolled back.\<close>

definition rollback :: "('b, 'l) outbox \<Rightarrow> ('b, 'l) outbox \<Rightarrow> ('b, 'l) outbox" where
  "rollback x x1 = x1\<lparr>ox_rows := ox_rows x\<rparr>"

text \<open>The first component is the error the promise of the poll is rejected with.\<close>

definition processBatch ::
  "outbox_config \<Rightarrow> 'b breaker_ops \<Rightarrow> ('l limiter_check \<times> RateLimitConfig) option \<Rightarrow> poll_env \<Rightarrow> batch_backoff \<times> ('b, 'l) outbox \<Rightarrow>
   string option \<times> batch_backoff \<times> ('b, 'l) outbox" where
  "processBatch cfg bo limiter p = (\<lambda>(bb, x).
     if nullish (oc_endpointUrl cfg) [] = [] \<or> nullish (oc_secret cfg) [] = [] then (None, bb, x)
     else if 0 < bb_currentBatchBackoffMs bb \<and> pe_stopped p then (None, bb, x)
     else if \<not> pe_connect_ok p then (Some db_error, bb, x)
     else if \<not> pe_select_ok p then (None, recordBatchFailure cfg (pe_rnd p) bb, x)
     else case process_rows cfg bo limiter (pe_rows p) 0 (due_rows cfg (pe_now p) (pe_locked p) (ox_rows x)) x of
            (Some err, x1) \<Rightarrow> (None, recordBatchFailure cfg (pe_rnd p) bb, rollback x x1)
          | (None, x1) \<Rightarrow>
              if pe_commit_ok p then (None, resetBatchBackoff, x1)
              else (None, recordBatchFailure cfg (pe_rnd p) bb, rollback x x1))"

section \<open>The pieces of a delivery\<close>

lemma plan_cases:
  assumes "attemptWebhookDeliveryWithRateLimit bo lmt input deliver clock clock' rnd st = Inr (plan, b, l)"
  obtains (held) t where "plan_attempt plan = None" "plan_shouldRetry plan" "plan_retryAt plan = Some t"
  | (again) "plan_attempt plan = Some deliver" "plan_shouldRetry plan" "in_attemptNumber input < maxAttempts (input_policy input)"
      "isRetryableStatusCode (att_statusCode deliver) (input_policy input)"
      "plan_retryAt plan = Some (calculateNextRetryTime (in_attemptNumber input) (input_policy input) (in_now input) None rnd)"
      "plan_payload plan = augmentPayloadWithRetry (in_payload input) (in_attemptNumber input + 1)"
  | (final) "plan_attempt plan = Some deliver" "\<not> plan_shouldRetry plan"
proof -
  obtain g b1 where g: "checkWebhookDeliveryGate bo lmt (delivery_dimensions input) (input_key input) (input_policy input)
      (in_now input) clock st = Inr (g, b1, l)"
    using attempt_gate [OF assms] by metis
  show thesis
  proof (cases "gate_canDeliver g")
    case True
    then show thesis using attempt_delivered [OF g True, of deliver clock' rnd] assms again final by auto
  next
    case False
    then have "\<exists>t. gate_retryAt g = Some t" using g
      by (auto simp: checkWebhookDeliveryGate_def Let_def split_beta split: if_splits option.splits sum.splits)
    then show thesis using attempt_denied [OF g False, of deliver clock' rnd] assms held by auto
  qed
qed

lemma normal_retry: "extractAttemptNumber (augmentPayloadWithRetry payload n) = (if n = 0 then 1 else n)"
  by (simp add: extractAttemptNumber_def augmentPayloadWithRetry_def js_get_def json_nat_def Let_def)

definition dead_lettered :: "string \<Rightarrow> WebhookDeliveryStore \<Rightarrow> bool" where
  "dead_lettered i s \<longleftrightarrow> i \<in> dl_deliveryId ` set (map_values (ws_deadLetterQueue s))"

lemma map_set_member: "v \<in> snd ` set (map_set k v m)"
  by (induction m) auto

lemma enqueue_objects [simp]: "ws_objects (enqueuePermanentFailureToDlq a why code i t s) = ws_objects s"
  by (simp add: enqueuePermanentFailureToDlq_def addToDeadLetterQueue_def Let_def)

lemma enqueue_dead_lettered: "dead_lettered (wd_deliveryId (ws_objects s ! a)) (enqueuePermanentFailureToDlq a why code i t s)"
proof (cases "list_ex (\<lambda>item. dl_deliveryId item = wd_deliveryId (ws_objects s ! a)) (getDeadLetterQueueItems None 0 s)")
  case True
  then show ?thesis
    by (force simp: enqueuePermanentFailureToDlq_def dead_lettered_def getDeadLetterQueueItems_def list_ex_iff)
next
  case False
  let ?d = "ws_objects s ! a"
  let ?item = "\<lparr>dl_id = i, dl_deliveryId = wd_deliveryId ?d, dl_eventId = wd_eventId ?d, dl_eventType = wd_eventType ?d,
      dl_endpointUrl = wd_endpointUrl ?d, dl_payload = wd_payload ?d, dl_originalDelivery = a, dl_failureReason = why,
      dl_reasonCode = code, dl_createdAt = t\<rparr>"
  have "?item \<in> snd ` set (map_set i ?item (ws_deadLetterQueue s))" by (rule map_set_member)
  then have "wd_deliveryId ?d \<in> dl_deliveryId ` snd ` set (map_set i ?item (ws_deadLetterQueue s))" by (force simp del: image_image)
  with False show ?thesis
    by (simp add: enqueuePermanentFailureToDlq_def dead_lettered_def addToDeadLetterQueue_def Let_def)
qed

lemma update_object_simps [simp]:
  "ws_deadLetterQueue (update_object a f s) = ws_deadLetterQueue s"
  "length (ws_objects (update_object a f s)) = length (ws_objects s)"
  "a < length (ws_objects s) \<Longrightarrow> ws_objects (update_object a f s) ! a = f (ws_objects s ! a)"
  by (simp_all add: update_object_def)

lemma store_simps [simp]:
  "ws_deadLetterQueue (store a s) = ws_deadLetterQueue s" "ws_objects (store a s) = ws_objects s"
  by (simp_all add: store_def Let_def)

lemma mark_processed_simps [simp]:
  "ox_store (mark_processed i x) = ox_store x" "ox_requests (mark_processed i x) = ox_requests x"
  "ox_nextId (mark_processed i x) = ox_nextId x" "ox_rows (mark_processed i (x\<lparr>ox_store := s\<rparr>)) = ox_rows (mark_processed i x)"
  "ox_rows (mark_processed i (x\<lparr>ox_breaker := b\<rparr>)) = ox_rows (mark_processed i x)"
  "ox_rows (mark_processed i (x\<lparr>ox_limiter := l\<rparr>)) = ox_rows (mark_processed i x)"
  "ox_rows (mark_processed i (x\<lparr>ox_requests := q\<rparr>)) = ox_rows (mark_processed i x)"
  by (simp_all add: mark_processed_def)

lemma insert_row_simps [simp]:
  "ox_store (insert_row row p t x) = ox_store x" "ox_requests (insert_row row p t x) = ox_requests x"
  "ox_nextId (insert_row row p t x) = Suc (ox_nextId x)"
  by (simp_all add: insert_row_def)

text \<open>The row that is added for a row, and the attempt that a row leads to.\<close>

definition later_row :: "outbox_row \<Rightarrow> nat \<Rightarrow> jsval \<Rightarrow> millis \<Rightarrow> outbox_row" where
  "later_row row i payload t =
     \<lparr>or_id = i, or_stream_id = or_stream_id row, or_event_type = or_event_type row, or_payload = payload,
      or_created_at = t, or_processed = False\<rparr>"

lemma insert_row_rows: "ox_rows (insert_row row p t x) = ox_rows x @ [later_row row (ox_nextId x) p t]"
  by (simp add: insert_row_def later_row_def)

abbreviation row_payload :: "outbox_config \<Rightarrow> outbox_row \<Rightarrow> jsval" where
  "row_payload cfg row \<equiv> normalizePayload (oc_parse_json cfg) (or_payload row)"

abbreviation row_attempt :: "outbox_config \<Rightarrow> outbox_row \<Rightarrow> nat" where
  "row_attempt cfg row \<equiv> extractAttemptNumber (row_payload cfg row)"

abbreviation row_key :: "outbox_row \<Rightarrow> string" where
  "row_key row \<equiv> ''outbox_'' @ show_nat (or_id row)"

definition attempt_of :: "outbox_config \<Rightarrow> row_env \<Rightarrow> outbox_row \<Rightarrow> WebhookDeliveryAttempt" where
  "attempt_of cfg e row =
     snd (http_attempt cfg (row_attempt cfg row - 1 + 1) (re_result e) (re_t0 e) (re_t1 e) (re_rnd e))"

definition malformed :: "outbox_config \<Rightarrow> outbox_row \<Rightarrow> string \<Rightarrow> bool" where
  "malformed cfg row url \<longleftrightarrow> \<not> validateWebhookPayload (oc_safe_parse cfg) (oc_parse_json cfg) (row_payload cfg row) \<or>
     (row_attempt cfg row = 1 \<and> \<not> validateWebhookUrl (oc_parse_url cfg) url)"

definition poisoned :: "outbox_config \<Rightarrow> row_env \<Rightarrow> outbox_row \<Rightarrow> string \<Rightarrow> bool" where
  "poisoned cfg e row url \<longleftrightarrow> classifyPoisonFailure cfg (row_payload cfg row) url (att_statusCode (attempt_of cfg e row))
     (att_error (attempt_of cfg e row)) \<noteq> None"

lemma run_attempt:
  assumes "a < length (ws_objects s)"
  shows "runDeliveryAttempt cfg a res t0 t1 rnd s = (attempt, s') \<Longrightarrow>
      attempt = snd (http_attempt cfg (length (wd_attempts (ws_objects s ! a)) + 1) res t0 t1 rnd) \<and>
      ws_deadLetterQueue s' = ws_deadLetterQueue s \<and> length (ws_objects s') = length (ws_objects s) \<and>
      wd_deliveryId (ws_objects s' ! a) = wd_deliveryId (ws_objects s ! a)"
  using assms by (auto simp: runDeliveryAttempt_def split: prod.splits)

section \<open>The outcome of a row\<close>

text \<open>\<open>x1\<close> is the outbox with the row marked and \<open>a\<close> the delivery object that was made for it.\<close>

definition row_outcome ::
  "outbox_config \<Rightarrow> row_env \<Rightarrow> outbox_row \<Rightarrow> string \<Rightarrow> ('b, 'l) outbox \<Rightarrow> ('b, 'l) outbox \<Rightarrow> bool" where
  "row_outcome cfg e row url x x' \<longleftrightarrow>
     (let marked = ox_rows (mark_processed (or_id row) x); payload = row_payload cfg row; n = row_attempt cfg row;
          status = wd_status (ws_objects (ox_store x') ! length (ws_objects (ox_store x)));
          sent = ox_requests x @ [(url, oc_stringify cfg payload)];
          silent = (ws_deadLetterQueue (ox_store x') = ws_deadLetterQueue (ox_store x))
      in if malformed cfg row url
         then ox_rows x' = marked \<and> ox_requests x' = ox_requests x \<and> dead_lettered (row_key row) (ox_store x')
         else if ox_requests x' = ox_requests x
         then (\<exists>t. ox_rows x' = marked @ [later_row row (ox_nextId x) payload t]) \<and> silent
         else ox_requests x' = sent \<and>
           (if poisoned cfg e row url
            then ox_rows x' = marked \<and> dead_lettered (row_key row) (ox_store x') \<and> status = D_permanent_failure
            else silent \<and>
              (ox_rows x' = marked @ [later_row row (ox_nextId x) (augmentPayloadWithRetry payload (n + 1))
                   (calculateNextRetryTime n (oc_policy cfg) (re_now e) None (re_rnd' e))] \<and>
               n < maxAttempts (oc_policy cfg) \<and> isRetryableStatusCode (att_statusCode (attempt_of cfg e row)) (oc_policy cfg) \<and>
               status = D_pending
             \<or> ox_rows x' = marked \<and>
               status = (if attempt_ok (attempt_of cfg e row) then D_delivered else D_permanent_failure))))"

lemma settle_held:
  assumes "settle_row cfg e row payload url n a plan x = (None, x')" "plan_attempt plan = None" "plan_shouldRetry plan" "plan_retryAt plan = Some t"
  shows "x' = insert_row row payload t (mark_processed (or_id row) x)"
  using assms by (auto simp: settle_row_def Let_def split: if_splits)

lemma settle_attempt:
  assumes S: "settle_row cfg e row payload url n a plan x = (None, x')" and P: "plan_attempt plan = Some attempt"
  shows "ox_requests x' = ox_requests x \<and> length (ws_objects (ox_store x')) = length (ws_objects (ox_store x)) \<and>
     (case classifyPoisonFailure cfg payload url (att_statusCode attempt) (att_error attempt) of
        Some code \<Rightarrow> ox_rows x' = ox_rows (mark_processed (or_id row) x) \<and>
          (a < length (ws_objects (ox_store x)) \<longrightarrow> wd_status (ws_objects (ox_store x') ! a) = D_permanent_failure \<and>
             dead_lettered (wd_deliveryId (ws_objects (ox_store x) ! a)) (ox_store x'))
      | None \<Rightarrow> ws_deadLetterQueue (ox_store x') = ws_deadLetterQueue (ox_store x) \<and>
          ox_rows x' = ox_rows (mark_processed (or_id row) x) @
            (case (plan_shouldRetry plan, plan_retryAt plan) of (True, Some t) \<Rightarrow> [later_row row (ox_nextId x) (plan_payload plan) t] | _ \<Rightarrow> []) \<and>
          (a < length (ws_objects (ox_store x)) \<longrightarrow> wd_status (ws_objects (ox_store x') ! a) =
             (if plan_shouldRetry plan then D_pending else if attempt_ok attempt then D_delivered else D_permanent_failure)))"
proof (cases "classifyPoisonFailure cfg payload url (att_statusCode attempt) (att_error attempt)")
  case None
  with S P show ?thesis
    by (cases "plan_shouldRetry plan"; cases "plan_retryAt plan")
       (auto simp: settle_row_def Let_def insert_row_rows split: if_splits)
next
  case (Some code)
  let ?s = "update_object a (\<lambda>d. d\<lparr>wd_status := D_permanent_failure, wd_attempts := wd_attempts d @ [attempt]\<rparr>) (ox_store x)"
  have x': "x' = (mark_processed (or_id row) x)\<lparr>ox_store :=
      enqueuePermanentFailureToDlq a (poison_text attempt) Poison (re_dlqId e) (re_now e) ?s\<rparr>"
    using S P Some by (simp add: settle_row_def Let_def split: if_splits)
  show ?thesis
    using Some x' enqueue_dead_lettered [of ?s a "poison_text attempt" Poison "re_dlqId e" "re_now e"]
    by (cases "a < length (ws_objects (ox_store x))") simp_all
qed

lemma row_malformed:
  assumes "resolveEndpoint cfg row = Inr (Some (url, secret))" "malformed cfg row url"
    and D: "deliverOutboxRow cfg bo lmt e row x = (None, x')"
  shows "row_outcome cfg e row url x x'"
proof -
  let ?d = "row_delivery row url (oc_stringify cfg (row_payload cfg row)) D_permanent_failure 0 (re_now e)"
  obtain a s1 where n: "new_delivery ?d (ox_store x) = (a, s1)" by fastforce
  then have a: "a = length (ws_objects (ox_store x))" "ws_objects s1 = ws_objects (ox_store x) @ [?d]" by (auto simp: new_delivery_def)
  let ?s = "enqueuePermanentFailureToDlq a ''Webhook payload or endpoint is structurally invalid and non-retryable'' Poison
      (re_dlqId e) (re_now e) s1"
  have "x' = mark_processed (or_id row) (x\<lparr>ox_store := ?s\<rparr>)"
    using assms n by (auto simp: deliverOutboxRow_def Let_def malformed_def split: if_splits)
  moreover have "dead_lettered (row_key row) ?s"
    using enqueue_dead_lettered [of s1 a] a by (simp add: row_delivery_def)
  ultimately show ?thesis using assms(2) by (simp add: row_outcome_def Let_def)
qed

definition row_input :: "outbox_config \<Rightarrow> row_env \<Rightarrow> outbox_row \<Rightarrow> string \<Rightarrow> WebhookOutboxRetryInput" where
  "row_input cfg e row url =
     \<lparr>in_consumerUrl = Some url, in_streamId = or_stream_id row, in_payload = row_payload cfg row,
      in_attemptNumber = row_attempt cfg row, in_policy = Some (oc_policy cfg), in_now = re_now e\<rparr>"

text \<open>A row that is well formed: the plan that the gate makes, and what is settled from it.\<close>

lemma row_settled:
  assumes E: "resolveEndpoint cfg row = Inr (Some (url, secret))" "\<not> malformed cfg row url"
    and D: "deliverOutboxRow cfg bo lmt e row x = (None, x')"
  obtains plan b l s1 s2 where
    "attemptWebhookDeliveryWithRateLimit bo lmt (row_input cfg e row url) (attempt_of cfg e row) (re_clock e) (re_clock' e) (re_rnd' e)
       (ox_breaker x, ox_limiter x) = Inr (plan, b, l)"
    "settle_row cfg e row (row_payload cfg row) url (row_attempt cfg row) (length (ws_objects (ox_store x))) plan
       (if plan_attempt plan = None then x\<lparr>ox_store := s1, ox_breaker := b, ox_limiter := l\<rparr>
        else x\<lparr>ox_store := s2, ox_breaker := b, ox_limiter := l,
               ox_requests := ox_requests x @ [(url, oc_stringify cfg (row_payload cfg row))]\<rparr>) = (None, x')"
    "ws_deadLetterQueue s1 = ws_deadLetterQueue (ox_store x)" "ws_deadLetterQueue s2 = ws_deadLetterQueue (ox_store x)"
    "length (ws_objects (ox_store x)) < length (ws_objects s2)"
    "wd_deliveryId (ws_objects s2 ! length (ws_objects (ox_store x))) = row_key row"
proof -
  let ?p = "row_payload cfg row" and ?n = "row_attempt cfg row"
  let ?d = "row_delivery row url (oc_stringify cfg ?p) D_pending ?n (re_now e)"
  obtain a s1 where n: "new_delivery ?d (ox_store x) = (a, s1)" by fastforce
  then have a: "a = length (ws_objects (ox_store x))" "ws_objects s1 = ws_objects (ox_store x) @ [?d]"
    "ws_deadLetterQueue s1 = ws_deadLetterQueue (ox_store x)" by (auto simp: new_delivery_def)
  obtain at' s2 where r: "runDeliveryAttempt cfg a (re_result e) (re_t0 e) (re_t1 e) (re_rnd e) s1 = (at', s2)" by fastforce
  then have s2: "at' = attempt_of cfg e row" "ws_deadLetterQueue s2 = ws_deadLetterQueue s1"
    "length (ws_objects s2) = length (ws_objects s1)" "wd_deliveryId (ws_objects s2 ! a) = row_key row"
    using run_attempt [OF _ r] a by (auto simp: attempt_of_def row_delivery_def)
  let ?A = "attemptWebhookDeliveryWithRateLimit bo lmt (row_input cfg e row url) (attempt_of cfg e row) (re_clock e) (re_clock' e)
      (re_rnd' e) (ox_breaker x, ox_limiter x)"
  have "deliverOutboxRow cfg bo lmt e row x =
      (case ?A of
         Inl err \<Rightarrow> (Some ''rate limit configuration'',
            x\<lparr>ox_store := s1, ox_breaker := snd (bo_check bo (ox_breaker x) url (breaker_policy (oc_policy cfg)) (re_now e))\<rparr>)
       | Inr (plan, b, l) \<Rightarrow>
           settle_row cfg e row ?p url ?n a plan
             (if plan_attempt plan = None then x\<lparr>ox_store := s1, ox_breaker := b, ox_limiter := l\<rparr>
              else x\<lparr>ox_store := s2, ox_breaker := b, ox_limiter := l, ox_requests := ox_requests x @ [(url, oc_stringify cfg ?p)]\<rparr>))"
    using E n r s2(1) unfolding deliverOutboxRow_def row_input_def Let_def malformed_def [symmetric] by simp
  with D obtain plan b l where "?A = Inr (plan, b, l)"
    "settle_row cfg e row ?p url ?n a plan
       (if plan_attempt plan = None then x\<lparr>ox_store := s1, ox_breaker := b, ox_limiter := l\<rparr>
        else x\<lparr>ox_store := s2, ox_breaker := b, ox_limiter := l, ox_requests := ox_requests x @ [(url, oc_stringify cfg ?p)]\<rparr>) = (None, x')"
    by (auto split: sum.splits)
  then show thesis using that a s2 by auto
qed

lemma row_outcome_holds:
  assumes E: "resolveEndpoint cfg row = Inr (Some (url, secret))" and D: "deliverOutboxRow cfg bo lmt e row x = (None, x')"
  shows "row_outcome cfg e row url x x'"
proof (cases "malformed cfg row url")
  case True
  with E D show ?thesis by (blast intro: row_malformed)
next
  case False
  let ?p = "row_payload cfg row" and ?a = "length (ws_objects (ox_store x))"
  from row_settled [OF E False D] obtain plan b l s1 s2 where
    A: "attemptWebhookDeliveryWithRateLimit bo lmt (row_input cfg e row url) (attempt_of cfg e row) (re_clock e) (re_clock' e)
      (re_rnd' e) (ox_breaker x, ox_limiter x) = Inr (plan, b, l)"
    and S: "settle_row cfg e row ?p url (row_attempt cfg row) ?a plan
       (if plan_attempt plan = None then x\<lparr>ox_store := s1, ox_breaker := b, ox_limiter := l\<rparr>
        else x\<lparr>ox_store := s2, ox_breaker := b, ox_limiter := l,
               ox_requests := ox_requests x @ [(url, oc_stringify cfg ?p)]\<rparr>) = (None, x')"
    and s: "ws_deadLetterQueue s1 = ws_deadLetterQueue (ox_store x)" "ws_deadLetterQueue s2 = ws_deadLetterQueue (ox_store x)"
      "?a < length (ws_objects s2)" "wd_deliveryId (ws_objects s2 ! ?a) = row_key row"
    by metis
  show ?thesis using A
  proof (cases rule: plan_cases)
    case (held t)
    with S have "x' = insert_row row ?p t (mark_processed (or_id row) (x\<lparr>ox_store := s1, ox_breaker := b, ox_limiter := l\<rparr>))"
      by (auto dest: settle_held)
    with False s show ?thesis by (auto simp: row_outcome_def Let_def insert_row_rows)
  next
    case again
    let ?y = "x\<lparr>ox_store := s2, ox_breaker := b, ox_limiter := l, ox_requests := ox_requests x @ [(url, oc_stringify cfg ?p)]\<rparr>"
    have "settle_row cfg e row ?p url (row_attempt cfg row) ?a plan ?y = (None, x')" using S again(1) by simp
    from settle_attempt [OF this again(1)] show ?thesis using again False s
      by (cases "poisoned cfg e row url") (auto simp: row_outcome_def Let_def poisoned_def row_input_def)
  next
    case final
    let ?y = "x\<lparr>ox_store := s2, ox_breaker := b, ox_limiter := l, ox_requests := ox_requests x @ [(url, oc_stringify cfg ?p)]\<rparr>"
    have "settle_row cfg e row ?p url (row_attempt cfg row) ?a plan ?y = (None, x')" using S final(1) by simp
    from settle_attempt [OF this final(1)] show ?thesis using final False s
      by (cases "poisoned cfg e row url") (auto simp: row_outcome_def Let_def poisoned_def row_input_def)
  qed
qed

section \<open>Properties of a row\<close>


definition demo_url :: url_parser where
  "demo_url s = (if starts_with ''https://'' s
     then Some \<lparr>url_protocol = ''https:'', url_hostname = drop 8 s, url_username = [], url_password = []\<rparr> else None)"

definition demo_safe_parse :: safe_parse where
  "demo_safe_parse t sch v = (case v of
     JObject ms \<Rightarrow> list_all (\<lambda>k. k \<in> set (ps_required sch @ ps_optional sch)) (map fst ms) \<and>
       list_all (\<lambda>k. k \<in> set (map fst ms)) (ps_required sch)
   | _ \<Rightarrow> False)"

lemma demo_strict: "strict_parse demo_safe_parse"
  by (auto simp: strict_parse_def demo_safe_parse_def list_all_iff)

definition demo_outbox_config :: outbox_config where
  "demo_outbox_config = \<lparr>oc_parse_url = demo_url, oc_parse_json = (\<lambda>s. None), oc_stringify = (\<lambda>v. ''{}''), oc_parse_date = (\<lambda>s. None),
     oc_safe_parse = demo_safe_parse, oc_policy = DEFAULT_RETRY_POLICY, oc_endpointUrl = Some ''https://r'', oc_secret = Some ''k'',
     oc_production = True, oc_maxResponseBytes = 100, oc_batchSize = 10, oc_pollIntervalMs = 1000, oc_maxBatchBackoffMs = 60000\<rparr>"

definition demo_event :: "jsval" where
  "demo_event = JObject [(''event'', JString ''stream.cancelled''), (''schema_version'', JNumber (Finite 1)), (''status'', JString ''cancelled'')]"

definition demo_row :: "jsval \<Rightarrow> outbox_row" where
  "demo_row payload = \<lparr>or_id = 7, or_stream_id = ''s'', or_event_type = ''stream.cancelled'', or_payload = payload, or_created_at = 0,
     or_processed = False\<rparr>"

definition demo_reply :: "int \<Rightarrow> fetch_result" where
  "demo_reply code = Fetched \<lparr>hr_status = code, hr_contentType = Some ''text/plain'', hr_chunks = [3], hr_retryAfter = None\<rparr>"

definition demo_env :: "fetch_result \<Rightarrow> row_env" where
  "demo_env res = \<lparr>re_result = res, re_now = 5000, re_clock = 5000, re_clock' = 5001, re_t0 = 5000, re_t1 = 5001, re_rnd = 1 / 2,
     re_rnd' = 1 / 2, re_dlqId = ''q'', re_update_ok = True, re_insert_ok = True\<rparr>"

definition demo_outbox :: "jsval \<Rightarrow> (InMemoryWebhookCircuitBreakerStore, TokenBucketRateLimiter) outbox" where
  "demo_outbox payload = \<lparr>ox_rows = [demo_row payload], ox_nextId = 8, ox_store = new_store, ox_breaker = cb_empty,
     ox_limiter = demo_buckets, ox_requests = []\<rparr>"

definition demo_deliver_row :: "jsval \<Rightarrow> int \<Rightarrow> string option \<times> (InMemoryWebhookCircuitBreakerStore, TokenBucketRateLimiter) outbox" where
  "demo_deliver_row payload code = deliverOutboxRow demo_outbox_config (memory_breaker id) (Some (tb_checkLimit id, demo_config))
     (demo_env (demo_reply code)) (demo_row payload) (demo_outbox payload)"

lemma demo_delivered:
  "fst (demo_deliver_row payload code) = None \<Longrightarrow>
   deliverOutboxRow demo_outbox_config (memory_breaker id) (Some (tb_checkLimit id, demo_config)) (demo_env (demo_reply code))
     (demo_row payload) (demo_outbox payload) = (None, snd (demo_deliver_row payload code))"
  by (cases "demo_deliver_row payload code") (simp add: demo_deliver_row_def)

lemma demo_resolved: "resolveEndpoint demo_outbox_config (demo_row demo_event) = Inr (Some (''https://r'', ''k''))"
  by code_simp

lemma demo_sent:
  "fst (demo_deliver_row demo_event 503) = None"
  "ox_requests (snd (demo_deliver_row demo_event 503)) = [(''https://r'', ''{}'')]"
  by code_simp+


text \<open>Outside the outbox the last failed attempt is dead-lettered.\<close>

lemma run_attempt_status:
  "a < length (ws_objects s) \<Longrightarrow> runDeliveryAttempt cfg a res t0 t1 rnd s = (attempt, s') \<Longrightarrow>
   wd_status (ws_objects s' ! a) = fst (http_attempt cfg (length (wd_attempts (ws_objects s ! a)) + 1) res t0 t1 rnd)"
  by (auto simp: runDeliveryAttempt_def split: prod.splits)

lemma http_status:
  "http_attempt cfg n res t0 t1 rnd = (status, attempt) \<Longrightarrow> status = D_delivered \<longleftrightarrow> attempt_ok attempt"
  by (auto simp: http_attempt_def attempt_ok_def Let_def sendWebhook_def split: if_splits sum.splits fetch_result.splits)

lemma attemptDelivery_exhausted:
  assumes "a < length (ws_objects s)" "maxAttempts (oc_policy cfg) \<le> length (wd_attempts (ws_objects s ! a)) + 1"
    and "fst (http_attempt cfg (length (wd_attempts (ws_objects s ! a)) + 1) (re_result e) (re_t0 e) (re_t1 e) (re_rnd e)) \<noteq> D_delivered"
  shows "dead_lettered (wd_deliveryId (ws_objects s ! a)) (fst (attemptDelivery cfg bo get_state a e (s, b)))"
proof -
  obtain attempt s1 where r: "runDeliveryAttempt cfg a (re_result e) (re_t0 e) (re_t1 e) (re_rnd e) s = (attempt, s1)" by fastforce
  obtain k b1 where o: "recordBreakerOutcome bo get_state (oc_policy cfg) (wd_endpointUrl (ws_objects s ! a)) attempt (re_clock' e) b = (k, b1)"
    by fastforce
  let ?s = "store a (update_object a (\<lambda>d. d\<lparr>wd_status := D_permanent_failure\<rparr>) s1)"
  have s1: "wd_status (ws_objects s1 ! a) \<noteq> D_delivered" "wd_deliveryId (ws_objects ?s ! a) = wd_deliveryId (ws_objects s ! a)"
    using run_attempt [OF assms(1) r] run_attempt_status [OF assms(1) r] assms by auto
  have "\<not> shouldRetry attempt (length (wd_attempts (ws_objects s ! a)) + 1) (oc_policy cfg) k"
    using assms(2) by (simp add: shouldRetry_def)
  then show ?thesis
    using s1 r o enqueue_dead_lettered [of ?s a] by (simp add: attemptDelivery_def Let_def)
qed

text \<open>(C34) An event whose last attempt fails is lost in the outbox. When the row carries the last allowed attempt number and its
  request fails with anything that is not classified as poison, the row is marked as processed, no row is added and the dead-letter
  queue does not change. The same failure of a delivery that is not in the outbox is dead-lettered.\<close>

theorem exhausted_event_lost:
  assumes "resolveEndpoint cfg row = Inr (Some (url, secret))" and "\<not> malformed cfg row url"
    and "maxAttempts (oc_policy cfg) \<le> extractAttemptNumber (normalizePayload (oc_parse_json cfg) (or_payload row))"
    and "deliverOutboxRow cfg bo lmt e row x = (None, x')" and "ox_requests x' \<noteq> ox_requests x"
    and "\<not> attempt_ok (attempt_of cfg e row)" and "\<not> poisoned cfg e row url"
    and "a < length (ws_objects s)" and "maxAttempts (oc_policy cfg) \<le> length (wd_attempts (ws_objects s ! a)) + 1"
    and "fst (http_attempt cfg (length (wd_attempts (ws_objects s ! a)) + 1) (re_result e) (re_t0 e) (re_t1 e) (re_rnd e)) \<noteq> D_delivered"
  shows "ox_rows x' = ox_rows (mark_processed (or_id row) x) \<and> ws_deadLetterQueue (ox_store x') = ws_deadLetterQueue (ox_store x) \<and>
     wd_status (ws_objects (ox_store x') ! length (ws_objects (ox_store x))) = D_permanent_failure \<and>
     dead_lettered (wd_deliveryId (ws_objects s ! a)) (fst (attemptDelivery cfg bo get_state a e (s, b)))"
  using row_outcome_holds [OF assms(1,4)] assms attemptDelivery_exhausted [OF assms(8-10), of bo get_state b]
  by (simp add: row_outcome_def Let_def)

definition demo_last :: jsval where
  "demo_last = augmentPayloadWithRetry JNull 5"

definition demo_last_run :: "string option \<times> (InMemoryWebhookCircuitBreakerStore, unit) outbox" where
  "demo_last_run = deliverOutboxRow demo_outbox_config (memory_breaker id) None (demo_env (demo_reply 503)) (demo_row demo_last)
     \<lparr>ox_rows = [demo_row demo_last], ox_nextId = 8, ox_store = new_store, ox_breaker = cb_empty, ox_limiter = (), ox_requests = []\<rparr>"

definition demo_delivery_store :: WebhookDeliveryStore where
  "demo_delivery_store = snd (new_delivery (row_delivery (demo_row demo_last) ''https://r'' ''{}'' D_pending 5 0) new_store)"

theorem exhausted_event_lost_witness:
  "map or_processed (ox_rows (snd demo_last_run)) = [True] \<and> ws_deadLetterQueue (ox_store (snd demo_last_run)) = [] \<and>
   dead_lettered ''outbox_7'' (fst (attemptDelivery demo_outbox_config (memory_breaker id) (\<lambda>b u. None) 0 (demo_env (demo_reply 503))
     (demo_delivery_store, cb_empty)))"
proof -
  let ?x = "\<lparr>ox_rows = [demo_row demo_last], ox_nextId = 8, ox_store = new_store, ox_breaker = cb_empty, ox_limiter = (), ox_requests = []\<rparr>"
  have r: "resolveEndpoint demo_outbox_config (demo_row demo_last) = Inr (Some (''https://r'', ''k''))" by code_simp
  have m: "\<not> malformed demo_outbox_config (demo_row demo_last) ''https://r''" by code_simp
  have n: "maxAttempts (oc_policy demo_outbox_config) \<le> row_attempt demo_outbox_config (demo_row demo_last)" by code_simp
  have "fst demo_last_run = None" by code_simp
  then have d: "deliverOutboxRow demo_outbox_config (memory_breaker id) None (demo_env (demo_reply 503)) (demo_row demo_last) ?x =
      (None, snd demo_last_run)"
    by (cases demo_last_run) (simp add: demo_last_run_def)
  have q: "ox_requests (snd demo_last_run) \<noteq> ox_requests ?x" by code_simp
  have k: "\<not> attempt_ok (attempt_of demo_outbox_config (demo_env (demo_reply 503)) (demo_row demo_last))" by code_simp
  have p: "\<not> poisoned demo_outbox_config (demo_env (demo_reply 503)) (demo_row demo_last) ''https://r''" by code_simp
  have s: "0 < length (ws_objects demo_delivery_store)" by code_simp
  have s': "maxAttempts (oc_policy demo_outbox_config) \<le> length (wd_attempts (ws_objects demo_delivery_store ! 0)) + 1" by code_simp
  have h: "fst (http_attempt demo_outbox_config (length (wd_attempts (ws_objects demo_delivery_store ! 0)) + 1)
      (re_result (demo_env (demo_reply 503))) (re_t0 (demo_env (demo_reply 503))) (re_t1 (demo_env (demo_reply 503)))
      (re_rnd (demo_env (demo_reply 503)))) \<noteq> D_delivered" by code_simp
  have i: "wd_deliveryId (ws_objects demo_delivery_store ! 0) = ''outbox_7''" by code_simp
  show ?thesis
    using exhausted_event_lost [OF r m n d q k p s s' h, of "\<lambda>b u. None" cb_empty] i
    by (simp add: mark_processed_def demo_row_def new_store_def)
qed

text \<open>A published payload with a member that no schema names.\<close>

lemma schema_fields:
  "map_get WEBHOOK_PAYLOAD_SCHEMAS t = Some sch \<Longrightarrow> ''_webhookRetry'' \<notin> set (ps_required sch @ ps_optional sch)"
  by (auto simp: WEBHOOK_PAYLOAD_SCHEMAS_def envelopeFields_def split: if_splits)

lemma retry_member: "''_webhookRetry'' \<in> fst ` set (map_set ''_webhookRetry'' v ms)"
  by (simp add: dom_update)

lemma retry_payload_invalid:
  assumes "strict_parse sp" "js_get (JObject ms) ''event'' = JString t"
  shows "\<not> validateWebhookPayload sp pj (augmentPayloadWithRetry (JObject ms) n)"
proof -
  let ?ms = "map_set ''_webhookRetry'' (JObject [(''attemptNumber'', json_nat n)]) ms"
  have "\<not> validatePublishedPayload sp t (JObject ?ms)"
  proof (cases "map_get WEBHOOK_PAYLOAD_SCHEMAS t")
    case (Some sch)
    with assms(1) schema_fields [OF Some] retry_member show ?thesis
      unfolding strict_parse_def validatePublishedPayload_def by fastforce
  qed (simp add: validatePublishedPayload_def)
  moreover have "js_get (JObject ?ms) ''event'' = JString t" using assms(2) by (simp add: js_get_def)
  ultimately show ?thesis
    by (simp add: validateWebhookPayload_def augmentPayloadWithRetry_def spread_def Let_def)
qed

text \<open>(C33) A published event is never sent twice: the retry metadata makes it malformed. The published schemas are strict and the retry
  adds the member \<open>_webhookRetry\<close>, so when the first request of a published event fails with a failure that may be retried, the
  row that is added for the retry is dead-lettered as structurally invalid as soon as it is picked up, and its receiver is not contacted.\<close>

theorem published_retry_is_poison:
  assumes "strict_parse (oc_safe_parse cfg)" and "resolveEndpoint cfg row = Inr (Some (url, secret))"
    and "normalizePayload (oc_parse_json cfg) (or_payload row) = JObject ms" and "js_get (JObject ms) ''event'' = JString t"
    and "deliverOutboxRow cfg bo lmt e row x = (None, x')" and "ox_requests x' \<noteq> ox_requests x"
    and "ox_rows x' \<noteq> ox_rows (mark_processed (or_id row) x)"
    and "resolveEndpoint cfg (last (ox_rows x')) = Inr (Some (url', secret'))"
    and "deliverOutboxRow cfg bo' lmt' e' (last (ox_rows x')) y = (None, y')"
  shows "ox_rows y' = ox_rows (mark_processed (or_id (last (ox_rows x'))) y) \<and> ox_requests y' = ox_requests y \<and>
     dead_lettered (''outbox_'' @ show_nat (or_id (last (ox_rows x')))) (ox_store y')"
proof -
  have "\<exists>i due. last (ox_rows x') = later_row row i (augmentPayloadWithRetry (JObject ms) (row_attempt cfg row + 1)) due"
    using row_outcome_holds [OF assms(2,5)] assms(3,6,7) by (auto simp: row_outcome_def Let_def split: if_splits)
  then have "or_payload (last (ox_rows x')) = augmentPayloadWithRetry (JObject ms) (row_attempt cfg row + 1)"
    by (auto simp: later_row_def)
  moreover have "normalizePayload pj (augmentPayloadWithRetry v n) = augmentPayloadWithRetry v n" for pj v n
    by (simp add: augmentPayloadWithRetry_def normalizePayload_def Let_def)
  ultimately have "malformed cfg (last (ox_rows x')) url'"
    using retry_payload_invalid [OF assms(1,4)] by (simp add: malformed_def)
  then show ?thesis using row_outcome_holds [OF assms(8,9)] by (simp add: row_outcome_def Let_def)
qed

definition demo_retry :: "(InMemoryWebhookCircuitBreakerStore, TokenBucketRateLimiter) outbox" where
  "demo_retry = snd (demo_deliver_row demo_event 503)"

definition demo_retry_run :: "string option \<times> (InMemoryWebhookCircuitBreakerStore, TokenBucketRateLimiter) outbox" where
  "demo_retry_run = deliverOutboxRow demo_outbox_config (memory_breaker id) (Some (tb_checkLimit id, demo_config))
     (demo_env (demo_reply 200)) (last (ox_rows demo_retry)) demo_retry"

theorem published_retry_is_poison_witness:
  "ox_requests (snd demo_retry_run) = ox_requests demo_retry \<and> dead_lettered ''outbox_8'' (ox_store (snd demo_retry_run))"
proof -
  have s: "strict_parse (oc_safe_parse demo_outbox_config)" by (simp add: demo_outbox_config_def demo_strict)
  have p: "normalizePayload (oc_parse_json demo_outbox_config) (or_payload (demo_row demo_event)) =
      JObject [(''event'', JString ''stream.cancelled''), (''schema_version'', JNumber (Finite 1)), (''status'', JString ''cancelled'')]"
    by code_simp
  have g: "js_get (JObject [(''event'', JString ''stream.cancelled''), (''schema_version'', JNumber (Finite 1)),
      (''status'', JString ''cancelled'')]) ''event'' = JString ''stream.cancelled''" by code_simp
  have q: "ox_requests (snd (demo_deliver_row demo_event 503)) \<noteq> ox_requests (demo_outbox demo_event)" by code_simp
  have "length (ox_rows (snd (demo_deliver_row demo_event 503))) = 2" by code_simp
  then have r: "ox_rows (snd (demo_deliver_row demo_event 503)) \<noteq> ox_rows (mark_processed (or_id (demo_row demo_event)) (demo_outbox demo_event))"
    by (auto simp: mark_processed_def demo_outbox_def)
  have u: "resolveEndpoint demo_outbox_config (last (ox_rows (snd (demo_deliver_row demo_event 503)))) = Inr (Some (''https://r'', ''k''))"
    by code_simp
  have "fst demo_retry_run = None" by code_simp
  then have d: "deliverOutboxRow demo_outbox_config (memory_breaker id) (Some (tb_checkLimit id, demo_config)) (demo_env (demo_reply 200))
      (last (ox_rows (snd (demo_deliver_row demo_event 503)))) demo_retry = (None, snd demo_retry_run)"
    by (cases demo_retry_run) (simp add: demo_retry_run_def demo_retry_def)
  have i: "''outbox_'' @ show_nat (or_id (last (ox_rows (snd (demo_deliver_row demo_event 503))))) = ''outbox_8''" by code_simp
  show ?thesis
    using published_retry_is_poison [OF s demo_resolved p g demo_delivered [OF demo_sent(1)] q r u d] i by simp
qed

section \<open>Properties of a poll\<close>

text \<open>What a run of rows does to the table: the rows with an identifier in \<open>I\<close> are marked and new, unprocessed rows follow.\<close>

definition advanced :: "nat set \<Rightarrow> ('b, 'l) outbox \<Rightarrow> ('b, 'l) outbox \<Rightarrow> bool" where
  "advanced I x x' \<longleftrightarrow> ox_nextId x \<le> ox_nextId x' \<and>
     (\<exists>added. ox_rows x' = map (\<lambda>r. if or_id r \<in> I then r\<lparr>or_processed := True\<rparr> else r) (ox_rows x) @ added \<and>
        list_all (\<lambda>r. \<not> or_processed r) added \<and> map or_id added = [ox_nextId x..<ox_nextId x'])"

lemma mark_processed_advanced: "advanced {i} x (mark_processed i x)"
  by (simp add: advanced_def mark_processed_def)

lemma advanced_trans:
  assumes "advanced I x y" "advanced J y z" "\<forall>j\<in>J. j < ox_nextId x"
  shows "advanced (I \<union> J) x z"
proof -
  obtain as bs where as: "ox_rows y = map (\<lambda>r. if or_id r \<in> I then r\<lparr>or_processed := True\<rparr> else r) (ox_rows x) @ as"
    "list_all (\<lambda>r. \<not> or_processed r) as" "map or_id as = [ox_nextId x..<ox_nextId y]" "ox_nextId x \<le> ox_nextId y"
    and bs: "ox_rows z = map (\<lambda>r. if or_id r \<in> J then r\<lparr>or_processed := True\<rparr> else r) (ox_rows y) @ bs"
    "list_all (\<lambda>r. \<not> or_processed r) bs" "map or_id bs = [ox_nextId y..<ox_nextId z]" "ox_nextId y \<le> ox_nextId z"
    using assms(1,2) by (auto simp: advanced_def)
  have "or_id r \<notin> J" if "r \<in> set as" for r
  proof -
    have "or_id r \<in> set (map or_id as)" using that by simp
    then have "ox_nextId x \<le> or_id r" unfolding as(3) by simp
    with assms(3) show ?thesis by auto
  qed
  then have "map (\<lambda>r. if or_id r \<in> J then r\<lparr>or_processed := True\<rparr> else r) as = as" by (simp add: map_idI)
  with as bs have "ox_rows z = map (\<lambda>r. if or_id r \<in> I \<union> J then r\<lparr>or_processed := True\<rparr> else r) (ox_rows x) @ as @ bs" by auto
  moreover have "[ox_nextId x..<ox_nextId z] = [ox_nextId x..<ox_nextId y] @ [ox_nextId y..<ox_nextId z]"
    using as(4) bs(4) by (metis le_add_diff_inverse upt_add_eq_append)
  ultimately show ?thesis using as bs by (auto simp: advanced_def)
qed

lemma advanced_frame [simp]:
  "advanced I x (y\<lparr>ox_store := s\<rparr>) = advanced I x y" "advanced I (x\<lparr>ox_store := s\<rparr>) y = advanced I x y"
  "advanced I (x\<lparr>ox_breaker := b\<rparr>) y = advanced I x y" "advanced I (x\<lparr>ox_limiter := l\<rparr>) y = advanced I x y"
  "advanced I (x\<lparr>ox_requests := q\<rparr>) y = advanced I x y"
  by (simp_all add: advanced_def)

lemma insert_row_advanced: "advanced I x y \<Longrightarrow> advanced I x (insert_row row p t y)"
  by (auto simp: advanced_def insert_row_def)

lemma settle_advanced:
  "settle_row cfg e row p url n a plan x = (None, x') \<Longrightarrow> advanced {or_id row} x x'"
  by (auto simp: settle_row_def Let_def mark_processed_advanced insert_row_advanced split: if_splits option.splits)

lemma deliver_advanced:
  assumes "resolveEndpoint cfg row = Inr (Some (url, secret))" "deliverOutboxRow cfg bo lmt e row x = (None, x')"
  shows "advanced {or_id row} x x'"
proof (cases "malformed cfg row url")
  case True
  then have "deliverOutboxRow cfg bo lmt e row x =
      (let (a, s1) = new_delivery (row_delivery row url (oc_stringify cfg (row_payload cfg row)) D_permanent_failure 0 (re_now e)) (ox_store x);
           x1 = x\<lparr>ox_store := enqueuePermanentFailureToDlq a
              ''Webhook payload or endpoint is structurally invalid and non-retryable'' Poison (re_dlqId e) (re_now e) s1\<rparr>
       in if \<not> re_update_ok e then (Some db_error, x1) else (None, mark_processed (or_id row) x1))"
    using assms(1) unfolding deliverOutboxRow_def Let_def malformed_def [symmetric] by simp
  then obtain s where "x' = mark_processed (or_id row) (x\<lparr>ox_store := s\<rparr>)"
    using assms(2) by (auto simp: Let_def split: if_splits prod.splits)
  then show ?thesis by (simp add: advanced_def mark_processed_def)
next
  case False
  show ?thesis
  proof (rule row_settled [OF assms(1) False assms(2)])
    fix plan b l s1 s2
    assume "settle_row cfg e row (row_payload cfg row) url (row_attempt cfg row) (length (ws_objects (ox_store x))) plan
       (if plan_attempt plan = None then x\<lparr>ox_store := s1, ox_breaker := b, ox_limiter := l\<rparr>
        else x\<lparr>ox_store := s2, ox_breaker := b, ox_limiter := l,
               ox_requests := ox_requests x @ [(url, oc_stringify cfg (row_payload cfg row))]\<rparr>) = (None, x')"
    from settle_advanced [OF this] show ?thesis by (simp split: if_splits)
  qed
qed

lemma resolved: "nullish (oc_endpointUrl cfg) [] \<noteq> [] \<Longrightarrow> nullish (oc_secret cfg) [] \<noteq> [] \<Longrightarrow> resolveEndpoint cfg row \<noteq> Inr None"
  by (auto simp: resolveEndpoint_def Let_def split: option.splits)

lemma process_rows_advanced:
  assumes "nullish (oc_endpointUrl cfg) [] \<noteq> []" "nullish (oc_secret cfg) [] \<noteq> []"
  shows "process_rows cfg bo lmt envs k rows x = (None, x') \<Longrightarrow> \<forall>r\<in>set rows. or_id r < ox_nextId x \<Longrightarrow> advanced (or_id ` set rows) x x'"
proof (induction rows arbitrary: k x)
  case Nil
  then show ?case by (simp add: advanced_def)
next
  case (Cons row rows)
  then obtain x1 where x1: "deliverOutboxRow cfg bo lmt (envs k) row x = (None, x1)"
    "process_rows cfg bo lmt envs (Suc k) rows x1 = (None, x')"
    by (auto split: prod.splits option.splits)
  obtain url secret where "resolveEndpoint cfg row = Inr (Some (url, secret))"
    using x1(1) resolved [OF assms, of row]
    by (cases "resolveEndpoint cfg row") (auto simp: deliverOutboxRow_def)
  then have a: "advanced {or_id row} x x1" using x1(1) by (rule deliver_advanced)
  then have "ox_nextId x \<le> ox_nextId x1" by (simp add: advanced_def)
  with Cons.prems(2) have "advanced (or_id ` set rows) x1 x'" by (intro Cons.IH [OF x1(2)]) auto
  from advanced_trans [OF a this] show ?case using Cons.prems(2) by simp
qed

text \<open>Identifiers are unique and below the next one.\<close>

definition outbox_inv :: "('b, 'l) outbox \<Rightarrow> bool" where
  "outbox_inv x \<longleftrightarrow> distinct (map or_id (ox_rows x)) \<and> (\<forall>r\<in>set (ox_rows x). or_id r < ox_nextId x)"

lemma advanced_inv:
  assumes "advanced I x x'" "outbox_inv x"
  shows "outbox_inv x'"
proof -
  let ?f = "\<lambda>r. if or_id r \<in> I then r\<lparr>or_processed := True\<rparr> else r"
  obtain as where as: "ox_rows x' = map ?f (ox_rows x) @ as" "map or_id as = [ox_nextId x..<ox_nextId x']" "ox_nextId x \<le> ox_nextId x'"
    using assms(1) by (auto simp: advanced_def)
  have m: "map or_id (map ?f (ox_rows x)) = map or_id (ox_rows x)" by simp
  have ids: "or_id ` set as = {ox_nextId x..<ox_nextId x'}" using arg_cong [OF as(2), of set] by simp
  have "set (map or_id (ox_rows x)) \<inter> set (map or_id as) = {}" using assms(2) ids by (fastforce simp: outbox_inv_def)
  moreover have "distinct (map or_id as)" by (simp add: as(2))
  ultimately have "distinct (map or_id (ox_rows x'))"
    using assms(2) m unfolding as(1) map_append distinct_append outbox_inv_def by metis
  moreover have "or_id r < ox_nextId x'" if "r \<in> set (ox_rows x')" for r
    using that assms(2) as(3) ids unfolding as(1) by (fastforce simp: outbox_inv_def)
  ultimately show ?thesis by (simp add: outbox_inv_def)
qed

lemma settle_nextId: "ox_nextId x \<le> ox_nextId (snd (settle_row cfg e row p url n a plan x))"
  by (simp add: settle_row_def Let_def split: option.splits)

lemma deliver_nextId: "ox_nextId x \<le> ox_nextId (snd (deliverOutboxRow cfg bo lmt e row x))"
proof -
  have s: "ox_nextId x \<le> ox_nextId (snd (settle_row cfg e row p url n a plan y))" if "ox_nextId y = ox_nextId x" for p url n a plan y
    using settle_nextId [of y] that by simp
  show ?thesis unfolding deliverOutboxRow_def Let_def
    by (simp add: s split_beta split: sum.splits option.splits)
qed

lemma process_rows_nextId: "ox_nextId x \<le> ox_nextId (snd (process_rows cfg bo lmt envs k rows x))"
proof (induction rows arbitrary: k x)
  case (Cons row rows)
  have "ox_nextId x \<le> ox_nextId (snd (deliverOutboxRow cfg bo lmt (envs k) row x))" by (rule deliver_nextId)
  with Cons.IH [of "snd (deliverOutboxRow cfg bo lmt (envs k) row x)" "Suc k"] show ?case
    by (auto split: prod.splits option.splits)
qed simp

lemma due_rows_subset: "set (due_rows cfg now locked rows) \<subseteq> set rows"
  by (auto simp: due_rows_def dest: in_set_takeD)

text \<open>(C14) A poll is atomic. Whatever statement fails and whatever a row throws, the table either is as it was, and then
  the backoff is kept or its failure count is raised by one, or every row of the batch is marked as processed, no other row is changed,
  only unprocessed rows with new identifiers are added and the backoff is reset. Identifiers stay unique.\<close>

theorem batch_atomic:
  assumes "outbox_inv x" and "processBatch cfg bo lmt p (bb, x) = (err, bb', x')"
  shows "outbox_inv x' \<and>
    (ox_rows x' = ox_rows x \<and>
       (bb' = bb \<or> bb_consecutiveBatchFailures bb' = Suc (bb_consecutiveBatchFailures bb)) \<or>
     bb' = resetBatchBackoff \<and> err = None \<and>
       (\<exists>added. ox_rows x' = map (\<lambda>r. if or_id r \<in> or_id ` set (due_rows cfg (pe_now p) (pe_locked p) (ox_rows x))
                                     then r\<lparr>or_processed := True\<rparr> else r) (ox_rows x) @ added \<and>
          list_all (\<lambda>r. \<not> or_processed r) added \<and> map or_id added = [ox_nextId x..<ox_nextId x']))"
proof -
  let ?due = "due_rows cfg (pe_now p) (pe_locked p) (ox_rows x)"
  obtain thrown x1 where pr: "process_rows cfg bo lmt (pe_rows p) 0 ?due x = (thrown, x1)" by fastforce
  have n: "ox_nextId x \<le> ox_nextId x1"
    using process_rows_nextId [of x cfg bo lmt "pe_rows p" 0 ?due] pr by simp
  have rb: "outbox_inv (rollback x x1)" using n assms(1) by (fastforce simp: outbox_inv_def rollback_def)
  have rec: "bb_consecutiveBatchFailures (recordBatchFailure cfg r bb) = Suc (bb_consecutiveBatchFailures bb)" for r
    by (simp add: recordBatchFailure_def Let_def)
  show ?thesis
  proof (cases "nullish (oc_endpointUrl cfg) [] \<noteq> [] \<and> nullish (oc_secret cfg) [] \<noteq> [] \<and> thrown = None \<and> pe_commit_ok p \<and>
      pe_connect_ok p \<and> pe_select_ok p \<and> \<not> (0 < bb_currentBatchBackoffMs bb \<and> pe_stopped p)")
    case True
    then have x': "err = None" "bb' = resetBatchBackoff" "x' = x1" using assms(2) pr by (auto simp: processBatch_def)
    have "\<forall>r\<in>set ?due. or_id r < ox_nextId x"
      using assms(1) due_rows_subset [of cfg "pe_now p" "pe_locked p" "ox_rows x"] by (auto simp: outbox_inv_def)
    then have "advanced (or_id ` set ?due) x x1" using True pr by (auto intro!: process_rows_advanced)
    then show ?thesis using x' advanced_inv assms(1) unfolding advanced_def by blast
  next
    case False
    then have "ox_rows x' = ox_rows x \<and> outbox_inv x' \<and> (bb' = bb \<or> (\<exists>r. bb' = recordBatchFailure cfg r bb))"
      using assms pr rb by (auto simp: processBatch_def rollback_def split: if_splits option.splits)
    then show ?thesis using rec by blast
  qed
qed

definition demo_poll :: "(nat \<Rightarrow> row_env) \<Rightarrow> millis \<Rightarrow> poll_env" where
  "demo_poll envs now = \<lparr>pe_now = now, pe_rnd = 1 / 2, pe_stopped = False, pe_locked = [], pe_connect_ok = True, pe_select_ok = True,
     pe_commit_ok = True, pe_rows = envs\<rparr>"

definition demo_batch :: "string option \<times> batch_backoff \<times> (InMemoryWebhookCircuitBreakerStore, TokenBucketRateLimiter) outbox" where
  "demo_batch = processBatch demo_outbox_config (memory_breaker id) (Some (tb_checkLimit id, demo_config))
     (demo_poll (\<lambda>k. demo_env (demo_reply 200)) 5000) (resetBatchBackoff, demo_outbox demo_event)"

theorem batch_atomic_witness:
  "outbox_inv (snd (snd demo_batch)) \<and> map or_processed (ox_rows (snd (snd demo_batch))) = [True]"
proof -
  have i: "outbox_inv (demo_outbox demo_event)" by (simp add: outbox_inv_def demo_outbox_def demo_row_def)
  have "demo_batch = (fst demo_batch, fst (snd demo_batch), snd (snd demo_batch))" by simp
  note b = this [unfolded demo_batch_def]
  have "map or_processed (ox_rows (snd (snd demo_batch))) = [True]" by code_simp
  then show ?thesis using batch_atomic [OF i b] by (simp add: demo_batch_def)
qed

text \<open>A row that is in a batch is in every later batch while the table does not change.\<close>

lemma sort_key_append:
  assumes "\<forall>x\<in>set xs. \<forall>y\<in>set ys. f x < f y"
  shows "sort_key f (xs @ ys) = sort_key f xs @ sort_key f ys"
proof (rule properties_for_sort_key)
  show "sorted (map f (sort_key f xs @ sort_key f ys))" using assms by (fastforce simp: sorted_append)
next
  fix k
  show "filter (\<lambda>x. f k = f x) (sort_key f xs @ sort_key f ys) = filter (\<lambda>x. f k = f x) (xs @ ys)"
    by (simp add: sort_key_stable eq_commute [of "f k"])
qed simp

lemma sort_key_filter_split:
  assumes "\<And>x y. x \<in> set xs \<Longrightarrow> y \<in> set xs \<Longrightarrow> P x \<Longrightarrow> Q y \<Longrightarrow> \<not> P y \<Longrightarrow> f x < f y" "\<And>x. P x \<Longrightarrow> Q x"
  shows "sort_key f (filter Q xs) = sort_key f (filter P xs) @ sort_key f (filter (\<lambda>x. Q x \<and> \<not> P x) xs)"
proof -
  have "sort_key f (filter P xs @ filter (\<lambda>x. Q x \<and> \<not> P x) xs) = sort_key f (filter P xs) @ sort_key f (filter (\<lambda>x. Q x \<and> \<not> P x) xs)"
    using assms(1) by (intro sort_key_append) auto
  moreover have "sort_key f (filter P xs @ filter (\<lambda>x. Q x \<and> \<not> P x) xs) = sort_key f (filter Q xs)"
  proof (rule properties_for_sort_key)
    show "mset (sort_key f (filter Q xs)) = mset (filter P xs @ filter (\<lambda>x. Q x \<and> \<not> P x) xs)"
      using assms(2) by (induction xs) auto
  next
    fix k assume "k \<in> set (sort_key f (filter Q xs))"
    then have k: "k \<in> set xs" "Q k" by auto
    have z: "P z = P k" if "z \<in> set xs" "Q z" "f k = f z" for z
      using assms(1) [of z k] assms(1) [of k z] that k by auto
    have "filter (\<lambda>z. Q z \<and> f k = f z) xs =
        (if P k then filter (\<lambda>z. P z \<and> f k = f z) xs else filter (\<lambda>z. Q z \<and> \<not> P z \<and> f k = f z) xs)"
      using z assms(2) by (auto intro!: filter_cong)
    moreover have "(if P k then filter (\<lambda>z. Q z \<and> \<not> P z \<and> f k = f z) xs else filter (\<lambda>z. P z \<and> f k = f z) xs) = []"
      using z assms(2) by (auto simp: filter_empty_conv)
    ultimately show "filter (\<lambda>z. f k = f z) (sort_key f (filter Q xs)) = filter (\<lambda>z. f k = f z) (filter P xs @ filter (\<lambda>z. Q z \<and> \<not> P z) xs)"
      by (simp add: sort_key_stable eq_commute [of "f k"] split: if_splits)
  qed simp
  ultimately show ?thesis by simp
qed

lemma due_rows_later:
  assumes "row \<in> set (due_rows cfg t locked rows)" "t \<le> t'"
  shows "row \<in> set (due_rows cfg t' locked rows)"
proof -
  let ?f = "\<lambda>r. (or_created_at r, or_id r)" and ?P = "\<lambda>t r. \<not> or_processed r \<and> or_created_at r \<le> t \<and> or_id r \<notin> set locked"
  have "sort_key ?f (filter (?P t') rows) = sort_key ?f (filter (?P t) rows) @ sort_key ?f (filter (\<lambda>r. ?P t' r \<and> \<not> ?P t r) rows)"
    using assms(2) by (intro sort_key_filter_split) auto
  with assms(1) show ?thesis by (auto simp: due_rows_def)
qed

lemma unsafe_throws:
  "row \<in> set rows \<Longrightarrow> resolveEndpoint cfg row = Inl err \<Longrightarrow> fst (process_rows cfg bo lmt envs k rows x) \<noteq> None"
proof (induction rows arbitrary: k x)
  case (Cons r rows)
  show ?case
  proof (cases "r = row")
    case True
    then show ?thesis using Cons.prems by (simp add: deliverOutboxRow_def)
  next
    case False
    with Cons show ?thesis by (auto split: prod.splits option.splits)
  qed
qed simp

definition polls ::
  "outbox_config \<Rightarrow> 'b breaker_ops \<Rightarrow> ('l limiter_check \<times> RateLimitConfig) option \<Rightarrow> poll_env list \<Rightarrow> batch_backoff \<times> ('b, 'l) outbox \<Rightarrow>
   batch_backoff \<times> ('b, 'l) outbox" where
  "polls cfg bo lmt ps st = foldl (\<lambda>st p. snd (processBatch cfg bo lmt p st)) st ps"

lemma unsafe_poll:
  assumes "row \<in> set (due_rows cfg (pe_now p) (pe_locked p) (ox_rows x))" "resolveEndpoint cfg row = Inl err"
  shows "ox_rows (snd (snd (processBatch cfg bo lmt p (bb, x)))) = ox_rows x"
proof -
  obtain thrown x1 where "process_rows cfg bo lmt (pe_rows p) 0 (due_rows cfg (pe_now p) (pe_locked p) (ox_rows x)) x = (thrown, x1)" by fastforce
  moreover from unsafe_throws [OF assms, of bo lmt "pe_rows p" 0 x] this have "thrown \<noteq> None" by simp
  ultimately show ?thesis by (auto simp: processBatch_def rollback_def)
qed

text \<open>(C35) One row can block the outbox for good. The payload of a row may name its own endpoint, and an endpoint that is refused makes
  the whole poll fail: once such a row is in a batch, no number of later polls changes the table, so neither this row nor any other
  row of the batch is ever marked as processed.\<close>

theorem unsafe_row_blocks_outbox:
  assumes "row \<in> set (due_rows cfg t [] (ox_rows x))" and "resolveEndpoint cfg row = Inl err"
    and "\<forall>p\<in>set ps. t \<le> pe_now p \<and> pe_locked p = []"
  shows "ox_rows (snd (polls cfg bo lmt ps (bb, x))) = ox_rows x"
  using assms(1,3)
proof (induction ps arbitrary: bb x)
  case (Cons p ps)
  obtain bb1 x1 where s: "snd (processBatch cfg bo lmt p (bb, x)) = (bb1, x1)" by fastforce
  have "row \<in> set (due_rows cfg (pe_now p) (pe_locked p) (ox_rows x))" using Cons.prems due_rows_later by auto
  from unsafe_poll [OF this assms(2), of bo lmt bb] s have r: "ox_rows x1 = ox_rows x" by simp
  with Cons.IH [of x1 bb1] Cons.prems s show ?case by (simp add: polls_def)
qed (simp add: polls_def)

definition demo_blocked :: "(InMemoryWebhookCircuitBreakerStore, unit) outbox" where
  "demo_blocked = \<lparr>ox_rows = [demo_row demo_event, (demo_row (JObject [(''endpointUrl'', JString ''ftp://r'')]))\<lparr>or_id := 8\<rparr>], ox_nextId = 9,
     ox_store = new_store, ox_breaker = cb_empty, ox_limiter = (), ox_requests = []\<rparr>"

definition demo_blocked_polls :: "poll_env list" where
  "demo_blocked_polls = [demo_poll (\<lambda>k. demo_env (demo_reply 200)) 5000, demo_poll (\<lambda>k. demo_env (demo_reply 200)) 9000]"

text \<open>The receiver of the other row gets its event once per poll.\<close>

theorem unsafe_row_blocks_outbox_witness:
  "map or_processed (ox_rows (snd (polls demo_outbox_config (memory_breaker id) None demo_blocked_polls (resetBatchBackoff, demo_blocked)))) =
     [False, False] \<and>
   ox_requests (snd (polls demo_outbox_config (memory_breaker id) None demo_blocked_polls (resetBatchBackoff, demo_blocked))) =
     [(''https://r'', ''{}''), (''https://r'', ''{}'')]"
proof -
  let ?row = "(demo_row (JObject [(''endpointUrl'', JString ''ftp://r'')]))\<lparr>or_id := 8\<rparr>"
  have d: "?row \<in> set (due_rows demo_outbox_config 5000 [] (ox_rows demo_blocked))"
    by (simp add: due_rows_def demo_blocked_def demo_outbox_config_def demo_row_def)
  have u: "resolveEndpoint demo_outbox_config ?row = Inl ''Invalid URL''" by code_simp
  have t: "\<forall>p\<in>set demo_blocked_polls. (5000 :: int) \<le> pe_now p \<and> pe_locked p = []" by (simp add: demo_blocked_polls_def demo_poll_def)
  have "ox_requests (snd (polls demo_outbox_config (memory_breaker id) None demo_blocked_polls (resetBatchBackoff, demo_blocked))) =
     [(''https://r'', ''{}''), (''https://r'', ''{}'')]" by code_simp
  then show ?thesis
    using unsafe_row_blocks_outbox [OF d u t, of "memory_breaker id" None resetBatchBackoff] by (simp add: demo_blocked_def demo_row_def)
qed

end
