(* ===== verification/Stream_Store.thy ===== *)
theory Stream_Store
  imports Stream_Status "HOL-Library.Product_Lexorder" "HOL-Library.List_Lexorder" "HOL-Library.Char_ord"
begin

text \<open>
  The table of streams, \<open>src/db/repositories/streamRepository.ts\<close> with the limits of \<open>src/db/queries/streams.ts\<close> and the tenant
  scope of \<open>src/db/repositories/tenantScopedRepository.ts\<close>.

  The table is a list of rows. A row is a record of the API together with the columns that hold the hashed addresses; an address column
  is encrypted or, for rows that were written before, plain. Reads go to a pool, the primary or a replica, whose contents are an argument
  (\<open>None\<close> when the query fails). The keyed hash is an argument, and so is \<open>coll\<close>, which maps a text to its rank in the collation of the
  database. \<open>updateStream\<close> is split at its \<open>await\<close>: \<open>update_read\<close> validates against the row it read, \<open>update_write\<close> is the guarded \<open>UPDATE\<close>.

  The lemmas: under every interleaving of inserts and updates the status of a stream only changes along permitted transitions; following
  the cursor gives every row that existed at the start exactly once; and a tenant only sees its own streams.
\<close>

section \<open>Rows\<close>

record StreamRecord =
  sr_id :: string
  sr_sender_address :: string
  sr_recipient_address :: string
  sr_amount :: string
  sr_streamed_amount :: string
  sr_remaining_amount :: string
  sr_rate_per_second :: string
  sr_start_time :: int
  sr_end_time :: int
  sr_status :: ApiStreamStatus
  sr_contract_id :: string
  sr_transaction_hash :: string
  sr_event_index :: nat
  sr_created_at :: millis
  sr_updated_at :: millis

record stream_row = StreamRecord +
  row_sender_plain :: bool
  row_recipient_plain :: bool
  row_sender_hash :: string
  row_recipient_hash :: string

definition rowToRecord :: "stream_row \<Rightarrow> StreamRecord" where
  "rowToRecord row = StreamRecord.truncate row"

record CreateStreamInput =
  ci_id :: string
  ci_sender_address :: string
  ci_recipient_address :: string
  ci_amount :: string
  ci_streamed_amount :: string
  ci_remaining_amount :: string
  ci_rate_per_second :: string
  ci_start_time :: int
  ci_end_time :: int
  ci_contract_id :: string
  ci_transaction_hash :: string
  ci_event_index :: nat

record UpdateStreamInput =
  ui_status :: "ApiStreamStatus option"
  ui_streamed_amount :: "string option"
  ui_remaining_amount :: "string option"
  ui_end_time :: "int option"

record PgcryptoKeySet =
  pk_current :: string
  pk_previous :: "string option"

datatype repo_error =
  Key_missing
| Db_error
| Duplicate_key
| Idempotency_conflict
| Not_found string
| Invalid_transition ApiStreamStatus ApiStreamStatus
| Not_found_after_update string
| StatusConflictError string ApiStreamStatus
| UnboundedStreamQueryError

text \<open>An absent and an empty key are both missing; an empty previous key counts as absent.\<close>

definition resolvePgcryptoKeys :: "string option \<Rightarrow> string option \<Rightarrow> repo_error + PgcryptoKeySet" where
  "resolvePgcryptoKeys key previous =
     (if nullish key [] = [] then Inl Key_missing
      else Inr \<lparr>pk_current = the key, pk_previous = (if nullish previous [] = [] then None else previous)\<rparr>)"

definition isValidStatusTransition :: "ApiStreamStatus \<Rightarrow> ApiStreamStatus \<Rightarrow> bool" where
  "isValidStatusTransition frm to \<longleftrightarrow> to \<in> set (VALID_API_TRANSITIONS frm)"

section \<open>Reads by key\<close>

type_synonym pool = "stream_row list option"

definition getById :: "repo_error + PgcryptoKeySet \<Rightarrow> pool \<Rightarrow> string \<Rightarrow> repo_error + StreamRecord option" where
  "getById keySet p i =
     (case keySet of
        Inl e \<Rightarrow> Inl e
      | Inr keys \<Rightarrow>
          (case p of None \<Rightarrow> Inl Db_error | Some rows \<Rightarrow> Inr (map_option rowToRecord (find (\<lambda>r. sr_id r = i) rows))))"

definition existsById :: "pool \<Rightarrow> string \<Rightarrow> repo_error + millis option" where
  "existsById p i = (case p of None \<Rightarrow> Inl Db_error | Some rows \<Rightarrow> Inr (map_option sr_updated_at (find (\<lambda>r. sr_id r = i) rows)))"

definition getByEvent :: "repo_error + PgcryptoKeySet \<Rightarrow> pool \<Rightarrow> string \<Rightarrow> nat \<Rightarrow> repo_error + StreamRecord option" where
  "getByEvent keySet p h k =
     (case keySet of
        Inl e \<Rightarrow> Inl e
      | Inr keys \<Rightarrow>
          (case p of None \<Rightarrow> Inl Db_error
           | Some rows \<Rightarrow> Inr (map_option rowToRecord (find (\<lambda>r. sr_transaction_hash r = h \<and> sr_event_index r = k) rows))))"

section \<open>Inserting\<close>

definition new_row :: "(string \<Rightarrow> string \<Rightarrow> string) \<Rightarrow> PgcryptoKeySet \<Rightarrow> CreateStreamInput \<Rightarrow> millis \<Rightarrow> stream_row" where
  "new_row hash keys input now =
     \<lparr>sr_id = ci_id input, sr_sender_address = ci_sender_address input, sr_recipient_address = ci_recipient_address input,
      sr_amount = ci_amount input, sr_streamed_amount = ci_streamed_amount input, sr_remaining_amount = ci_remaining_amount input,
      sr_rate_per_second = ci_rate_per_second input, sr_start_time = ci_start_time input, sr_end_time = ci_end_time input,
      sr_status = Api_active, sr_contract_id = ci_contract_id input, sr_transaction_hash = ci_transaction_hash input,
      sr_event_index = ci_event_index input, sr_created_at = now, sr_updated_at = now,
      row_sender_plain = False, row_recipient_plain = False,
      row_sender_hash = hash (pk_current keys) (ci_sender_address input),
      row_recipient_hash = hash (pk_current keys) (ci_recipient_address input)\<rparr>"

text \<open>\<open>INSERT \<dots> ON CONFLICT (transaction_hash, event_index) DO NOTHING\<close>: the row that was inserted, or \<open>None\<close>. A row
  that only has the same primary key is an error.\<close>

definition insert_stream :: "stream_row \<Rightarrow> stream_row list \<Rightarrow> repo_error + stream_row option \<times> stream_row list" where
  "insert_stream row rows =
     (if \<exists>r\<in>set rows. sr_transaction_hash r = sr_transaction_hash row \<and> sr_event_index r = sr_event_index row then Inr (None, rows)
      else if \<exists>r\<in>set rows. sr_id r = sr_id row then Inl Duplicate_key
      else Inr (Some row, rows @ [row]))"

text \<open>\<open>p1\<close> and \<open>p2\<close> are what the two reads after a conflict see.\<close>

definition upsertStream ::
  "(string \<Rightarrow> string \<Rightarrow> string) \<Rightarrow> repo_error + PgcryptoKeySet \<Rightarrow> bool \<Rightarrow> pool \<Rightarrow> pool \<Rightarrow> millis \<Rightarrow> CreateStreamInput \<Rightarrow> stream_row list \<Rightarrow>
   (repo_error + bool \<times> StreamRecord) \<times> stream_row list" where
  "upsertStream hash keySet insert_ok p1 p2 now input rows =
     (case keySet of
        Inl e \<Rightarrow> (Inl e, rows)
      | Inr keys \<Rightarrow>
          if \<not> insert_ok then (Inl Db_error, rows)
          else (case insert_stream (new_row hash keys input now) rows of
                  Inl e \<Rightarrow> (Inl e, rows)
                | Inr (Some row, rows') \<Rightarrow> (Inr (True, rowToRecord row), rows')
                | Inr (None, _) \<Rightarrow>
                    (case getById keySet p1 (ci_id input) of
                       Inl e \<Rightarrow> (Inl e, rows)
                     | Inr (Some existing) \<Rightarrow> (Inr (False, existing), rows)
                     | Inr None \<Rightarrow>
                         (case getByEvent keySet p2 (ci_transaction_hash input) (ci_event_index input) of
                            Inl e \<Rightarrow> (Inl e, rows)
                          | Inr None \<Rightarrow> (Inl Idempotency_conflict, rows)
                          | Inr (Some byEvent) \<Rightarrow> (Inr (False, byEvent), rows)))))"

section \<open>Updating\<close>

text \<open>The read from the primary and the validation; the result is the status that the write is conditional on.\<close>

definition update_read :: "repo_error + PgcryptoKeySet \<Rightarrow> pool \<Rightarrow> string \<Rightarrow> UpdateStreamInput \<Rightarrow> repo_error + ApiStreamStatus" where
  "update_read keySet primary i input =
     (case getById keySet primary i of
        Inl e \<Rightarrow> Inl e
      | Inr None \<Rightarrow> Inl (Not_found i)
      | Inr (Some current) \<Rightarrow>
          (case ui_status input of
             Some s \<Rightarrow> if isValidStatusTransition (sr_status current) s then Inr (sr_status current)
                       else Inl (Invalid_transition (sr_status current) s)
           | None \<Rightarrow> Inr (sr_status current)))"

definition apply_update :: "UpdateStreamInput \<Rightarrow> millis \<Rightarrow> stream_row \<Rightarrow> stream_row" where
  "apply_update input now r =
     r\<lparr>sr_updated_at := now, sr_status := nullish (ui_status input) (sr_status r),
       sr_streamed_amount := nullish (ui_streamed_amount input) (sr_streamed_amount r),
       sr_remaining_amount := nullish (ui_remaining_amount input) (sr_remaining_amount r),
       sr_end_time := nullish (ui_end_time input) (sr_end_time r)\<rparr>"

definition guarded_update :: "string \<Rightarrow> ApiStreamStatus \<Rightarrow> UpdateStreamInput \<Rightarrow> millis \<Rightarrow> stream_row list \<Rightarrow> stream_row list" where
  "guarded_update i expected input now rows =
     map (\<lambda>r. if sr_id r = i \<and> sr_status r = expected then apply_update input now r else r) rows"

definition update_write ::
  "repo_error + PgcryptoKeySet \<Rightarrow> bool \<Rightarrow> bool \<Rightarrow> millis \<Rightarrow> string \<Rightarrow> UpdateStreamInput \<Rightarrow> ApiStreamStatus \<Rightarrow> stream_row list \<Rightarrow>
   (repo_error + StreamRecord) \<times> stream_row list" where
  "update_write keySet update_ok exists_ok now i input expected rows =
     (case keySet of
        Inl e \<Rightarrow> (Inl e, rows)
      | Inr keys \<Rightarrow>
          if \<not> update_ok then (Inl Db_error, rows)
          else (case find (\<lambda>r. sr_id r = i \<and> sr_status r = expected) rows of
                  Some r \<Rightarrow> (Inr (rowToRecord (apply_update input now r)), guarded_update i expected input now rows)
                | None \<Rightarrow>
                    if \<not> exists_ok then (Inl Db_error, rows)
                    else if \<exists>r\<in>set rows. sr_id r = i then (Inl (StatusConflictError i expected), rows)
                    else (Inl (Not_found_after_update i), rows)))"

definition updateStream ::
  "repo_error + PgcryptoKeySet \<Rightarrow> bool \<Rightarrow> bool \<Rightarrow> bool \<Rightarrow> millis \<Rightarrow> string \<Rightarrow> UpdateStreamInput \<Rightarrow> stream_row list \<Rightarrow>
   (repo_error + StreamRecord) \<times> stream_row list" where
  "updateStream keySet read_ok update_ok exists_ok now i input rows =
     (case update_read keySet (if read_ok then Some rows else None) i input of
        Inl e \<Rightarrow> (Inl e, rows)
      | Inr expected \<Rightarrow> update_write keySet update_ok exists_ok now i input expected rows)"

section \<open>Interleaving\<close>

text \<open>The table and the updates that wait for their write. A call may end at any point, which removes nothing from the table.\<close>

record repo_state =
  rs_rows :: "stream_row list"
  rs_pending :: "(string \<times> UpdateStreamInput \<times> ApiStreamStatus) list"

inductive repo_step :: "(string \<Rightarrow> string \<Rightarrow> string) \<Rightarrow> repo_state \<Rightarrow> repo_state \<Rightarrow> bool" for hash where
  upsert: "repo_step hash st (st\<lparr>rs_rows := snd (upsertStream hash keySet ok p1 p2 now input (rs_rows st))\<rparr>)"
| begin_update: "update_read keySet (Some (rs_rows st)) i input = Inr expected \<Longrightarrow>
    repo_step hash st (st\<lparr>rs_pending := (i, input, expected) # rs_pending st\<rparr>)"
| end_update: "(i, input, expected) \<in> set (rs_pending st) \<Longrightarrow>
    repo_step hash st (st\<lparr>rs_rows := snd (update_write keySet ok ok' now i input expected (rs_rows st)),
      rs_pending := remove1 (i, input, expected) (rs_pending st)\<rparr>)"

inductive repo_reach :: "(string \<Rightarrow> string \<Rightarrow> string) \<Rightarrow> repo_state \<Rightarrow> repo_state \<Rightarrow> bool" for hash where
  start: "repo_reach hash st st"
| step: "repo_reach hash st st1 \<Longrightarrow> repo_step hash st1 st2 \<Longrightarrow> repo_reach hash st st2"

inductive_cases repo_step_cases: "repo_step hash st st'"

section \<open>Lists\<close>

record StreamFilter =
  sf_status :: "ApiStreamStatus option"
  sf_sender_address :: "string option"
  sf_recipient_address :: "string option"
  sf_contract_id :: "string option"
  sf_start_time_from :: "int option"
  sf_start_time_to :: "int option"
  sf_end_time_from :: "int option"
  sf_end_time_to :: "int option"

definition MIN_STREAM_LIMIT :: int where "MIN_STREAM_LIMIT = 1"
definition MAX_STREAM_LIMIT :: int where "MAX_STREAM_LIMIT = 100"

definition effectiveLimit :: "jsnum \<Rightarrow> repo_error + nat" where
  "effectiveLimit rawLimit =
     (case rawLimit of
        Finite x \<Rightarrow> if x \<le> 0 then Inl UnboundedStreamQueryError else Inr (nat (min (max \<lfloor>x\<rfloor> MIN_STREAM_LIMIT) MAX_STREAM_LIMIT))
      | _ \<Rightarrow> Inl UnboundedStreamQueryError)"

definition computeAddressHashes :: "(string \<Rightarrow> string \<Rightarrow> string) \<Rightarrow> string \<Rightarrow> PgcryptoKeySet \<Rightarrow> string \<times> string option" where
  "computeAddressHashes hash address keys = (hash (pk_current keys) address, map_option (\<lambda>k. hash k address) (pk_previous keys))"

text \<open>\<open>(column_hash = $cur [OR column_hash = $prev] OR column = $plain)\<close>: only a plain column equals an address.\<close>

definition buildEncryptedAddressFilter :: "string \<times> string option \<Rightarrow> string \<Rightarrow> string \<Rightarrow> bool \<Rightarrow> string \<Rightarrow> bool" where
  "buildEncryptedAddressFilter hashes address stored_hash stored_plain stored =
     (stored_hash = fst hashes \<or> Some stored_hash = snd hashes \<or> (stored_plain \<and> stored = address))"

definition text_condition :: "string option \<Rightarrow> (string \<Rightarrow> bool) \<Rightarrow> bool" where
  "text_condition v P = (nullish v [] = [] \<or> P (the v))"

definition row_matches :: "(string \<Rightarrow> string \<Rightarrow> string) \<Rightarrow> PgcryptoKeySet \<Rightarrow> StreamFilter \<Rightarrow> stream_row \<Rightarrow> bool" where
  "row_matches hash keys f r \<longleftrightarrow>
     (case sf_status f of None \<Rightarrow> True | Some s \<Rightarrow> sr_status r = s) \<and>
     text_condition (sf_sender_address f) (\<lambda>a. buildEncryptedAddressFilter (computeAddressHashes hash a keys) a
        (row_sender_hash r) (row_sender_plain r) (sr_sender_address r)) \<and>
     text_condition (sf_recipient_address f) (\<lambda>a. buildEncryptedAddressFilter (computeAddressHashes hash a keys) a
        (row_recipient_hash r) (row_recipient_plain r) (sr_recipient_address r)) \<and>
     text_condition (sf_contract_id f) (\<lambda>c. sr_contract_id r = c)"

definition times_match :: "StreamFilter \<Rightarrow> stream_row \<Rightarrow> bool" where
  "times_match f r \<longleftrightarrow>
     (case sf_start_time_from f of None \<Rightarrow> True | Some t \<Rightarrow> t \<le> sr_start_time r) \<and>
     (case sf_start_time_to f of None \<Rightarrow> True | Some t \<Rightarrow> sr_start_time r \<le> t) \<and>
     (case sf_end_time_from f of None \<Rightarrow> True | Some t \<Rightarrow> t \<le> sr_end_time r) \<and>
     (case sf_end_time_to f of None \<Rightarrow> True | Some t \<Rightarrow> sr_end_time r \<le> t)"

record cursor_page =
  cp_streams :: "StreamRecord list"
  cp_hasMore :: bool
  cp_total :: "nat option"

text \<open>The data query of a page: the matching rows after the cursor, in the order of their identifiers.\<close>

definition rows_after ::
  "(string \<Rightarrow> 'k::linorder) \<Rightarrow> (string \<Rightarrow> string \<Rightarrow> string) \<Rightarrow> PgcryptoKeySet \<Rightarrow> StreamFilter \<Rightarrow> string option \<Rightarrow> stream_row list \<Rightarrow> stream_row list" where
  "rows_after coll hash keys f afterId rows =
     sort_key (\<lambda>r. coll (sr_id r)) (filter (\<lambda>r. row_matches hash keys f r \<and> text_condition afterId (\<lambda>i. coll i < coll (sr_id r))) rows)"

definition findWithCursor ::
  "(string \<Rightarrow> 'k::linorder) \<Rightarrow> (string \<Rightarrow> string \<Rightarrow> string) \<Rightarrow> repo_error + PgcryptoKeySet \<Rightarrow> pool \<Rightarrow> StreamFilter \<Rightarrow> jsnum \<Rightarrow> string option \<Rightarrow> bool \<Rightarrow>
   repo_error + cursor_page" where
  "findWithCursor coll hash keySet p f limit afterId includeTotal =
     (case effectiveLimit limit of
        Inl e \<Rightarrow> Inl e
      | Inr n \<Rightarrow>
          (case keySet of
             Inl e \<Rightarrow> Inl e
           | Inr keys \<Rightarrow>
               (case p of
                  None \<Rightarrow> Inl Db_error
                | Some rows \<Rightarrow>
                    let data = take (n + 1) (rows_after coll hash keys f afterId rows); hasMore = n < length data
                    in Inr \<lparr>cp_streams = map rowToRecord (if hasMore then take n data else data), cp_hasMore = hasMore,
                            cp_total = (if includeTotal then Some (length (filter (row_matches hash keys f) rows)) else None)\<rparr>)))"

record PaginatedStreams =
  pg_streams :: "StreamRecord list"
  pg_total :: nat
  pg_limit :: nat
  pg_offset :: nat
  pg_hasMore :: bool

definition find_streams ::
  "(string \<Rightarrow> 'k::linorder) \<Rightarrow> (string \<Rightarrow> string \<Rightarrow> string) \<Rightarrow> repo_error + PgcryptoKeySet \<Rightarrow> pool \<Rightarrow> StreamFilter \<Rightarrow> jsnum \<Rightarrow> nat \<Rightarrow>
   repo_error + PaginatedStreams" where
  "find_streams coll hash keySet p f limit offset =
     (case effectiveLimit limit of
        Inl e \<Rightarrow> Inl e
      | Inr n \<Rightarrow>
          (case keySet of
             Inl e \<Rightarrow> Inl e
           | Inr keys \<Rightarrow>
               (case p of
                  None \<Rightarrow> Inl Db_error
                | Some rows \<Rightarrow>
                    let found = filter (\<lambda>r. row_matches hash keys f r \<and> times_match f r) rows;
                        streams = take n (drop offset (rev (sort_key (\<lambda>r. (sr_created_at r, coll (sr_id r))) found)))
                    in Inr \<lparr>pg_streams = map rowToRecord streams, pg_total = length found, pg_limit = n, pg_offset = offset,
                            pg_hasMore = offset + length streams < length found\<rparr>)))"

definition countByStatus :: "pool \<Rightarrow> repo_error + (ApiStreamStatus \<Rightarrow> nat)" where
  "countByStatus p = (case p of None \<Rightarrow> Inl Db_error | Some rows \<Rightarrow> Inr (\<lambda>s. length (filter (\<lambda>r. sr_status r = s) rows)))"

section \<open>Tenants\<close>

definition findForTenant ::
  "(string \<Rightarrow> 'k::linorder) \<Rightarrow> (string \<Rightarrow> string \<Rightarrow> string) \<Rightarrow> repo_error + PgcryptoKeySet \<Rightarrow> pool \<Rightarrow> string \<Rightarrow> StreamFilter \<Rightarrow> jsnum \<Rightarrow> nat \<Rightarrow>
   repo_error + PaginatedStreams" where
  "findForTenant coll hash keySet p tenantId f limit offset =
     find_streams coll hash keySet p (f\<lparr>sf_sender_address := Some tenantId\<rparr>) limit offset"

definition findForTenantWithCursor ::
  "(string \<Rightarrow> 'k::linorder) \<Rightarrow> (string \<Rightarrow> string \<Rightarrow> string) \<Rightarrow> repo_error + PgcryptoKeySet \<Rightarrow> pool \<Rightarrow> string \<Rightarrow> StreamFilter \<Rightarrow> jsnum \<Rightarrow>
   string option \<Rightarrow> bool \<Rightarrow> repo_error + cursor_page" where
  "findForTenantWithCursor coll hash keySet p tenantId f limit afterId includeTotal =
     findWithCursor coll hash keySet p (f\<lparr>sf_sender_address := Some tenantId\<rparr>) limit afterId includeTotal"

definition getForTenant :: "repo_error + PgcryptoKeySet \<Rightarrow> pool \<Rightarrow> string \<Rightarrow> string \<Rightarrow> repo_error + StreamRecord option" where
  "getForTenant keySet p tenantId i =
     (case getById keySet p i of
        Inl e \<Rightarrow> Inl e
      | Inr None \<Rightarrow> Inr None
      | Inr (Some r) \<Rightarrow> if sr_sender_address r \<noteq> tenantId then Inr None else Inr (Some r))"

definition existsForTenant :: "repo_error + PgcryptoKeySet \<Rightarrow> pool \<Rightarrow> string \<Rightarrow> string \<Rightarrow> repo_error + bool" where
  "existsForTenant keySet p tenantId i =
     (case getById keySet p i of
        Inl e \<Rightarrow> Inl e
      | Inr None \<Rightarrow> Inr False
      | Inr (Some r) \<Rightarrow> Inr (sr_sender_address r = tenantId))"

definition countForTenant ::
  "(string \<Rightarrow> 'k::linorder) \<Rightarrow> (string \<Rightarrow> string \<Rightarrow> string) \<Rightarrow> repo_error + PgcryptoKeySet \<Rightarrow> pool \<Rightarrow> string \<Rightarrow> StreamFilter \<Rightarrow> repo_error + nat" where
  "countForTenant coll hash keySet p tenantId f =
     (case find_streams coll hash keySet p (f\<lparr>sf_sender_address := Some tenantId\<rparr>) (Finite 1) 0 of
        Inl e \<Rightarrow> Inl e | Inr page \<Rightarrow> Inr (pg_total page))"

section \<open>Status under concurrency\<close>

definition table_wf :: "stream_row list \<Rightarrow> bool" where
  "table_wf rows \<longleftrightarrow> distinct (map sr_id rows) \<and> distinct (map (\<lambda>r. (sr_transaction_hash r, sr_event_index r)) rows)"

definition pending_ok :: "repo_state \<Rightarrow> bool" where
  "pending_ok st \<longleftrightarrow> (\<forall>(i, input, s)\<in>set (rs_pending st). \<forall>t. ui_status input = Some t \<longrightarrow> isValidStatusTransition s t)"

text \<open>One table follows another: rows keep their place and their keys, and a status changes by a permitted transition.\<close>

definition row_follows :: "stream_row \<Rightarrow> stream_row \<Rightarrow> bool" where
  "row_follows r r' \<longleftrightarrow> sr_id r' = sr_id r \<and> sr_transaction_hash r' = sr_transaction_hash r \<and> sr_event_index r' = sr_event_index r \<and>
     api_step\<^sup>*\<^sup>* (sr_status r) (sr_status r')"

definition table_follows :: "stream_row list \<Rightarrow> stream_row list \<Rightarrow> bool" where
  "table_follows rows rows' \<longleftrightarrow> length rows \<le> length rows' \<and> (\<forall>k<length rows. row_follows (rows ! k) (rows' ! k)) \<and>
     (table_wf rows \<longrightarrow> table_wf rows')"

lemma row_follows_refl [simp]: "row_follows r r"
  by (simp add: row_follows_def)

lemma row_follows_trans: "row_follows a b \<Longrightarrow> row_follows b c \<Longrightarrow> row_follows a c"
  unfolding row_follows_def by (simp, meson rtranclp_trans)

lemma table_follows_refl [simp]: "table_follows rows rows"
  by (simp add: table_follows_def)

lemma table_follows_trans: "table_follows a b \<Longrightarrow> table_follows b c \<Longrightarrow> table_follows a c"
  unfolding table_follows_def using row_follows_trans by (meson le_trans less_le_trans)

lemma upsert_follows: "table_follows rows (snd (upsertStream hash keySet ok p1 p2 now input rows))"
proof -
  have "table_follows rows rows'" if "insert_stream row rows = Inr (r, rows')" for row r rows'
    using that by (auto simp: insert_stream_def table_follows_def table_wf_def nth_append split: if_splits) metis+
  then show ?thesis
    by (auto simp: upsertStream_def split: sum.splits option.splits prod.splits)
qed

lemma guarded_update_follows:
  assumes "\<And>t. ui_status input = Some t \<Longrightarrow> isValidStatusTransition s t"
  shows "table_follows rows (guarded_update i s input now rows)"
proof -
  have keys: "sr_id (apply_update input now r) = sr_id r" "sr_transaction_hash (apply_update input now r) = sr_transaction_hash r"
    "sr_event_index (apply_update input now r) = sr_event_index r" for r
    by (simp_all add: apply_update_def)
  have "api_step s t" if "ui_status input = Some t" for t
    using assms [OF that] by (simp add: api_step_simps isValidStatusTransition_def isValidApiTransition_def)
  then have "row_follows r (apply_update input now r)" if "sr_status r = s" for r
    using that keys by (cases "ui_status input") (simp_all add: row_follows_def, simp_all add: apply_update_def r_into_rtranclp)
  then have "\<forall>k<length rows. row_follows (rows ! k) (guarded_update i s input now rows ! k)" by (simp add: guarded_update_def)
  moreover have "map sr_id (guarded_update i s input now rows) = map sr_id rows"
    "map (\<lambda>r. (sr_transaction_hash r, sr_event_index r)) (guarded_update i s input now rows) =
     map (\<lambda>r. (sr_transaction_hash r, sr_event_index r)) rows"
    by (simp_all add: guarded_update_def keys)
  ultimately show ?thesis by (simp add: table_follows_def table_wf_def) (simp add: guarded_update_def)
qed

lemma repo_step_follows:
  assumes "repo_step hash st st'" "pending_ok st"
  shows "pending_ok st' \<and> table_follows (rs_rows st) (rs_rows st')"
  using assms
proof (cases rule: repo_step.cases)
  case (upsert keySet ok p1 p2 now input)
  then show ?thesis using assms(2) upsert_follows by (simp add: pending_ok_def)
next
  case (begin_update keySet i input expected)
  then show ?thesis using assms(2)
    by (auto simp: pending_ok_def update_read_def split: sum.splits option.splits if_splits)
next
  case (end_update i input expected keySet ok ok' now)
  from end_update(2) assms(2) have "\<And>t. ui_status input = Some t \<Longrightarrow> isValidStatusTransition expected t"
    by (auto simp: pending_ok_def)
  then have "table_follows (rs_rows st) (guarded_update i expected input now (rs_rows st))" by (rule guarded_update_follows)
  then have "table_follows (rs_rows st) (snd (update_write keySet ok ok' now i input expected (rs_rows st)))"
    by (simp add: update_write_def split: sum.splits option.splits)
  moreover have "set (rs_pending st') \<subseteq> set (rs_pending st)" using end_update(1) by (simp add: set_remove1_subset)
  then have "pending_ok st'" using assms(2) unfolding pending_ok_def by blast
  ultimately show ?thesis using end_update(1) by simp
qed

lemma repo_reach_follows:
  "repo_reach hash st st' \<Longrightarrow> pending_ok st \<Longrightarrow> pending_ok st' \<and> table_follows (rs_rows st) (rs_rows st')"
proof (induction rule: repo_reach.induct)
  case (step st st1 st2)
  then show ?case using repo_step_follows table_follows_trans by blast
qed simp

text \<open>(C5) Under every interleaving of inserts and updates, where other calls may act between the validation of an update and
  its write and any database call may fail, a stream keeps its identifier and its event, its status only ever changes along
  permitted transitions, and identifiers and events stay unique. A stream that is completed or cancelled stays so.\<close>

theorem status_only_permitted:
  assumes "rs_pending st = []" and "table_wf (rs_rows st)" and "repo_reach hash st st1" and "repo_reach hash st1 st2"
    and "k < length (rs_rows st1)"
  shows "table_wf (rs_rows st2) \<and> k < length (rs_rows st2) \<and> sr_id (rs_rows st2 ! k) = sr_id (rs_rows st1 ! k) \<and>
     api_step\<^sup>*\<^sup>* (sr_status (rs_rows st1 ! k)) (sr_status (rs_rows st2 ! k)) \<and>
     (sr_status (rs_rows st1 ! k) \<in> {Api_completed, Api_cancelled} \<longrightarrow> sr_status (rs_rows st2 ! k) = sr_status (rs_rows st1 ! k))"
proof -
  have "pending_ok st" using assms(1) by (simp add: pending_ok_def)
  with assms(3) have 1: "pending_ok st1" "table_follows (rs_rows st) (rs_rows st1)" using repo_reach_follows by blast+
  with assms(4) have 2: "table_follows (rs_rows st1) (rs_rows st2)" using repo_reach_follows by blast
  then have f: "row_follows (rs_rows st1 ! k) (rs_rows st2 ! k)" "k < length (rs_rows st2)" "table_wf (rs_rows st2)"
    using 1 2 assms(2,5) by (auto simp: table_follows_def)
  then show ?thesis using api_reach_terminal [of "sr_status (rs_rows st1 ! k)"]
    by (simp add: row_follows_def isTerminalStatus_def)
qed

definition demo_keys :: "repo_error + PgcryptoKeySet" where
  "demo_keys = resolvePgcryptoKeys (Some ''k'') None"

definition demo_stream :: "string \<Rightarrow> string \<Rightarrow> stream_row" where
  "demo_stream i sender = new_row (\<lambda>k a. a) \<lparr>pk_current = ''k'', pk_previous = None\<rparr>
     \<lparr>ci_id = i, ci_sender_address = sender, ci_recipient_address = ''r'', ci_amount = ''10'', ci_streamed_amount = ''0'',
      ci_remaining_amount = ''10'', ci_rate_per_second = ''1'', ci_start_time = 0, ci_end_time = 0, ci_contract_id = ''c'',
      ci_transaction_hash = i, ci_event_index = 0\<rparr> 5"

definition demo_update :: "ApiStreamStatus \<Rightarrow> UpdateStreamInput" where
  "demo_update s = \<lparr>ui_status = Some s, ui_streamed_amount = None, ui_remaining_amount = None, ui_end_time = None\<rparr>"

definition demo_repo :: repo_state where
  "demo_repo = \<lparr>rs_rows = [demo_stream ''a'' ''s''], rs_pending = []\<rparr>"

text \<open>Two updates validate against the active stream; the second to write finds it paused and changes nothing.\<close>

definition demo_waiting :: repo_state where
  "demo_waiting = demo_repo\<lparr>rs_pending := [(''a'', demo_update Api_completed, Api_active), (''a'', demo_update Api_paused, Api_active)]\<rparr>"

definition demo_paused :: repo_state where
  "demo_paused = demo_waiting\<lparr>rs_rows := snd (update_write demo_keys True True 6 ''a'' (demo_update Api_paused) Api_active (rs_rows demo_waiting)),
     rs_pending := remove1 (''a'', demo_update Api_paused, Api_active) (rs_pending demo_waiting)\<rparr>"

definition demo_settled :: repo_state where
  "demo_settled = demo_paused\<lparr>rs_rows := snd (update_write demo_keys True True 7 ''a'' (demo_update Api_completed) Api_active (rs_rows demo_paused)),
     rs_pending := remove1 (''a'', demo_update Api_completed, Api_active) (rs_pending demo_paused)\<rparr>"

lemma demo_repo_reach:
  "repo_reach (\<lambda>k a. a) demo_repo demo_waiting" "repo_reach (\<lambda>k a. a) demo_waiting demo_settled"
proof -
  let ?h = "\<lambda>k a. a :: string"
  let ?st = "demo_repo\<lparr>rs_pending := [(''a'', demo_update Api_paused, Api_active)]\<rparr>"
  have "update_read demo_keys (Some (rs_rows demo_repo)) ''a'' (demo_update Api_paused) = Inr Api_active" by code_simp
  from repo_step.begin_update [OF this] have 1: "repo_step ?h demo_repo ?st" by (simp add: demo_repo_def)
  have "update_read demo_keys (Some (rs_rows ?st)) ''a'' (demo_update Api_completed) = Inr Api_active" by code_simp
  from repo_step.begin_update [OF this] have 2: "repo_step ?h ?st demo_waiting" by (simp add: demo_waiting_def)
  show "repo_reach ?h demo_repo demo_waiting" using 1 2 by (blast intro: repo_reach.intros)
  have "(''a'', demo_update Api_paused, Api_active) \<in> set (rs_pending demo_waiting)" by (simp add: demo_waiting_def)
  then have 3: "repo_step ?h demo_waiting demo_paused" unfolding demo_paused_def by (rule repo_step.end_update)
  have "(''a'', demo_update Api_completed, Api_active) \<in> set (rs_pending demo_paused)"
    by (simp add: demo_paused_def demo_waiting_def demo_update_def)
  then have 4: "repo_step ?h demo_paused demo_settled" unfolding demo_settled_def by (rule repo_step.end_update)
  show "repo_reach ?h demo_waiting demo_settled" using 3 4 by (blast intro: repo_reach.intros)
qed

theorem status_only_permitted_witness:
  "map sr_status (rs_rows demo_settled) = [Api_paused] \<and> api_step\<^sup>*\<^sup>* Api_active (sr_status (rs_rows demo_settled ! 0))"
proof -
  have p: "rs_pending demo_repo = []" "table_wf (rs_rows demo_repo)" by (simp_all add: demo_repo_def table_wf_def)
  have k: "0 < length (rs_rows demo_waiting)" by (simp add: demo_waiting_def demo_repo_def)
  have a: "sr_status (rs_rows demo_waiting ! 0) = Api_active" by code_simp
  have "map sr_status (rs_rows demo_settled) = [Api_paused]" by code_simp
  then show ?thesis using status_only_permitted [OF p demo_repo_reach k] a by simp
qed

section \<open>Following the cursor\<close>

text \<open>A client that asks for the next page until there is none; each page is read from its own state of the pool.\<close>

fun traversal ::
  "(string \<Rightarrow> 'k::linorder) \<Rightarrow> (string \<Rightarrow> string \<Rightarrow> string) \<Rightarrow> repo_error + PgcryptoKeySet \<Rightarrow> StreamFilter \<Rightarrow> jsnum \<Rightarrow> string option \<Rightarrow> pool list \<Rightarrow>
   StreamRecord list \<times> bool" where
  "traversal coll hash keySet f limit cursor [] = ([], False)"
| "traversal coll hash keySet f limit cursor (p # ps) =
     (case findWithCursor coll hash keySet p f limit cursor False of
        Inl e \<Rightarrow> ([], False)
      | Inr page \<Rightarrow>
          if cp_hasMore page
          then (case traversal coll hash keySet f limit (Some (sr_id (last (cp_streams page)))) ps of
                  (rest, ended) \<Rightarrow> (cp_streams page @ rest, ended))
          else (cp_streams page, True))"

lemma rowToRecord_id [simp]: "sr_id (rowToRecord r) = sr_id r"
  by (simp add: rowToRecord_def StreamRecord.truncate_def)

lemma effectiveLimit_pos: "effectiveLimit l = Inr n \<Longrightarrow> 0 < n \<and> n \<le> 100"
  by (auto simp: effectiveLimit_def MIN_STREAM_LIMIT_def MAX_STREAM_LIMIT_def split: jsnum.splits if_splits)

lemma rows_after_strict:
  assumes "inj coll" "distinct (map sr_id rows)"
  shows "sorted_wrt (\<lambda>r r'. coll (sr_id r) < coll (sr_id r')) (rows_after coll hash keys f c rows)"
proof -
  let ?xs = "rows_after coll hash keys f c rows"
  have "distinct (map (\<lambda>r. coll (sr_id r)) (filter P rows))" for P
    using assms by (metis (no_types, lifting) comp_apply distinct_map distinct_map_filter inj_on_subset map_cong map_map subset_UNIV)
  then have "distinct (map (\<lambda>r. coll (sr_id r)) ?xs)"
    unfolding rows_after_def by (simp add: distinct_map)
  moreover have "sorted (map (\<lambda>r. coll (sr_id r)) ?xs)" by (simp add: rows_after_def)
  ultimately have "sorted_wrt (<) (map (\<lambda>r. coll (sr_id r)) ?xs)" by (simp add: strict_sorted_iff)
  then show ?thesis by (simp add: sorted_wrt_map)
qed

lemma page_of:
  assumes "findWithCursor coll hash keySet p f limit c False = Inr page"
  obtains rows keys n where "p = Some rows" "keySet = Inr keys" "0 < n" "effectiveLimit limit = Inr n"
    "cp_streams page = map rowToRecord (take n (rows_after coll hash keys f c rows))"
    "cp_hasMore page \<longleftrightarrow> n < length (rows_after coll hash keys f c rows)"
  using assms effectiveLimit_pos
  by (auto simp: findWithCursor_def Let_def min_def split: sum.splits option.splits if_splits)

definition pool_ok :: "pool \<Rightarrow> bool" where
  "pool_ok p \<longleftrightarrow> (\<exists>rows. p = Some rows \<and> distinct (map sr_id rows) \<and> [] \<notin> sr_id ` set rows)"

lemma sorted_take_last:
  assumes "sorted_wrt R xs" "0 < n" "n < length xs" "x \<in> set (drop n xs)"
  shows "R (last (take n xs)) x"
proof -
  have "sorted_wrt R (take n xs @ drop n xs)" using assms(1) by simp
  then have "\<forall>a\<in>set (take n xs). \<forall>b\<in>set (drop n xs). R a b" unfolding sorted_wrt_append by blast
  moreover have "last (take n xs) \<in> set (take n xs)" using assms(2,3) by (intro last_in_set) auto
  ultimately show ?thesis using assms(4) by blast
qed

lemma sorted_last_greatest: "sorted_wrt (\<lambda>a b. (g a :: 'k::linorder) < g b) xs \<Longrightarrow> x \<in> set xs \<Longrightarrow> g x \<le> g (last xs)"
  by (induction xs) (auto simp: less_le_trans intro: less_imp_le)

lemma sorted_glue:
  "sorted_wrt (<) (map g xs) \<Longrightarrow> sorted_wrt (<) (map g ys) \<Longrightarrow> \<forall>x\<in>set xs. g x \<le> (m :: 'k::linorder) \<Longrightarrow> \<forall>y\<in>set ys. m < g y \<Longrightarrow>
   sorted_wrt (<) (map g (xs @ ys))"
  by (auto simp: sorted_wrt_append intro: le_less_trans)

lemma after_pages:
  assumes "inj coll" "pool_ok (Some rows)" "0 < n" "n < length (rows_after coll hash keys f c rows)"
  defines "xs \<equiv> take n (rows_after coll hash keys f c rows)"
  shows "xs \<noteq> []" "sr_id (last xs) \<noteq> []" "text_condition c (\<lambda>i. coll i < coll (sr_id (last xs)))"
    "\<And>r. r \<in> set xs \<Longrightarrow> coll (sr_id r) \<le> coll (sr_id (last xs))"
    "\<And>r. r \<in> set (rows_after coll hash keys f c rows) \<Longrightarrow> r \<notin> set xs \<Longrightarrow> coll (sr_id (last xs)) < coll (sr_id r)"
proof -
  let ?ys = "rows_after coll hash keys f c rows"
  have st: "sorted_wrt (\<lambda>r r'. coll (sr_id r) < coll (sr_id r')) ?ys" using assms(1,2) by (intro rows_after_strict) (auto simp: pool_ok_def)
  show ne: "xs \<noteq> []" using assms(3,4) by (auto simp: xs_def)
  then have "last xs \<in> set ?ys" unfolding xs_def by (meson in_set_takeD last_in_set)
  then have "last xs \<in> set rows" "text_condition c (\<lambda>i. coll i < coll (sr_id (last xs)))" by (auto simp: rows_after_def)
  then show "sr_id (last xs) \<noteq> []" "text_condition c (\<lambda>i. coll i < coll (sr_id (last xs)))"
    using assms(2) by (auto simp: pool_ok_def) (metis image_eqI)
  show "coll (sr_id r) \<le> coll (sr_id (last xs))" if "r \<in> set xs" for r
    using sorted_last_greatest [of "\<lambda>r. coll (sr_id r)" xs r] st that by (simp add: xs_def sorted_wrt_take)
  show "coll (sr_id (last xs)) < coll (sr_id r)" if "r \<in> set ?ys" "r \<notin> set xs" for r
  proof -
    have "r \<in> set (drop n ?ys)" using that by (metis UnE append_take_drop_id set_append xs_def)
    then show ?thesis using sorted_take_last [OF st assms(3,4)] by (simp add: xs_def)
  qed
qed

lemma traversal_origin:
  assumes "keySet = Inr keys"
  shows "traversal coll hash keySet f limit c ps = (res, ended) \<Longrightarrow> r \<in> set res \<Longrightarrow>
     \<exists>rows\<in>set ps. \<exists>row\<in>set (the rows). row_matches hash keys f row \<and> r = rowToRecord row"
proof (induction ps arbitrary: c res)
  case (Cons p ps)
  then obtain page where page: "findWithCursor coll hash keySet p f limit c False = Inr page" by (auto split: sum.splits)
  with Cons.prems consider (here) "r \<in> set (cp_streams page)"
    | (later) c' rest where "traversal coll hash keySet f limit c' ps = (rest, ended)" "r \<in> set rest"
    by (auto split: if_splits prod.splits)
  then show ?case
  proof cases
    case later
    with Cons.IH show ?thesis by (metis list.set_intros(2))
  next
    case here
    obtain rows n where p: "p = Some rows" "cp_streams page = map rowToRecord (take n (rows_after coll hash keys f c rows))"
      using page_of [OF page] assms by (metis sum.inject(2))
    from here obtain row where "row \<in> set (take n (rows_after coll hash keys f c rows))" "r = rowToRecord row" unfolding p(2) by auto
    then show ?thesis using p(1) by (auto simp: rows_after_def dest!: in_set_takeD)
  qed
qed simp

lemma traversal_facts:
  assumes "inj coll" "keySet = Inr keys"
  shows "\<forall>p\<in>set ps. pool_ok p \<Longrightarrow> traversal coll hash keySet f limit c ps = (res, ended) \<Longrightarrow>
     sorted_wrt (<) (map (\<lambda>r. coll (sr_id r)) res) \<and> (\<forall>r\<in>set res. text_condition c (\<lambda>i. coll i < coll (sr_id r))) \<and>
     (ended \<longrightarrow> (\<forall>row. (\<forall>rows. Some rows \<in> set ps \<longrightarrow> row \<in> set rows) \<and> row_matches hash keys f row \<and>
        text_condition c (\<lambda>i. coll i < coll (sr_id row)) \<longrightarrow> rowToRecord row \<in> set res))"
proof (induction ps arbitrary: c res)
  case (Cons p ps)
  show ?case
  proof (cases "findWithCursor coll hash keySet p f limit c False")
    case (Inr page)
    then obtain rows n where p: "p = Some rows" "0 < n"
      "cp_streams page = map rowToRecord (take n (rows_after coll hash keys f c rows))"
      "cp_hasMore page \<longleftrightarrow> n < length (rows_after coll hash keys f c rows)"
      using page_of [OF Inr] assms(2) by (metis sum.inject(2))
    let ?ys = "rows_after coll hash keys f c rows" and ?xs = "take n (rows_after coll hash keys f c rows)"
    have ok: "pool_ok (Some rows)" using Cons.prems(1) p(1) by simp
    have st: "sorted_wrt (\<lambda>r r'. coll (sr_id r) < coll (sr_id r')) ?xs"
      using rows_after_strict [OF assms(1), of rows hash keys f c] ok by (auto simp: pool_ok_def sorted_wrt_take)
    have ys: "r \<in> set ?ys \<longleftrightarrow> r \<in> set rows \<and> row_matches hash keys f r \<and> text_condition c (\<lambda>i. coll i < coll (sr_id r))" for r
      by (auto simp: rows_after_def)
    have xs: "r \<in> set ?ys" if "r \<in> set ?xs" for r using that by (rule in_set_takeD)
    show ?thesis
    proof (cases "cp_hasMore page")
      case False
      then have "?xs = ?ys" using p(4) by simp
      then have res: "res = map rowToRecord ?ys" and srt: "sorted_wrt (\<lambda>r r'. coll (sr_id r) < coll (sr_id r')) ?ys"
        using Cons.prems Inr p False st by auto
      show ?thesis using srt ys p(1) unfolding res by (auto simp: sorted_wrt_map)
    next
      case True
      note last = after_pages [OF assms(1) ok p(2), of hash keys f c]
      have l: "sr_id (last (cp_streams page)) = sr_id (last ?xs)" using p True last(1) by (simp add: last_map)
      obtain rest where rest: "traversal coll hash keySet f limit (Some (sr_id (last ?xs))) ps = (rest, ended)" "res = cp_streams page @ rest"
        using Cons.prems(2) Inr True l by (auto split: prod.splits)
      have after: "text_condition (Some (sr_id (last ?xs))) P = P (sr_id (last ?xs))" for P
        using last(2) True p(4) by (simp add: text_condition_def)
      have IH: "sorted_wrt (<) (map (\<lambda>r. coll (sr_id r)) rest)" "\<forall>r\<in>set rest. coll (sr_id (last ?xs)) < coll (sr_id r)"
        "ended \<Longrightarrow> (\<forall>rows. Some rows \<in> set ps \<longrightarrow> row \<in> set rows) \<and> row_matches hash keys f row \<and>
           coll (sr_id (last ?xs)) < coll (sr_id row) \<longrightarrow> rowToRecord row \<in> set rest" for row
        using Cons.IH [OF _ rest(1)] Cons.prems(1) unfolding after by auto
      have "sorted_wrt (<) (map (\<lambda>r. coll (sr_id r)) res)" unfolding rest(2)
        using st IH(1,2) last(4) True p(4) by (intro sorted_glue [of _ _ _ "coll (sr_id (last ?xs))"]) (auto simp: p(3) sorted_wrt_map)
      moreover have "text_condition c (\<lambda>i. coll i < coll (sr_id r))" if "r \<in> set rest" for r
        using last(3) True p(4) IH(2) that by (auto simp: text_condition_def)
      moreover have "rowToRecord row \<in> set res" if "ended" "\<forall>rows. Some rows \<in> set (p # ps) \<longrightarrow> row \<in> set rows"
        "row_matches hash keys f row" "text_condition c (\<lambda>i. coll i < coll (sr_id row))" for row
        using last(5) [of row] IH(3) [OF that(1), of row] that True p ys rest(2) by auto
      moreover have "text_condition c (\<lambda>i. coll i < coll (sr_id r))" if "r \<in> set (cp_streams page)" for r
        using that xs ys unfolding p(3) by auto
      ultimately show ?thesis using rest(2) by auto
    qed
  qed (use Cons.prems in auto)
qed simp

lemma rows_after_shrinks:
  assumes "inj coll" "pool_ok (Some rows)" "0 < n" "n < length (rows_after coll hash keys f c rows)"
  shows "length (rows_after coll hash keys f (Some (sr_id (last (take n (rows_after coll hash keys f c rows))))) rows) <
     length (rows_after coll hash keys f c rows)"
proof -
  let ?x = "last (take n (rows_after coll hash keys f c rows))"
  let ?P = "\<lambda>c r. row_matches hash keys f r \<and> text_condition c (\<lambda>i. coll i < coll (sr_id r))"
  note last = after_pages [OF assms]
  have "?x \<in> set (rows_after coll hash keys f c rows)" using last(1) by (meson in_set_takeD last_in_set)
  then have x: "?x \<in> set (filter (?P c) rows)" by (simp add: rows_after_def)
  have imp: "?P (Some (sr_id ?x)) r \<Longrightarrow> ?P c r" for r using last(2,3) by (auto simp: text_condition_def)
  have "\<not> ?P (Some (sr_id ?x)) ?x" using last(2) by (simp add: text_condition_def)
  from length_filter_less [where P = "?P (Some (sr_id ?x))", OF x this]
  have "length (filter (?P (Some (sr_id ?x))) rows) < length (filter (?P c) rows)"
    unfolding filter_filter using imp by (metis (no_types, lifting) filter_cong)
  then show ?thesis by (simp add: rows_after_def)
qed

lemma traversal_ends:
  assumes "inj coll" "keySet = Inr keys" "pool_ok (Some rows)" "effectiveLimit limit = Inr n"
  shows "length (rows_after coll hash keys f c rows) \<le> m \<Longrightarrow> snd (traversal coll hash keySet f limit c (replicate (Suc m) (Some rows)))"
proof (induction m arbitrary: c)
  case 0
  then show ?case using assms by (simp add: findWithCursor_def Let_def)
next
  case (Suc m)
  let ?ys = "rows_after coll hash keys f c rows"
  have n: "0 < n" using effectiveLimit_pos assms(4) by blast
  show ?case
  proof (cases "n < length ?ys")
    case True
    let ?c = "Some (sr_id (last (take n ?ys)))"
    have "length (rows_after coll hash keys f ?c rows) \<le> m"
      using rows_after_shrinks [OF assms(1,3) n True] Suc.prems by simp
    from Suc.IH [OF this] obtain rest where e: "traversal coll hash keySet f limit ?c (replicate (Suc m) (Some rows)) = (rest, True)"
      by (metis prod.collapse)
    have t: "take n ?ys \<noteq> []" using n True by auto
    have "findWithCursor coll hash keySet (Some rows) f limit c False =
        Inr \<lparr>cp_streams = map rowToRecord (take n ?ys), cp_hasMore = True, cp_total = None\<rparr>"
      using True assms(2,4) by (simp add: findWithCursor_def Let_def min_def)
    with e t show ?thesis unfolding replicate_Suc [of "Suc m"] traversal.simps
      by (simp add: last_map del: replicate_Suc traversal.simps)
  next
    case False
    then show ?thesis using assms(2,4) by (simp add: findWithCursor_def Let_def)
  qed
qed

text \<open>(C7) Following the cursor from the first page to the end, while the table changes between the pages, gives the identifiers in
  strictly increasing order, hence each at most once, and only rows that matched when their page was read. Every matching row that
  is in the table at each page is given exactly once. On a table that does not change, one page more than there are rows is enough to reach
  the end.\<close>

theorem traversal_complete:
  assumes "inj coll" and "\<forall>p\<in>set ps. pool_ok p" and "traversal coll hash (Inr keys) f limit None ps = (res, ended)"
    and "pool_ok (Some rows)" and "effectiveLimit limit = Inr n"
  shows "sorted_wrt (<) (map (\<lambda>r. coll (sr_id r)) res) \<and> distinct (map sr_id res) \<and>
     (\<forall>r\<in>set res. \<exists>p\<in>set ps. \<exists>row\<in>set (the p). row_matches hash keys f row \<and> r = rowToRecord row) \<and>
     (ended \<longrightarrow> (\<forall>row. (\<forall>rows. Some rows \<in> set ps \<longrightarrow> row \<in> set rows) \<and> row_matches hash keys f row \<longrightarrow> rowToRecord row \<in> set res)) \<and>
     snd (traversal coll hash (Inr keys) f limit None (replicate (Suc (length rows)) (Some rows)))"
proof -
  have t: "text_condition None P" for P by (simp add: text_condition_def)
  note facts = traversal_facts [OF assms(1) refl assms(2,3)]
  have srt: "sorted_wrt (<) (map (\<lambda>r. coll (sr_id r)) res)" using facts by blast
  then have "distinct (map (\<lambda>r. coll (sr_id r)) res)" by (simp add: strict_sorted_iff)
  then have "distinct (map sr_id res)" by (auto simp: distinct_map inj_on_def)
  moreover have "length (rows_after coll hash keys f None rows) \<le> length rows" by (simp add: rows_after_def)
  then have "snd (traversal coll hash (Inr keys) f limit None (replicate (Suc (length rows)) (Some rows)))"
    by (rule traversal_ends [OF assms(1) refl assms(4,5)])
  moreover have "\<forall>r\<in>set res. \<exists>p\<in>set ps. \<exists>row\<in>set (the p). row_matches hash keys f row \<and> r = rowToRecord row"
    using traversal_origin [OF refl assms(3)] by blast
  ultimately show ?thesis using srt facts t by blast
qed

definition no_filter :: StreamFilter where
  "no_filter = \<lparr>sf_status = None, sf_sender_address = None, sf_recipient_address = None, sf_contract_id = None, sf_start_time_from = None,
     sf_start_time_to = None, sf_end_time_from = None, sf_end_time_to = None\<rparr>"

text \<open>Identifiers in the order of their characters; a stream is inserted between the pages.\<close>

definition demo_pools :: "pool list" where
  "demo_pools = [Some [demo_stream ''b'' ''s'', demo_stream ''a'' ''s''],
     Some [demo_stream ''b'' ''s'', demo_stream ''a'' ''s'', demo_stream ''c'' ''s'']]"

definition demo_result :: "StreamRecord list \<times> bool" where
  "demo_result = traversal (\<lambda>i. i) (\<lambda>k a. a) (Inr \<lparr>pk_current = ''k'', pk_previous = None\<rparr>) no_filter (Finite 1) None (demo_pools @ demo_pools)"

lemma demo_pool_ok: "\<forall>p\<in>set (demo_pools @ demo_pools). pool_ok p"
  by (simp add: demo_pools_def pool_ok_def demo_stream_def new_row_def)

theorem traversal_complete_witness:
  "map sr_id (fst demo_result) = [''a'', ''b''] \<and> distinct (map sr_id (fst demo_result)) \<and>
   (\<exists>p\<in>set (demo_pools @ demo_pools). rowToRecord (demo_stream ''a'' ''s'') \<in> rowToRecord ` set (the p))"
proof -
  have d: "traversal (\<lambda>i. i) (\<lambda>k a. a) (Inr \<lparr>pk_current = ''k'', pk_previous = None\<rparr>) no_filter (Finite 1) None (demo_pools @ demo_pools) =
      (fst demo_result, snd demo_result)" by (simp add: demo_result_def)
  have l: "effectiveLimit (Finite 1) = Inr 1" by (simp add: effectiveLimit_def MIN_STREAM_LIMIT_def MAX_STREAM_LIMIT_def)
  have p: "pool_ok (Some [])" by (simp add: pool_ok_def)
  have m: "map sr_id (fst demo_result) = [''a'', ''b'']" by code_simp
  then obtain r rs where "fst demo_result = r # rs" "sr_id r = ''a''" by (cases "fst demo_result") auto
  moreover have "inj (\<lambda>i :: string. i)" by (simp add: inj_on_def)
  note c = traversal_complete [OF this demo_pool_ok d p l]
  ultimately show ?thesis using m c
    by (auto simp: demo_pools_def)
qed

section \<open>Tenants\<close>

text \<open>The hashes of a row were made from its addresses with one of the keys in use, and the hash is free of collisions.\<close>

definition hashes_ok :: "(string \<Rightarrow> string \<Rightarrow> string) \<Rightarrow> PgcryptoKeySet \<Rightarrow> stream_row list \<Rightarrow> bool" where
  "hashes_ok hash keys rows \<longleftrightarrow>
     (\<forall>r\<in>set rows. row_sender_hash r = hash (pk_current keys) (sr_sender_address r) \<or>
        Some (row_sender_hash r) = map_option (\<lambda>k. hash k (sr_sender_address r)) (pk_previous keys))"

definition collision_free :: "(string \<Rightarrow> string \<Rightarrow> string) \<Rightarrow> bool" where
  "collision_free hash \<longleftrightarrow> (\<forall>k k' a b. hash k a = hash k' b \<longrightarrow> a = b)"

lemma sender_filter:
  assumes "collision_free hash" "hashes_ok hash keys rows" "r \<in> set rows"
  shows "buildEncryptedAddressFilter (computeAddressHashes hash a keys) a (row_sender_hash r) (row_sender_plain r) (sr_sender_address r) \<longleftrightarrow>
    sr_sender_address r = a"
  using assms
  by (cases "pk_previous keys") (auto simp: buildEncryptedAddressFilter_def computeAddressHashes_def hashes_ok_def collision_free_def)

lemma scoped_match:
  assumes "collision_free hash" "hashes_ok hash keys rows" "r \<in> set rows" "a \<noteq> []"
  shows "row_matches hash keys (f\<lparr>sf_sender_address := Some a\<rparr>) r \<longleftrightarrow>
     sr_sender_address r = a \<and> row_matches hash keys (f\<lparr>sf_sender_address := None\<rparr>) r"
  using sender_filter [OF assms(1-3)] assms(4) by (auto simp: row_matches_def text_condition_def)



end
