(* ===== verification/Stream_Ingestion.thy ===== *)
theory Stream_Ingestion
  imports Stream_Store Dedup Webhook_Outbox
begin

text \<open>
  Ingestion of stream events, \<open>src/services/streamEventService.ts\<close>: the three handlers, the dispatch and the batch, over the
  de-duplication cache of \<open>Dedup\<close> and the table of \<open>Stream_Store\<close>.

  The cache is an argument, the \<open>add\<close> of an implementation that does not throw (the in-memory and the hybrid cache, which the application
  configures). What the database calls of one event see and whether they fail is an \<open>ingest_env\<close>. A broadcast through the hub is recorded
  with its payload; its delivery is the subject of \<open>Ws_Registry\<close> and \<open>Ws_Delivery\<close>. Log lines, spans and audit records are not modelled.

  The lemmas: a stream is announced exactly when its row is inserted, and once; what is broadcast has the published shape; and an event
  that failed once is dropped when it is delivered again.
\<close>

section \<open>Events\<close>

record StreamCreatedEvent =
  ce_contractId :: string
  ce_transactionHash :: string
  ce_eventIndex :: nat
  ce_sender :: string
  ce_recipient :: string
  ce_amount :: string
  ce_ratePerSecond :: string
  ce_startTime :: int
  ce_endTime :: int

record StreamUpdatedEvent =
  ue_transactionHash :: string
  ue_eventIndex :: nat
  ue_streamId :: string
  ue_streamedAmount :: "string option"
  ue_remainingAmount :: "string option"
  ue_status :: "ApiStreamStatus option"
  ue_endTime :: "int option"

record StreamCancelledEvent =
  xe_transactionHash :: string
  xe_eventIndex :: nat
  xe_streamId :: string

datatype StreamEvent = StreamCreated StreamCreatedEvent | StreamUpdated StreamUpdatedEvent | StreamCancelled StreamCancelledEvent

datatype ingest_action = Act_created | Act_updated | Act_ignored

datatype ingest_error = Repository repo_error | Stream_not_found string

record EventIngestionResult =
  er_eventId :: string
  er_streamId :: string
  er_action :: ingest_action
  er_success :: bool
  er_error :: "ingest_error option"

definition deriveStreamEventId :: "string \<Rightarrow> nat \<Rightarrow> string" where
  "deriveStreamEventId transactionHash eventIndex = transactionHash @ ''-'' @ show_nat eventIndex"

definition deriveStreamId :: "string \<Rightarrow> nat \<Rightarrow> string" where
  "deriveStreamId transactionHash eventIndex = transactionHash @ ''-'' @ show_nat eventIndex"

definition ignored :: "string \<Rightarrow> string \<Rightarrow> EventIngestionResult" where
  "ignored eventId streamId = \<lparr>er_eventId = eventId, er_streamId = streamId, er_action = Act_ignored, er_success = True, er_error = None\<rparr>"

definition failed :: "string \<Rightarrow> string \<Rightarrow> ingest_action \<Rightarrow> ingest_error \<Rightarrow> EventIngestionResult" where
  "failed eventId streamId action err =
     \<lparr>er_eventId = eventId, er_streamId = streamId, er_action = action, er_success = False, er_error = Some err\<rparr>"

definition succeeded :: "string \<Rightarrow> string \<Rightarrow> ingest_action \<Rightarrow> EventIngestionResult" where
  "succeeded eventId streamId action =
     \<lparr>er_eventId = eventId, er_streamId = streamId, er_action = action, er_success = True, er_error = None\<rparr>"

section \<open>Handlers\<close>

record broadcast_message =
  bm_streamId :: string
  bm_eventId :: string
  bm_recipientAddress :: string
  bm_payload :: "(string \<times> jsval) list"

record 'c ingest =
  ig_rows :: "stream_row list"
  ig_dedup :: 'c
  ig_broadcasts :: "broadcast_message list"

record ingest_env =
  ie_now :: millis
  ie_keys :: "repo_error + PgcryptoKeySet"
  ie_hub :: bool
  ie_insert_ok :: bool
  ie_afterConflict :: pool
  ie_afterConflict' :: pool
  ie_replica :: pool
  ie_primary_ok :: bool
  ie_update_ok :: bool
  ie_exists_ok :: bool

type_synonym 'c dedup_add = "'c \<Rightarrow> string \<Rightarrow> string \<Rightarrow> millis \<Rightarrow> bool \<times> 'c"

definition WEBHOOK_SCHEMA_VERSION :: jsval where
  "WEBHOOK_SCHEMA_VERSION = JNumber (Finite 1)"

definition broadcast_if :: "bool \<Rightarrow> broadcast_message \<Rightarrow> 'c ingest \<Rightarrow> 'c ingest" where
  "broadcast_if hub m st = (if hub then st\<lparr>ig_broadcasts := ig_broadcasts st @ [m]\<rparr> else st)"

text \<open>A duplicate is a key that could not be added.\<close>

definition isDuplicateEvent :: "'c dedup_add \<Rightarrow> string \<Rightarrow> string \<Rightarrow> millis \<Rightarrow> 'c ingest \<Rightarrow> bool \<times> 'c ingest" where
  "isDuplicateEvent add streamId eventId now st =
     (case add (ig_dedup st) streamId eventId now of (added, d) \<Rightarrow> (\<not> added, st\<lparr>ig_dedup := d\<rparr>))"

definition created_input :: "StreamCreatedEvent \<Rightarrow> CreateStreamInput" where
  "created_input ev =
     \<lparr>ci_id = deriveStreamId (ce_transactionHash ev) (ce_eventIndex ev), ci_sender_address = ce_sender ev,
      ci_recipient_address = ce_recipient ev, ci_amount = ce_amount ev, ci_streamed_amount = ''0'', ci_remaining_amount = ce_amount ev,
      ci_rate_per_second = ce_ratePerSecond ev, ci_start_time = ce_startTime ev, ci_end_time = ce_endTime ev,
      ci_contract_id = ce_contractId ev, ci_transaction_hash = ce_transactionHash ev, ci_event_index = ce_eventIndex ev\<rparr>"

definition created_payload :: "CreateStreamInput \<Rightarrow> (string \<times> jsval) list" where
  "created_payload input =
     [(''id'', JString (ci_id input)), (''sender_address'', JString (ci_sender_address input)),
      (''recipient_address'', JString (ci_recipient_address input)), (''amount'', JString (ci_amount input)),
      (''streamed_amount'', JString (ci_streamed_amount input)), (''remaining_amount'', JString (ci_remaining_amount input)),
      (''rate_per_second'', JString (ci_rate_per_second input)), (''start_time'', JNumber (Finite (of_int (ci_start_time input)))),
      (''end_time'', JNumber (Finite (of_int (ci_end_time input)))), (''contract_id'', JString (ci_contract_id input)),
      (''transaction_hash'', JString (ci_transaction_hash input)), (''event_index'', json_nat (ci_event_index input)),
      (''event'', JString ''stream.created''), (''schema_version'', WEBHOOK_SCHEMA_VERSION)]"

definition processStreamCreated ::
  "'c dedup_add \<Rightarrow> (string \<Rightarrow> string \<Rightarrow> string) \<Rightarrow> ingest_env \<Rightarrow> StreamCreatedEvent \<Rightarrow> 'c ingest \<Rightarrow> EventIngestionResult \<times> 'c ingest" where
  "processStreamCreated add hash e ev st =
     (let eventId = deriveStreamEventId (ce_transactionHash ev) (ce_eventIndex ev);
          streamId = deriveStreamId (ce_transactionHash ev) (ce_eventIndex ev);
          (duplicate, st1) = isDuplicateEvent add streamId eventId (ie_now e) st
      in if duplicate then (ignored eventId streamId, st1)
         else case upsertStream hash (ie_keys e) (ie_insert_ok e) (ie_afterConflict e) (ie_afterConflict' e) (ie_now e) (created_input ev) (ig_rows st1) of
                (Inl err, rows) \<Rightarrow> (failed eventId [] Act_created (Repository err), st1\<lparr>ig_rows := rows\<rparr>)
              | (Inr (created, stream), rows) \<Rightarrow>
                  if created
                  then (succeeded eventId streamId Act_created,
                        broadcast_if (ie_hub e) \<lparr>bm_streamId = streamId, bm_eventId = eventId, bm_recipientAddress = ce_recipient ev,
                          bm_payload = created_payload (created_input ev)\<rparr> (st1\<lparr>ig_rows := rows\<rparr>))
                  else (ignored eventId streamId, st1\<lparr>ig_rows := rows\<rparr>))"

text \<open>Members with a falsy value are left out: an empty text, and an end time of zero.\<close>

definition truthy_text :: "string option \<Rightarrow> string option" where
  "truthy_text v = (if nullish v [] = [] then None else v)"

definition update_of :: "StreamUpdatedEvent \<Rightarrow> UpdateStreamInput" where
  "update_of ev =
     \<lparr>ui_status = ue_status ev, ui_streamed_amount = truthy_text (ue_streamedAmount ev),
      ui_remaining_amount = truthy_text (ue_remainingAmount ev),
      ui_end_time = (if nullish (ue_endTime ev) 0 = 0 then None else ue_endTime ev)\<rparr>"

definition member_of :: "string \<Rightarrow> jsval option \<Rightarrow> (string \<times> jsval) list" where
  "member_of k v = (case v of None \<Rightarrow> [] | Some x \<Rightarrow> [(k, x)])"

definition update_members :: "UpdateStreamInput \<Rightarrow> (string \<times> jsval) list" where
  "update_members u =
     member_of ''status'' (map_option (\<lambda>s. JString (api_name s)) (ui_status u)) @
     member_of ''streamed_amount'' (map_option JString (ui_streamed_amount u)) @
     member_of ''remaining_amount'' (map_option JString (ui_remaining_amount u)) @
     member_of ''end_time'' (map_option (\<lambda>t. JNumber (Finite (of_int t))) (ui_end_time u))"

definition processStreamUpdated ::
  "'c dedup_add \<Rightarrow> ingest_env \<Rightarrow> StreamUpdatedEvent \<Rightarrow> 'c ingest \<Rightarrow> EventIngestionResult \<times> 'c ingest" where
  "processStreamUpdated add e ev st =
     (let eventId = deriveStreamEventId (ue_transactionHash ev) (ue_eventIndex ev); streamId = ue_streamId ev;
          (duplicate, st1) = isDuplicateEvent add streamId eventId (ie_now e) st
      in if duplicate then (ignored eventId streamId, st1)
         else case getById (ie_keys e) (ie_replica e) streamId of
                Inl err \<Rightarrow> (failed eventId streamId Act_updated (Repository err), st1)
              | Inr None \<Rightarrow> (failed eventId streamId Act_updated (Stream_not_found streamId), st1)
              | Inr (Some existing) \<Rightarrow>
                  let update = update_of ev
                  in if update_members update = [] then (ignored eventId streamId, st1)
                     else case updateStream (ie_keys e) (ie_primary_ok e) (ie_update_ok e) (ie_exists_ok e) (ie_now e) streamId update (ig_rows st1) of
                            (Inl err, rows) \<Rightarrow> (failed eventId streamId Act_updated (Repository err), st1\<lparr>ig_rows := rows\<rparr>)
                          | (Inr updatedStream, rows) \<Rightarrow>
                              (succeeded eventId streamId Act_updated,
                               broadcast_if (ie_hub e) \<lparr>bm_streamId = streamId, bm_eventId = eventId,
                                 bm_recipientAddress = sr_recipient_address updatedStream,
                                 bm_payload = update_members update @ [(''event'', JString ''stream.updated''), (''schema_version'', WEBHOOK_SCHEMA_VERSION)]\<rparr>
                                 (st1\<lparr>ig_rows := rows\<rparr>)))"

definition cancel_update :: UpdateStreamInput where
  "cancel_update = \<lparr>ui_status = Some Api_cancelled, ui_streamed_amount = None, ui_remaining_amount = None, ui_end_time = None\<rparr>"

definition processStreamCancelled ::
  "'c dedup_add \<Rightarrow> ingest_env \<Rightarrow> StreamCancelledEvent \<Rightarrow> 'c ingest \<Rightarrow> EventIngestionResult \<times> 'c ingest" where
  "processStreamCancelled add e ev st =
     (let eventId = deriveStreamEventId (xe_transactionHash ev) (xe_eventIndex ev); streamId = xe_streamId ev;
          (duplicate, st1) = isDuplicateEvent add streamId eventId (ie_now e) st
      in if duplicate then (ignored eventId streamId, st1)
         else case getById (ie_keys e) (ie_replica e) streamId of
                Inl err \<Rightarrow> (failed eventId streamId Act_updated (Repository err), st1)
              | Inr existing \<Rightarrow>
                  (case updateStream (ie_keys e) (ie_primary_ok e) (ie_update_ok e) (ie_exists_ok e) (ie_now e) streamId cancel_update (ig_rows st1) of
                     (Inl err, rows) \<Rightarrow> (failed eventId streamId Act_updated (Repository err), st1\<lparr>ig_rows := rows\<rparr>)
                   | (Inr updatedStream, rows) \<Rightarrow>
                       (succeeded eventId streamId Act_updated,
                        broadcast_if (ie_hub e) \<lparr>bm_streamId = streamId, bm_eventId = eventId,
                          bm_recipientAddress = sr_recipient_address updatedStream,
                          bm_payload = [(''status'', JString ''cancelled''), (''event'', JString ''stream.cancelled''), (''schema_version'', WEBHOOK_SCHEMA_VERSION)]\<rparr>
                          (st1\<lparr>ig_rows := rows\<rparr>))))"

definition processEvent ::
  "'c dedup_add \<Rightarrow> (string \<Rightarrow> string \<Rightarrow> string) \<Rightarrow> ingest_env \<Rightarrow> StreamEvent \<Rightarrow> 'c ingest \<Rightarrow> EventIngestionResult \<times> 'c ingest" where
  "processEvent add hash e event st =
     (case event of
        StreamCreated ev \<Rightarrow> processStreamCreated add hash e ev st
      | StreamUpdated ev \<Rightarrow> processStreamUpdated add e ev st
      | StreamCancelled ev \<Rightarrow> processStreamCancelled add e ev st)"

fun process_events ::
  "'c dedup_add \<Rightarrow> (string \<Rightarrow> string \<Rightarrow> string) \<Rightarrow> (ingest_env \<times> StreamEvent) list \<Rightarrow> 'c ingest \<Rightarrow> EventIngestionResult list \<times> 'c ingest" where
  "process_events add hash [] st = ([], st)"
| "process_events add hash ((e, event) # events) st =
     (case processEvent add hash e event st of (r, st1) \<Rightarrow>
        (case process_events add hash events st1 of (rs, st2) \<Rightarrow> (r # rs, st2)))"

section \<open>What one event does\<close>

text \<open>The key of an event in the cache.\<close>

fun event_key :: "StreamEvent \<Rightarrow> string \<times> string" where
  "event_key (StreamCreated ev) = (deriveStreamId (ce_transactionHash ev) (ce_eventIndex ev), deriveStreamEventId (ce_transactionHash ev) (ce_eventIndex ev))"
| "event_key (StreamUpdated ev) = (ue_streamId ev, deriveStreamEventId (ue_transactionHash ev) (ue_eventIndex ev))"
| "event_key (StreamCancelled ev) = (xe_streamId ev, deriveStreamEventId (xe_transactionHash ev) (xe_eventIndex ev))"

lemma broadcast_if_simps [simp]:
  "ig_rows (broadcast_if h m st) = ig_rows st" "ig_dedup (broadcast_if h m st) = ig_dedup st"
  "ig_broadcasts (broadcast_if h m st) = ig_broadcasts st @ (if h then [m] else [])"
  by (simp_all add: broadcast_if_def)

lemma process_dedup:
  "ig_dedup (snd (processEvent add hash e event st)) = snd (add (ig_dedup st) (fst (event_key event)) (snd (event_key event)) (ie_now e))"
  by (cases event)
     (auto simp: processEvent_def processStreamCreated_def processStreamUpdated_def processStreamCancelled_def isDuplicateEvent_def Let_def
        split: prod.splits sum.splits option.splits)

lemma process_duplicate:
  assumes "\<not> fst (add (ig_dedup st) (fst (event_key event)) (snd (event_key event)) (ie_now e))"
  shows "processEvent add hash e event st =
     (ignored (snd (event_key event)) (fst (event_key event)),
      st\<lparr>ig_dedup := snd (add (ig_dedup st) (fst (event_key event)) (snd (event_key event)) (ie_now e))\<rparr>)"
  using assms
  by (cases event)
     (auto simp: processEvent_def processStreamCreated_def processStreamUpdated_def processStreamCancelled_def isDuplicateEvent_def Let_def
        split: prod.splits)

lemma process_events_dedup:
  "ig_dedup (snd (process_events add hash xs st)) =
   foldl (\<lambda>c (s, i, t). snd (add c s i t)) (ig_dedup st) (map (\<lambda>(e, event). (fst (event_key event), snd (event_key event), ie_now e)) xs)"
proof (induction xs arbitrary: st)
  case (Cons x xs)
  obtain e event where x: "x = (e, event)" by (cases x)
  obtain r st1 where "processEvent add hash e event st = (r, st1)" by fastforce
  moreover obtain rs st2 where "process_events add hash xs st1 = (rs, st2)" by fastforce
  ultimately show ?case using Cons.IH [of st1] process_dedup [of add hash e event st] x by simp
qed simp

lemma upsert_rows:
  "upsertStream hash keySet ok p1 p2 now input rows = (res, rows') \<Longrightarrow>
   (case res of Inr (True, stream) \<Rightarrow> \<exists>row. rows' = rows @ [row] \<and> sr_id row = ci_id input | _ \<Rightarrow> rows' = rows)"
  by (auto simp: upsertStream_def insert_stream_def new_row_def split: sum.splits option.splits prod.splits if_splits)

lemma updateStream_follows: "table_follows rows (snd (updateStream keySet r_ok u_ok x_ok now i input rows))"
proof (cases "update_read keySet (if r_ok then Some rows else None) i input")
  case (Inr s)
  then have "isValidStatusTransition s t" if "ui_status input = Some t" for t
    using that by (auto simp: update_read_def split: sum.splits option.splits if_splits)
  then have "table_follows rows (guarded_update i s input now rows)" by (rule guarded_update_follows)
  with Inr show ?thesis by (simp add: updateStream_def update_write_def split: sum.splits option.splits)
qed (simp add: updateStream_def)

lemma updateStream_ids: "map sr_id (snd (updateStream keySet r_ok u_ok x_ok now i input rows)) = map sr_id rows"
  by (auto simp: updateStream_def update_write_def guarded_update_def apply_update_def split: sum.splits option.splits)

definition created_ids :: "broadcast_message list \<Rightarrow> string list" where
  "created_ids bs = map bm_streamId (filter (\<lambda>m. map_get (bm_payload m) ''event'' = Some (JString ''stream.created'')) bs)"

lemma created_ids_append [simp]: "created_ids (bs @ cs) = created_ids bs @ created_ids cs"
  by (simp add: created_ids_def)

lemma members_no_event: "map_get (update_members u) ''event'' = None"
  by (simp add: update_members_def member_of_def map_add_def split: option.splits)

lemma created_fields [simp]:
  "ci_id (created_input ev) = deriveStreamId (ce_transactionHash ev) (ce_eventIndex ev)"
  "map_get (created_payload input) ''event'' = Some (JString ''stream.created'')"
  by (simp_all add: created_input_def created_payload_def)

text \<open>What an event adds to the table is what it announces.\<close>

definition announces :: "'c ingest \<Rightarrow> 'c ingest \<Rightarrow> string list \<Rightarrow> bool" where
  "announces st st' ids \<longleftrightarrow> map sr_id (ig_rows st') = map sr_id (ig_rows st) @ ids \<and>
     created_ids (ig_broadcasts st') = created_ids (ig_broadcasts st) @ ids \<and> table_follows (ig_rows st) (ig_rows st')"

lemma created_announces:
  assumes "processStreamCreated add hash e ev st = (r, st')" "ie_hub e"
  shows "announces st st' (if er_action r = Act_created \<and> er_success r then [er_streamId r] else [])"
proof -
  obtain dup st1 where d: "isDuplicateEvent add (deriveStreamId (ce_transactionHash ev) (ce_eventIndex ev))
      (deriveStreamEventId (ce_transactionHash ev) (ce_eventIndex ev)) (ie_now e) st = (dup, st1)" by fastforce
  then have st1: "ig_rows st1 = ig_rows st" "ig_broadcasts st1 = ig_broadcasts st" by (auto simp: isDuplicateEvent_def split: prod.splits)
  obtain res rows where u: "upsertStream hash (ie_keys e) (ie_insert_ok e) (ie_afterConflict e) (ie_afterConflict' e) (ie_now e)
      (created_input ev) (ig_rows st1) = (res, rows)" by fastforce
  have f: "table_follows (ig_rows st) rows" using upsert_follows [of "ig_rows st"] u st1 by (metis snd_conv)
  show ?thesis using assms d u upsert_rows [OF u] st1 f
    by (auto simp: processStreamCreated_def Let_def announces_def ignored_def failed_def succeeded_def created_ids_def
        split: if_splits sum.splits bool.splits)
qed

lemma updated_announces:
  assumes "processStreamUpdated add e ev st = (r, st')"
  shows "announces st st' [] \<and> er_action r \<noteq> Act_created"
proof -
  let ?u = "updateStream (ie_keys e) (ie_primary_ok e) (ie_update_ok e) (ie_exists_ok e) (ie_now e) (ue_streamId ev) (update_of ev) (ig_rows st)"
  obtain res rows where u: "?u = (res, rows)" by fastforce
  have f: "table_follows (ig_rows st) rows" "map sr_id rows = map sr_id (ig_rows st)"
    using updateStream_follows updateStream_ids u by (metis snd_conv)+
  show ?thesis using assms u f
    by (auto simp: processStreamUpdated_def announces_def isDuplicateEvent_def Let_def ignored_def failed_def succeeded_def created_ids_def members_no_event
        split: if_splits sum.splits option.splits prod.splits)
qed

lemma cancelled_announces:
  assumes "processStreamCancelled add e ev st = (r, st')"
  shows "announces st st' [] \<and> er_action r \<noteq> Act_created"
proof -
  let ?u = "updateStream (ie_keys e) (ie_primary_ok e) (ie_update_ok e) (ie_exists_ok e) (ie_now e) (xe_streamId ev) cancel_update (ig_rows st)"
  obtain res rows where u: "?u = (res, rows)" by fastforce
  have f: "table_follows (ig_rows st) rows" "map sr_id rows = map sr_id (ig_rows st)"
    using updateStream_follows updateStream_ids u by (metis snd_conv)+
  show ?thesis using assms u f
    by (auto simp: processStreamCancelled_def announces_def isDuplicateEvent_def Let_def ignored_def failed_def succeeded_def created_ids_def
        split: if_splits sum.splits option.splits prod.splits)
qed

lemma event_announces:
  assumes "processEvent add hash e event st = (r, st')" "ie_hub e"
  shows "announces st st' (if er_action r = Act_created \<and> er_success r then [er_streamId r] else [])"
  using assms created_announces updated_announces cancelled_announces
  by (cases event) (fastforce simp: processEvent_def)+

lemma announces_trans: "announces a b is \<Longrightarrow> announces b c js \<Longrightarrow> announces a c (is @ js)"
  using table_follows_trans by (auto simp: announces_def)

lemma events_announce:
  "process_events add hash xs st = (rs, st') \<Longrightarrow> \<forall>(e, event)\<in>set xs. ie_hub e \<Longrightarrow>
   announces st st' (map er_streamId (filter (\<lambda>r. er_action r = Act_created \<and> er_success r) rs))"
proof (induction xs arbitrary: st rs)
  case (Cons x xs)
  obtain e event where x: "x = (e, event)" by (cases x)
  obtain r st1 where r: "processEvent add hash e event st = (r, st1)" by fastforce
  obtain rs' where rs: "process_events add hash xs st1 = (rs', st')" "rs = r # rs'"
    using Cons.prems(1) x r by (auto split: prod.splits)
  have "announces st st1 (if er_action r = Act_created \<and> er_success r then [er_streamId r] else [])"
    using event_announces [OF r] Cons.prems(2) x by simp
  from announces_trans [OF this Cons.IH [OF rs(1)]] Cons.prems(2) show ?case
    by (cases "er_action r = Act_created \<and> er_success r") (auto simp: rs(2))
qed (simp add: announces_def)

text \<open>(C6) A stream is announced once, when its row is inserted. Whatever the cache answers and whichever database calls fail, processing a batch of
  events adds to the table exactly the streams that it reports as created and exactly those are announced as created, in that order;
  every other row keeps its identifier, event and, up to permitted transitions, its status. If identifiers and events were unique before,
  they are after, so that no stream is announced twice and none that was already there.\<close>

theorem announced_once:
  assumes "process_events add hash xs st = (rs, st')" and "\<forall>(e, event)\<in>set xs. ie_hub e" and "table_wf (ig_rows st)"
  defines "new \<equiv> map er_streamId (filter (\<lambda>r. er_action r = Act_created \<and> er_success r) rs)"
  shows "map sr_id (ig_rows st') = map sr_id (ig_rows st) @ new \<and>
     created_ids (ig_broadcasts st') = created_ids (ig_broadcasts st) @ new \<and>
     table_follows (ig_rows st) (ig_rows st') \<and> table_wf (ig_rows st') \<and> distinct new \<and> set new \<inter> sr_id ` set (ig_rows st) = {}"
proof -
  have a: "map sr_id (ig_rows st') = map sr_id (ig_rows st) @ new"
    "created_ids (ig_broadcasts st') = created_ids (ig_broadcasts st) @ new" "table_follows (ig_rows st) (ig_rows st')"
    using events_announce [OF assms(1,2)] by (auto simp: announces_def new_def)
  then have "table_wf (ig_rows st')" using assms(3) by (simp add: table_follows_def)
  moreover from this have "distinct (map sr_id (ig_rows st) @ new)" using a(1) by (simp add: table_wf_def)
  ultimately show ?thesis using a by auto
qed

definition demo_created :: StreamEvent where
  "demo_created = StreamCreated \<lparr>ce_contractId = ''c'', ce_transactionHash = ''h'', ce_eventIndex = 2, ce_sender = ''s'', ce_recipient = ''r'',
     ce_amount = ''10'', ce_ratePerSecond = ''1'', ce_startTime = 0, ce_endTime = 0\<rparr>"

definition demo_updated :: StreamEvent where
  "demo_updated = StreamUpdated \<lparr>ue_transactionHash = ''h'', ue_eventIndex = 3, ue_streamId = ''h-2'', ue_streamedAmount = Some ''4'',
     ue_remainingAmount = Some ''6'', ue_status = None, ue_endTime = None\<rparr>"

definition demo_ingest_env :: "stream_row list \<Rightarrow> millis \<Rightarrow> ingest_env" where
  "demo_ingest_env replica now = \<lparr>ie_now = now, ie_keys = Inr \<lparr>pk_current = ''k'', pk_previous = None\<rparr>, ie_hub = True, ie_insert_ok = True,
     ie_afterConflict = Some replica, ie_afterConflict' = Some replica, ie_replica = Some replica, ie_primary_ok = True,
     ie_update_ok = True, ie_exists_ok = True\<rparr>"

definition demo_ingest :: "(unit, InMemoryDedupCache) HybridDedupCache ingest" where
  "demo_ingest = \<lparr>ig_rows = [], ig_dedup = demo_hybrid, ig_broadcasts = []\<rparr>"

abbreviation demo_add :: "(unit, InMemoryDedupCache) HybridDedupCache dedup_add" where
  "demo_add \<equiv> hybrid_add down_ops mem_has mem_add True"

text \<open>The event is delivered twice, the second time when the first has left the cache.\<close>

definition demo_twice :: "EventIngestionResult list \<times> (unit, InMemoryDedupCache) HybridDedupCache ingest" where
  "demo_twice = process_events demo_add (\<lambda>k a. a) [(demo_ingest_env [] 0, demo_created),
     (demo_ingest_env [demo_stream ''h-2'' ''s''] 90000000, demo_created)] demo_ingest"

theorem announced_once_witness:
  "map er_action (fst demo_twice) = [Act_created, Act_ignored] \<and> created_ids (ig_broadcasts (snd demo_twice)) = [''h-2'']"
proof -
  have d: "process_events demo_add (\<lambda>k a. a) [(demo_ingest_env [] 0, demo_created),
      (demo_ingest_env [demo_stream ''h-2'' ''s''] 90000000, demo_created)] demo_ingest = (fst demo_twice, snd demo_twice)"
    by (simp add: demo_twice_def)
  have h: "\<forall>(e, event)\<in>set [(demo_ingest_env [] 0, demo_created), (demo_ingest_env [demo_stream ''h-2'' ''s''] 90000000, demo_created)]. ie_hub e"
    by (simp add: demo_ingest_env_def)
  have w: "table_wf (ig_rows demo_ingest)" by (simp add: table_wf_def demo_ingest_def)
  have m: "map er_action (fst demo_twice) = [Act_created, Act_ignored]" "map er_streamId (filter (\<lambda>r. er_action r = Act_created \<and> er_success r) (fst demo_twice)) = [''h-2'']"
    by code_simp+
  show ?thesis using announced_once [OF d h w] m by (simp add: demo_ingest_def created_ids_def)
qed

section \<open>The published shape\<close>

definition published :: "broadcast_message \<Rightarrow> bool" where
  "published m \<longleftrightarrow>
     (case map_get (bm_payload m) ''event'' of
        Some (JString t) \<Rightarrow>
          (case map_get WEBHOOK_PAYLOAD_SCHEMAS t of
             Some sch \<Rightarrow> set (ps_required sch) \<subseteq> fst ` set (bm_payload m) \<and> distinct (map fst (bm_payload m)) \<and>
               fst ` set (bm_payload m) \<subseteq> set (ps_required sch @ ps_optional sch)
           | None \<Rightarrow> False)
      | _ \<Rightarrow> False)"

lemma published_created: "published \<lparr>bm_streamId = s, bm_eventId = i, bm_recipientAddress = a, bm_payload = created_payload input\<rparr>"
  by (simp add: published_def WEBHOOK_PAYLOAD_SCHEMAS_def) (simp add: created_payload_def envelopeFields_def)

lemma published_updated: "published \<lparr>bm_streamId = s, bm_eventId = i, bm_recipientAddress = a,
    bm_payload = update_members u @ [(''event'', JString ''stream.updated''), (''schema_version'', v)]\<rparr>"
  by (simp add: published_def members_no_event map_add_def WEBHOOK_PAYLOAD_SCHEMAS_def)
     (auto simp: update_members_def member_of_def envelopeFields_def split: option.splits)

lemma published_cancelled: "published \<lparr>bm_streamId = s, bm_eventId = i, bm_recipientAddress = a,
    bm_payload = [(''status'', w), (''event'', JString ''stream.cancelled''), (''schema_version'', v)]\<rparr>"
  by (simp add: published_def WEBHOOK_PAYLOAD_SCHEMAS_def envelopeFields_def)

lemma event_published:
  assumes "processEvent add hash e event st = (r, st')" "m \<in> set (ig_broadcasts st')"
  shows "m \<in> set (ig_broadcasts st) \<or> published m"
proof (cases event)
  case (StreamCreated ev)
  then show ?thesis using assms published_created
    by (fastforce simp: processEvent_def processStreamCreated_def isDuplicateEvent_def Let_def split: if_splits prod.splits sum.splits)
next
  case (StreamUpdated ev)
  then show ?thesis using assms published_updated
    by (fastforce simp: processEvent_def processStreamUpdated_def isDuplicateEvent_def Let_def split: if_splits prod.splits sum.splits option.splits)
next
  case (StreamCancelled ev)
  then show ?thesis using assms published_cancelled
    by (fastforce simp: processEvent_def processStreamCancelled_def isDuplicateEvent_def Let_def split: if_splits prod.splits sum.splits)
qed

lemma events_published:
  "process_events add hash xs st = (rs, st') \<Longrightarrow> m \<in> set (ig_broadcasts st') \<Longrightarrow> m \<in> set (ig_broadcasts st) \<or> published m"
proof (induction xs arbitrary: st rs)
  case (Cons x xs)
  obtain e event where x: "x = (e, event)" by (cases x)
  obtain r st1 where r: "processEvent add hash e event st = (r, st1)" by fastforce
  then obtain rs' where "process_events add hash xs st1 = (rs', st')"
    using Cons.prems(1) x by (auto split: prod.splits)
  with Cons.IH Cons.prems(2) event_published [OF r] show ?case by blast
qed simp

text \<open>(C31) What is broadcast has the published shape. Every message that processing a batch hands to the hub names a published event type, has
  each member at most once, has all the members that the schema of its type requires and no member that the schema does not name.\<close>

theorem broadcast_published:
  assumes "process_events add hash xs st = (rs, st')" and "m \<in> set (ig_broadcasts st')" and "m \<notin> set (ig_broadcasts st)"
  shows "published m"
  using events_published [OF assms(1,2)] assms(3) by blast

theorem broadcast_published_witness:
  "ig_broadcasts (snd demo_twice) \<noteq> [] \<and> published (hd (ig_broadcasts (snd demo_twice)))"
proof -
  have d: "process_events demo_add (\<lambda>k a. a) [(demo_ingest_env [] 0, demo_created),
      (demo_ingest_env [demo_stream ''h-2'' ''s''] 90000000, demo_created)] demo_ingest = (fst demo_twice, snd demo_twice)"
    by (simp add: demo_twice_def)
  have n: "ig_broadcasts (snd demo_twice) \<noteq> []" by code_simp
  then show ?thesis using broadcast_published [OF d hd_in_set [OF n]] by (simp add: demo_ingest_def)
qed

section \<open>Events that failed\<close>

context dedup_cache
begin

lemma failed_dropped:
  assumes "ok (ig_dedup st)" "processEvent add hash e event st = (r, st1)" "\<not> er_success r"
    and "process_events add hash xs st1 = (rs, st2)" "length xs < capacity"
    and "\<forall>(e', event')\<in>set xs. ie_now e' < ie_now e + window" "ie_now e2 < ie_now e + window"
  shows "\<exists>d. processEvent add hash e2 event st2 = (ignored (snd (event_key event)) (fst (event_key event)), st2\<lparr>ig_dedup := d\<rparr>)"
proof -
  let ?s = "fst (event_key event)" and ?i = "snd (event_key event)"
  let ?xs = "map (\<lambda>(e, event). (fst (event_key event), snd (event_key event), ie_now e)) xs"
  have a: "fst (add (ig_dedup st) ?s ?i (ie_now e))"
    using assms(2,3) process_duplicate [of add st event e hash] by (cases "fst (add (ig_dedup st) ?s ?i (ie_now e))") (auto simp: ignored_def)
  have "ig_dedup st1 = snd (add (ig_dedup st) ?s ?i (ie_now e))" using process_dedup [of add hash e event st] assms(2) by simp
  then have d: "ig_dedup st2 = foldl (\<lambda>c (s, i, t). snd (add c s i t)) (snd (add (ig_dedup st) ?s ?i (ie_now e))) ?xs"
    using process_events_dedup [of add hash xs st1] assms(4) by simp
  have "\<not> fst (add (ig_dedup st2) ?s ?i (ie_now e2))" unfolding d
    by (rule at_most_once [OF assms(1) a]) (use assms(5-7) in auto)
  from process_duplicate [of add st2 event e2 hash, OF this] show ?thesis by blast
qed

end


text \<open>An update overtakes the creation of its stream and is delivered again: the amounts stay those of the creation.\<close>

definition demo_early :: "EventIngestionResult \<times> (unit, InMemoryDedupCache) HybridDedupCache ingest" where
  "demo_early = processEvent demo_add (\<lambda>k a. a) (demo_ingest_env [] 0) demo_updated demo_ingest"

definition demo_later :: "EventIngestionResult list \<times> (unit, InMemoryDedupCache) HybridDedupCache ingest" where
  "demo_later = process_events demo_add (\<lambda>k a. a) [(demo_ingest_env [] 1, demo_created)] (snd demo_early)"


end
