(* ===== verification/Ssrf_Guard.thy ===== *)
theory Ssrf_Guard
  imports Ip_Text "HOL-Library.Word"
begin

unbundle bit_operations_syntax

text \<open>
  The guard of webhook targets, \<open>src/webhooks/ssrfGuard.ts\<close>: the readers of IPv4 and IPv6 addresses, the blocked ranges, the allowlist and
  the validation of an address and of a URL.

  A \<open>bigint\<close> is an \<open>int\<close>. A function that throws has a result \<open>string + 'a\<close>, the left side the message. \<open>isIP\<close> of \<open>node:net\<close>, the
  URL parser and the resolver are arguments; the resolver may answer differently each time it is asked, so its answers are
  numbered and a validation carries the number of the next one.

  The lemmas: the range table is a list of CIDR blocks; an address is refused exactly when it lies in one of them, however it
  is spelt; nothing that the guard accepts, well-formed or not, is read as a blocked address; the allowlist.
\<close>

section \<open>Reading addresses\<close>

definition MAX_WEBHOOK_URL_LENGTH :: nat where "MAX_WEBHOOK_URL_LENGTH = 2048"
definition MAX_IP_ADDRESS_LENGTH :: nat where "MAX_IP_ADDRESS_LENGTH = 256"

text \<open>\<open>s.replace(/^\[|\]$/g, '')\<close>.\<close>

definition strip_brackets :: "string \<Rightarrow> string" where
  "strip_brackets s =
     (let t = (if s \<noteq> [] \<and> hd s = CHR ''['' then tl s else s)
      in if t \<noteq> [] \<and> last t = CHR '']'' then butlast t else t)"

fun octets_value :: "int list \<Rightarrow> int \<Rightarrow> string + int" where
  "octets_value [] result = Inr result"
| "octets_value (part # parts) result =
     (if part < 0 \<or> part > 255 then Inl (''Invalid IPv4 octet: '' @ show_int part)
      else octets_value parts (push_bit 8 result + part))"

definition ipv4ToBigInt :: "string \<Rightarrow> string + int" where
  "ipv4ToBigInt ip =
     (let parts = map js_parse_int (split_on (CHR ''.'') ip)
      in if length parts \<noteq> 4 \<or> list_ex (\<lambda>p. p = None) parts then Inl (''Invalid IPv4 address: '' @ ip)
         else octets_value (map the parts) 0)"

text \<open>\<open>normalized.match(/^(.*:)(\d+\.\d+\.\d+\.\d+)$/)\<close>: the text up to its last colon, and a dotted rest.\<close>

definition v4_match :: "string \<Rightarrow> (string \<times> string) option" where
  "v4_match s =
     (let rest = rev (takeWhile (\<lambda>c. c \<noteq> CHR '':'') (rev s)); before = take (length s - length rest) s; ds = split_on (CHR ''.'') rest
      in if before \<noteq> [] \<and> list_all (\<lambda>c. (of_char c :: nat) \<notin> {10, 13}) before \<and>
            length ds = 4 \<and> list_all (\<lambda>d. d \<noteq> [] \<and> list_all is_digit d) ds
         then Some (before, rest) else None)"

fun sections_value :: "string list \<Rightarrow> int \<Rightarrow> string + int" where
  "sections_value [] result = Inr result"
| "sections_value (section # sections) result =
     (if section = [] then Inl ''Invalid IPv6 address (empty section)''
      else let v = int (group_val section)
           in if v < 0 \<or> v > 0xffff then Inl (''Invalid IPv6 section: '' @ section)
              else sections_value sections (push_bit 16 result + v))"

definition colon_parts :: "string \<Rightarrow> string list" where
  "colon_parts s = (if s = [] then [] else split_on (CHR '':'') s)"

text \<open>\<open>Array(n)\<close> throws when \<open>n\<close> is negative.\<close>

definition expand_sections :: "string list \<Rightarrow> string + string list" where
  "expand_sections compressed =
     (let left = colon_parts (compressed ! 0); right = (if length compressed = 2 then colon_parts (compressed ! 1) else [])
      in if length compressed = 2
         then if 8 < length left + length right then Inl ''Invalid array length''
              else Inr (left @ replicate (8 - length left - length right) ''0'' @ right)
         else Inr left)"

definition ipv6_sections :: "string \<Rightarrow> string \<Rightarrow> string + int" where
  "ipv6_sections ip normalized =
     (let compressed = split_double_colon normalized; invalid = Inl (''Invalid IPv6 address: '' @ ip)
      in if 2 < length compressed then invalid
         else case expand_sections compressed of
                Inl e \<Rightarrow> Inl e
              | Inr sections \<Rightarrow>
                  if length sections \<noteq> 8 \<or> list_ex (\<lambda>s. \<not> hex_group s) sections then invalid
                  else sections_value sections 0)"

definition ipv6ToBigInt :: "string \<Rightarrow> string + int" where
  "ipv6ToBigInt ip =
     (let lower = map to_lower (strip_brackets ip)
      in case v4_match lower of
           None \<Rightarrow> ipv6_sections ip lower
         | Some (before, dotted) \<Rightarrow>
             (case ipv4ToBigInt dotted of
                Inl e \<Rightarrow> Inl e
              | Inr v4 \<Rightarrow> ipv6_sections ip (before @ show_hex_nat (nat (drop_bit 16 v4)) @ '':'' @ show_hex_nat (nat (v4 AND 0xffff)))))"

section \<open>Blocked ranges\<close>

record IPRange =
  rg_name :: string
  rg_start :: int
  rg_end :: int
  rg_description :: string

text \<open>The table is built when the module is loaded; \<open>blocked_ranges_numbers\<close> below shows that every text in it is read.\<close>

definition loaded :: "string + int \<Rightarrow> int" where
  "loaded r = (case r of Inl _ \<Rightarrow> 0 | Inr v \<Rightarrow> v)"

definition ip_range :: "string \<Rightarrow> string \<Rightarrow> string \<Rightarrow> string \<Rightarrow> IPRange" where
  "ip_range name s e description =
     \<lparr>rg_name = name, rg_start = loaded (ipv4ToBigInt s), rg_end = loaded (ipv4ToBigInt e), rg_description = description\<rparr>"

definition BLOCKED_RANGES :: "IPRange list" where
  "BLOCKED_RANGES =
     [ip_range ''loopback'' ''127.0.0.0'' ''127.255.255.255'' ''Loopback addresses (127.0.0.0/8)'',
      ip_range ''link-local'' ''169.254.0.0'' ''169.254.255.255'' ''Link-local addresses (169.254.0.0/16)'',
      ip_range ''private-10'' ''10.0.0.0'' ''10.255.255.255'' ''Private network (10.0.0.0/8)'',
      ip_range ''private-172'' ''172.16.0.0'' ''172.31.255.255'' ''Private network (172.16.0.0/12)'',
      ip_range ''private-192'' ''192.168.0.0'' ''192.168.255.255'' ''Private network (192.168.0.0/16)'',
      ip_range ''reserved-0'' ''0.0.0.0'' ''0.255.255.255'' ''Reserved addresses (0.0.0.0/8)'',
      ip_range ''reserved-240'' ''240.0.0.0'' ''255.255.255.255'' ''Reserved addresses (240.0.0.0/4)'',
      ip_range ''multicast'' ''224.0.0.0'' ''239.255.255.255'' ''Multicast addresses (224.0.0.0/4)'']"

text \<open>\<open>{ blocked, reason }\<close>: the reason where the address is blocked.\<close>

definition isBlockedIPv4 :: "string \<Rightarrow> string option" where
  "isBlockedIPv4 ip =
     (case ipv4ToBigInt ip of
        Inl _ \<Rightarrow> Some ''Unparseable IPv4 address''
      | Inr v \<Rightarrow> map_option rg_description (find (\<lambda>range. v \<ge> rg_start range \<and> v \<le> rg_end range) BLOCKED_RANGES))"

definition mapped_ipv4 :: "int \<Rightarrow> string" where
  "mapped_ipv4 v = join ''.'' (map (\<lambda>k. show_int (drop_bit k v AND 0xff)) [24, 16, 8, 0])"

definition isBlockedIPv6 :: "string \<Rightarrow> string option" where
  "isBlockedIPv6 ip =
     (case ipv6ToBigInt ip of
        Inl _ \<Rightarrow> Some ''Unparseable IPv6 address''
      | Inr v \<Rightarrow>
          if v = 0 then Some ''IPv6 unspecified address''
          else if v = 1 then Some ''IPv6 loopback address''
          else if drop_bit 32 v = 0xffff then isBlockedIPv4 (mapped_ipv4 v)
          else if drop_bit 118 v = 0x3fa then Some ''IPv6 link-local address''
          else if drop_bit 121 v = 0x7e then Some ''IPv6 unique local address (private)''
          else None)"

section \<open>Validation\<close>

definition validateWebhookIPAddress :: "(string \<Rightarrow> nat) \<Rightarrow> jsval \<Rightarrow> string + unit" where
  "validateWebhookIPAddress isIP ip =
     (case ip of
        JString s \<Rightarrow>
          if js_trim s = [] then Inl ''IP address cannot be empty''
          else if MAX_IP_ADDRESS_LENGTH < length s then Inl ''IP address exceeds maximum length of 256 characters''
          else let normalizedIp = strip_brackets (js_trim s)
               in if isIP normalizedIp = 6
                  then (case isBlockedIPv6 normalizedIp of
                          Some reason \<Rightarrow> Inl (''Blocked IPv6 address: '' @ normalizedIp @ '' ('' @ reason @ '')'')
                        | None \<Rightarrow> Inr ())
                  else if isIP normalizedIp = 4
                  then (case isBlockedIPv4 normalizedIp of
                          Some reason \<Rightarrow> Inl (''Blocked IPv4 address: '' @ normalizedIp @ '' ('' @ reason @ '')'')
                        | None \<Rightarrow> Inr ())
                  else Inl (''Unparseable IP address: '' @ s)
      | _ \<Rightarrow> Inl ''IP address must be a string'')"

record URL =
  u_href :: string
  u_protocol :: string
  u_hostname :: string

definition validateProtocol :: "URL \<Rightarrow> bool \<Rightarrow> string + unit" where
  "validateProtocol url requireHttps =
     (if requireHttps \<and> u_protocol url \<noteq> ''https:'' then Inl (''Webhook URL must use HTTPS, got: '' @ u_protocol url)
      else if u_protocol url \<noteq> ''http:'' \<and> u_protocol url \<noteq> ''https:''
      then Inl (''Webhook URL must use HTTP or HTTPS, got: '' @ u_protocol url)
      else Inr ())"

definition js_falsy :: "jsval \<Rightarrow> bool" where
  "js_falsy v \<longleftrightarrow>
     (case v of JUndefined \<Rightarrow> True | JNull \<Rightarrow> True | JBool b \<Rightarrow> \<not> b | JNumber n \<Rightarrow> n = NaN \<or> n = Finite 0 | JBigInt i \<Rightarrow> i = 0
      | JString s \<Rightarrow> s = [] | JArray _ \<Rightarrow> False | JObject _ \<Rightarrow> False)"

definition ends_with :: "string \<Rightarrow> string \<Rightarrow> bool" where
  "ends_with t s \<longleftrightarrow> length t \<le> length s \<and> drop (length s - length t) s = t"

text \<open>One entry of the allowlist, in lower case, against a host name in lower case.\<close>

definition entry_matches :: "string \<Rightarrow> string \<Rightarrow> bool" where
  "entry_matches normalizedAllowed normalizedHostname \<longleftrightarrow>
     normalizedAllowed = normalizedHostname \<or>
     starts_with ''*.'' normalizedAllowed \<and>
       (let domain = drop 2 normalizedAllowed
        in normalizedHostname = domain \<or> ends_with (''.'' @ domain) normalizedHostname)"

fun allow_loop :: "string \<Rightarrow> jsval list \<Rightarrow> string + bool" where
  "allow_loop host [] = Inr False"
| "allow_loop host (JString allowed # rest) =
     (if js_trim allowed = [] then Inl ''Allowlist entries must be non-empty strings''
      else if entry_matches (map to_lower allowed) host then Inr True
      else allow_loop host rest)"
| "allow_loop host (_ # rest) = Inl ''Allowlist entries must be non-empty strings''"

definition validateAllowlist :: "string \<Rightarrow> jsval \<Rightarrow> string + unit" where
  "validateAllowlist hostname allowlist =
     (if js_falsy allowlist \<or> allowlist = JArray [] \<or> js_get allowlist ''length'' = JNumber (Finite 0) then Inr ()
      else case allowlist of
             JArray entries \<Rightarrow>
               (case allow_loop (map to_lower hostname) entries of
                  Inl e \<Rightarrow> Inl e
                | Inr True \<Rightarrow> Inr ()
                | Inr False \<Rightarrow> Inl (''Webhook hostname not in allowlist: '' @ hostname))
           | _ \<Rightarrow> Inl ''Allowlist must be an array of hostnames'')"

text \<open>The platform: \<open>isIP\<close>, \<open>new URL(s)\<close>, \<open>new URL(location, base).toString()\<close> and the answers of the resolver, the \<open>k\<close>-th of them
  to a question for one address and for all addresses of a host.\<close>

record platform =
  pf_isIP :: "string \<Rightarrow> nat"
  pf_URL :: "string \<Rightarrow> URL option"
  pf_resolve :: "string \<Rightarrow> string \<Rightarrow> string option"
  pf_dns_one :: "nat \<Rightarrow> string \<Rightarrow> string option"
  pf_dns_all :: "nat \<Rightarrow> string \<Rightarrow> string list option"

definition resolveHostname :: "platform \<Rightarrow> nat \<Rightarrow> string \<Rightarrow> string + string list" where
  "resolveHostname pf k hostname =
     (case pf_dns_one pf k hostname of
        Some address \<Rightarrow> Inr [address]
      | None \<Rightarrow> Inl (''DNS resolution failed for hostname: '' @ hostname))"

fun validate_addresses :: "platform \<Rightarrow> string list \<Rightarrow> string + unit" where
  "validate_addresses pf [] = Inr ()"
| "validate_addresses pf (ip # ips) =
     (case validateWebhookIPAddress (pf_isIP pf) (JString ip) of Inl e \<Rightarrow> Inl e | Inr _ \<Rightarrow> validate_addresses pf ips)"

record target_options =
  to_requireHttps :: "bool option"
  to_allowlist :: jsval

text \<open>The options are an object or absent, as their type says. The second component is the number of the next answer.\<close>

definition validateWebhookTarget ::
  "platform \<Rightarrow> nat \<Rightarrow> jsval \<Rightarrow> target_options option \<Rightarrow> (string + unit) \<times> nat" where
  "validateWebhookTarget pf k url options =
     (let requireHttps = nullish (case options of None \<Rightarrow> None | Some opts \<Rightarrow> to_requireHttps opts) True;
          allowlist = (case options of None \<Rightarrow> JUndefined | Some opts \<Rightarrow> to_allowlist opts)
      in case url of
           JString text \<Rightarrow>
             if js_trim text = [] then (Inl ''Webhook URL cannot be empty'', k)
             else if MAX_WEBHOOK_URL_LENGTH < length text then (Inl ''Webhook URL exceeds maximum length of 2048 characters'', k)
             else (case pf_URL pf (js_trim text) of
                     None \<Rightarrow> (Inl (''Invalid webhook URL format: '' @ text), k)
                   | Some parsedUrl \<Rightarrow>
                       (case validateProtocol parsedUrl requireHttps of
                          Inl e \<Rightarrow> (Inl e, k)
                        | Inr _ \<Rightarrow>
                            let hostname = u_hostname parsedUrl
                            in if js_trim hostname = [] then (Inl ''Webhook URL must include a valid hostname'', k)
                               else (case validateAllowlist hostname allowlist of
                                       Inl e \<Rightarrow> (Inl e, k)
                                     | Inr _ \<Rightarrow>
                                         if pf_isIP pf (strip_brackets hostname) \<noteq> 0
                                         then (validateWebhookIPAddress (pf_isIP pf) (JString hostname), k)
                                         else (case resolveHostname pf k hostname of
                                                 Inl e \<Rightarrow> (Inl e, Suc k)
                                               | Inr resolvedIPs \<Rightarrow> (validate_addresses pf resolvedIPs, Suc k)))))
         | _ \<Rightarrow> (Inl ''Webhook URL must be a string'', k))"

section \<open>The ranges as blocks\<close>

text \<open>\<open>in_block w net len\<close>: \<open>w\<close> lies in \<open>net/len\<close>. \<open>public4\<close> and \<open>public6\<close> are what the documentation of the guard promises of an address.\<close>

definition in_block :: "'a::len word \<Rightarrow> 'a word \<Rightarrow> nat \<Rightarrow> bool" where
  "in_block w net len \<longleftrightarrow> drop_bit (LENGTH('a) - len) w = drop_bit (LENGTH('a) - len) net"

definition BLOCKED_V4 :: "(32 word \<times> nat) list" where
  "BLOCKED_V4 =
     [(0x7f000000, 8), (0xa9fe0000, 16), (0x0a000000, 8), (0xac100000, 12), (0xc0a80000, 16), (0, 8), (0xf0000000, 4), (0xe0000000, 4)]"

definition public4 :: "32 word \<Rightarrow> bool" where
  "public4 w \<longleftrightarrow> list_all (\<lambda>(net, len). \<not> in_block w net len) BLOCKED_V4"

definition public6 :: "128 word \<Rightarrow> bool" where
  "public6 w \<longleftrightarrow> w \<noteq> 0 \<and> w \<noteq> 1 \<and>
     (if in_block w 0xffff00000000 96 then public4 (ucast w)
      else \<not> in_block w (push_bit 112 0xfe80) 10 \<and> \<not> in_block w (push_bit 112 0xfc00) 7)"

definition dotted :: "32 word \<Rightarrow> string" where
  "dotted w = join ''.'' (map (\<lambda>k. show_nat (unat (take_bit 8 (drop_bit k w)))) [24, 16, 8, 0])"

lemma blocked_ranges_numbers:
  "map (\<lambda>r. (rg_start r, rg_end r)) BLOCKED_RANGES =
     [(0x7f000000, 0x7fffffff), (0xa9fe0000, 0xa9feffff), (0x0a000000, 0x0affffff), (0xac100000, 0xac1fffff),
      (0xc0a80000, 0xc0a8ffff), (0, 0x00ffffff), (0xf0000000, 0xffffffff), (0xe0000000, 0xefffffff)]"
  by code_simp

lemma digits_no_dot: "list_all is_digit s \<Longrightarrow> CHR ''.'' \<notin> set s"
  by (auto simp: list_all_iff is_digit_def)

lemma show_nat_no_dot [simp]: "CHR ''.'' \<notin> set (show_nat n)"
  by (rule digits_no_dot) (rule show_nat_digits)

lemma split_dots: "ds \<noteq> [] \<Longrightarrow> split_on (CHR ''.'') (join ''.'' (map show_nat ds)) = map show_nat ds"
  by (rule split_on_join) auto

lemma ipv4_dots:
  assumes "a < 256" "b < 256" "c < 256" "d < 256"
  shows "ipv4ToBigInt (join ''.'' (map show_nat [a, b, c, d])) = Inr (((int a * 256 + int b) * 256 + int c) * 256 + int d)"
proof -
  have s: "split_on (CHR ''.'') (join ''.'' (map show_nat [a, b, c, d])) = map show_nat [a, b, c, d]" by (rule split_dots) simp
  show ?thesis using assms unfolding ipv4ToBigInt_def Let_def s by (simp add: parse_show_nat push_bit_eq_mult)
qed

lemma split_base: "0 < b \<Longrightarrow> n div b * b + n mod b = (n :: int)"
  by simp

lemma word_bytes: "((n div 16777216 mod 256 * 256 + n div 65536 mod 256) * 256 + n div 256 mod 256) * 256 + n mod 256 = (n :: int)"
  if "0 \<le> n" "n < 4294967296"
proof -
  have d: "n div 65536 = n div 256 div 256" "n div 16777216 = n div 256 div 256 div 256"
    by (simp_all flip: zdiv_zmult2_eq)
  have "n div 256 div 256 div 256 < 256" using that by linarith
  then have "n div 256 div 256 div 256 mod 256 = n div 256 div 256 div 256" using that by simp
  then show ?thesis by (simp only: d split_base)
qed

lemma dotted_bytes: "dotted w = join ''.'' (map show_nat (map (\<lambda>k. unat w div 2 ^ k mod 256) [24, 16, 8, 0]))"
proof -
  have "unat (take_bit 8 (drop_bit k w)) = unat w div 2 ^ k mod 256" for k
    unfolding unsigned_take_bit_eq unat_drop_bit_eq by (simp add: drop_bit_eq_div take_bit_eq_mod)
  then show ?thesis by (simp only: dotted_def list.map)
qed

lemma unat_less: "int (unat (w :: 32 word)) < 4294967296"
  using unsigned_less [of w, where 'a = int] by simp

lemma ipv4_dotted: "ipv4ToBigInt (dotted w) = Inr (int (unat w))"
proof -
  let ?b = "\<lambda>k. unat w div 2 ^ k mod 256"
  have "ipv4ToBigInt (dotted w) = Inr (((int (?b 24) * 256 + int (?b 16)) * 256 + int (?b 8)) * 256 + int (?b 0))"
    unfolding dotted_bytes list.map by (rule ipv4_dots [unfolded list.map]) simp_all
  moreover have "(2 :: nat) ^ 24 = 16777216" "(2 :: nat) ^ 16 = 65536" "(2 :: nat) ^ 8 = 256" "(2 :: nat) ^ 0 = 1" by simp_all
  ultimately show ?thesis using word_bytes [OF of_nat_0_le_iff unat_less, of w]
    by (simp only: zdiv_int zmod_int of_nat_numeral of_nat_1 div_by_1)
qed

lemma blocked_find:
  "find (\<lambda>range. v \<ge> rg_start range \<and> v \<le> rg_end range) rs = None \<longleftrightarrow> list_all (\<lambda>(s, e). \<not> (s \<le> v \<and> v \<le> e)) (map (\<lambda>r. (rg_start r, rg_end r)) rs)"
  by (induction rs) auto

lemma in_block_unat:
  "in_block w net len \<longleftrightarrow> int (unat w) div 2 ^ (LENGTH('a) - len) = int (unat net) div 2 ^ (LENGTH('a) - len)" for w :: "'a::len word"
proof -
  have "in_block w net len \<longleftrightarrow> unat w div 2 ^ (LENGTH('a) - len) = unat net div 2 ^ (LENGTH('a) - len)"
    unfolding in_block_def word_eq_iff_unsigned [where 'a = nat] unat_drop_bit_eq by (simp only: drop_bit_eq_div)
  also have "\<dots> \<longleftrightarrow> int (unat w div 2 ^ (LENGTH('a) - len)) = int (unat net div 2 ^ (LENGTH('a) - len))" by (simp only: of_nat_eq_iff)
  finally show ?thesis by (simp only: zdiv_int of_nat_power of_nat_numeral)
qed

lemma div_range: "0 < d \<Longrightarrow> v div d = m \<longleftrightarrow> m * d \<le> v \<and> v \<le> m * d + d - (1 :: int)"
proof
  assume d: "0 < d" and v: "v div d = m"
  have "v = m * d + v mod d" using v by (metis div_mult_mod_eq)
  then show "m * d \<le> v \<and> v \<le> m * d + d - 1" using d pos_mod_bound [of d v] pos_mod_sign [of d v] by linarith
next
  assume d: "0 < d" and r: "m * d \<le> v \<and> v \<le> m * d + d - 1"
  then have "v = m * d + (v - m * d)" "0 \<le> v - m * d" "v - m * d < d" by simp_all
  then show "v div d = m" using d by (metis div_mult_self3 div_pos_pos_trivial add.left_neutral add.commute less_irrefl)
qed

lemma blocked_value:
  "find (\<lambda>range. int (unat w) \<ge> rg_start range \<and> int (unat w) \<le> rg_end range) BLOCKED_RANGES = None \<longleftrightarrow> public4 w"
  unfolding blocked_find blocked_ranges_numbers public4_def BLOCKED_V4_def list.map list.pred_inject split in_block_unat
  using unat_less [of w] by (simp add: div_range del: of_nat_unat)

lemma ipv4_exact: "isBlockedIPv4 (dotted w) = None \<longleftrightarrow> public4 w"
  by (simp add: isBlockedIPv4_def ipv4_dotted blocked_value del: of_nat_unat)

section \<open>IPv6 texts\<close>

text \<open>The last two groups may be written as an IPv4 address.\<close>

inductive ipv6_written :: "string \<Rightarrow> nat list \<Rightarrow> bool" where
  plain: "ipv6_text s a \<Longrightarrow> ipv6_written s a"
| mixed: "ipv6_text (p @ '':'' @ show_hex_nat (unat w div 65536) @ '':'' @ show_hex_nat (unat w mod 65536)) a \<Longrightarrow>
    ipv6_written (p @ '':'' @ dotted w) a"

definition addr_value :: "nat list \<Rightarrow> int" where
  "addr_value a = foldl (\<lambda>r g. r * 65536 + int g) 0 a"

lemma group_val_lower: "list_all is_hex g \<Longrightarrow> group_val (map to_lower g) = group_val g"
proof -
  have "hex_val (to_lower c) = hex_val c" if "is_hex c" for c
    using to_lower_hex [OF that] of_char_hex_digit [OF hex_val_less [OF that]] hex_val_less [OF that] by (simp add: hex_val_def Let_def)
  then have "list_all is_hex g \<Longrightarrow> foldl (\<lambda>a c. 16 * a + hex_val c) r (map to_lower g) = foldl (\<lambda>a c. 16 * a + hex_val c) r g" for r
    by (induction g arbitrary: r) simp_all
  then show "list_all is_hex g \<Longrightarrow> ?thesis" by (simp add: group_val_def)
qed

lemma group_vals_lower: "list_all hex_group gs \<Longrightarrow> map group_val (map (map to_lower) gs) = map group_val gs"
  by (auto simp: list_all_iff hex_group_def group_val_lower)

lemma hex_digit_hex: "d < 16 \<Longrightarrow> is_hex (hex_digit d) \<and> hex_val (hex_digit d) = d"
  by (auto simp: is_hex_def hex_val_def of_char_hex_digit Let_def)

lemma show_hex_group: "list_all is_hex (show_hex_nat n) \<and> group_val (show_hex_nat n) = n"
proof (induction n rule: show_hex_nat.induct)
  case (1 n)
  show ?case
  proof (cases "n < 16")
    case True
    then show ?thesis by (simp add: show_hex_nat.simps [of n] group_val_def hex_digit_hex)
  next
    case False
    then show ?thesis using 1 by (simp add: show_hex_nat.simps [of n] group_val_def hex_digit_hex)
  qed
qed

lemma sections_value_groups:
  "list_all hex_group gs \<Longrightarrow> sections_value gs r = Inr (foldl (\<lambda>r g. r * 65536 + int g) r (map group_val gs))"
proof (induction gs arbitrary: r)
  case (Cons g gs)
  then have "g \<noteq> []" "group_val g < 65536" using group_val_less by (auto simp: hex_group_def)
  then show ?case using Cons by (simp add: push_bit_eq_mult)
qed simp

lemma colon_parts_join: "list_all hex_group gs \<Longrightarrow> colon_parts (join '':'' gs) = gs"
proof (cases "gs = []")
  case False
  assume g: "list_all hex_group gs"
  then have "split_on (CHR '':'') (join '':'' gs) = gs" using False hex_group_word by (intro split_on_join) (auto simp: list_all_iff)
  moreover have "join '':'' gs \<noteq> []" using g False by (cases gs rule: remdups_adj.cases) (auto simp: hex_group_def)
  ultimately show ?thesis by (simp add: colon_parts_def)
qed (simp add: colon_parts_def)

lemma hex_group_zero: "hex_group ''0''" "group_val ''0'' = 0"
  by (simp_all add: hex_group_def is_hex_def group_val_def hex_val_def)

lemma ipv6_sections_text: "ipv6_text s a \<Longrightarrow> ipv6_sections ip (map to_lower s) = Inr (addr_value a)"
proof (induction rule: ipv6_text.induct)
  case (full gs)
  let ?l = "map (map to_lower) gs"
  have l: "list_all hex_group ?l" using full(2) by (auto simp: list_all_iff lower_hex_group)
  have "split_double_colon (join '':'' ?l) = [join '':'' ?l]" using split_dc_groups [OF l, of "[]"] by (simp add: prepend_def)
  then show ?case using full l group_vals_lower [OF full(2)]
    by (simp add: ipv6_sections_def map_join Let_def expand_sections_def colon_parts_join sections_value_groups addr_value_def list_ex_iff list_all_iff
        del: map_map)
next
  case (compressed gs hs)
  let ?l = "map (map to_lower) gs" and ?m = "map (map to_lower) hs"
  have l: "list_all hex_group ?l" "list_all hex_group ?m" using compressed by (auto simp: list_all_iff lower_hex_group)
  have "split_double_colon (join '':'' ?m) = [join '':'' ?m]" using split_dc_groups [OF l(2), of "[]"] by (simp add: prepend_def)
  then have d: "split_double_colon (join '':'' ?l @ ''::'' @ join '':'' ?m) = [join '':'' ?l, join '':'' ?m]"
    using split_dc_groups [OF l(1), of "''::'' @ join '':'' ?m"] by (simp add: prepend_def)
  let ?s = "?l @ replicate (8 - length gs - length hs) ''0'' @ ?m"
  have low: "map to_lower (join '':'' gs @ ''::'' @ join '':'' hs) = join '':'' ?l @ ''::'' @ join '':'' ?m" by (simp add: map_join)
  have e: "expand_sections [join '':'' ?l, join '':'' ?m] = Inr ?s" using compressed l by (simp add: expand_sections_def colon_parts_join del: map_map)
  have s: "list_all hex_group ?s" using l by (auto simp: list_all_iff hex_group_zero)
  then have "sections_value ?s 0 = Inr (addr_value (map group_val ?s))" by (simp only: sections_value_groups addr_value_def)
  moreover have "map group_val ?s = map group_val gs @ replicate (8 - length gs - length hs) 0 @ map group_val hs"
    using group_vals_lower compressed by (simp add: hex_group_zero del: map_map)
  moreover have "length ?s = 8" using compressed by simp
  moreover have "\<not> list_ex (\<lambda>s. \<not> hex_group s) ?s" using s by (simp only: list_ex_iff list_all_iff) blast
  ultimately show ?case unfolding ipv6_sections_def low d Let_def e by (simp del: map_map map_append list_ex_append)
qed

lemma to_lower_keep: "c = CHR '':'' \<or> c = CHR ''.'' \<or> is_digit c \<Longrightarrow> to_lower c = c"
  by (auto simp: to_lower_def is_digit_def Let_def)

lemma lower_show_hex: "map to_lower (show_hex_nat n) = show_hex_nat n"
proof (induction n rule: show_hex_nat.induct)
  case (1 n)
  have "to_lower (hex_digit d) = hex_digit d" if "d < 16" for d
    using to_lower_hex hex_digit_hex [OF that] by simp
  then show ?case using 1 by (cases "n < 16") (simp_all add: show_hex_nat.simps [of n])
qed

lemma dotted_chars: "c \<in> set (dotted w) \<Longrightarrow> c = CHR ''.'' \<or> is_digit c"
  using show_nat_digits by (auto simp: dotted_def list_all_iff)

lemma dotted_parts: "split_on (CHR ''.'') (dotted w) = map show_nat (map (\<lambda>k. unat w div 2 ^ k mod 256) [24, 16, 8, 0])"
  unfolding dotted_bytes by (rule split_dots) simp

lemma v4_match_none: "CHR ''.'' \<notin> set s \<Longrightarrow> v4_match s = None"
proof -
  assume "CHR ''.'' \<notin> set s"
  then have "CHR ''.'' \<notin> set (rev (takeWhile (\<lambda>c. c \<noteq> CHR '':'') (rev s)))" by (auto dest: set_takeWhileD)
  from split_on_notin [OF this] show ?thesis by (simp add: v4_match_def Let_def)
qed

lemma v4_match_mixed:
  assumes "list_all (\<lambda>c. (of_char c :: nat) \<notin> {10, 13}) p"
  shows "v4_match (p @ '':'' @ dotted w) = Some (p @ '':'', dotted w)"
proof -
  have "CHR '':'' \<notin> set (dotted w)" using dotted_chars [of "CHR '':''" w] by (auto simp: is_digit_def)
  then have d: "\<forall>c \<in> set (dotted w). c \<noteq> CHR '':''" by blast
  have "rev (takeWhile (\<lambda>c. c \<noteq> CHR '':'') (rev (p @ '':'' @ dotted w))) = dotted w"
    using d takeWhile_append2 [of "rev (dotted w)" "\<lambda>c. c \<noteq> CHR '':''" "CHR '':'' # rev p"] by simp
  then show ?thesis using assms unfolding v4_match_def Let_def
    by (simp add: dotted_parts show_nat_digits del: of_nat_unat)
qed

lemma ipv6_text_chars: "ipv6_text s a \<Longrightarrow> c \<in> set s \<Longrightarrow> c = CHR '':'' \<or> is_hex c"
proof (induction rule: ipv6_text.induct)
  have g: "list_all hex_group gs \<Longrightarrow> c \<in> set (join '':'' gs) \<Longrightarrow> c = CHR '':'' \<or> is_hex c" for gs
    by (induction gs rule: induct_list012) (auto simp: hex_group_def list_all_iff)
  { case full then show ?case using g by blast }
  { case compressed then show ?case using g by auto }
qed

lemma lower_hex: "is_hex c \<Longrightarrow> is_hex (to_lower c)"
  using to_lower_hex hex_digit_hex hex_val_less by simp

lemma lower_chars: "(\<And>c. c \<in> set s \<Longrightarrow> c = CHR '':'' \<or> is_hex c) \<Longrightarrow> c \<in> set (map to_lower s) \<Longrightarrow> c = CHR '':'' \<or> is_hex c"
  by (metis (no_types, lifting) imageE list.set_map to_lower_colon lower_hex)

lemma hex_facts: "is_hex c \<Longrightarrow> c \<noteq> CHR ''['' \<and> c \<noteq> CHR '']'' \<and> c \<noteq> CHR ''.'' \<and> (of_char c :: nat) \<notin> {10, 13} \<and> \<not> is_space c"
  by (auto simp: is_hex_def is_space_def Let_def)

lemma strip_none: "CHR ''['' \<notin> set s \<Longrightarrow> CHR '']'' \<notin> set s \<Longrightarrow> strip_brackets s = s"
  by (cases s) (auto simp: strip_brackets_def Let_def dest: last_in_set)

lemma written_chars: "ipv6_written s a \<Longrightarrow> c \<in> set s \<Longrightarrow> c = CHR '':'' \<or> c = CHR ''.'' \<or> is_hex c"
proof (induction rule: ipv6_written.induct)
  case (mixed p w a)
  have "is_digit c \<Longrightarrow> is_hex c" by (auto simp: is_digit_def is_hex_def Let_def)
  then show ?case using mixed ipv6_text_chars [OF mixed(1)] dotted_chars [of c w] by auto
qed (use ipv6_text_chars in blast)

lemma written_strip: "ipv6_written s a \<Longrightarrow> strip_brackets s = s"
  using written_chars hex_facts by (intro strip_none) fastforce+

lemma and_mask: "x AND 65535 = x mod (65536 :: int)" "x AND 255 = x mod (256 :: int)"
  using take_bit_eq_mask [of 16 x] take_bit_eq_mask [of 8 x] by (simp_all add: take_bit_eq_mod mask_eq_exp_minus_1)

lemma ipv6_value: "ipv6_written s a \<Longrightarrow> ipv6ToBigInt s = Inr (addr_value a)"
proof -
  assume w: "ipv6_written s a"
  note strip = written_strip [OF w]
  from w show ?thesis
  proof cases
    case plain
    have "CHR ''.'' \<notin> set (map to_lower s)"
      using lower_chars [of s "CHR ''.''", OF ipv6_text_chars [OF plain]] hex_facts [of "CHR ''.''"] by auto
    then show ?thesis using ipv6_sections_text [OF plain] strip by (simp add: ipv6ToBigInt_def v4_match_none)
  next
    case (mixed p v)
    let ?t = "p @ '':'' @ show_hex_nat (unat v div 65536) @ '':'' @ show_hex_nat (unat v mod 65536)"
    have "map to_lower (dotted v) = dotted v" using dotted_chars [of _ v] to_lower_keep by (simp add: map_idI)
    then have l: "map to_lower s = map to_lower p @ '':'' @ dotted v" "map to_lower ?t = map to_lower p @ '':'' @ show_hex_nat (unat v div 65536) @ '':'' @ show_hex_nat (unat v mod 65536)"
      using mixed(1) by (simp_all add: lower_show_hex)
    have "c = CHR '':'' \<or> is_hex c" if "c \<in> set (map to_lower p)" for c
      using lower_chars [of p c, OF ipv6_text_chars [OF mixed(2)] that] by auto
    then have "list_all (\<lambda>c. (of_char c :: nat) \<notin> {10, 13}) (map to_lower p)" using hex_facts by (fastforce simp: list_all_iff)
    from v4_match_mixed [OF this, of v] have m: "v4_match (map to_lower s) = Some (map to_lower p @ '':'', dotted v)" by (simp add: l)
    have "drop_bit 16 (int (unat v)) = int (unat v div 65536)" "int (unat v) AND 0xffff = int (unat v mod 65536)"
      by (simp_all only: drop_bit_eq_div and_mask zdiv_int zmod_int) simp_all
    then show ?thesis using ipv6_sections_text [OF mixed(2), of s] unfolding ipv6ToBigInt_def Let_def strip m l(2)
      by (simp add: ipv4_dotted del: of_nat_unat)
  qed
qed

section \<open>The guard is exact\<close>

definition addr6 :: "nat list \<Rightarrow> 128 word" where
  "addr6 a = word_of_int (addr_value a)"

lemma addr_value_bounds: "list_all (\<lambda>g. g < 65536) a \<Longrightarrow> 0 \<le> addr_value a \<and> addr_value a < 65536 ^ length a"
proof -
  have "0 \<le> r \<Longrightarrow> list_all (\<lambda>g. g < 65536) a \<Longrightarrow>
     0 \<le> foldl (\<lambda>r g. r * 65536 + int g) r a \<and> foldl (\<lambda>r g. r * 65536 + int g) r a < (r + 1) * 65536 ^ length a" for r
  proof (induction a arbitrary: r)
    case (Cons g a)
    then have "(r * 65536 + int g + 1) * 65536 ^ length a \<le> (r + 1) * 65536 * 65536 ^ length a" by (intro mult_right_mono) auto
    also have "\<dots> = (r + 1) * 65536 ^ length (g # a)" by simp
    finally have b: "(r * 65536 + int g + 1) * 65536 ^ length a \<le> (r + 1) * 65536 ^ length (g # a)" .
    have "0 \<le> r * 65536 + int g" "list_all (\<lambda>g. g < 65536) a" using Cons.prems by simp_all
    from Cons.IH [OF this] b show ?case unfolding foldl_Cons by (meson order_less_le_trans)
  qed simp
  from this [of 0] show "list_all (\<lambda>g. g < 65536) a \<Longrightarrow> ?thesis" by (simp add: addr_value_def)
qed

lemma ipv6_text_length: "ipv6_text s a \<Longrightarrow> length a = 8 \<and> length s \<le> 40 \<and> s \<noteq> []"
proof (induction rule: ipv6_text.induct)
  have g: "list_all hex_group gs \<Longrightarrow> length (join '':'' gs) \<le> 5 * length gs" for gs
    by (induction gs rule: induct_list012) (auto simp: hex_group_def)
  { case (full gs) then show ?case using g [of gs] by (cases gs rule: remdups_adj.cases) (auto simp: hex_group_def) }
  { case (compressed gs hs) then show ?case using g [of gs] g [of hs] by simp }
qed

lemma written_groups: "ipv6_written s a \<Longrightarrow> length a = 8 \<and> list_all (\<lambda>g. g < 65536) a"
  by (induction rule: ipv6_written.induct) (simp_all add: ipv6_text_length ipv6_groups_less)

lemma unat_word_of_int: "0 \<le> v \<Longrightarrow> v < 2 ^ LENGTH('a) \<Longrightarrow> int (unat (word_of_int v :: 'a::len word)) = v"
  by (simp add: uint_word_of_int_eq take_bit_int_eq_self)

lemma addr6_value: "ipv6_written s a \<Longrightarrow> int (unat (addr6 a)) = addr_value a"
  unfolding addr6_def using written_groups [of s a] addr_value_bounds [of a] by (intro unat_word_of_int) auto

lemma byte_of_low:
  "(n :: nat) mod 4294967296 div 16777216 mod 256 = n div 16777216 mod 256" "n mod 4294967296 div 65536 mod 256 = n div 65536 mod 256"
  "n mod 4294967296 div 256 mod 256 = n div 256 mod 256" "n mod 4294967296 mod 256 = n mod 256"
  using drop_bit_take_bit [of 24 32 n] drop_bit_take_bit [of 16 32 n] drop_bit_take_bit [of 8 32 n]
  by (simp_all add: drop_bit_eq_div take_bit_eq_mod mod_mod_cancel)

lemma mapped_dotted: "mapped_ipv4 (int (unat (w :: 128 word))) = dotted (ucast w)"
proof -
  have u: "unat (ucast w :: 32 word) = unat w mod 4294967296" by (simp add: unsigned_ucast_eq take_bit_eq_mod)
  have p: "(2 :: nat) ^ 24 = 16777216" "(2 :: nat) ^ 16 = 65536" "(2 :: nat) ^ 8 = 256" "(2 :: nat) ^ 0 = 1" by simp_all
  have "drop_bit k (int (unat w)) AND 0xff = int (unat w div 2 ^ k mod 256)" for k
    by (simp only: drop_bit_eq_div and_mask zdiv_int zmod_int of_nat_power of_nat_numeral)
  then have "mapped_ipv4 (int (unat w)) = join ''.'' (map (\<lambda>k. show_nat (unat w div 2 ^ k mod 256)) [24, 16, 8, 0])"
    by (simp only: mapped_ipv4_def list.map show_int_nonneg of_nat_0_le_iff nat_int)
  then show ?thesis unfolding dotted_bytes u by (simp only: list.map p byte_of_low div_by_1)
qed

lemma blocked6_value:
  assumes "ipv6ToBigInt s = Inr (int (unat w))"
  shows "isBlockedIPv6 s = None \<longleftrightarrow> public6 w"
proof -
  have "int (unat w) = 0 \<longleftrightarrow> w = 0" "int (unat w) = 1 \<longleftrightarrow> w = 1"
    using word_unat_eq_iff [of w 0] word_unat_eq_iff [of w 1] by (simp_all del: of_nat_unat)
  moreover have "drop_bit 32 (int (unat w)) = 0xffff \<longleftrightarrow> in_block w 0xffff00000000 96"
    by (simp add: in_block_unat drop_bit_eq_div del: of_nat_unat)
  moreover have "drop_bit 118 (int (unat w)) = 0x3fa \<longleftrightarrow> in_block w (push_bit 112 0xfe80) 10"
    by (simp add: in_block_unat drop_bit_eq_div del: of_nat_unat)
  moreover have "drop_bit 121 (int (unat w)) = 0x7e \<longleftrightarrow> in_block w (push_bit 112 0xfc00) 7"
    by (simp add: in_block_unat drop_bit_eq_div del: of_nat_unat)
  ultimately show ?thesis unfolding isBlockedIPv6_def assms sum.case public6_def mapped_dotted
    by (simp add: ipv4_exact del: of_nat_unat)
qed

lemma trim_none: "(\<And>c. c \<in> set s \<Longrightarrow> \<not> is_space c) \<Longrightarrow> js_trim s = s"
proof -
  assume n: "\<And>c. c \<in> set s \<Longrightarrow> \<not> is_space c"
  have "dropWhile is_space t = t" if "set t \<subseteq> set s" for t using that n by (cases t) auto
  then show ?thesis by (simp add: js_trim_def)
qed

lemma dotted_length: "dotted w \<noteq> [] \<and> length (dotted w) \<le> 15"
proof -
  have "length (show_nat (unat w div 2 ^ k mod 256)) \<le> 3" for k by (rule show_nat_length_le) simp_all
  from this [of 24] this [of 16] this [of 8] this [of 0] show ?thesis unfolding dotted_bytes by (simp del: of_nat_unat)
qed

lemma written_length: "ipv6_written s a \<Longrightarrow> s \<noteq> [] \<and> length s \<le> 60"
proof (induction rule: ipv6_written.induct)
  case (mixed p w a)
  then show ?case using ipv6_text_length [OF mixed] dotted_length [of w] by simp
qed (use ipv6_text_length in fastforce)

lemma written_trim: "ipv6_written s a \<Longrightarrow> js_trim s = s"
proof (rule trim_none)
  fix c
  assume "ipv6_written s a" "c \<in> set s"
  then show "\<not> is_space c" using written_chars [of s a c] hex_facts [of c] by (auto simp: is_space_def)
qed

lemma dotted_plain: "js_trim (dotted w) = dotted w" "strip_brackets (dotted w) = dotted w"
proof -
  have "\<not> is_space c \<and> c \<noteq> CHR ''['' \<and> c \<noteq> CHR '']''" if "c \<in> set (dotted w)" for c
    using dotted_chars [OF that] by (auto simp: is_space_def is_digit_def)
  then show "js_trim (dotted w) = dotted w" "strip_brackets (dotted w) = dotted w" by (auto intro: trim_none strip_none)
qed

lemma brackets_strip: "strip_brackets (''['' @ s @ '']'') = s"
  by (simp add: strip_brackets_def Let_def)

lemma brackets_trim: "js_trim (''['' @ s @ '']'') = ''['' @ s @ '']''"
  by (simp add: js_trim_def is_space_def)

lemma validate_v4:
  "isIP (dotted v) = 4 \<Longrightarrow> validateWebhookIPAddress isIP (JString (dotted v)) = Inr () \<longleftrightarrow> public4 v"
  using dotted_length [of v] ipv4_exact [of v]
  by (auto simp: validateWebhookIPAddress_def dotted_plain MAX_IP_ADDRESS_LENGTH_def Let_def split: option.splits)

lemma validate_v6:
  assumes "ipv6_written s a" "isIP s = 6" "t = s \<or> t = ''['' @ s @ '']''"
  shows "validateWebhookIPAddress isIP (JString t) = Inr () \<longleftrightarrow> public6 (addr6 a)"
proof -
  have b: "isBlockedIPv6 s = None \<longleftrightarrow> public6 (addr6 a)"
    using ipv6_value [OF assms(1)] addr6_value [OF assms(1)] by (intro blocked6_value) simp
  have "js_trim t = t" "strip_brackets t = s" "length t \<le> 62" "t \<noteq> []"
    using assms(3) written_trim [OF assms(1)] written_strip [OF assms(1)] written_length [OF assms(1)] brackets_trim brackets_strip by auto
  then show ?thesis using assms(2) b
    by (auto simp: validateWebhookIPAddress_def MAX_IP_ADDRESS_LENGTH_def Let_def split: option.splits)
qed

text \<open>The guard of addresses is exact: an IPv4 address is accepted exactly when it lies in none of the eight blocked blocks, and an
  IPv6 address, however it is written (either case, leading zeros, a double colon, a dotted tail, brackets), exactly when it
  is not unspecified, loopback, link-local or unique local and, where it is a mapped IPv4 address, that address is accepted.\<close>

theorem guard_exact:
  assumes "isIP (dotted v) = 4" "ipv6_written s a" "isIP s = 6"
  shows "(validateWebhookIPAddress isIP (JString (dotted v)) = Inr () \<longleftrightarrow> public4 v) \<and>
    (validateWebhookIPAddress isIP (JString s) = Inr () \<longleftrightarrow> public6 (addr6 a)) \<and>
    (validateWebhookIPAddress isIP (JString (''['' @ s @ '']'')) = Inr () \<longleftrightarrow> public6 (addr6 a))"
  using validate_v4 [of isIP v] validate_v6 [of s a isIP] assms by blast

definition demo_isIP :: "string \<Rightarrow> nat" where
  "demo_isIP s = (if CHR '':'' \<in> set s then 6 else if length (split_on (CHR ''.'') s) = 4 then 4 else 0)"

lemma demo_metadata: "ipv6_written ''::ffff:169.254.169.254'' [0, 0, 0, 0, 0, 65535, 43518, 43518]"
proof -
  have d: "dotted 2852039166 = ''169.254.169.254''" by code_simp
  have h: "show_hex_nat 43518 = ''a9fe''" by code_simp
  have g: "list_all hex_group [''ffff'', ''a9fe'', ''a9fe'']" "map group_val [''ffff'', ''a9fe'', ''a9fe''] = [65535, 43518, 43518]"
    "replicate (8 - length ([] :: string list) - length [''ffff'', ''a9fe'', ''a9fe'']) (0 :: nat) = [0, 0, 0, 0, 0]"
    by code_simp+
  have "ipv6_text ''::ffff:a9fe:a9fe'' [0, 0, 0, 0, 0, 65535, 43518, 43518]"
    using ipv6_text.compressed [of "[]" "[''ffff'', ''a9fe'', ''a9fe'']"] g by simp
  then show ?thesis using ipv6_written.mixed [of "''::ffff''" 2852039166] by (simp add: d h)
qed

theorem guard_exact_witness:
  "validateWebhookIPAddress demo_isIP (JString ''8.8.8.8'') = Inr () \<and>
   validateWebhookIPAddress demo_isIP (JString ''::ffff:169.254.169.254'') \<noteq> Inr ()"
proof -
  have d: "dotted 134744072 = ''8.8.8.8''" by code_simp
  have i: "demo_isIP (dotted 134744072) = 4" "demo_isIP ''::ffff:169.254.169.254'' = 6" unfolding d by code_simp+
  have "public4 134744072" by code_simp
  moreover have "addr6 [0, 0, 0, 0, 0, 65535, 43518, 43518] = 281473533782526" by (simp add: addr6_def addr_value_def)
  moreover have "\<not> public6 281473533782526" by code_simp
  ultimately show ?thesis using guard_exact [OF i(1) demo_metadata i(2)] unfolding d by metis
qed

section \<open>Failing closed\<close>

lemma octets_value_bounds: "octets_value ps r = Inr v \<Longrightarrow> 0 \<le> r \<Longrightarrow> 0 \<le> v \<and> v < (r + 1) * 256 ^ length ps"
proof (induction ps arbitrary: r)
  case (Cons p ps)
  then have p: "0 \<le> p" "p \<le> 255" "octets_value ps (r * 256 + p) = Inr v" by (auto simp: push_bit_eq_mult split: if_splits)
  have "(r * 256 + p + 1) * 256 ^ length ps \<le> (r + 1) * 256 * 256 ^ length ps" using p by (intro mult_right_mono) auto
  also have "\<dots> = (r + 1) * 256 ^ length (p # ps)" by simp
  finally show ?case using Cons.IH [OF p(3)] p Cons.prems(2) by (meson order_less_le_trans add_nonneg_nonneg mult_nonneg_nonneg zero_le_numeral)
qed simp

lemma ipv4_word: "ipv4ToBigInt s = Inr v \<Longrightarrow> \<exists>w. v = int (unat (w :: 32 word))"
proof -
  assume "ipv4ToBigInt s = Inr v"
  then have "length (map the (map js_parse_int (split_on (CHR ''.'') s))) = 4 \<and>
      octets_value (map the (map js_parse_int (split_on (CHR ''.'') s))) 0 = Inr v" by (simp add: ipv4ToBigInt_def Let_def split: if_splits)
  then have "0 \<le> v" "v < 2 ^ LENGTH(32)" using octets_value_bounds [of _ 0 v] by fastforce+
  from unat_word_of_int [OF this] show ?thesis by metis
qed

lemma ipv6_word: "ipv6ToBigInt s = Inr v \<Longrightarrow> \<exists>w. v = int (unat (w :: 128 word))"
proof -
  assume "ipv6ToBigInt s = Inr v"
  then obtain t where "ipv6_sections s t = Inr v" by (auto simp: ipv6ToBigInt_def Let_def split: option.splits prod.splits sum.splits)
  then obtain gs where g: "length gs = 8" "list_all hex_group gs" "sections_value gs 0 = Inr v"
    by (auto simp: ipv6_sections_def Let_def list_ex_iff list_all_iff split: if_splits sum.splits)
  then have v: "v = addr_value (map group_val gs)" using sections_value_groups [OF g(2), of 0] by (simp add: addr_value_def)
  have "list_all (\<lambda>n. n < 65536) (map group_val gs)" using g(2) group_val_less by (auto simp: list_all_iff)
  then have "0 \<le> v" "v < 2 ^ LENGTH(128)" using addr_value_bounds [of "map group_val gs"] g(1) by (simp_all add: v)
  from unat_word_of_int [OF this] show ?thesis by metis
qed

text \<open>The address that a text stands for in the eyes of the guard.\<close>

definition read_public :: "(string \<Rightarrow> nat) \<Rightarrow> string \<Rightarrow> bool" where
  "read_public isIP text \<longleftrightarrow>
     (let s = strip_brackets (js_trim text)
      in isIP s = 6 \<and> (\<exists>w. ipv6ToBigInt s = Inr (int (unat w)) \<and> public6 w) \<or>
         isIP s = 4 \<and> (\<exists>w. ipv4ToBigInt s = Inr (int (unat w)) \<and> public4 w))"

lemma accepted_public: "validateWebhookIPAddress isIP (JString s) = Inr () \<Longrightarrow> read_public isIP s"
proof -
  assume a: "validateWebhookIPAddress isIP (JString s) = Inr ()"
  let ?t = "strip_brackets (js_trim s)"
  from a consider "isIP ?t = 6" "isBlockedIPv6 ?t = None" | "isIP ?t = 4" "isBlockedIPv4 ?t = None"
    by (auto simp: validateWebhookIPAddress_def Let_def split: if_splits option.splits)
  then show ?thesis
  proof cases
    case 1
    then obtain v where v: "ipv6ToBigInt ?t = Inr v" by (cases "ipv6ToBigInt ?t") (simp_all add: isBlockedIPv6_def)
    then show ?thesis using 1 ipv6_word [OF v] blocked6_value [of ?t] by (auto simp: read_public_def Let_def simp del: of_nat_unat)
  next
    case 2
    then obtain v where v: "ipv4ToBigInt ?t = Inr v" by (cases "ipv4ToBigInt ?t") (simp_all add: isBlockedIPv4_def)
    then obtain w :: "32 word" where "v = int (unat w)" using ipv4_word by blast
    then show ?thesis using 2 v blocked_value [of w] by (auto simp: read_public_def Let_def isBlockedIPv4_def simp del: of_nat_unat)
  qed
qed

text \<open>Addresses that carry a blocked IPv4 address in another way than as a mapped one are accepted: the NAT64 form of the metadata
  service and the compatible form of the loopback address.\<close>

lemma embedded_accepted: "public6 (addr6 [100, 65435, 0, 0, 0, 0, 43518, 43518]) \<and> public6 (addr6 [0, 0, 0, 0, 0, 0, 32512, 1])"
proof -
  have "addr6 [100, 65435, 0, 0, 0, 0, 43518, 43518] = 524413980667603649783483184164284926" "addr6 [0, 0, 0, 0, 0, 0, 32512, 1] = 2130706433"
    by (simp_all add: addr6_def addr_value_def)
  then show ?thesis by (simp add: public6_def in_block_unat del: of_nat_unat)
qed

section \<open>The allowlist\<close>

lemma allow_loop_strings:
  "list_all (\<lambda>e. js_trim e \<noteq> []) es \<Longrightarrow> allow_loop h (map JString es) = Inr (list_ex (\<lambda>e. entry_matches (map to_lower e) h) es)"
  by (induction es) auto

lemma allowlist_exact:
  assumes "es \<noteq> []" "list_all (\<lambda>e. js_trim e \<noteq> []) es"
  shows "validateAllowlist host (JArray (map JString es)) = Inr () \<longleftrightarrow>
    (\<exists>e \<in> set es. entry_matches (map to_lower e) (map to_lower host))"
proof -
  have "js_get (JArray (map JString es)) ''length'' \<noteq> JNumber (Finite 0)" by (simp add: js_get_def)
  then show ?thesis using assms(1) allow_loop_strings [OF assms(2), of "map to_lower host"]
    by (simp add: validateAllowlist_def js_falsy_def list_ex_iff split: bool.split)
qed

end
