(* ===== verification/Webhook_Inbound.thy ===== *)
theory Webhook_Inbound
  imports Dedup
begin

text \<open>
  Incoming webhook deliveries: signatures (\<open>src/webhooks/signature.ts\<close>), the checks before them (\<open>src/webhooks/preflight.ts\<close>), the
  table of signing secrets with its rotation (\<open>src/db/repositories/webhookSecretRepository.ts\<close>) and the handler of
  \<open>POST /internal/webhooks/receive\<close> (\<open>src/routes/webhooks.ts\<close>) over the cache of \<open>Dedup\<close>.

  A body is its bytes. The HMAC of \<open>node:crypto\<close>, the conversion \<open>Number(s)\<close>, the UTF-8 decoder and \<open>JSON.parse\<close> are arguments; decoded
  text is a list of UTF-16 code units. The table of secrets is a map from identifiers to rows; each of its statements may fail.

  The lemmas: which deliveries are accepted, across rotations of the secret; the nesting check on the text of a JSON value; a
  delivery is accepted at most once under one identifier, and again under another, because the identifier is not signed.
\<close>

section \<open>Signatures\<close>

definition SIG_COMPARE_KEY :: string where "SIG_COMPARE_KEY = ''fluxora-webhook-sig''"

type_synonym hmac = "string \<Rightarrow> string \<Rightarrow> string"

definition constantTimeCompare :: "hmac \<Rightarrow> string \<Rightarrow> string \<Rightarrow> bool" where
  "constantTimeCompare hmac a b \<longleftrightarrow> hmac SIG_COMPARE_KEY a = hmac SIG_COMPARE_KEY b"

definition DEFAULT_WEBHOOK_TOLERANCE_SECONDS :: int where "DEFAULT_WEBHOOK_TOLERANCE_SECONDS = 300"
definition DEFAULT_MAX_WEBHOOK_BODY_BYTES :: nat where "DEFAULT_MAX_WEBHOOK_BODY_BYTES = 256 * 1024"
definition DEFAULT_WEBHOOK_SECRET_GRACE_WINDOW_SECONDS :: int where "DEFAULT_WEBHOOK_SECRET_GRACE_WINDOW_SECONDS = 86400"

datatype WebhookVerificationCode =
    Ok
  | Missing_secret
  | Missing_delivery_id
  | Missing_timestamp
  | Missing_signature
  | Payload_too_large
  | Invalid_timestamp
  | Timestamp_outside_tolerance
  | Signature_mismatch
  | Duplicate_delivery
  | Previous_secret_expired

record WebhookVerificationResult =
  vr_ok :: bool
  vr_status :: nat
  vr_code :: WebhookVerificationCode
  vr_usedPreviousSecret :: bool

record VerifyWebhookSignatureInput =
  vi_secret :: "string option"
  vi_secretPrevious :: "string option"
  vi_previousSecretRotatedAt :: "int option"
  vi_graceWindowSeconds :: "int option"
  vi_deliveryId :: "string option"
  vi_timestamp :: "string option"
  vi_signature :: "string option"
  vi_rawBody :: string
  vi_toleranceSeconds :: "int option"
  vi_now :: int
  vi_maxBodyBytes :: "nat option"
  vi_isDuplicateDelivery :: "(string \<Rightarrow> bool) option"

definition buildWebhookSigningPayload :: "string \<Rightarrow> string \<Rightarrow> string" where
  "buildWebhookSigningPayload timestamp body = timestamp @ ''.'' @ body"

definition computeWebhookSignature :: "hmac \<Rightarrow> string \<Rightarrow> string \<Rightarrow> string \<Rightarrow> string" where
  "computeWebhookSignature hmac secret timestamp body = hmac secret (buildWebhookSigningPayload timestamp body)"

definition lower_ascii :: "char \<Rightarrow> char" where
  "lower_ascii c = (let n = (of_char c :: nat) in if 65 \<le> n \<and> n \<le> 90 then char_of (n + 32) else c)"

definition refuse :: "nat \<Rightarrow> WebhookVerificationCode \<Rightarrow> WebhookVerificationResult" where
  "refuse status code = \<lparr>vr_ok = False, vr_status = status, vr_code = code, vr_usedPreviousSecret = False\<rparr>"

text \<open>The first of the candidate secrets whose signature compares equal; the flag tells the previous one.\<close>

fun match_secret :: "hmac \<Rightarrow> string \<Rightarrow> string \<Rightarrow> string \<Rightarrow> (string \<times> bool) list \<Rightarrow> bool option" where
  "match_secret hmac actual timestamp body [] = None"
| "match_secret hmac actual timestamp body ((v, isPrevious) # rest) =
     (if constantTimeCompare hmac actual (computeWebhookSignature hmac v timestamp body) then Some isPrevious
      else match_secret hmac actual timestamp body rest)"

definition previous_expired :: "VerifyWebhookSignatureInput \<Rightarrow> bool" where
  "previous_expired i \<longleftrightarrow>
     (case (vi_secretPrevious i, vi_previousSecretRotatedAt i) of
        (Some _, Some rotatedAt) \<Rightarrow>
          vi_now i - rotatedAt > nullish (vi_graceWindowSeconds i) DEFAULT_WEBHOOK_SECRET_GRACE_WINDOW_SECONDS
      | _ \<Rightarrow> False)"

definition candidate_secrets :: "VerifyWebhookSignatureInput \<Rightarrow> string \<Rightarrow> (string \<times> bool) list" where
  "candidate_secrets i secret =
     (secret, False) # (if nullish (vi_secretPrevious i) [] \<noteq> [] \<and> \<not> previous_expired i then [(the (vi_secretPrevious i), True)] else [])"

definition verifyWebhookSignature :: "hmac \<Rightarrow> (string \<Rightarrow> jsnum) \<Rightarrow> VerifyWebhookSignatureInput \<Rightarrow> WebhookVerificationResult" where
  "verifyWebhookSignature hmac to_number i =
     (let secret = nullish (vi_secret i) []; deliveryId = nullish (vi_deliveryId i) []; timestamp = nullish (vi_timestamp i) [];
          signature = nullish (vi_signature i) []
      in if secret = [] then refuse 401 Missing_secret
         else if deliveryId = [] then refuse 401 Missing_delivery_id
         else if timestamp = [] then refuse 401 Missing_timestamp
         else if signature = [] then refuse 401 Missing_signature
         else if length (vi_rawBody i) > nullish (vi_maxBodyBytes i) DEFAULT_MAX_WEBHOOK_BODY_BYTES then refuse 413 Payload_too_large
         else case to_number timestamp of
                Finite t \<Rightarrow>
                  if of_int \<lfloor>t\<rfloor> \<noteq> t \<or> t \<le> 0 then refuse 400 Invalid_timestamp
                  else if \<bar>vi_now i - \<lfloor>t\<rfloor>\<bar> > nullish (vi_toleranceSeconds i) DEFAULT_WEBHOOK_TOLERANCE_SECONDS
                  then refuse 401 Timestamp_outside_tolerance
                  else let actual = map lower_ascii (js_trim signature)
                       in case match_secret hmac actual timestamp (vi_rawBody i) (candidate_secrets i secret) of
                            None \<Rightarrow> refuse 401 (if previous_expired i then Previous_secret_expired else Signature_mismatch)
                          | Some usedPrevious \<Rightarrow>
                              if (case vi_isDuplicateDelivery i of None \<Rightarrow> False | Some dup \<Rightarrow> dup deliveryId)
                              then refuse 409 Duplicate_delivery
                              else \<lparr>vr_ok = True, vr_status = 200, vr_code = Ok, vr_usedPreviousSecret = usedPrevious\<rparr>
              | _ \<Rightarrow> refuse 400 Invalid_timestamp)"

section \<open>Checks before the signature\<close>

definition MAX_JSON_DEPTH :: int where "MAX_JSON_DEPTH = 32"

datatype preflight_code = Unsupported_media_type | Preflight_too_large | Invalid_encoding | Payload_too_deep | Invalid_json

definition preflight_status :: "preflight_code \<Rightarrow> nat" where
  "preflight_status c = (case c of Unsupported_media_type \<Rightarrow> 415 | Preflight_too_large \<Rightarrow> 413 | _ \<Rightarrow> 400)"

text \<open>The scanner for the nesting depth, one code unit at a time; \<open>False\<close> when the limit is exceeded.\<close>

fun depth_ok :: "nat list \<Rightarrow> int \<Rightarrow> bool \<Rightarrow> bool \<Rightarrow> bool" where
  "depth_ok [] depth inString escape = True"
| "depth_ok (c # cs) depth inString escape =
     (if inString
      then if escape then depth_ok cs depth True False
           else if c = 92 then depth_ok cs depth True True
           else if c = 34 then depth_ok cs depth False escape
           else depth_ok cs depth True escape
      else if c = 34 then depth_ok cs depth True escape
      else if c = 123 \<or> c = 91
      then if depth + 1 > MAX_JSON_DEPTH then False else depth_ok cs (depth + 1) False escape
      else if c = 125 \<or> c = 93 then depth_ok cs (depth - 1) False escape
      else depth_ok cs depth False escape)"

definition js_white :: "nat \<Rightarrow> bool" where
  "js_white n \<longleftrightarrow> n \<in> {9, 10, 11, 12, 13, 32, 160, 5760, 8232, 8233, 8239, 8287, 12288, 65279} \<or> 8192 \<le> n \<and> n \<le> 8202"

text \<open>The decoder and the parser of the platform.\<close>

record codec =
  cd_decode :: "string \<Rightarrow> nat list"
  cd_parse :: "nat list \<Rightarrow> jsval option"

definition includes_sub :: "'a list \<Rightarrow> 'a list \<Rightarrow> bool" where
  "includes_sub p s \<longleftrightarrow> list_ex (\<lambda>i. take (length p) (drop i s) = p) [0..<Suc (length s)]"

definition checkWebhookPreflight :: "codec \<Rightarrow> string \<Rightarrow> string option \<Rightarrow> nat option \<Rightarrow> preflight_code + jsval" where
  "checkWebhookPreflight cd rawBody contentType maxBodyBytes =
     (let str = cd_decode cd rawBody
      in if nullish contentType [] \<noteq> [] \<and> \<not> includes_sub ''application/json'' (map lower_ascii (nullish contentType []))
         then Inl Unsupported_media_type
         else if length rawBody > nullish maxBodyBytes DEFAULT_MAX_WEBHOOK_BODY_BYTES then Inl Preflight_too_large
         else if 65533 \<in> set str \<and> \<not> includes_sub [CHR 0xEF, CHR 0xBF, CHR 0xBD] rawBody then Inl Invalid_encoding
         else if \<not> depth_ok str 0 False False then Inl Payload_too_deep
         else if list_all js_white str then Inr JNull
         else case cd_parse cd str of None \<Rightarrow> Inl Invalid_json | Some v \<Rightarrow> Inr v)"

section \<open>The table of secrets\<close>

definition DEFAULT_WEBHOOK_SECRET_ID :: string where "DEFAULT_WEBHOOK_SECRET_ID = ''default''"

record WebhookSecretState =
  sc_currentSecret :: string
  sc_previousSecret :: "string option"
  sc_previousSecretRotatedAt :: "int option"
  sc_previousSecretExpiresAt :: "int option"

type_synonym secrets = "(string, WebhookSecretState) jsmap"

datatype secret_error = Database_error | Duplicate_entry | No_row string

text \<open>\<open>ok\<close> tells whether the database answers.\<close>

definition getSecretState :: "bool \<Rightarrow> string \<Rightarrow> secrets \<Rightarrow> secret_error + WebhookSecretState option" where
  "getSecretState ok sid t = (if ok then Inr (map_get t sid) else Inl Database_error)"

definition setSecret :: "bool \<Rightarrow> string \<Rightarrow> string \<Rightarrow> secrets \<Rightarrow> (secret_error + WebhookSecretState) \<times> secrets" where
  "setSecret ok sid secret t =
     (if \<not> ok then (Inl Database_error, t)
      else if map_get t sid \<noteq> None then (Inl Duplicate_entry, t)
      else let row = \<lparr>sc_currentSecret = secret, sc_previousSecret = None, sc_previousSecretRotatedAt = None, sc_previousSecretExpiresAt = None\<rparr>
           in (Inr row, map_set sid row t))"

record RotateSecretInput =
  ri_newSecret :: string
  ri_graceWindowSeconds :: "int option"
  ri_rotatedAt :: "int option"

definition rotateSecret ::
  "bool \<Rightarrow> string \<Rightarrow> RotateSecretInput \<Rightarrow> int \<Rightarrow> secrets \<Rightarrow> (secret_error + WebhookSecretState) \<times> secrets" where
  "rotateSecret ok sid inp now t =
     (let grace = nullish (ri_graceWindowSeconds inp) DEFAULT_WEBHOOK_SECRET_GRACE_WINDOW_SECONDS;
          rotatedAt = nullish (ri_rotatedAt inp) now
      in if \<not> ok then (Inl Database_error, t)
         else case map_get t sid of
                None \<Rightarrow> (Inl (No_row sid), t)
              | Some r \<Rightarrow>
                  let row = r\<lparr>sc_currentSecret := ri_newSecret inp, sc_previousSecret := Some (sc_currentSecret r),
                              sc_previousSecretRotatedAt := Some rotatedAt, sc_previousSecretExpiresAt := Some (rotatedAt + grace)\<rparr>
                  in (Inr row, map_set sid row t))"

definition clearExpiredPreviousSecret :: "bool \<Rightarrow> string \<Rightarrow> int \<Rightarrow> secrets \<Rightarrow> (secret_error + bool) \<times> secrets" where
  "clearExpiredPreviousSecret ok sid now t =
     (if \<not> ok then (Inl Database_error, t)
      else case map_get t sid of
             Some r \<Rightarrow>
               if sc_previousSecret r \<noteq> None \<and> (case sc_previousSecretExpiresAt r of None \<Rightarrow> False | Some e \<Rightarrow> e \<le> now)
               then (Inr True, map_set sid (r\<lparr>sc_previousSecret := None, sc_previousSecretRotatedAt := None,
                                              sc_previousSecretExpiresAt := None\<rparr>) t)
               else (Inr False, t)
           | None \<Rightarrow> (Inr False, t))"

definition deleteSecretState :: "bool \<Rightarrow> string \<Rightarrow> secrets \<Rightarrow> (secret_error + bool) \<times> secrets" where
  "deleteSecretState ok sid t = (if \<not> ok then (Inl Database_error, t) else (Inr (map_get t sid \<noteq> None), map_delete sid t))"

section \<open>The handler\<close>

record delivery_request =
  dr_body :: string
  dr_contentType :: "string option"
  dr_deliveryId :: "string option"
  dr_timestamp :: "string option"
  dr_signature :: "string option"
  dr_event :: "string option"

record receive_env =
  rv_db_ok :: bool
  rv_clock :: int
  rv_env :: env
  rv_now :: millis

datatype received =
    Preflight_refused nat preflight_code
  | Verification_refused nat WebhookVerificationCode
  | Duplicate
  | Received string "string option" jsval

text \<open>The secret that a request is checked against: the row of the table, or the environment when there is no row or no answer.\<close>

definition secret_input :: "secret_error + WebhookSecretState option \<Rightarrow> env \<Rightarrow> VerifyWebhookSignatureInput \<Rightarrow> VerifyWebhookSignatureInput" where
  "secret_input answer e i =
     (case answer of
        Inr (Some st) \<Rightarrow>
          (let i1 = i\<lparr>vi_secret := Some (sc_currentSecret st)\<rparr>
           in if nullish (sc_previousSecret st) [] \<noteq> []
              then case (sc_previousSecretRotatedAt st, sc_previousSecretExpiresAt st) of
                     (Some r, Some x) \<Rightarrow>
                       i1\<lparr>vi_secretPrevious := sc_previousSecret st, vi_previousSecretRotatedAt := Some r, vi_graceWindowSeconds := Some (x - r)\<rparr>
                   | _ \<Rightarrow> i1\<lparr>vi_secretPrevious := sc_previousSecret st\<rparr>
              else i1)
      | _ \<Rightarrow> i\<lparr>vi_secret := e ''FLUXORA_WEBHOOK_SECRET'', vi_secretPrevious := e ''FLUXORA_WEBHOOK_SECRET_PREVIOUS''\<rparr>)"

definition request_input :: "delivery_request \<Rightarrow> int \<Rightarrow> VerifyWebhookSignatureInput" where
  "request_input req clock =
     \<lparr>vi_secret = None, vi_secretPrevious = None, vi_previousSecretRotatedAt = None, vi_graceWindowSeconds = None,
      vi_deliveryId = dr_deliveryId req, vi_timestamp = dr_timestamp req, vi_signature = dr_signature req, vi_rawBody = dr_body req,
      vi_toleranceSeconds = None, vi_now = clock, vi_maxBodyBytes = None, vi_isDuplicateDelivery = None\<rparr>"

text \<open>\<open>add\<close> is the cache's \<open>add\<close> at its own time; the handler first asks the table, then verifies, then adds.\<close>

definition receive ::
  "codec \<Rightarrow> hmac \<Rightarrow> (string \<Rightarrow> jsnum) \<Rightarrow> ('c \<Rightarrow> string \<Rightarrow> string \<Rightarrow> millis \<Rightarrow> bool \<times> 'c) \<Rightarrow> receive_env \<Rightarrow> delivery_request \<Rightarrow>
   secrets \<Rightarrow> 'c \<Rightarrow> received \<times> 'c" where
  "receive cd hmac to_number add e req t cache =
     (case checkWebhookPreflight cd (dr_body req) (dr_contentType req) None of
        Inl code \<Rightarrow> (Preflight_refused (preflight_status code) code, cache)
      | Inr parsed \<Rightarrow>
          let verification = verifyWebhookSignature hmac to_number
                (secret_input (getSecretState (rv_db_ok e) DEFAULT_WEBHOOK_SECRET_ID t) (rv_env e) (request_input req (rv_clock e)))
          in if \<not> vr_ok verification then (Verification_refused (vr_status verification) (vr_code verification), cache)
             else case add cache ''webhook'' (nullish (dr_deliveryId req) []) (rv_now e) of
                    (isNew, cache1) \<Rightarrow>
                      if \<not> isNew then (Duplicate, cache1)
                      else (Received (nullish (dr_deliveryId req) []) (dr_event req) parsed, cache1))"

section \<open>The nesting check\<close>

text \<open>The compact JSON text of a value, with the printer of numbers as an argument, and the nesting depth of a value.\<close>

fun json_text :: "(jsnum \<Rightarrow> string) \<Rightarrow> jsval \<Rightarrow> string" where
  "json_text pn (JBool b) = (if b then ''true'' else ''false'')"
| "json_text pn (JNumber n) = pn n"
| "json_text pn (JBigInt i) = show_int i"
| "json_text pn (JString s) = json_string s"
| "json_text pn (JArray xs) = ''['' @ join '','' (map (json_text pn) xs) @ '']''"
| "json_text pn (JObject ms) = ''{'' @ join '','' (map (\<lambda>(k, v). json_string k @ '':'' @ json_text pn v) ms) @ ''}''"
| "json_text pn _ = ''null''"

fun nesting :: "jsval \<Rightarrow> int" where
  "nesting (JArray xs) = 1 + foldr (\<lambda>x m. max (nesting x) m) xs 0"
| "nesting (JObject ms) = 1 + foldr (\<lambda>(k, v) m. max (nesting v) m) ms 0"
| "nesting _ = 0"

abbreviation codes :: "string \<Rightarrow> nat list" where
  "codes s \<equiv> map of_char s"

definition plain_text :: "string \<Rightarrow> bool" where
  "plain_text s \<longleftrightarrow> list_all (\<lambda>c. (of_char c :: nat) \<notin> {34, 91, 93, 123, 125}) s"

lemma depth_plain: "plain_text s \<Longrightarrow> depth_ok (codes s @ rest) d False False = depth_ok rest d False False"
  by (induction s) (simp_all add: plain_text_def)

lemma depth_escape: "depth_ok (codes (json_escape c) @ rest) d True False = depth_ok rest d True False"
proof -
  have "(of_char c :: nat) < 32 \<Longrightarrow> (of_char c :: nat) div 16 < 16" by simp
  then show ?thesis by (auto simp: json_escape_def Let_def of_char_hex_digit)
qed

lemma depth_string: "depth_ok (codes (json_string s) @ rest) d False False = depth_ok rest d False False"
proof -
  have "depth_ok (codes (concat (map json_escape s)) @ rest) d True False = depth_ok rest d True False" for rest
    by (induction s) (simp_all add: depth_escape)
  then show ?thesis by (simp add: json_string_def)
qed

lemma show_int_plain: "plain_text (show_int i)"
proof -
  have "plain_text (show_nat n)" for n
    using show_nat_digits [of n] by (auto simp: plain_text_def list_all_iff is_digit_def)
  then show ?thesis by (simp add: show_int_def plain_text_def)
qed

text \<open>Scanning a list of texts between commas, from what scanning one of them does.\<close>

lemma depth_join:
  assumes "\<And>x rest. x \<in> set xs \<Longrightarrow> depth_ok (codes (f x) @ rest) d False False \<longleftrightarrow> d + g x \<le> MAX_JSON_DEPTH \<and> depth_ok rest d False False"
    and "\<And>x. x \<in> set xs \<Longrightarrow> 0 \<le> g x" "d \<le> MAX_JSON_DEPTH"
  shows "depth_ok (codes (join '','' (map f xs)) @ rest) d False False \<longleftrightarrow>
    d + foldr (\<lambda>x m. max (g x) m) xs 0 \<le> MAX_JSON_DEPTH \<and> depth_ok rest d False False"
  using assms
proof (induction xs rule: induct_list012)
  case 1
  then show ?case by simp
next
  case (2 x)
  then show ?case by simp
next
  case (3 x y zs)
  have "depth_ok (codes (join '','' (map f (y # zs))) @ rest) d False False \<longleftrightarrow>
    d + foldr (\<lambda>x m. max (g x) m) (y # zs) 0 \<le> MAX_JSON_DEPTH \<and> depth_ok rest d False False" by (rule "3.IH"(2)) (use 3 in auto)
  then show ?case using 3 by auto
qed

lemma nesting_nonneg: "0 \<le> nesting v"
proof (induction v rule: nesting.induct)
  case (1 xs)
  then have "0 \<le> foldr (\<lambda>x m. max (nesting x) m) xs 0" by (induction xs) auto
  then show ?case by simp
next
  case (2 ms)
  have "0 \<le> foldr (\<lambda>(k, v) m. max (nesting v) m) ms (0 :: int)" by (induction ms) auto
  then show ?case by simp
qed simp_all

lemma depth_value:
  assumes "\<And>n. plain_text (pn n)" "0 \<le> d" "d \<le> MAX_JSON_DEPTH"
  shows "depth_ok (codes (json_text pn v) @ rest) d False False \<longleftrightarrow> d + nesting v \<le> MAX_JSON_DEPTH \<and> depth_ok rest d False False"
  using assms(2,3)
proof (induction v arbitrary: d rest rule: nesting.induct)
  case (1 xs)
  show ?case
  proof (cases "d + 1 \<le> MAX_JSON_DEPTH")
    case True
    have "depth_ok (codes (join '','' (map (json_text pn) xs)) @ 93 # rest) (d + 1) False False \<longleftrightarrow>
      d + 1 + foldr (\<lambda>x m. max (nesting x) m) xs 0 \<le> MAX_JSON_DEPTH \<and> depth_ok (93 # rest) (d + 1) False False"
      by (rule depth_join) (use 1 True nesting_nonneg in auto)
    then show ?thesis using True by (simp add: add.assoc)
  next
    case False
    have "0 \<le> foldr (\<lambda>x m. max (nesting x) m) xs 0" by (induction xs) auto
    then show ?thesis using False by simp
  qed
next
  case (2 ms)
  have g: "foldr (\<lambda>(k, v) m. max (nesting v) m) ms 0 = foldr (\<lambda>p m. max (nesting (snd p)) m) ms (0 :: int)" for ms :: "(string \<times> jsval) list"
    by (induction ms) auto
  show ?case
  proof (cases "d + 1 \<le> MAX_JSON_DEPTH")
    case True
    have "depth_ok (codes (join '','' (map (\<lambda>(k, v). json_string k @ '':'' @ json_text pn v) ms)) @ 125 # rest) (d + 1) False False \<longleftrightarrow>
      d + 1 + foldr (\<lambda>p m. max (nesting (snd p)) m) ms 0 \<le> MAX_JSON_DEPTH \<and> depth_ok (125 # rest) (d + 1) False False"
      by (rule depth_join) (use 2 True nesting_nonneg in \<open>auto simp: depth_string\<close>)
    then show ?thesis using True by (simp add: g add.assoc)
  next
    case False
    have "0 \<le> foldr (\<lambda>p m. max (nesting (snd p)) m) ms (0 :: int)" by (induction ms) auto
    then show ?thesis using False by (simp add: g)
  qed
qed (use assms(1) in \<open>simp_all add: depth_plain depth_string show_int_plain plain_text_def [of "''null''"] plain_text_def [of "''true''"] plain_text_def [of "''false''"]\<close>)


text \<open>The nesting check refuses exactly what is nested too deeply: the compact JSON text of a value, whatever its strings and member
  names contain, passes the scanner exactly when the value is nested at most 32 levels deep.\<close>

theorem depth_check_exact:
  assumes "\<forall>n. plain_text (pn n)"
  shows "depth_ok (codes (json_text pn v)) 0 False False \<longleftrightarrow> nesting v \<le> MAX_JSON_DEPTH"
  using depth_value [of pn 0 v "[]"] assms by (simp add: MAX_JSON_DEPTH_def)

theorem depth_check_exact_witness:
  "depth_ok (codes (json_text (\<lambda>n. ''0'') ((JArray \<circ> (\<lambda>v. [v])) (JObject [(''{\"['', JString ''[[['')])))) 0 False False"
proof -
  have "\<forall>n. plain_text ((\<lambda>n. ''0'') n)" for n :: jsnum by (simp add: plain_text_def)
  from depth_check_exact [OF this, of "(JArray \<circ> (\<lambda>v. [v])) (JObject [(''{\"['', JString ''[[['')])"] show ?thesis
    by (simp add: MAX_JSON_DEPTH_def)
qed

section \<open>Secrets and their rotation\<close>

text \<open>Two texts compare equal only if they are equal: SHA-256 has no collision on them.\<close>

definition collision_free :: "hmac \<Rightarrow> string \<Rightarrow> bool" where
  "collision_free hmac a \<longleftrightarrow> (\<forall>b. constantTimeCompare hmac a b \<longrightarrow> a = b)"

lemma compare_refl [simp]: "constantTimeCompare hmac a a"
  by (simp add: constantTimeCompare_def)

text \<open>A request with its headers in place and a body that passes the checks before the signature.\<close>

definition well_formed :: "codec \<Rightarrow> (string \<Rightarrow> jsnum) \<Rightarrow> delivery_request \<Rightarrow> int \<Rightarrow> bool" where
  "well_formed cd to_number req n \<longleftrightarrow>
     (\<exists>v. checkWebhookPreflight cd (dr_body req) (dr_contentType req) None = Inr v) \<and>
     nullish (dr_deliveryId req) [] \<noteq> [] \<and> nullish (dr_timestamp req) [] \<noteq> [] \<and> nullish (dr_signature req) [] \<noteq> [] \<and>
     to_number (nullish (dr_timestamp req) []) = Finite (of_int n) \<and> 0 < n"

abbreviation signed :: "hmac \<Rightarrow> delivery_request \<Rightarrow> string \<Rightarrow> bool" where
  "signed hmac req secret \<equiv> map lower_ascii (js_trim (nullish (dr_signature req) [])) =
     computeWebhookSignature hmac secret (nullish (dr_timestamp req) []) (dr_body req)"

abbreviation verified :: "hmac \<Rightarrow> (string \<Rightarrow> jsnum) \<Rightarrow> env \<Rightarrow> int \<Rightarrow> delivery_request \<Rightarrow> secrets \<Rightarrow> WebhookVerificationResult" where
  "verified hmac to_number e clock req t \<equiv> verifyWebhookSignature hmac to_number
     (secret_input (getSecretState True DEFAULT_WEBHOOK_SECRET_ID t) e (request_input req clock))"

lemma preflight_size: "checkWebhookPreflight cd body ct None = Inr v \<Longrightarrow> length body \<le> DEFAULT_MAX_WEBHOOK_BODY_BYTES"
  by (auto simp: checkWebhookPreflight_def Let_def split: if_splits)

lemma match_secret_iff:
  "collision_free hmac a \<Longrightarrow> match_secret hmac a ts body xs \<noteq> None \<longleftrightarrow> (\<exists>(v, p) \<in> set xs. a = computeWebhookSignature hmac v ts body)"
  by (induction xs) (auto simp: collision_free_def split: if_splits)

lemma verify_ok:
  assumes "nullish (vi_secret i) [] \<noteq> []" "nullish (vi_deliveryId i) [] \<noteq> []" "nullish (vi_timestamp i) [] \<noteq> []"
    "nullish (vi_signature i) [] \<noteq> []" "length (vi_rawBody i) \<le> nullish (vi_maxBodyBytes i) DEFAULT_MAX_WEBHOOK_BODY_BYTES"
    "to_number (nullish (vi_timestamp i) []) = Finite (of_int n)" "0 < n" "vi_isDuplicateDelivery i = None"
  shows "vr_ok (verifyWebhookSignature hmac to_number i) \<longleftrightarrow>
    \<bar>vi_now i - n\<bar> \<le> nullish (vi_toleranceSeconds i) DEFAULT_WEBHOOK_TOLERANCE_SECONDS \<and>
    match_secret hmac (map lower_ascii (js_trim (nullish (vi_signature i) []))) (nullish (vi_timestamp i) []) (vi_rawBody i)
      (candidate_secrets i (nullish (vi_secret i) [])) \<noteq> None"
  using assms by (auto simp: verifyWebhookSignature_def Let_def refuse_def split: option.split)

text \<open>With a row in the table that keeps both times of the previous secret.\<close>

definition row_ok :: "WebhookSecretState \<Rightarrow> bool" where
  "row_ok r \<longleftrightarrow> (sc_previousSecret r = None \<longleftrightarrow> sc_previousSecretRotatedAt r = None) \<and>
     (sc_previousSecret r = None \<longleftrightarrow> sc_previousSecretExpiresAt r = None)"

definition secret_valid :: "WebhookSecretState \<Rightarrow> int \<Rightarrow> string \<Rightarrow> bool" where
  "secret_valid r clock s \<longleftrightarrow>
     s = sc_currentSecret r \<or> s \<noteq> [] \<and> sc_previousSecret r = Some s \<and> clock \<le> nullish (sc_previousSecretExpiresAt r) 0"

lemma verified_iff:
  assumes "well_formed cd to_number req n" "map_get t DEFAULT_WEBHOOK_SECRET_ID = Some r" "row_ok r" "sc_currentSecret r \<noteq> []"
    and "collision_free hmac (map lower_ascii (js_trim (nullish (dr_signature req) [])))"
  shows "vr_ok (verified hmac to_number e clock req t) \<longleftrightarrow>
    \<bar>clock - n\<bar> \<le> DEFAULT_WEBHOOK_TOLERANCE_SECONDS \<and> (\<exists>s. secret_valid r clock s \<and> signed hmac req s)"
proof -
  let ?i = "secret_input (getSecretState True DEFAULT_WEBHOOK_SECRET_ID t) e (request_input req clock)"
  let ?sig = "map lower_ascii (js_trim (nullish (dr_signature req) []))"
  have i: "vi_secret ?i = Some (sc_currentSecret r)" "vi_deliveryId ?i = dr_deliveryId req" "vi_timestamp ?i = dr_timestamp req"
    "vi_signature ?i = dr_signature req" "vi_rawBody ?i = dr_body req" "vi_maxBodyBytes ?i = None" "vi_isDuplicateDelivery ?i = None"
    "vi_now ?i = clock" "vi_toleranceSeconds ?i = None"
    using assms(2) by (auto simp: secret_input_def getSecretState_def request_input_def Let_def split: option.split)
  have c: "candidate_secrets ?i (sc_currentSecret r) = (sc_currentSecret r, False) #
      (case sc_previousSecret r of None \<Rightarrow> [] | Some p \<Rightarrow> if p \<noteq> [] \<and> clock \<le> nullish (sc_previousSecretExpiresAt r) 0 then [(p, True)] else [])"
    using assms(2,3) by (auto simp: secret_input_def getSecretState_def request_input_def Let_def candidate_secrets_def previous_expired_def
        row_ok_def split: option.splits)
  have v: "vr_ok (verifyWebhookSignature hmac to_number ?i) \<longleftrightarrow> \<bar>clock - n\<bar> \<le> DEFAULT_WEBHOOK_TOLERANCE_SECONDS \<and>
      match_secret hmac ?sig (nullish (dr_timestamp req) []) (dr_body req) (candidate_secrets ?i (sc_currentSecret r)) \<noteq> None"
    using verify_ok [of ?i to_number n hmac] assms(1,4) preflight_size by (auto simp: i well_formed_def)
  show ?thesis unfolding v match_secret_iff [OF assms(5)] c
    by (auto simp: secret_valid_def split: option.splits if_splits)
qed


definition clear_all :: "(bool \<times> int) list \<Rightarrow> secrets \<Rightarrow> secrets" where
  "clear_all cs t = foldl (\<lambda>t (ok, c). snd (clearExpiredPreviousSecret ok DEFAULT_WEBHOOK_SECRET_ID c t)) t cs"

lemma clear_all_row:
  assumes "map_get t DEFAULT_WEBHOOK_SECRET_ID = Some r" "row_ok r" "\<forall>(ok, c) \<in> set cs. c \<le> clock"
  shows "\<exists>r'. map_get (clear_all cs t) DEFAULT_WEBHOOK_SECRET_ID = Some r' \<and> row_ok r' \<and> sc_currentSecret r' = sc_currentSecret r \<and>
    (r' = r \<or> sc_previousSecret r' = None \<and> nullish (sc_previousSecretExpiresAt r) 0 \<le> clock)"
  using assms unfolding clear_all_def
proof (induction cs arbitrary: t r)
  case (Cons x cs)
  obtain ok c where x: "x = (ok, c)" by (cases x)
  let ?t = "snd (clearExpiredPreviousSecret ok DEFAULT_WEBHOOK_SECRET_ID c t)"
  have "\<exists>r1. map_get ?t DEFAULT_WEBHOOK_SECRET_ID = Some r1 \<and> row_ok r1 \<and> sc_currentSecret r1 = sc_currentSecret r \<and>
    (r1 = r \<or> sc_previousSecret r1 = None \<and> nullish (sc_previousSecretExpiresAt r) 0 \<le> clock)"
    using Cons.prems x by (auto simp: clearExpiredPreviousSecret_def row_ok_def split: option.splits)
  then obtain r1 where r1: "map_get ?t DEFAULT_WEBHOOK_SECRET_ID = Some r1" "row_ok r1" "sc_currentSecret r1 = sc_currentSecret r"
    "r1 = r \<or> sc_previousSecret r1 = None \<and> nullish (sc_previousSecretExpiresAt r) 0 \<le> clock" by blast
  have "\<exists>r'. map_get (foldl (\<lambda>t (ok, c). snd (clearExpiredPreviousSecret ok DEFAULT_WEBHOOK_SECRET_ID c t)) ?t cs) DEFAULT_WEBHOOK_SECRET_ID = Some r' \<and>
    row_ok r' \<and> sc_currentSecret r' = sc_currentSecret r1 \<and>
    (r' = r1 \<or> sc_previousSecret r' = None \<and> nullish (sc_previousSecretExpiresAt r1) 0 \<le> clock)"
    by (rule Cons.IH [OF r1(1,2)]) (use Cons.prems(3) in auto)
  then show ?case using r1(3,4) x by auto
qed auto

text \<open>A rotation overlaps: after a rotation of the secret, and however many clean-ups at times up to the present, failed ones
  included, a well-formed delivery within the tolerance is accepted under the new and the old secret before the end of the grace
  window and under the new one only after it.\<close>

theorem rotation_overlap:
  assumes "map_get t DEFAULT_WEBHOOK_SECRET_ID = Some r" "sc_currentSecret r \<noteq> []" "ri_newSecret inp \<noteq> []"
    and "well_formed cd to_number req n" "\<bar>clock - n\<bar> \<le> DEFAULT_WEBHOOK_TOLERANCE_SECONDS" "\<forall>(ok, c) \<in> set cs. c \<le> clock"
    and "collision_free hmac (map lower_ascii (js_trim (nullish (dr_signature req) [])))"
    and "expiry = nullish (ri_rotatedAt inp) now + nullish (ri_graceWindowSeconds inp) DEFAULT_WEBHOOK_SECRET_GRACE_WINDOW_SECONDS"
    and "v = vr_ok (verified hmac to_number e clock req (clear_all cs (snd (rotateSecret True DEFAULT_WEBHOOK_SECRET_ID inp now t))))"
  shows "(clock < expiry \<longrightarrow> (v \<longleftrightarrow> signed hmac req (ri_newSecret inp) \<or> signed hmac req (sc_currentSecret r))) \<and>
    (expiry < clock \<longrightarrow> (v \<longleftrightarrow> signed hmac req (ri_newSecret inp)))"
proof -
  let ?t = "snd (rotateSecret True DEFAULT_WEBHOOK_SECRET_ID inp now t)"
  let ?r = "r\<lparr>sc_currentSecret := ri_newSecret inp, sc_previousSecret := Some (sc_currentSecret r),
      sc_previousSecretRotatedAt := Some (nullish (ri_rotatedAt inp) now), sc_previousSecretExpiresAt := Some expiry\<rparr>"
  have t: "map_get ?t DEFAULT_WEBHOOK_SECRET_ID = Some ?r" using assms(1,8) by (simp add: rotateSecret_def Let_def)
  have "row_ok ?r" by (simp add: row_ok_def)
  from clear_all_row [OF t this assms(6)] obtain r' where r': "map_get (clear_all cs ?t) DEFAULT_WEBHOOK_SECRET_ID = Some r'" "row_ok r'"
    "sc_currentSecret r' = ri_newSecret inp" "r' = ?r \<or> sc_previousSecret r' = None \<and> expiry \<le> clock" by auto
  have "v \<longleftrightarrow> (\<exists>s. secret_valid r' clock s \<and> signed hmac req s)"
    using verified_iff [OF assms(4) r'(1,2) _ assms(7), of e clock] assms(3,5,9) r'(3) by simp
  then show ?thesis using r'(3,4) assms(2) by (auto simp: secret_valid_def)
qed

section \<open>Each identifier once\<close>

type_synonym arrival = "receive_env \<times> delivery_request \<times> secrets"

abbreviation receive_mem :: "codec \<Rightarrow> hmac \<Rightarrow> (string \<Rightarrow> jsnum) \<Rightarrow> arrival \<Rightarrow> InMemoryDedupCache \<Rightarrow> received \<times> InMemoryDedupCache" where
  "receive_mem cd hmac to_number \<equiv> \<lambda>(e, req, t) c. receive cd hmac to_number mem_add e req t c"

definition receive_all :: "codec \<Rightarrow> hmac \<Rightarrow> (string \<Rightarrow> jsnum) \<Rightarrow> InMemoryDedupCache \<Rightarrow> arrival list \<Rightarrow> InMemoryDedupCache" where
  "receive_all cd hmac to_number = foldl (\<lambda>c x. snd (receive_mem cd hmac to_number x c))"

lemma receive_cache:
  "snd (receive cd hmac to_number add e req t c) = c \<or>
   snd (receive cd hmac to_number add e req t c) = snd (add c ''webhook'' (nullish (dr_deliveryId req) []) (rv_now e))"
  by (auto simp: receive_def Let_def split: sum.split prod.split)

lemma received_iff:
  "fst (receive cd hmac to_number add e req t c) = Received d ev v \<Longrightarrow>
   d = nullish (dr_deliveryId req) [] \<and> fst (add c ''webhook'' d (rv_now e)) \<and>
   snd (receive cd hmac to_number add e req t c) = snd (add c ''webhook'' d (rv_now e))"
  by (auto simp: receive_def Let_def split: sum.splits prod.splits if_splits)

lemma receive_all_adds:
  "\<exists>xs. receive_all cd hmac to_number c as = foldl (\<lambda>c (s', e', t). snd (mem_add c s' e' t)) c xs \<and> length xs \<le> length as \<and>
     (\<forall>(s', e', t) \<in> set xs. t \<in> (\<lambda>(e, _, _). rv_now e) ` set as)"
proof (induction as arbitrary: c)
  case (Cons a as)
  obtain e req t where a: "a = (e, req, t)" by (cases a)
  obtain xs where xs: "receive_all cd hmac to_number (snd (receive_mem cd hmac to_number a c)) as =
      foldl (\<lambda>c (s', e', t). snd (mem_add c s' e' t)) (snd (receive_mem cd hmac to_number a c)) xs"
    "length xs \<le> length as" "\<forall>(s', e', t) \<in> set xs. t \<in> (\<lambda>(e, _, _). rv_now e) ` set as" using Cons by blast
  have "receive_all cd hmac to_number c (a # as) = receive_all cd hmac to_number (snd (receive_mem cd hmac to_number a c)) as"
    by (simp add: receive_all_def)
  then show ?case
    using receive_cache [of cd hmac to_number mem_add e req t c] xs a
    by (elim disjE) (intro exI [of _ xs], auto, intro exI [of _ "(''webhook'', nullish (dr_deliveryId req) [], rv_now e) # xs"], auto)
qed (auto simp: receive_all_def intro: exI [of _ "[]"])

text \<open>Each delivery identifier is accepted once: after a delivery was accepted, no delivery with the same identifier is accepted within
  the window of the cache, whatever its body, time and secret and whatever arrives in between, as long as fewer than
  \<open>DEDUP_CACHE_MAX\<close> deliveries do.\<close>

theorem accepted_once:
  assumes "mem_ok window c" "fst (receive cd hmac to_number mem_add e0 req0 t0 c) = Received d ev v"
    and "length as < DEDUP_CACHE_MAX" "\<forall>(e, req, t) \<in> set as. rv_now e < rv_now e0 + window" "rv_now e1 < rv_now e0 + window"
    and "dr_deliveryId req1 = Some d"
  shows "\<nexists>ev v. fst (receive cd hmac to_number mem_add e1 req1 t1
    (receive_all cd hmac to_number (snd (receive cd hmac to_number mem_add e0 req0 t0 c)) as)) = Received d ev v"
proof -
  note r = received_iff [OF assms(2)]
  obtain xs where xs: "receive_all cd hmac to_number (snd (mem_add c ''webhook'' d (rv_now e0))) as =
      foldl (\<lambda>c (s', e', t). snd (mem_add c s' e' t)) (snd (mem_add c ''webhook'' d (rv_now e0))) xs"
    "length xs \<le> length as" "\<forall>(s', e', t) \<in> set xs. t \<in> (\<lambda>(e, _, _). rv_now e) ` set as" using receive_all_adds by blast
  have "\<not> fst (mem_add (foldl (\<lambda>c (s', e', t). snd (mem_add c s' e' t)) (snd (mem_add c ''webhook'' d (rv_now e0))) xs) ''webhook'' d (rv_now e1))"
    by (rule mem.at_most_once [OF assms(1) _ _ _ assms(5)]) (use r xs assms(3,4) in fastforce)+
  then show ?thesis using received_iff [of cd hmac to_number mem_add e1 req1 t1] xs(1) r by metis
qed

text \<open>The identifier is not signed: whoever saw an accepted delivery can have it accepted again, in the same second, under any
  identifier that the cache does not hold.\<close>

theorem accepted_again_under_new_id:
  assumes "fst (receive cd hmac to_number mem_add e req t c) = Received d ev v" "d' \<noteq> []"
    and "c' = snd (receive cd hmac to_number mem_add e req t c)" "\<not> fst (mem_has c' ''webhook'' d' (rv_now e))"
  shows "fst (receive cd hmac to_number mem_add e (req\<lparr>dr_deliveryId := Some d'\<rparr>) t c') = Received d' ev v"
proof -
  have n: "fst (mem_add c' ''webhook'' d' (rv_now e))" using assms(4)
    by (cases "isLive (dd_key ''webhook'' d') c' (rv_now e)") (simp add: mem_has_def mem_add_def Let_def)
  let ?i = "\<lambda>req. secret_input (getSecretState (rv_db_ok e) DEFAULT_WEBHOOK_SECRET_ID t) (rv_env e) (request_input req (rv_clock e))"
  have i: "?i (req\<lparr>dr_deliveryId := Some d'\<rparr>) = (?i req)\<lparr>vi_deliveryId := Some d'\<rparr>"
    by (auto simp: secret_input_def request_input_def Let_def split: sum.split option.split)
  have "vr_ok (verifyWebhookSignature hmac to_number (?i req))" "nullish (vi_isDuplicateDelivery (?i req)) (\<lambda>_. False) = (\<lambda>_. False)"
    using assms(1) by (auto simp: receive_def Let_def secret_input_def request_input_def split: sum.splits prod.splits if_splits option.splits)
  then have "vr_ok (verifyWebhookSignature hmac to_number ((?i req)\<lparr>vi_deliveryId := Some d'\<rparr>))"
    using assms(2) by (auto simp: verifyWebhookSignature_def Let_def refuse_def candidate_secrets_def previous_expired_def
        split: if_splits jsnum.splits option.splits)
  then show ?thesis using assms(1) n i
    by (auto simp: receive_def Let_def split: sum.splits prod.splits if_splits)
qed


definition demo_hmac :: hmac where "demo_hmac secret payload = secret @ '':'' @ payload"

definition demo_codec :: codec where "demo_codec = \<lparr>cd_decode = map of_char, cd_parse = (\<lambda>_. Some (JObject []))\<rparr>"

definition demo_number :: "string \<Rightarrow> jsnum" where
  "demo_number s = (case js_parse_int s of Some n \<Rightarrow> Finite (of_int n) | None \<Rightarrow> NaN)"

definition demo_delivery :: delivery_request where
  "demo_delivery = \<lparr>dr_body = ''{}'', dr_contentType = Some ''application/json'', dr_deliveryId = Some ''d1'', dr_timestamp = Some ''1000'',
     dr_signature = Some ''old:1000.{}'', dr_event = None\<rparr>"

definition demo_secrets :: secrets where
  "demo_secrets = [(DEFAULT_WEBHOOK_SECRET_ID, \<lparr>sc_currentSecret = ''old'', sc_previousSecret = None, sc_previousSecretRotatedAt = None,
     sc_previousSecretExpiresAt = None\<rparr>)]"

definition demo_rotation :: RotateSecretInput where
  "demo_rotation = \<lparr>ri_newSecret = ''new'', ri_graceWindowSeconds = Some 60, ri_rotatedAt = None\<rparr>"

definition demo_receive_env :: receive_env where
  "demo_receive_env = \<lparr>rv_db_ok = True, rv_clock = 1000, rv_env = (\<lambda>_. None), rv_now = 1000000\<rparr>"

lemma demo_collision_free: "collision_free demo_hmac a"
  by (simp add: collision_free_def constantTimeCompare_def demo_hmac_def)

lemma demo_well_formed: "well_formed demo_codec demo_number demo_delivery 1000"
  unfolding well_formed_def by (intro conjI exI [of _ "JObject []"]) code_simp+

theorem rotation_overlap_witness:
  "vr_ok (verified demo_hmac demo_number (\<lambda>_. None) 1050 demo_delivery
     (clear_all [(True, 1040)] (snd (rotateSecret True DEFAULT_WEBHOOK_SECRET_ID demo_rotation 1000 demo_secrets)))) \<and>
   \<not> vr_ok (verified demo_hmac demo_number (\<lambda>_. None) 1070 demo_delivery
     (clear_all [(True, 1040)] (snd (rotateSecret True DEFAULT_WEBHOOK_SECRET_ID demo_rotation 1000 demo_secrets))))"
proof -
  have g: "map_get demo_secrets DEFAULT_WEBHOOK_SECRET_ID = Some (snd (hd demo_secrets))" by (simp add: demo_secrets_def)
  have c: "sc_currentSecret (snd (hd demo_secrets)) \<noteq> []" "ri_newSecret demo_rotation \<noteq> []" by (simp_all add: demo_secrets_def demo_rotation_def)
  have s: "signed demo_hmac demo_delivery (sc_currentSecret (snd (hd demo_secrets)))" "\<not> signed demo_hmac demo_delivery (ri_newSecret demo_rotation)"
    by code_simp+
  note r = rotation_overlap [OF g c demo_well_formed _ _ demo_collision_free refl refl, where now = 1000 and cs = "[(True, 1040)]" and e = "\<lambda>_. None"]
  have "1050 < nullish (ri_rotatedAt demo_rotation) 1000 + nullish (ri_graceWindowSeconds demo_rotation) DEFAULT_WEBHOOK_SECRET_GRACE_WINDOW_SECONDS"
    "nullish (ri_rotatedAt demo_rotation) 1000 + nullish (ri_graceWindowSeconds demo_rotation) DEFAULT_WEBHOOK_SECRET_GRACE_WINDOW_SECONDS < 1070"
    by (simp_all add: demo_rotation_def)
  then show ?thesis using r [of 1050] r [of 1070] s by (simp add: DEFAULT_WEBHOOK_TOLERANCE_SECONDS_def)
qed

lemma demo_received:
  "fst (receive demo_codec demo_hmac demo_number mem_add demo_receive_env demo_delivery demo_secrets (new_InMemoryDedupCache None)) =
     Received ''d1'' None (JObject [])"
  by code_simp

theorem accepted_once_witness:
  "\<nexists>ev v. fst (receive demo_codec demo_hmac demo_number mem_add demo_receive_env demo_delivery demo_secrets
    (snd (receive demo_codec demo_hmac demo_number mem_add demo_receive_env demo_delivery demo_secrets (new_InMemoryDedupCache None)))) = Received ''d1'' ev v"
proof -
  have "mem_ok 86400000 (new_InMemoryDedupCache None)"
    by (simp add: mem_ok_def new_InMemoryDedupCache_def DEDUP_WINDOW_SECONDS_DEFAULT_def map_wf_def DEDUP_CACHE_MAX_def)
  from accepted_once [OF this demo_received, of "[]" demo_receive_env demo_delivery] show ?thesis
    by (simp add: DEDUP_CACHE_MAX_def receive_all_def demo_delivery_def)
qed

theorem accepted_again_under_new_id_witness:
  "fst (receive demo_codec demo_hmac demo_number mem_add demo_receive_env (demo_delivery\<lparr>dr_deliveryId := Some ''d2''\<rparr>) demo_secrets
    (snd (receive demo_codec demo_hmac demo_number mem_add demo_receive_env demo_delivery demo_secrets (new_InMemoryDedupCache None)))) =
     Received ''d2'' None (JObject [])"
proof -
  have "\<not> fst (mem_has (snd (receive demo_codec demo_hmac demo_number mem_add demo_receive_env demo_delivery demo_secrets
      (new_InMemoryDedupCache None))) ''webhook'' ''d2'' (rv_now demo_receive_env))" by code_simp
  from accepted_again_under_new_id [OF demo_received _ refl this] show ?thesis by simp
qed

end
