(* ===== verification/Webhook_Dispatch.thy ===== *)
theory Webhook_Dispatch
  imports Ssrf_Guard Webhook_Retry Webhook_Inbound
begin

text \<open>
  The webhook dispatcher, \<open>src/webhooks/dispatcher.ts\<close>: one signed request with its redirects, guarded by \<open>Ssrf_Guard\<close> and by the
  breaker of \<open>Webhook_Retry\<close>, the check of an endpoint and the older \<open>dispatchWebhook\<close>.

  The network is a record of answers: the resolver's answers and the replies of the receivers are numbered, so that the same
  question may be answered differently later. A \<open>world\<close> counts the answers used and logs every request with the addresses
  its connection may go to. \<open>node:http\<close> connects to an address literal directly and asks the \<open>lookup\<close> function it is
  given otherwise; the global \<open>fetch\<close> resolves by itself. The redaction of error texts and the HMAC are arguments.

  The lemmas: \<open>dispatch\<close> connects to accepted addresses only, whatever the resolver answers and wherever it is redirected; the
  two \<open>fetch\<close>-based functions do not keep that promise.
\<close>

section \<open>Network\<close>

datatype send_error = Guard_rejected string | Timeout_error string | Other_error string

record dispatch_reply =
  rp_status :: int
  rp_statusText :: string
  rp_location :: "string option"

record http_request =
  rq_method :: string
  rq_url :: string
  rq_headers :: "(string \<times> string) list"
  rq_body :: "string option"

text \<open>\<open>nt_auto\<close>: the socket layer asks for all addresses of a host. A reply may depend on its number, the request and the addresses.\<close>

record network = platform +
  nt_auto :: bool
  nt_reply :: "nat \<Rightarrow> http_request \<Rightarrow> string list \<Rightarrow> send_error + dispatch_reply"
  nt_allowlist :: jsval

record 'b world =
  wo_lookups :: nat
  wo_sent :: "(http_request \<times> string list) list"
  wo_breaker :: 'b

definition webhookAllowlist :: "network \<Rightarrow> jsval" where
  "webhookAllowlist nt = nt_allowlist nt"

abbreviation guard_options :: "network \<Rightarrow> target_options option" where
  "guard_options nt \<equiv> Some \<lparr>to_requireHttps = None, to_allowlist = webhookAllowlist nt\<rparr>"

definition guard :: "network \<Rightarrow> string \<Rightarrow> 'b world \<Rightarrow> (string + unit) \<times> 'b world" where
  "guard nt url w =
     (case validateWebhookTarget (platform.truncate nt) (wo_lookups w) (JString url) (guard_options nt) of
        (r, k) \<Rightarrow> (r, w\<lparr>wo_lookups := k\<rparr>))"

definition asLookupError :: "string \<Rightarrow> send_error" where
  "asLookupError validationError = Guard_rejected validationError"

definition lookupWebhookTarget :: "network \<Rightarrow> bool \<Rightarrow> nat \<Rightarrow> string \<Rightarrow> send_error + string list" where
  "lookupWebhookTarget nt wantsAll k hostname =
     (if wantsAll
      then case pf_dns_all nt k hostname of
             None \<Rightarrow> Inl (Other_error ''ENOTFOUND'')
           | Some addresses \<Rightarrow>
               (case validate_addresses (platform.truncate nt) addresses of Inl e \<Rightarrow> Inl (asLookupError e) | Inr _ \<Rightarrow> Inr addresses)
      else case pf_dns_one nt k hostname of
             None \<Rightarrow> Inl (Other_error ''ENOTFOUND'')
           | Some address \<Rightarrow>
               (case validateWebhookIPAddress (pf_isIP nt) (JString address) of Inl e \<Rightarrow> Inl (asLookupError e) | Inr _ \<Rightarrow> Inr [address]))"

definition log_sent :: "http_request \<Rightarrow> string list \<Rightarrow> 'b world \<Rightarrow> 'b world" where
  "log_sent req addresses w = w\<lparr>wo_sent := wo_sent w @ [(req, addresses)]\<rparr>"

section \<open>Requests with \<open>node:http\<close>\<close>

definition sendWebhookHttpRequest :: "network \<Rightarrow> http_request \<Rightarrow> 'b world \<Rightarrow> (send_error + dispatch_reply) \<times> 'b world" where
  "sendWebhookHttpRequest nt req w =
     (case pf_URL nt (rq_url req) of
        None \<Rightarrow> (Inl (Other_error ''Invalid URL''), w)
      | Some parsedUrl \<Rightarrow>
          if u_protocol parsedUrl \<noteq> ''https:'' \<and> u_protocol parsedUrl \<noteq> ''http:'' then (Inl (Other_error ''Invalid protocol''), w)
          else let host = strip_brackets (u_hostname parsedUrl)
               in if pf_isIP nt host \<noteq> 0
                  then (nt_reply nt (length (wo_sent w)) req [host], log_sent req [host] w)
                  else case lookupWebhookTarget nt (nt_auto nt) (wo_lookups w) host of
                         Inl e \<Rightarrow> (Inl e, w\<lparr>wo_lookups := Suc (wo_lookups w)\<rparr>)
                       | Inr addresses \<Rightarrow>
                           (nt_reply nt (length (wo_sent w)) req addresses, log_sent req addresses (w\<lparr>wo_lookups := Suc (wo_lookups w)\<rparr>)))"

text \<open>The loop of \<open>followRedirects\<close>; a request keeps its method, headers and body.\<close>

function followRedirects ::
  "network \<Rightarrow> http_request \<Rightarrow> nat \<Rightarrow> nat \<Rightarrow> 'b world \<Rightarrow> (send_error + dispatch_reply) \<times> 'b world" where
  "followRedirects nt req maxRedirects redirectCount w =
     (case sendWebhookHttpRequest nt req w of
        (Inl e, w1) \<Rightarrow> (Inl e, w1)
      | (Inr response, w1) \<Rightarrow>
          if rp_status response \<ge> 300 \<and> rp_status response < 400
          then let location = nullish (rp_location response) []
               in if location = [] then (Inr response, w1)
                  else if redirectCount \<ge> maxRedirects then (Inl (Other_error ''Too many redirects''), w1)
                  else case pf_resolve nt location (rq_url req) of
                         None \<Rightarrow> (Inl (Other_error ''Invalid URL''), w1)
                       | Some redirectUrl \<Rightarrow>
                           (case guard nt redirectUrl w1 of
                              (Inl e, w2) \<Rightarrow> (Inl (Guard_rejected e), w2)
                            | (Inr _, w2) \<Rightarrow> followRedirects nt (req\<lparr>rq_url := redirectUrl\<rparr>) maxRedirects (Suc redirectCount) w2)
          else (Inr response, w1))"
  by pat_completeness auto

termination by (relation "measure (\<lambda>(nt, req, m, n, w). Suc m - n)") auto

declare followRedirects.simps [simp del]

section \<open>Dispatch\<close>

record WebhookDispatchOptions =
  do_url :: string
  do_secret :: string
  do_payload :: string
  do_deliveryId :: string
  do_eventType :: string
  do_attemptNumber :: "nat option"
  do_correlationId :: "string option"

record WebhookDispatchResult =
  ds_success :: bool
  ds_statusCode :: "int option"
  ds_error :: "string option"
  ds_nextRetryAt :: "int option"
  ds_shouldRetry :: bool

record trace_context =
  tc_traceId :: string
  tc_parentId :: string
  tc_sampled :: bool

text \<open>The surroundings of a dispatch: the times at which its clock is read, the random draw, the correlation identifier and the trace
  of the calling scope.\<close>

record dispatch_env =
  de_start :: millis
  de_gate :: millis
  de_defer :: millis
  de_attempt :: millis
  de_outcome :: millis
  de_retry :: millis
  de_rnd :: rat
  de_correlation :: string
  de_trace :: "trace_context option"

record ('b) dispatcher =
  dp_policy :: EnhancedRetryPolicy
  dp_breaker :: "'b breaker_ops"
  dp_getState :: "'b \<Rightarrow> string \<Rightarrow> WebhookCircuitBreakerRecord option"
  dp_hmac :: hmac
  dp_redact :: "string \<Rightarrow> string"

definition CORRELATION_ID_HEADER :: string where "CORRELATION_ID_HEADER = ''x-correlation-id''"

definition buildTraceparent :: "trace_context \<Rightarrow> string" where
  "buildTraceparent t = ''00-'' @ tc_traceId t @ ''-'' @ tc_parentId t @ ''-'' @ (if tc_sampled t then ''01'' else ''00'')"

definition request_headers :: "WebhookDispatchOptions \<Rightarrow> string \<Rightarrow> string \<Rightarrow> string \<Rightarrow> trace_context option \<Rightarrow> (string \<times> string) list" where
  "request_headers opts timestamp signature correlationId trace =
     [(''Content-Type'', ''application/json''), (''x-fluxora-delivery-id'', do_deliveryId opts), (''x-fluxora-timestamp'', timestamp),
      (''x-fluxora-signature'', signature), (''x-fluxora-event'', do_eventType opts), (''User-Agent'', ''Fluxora-Webhook-Dispatcher/2.0'')] @
     (if correlationId \<noteq> [] \<and> correlationId \<noteq> ''unknown'' then [(CORRELATION_ID_HEADER, correlationId)] else []) @
     (case trace of None \<Rightarrow> [] | Some t \<Rightarrow> [(''traceparent'', buildTraceparent t)])"

definition sendRequest ::
  "network \<Rightarrow> WebhookDispatchOptions \<Rightarrow> string \<Rightarrow> string \<Rightarrow> string \<Rightarrow> trace_context option \<Rightarrow> 'b world \<Rightarrow>
   (send_error + dispatch_reply) \<times> 'b world" where
  "sendRequest nt opts timestamp signature correlationId trace w =
     followRedirects nt \<lparr>rq_method = ''POST'', rq_url = do_url opts,
       rq_headers = request_headers opts timestamp signature correlationId trace, rq_body = Some (do_payload opts)\<rparr> 1 0 w"

definition failed :: "int option \<Rightarrow> string \<Rightarrow> int option \<Rightarrow> WebhookDispatchResult" where
  "failed statusCode err nextRetryAt =
     \<lparr>ds_success = False, ds_statusCode = statusCode, ds_error = Some err, ds_nextRetryAt = nextRetryAt, ds_shouldRetry = nextRetryAt \<noteq> None\<rparr>"

text \<open>The end of a failed attempt: the breaker is told of it where it counts, and a retry is planned where one is allowed.\<close>

definition conclude_failure ::
  "'b dispatcher \<Rightarrow> dispatch_env \<Rightarrow> string \<Rightarrow> nat \<Rightarrow> WebhookDeliveryAttempt \<Rightarrow> 'b world \<Rightarrow> WebhookDispatchResult \<times> 'b world" where
  "conclude_failure dp env url attemptNumber attempt w =
     (let (consecutiveFailures, b) =
            (if countsTowardCircuitBreaker attempt (dp_policy dp)
             then (case bo_failure (dp_breaker dp) (wo_breaker w) url (breaker_policy (dp_policy dp)) (de_outcome env) of
                     (r, b) \<Rightarrow> (cb_consecutiveFailures r, b))
             else (case dp_getState dp (wo_breaker w) url of None \<Rightarrow> 0 | Some r \<Rightarrow> cb_consecutiveFailures r, wo_breaker w));
          err = nullish (att_error attempt) []
      in (if shouldRetry attempt attemptNumber (dp_policy dp) consecutiveFailures
          then failed (att_statusCode attempt) err (Some (calculateNextRetryTime attemptNumber (dp_policy dp) (de_retry env) None (de_rnd env)))
          else failed (att_statusCode attempt) err None,
          w\<lparr>wo_breaker := b\<rparr>))"

definition dispatch ::
  "network \<Rightarrow> 'b dispatcher \<Rightarrow> dispatch_env \<Rightarrow> WebhookDispatchOptions \<Rightarrow> 'b world \<Rightarrow> WebhookDispatchResult \<times> 'b world" where
  "dispatch nt dp env opts w =
     (let url = do_url opts; attemptNumber = nullish (do_attemptNumber opts) 1; timestamp = show_int (de_start env div 1000);
          correlationId = nullish (do_correlationId opts) (de_correlation env)
      in case guard nt url w of
           (Inl e, w1) \<Rightarrow> (failed None e None, w1)
         | (Inr _, w1) \<Rightarrow>
             (case bo_check (dp_breaker dp) (wo_breaker w1) url (breaker_policy (dp_policy dp)) (de_gate env) of
                (gate, b) \<Rightarrow>
                  let w2 = w1\<lparr>wo_breaker := b\<rparr>
                  in if \<not> chk_allowed gate
                     then (failed None (''Circuit breaker '' @ (case chk_state gate of Closed \<Rightarrow> ''closed'' | Open \<Rightarrow> ''open'' | HalfOpen \<Rightarrow> ''half_open''))
                             (Some (resolveCircuitBreakerDeferral gate (dp_policy dp) (de_defer env))), w2)
                     else case sendRequest nt opts timestamp (computeWebhookSignature (dp_hmac dp) (do_secret opts) timestamp (do_payload opts))
                                 correlationId (de_trace env) w2 of
                            (Inr response, w3) \<Rightarrow>
                              if 200 \<le> rp_status response \<and> rp_status response < 300
                              then (\<lparr>ds_success = True, ds_statusCode = Some (rp_status response), ds_error = None, ds_nextRetryAt = None,
                                     ds_shouldRetry = False\<rparr>,
                                    w3\<lparr>wo_breaker := snd (bo_success (dp_breaker dp) (wo_breaker w3) url (breaker_policy (dp_policy dp)) (de_outcome env))\<rparr>)
                              else conclude_failure dp env url attemptNumber
                                     \<lparr>att_attemptNumber = attemptNumber, att_timestamp = de_attempt env, att_statusCode = Some (rp_status response),
                                      att_error = Some (dp_redact dp (''HTTP '' @ show_int (rp_status response) @ '': '' @ rp_statusText response)),
                                      att_nextRetryAt = None\<rparr> w3
                          | (Inl (Guard_rejected e), w3) \<Rightarrow> (failed None (dp_redact dp e) None, w3)
                          | (Inl (Timeout_error e), w3) \<Rightarrow> (failed None (dp_redact dp e) None, w3)
                          | (Inl (Other_error e), w3) \<Rightarrow>
                              conclude_failure dp env url attemptNumber
                                \<lparr>att_attemptNumber = attemptNumber, att_timestamp = de_attempt env, att_statusCode = None,
                                 att_error = Some (dp_redact dp e), att_nextRetryAt = None\<rparr> w3))"

section \<open>Requests with \<open>fetch\<close>\<close>

definition fetch :: "network \<Rightarrow> http_request \<Rightarrow> 'b world \<Rightarrow> (send_error + dispatch_reply) \<times> 'b world" where
  "fetch nt req w =
     (case pf_URL nt (rq_url req) of
        None \<Rightarrow> (Inl (Other_error ''Invalid URL''), w)
      | Some parsedUrl \<Rightarrow>
          let host = strip_brackets (u_hostname parsedUrl)
          in if pf_isIP nt host \<noteq> 0 then (nt_reply nt (length (wo_sent w)) req [host], log_sent req [host] w)
             else case pf_dns_all nt (wo_lookups w) host of
                    None \<Rightarrow> (Inl (Other_error ''fetch failed''), w\<lparr>wo_lookups := Suc (wo_lookups w)\<rparr>)
                  | Some addresses \<Rightarrow>
                      (nt_reply nt (length (wo_sent w)) req addresses, log_sent req addresses (w\<lparr>wo_lookups := Suc (wo_lookups w)\<rparr>)))"

function followFetchRedirects ::
  "network \<Rightarrow> http_request \<Rightarrow> nat \<Rightarrow> nat \<Rightarrow> 'b world \<Rightarrow> (send_error + dispatch_reply) \<times> 'b world" where
  "followFetchRedirects nt req maxRedirects redirectCount w =
     (case fetch nt req w of
        (Inl e, w1) \<Rightarrow> (Inl e, w1)
      | (Inr response, w1) \<Rightarrow>
          if rp_status response < 300 \<or> rp_status response \<ge> 400 then (Inr response, w1)
          else let location = nullish (rp_location response) []
               in if location = [] then (Inr response, w1)
                  else if redirectCount \<ge> maxRedirects then (Inl (Other_error ''Too many redirects''), w1)
                  else case pf_resolve nt location (rq_url req) of
                         None \<Rightarrow> (Inl (Other_error ''Invalid URL''), w1)
                       | Some redirectUrl \<Rightarrow>
                           (case guard nt redirectUrl w1 of
                              (Inl e, w2) \<Rightarrow> (Inl (Guard_rejected e), w2)
                            | (Inr _, w2) \<Rightarrow> followFetchRedirects nt (req\<lparr>rq_url := redirectUrl\<rparr>) maxRedirects (Suc redirectCount) w2))"
  by pat_completeness auto

termination by (relation "measure (\<lambda>(nt, req, m, n, w). Suc m - n)") auto

declare followFetchRedirects.simps [simp del]

definition validateEndpoint :: "network \<Rightarrow> string \<Rightarrow> 'b world \<Rightarrow> bool \<times> 'b world" where
  "validateEndpoint nt url w =
     (case followFetchRedirects nt \<lparr>rq_method = ''HEAD'', rq_url = url, rq_headers = [], rq_body = None\<rparr> 1 0 w of
        (Inl _, w1) \<Rightarrow> (False, w1)
      | (Inr response, w1) \<Rightarrow> (rp_status response < 500, w1))"

record SimpleWebhookDispatch =
  sw_url :: string
  sw_secret :: string
  sw_event :: string
  sw_payload :: string
  sw_ledger :: "int option"

text \<open>\<open>sw_payload\<close> is the payload as JSON; \<open>rolledBack\<close> is the set of ledgers that the indexer has rolled back.\<close>

definition dispatchWebhook ::
  "network \<Rightarrow> hmac \<Rightarrow> int set \<Rightarrow> millis \<Rightarrow> SimpleWebhookDispatch \<Rightarrow> 'b world \<Rightarrow> (send_error + unit) \<times> 'b world" where
  "dispatchWebhook nt hmac rolledBack now opts w =
     (case guard nt (sw_url opts) w of
        (Inl e, w1) \<Rightarrow> (Inl (Guard_rejected e), w1)
      | (Inr _, w1) \<Rightarrow>
          if (case sw_ledger opts of None \<Rightarrow> False | Some l \<Rightarrow> l \<in> rolledBack) then (Inr (), w1)
          else let timestamp = show_int (now div 1000)
               in case followFetchRedirects nt
                         \<lparr>rq_method = ''POST'', rq_url = sw_url opts,
                          rq_headers = [(''Content-Type'', ''application/json''), (''X-Fluxora-Event'', sw_event opts),
                            (''X-Fluxora-Signature'', computeWebhookSignature hmac (sw_secret opts) timestamp (sw_payload opts)),
                            (''X-Fluxora-Timestamp'', timestamp)],
                          rq_body = Some (sw_payload opts)\<rparr> 1 0 w1 of
                    (Inl e, w2) \<Rightarrow> (Inl e, w2)
                  | (Inr _, w2) \<Rightarrow> (Inr (), w2))"

section \<open>Only accepted addresses are contacted\<close>

text \<open>What the documentation of the platform says: the URL parser drops white space around its input, a host name that it returns has
  none, \<open>isIP\<close> accepts neither white space nor brackets, and the resolver answers with addresses.\<close>

definition platform_ok :: "network \<Rightarrow> bool" where
  "platform_ok nt \<longleftrightarrow>
     (\<forall>s u u'. pf_URL nt (js_trim s) = Some u \<longrightarrow> pf_URL nt s = Some u' \<longrightarrow> u_protocol u' = u_protocol u \<and> u_hostname u' = u_hostname u) \<and>
     (\<forall>s u. pf_URL nt s = Some u \<longrightarrow> js_trim (u_hostname u) = u_hostname u) \<and>
     (\<forall>s. pf_isIP nt s \<noteq> 0 \<longrightarrow> js_trim s = s \<and> strip_brackets s = s) \<and>
     (\<forall>k h a. pf_dns_one nt k h = Some a \<longrightarrow> pf_isIP nt a \<noteq> 0) \<and>
     (\<forall>k h as. pf_dns_all nt k h = Some as \<longrightarrow> (\<forall>a \<in> set as. pf_isIP nt a \<noteq> 0))"

definition public_address :: "(string \<Rightarrow> nat) \<Rightarrow> string \<Rightarrow> bool" where
  "public_address isIP a \<longleftrightarrow>
     isIP a = 6 \<and> (\<exists>w. ipv6ToBigInt a = Inr (int (unat w)) \<and> public6 w) \<or>
     isIP a = 4 \<and> (\<exists>w. ipv4ToBigInt a = Inr (int (unat w)) \<and> public4 w)"

definition allowed_url :: "network \<Rightarrow> URL \<Rightarrow> bool" where
  "allowed_url nt u \<longleftrightarrow> u_protocol u = ''https:'' \<and> validateAllowlist (u_hostname u) (webhookAllowlist nt) = Inr ()"

definition contact_ok :: "network \<Rightarrow> http_request \<times> string list \<Rightarrow> bool" where
  "contact_ok nt c \<longleftrightarrow>
     (\<exists>u. pf_URL nt (rq_url (fst c)) = Some u \<and> allowed_url nt u) \<and> (\<forall>a \<in> set (snd c). public_address (pf_isIP nt) a)"

definition guarded :: "network \<Rightarrow> string \<Rightarrow> bool" where
  "guarded nt url \<longleftrightarrow>
     (\<exists>u. pf_URL nt (js_trim url) = Some u \<and> allowed_url nt u \<and>
        (pf_isIP nt (strip_brackets (u_hostname u)) \<noteq> 0 \<longrightarrow> validateWebhookIPAddress (pf_isIP nt) (JString (u_hostname u)) = Inr ()))"

lemma truncate_fields [simp]:
  "pf_isIP (platform.truncate nt) = pf_isIP nt" "pf_URL (platform.truncate nt) = pf_URL nt" "pf_dns_one (platform.truncate nt) = pf_dns_one nt"
  by (simp_all add: platform.defs)

lemma guard_world: "wo_sent (snd (guard nt url w)) = wo_sent w" "wo_breaker (snd (guard nt url w)) = wo_breaker w"
  by (simp_all add: guard_def split: prod.split)

lemma guard_sent: "guard nt url w = (r, w') \<Longrightarrow> wo_sent w' = wo_sent w"
  using guard_world(1) [of nt url w] by simp

lemma guard_breaker: "guard nt url w = (r, w') \<Longrightarrow> wo_breaker w' = wo_breaker w"
  using guard_world(2) [of nt url w] by simp

lemma guard_accepts:
  assumes "fst (guard nt url w) = Inr ()"
  shows "guarded nt url"
proof -
  have g: "fst (validateWebhookTarget (platform.truncate nt) (wo_lookups w) (JString url) (guard_options nt)) = Inr ()"
    using assms by (simp add: guard_def split: prod.splits)
  then obtain u where u: "pf_URL nt (js_trim url) = Some u"
    by (auto simp: validateWebhookTarget_def Let_def split: if_splits option.splits)
  then have p: "validateProtocol u True = Inr ()" "validateAllowlist (u_hostname u) (webhookAllowlist nt) = Inr ()"
    "pf_isIP nt (strip_brackets (u_hostname u)) \<noteq> 0 \<Longrightarrow> validateWebhookIPAddress (pf_isIP nt) (JString (u_hostname u)) = Inr ()"
    using g by (auto simp: validateWebhookTarget_def Let_def split: if_splits sum.splits)
  then have "u_protocol u = ''https:''" by (simp add: validateProtocol_def split: if_splits)
  then show ?thesis using u p by (auto simp: guarded_def allowed_url_def)
qed

lemma valid_ip:
  assumes "platform_ok nt" "pf_isIP nt a \<noteq> 0" "validateWebhookIPAddress (pf_isIP nt) (JString s) = Inr ()" "strip_brackets (js_trim s) = a"
  shows "public_address (pf_isIP nt) a"
  using accepted_public [OF assms(3)] assms(4) by (auto simp: read_public_def public_address_def Let_def)

lemma clean_ip: "platform_ok nt \<Longrightarrow> pf_isIP nt a \<noteq> 0 \<Longrightarrow> strip_brackets (js_trim a) = a"
  by (simp add: platform_ok_def)

lemma validated_addresses:
  "validate_addresses pf as = Inr () \<Longrightarrow> a \<in> set as \<Longrightarrow> validateWebhookIPAddress (pf_isIP pf) (JString a) = Inr ()"
  by (induction as) (auto split: sum.splits)

lemma lookup_public:
  assumes "platform_ok nt" "lookupWebhookTarget nt wantsAll k h = Inr as" "a \<in> set as"
  shows "public_address (pf_isIP nt) a"
proof -
  have "pf_isIP nt a \<noteq> 0 \<and> validateWebhookIPAddress (pf_isIP nt) (JString a) = Inr ()"
    using assms validated_addresses [of "platform.truncate nt" as a]
    by (auto simp: lookupWebhookTarget_def platform_ok_def split: if_splits option.splits sum.splits)
  then show ?thesis using valid_ip [OF assms(1)] clean_ip [OF assms(1)] by blast
qed

lemma request_contact:
  assumes "platform_ok nt" "guarded nt (rq_url req)"
  shows "\<exists>new. wo_sent (snd (sendWebhookHttpRequest nt req w)) = wo_sent w @ new \<and> length new \<le> 1 \<and> (\<forall>c \<in> set new. fst c = req \<and> contact_ok nt c)"
proof (cases "pf_URL nt (rq_url req)")
  case (Some u)
  obtain u0 where u0: "pf_URL nt (js_trim (rq_url req)) = Some u0" "allowed_url nt u0"
    "pf_isIP nt (strip_brackets (u_hostname u0)) \<noteq> 0 \<Longrightarrow> validateWebhookIPAddress (pf_isIP nt) (JString (u_hostname u0)) = Inr ()"
    using assms(2) by (auto simp: guarded_def)
  then have h: "u_protocol u = u_protocol u0" "u_hostname u = u_hostname u0" "js_trim (u_hostname u0) = u_hostname u0"
    using assms(1) Some unfolding platform_ok_def by blast+
  have a: "allowed_url nt u" using u0(2) h by (simp add: allowed_url_def)
  have "public_address (pf_isIP nt) (strip_brackets (u_hostname u))" if "pf_isIP nt (strip_brackets (u_hostname u)) \<noteq> 0"
    using valid_ip [OF assms(1) that, of "u_hostname u"] u0(3) that h by simp
  then show ?thesis using Some a lookup_public [OF assms(1)]
    by (auto simp: sendWebhookHttpRequest_def Let_def log_sent_def contact_ok_def split: sum.split)
qed (simp add: sendWebhookHttpRequest_def)

lemma redirects_contact:
  shows "platform_ok nt \<Longrightarrow> guarded nt (rq_url req) \<Longrightarrow> \<exists>new. wo_sent (snd (followRedirects nt req m n w)) = wo_sent w @ new \<and> length new \<le> Suc (m - n) \<and>
    (\<forall>c \<in> set new. rq_method (fst c) = rq_method req \<and> rq_body (fst c) = rq_body req \<and> contact_ok nt c)"
proof (induction nt req m n w rule: followRedirects.induct)
  case (1 nt req m n w)
  obtain r w1 where s: "sendWebhookHttpRequest nt req w = (r, w1)" by (cases "sendWebhookHttpRequest nt req w")
  obtain new1 where n1: "wo_sent w1 = wo_sent w @ new1" "length new1 \<le> 1" "\<forall>c \<in> set new1. fst c = req \<and> contact_ok nt c"
    using request_contact [OF "1.prems", of w] s by auto
  show ?case
  proof (cases "\<exists>resp url w2. r = Inr resp \<and> 300 \<le> rp_status resp \<and> rp_status resp < 400 \<and> nullish (rp_location resp) [] \<noteq> [] \<and> \<not> m \<le> n \<and>
      pf_resolve nt (nullish (rp_location resp) []) (rq_url req) = Some url \<and> guard nt url w1 = (Inr (), w2)")
    case True
    then obtain resp url w2 where c: "r = Inr resp" "300 \<le> rp_status resp" "rp_status resp < 400" "nullish (rp_location resp) [] \<noteq> []" "\<not> m \<le> n"
      "pf_resolve nt (nullish (rp_location resp) []) (rq_url req) = Some url" "guard nt url w1 = (Inr (), w2)" by blast
    have "guarded nt (rq_url (req\<lparr>rq_url := url\<rparr>))" using guard_accepts [of nt url w1] c(7) by simp
    from "1.IH" [OF s [symmetric] c(1) _ refl c(4,5,6) c(7) [symmetric] refl "1.prems"(1) this] c(2,3) obtain new2 where n2:
      "wo_sent (snd (followRedirects nt (req\<lparr>rq_url := url\<rparr>) m (Suc n) w2)) = wo_sent w2 @ new2" "length new2 \<le> Suc (m - Suc n)"
      "\<forall>c \<in> set new2. rq_method (fst c) = rq_method req \<and> rq_body (fst c) = rq_body req \<and> contact_ok nt c" by auto
    have "followRedirects nt req m n w = followRedirects nt (req\<lparr>rq_url := url\<rparr>) m (Suc n) w2"
      using s c by (subst followRedirects.simps) (simp add: Let_def)
    moreover have "wo_sent w2 = wo_sent w1" using guard_world(1) [of nt url w1] c(7) by simp
    ultimately show ?thesis using n1 n2 c(5) by (intro exI [of _ "new1 @ new2"]) auto
  next
    case False
    then have "wo_sent (snd (followRedirects nt req m n w)) = wo_sent w1"
      using s by (subst followRedirects.simps) (auto simp: Let_def dest: guard_sent split: sum.split option.split prod.split)
    then show ?thesis using n1 by (intro exI [of _ new1]) auto
  qed
qed


lemma conclude_world: "wo_sent (snd (conclude_failure dp env url n att w)) = wo_sent w"
  by (simp add: conclude_failure_def Let_def split: prod.split)

text \<open>A dispatch connects to accepted addresses only. Whatever the resolver answers, the same question answered differently each time it is
  asked included, and wherever the receivers redirect to, a dispatch sends at most two requests, each with its own payload, to an
  allowed host over \<open>https\<close>, and every address that their connections may go to is a public one.\<close>

theorem dispatch_contacts_public:
  assumes "platform_ok nt"
  shows "\<exists>new. wo_sent (snd (dispatch nt dp env opts w)) = wo_sent w @ new \<and> length new \<le> 2 \<and>
    (\<forall>c \<in> set new. rq_method (fst c) = ''POST'' \<and> rq_body (fst c) = Some (do_payload opts) \<and> contact_ok nt c)"
proof (cases "guard nt (do_url opts) w")
  case (Pair g w1)
  show ?thesis
  proof (cases "g = Inr ()")
    case True
    obtain gate b where b: "bo_check (dp_breaker dp) (wo_breaker w1) (do_url opts) (breaker_policy (dp_policy dp)) (de_gate env) = (gate, b)" by force
    have ww: "wo_sent w1 = wo_sent w" using guard_world(1) [of nt "do_url opts" w] Pair by simp
    have g: "guarded nt (do_url opts)" using guard_accepts [of nt "do_url opts" w] Pair True by simp
    show ?thesis
    proof (cases "chk_allowed gate")
      case False
      then show ?thesis using Pair True b ww by (auto simp: dispatch_def Let_def)
    next
      case a: True
      let ?ts = "show_int (de_start env div 1000)"
      let ?send = "sendRequest nt opts ?ts (computeWebhookSignature (dp_hmac dp) (do_secret opts) ?ts (do_payload opts))
        (nullish (do_correlationId opts) (de_correlation env)) (de_trace env) (w1\<lparr>wo_breaker := b\<rparr>)"
      have "wo_sent (snd (dispatch nt dp env opts w)) = wo_sent (snd ?send)"
        using Pair True b a by (auto simp: dispatch_def Let_def conclude_world split: prod.split sum.split send_error.split)
      then show ?thesis
        using redirects_contact [OF assms, where m = 1 and n = 0 and w = "w1\<lparr>wo_breaker := b\<rparr>" and req = "\<lparr>rq_method = ''POST'', rq_url = do_url opts,
          rq_headers = request_headers opts ?ts (computeWebhookSignature (dp_hmac dp) (do_secret opts) ?ts (do_payload opts))
            (nullish (do_correlationId opts) (de_correlation env)) (de_trace env), rq_body = Some (do_payload opts)\<rparr>"] g ww
        by (auto simp: sendRequest_def)
    qed
  next
    case False
    then show ?thesis using Pair guard_world(1) [of nt "do_url opts" w] by (cases g) (auto simp: dispatch_def Let_def)
  qed
qed

section \<open>What the \<open>fetch\<close>-based functions contact\<close>

lemma fetch_grows: "\<exists>rest. wo_sent (snd (fetch nt req v)) = wo_sent v @ rest"
  by (auto simp: fetch_def Let_def log_sent_def split: option.split)

lemma follow_fetch: "\<exists>rest. wo_sent (snd (followFetchRedirects nt req m n v)) = wo_sent (snd (fetch nt req v)) @ rest"
proof (induction nt req m n v rule: followFetchRedirects.induct)
  case (1 nt req m n v)
  obtain r v1 where f: "fetch nt req v = (r, v1)" by (cases "fetch nt req v")
  show ?case
  proof (cases "\<exists>resp url v2. r = Inr resp \<and> 300 \<le> rp_status resp \<and> rp_status resp < 400 \<and> nullish (rp_location resp) [] \<noteq> [] \<and> \<not> m \<le> n \<and>
      pf_resolve nt (nullish (rp_location resp) []) (rq_url req) = Some url \<and> guard nt url v1 = (Inr (), v2)")
    case True
    then obtain resp url v2 where c: "r = Inr resp" "300 \<le> rp_status resp" "rp_status resp < 400" "nullish (rp_location resp) [] \<noteq> []" "\<not> m \<le> n"
      "pf_resolve nt (nullish (rp_location resp) []) (rq_url req) = Some url" "guard nt url v1 = (Inr (), v2)" by blast
    have "followFetchRedirects nt req m n v = followFetchRedirects nt (req\<lparr>rq_url := url\<rparr>) m (Suc n) v2"
      using f c by (subst followFetchRedirects.simps) (simp add: Let_def)
    moreover have "wo_sent v2 = wo_sent v1" using guard_world(1) [of nt url v1] c(7) by simp
    ultimately show ?thesis using "1.IH" [OF f [symmetric] c(1) _ refl c(4,5,6) c(7) [symmetric] refl] c(2,3) f
        fetch_grows [of nt "req\<lparr>rq_url := url\<rparr>" v2] by auto
  next
    case False
    then have "wo_sent (snd (followFetchRedirects nt req m n v)) = wo_sent v1" using f
      by (subst followFetchRedirects.simps) (auto simp: Let_def dest: guard_sent split: sum.split option.split prod.split)
    then show ?thesis using f by simp
  qed
qed

text \<open>The check of an endpoint is not guarded: whatever address a URL names is contacted.\<close>

theorem endpoint_check_unguarded:
  assumes "pf_URL nt url = Some u" "pf_isIP nt (strip_brackets (u_hostname u)) \<noteq> 0"
  shows "\<exists>rest. wo_sent (snd (validateEndpoint nt url w)) = wo_sent w @
    (\<lparr>rq_method = ''HEAD'', rq_url = url, rq_headers = [], rq_body = None\<rparr>, [strip_brackets (u_hostname u)]) # rest"
proof -
  let ?req = "\<lparr>rq_method = ''HEAD'', rq_url = url, rq_headers = [], rq_body = None\<rparr>" and ?h = "strip_brackets (u_hostname u)"
  have f: "fetch nt ?req w = (nt_reply nt (length (wo_sent w)) ?req [?h], log_sent ?req [?h] w)" using assms by (simp add: fetch_def Let_def)
  have "\<exists>rest. wo_sent (snd (followFetchRedirects nt ?req 1 0 w)) = wo_sent (log_sent ?req [?h] w) @ rest"
    using f follow_fetch [of nt ?req 1 0 w] by simp
  then show ?thesis by (auto simp: validateEndpoint_def log_sent_def split: prod.split sum.split)
qed


text \<open>\<open>dispatchWebhook\<close> can be led astray by the resolver: after the guard has accepted an answer, the request goes to the addresses of
  the next answer, whatever they are.\<close>

theorem simple_dispatch_rebinds:
  assumes "guard nt (sw_url opts) w = (Inr (), w1)" "pf_URL nt (sw_url opts) = Some u" "pf_isIP nt (strip_brackets (u_hostname u)) = 0"
    and "pf_dns_all nt (wo_lookups w1) (strip_brackets (u_hostname u)) = Some as" "sw_ledger opts = None"
  shows "\<exists>req rest. wo_sent (snd (dispatchWebhook nt hmac rolledBack now opts w)) = wo_sent w @ (req, as) # rest"
proof -
  let ?req = "\<lparr>rq_method = ''POST'', rq_url = sw_url opts, rq_headers = [(''Content-Type'', ''application/json''), (''X-Fluxora-Event'', sw_event opts),
      (''X-Fluxora-Signature'', computeWebhookSignature hmac (sw_secret opts) (show_int (now div 1000)) (sw_payload opts)),
      (''X-Fluxora-Timestamp'', show_int (now div 1000))], rq_body = Some (sw_payload opts)\<rparr>"
  have "wo_sent (snd (fetch nt ?req w1)) = wo_sent w @ [(?req, as)]"
    using assms(2-4) guard_sent [OF assms(1)] by (simp add: fetch_def Let_def log_sent_def)
  moreover have "wo_sent (snd (dispatchWebhook nt hmac rolledBack now opts w)) = wo_sent (snd (followFetchRedirects nt ?req 1 0 w1))"
    using assms(1,5) by (auto simp: dispatchWebhook_def Let_def split: prod.split sum.split)
  ultimately show ?thesis using follow_fetch [of nt ?req 1 0 w1] by auto
qed

section \<open>A probe that ends at the guard\<close>

context webhook_breaker
begin

lemma dispatch_halfopen:
  assumes "dp_breaker dp = ops" "0 < cb_threshold (breaker_policy (dp_policy dp))" "phase (wo_breaker w) (do_url opts) = HalfOpen"
  shows "wo_sent (snd (dispatch nt dp env opts w)) = wo_sent w \<and> wo_breaker (snd (dispatch nt dp env opts w)) = wo_breaker w"
proof (cases "guard nt (do_url opts) w")
  case (Pair g w1)
  have w1: "wo_sent w1 = wo_sent w" "wo_breaker w1 = wo_breaker w" using guard_world [of nt "do_url opts" w] Pair by simp_all
  have "\<not> chk_allowed (fst (bo_check ops (wo_breaker w) (do_url opts) (breaker_policy (dp_policy dp)) (de_gate env)))"
    using halfopen_denied [OF assms(2,3)] .
  moreover from denied_keeps [OF this] have "snd (bo_check ops (wo_breaker w) (do_url opts) (breaker_policy (dp_policy dp)) (de_gate env)) = wo_breaker w" .
  ultimately show ?thesis using Pair w1 assms(1) by (auto simp: dispatch_def Let_def split: sum.split prod.split)
qed

lemma dispatches_halfopen:
  assumes "dp_breaker dp = ops" "0 < cb_threshold (breaker_policy (dp_policy dp))" "phase (wo_breaker w) url = HalfOpen"
    and "\<forall>(nt, env, opts) \<in> set xs. do_url opts = url"
  shows "wo_sent (foldl (\<lambda>w (nt, env, opts). snd (dispatch nt dp env opts w)) w xs) = wo_sent w"
  using assms(3,4)
proof (induction xs arbitrary: w)
  case (Cons x xs)
  obtain nt env opts where x: "x = (nt, env, opts)" by (cases x)
  then have "do_url opts = url" using Cons.prems(2) by simp
  then show ?case using Cons x dispatch_halfopen [OF assms(1,2), of w opts nt env] by simp
qed simp

end

text \<open>A probe that ends at the guard is lost. When the circuit of a receiver is open and due, a dispatch claims the probe; if the
  receiver redirects to a refused address (or the request times out), no outcome is recorded, and from then on no dispatch to that
  receiver, whenever and with whatever network, sends anything.\<close>

theorem rejected_probe_lost:
  assumes "dp_breaker dp = memory_breaker hash" "0 < cb_threshold (breaker_policy (dp_policy dp))"
    and "guard nt (do_url opts) w = (Inr (), w1)" "memory_phase hash (wo_breaker w1) (do_url opts) = Open"
    and "bo_check (dp_breaker dp) (wo_breaker w1) (do_url opts) (breaker_policy (dp_policy dp)) (de_gate env) = (gate, b)" "chk_allowed gate"
    and "sendRequest nt opts (show_int (de_start env div 1000))
      (computeWebhookSignature (dp_hmac dp) (do_secret opts) (show_int (de_start env div 1000)) (do_payload opts))
      (nullish (do_correlationId opts) (de_correlation env)) (de_trace env) (w1\<lparr>wo_breaker := b\<rparr>) = (Inl err, w2)"
    and "err = Guard_rejected e \<or> err = Timeout_error e" "\<forall>(nt, env, later) \<in> set xs. do_url later = do_url opts"
  shows "\<not> ds_shouldRetry (fst (dispatch nt dp env opts w)) \<and>
    wo_sent (foldl (\<lambda>w (nt, env, later). snd (dispatch nt dp env later w)) (snd (dispatch nt dp env opts w)) xs) =
    wo_sent (snd (dispatch nt dp env opts w))"
proof -
  have keeps: "wo_breaker (snd (followRedirects nt req m n v)) = wo_breaker v" for req m n and v :: "InMemoryWebhookCircuitBreakerStore world"
  proof (induction nt req m n v rule: followRedirects.induct)
    case (1 nt req m n v)
    have s: "wo_breaker (snd (sendWebhookHttpRequest nt req v)) = wo_breaker v"
      by (auto simp: sendWebhookHttpRequest_def Let_def log_sent_def split: option.split sum.split)
    obtain r v1 where v1: "sendWebhookHttpRequest nt req v = (r, v1)" by (cases "sendWebhookHttpRequest nt req v")
    show ?case using "1.IH" [OF v1 [symmetric]] s v1
      by (subst followRedirects.simps) (auto simp: Let_def dest: guard_breaker split: sum.split option.split prod.split)
  qed
  have d: "dispatch nt dp env opts w = (failed None (dp_redact dp e) None, w2)"
    using assms(3,5-8) by (auto simp: dispatch_def Let_def)
  have "wo_breaker w2 = b" using keeps assms(7) unfolding sendRequest_def by (metis snd_conv world.select_convs(3) world.surjective world.update_convs(3))
  moreover have "memory_phase hash b (do_url opts) = HalfOpen" using mb.open_claims [OF assms(2,4)] assms(1,5,6) by (metis fst_conv snd_conv)
  ultimately have "wo_sent (foldl (\<lambda>w (nt, env, later). snd (dispatch nt dp env later w)) w2 xs) = wo_sent w2"
    by (intro mb.dispatches_halfopen [OF assms(1,2) _ assms(9)]) simp
  then show ?thesis by (simp add: d failed_def)
qed

section \<open>Examples\<close>

definition demo_net_isIP :: "string \<Rightarrow> nat" where
  "demo_net_isIP s = (if js_trim s = s \<and> strip_brackets s = s then demo_isIP s else 0)"

definition demo_urls :: "(string, URL) jsmap" where
  "demo_urls = [(''https://a.example/'', \<lparr>u_href = ''https://a.example/'', u_protocol = ''https:'', u_hostname = ''a.example''\<rparr>),
     (''https://127.0.0.1/'', \<lparr>u_href = ''https://127.0.0.1/'', u_protocol = ''https:'', u_hostname = ''127.0.0.1''\<rparr>)]"

text \<open>The resolver answers with a public address first and with the loopback address later; the receiver redirects to the latter.\<close>

definition demo_network :: network where
  "demo_network = \<lparr>pf_isIP = demo_net_isIP, pf_URL = map_get demo_urls, pf_resolve = (\<lambda>l b. Some l),
     pf_dns_one = (\<lambda>k h. Some (if k = 0 then ''8.8.8.8'' else ''127.0.0.1'')),
     pf_dns_all = (\<lambda>k h. Some [if k \<le> 1 then ''8.8.8.8'' else ''127.0.0.1'']),
     nt_auto = True, nt_reply = (\<lambda>n req as. Inr \<lparr>rp_status = 302, rp_statusText = ''Found'', rp_location = Some ''https://127.0.0.1/''\<rparr>),
     nt_allowlist = JUndefined\<rparr>"

definition demo_rebinding :: network where
  "demo_rebinding = demo_network\<lparr>pf_dns_all := (\<lambda>k h. Some [''127.0.0.1''])\<rparr>"

definition demo_world :: "InMemoryWebhookCircuitBreakerStore \<Rightarrow> InMemoryWebhookCircuitBreakerStore world" where
  "demo_world b = \<lparr>wo_lookups = 0, wo_sent = [], wo_breaker = b\<rparr>"

definition demo_dispatcher :: "InMemoryWebhookCircuitBreakerStore dispatcher" where
  "demo_dispatcher = \<lparr>dp_policy = demo_retry_policy, dp_breaker = memory_breaker id, dp_getState = cb_getState id, dp_hmac = demo_hmac,
     dp_redact = (\<lambda>s. s)\<rparr>"

definition demo_options :: WebhookDispatchOptions where
  "demo_options = \<lparr>do_url = ''https://a.example/'', do_secret = ''s'', do_payload = ''{}'', do_deliveryId = ''d'', do_eventType = ''stream.created'',
     do_attemptNumber = None, do_correlationId = None\<rparr>"

definition demo_dispatch_env :: dispatch_env where
  "demo_dispatch_env = \<lparr>de_start = 5000, de_gate = 5000, de_defer = 5000, de_attempt = 5000, de_outcome = 5000, de_retry = 5000, de_rnd = 0,
     de_correlation = ''unknown'', de_trace = None\<rparr>"

lemma demo_platform_ok: "platform_ok demo_network"
proof -
  have "s = ''https://a.example/'' \<or> s = ''https://127.0.0.1/''" if "map_get demo_urls s = Some u" for s u
    using that by (auto simp: demo_urls_def split: if_splits)
  moreover have "js_trim ''https://a.example/'' = ''https://a.example/''" "js_trim ''https://127.0.0.1/'' = ''https://127.0.0.1/''" by code_simp+
  ultimately have u: "map_get demo_urls s = Some u \<Longrightarrow> js_trim s = s" for s u by metis
  have h: "js_trim (u_hostname u) = u_hostname u" if "map_get demo_urls s = Some u" for s u
  proof -
    have "js_trim ''a.example'' = ''a.example''" "js_trim ''127.0.0.1'' = ''127.0.0.1''" by code_simp+
    then show ?thesis using that by (auto simp: demo_urls_def split: if_splits)
  qed
  have i: "demo_net_isIP ''8.8.8.8'' \<noteq> 0" "demo_net_isIP ''127.0.0.1'' \<noteq> 0" by code_simp+
  have "demo_net_isIP s \<noteq> 0 \<Longrightarrow> js_trim s = s \<and> strip_brackets s = s" for s by (simp add: demo_net_isIP_def split: if_splits)
  moreover have "u' = u" if "map_get demo_urls (js_trim s) = Some u" "map_get demo_urls s = Some u'" for s u u'
    using u [OF that(2)] that by simp
  ultimately show ?thesis unfolding platform_ok_def using h i by (auto simp: demo_network_def)
qed

theorem dispatch_contacts_public_witness:
  "map snd (wo_sent (snd (dispatch demo_network demo_dispatcher demo_dispatch_env demo_options (demo_world cb_empty)))) = [[''8.8.8.8'']] \<and>
   (\<exists>new. wo_sent (snd (dispatch demo_network demo_dispatcher demo_dispatch_env demo_options (demo_world cb_empty))) = new \<and>
      list_all (contact_ok demo_network) new)"
proof -
  have "map snd (wo_sent (snd (dispatch demo_network demo_dispatcher demo_dispatch_env demo_options (demo_world cb_empty)))) = [[''8.8.8.8'']]"
    by code_simp
  moreover have "wo_sent (demo_world cb_empty) = []" by (simp add: demo_world_def)
  ultimately show ?thesis
    using dispatch_contacts_public [OF demo_platform_ok, of demo_dispatcher demo_dispatch_env demo_options "demo_world cb_empty"]
    by (auto simp: list_all_iff)
qed

theorem endpoint_check_unguarded_witness:
  "\<exists>rest. wo_sent (snd (validateEndpoint demo_network ''https://127.0.0.1/'' (demo_world cb_empty))) =
    (\<lparr>rq_method = ''HEAD'', rq_url = ''https://127.0.0.1/'', rq_headers = [], rq_body = None\<rparr>, [''127.0.0.1'']) # rest"
proof -
  have u: "pf_URL demo_network ''https://127.0.0.1/'' = Some \<lparr>u_href = ''https://127.0.0.1/'', u_protocol = ''https:'', u_hostname = ''127.0.0.1''\<rparr>"
    "pf_isIP demo_network (strip_brackets (u_hostname \<lparr>u_href = ''https://127.0.0.1/'', u_protocol = ''https:'', u_hostname = ''127.0.0.1''\<rparr>)) \<noteq> 0"
    by code_simp+
  have "strip_brackets ''127.0.0.1'' = ''127.0.0.1''" by code_simp
  then show ?thesis using endpoint_check_unguarded [OF u, of "demo_world cb_empty"] by (simp add: demo_world_def)
qed

definition demo_simple :: SimpleWebhookDispatch where
  "demo_simple = \<lparr>sw_url = ''https://a.example/'', sw_secret = ''s'', sw_event = ''stream.created'', sw_payload = ''{}'', sw_ledger = None\<rparr>"

theorem simple_dispatch_rebinds_witness:
  "fst (guard demo_rebinding ''https://a.example/'' (demo_world cb_empty)) = Inr () \<and>
   (\<exists>req rest. wo_sent (snd (dispatchWebhook demo_rebinding demo_hmac {} 5000 demo_simple (demo_world cb_empty))) = (req, [''127.0.0.1'']) # rest)"
proof -
  let ?w = "(demo_world cb_empty)\<lparr>wo_lookups := 1\<rparr>" and ?u = "\<lparr>u_href = ''https://a.example/'', u_protocol = ''https:'', u_hostname = ''a.example''\<rparr>"
  have g: "guard demo_rebinding (sw_url demo_simple) (demo_world cb_empty) = (Inr (), ?w)" by code_simp
  have u: "pf_URL demo_rebinding (sw_url demo_simple) = Some ?u" "pf_isIP demo_rebinding (strip_brackets (u_hostname ?u)) = 0" by code_simp+
  have d: "pf_dns_all demo_rebinding (wo_lookups ?w) (strip_brackets (u_hostname ?u)) = Some [''127.0.0.1'']" "sw_ledger demo_simple = None"
    by (simp_all add: demo_rebinding_def demo_simple_def)
  show ?thesis using simple_dispatch_rebinds [OF g u d, of demo_hmac "{}" 5000] g by (simp add: demo_simple_def demo_world_def)
qed


definition demo_due :: "InMemoryWebhookCircuitBreakerStore world" where
  "demo_due = demo_world (foldl (cb_step id) cb_empty
     [Failure ''https://a.example/'' (breaker_policy demo_retry_policy) 0, Failure ''https://a.example/'' (breaker_policy demo_retry_policy) 1])"

theorem rejected_probe_lost_witness:
  "map snd (wo_sent (snd (dispatch demo_network demo_dispatcher demo_dispatch_env demo_options demo_due))) = [[''8.8.8.8'']] \<and>
   map snd (wo_sent (snd (dispatch demo_network demo_dispatcher (demo_dispatch_env\<lparr>de_gate := 99999999\<rparr>) demo_options
      (snd (dispatch demo_network demo_dispatcher demo_dispatch_env demo_options demo_due))))) = [[''8.8.8.8'']]"
proof -
  let ?w1 = "demo_due\<lparr>wo_lookups := 1\<rparr>" and ?url = "do_url demo_options"
  let ?b = "bo_check (dp_breaker demo_dispatcher) (wo_breaker ?w1) ?url (breaker_policy (dp_policy demo_dispatcher)) (de_gate demo_dispatch_env)"
  let ?s = "sendRequest demo_network demo_options (show_int (de_start demo_dispatch_env div 1000))
      (computeWebhookSignature (dp_hmac demo_dispatcher) (do_secret demo_options) (show_int (de_start demo_dispatch_env div 1000)) (do_payload demo_options))
      (nullish (do_correlationId demo_options) (de_correlation demo_dispatch_env)) (de_trace demo_dispatch_env) (?w1\<lparr>wo_breaker := snd ?b\<rparr>)"
  have b: "dp_breaker demo_dispatcher = memory_breaker id" by (simp add: demo_dispatcher_def)
  have p: "0 < cb_threshold (breaker_policy (dp_policy demo_dispatcher))" by code_simp
  have g: "guard demo_network ?url demo_due = (Inr (), ?w1)" by code_simp
  have o: "memory_phase id (wo_breaker ?w1) ?url = Open" by code_simp
  have a: "chk_allowed (fst ?b)" by code_simp
  have e: "case fst ?s of Inl (Guard_rejected e) \<Rightarrow> True | _ \<Rightarrow> False" by code_simp
  then obtain m where m: "?s = (Inl (Guard_rejected m), snd ?s)" by (cases "fst ?s") (auto split: send_error.splits simp: prod_eq_iff)
  have s: "map snd (wo_sent (snd (dispatch demo_network demo_dispatcher demo_dispatch_env demo_options demo_due))) = [[''8.8.8.8'']]" by code_simp
  show ?thesis
    using rejected_probe_lost [OF b p g o prod.collapse [symmetric] a m disjI1 [OF refl], of "[(demo_network, demo_dispatch_env\<lparr>de_gate := 99999999\<rparr>, demo_options)]"] s
    by simp
qed

end
