(* ===== verification/Admin_Lock.thy ===== *)
theory Admin_Lock
  imports Fluxora_Prelude
begin

text \<open>
  The lock of the admin state, \<open>src/state/adminStateLock.ts\<close>, with the three Redis commands it uses (\<open>src/redis/client.ts\<close>): a lease
  lock in Redis and the lock file it falls back to.

  Any number of clients share one Redis and one directory of lock files; \<open>pid p\<close> is the process of client \<open>p\<close>, and clients of one
  process share its sequence of tokens. A client is in one phase of \<open>acquire\<close> or \<open>release\<close>; an event is one Redis command or one
  system call of one client, a failure of it included, or the passing of time, and \<open>lock_step\<close> is what it does, \<open>None\<close> when the
  client is not in the phase for it. A process that is started again is a new one. Creating a lock file and writing the
  token into it is one event. Redis and the files keep time with the global clock.

  The lemmas: a token belongs to one acquisition; clients that hold the lease in Redis exclude each other in every run; the lease
  bounds how long a crashed holder blocks the others; the file lock and the mixture of the two do not exclude.
\<close>

section \<open>Redis and the lock files\<close>

type_synonym key_store = "(string, string \<times> millis) jsmap"

definition setNx :: "string \<Rightarrow> string \<Rightarrow> int \<Rightarrow> millis \<Rightarrow> key_store \<Rightarrow> bool \<times> key_store" where
  "setNx key v pxMs now ks =
     (case map_get ks key of
        Some (_, expiry) \<Rightarrow> if now < expiry then (False, ks) else (True, map_set key (v, now + pxMs) ks)
      | None \<Rightarrow> (True, map_set key (v, now + pxMs) ks))"

definition delIfValue :: "string \<Rightarrow> string \<Rightarrow> millis \<Rightarrow> key_store \<Rightarrow> key_store" where
  "delIfValue key v now ks =
     (case map_get ks key of
        Some (current, expiry) \<Rightarrow> if now < expiry \<and> current = v then map_delete key ks else ks
      | None \<Rightarrow> ks)"

section \<open>The lock\<close>

definition LOCK_KEY_PREFIX :: string where "LOCK_KEY_PREFIX = ''admin-state:lock:''"
definition LOCK_POLL_MS :: int where "LOCK_POLL_MS = 50"
definition DEFAULT_ACQUIRE_TIMEOUT_MS :: int where "DEFAULT_ACQUIRE_TIMEOUT_MS = 5000"
definition DEFAULT_LEASE_MS :: int where "DEFAULT_LEASE_MS = 5000"
definition REINDEX_LOCK_NAMESPACE :: string where "REINDEX_LOCK_NAMESPACE = ''reindex''"

record RedisDistributedLock =
  lk_namespace :: string
  lk_timeoutMs :: int
  lk_leaseMs :: int

text \<open>The options as they are given; a lease that is not positive is refused.\<close>

definition new_RedisDistributedLock :: "string \<Rightarrow> int option \<Rightarrow> int option \<Rightarrow> string + RedisDistributedLock" where
  "new_RedisDistributedLock namespace timeoutMs leaseMs =
     (let lease = nullish leaseMs DEFAULT_LEASE_MS
      in if lease \<le> 0 then Inl (''Invalid lease duration: '' @ show_int lease)
         else Inr \<lparr>lk_namespace = namespace, lk_timeoutMs = nullish timeoutMs DEFAULT_ACQUIRE_TIMEOUT_MS, lk_leaseMs = lease\<rparr>)"

definition lockKey :: "RedisDistributedLock \<Rightarrow> string" where
  "lockKey l = LOCK_KEY_PREFIX @ lk_namespace l"

definition lockFile :: "RedisDistributedLock \<Rightarrow> string" where
  "lockFile l = ''fluxora-admin-state-'' @ lk_namespace l @ ''.lock''"

definition lockValue :: "nat \<Rightarrow> millis \<Rightarrow> nat \<Rightarrow> string" where
  "lockValue pid now sequence = show_nat pid @ '':'' @ show_int now @ '':'' @ show_nat sequence"

definition maxRetries :: "RedisDistributedLock \<Rightarrow> int" where
  "maxRetries l = - ((- lk_timeoutMs l) div LOCK_POLL_MS)"

text \<open>The phases of a client: before the \<open>k\<close>-th attempt in Redis; the calls of the file lock (open, the first and the second \<open>stat\<close>,
  the removal of a stale file, the look at the deadline); holding; the two calls of releasing a file.\<close>

datatype phase =
    Idle
  | Redis_try nat string
  | File_open string millis
  | File_stat string millis
  | File_restat string millis millis
  | File_steal string millis
  | File_late string millis
  | Held_redis string millis
  | Held_file string millis
  | File_read string
  | File_unlink string
  | Gave_up
  | Dead

record lock_state =
  ls_now :: millis
  ls_keys :: key_store
  ls_files :: key_store
  ls_phase :: "nat \<Rightarrow> phase"
  ls_sequence :: "nat \<Rightarrow> nat"

datatype lock_event =
    Tick nat
  | Acquire nat
  | Attempt nat bool
  | Open nat bool
  | Stat nat
  | Restat nat
  | Steal nat bool
  | Late nat
  | Release nat bool
  | Read_file nat
  | Unlink nat
  | Direct_release nat
  | Crash nat

definition set_phase :: "nat \<Rightarrow> phase \<Rightarrow> lock_state \<Rightarrow> lock_state" where
  "set_phase p ph s = s\<lparr>ls_phase := (ls_phase s)(p := ph)\<rparr>"

definition start_acquire :: "(nat \<Rightarrow> nat) \<Rightarrow> RedisDistributedLock \<Rightarrow> nat \<Rightarrow> lock_state \<Rightarrow> lock_state option" where
  "start_acquire pid l p s =
     (if ls_phase s p = Idle \<or> ls_phase s p = Gave_up
      then let n = ls_sequence s (pid p); v = lockValue (pid p) (ls_now s) n
           in Some (set_phase p (if maxRetries l \<le> 0 then Gave_up else Redis_try 0 v) (s\<lparr>ls_sequence := (ls_sequence s)(pid p := Suc n)\<rparr>))
      else None)"

text \<open>\<open>ok\<close>: Redis answers.\<close>

definition redis_attempt :: "RedisDistributedLock \<Rightarrow> nat \<Rightarrow> bool \<Rightarrow> lock_state \<Rightarrow> lock_state option" where
  "redis_attempt l p ok s =
     (case ls_phase s p of
        Redis_try k v \<Rightarrow>
          if \<not> ok then Some (set_phase p (File_open v (ls_now s + lk_timeoutMs l)) s)
          else (case setNx (lockKey l) v (lk_leaseMs l) (ls_now s) (ls_keys s) of
                  (True, ks) \<Rightarrow> Some (set_phase p (Held_redis v (ls_now s)) (s\<lparr>ls_keys := ks\<rparr>))
                | (False, _) \<Rightarrow> Some (set_phase p (if maxRetries l \<le> int (Suc k) then Gave_up else Redis_try (Suc k) v) s))
      | _ \<Rightarrow> None)"

text \<open>The loop of \<open>_acquireFileLock\<close> with \<open>_stealStaleFileLock\<close>; \<open>ok\<close>: the call does not fail with an error other than the expected one.\<close>

definition file_open :: "RedisDistributedLock \<Rightarrow> nat \<Rightarrow> bool \<Rightarrow> lock_state \<Rightarrow> lock_state option" where
  "file_open l p ok s =
     (case ls_phase s p of
        File_open v deadline \<Rightarrow>
          if \<not> ok then Some (set_phase p Gave_up s)
          else if map_get (ls_files s) (lockFile l) \<noteq> None then Some (set_phase p (File_stat v deadline) s)
          else Some (set_phase p (Held_file v (ls_now s)) (s\<lparr>ls_files := map_set (lockFile l) (v, ls_now s) (ls_files s)\<rparr>))
      | _ \<Rightarrow> None)"

definition file_stat :: "RedisDistributedLock \<Rightarrow> nat \<Rightarrow> lock_state \<Rightarrow> lock_state option" where
  "file_stat l p s =
     (case ls_phase s p of
        File_stat v deadline \<Rightarrow>
          (case map_get (ls_files s) (lockFile l) of
             None \<Rightarrow> Some (set_phase p (File_open v deadline) s)
           | Some (_, mtime) \<Rightarrow>
               if ls_now s - mtime < lk_leaseMs l then Some (set_phase p (File_late v deadline) s)
               else Some (set_phase p (File_restat v deadline mtime) s))
      | _ \<Rightarrow> None)"

definition file_restat :: "RedisDistributedLock \<Rightarrow> nat \<Rightarrow> lock_state \<Rightarrow> lock_state option" where
  "file_restat l p s =
     (case ls_phase s p of
        File_restat v deadline mtime \<Rightarrow>
          (case map_get (ls_files s) (lockFile l) of
             None \<Rightarrow> Some (set_phase p (File_open v deadline) s)
           | Some (_, again) \<Rightarrow>
               if again \<noteq> mtime \<or> ls_now s - again < lk_leaseMs l then Some (set_phase p (File_late v deadline) s)
               else Some (set_phase p (File_steal v deadline) s))
      | _ \<Rightarrow> None)"

definition file_steal :: "RedisDistributedLock \<Rightarrow> nat \<Rightarrow> bool \<Rightarrow> lock_state \<Rightarrow> lock_state option" where
  "file_steal l p ok s =
     (case ls_phase s p of
        File_steal v deadline \<Rightarrow>
          if ok then Some (set_phase p (File_open v deadline) (s\<lparr>ls_files := map_delete (lockFile l) (ls_files s)\<rparr>))
          else Some (set_phase p (File_late v deadline) s)
      | _ \<Rightarrow> None)"

definition file_late :: "nat \<Rightarrow> lock_state \<Rightarrow> lock_state option" where
  "file_late p s =
     (case ls_phase s p of
        File_late v deadline \<Rightarrow> Some (set_phase p (if ls_now s \<ge> deadline then Gave_up else File_open v deadline) s)
      | _ \<Rightarrow> None)"

text \<open>The \<open>release\<close> of an acquired lock; a failure of Redis is logged and forgotten.\<close>

definition release :: "RedisDistributedLock \<Rightarrow> nat \<Rightarrow> bool \<Rightarrow> lock_state \<Rightarrow> lock_state option" where
  "release l p ok s =
     (case ls_phase s p of
        Held_redis v t \<Rightarrow>
          Some (set_phase p Idle (if ok then s\<lparr>ls_keys := delIfValue (lockKey l) v (ls_now s) (ls_keys s)\<rparr> else s))
      | Held_file v t \<Rightarrow> Some (set_phase p (File_read v) s)
      | _ \<Rightarrow> None)"

definition file_read :: "RedisDistributedLock \<Rightarrow> nat \<Rightarrow> lock_state \<Rightarrow> lock_state option" where
  "file_read l p s =
     (case ls_phase s p of
        File_read v \<Rightarrow>
          (case map_get (ls_files s) (lockFile l) of
             None \<Rightarrow> Some (set_phase p Idle s)
           | Some (current, _) \<Rightarrow> Some (set_phase p (if current \<noteq> v then Idle else File_unlink v) s))
      | _ \<Rightarrow> None)"

definition file_unlink :: "RedisDistributedLock \<Rightarrow> nat \<Rightarrow> lock_state \<Rightarrow> lock_state option" where
  "file_unlink l p s =
     (case ls_phase s p of
        File_unlink v \<Rightarrow> Some (set_phase p Idle (s\<lparr>ls_files := map_delete (lockFile l) (ls_files s)\<rparr>))
      | _ \<Rightarrow> None)"

text \<open>The \<open>release\<close> of the lock object itself deletes the key, whoever owns it.\<close>

definition direct_release :: "RedisDistributedLock \<Rightarrow> lock_state \<Rightarrow> lock_state" where
  "direct_release l s = s\<lparr>ls_keys := map_delete (lockKey l) (ls_keys s)\<rparr>"

fun lock_step :: "(nat \<Rightarrow> nat) \<Rightarrow> RedisDistributedLock \<Rightarrow> lock_event \<Rightarrow> lock_state \<Rightarrow> lock_state option" where
  "lock_step pid l (Tick d) s = Some (s\<lparr>ls_now := ls_now s + int d\<rparr>)"
| "lock_step pid l (Acquire p) s = start_acquire pid l p s"
| "lock_step pid l (Attempt p ok) s = redis_attempt l p ok s"
| "lock_step pid l (Open p ok) s = file_open l p ok s"
| "lock_step pid l (Stat p) s = file_stat l p s"
| "lock_step pid l (Restat p) s = file_restat l p s"
| "lock_step pid l (Steal p ok) s = file_steal l p ok s"
| "lock_step pid l (Late p) s = file_late p s"
| "lock_step pid l (Release p ok) s = release l p ok s"
| "lock_step pid l (Read_file p) s = file_read l p s"
| "lock_step pid l (Unlink p) s = file_unlink l p s"
| "lock_step pid l (Direct_release p) s = Some (direct_release l s)"
| "lock_step pid l (Crash p) s = Some (set_phase p Dead s)"

fun lock_run :: "(nat \<Rightarrow> nat) \<Rightarrow> RedisDistributedLock \<Rightarrow> lock_event list \<Rightarrow> lock_state \<Rightarrow> lock_state option" where
  "lock_run pid l [] s = Some s"
| "lock_run pid l (e # es) s = (case lock_step pid l e s of None \<Rightarrow> None | Some s1 \<Rightarrow> lock_run pid l es s1)"

definition lock_init :: "millis \<Rightarrow> lock_state" where
  "lock_init now = \<lparr>ls_now = now, ls_keys = [], ls_files = [], ls_phase = (\<lambda>_. Idle), ls_sequence = (\<lambda>_. 0)\<rparr>"

section \<open>Tokens\<close>

lemma lockValue_inj: "lockValue i m n = lockValue i' m' n' \<Longrightarrow> i = i' \<and> n = n'"
proof -
  have nc: "CHR '':'' \<notin> set (show_nat k)" for k using show_nat_digits [of k] by (auto simp: list_all_iff is_digit_def)
  then have ni: "CHR '':'' \<notin> set (show_int k)" for k by (simp add: show_int_def)
  have s: "split_on (CHR '':'') (lockValue i m n) = [show_nat i, show_int m, show_nat n]" for i m n
    by (simp add: lockValue_def split_on_append split_on_notin nc ni)
  assume "lockValue i m n = lockValue i' m' n'"
  then have "show_nat i = show_nat i'" "show_nat n = show_nat n'" using s [of i m n] s [of i' m' n'] by simp_all
  then show ?thesis by (metis digits_val_show_nat)
qed

fun token :: "phase \<Rightarrow> string option" where
  "token (Redis_try k v) = Some v"
| "token (File_open v d) = Some v"
| "token (File_stat v d) = Some v"
| "token (File_restat v d m) = Some v"
| "token (File_steal v d) = Some v"
| "token (File_late v d) = Some v"
| "token (Held_redis v t) = Some v"
| "token (Held_file v t) = Some v"
| "token (File_read v) = Some v"
| "token (File_unlink v) = Some v"
| "token _ = None"

definition tokens_inv :: "(nat \<Rightarrow> nat) \<Rightarrow> lock_state \<Rightarrow> bool" where
  "tokens_inv pid s \<longleftrightarrow>
     (\<forall>p v. token (ls_phase s p) = Some v \<longrightarrow> (\<exists>m n. v = lockValue (pid p) m n \<and> n < ls_sequence s (pid p))) \<and>
     (\<forall>p q v. token (ls_phase s p) = Some v \<longrightarrow> token (ls_phase s q) = Some v \<longrightarrow> p = q)"

text \<open>Every event but an acquisition keeps the sequences and gives its client no other token.\<close>

lemma step_tokens:
  assumes "lock_step pid l e s = Some s'" "\<forall>p. e \<noteq> Acquire p"
  shows "ls_sequence s' = ls_sequence s \<and> (token (ls_phase s' p) = token (ls_phase s p) \<or> token (ls_phase s' p) = None)"
  using assms
  by (cases e) (auto simp: redis_attempt_def file_open_def file_stat_def file_restat_def file_steal_def file_late_def release_def file_read_def
      file_unlink_def direct_release_def set_phase_def split: phase.splits option.splits prod.splits bool.splits if_splits)

lemma tokens_step:
  assumes "tokens_inv pid s" "lock_step pid l e s = Some s'"
  shows "tokens_inv pid s'"
proof (cases "\<exists>p. e = Acquire p")
  case False
  then have "\<forall>p. e \<noteq> Acquire p" by blast
  note t = step_tokens [OF assms(2) this]
  then show ?thesis using assms(1) unfolding tokens_inv_def by (metis option.distinct(1))
next
  case True
  then obtain p where e: "e = Acquire p" by blast
  let ?v = "lockValue (pid p) (ls_now s) (ls_sequence s (pid p))"
  have s': "ls_sequence s' = (ls_sequence s)(pid p := Suc (ls_sequence s (pid p)))" "\<forall>q. q \<noteq> p \<longrightarrow> ls_phase s' q = ls_phase s q"
    "token (ls_phase s' p) = Some ?v \<or> token (ls_phase s' p) = None"
    using assms(2) e by (auto simp: start_acquire_def set_phase_def Let_def split: if_splits)
  have fresh: "token (ls_phase s q) \<noteq> Some ?v" for q
    using assms(1) lockValue_inj unfolding tokens_inv_def by (metis less_irrefl)
  show ?thesis unfolding tokens_inv_def
  proof (intro conjI allI impI)
    fix q v
    assume q: "token (ls_phase s' q) = Some v"
    show "\<exists>m n. v = lockValue (pid q) m n \<and> n < ls_sequence s' (pid q)"
    proof (cases "q = p")
      case True
      then show ?thesis using q s' by auto
    next
      case False
      then obtain m n where "v = lockValue (pid q) m n" "n < ls_sequence s (pid q)"
        using assms(1) q s'(2) unfolding tokens_inv_def by metis
      then show ?thesis using s'(1) by (intro exI [of _ m] exI [of _ n]) auto
    qed
  next
    fix q r v
    assume "token (ls_phase s' q) = Some v" "token (ls_phase s' r) = Some v"
    then show "q = r" using s'(2,3) fresh assms(1) unfolding tokens_inv_def by (metis option.distinct(1) option.inject)
  qed
qed

section \<open>Holders in Redis exclude each other\<close>

definition lease_inv :: "RedisDistributedLock \<Rightarrow> lock_state \<Rightarrow> bool" where
  "lease_inv l s \<longleftrightarrow>
     (\<forall>p v t. ls_phase s p = Held_redis v t \<longrightarrow> t \<le> ls_now s \<and>
        (ls_now s < t + lk_leaseMs l \<longrightarrow> map_get (ls_keys s) (lockKey l) = Some (v, t + lk_leaseMs l))) \<and>
     (\<forall>v e. map_get (ls_keys s) (lockKey l) = Some (v, e) \<longrightarrow> e \<le> ls_now s + lk_leaseMs l)"

lemma setNx_cases:
  "setNx key v px now ks = (ok, ks') \<Longrightarrow>
   (if ok then (\<forall>c e. map_get ks key = Some (c, e) \<longrightarrow> e \<le> now) \<and> ks' = map_set key (v, now + px) ks
    else ks' = ks \<and> (\<exists>c e. map_get ks key = Some (c, e) \<and> now < e))"
  by (auto simp: setNx_def split: option.splits prod.splits if_splits)

text \<open>The events that leave Redis and the holders in Redis as they are.\<close>

lemma step_keys:
  assumes "lock_step pid l e s = Some s'" "\<forall>d. e \<noteq> Tick d" "\<forall>p. e \<noteq> Attempt p True" "\<forall>p. e \<noteq> Release p True" "\<forall>p. e \<noteq> Direct_release p"
  shows "ls_keys s' = ls_keys s \<and> ls_now s' = ls_now s \<and> (ls_phase s' p = Held_redis v t \<longrightarrow> ls_phase s p = Held_redis v t)"
  using assms
  by (cases e) (auto simp: start_acquire_def redis_attempt_def file_open_def file_stat_def file_restat_def file_steal_def file_late_def release_def
      file_read_def file_unlink_def set_phase_def Let_def split: phase.splits option.splits prod.splits bool.splits if_splits)

lemma lease_step:
  assumes "lease_inv l s" "tokens_inv pid s" "lock_step pid l e s = Some s'" "\<forall>p. e \<noteq> Direct_release p" "0 < lk_leaseMs l"
  shows "lease_inv l s'"
proof -
  consider d where "e = Tick d" | p where "e = Attempt p True" | p where "e = Release p True"
    | "\<forall>d. e \<noteq> Tick d" "\<forall>p. e \<noteq> Attempt p True" "\<forall>p. e \<noteq> Release p True" by blast
  then show ?thesis
  proof cases
    case 1
    then show ?thesis using assms(1,3) unfolding lease_inv_def by fastforce
  next
    case (2 p)
    then obtain k v where ph: "ls_phase s p = Redis_try k v" using assms(3) by (auto simp: redis_attempt_def split: phase.splits)
    obtain ok ks where n: "setNx (lockKey l) v (lk_leaseMs l) (ls_now s) (ls_keys s) = (ok, ks)" by force
    show ?thesis
    proof (cases ok)
      case True
      have s': "s' = set_phase p (Held_redis v (ls_now s)) (s\<lparr>ls_keys := ks\<rparr>)" using 2 assms(3) ph n True by (simp add: redis_attempt_def)
      have sc: "\<forall>c e. map_get (ls_keys s) (lockKey l) = Some (c, e) \<longrightarrow> e \<le> ls_now s"
        "ks = map_set (lockKey l) (v, ls_now s + lk_leaseMs l) (ls_keys s)" using setNx_cases [OF n] True by simp_all
      have old: "t \<le> ls_now s \<and> t + lk_leaseMs l \<le> ls_now s" if "ls_phase s q = Held_redis w t" for q w t
      proof -
        have inv: "t \<le> ls_now s" "ls_now s < t + lk_leaseMs l \<longrightarrow> map_get (ls_keys s) (lockKey l) = Some (w, t + lk_leaseMs l)"
          using assms(1) that unfolding lease_inv_def by blast+
        then show ?thesis using sc(1) by (cases "ls_now s < t + lk_leaseMs l") auto
      qed
      have key: "map_get (ls_keys s') (lockKey l) = Some (v, ls_now s' + lk_leaseMs l)" "ls_now s' = ls_now s"
        using s' sc by (simp_all add: set_phase_def)
      have held: "(q = p \<and> w = v \<and> t = ls_now s) \<or> ls_phase s q = Held_redis w t" if "ls_phase s' q = Held_redis w t" for q w t
        using that s' by (auto simp: set_phase_def split: if_splits)
      show ?thesis unfolding lease_inv_def
      proof (intro conjI allI impI)
        fix q w t
        assume "ls_phase s' q = Held_redis w t"
        then show "t \<le> ls_now s'" using held old key(2) by fastforce
      next
        fix q w t
        assume "ls_phase s' q = Held_redis w t" "ls_now s' < t + lk_leaseMs l"
        then show "map_get (ls_keys s') (lockKey l) = Some (w, t + lk_leaseMs l)" using held old key by fastforce
      next
        fix w e
        assume "map_get (ls_keys s') (lockKey l) = Some (w, e)"
        then show "e \<le> ls_now s' + lk_leaseMs l" using key by simp
      qed
    next
      case False
      then have "s' = set_phase p (if maxRetries l \<le> int (Suc k) then Gave_up else Redis_try (Suc k) v) s"
        using 2 assms(3) ph n by (simp add: redis_attempt_def)
      then show ?thesis using assms(1) unfolding lease_inv_def set_phase_def by (auto split: if_splits)
    qed
  next
    case (3 p)
    show ?thesis
    proof (cases "\<exists>v t. ls_phase s p = Held_redis v t")
      case True
      then obtain v t where ph: "ls_phase s p = Held_redis v t" by blast
      have s': "s' = set_phase p Idle (s\<lparr>ls_keys := delIfValue (lockKey l) v (ls_now s) (ls_keys s)\<rparr>)"
        using 3 assms(3) ph by (simp add: release_def)
      have "w \<noteq> v" if "ls_phase s q = Held_redis w u" "q \<noteq> p" for q w u
        using assms(2) that ph unfolding tokens_inv_def by (metis token.simps(7))
      then show ?thesis using assms(1) unfolding lease_inv_def s' set_phase_def
        by (auto simp: delIfValue_def split: option.splits if_splits)
    next
      case False
      then have "ls_keys s' = ls_keys s \<and> ls_now s' = ls_now s \<and> (\<forall>q v t. ls_phase s' q = Held_redis v t \<longrightarrow> ls_phase s q = Held_redis v t)"
        using 3 assms(3) by (auto simp: release_def set_phase_def split: phase.splits if_splits)
      then show ?thesis using assms(1) unfolding lease_inv_def by metis
    qed
  next
    case 4
    from step_keys [OF assms(3) this assms(4)] show ?thesis using assms(1) unfolding lease_inv_def by metis
  qed
qed

lemma locked_run_inv:
  "lock_run pid l es s = Some s' \<Longrightarrow> tokens_inv pid s \<Longrightarrow> lease_inv l s \<Longrightarrow> \<forall>p. Direct_release p \<notin> set es \<Longrightarrow> 0 < lk_leaseMs l \<Longrightarrow>
   tokens_inv pid s' \<and> lease_inv l s'"
proof (induction es arbitrary: s)
  case (Cons e es)
  then obtain s1 where s1: "lock_step pid l e s = Some s1" "lock_run pid l es s1 = Some s'" by (auto split: option.splits)
  show ?case
    by (rule Cons.IH [OF s1(2)]) (use Cons.prems tokens_step [OF _ s1(1)] lease_step [OF _ _ s1(1)] in auto)
qed simp

lemma init_inv: "tokens_inv pid (lock_init now) \<and> lease_inv l (lock_init now)"
  by (simp add: tokens_inv_def lease_inv_def lock_init_def)

text \<open>Holders in Redis exclude each other. In every run, with failing Redis commands, crashes, abandoned waits and clients of one process and
  of several, as long as nobody calls the \<open>release\<close> of the lock object itself, two clients that hold the lock in Redis
  within their leases are the same client.\<close>

theorem redis_exclusive:
  assumes "lock_run pid l es (lock_init now) = Some s" "\<forall>p. Direct_release p \<notin> set es" "0 < lk_leaseMs l"
    and "ls_phase s p = Held_redis v t" "ls_now s < t + lk_leaseMs l" "ls_phase s q = Held_redis w u" "ls_now s < u + lk_leaseMs l"
  shows "p = q"
proof -
  have "tokens_inv pid s \<and> lease_inv l s" using locked_run_inv [OF assms(1) _ _ assms(2,3)] init_inv by blast
  moreover from this have "v = w" using assms(4-7) unfolding lease_inv_def by (metis option.inject prod.inject)
  ultimately show ?thesis using assms(4,6) unfolding tokens_inv_def by (metis token.simps(7))
qed

text \<open>A crashed holder blocks for the lease at most: whatever happened, an attempt that is made when one lease has passed without any other
  event acquires the lock.\<close>

theorem lease_bounds_blocking:
  assumes "lock_run pid l es (lock_init now) = Some s" "\<forall>p. Direct_release p \<notin> set es" "0 < lk_leaseMs l"
    and "ls_phase s p = Redis_try k v" "lk_leaseMs l \<le> int d"
  shows "\<exists>s'. lock_run pid l [Tick d, Attempt p True] s = Some s' \<and> ls_phase s' p = Held_redis v (ls_now s + int d)"
proof -
  let ?s = "s\<lparr>ls_now := ls_now s + int d\<rparr>"
  obtain ok ks where n: "setNx (lockKey l) v (lk_leaseMs l) (ls_now ?s) (ls_keys ?s) = (ok, ks)" by force
  have "lease_inv l s" using locked_run_inv [OF assms(1) _ _ assms(2,3)] init_inv by blast
  then have ok using setNx_cases [OF n] assms(5) unfolding lease_inv_def by (auto split: if_splits)
  then show ?thesis using n assms(4) by (auto simp: redis_attempt_def set_phase_def)
qed

section \<open>Where the lock does not exclude\<close>

definition demo_lock :: RedisDistributedLock where
  "demo_lock = \<lparr>lk_namespace = ''pauseFlags'', lk_timeoutMs = 5000, lk_leaseMs = 5000\<rparr>"

text \<open>Between the second \<open>stat\<close> and the removal of a stale lock file another client may steal it and create its own: the fresh file is
  removed, and both hold the lock within their leases.\<close>

definition steal_race :: "lock_event list" where
  "steal_race = [Acquire 0, Attempt 0 False, Open 0 True, Crash 0, Tick 5000,
     Acquire 1, Attempt 1 False, Open 1 True, Stat 1, Restat 1, Acquire 2, Attempt 2 False, Open 2 True, Stat 2, Restat 2,
     Steal 1 True, Open 1 True, Steal 2 True, Open 2 True]"

definition holds_file :: "RedisDistributedLock \<Rightarrow> lock_state \<Rightarrow> nat \<Rightarrow> bool" where
  "holds_file l s p = (case ls_phase s p of Held_file v t \<Rightarrow> ls_now s < t + lk_leaseMs l | _ \<Rightarrow> False)"

definition holds_redis :: "RedisDistributedLock \<Rightarrow> lock_state \<Rightarrow> nat \<Rightarrow> bool" where
  "holds_redis l s p = (case ls_phase s p of Held_redis v t \<Rightarrow> ls_now s < t + lk_leaseMs l | _ \<Rightarrow> False)"

theorem file_lock_stolen_twice:
  "\<exists>s. lock_run id demo_lock steal_race (lock_init 1000) = Some s \<and> holds_file demo_lock s 1 \<and> holds_file demo_lock s 2"
proof -
  have "case lock_run id demo_lock steal_race (lock_init 1000) of None \<Rightarrow> False | Some s \<Rightarrow> holds_file demo_lock s 1 \<and> holds_file demo_lock s 2"
    by code_simp
  then show ?thesis by (auto split: option.splits)
qed

text \<open>A client that Redis answers and a client that it does not answer do not exclude each other, and the \<open>release\<close> of the lock object frees
  the lock of another client.\<close>

theorem backends_do_not_exclude:
  "(\<exists>s. lock_run id demo_lock [Acquire 0, Attempt 0 True, Acquire 1, Attempt 1 False, Open 1 True] (lock_init 1000) = Some s \<and>
      holds_redis demo_lock s 0 \<and> holds_file demo_lock s 1) \<and>
   (\<exists>s. lock_run id demo_lock [Acquire 0, Attempt 0 True, Acquire 1, Direct_release 1, Attempt 1 True] (lock_init 1000) = Some s \<and>
      holds_redis demo_lock s 0 \<and> holds_redis demo_lock s 1)"
proof -
  have "case lock_run id demo_lock [Acquire 0, Attempt 0 True, Acquire 1, Attempt 1 False, Open 1 True] (lock_init 1000) of
      None \<Rightarrow> False | Some s \<Rightarrow> holds_redis demo_lock s 0 \<and> holds_file demo_lock s 1"
    "case lock_run id demo_lock [Acquire 0, Attempt 0 True, Acquire 1, Direct_release 1, Attempt 1 True] (lock_init 1000) of
      None \<Rightarrow> False | Some s \<Rightarrow> holds_redis demo_lock s 0 \<and> holds_redis demo_lock s 1" by code_simp+
  then show ?thesis by (auto split: option.splits)
qed

theorem redis_exclusive_witness:
  "\<exists>s. lock_run id demo_lock [Acquire 0, Attempt 0 True, Acquire 1, Attempt 1 True, Tick 10] (lock_init 1000) = Some s \<and> holds_redis demo_lock s 0 \<and>
     {q. holds_redis demo_lock s q} = {0}"
proof -
  let ?es = "[Acquire 0, Attempt 0 True, Acquire 1, Attempt 1 True, Tick 10]"
  have c: "case lock_run id demo_lock ?es (lock_init 1000) of None \<Rightarrow> False | Some s \<Rightarrow> holds_redis demo_lock s 0" by code_simp
  then obtain s where s: "lock_run id demo_lock ?es (lock_init 1000) = Some s" "holds_redis demo_lock s 0" by (auto split: option.splits)
  then obtain v t where v: "ls_phase s 0 = Held_redis v t" "ls_now s < t + lk_leaseMs demo_lock" by (auto simp: holds_redis_def split: phase.splits)
  have l: "\<forall>p. Direct_release p \<notin> set ?es" "0 < lk_leaseMs demo_lock" by (simp_all add: demo_lock_def)
  have "q = 0" if "holds_redis demo_lock s q" for q
  proof -
    from that obtain w u where "ls_phase s q = Held_redis w u" "ls_now s < u + lk_leaseMs demo_lock" by (auto simp: holds_redis_def split: phase.splits)
    from redis_exclusive [OF s(1) l v this] show ?thesis by simp
  qed
  then show ?thesis using s by blast
qed

theorem lease_bounds_blocking_witness:
  "\<exists>s s'. lock_run id demo_lock [Acquire 0, Attempt 0 True, Crash 0, Acquire 1] (lock_init 1000) = Some s \<and>
     lock_run id demo_lock [Tick 5000, Attempt 1 True] s = Some s' \<and> holds_redis demo_lock s' 1"
proof -
  let ?es = "[Acquire 0, Attempt 0 True, Crash 0, Acquire 1]"
  have "case lock_run id demo_lock ?es (lock_init 1000) of None \<Rightarrow> False | Some s \<Rightarrow> (case ls_phase s 1 of Redis_try k v \<Rightarrow> True | _ \<Rightarrow> False)" by code_simp
  then obtain s k v where s: "lock_run id demo_lock ?es (lock_init 1000) = Some s" "ls_phase s 1 = Redis_try k v"
    by (auto split: option.splits phase.splits)
  have l: "\<forall>p. Direct_release p \<notin> set ?es" "0 < lk_leaseMs demo_lock" "lk_leaseMs demo_lock \<le> int 5000" by (simp_all add: demo_lock_def)
  from lease_bounds_blocking [OF s(1) l(1,2) s(2) l(3)] obtain s' where
    "lock_run id demo_lock [Tick 5000, Attempt 1 True] s = Some s'" "ls_phase s' 1 = Held_redis v (ls_now s + int 5000)" by blast
  moreover from this s(2) have "ls_now s' = ls_now s + 5000"
    by (auto simp: redis_attempt_def set_phase_def split: prod.splits bool.splits if_splits)
  ultimately show ?thesis using s(1) by (auto simp: holds_redis_def demo_lock_def)
qed

end
