(* ===== verification/Realtime_Limits.thy ===== *)
theory Realtime_Limits
  imports Fluxora_Prelude
begin

text \<open>
  Admission of the long-lived HTTP connections: \<open>src/streams/sseConnectionLimiter.ts\<close> for server-sent events and
  \<open>src/streams/longPoll.ts\<close> for long polling. The two modules have the same counters and differ in the texts of a rejection, the
  sources of their limits and in the timer that releases an SSE connection after its longest duration; \<open>endpoint\<close> tells them apart.

  Accepted connections are numbered; \<open>release\<close> of a connection is an operation on its number, and \<open>ac_deadline\<close> is the time its
  timer fires. Times are arguments.

  The lemmas: whatever the environment holds, the limits lie in their ranges; in every run of admissions, releases (repeated ones
  included) and timers the counters are exactly the numbers of connections that are still open, and no counter exceeds its limit.
\<close>

section \<open>Limits\<close>

definition DEFAULT_SSE_MAX_CONNECTIONS_PER_IP :: int where "DEFAULT_SSE_MAX_CONNECTIONS_PER_IP = 10"
definition DEFAULT_SSE_MAX_GLOBAL_CONNECTIONS :: int where "DEFAULT_SSE_MAX_GLOBAL_CONNECTIONS = 1000"
definition DEFAULT_SSE_MAX_CONNECTIONS_PER_API_KEY :: int where "DEFAULT_SSE_MAX_CONNECTIONS_PER_API_KEY = 50"
definition DEFAULT_SSE_MAX_CONNECTION_DURATION_MS :: int where "DEFAULT_SSE_MAX_CONNECTION_DURATION_MS = 30 * 60 * 1000"
definition DEFAULT_SSE_RETRY_AFTER_SECONDS :: int where "DEFAULT_SSE_RETRY_AFTER_SECONDS = 15"
definition MAX_SSE_CONNECTION_LIMIT :: int where "MAX_SSE_CONNECTION_LIMIT = 100000"
definition MAX_SSE_CONNECTION_DURATION_MS :: int where "MAX_SSE_CONNECTION_DURATION_MS = 86400000"
definition MAX_SSE_RETRY_AFTER_SECONDS :: int where "MAX_SSE_RETRY_AFTER_SECONDS = 86400"

definition DEFAULT_LONG_POLL_MAX_CONNECTIONS_PER_IP :: int where "DEFAULT_LONG_POLL_MAX_CONNECTIONS_PER_IP = 10"
definition DEFAULT_LONG_POLL_MAX_GLOBAL_CONNECTIONS :: int where "DEFAULT_LONG_POLL_MAX_GLOBAL_CONNECTIONS = 1000"
definition DEFAULT_LONG_POLL_MAX_CONNECTIONS_PER_API_KEY :: int where "DEFAULT_LONG_POLL_MAX_CONNECTIONS_PER_API_KEY = 50"
definition DEFAULT_LONG_POLL_MAX_CONNECTION_DURATION_MS :: int where "DEFAULT_LONG_POLL_MAX_CONNECTION_DURATION_MS = 30000"
definition DEFAULT_LONG_POLL_RETRY_AFTER_SECONDS :: int where "DEFAULT_LONG_POLL_RETRY_AFTER_SECONDS = 15"
definition MAX_LONG_POLL_CONNECTION_LIMIT :: int where "MAX_LONG_POLL_CONNECTION_LIMIT = 100000"
definition MAX_LONG_POLL_CONNECTION_DURATION_MS :: int where "MAX_LONG_POLL_CONNECTION_DURATION_MS = 86400000"
definition MAX_LONG_POLL_RETRY_AFTER_SECONDS :: int where "MAX_LONG_POLL_RETRY_AFTER_SECONDS = 86400"

record SseConnectionLimits =
  maxConnectionsPerIp :: int
  maxConnectionsPerApiKey :: int
  maxGlobalConnections :: int
  maxConnectionDurationMs :: int
  retryAfterSeconds :: int

definition normalizeApiKey :: "string option \<Rightarrow> string option" where
  "normalizeApiKey apiKey =
     (case apiKey of None \<Rightarrow> None | Some k \<Rightarrow> let normalized = js_trim k in if normalized \<noteq> [] then Some normalized else None)"

definition normalizeIp :: "string \<Rightarrow> string" where
  "normalizeIp ip = (let normalized = js_trim ip in if normalized \<noteq> [] then normalized else ''unknown'')"

definition readBoundedPositiveInteger :: "env \<Rightarrow> string \<Rightarrow> int \<Rightarrow> int \<Rightarrow> int \<Rightarrow> int" where
  "readBoundedPositiveInteger env name fallback mn mx =
     (case env name of
        None \<Rightarrow> fallback
      | Some raw \<Rightarrow>
          let trimmed = js_trim raw
          in if trimmed = [] then fallback
             else if \<not> list_all is_digit trimmed then fallback
             else let parsed = int (digits_val trimmed)
                  in if parsed \<le> 2 ^ 53 - 1 \<and> mn \<le> parsed \<and> parsed \<le> mx then parsed else fallback)"

definition resolveSseConnectionLimits :: "env \<Rightarrow> SseConnectionLimits" where
  "resolveSseConnectionLimits env =
     \<lparr>maxConnectionsPerIp = readBoundedPositiveInteger env ''SSE_MAX_CONNECTIONS_PER_IP'' DEFAULT_SSE_MAX_CONNECTIONS_PER_IP 1 MAX_SSE_CONNECTION_LIMIT,
      maxConnectionsPerApiKey =
        readBoundedPositiveInteger env ''SSE_MAX_CONNECTIONS_PER_API_KEY'' DEFAULT_SSE_MAX_CONNECTIONS_PER_API_KEY 1 MAX_SSE_CONNECTION_LIMIT,
      maxGlobalConnections =
        readBoundedPositiveInteger env ''SSE_MAX_GLOBAL_CONNECTIONS'' DEFAULT_SSE_MAX_GLOBAL_CONNECTIONS 1 MAX_SSE_CONNECTION_LIMIT,
      maxConnectionDurationMs =
        readBoundedPositiveInteger env ''SSE_MAX_CONNECTION_DURATION_MS'' DEFAULT_SSE_MAX_CONNECTION_DURATION_MS 1 MAX_SSE_CONNECTION_DURATION_MS,
      retryAfterSeconds =
        readBoundedPositiveInteger env ''SSE_RETRY_AFTER_SECONDS'' DEFAULT_SSE_RETRY_AFTER_SECONDS 1 MAX_SSE_RETRY_AFTER_SECONDS\<rparr>"

text \<open>The limits of long polling fall back to those of server-sent events, except for the duration.\<close>

definition resolveLongPollConnectionLimits :: "env \<Rightarrow> SseConnectionLimits" where
  "resolveLongPollConnectionLimits env =
     (let sseIp = readBoundedPositiveInteger env ''SSE_MAX_CONNECTIONS_PER_IP'' DEFAULT_LONG_POLL_MAX_CONNECTIONS_PER_IP 1 MAX_LONG_POLL_CONNECTION_LIMIT;
          sseKey = readBoundedPositiveInteger env ''SSE_MAX_CONNECTIONS_PER_API_KEY'' DEFAULT_LONG_POLL_MAX_CONNECTIONS_PER_API_KEY 1
            MAX_LONG_POLL_CONNECTION_LIMIT;
          sseGlobal = readBoundedPositiveInteger env ''SSE_MAX_GLOBAL_CONNECTIONS'' DEFAULT_LONG_POLL_MAX_GLOBAL_CONNECTIONS 1
            MAX_LONG_POLL_CONNECTION_LIMIT;
          sseRetry = readBoundedPositiveInteger env ''SSE_RETRY_AFTER_SECONDS'' DEFAULT_LONG_POLL_RETRY_AFTER_SECONDS 1
            MAX_LONG_POLL_RETRY_AFTER_SECONDS
      in \<lparr>maxConnectionsPerIp = readBoundedPositiveInteger env ''LONG_POLL_MAX_CONNECTIONS_PER_IP'' sseIp 1 MAX_LONG_POLL_CONNECTION_LIMIT,
          maxConnectionsPerApiKey =
            readBoundedPositiveInteger env ''LONG_POLL_MAX_CONNECTIONS_PER_API_KEY'' sseKey 1 MAX_LONG_POLL_CONNECTION_LIMIT,
          maxGlobalConnections = readBoundedPositiveInteger env ''LONG_POLL_MAX_GLOBAL_CONNECTIONS'' sseGlobal 1 MAX_LONG_POLL_CONNECTION_LIMIT,
          maxConnectionDurationMs =
            readBoundedPositiveInteger env ''LONG_POLL_MAX_CONNECTION_DURATION_MS'' DEFAULT_LONG_POLL_MAX_CONNECTION_DURATION_MS 1
              MAX_LONG_POLL_CONNECTION_DURATION_MS,
          retryAfterSeconds = readBoundedPositiveInteger env ''LONG_POLL_RETRY_AFTER_SECONDS'' sseRetry 1 MAX_LONG_POLL_RETRY_AFTER_SECONDS\<rparr>)"

section \<open>Counters\<close>

datatype endpoint = Sse | Long_poll

datatype SseConnectionRejectionReason = Per_ip_limit | Per_key_limit | Global_limit

record AcceptedSseConnection =
  ac_ip :: string
  ac_key :: "string option"
  ac_acceptedAt :: millis
  ac_limits :: SseConnectionLimits
  ac_deadline :: "millis option"
  ac_released :: bool

datatype SseConnectionAttempt =
    Admitted nat
  | Rejected SseConnectionRejectionReason string SseConnectionLimits int int int

record slots =
  activeConnectionsByIp :: "(string, int) jsmap"
  activeConnections :: int
  activeConnectionsByApiKey :: "(string, int) jsmap"
  accepted :: "AcceptedSseConnection list"

definition no_slots :: slots where
  "no_slots = \<lparr>activeConnectionsByIp = [], activeConnections = 0, activeConnectionsByApiKey = [], accepted = []\<rparr>"

fun rejection_text :: "endpoint \<Rightarrow> SseConnectionRejectionReason \<Rightarrow> string" where
  "rejection_text Sse Per_ip_limit = ''Too many active SSE connections from this IP address''"
| "rejection_text Sse Per_key_limit = ''Too many active SSE connections for this API key''"
| "rejection_text Sse Global_limit = ''Too many active SSE connections''"
| "rejection_text Long_poll Per_ip_limit = ''Too many active long-polling connections from this IP address''"
| "rejection_text Long_poll Per_key_limit = ''Too many active long-polling connections for this API key''"
| "rejection_text Long_poll Global_limit = ''Too many active long-polling connections''"

abbreviation count_in :: "(string, int) jsmap \<Rightarrow> string \<Rightarrow> int" where
  "count_in m k \<equiv> nullish (map_get m k) 0"

definition tryAcquireSseConnection ::
  "endpoint \<Rightarrow> string \<Rightarrow> SseConnectionLimits \<Rightarrow> string option \<Rightarrow> millis \<Rightarrow> slots \<Rightarrow> SseConnectionAttempt \<times> slots" where
  "tryAcquireSseConnection ep ip limits apiKey now s =
     (let normalizedIp = normalizeIp ip;
          normalizedKey = normalizeApiKey apiKey;
          forIp = count_in (activeConnectionsByIp s) normalizedIp;
          reject = (\<lambda>r. (Rejected r (rejection_text ep r) limits (retryAfterSeconds limits) (activeConnections s) forIp, s))
      in if maxConnectionsPerIp limits \<le> forIp then reject Per_ip_limit
         else if (case normalizedKey of None \<Rightarrow> False | Some k \<Rightarrow> maxConnectionsPerApiKey limits \<le> count_in (activeConnectionsByApiKey s) k)
         then reject Per_key_limit
         else if maxGlobalConnections limits \<le> activeConnections s then reject Global_limit
         else (Admitted (length (accepted s)),
               \<lparr>activeConnectionsByIp = map_set normalizedIp (forIp + 1) (activeConnectionsByIp s),
                activeConnections = activeConnections s + 1,
                activeConnectionsByApiKey =
                  (case normalizedKey of None \<Rightarrow> activeConnectionsByApiKey s
                   | Some k \<Rightarrow> map_set k (count_in (activeConnectionsByApiKey s) k + 1) (activeConnectionsByApiKey s)),
                accepted = accepted s @
                  [\<lparr>ac_ip = normalizedIp, ac_key = normalizedKey, ac_acceptedAt = now, ac_limits = limits,
                    ac_deadline = (if ep = Sse \<and> 0 < maxConnectionDurationMs limits then Some (now + maxConnectionDurationMs limits) else None),
                    ac_released = False\<rparr>]\<rparr>))"

definition tryAcquireLongPollConnection ::
  "string \<Rightarrow> SseConnectionLimits \<Rightarrow> string option \<Rightarrow> millis \<Rightarrow> slots \<Rightarrow> SseConnectionAttempt \<times> slots" where
  "tryAcquireLongPollConnection = tryAcquireSseConnection Long_poll"

definition count_down :: "string \<Rightarrow> (string, int) jsmap \<Rightarrow> (string, int) jsmap" where
  "count_down k m = (let current = count_in m k in if current \<le> 1 then map_delete k m else map_set k (current - 1) m)"

definition release_slot :: "nat \<Rightarrow> slots \<Rightarrow> slots" where
  "release_slot i s =
     (if length (accepted s) \<le> i then s
      else let c = accepted s ! i
           in if ac_released c then s
              else \<lparr>activeConnectionsByIp = count_down (ac_ip c) (activeConnectionsByIp s),
                    activeConnections = max 0 (activeConnections s - 1),
                    activeConnectionsByApiKey =
                      (case ac_key c of None \<Rightarrow> activeConnectionsByApiKey s | Some k \<Rightarrow> count_down k (activeConnectionsByApiKey s)),
                    accepted = (accepted s)[i := c\<lparr>ac_released := True, ac_deadline := None\<rparr>]\<rparr>)"

text \<open>The timers that are due at a time.\<close>

definition fire_timer :: "nat \<Rightarrow> millis \<Rightarrow> slots \<Rightarrow> slots" where
  "fire_timer i now s =
     (if i < length (accepted s) \<and> (case ac_deadline (accepted s ! i) of None \<Rightarrow> False | Some d \<Rightarrow> d \<le> now) then release_slot i s else s)"

definition getActiveSseConnectionCount :: "slots \<Rightarrow> int" where
  "getActiveSseConnectionCount s = activeConnections s"

definition getActiveSseConnectionCountForIp :: "string \<Rightarrow> slots \<Rightarrow> int" where
  "getActiveSseConnectionCountForIp ip s = count_in (activeConnectionsByIp s) (normalizeIp ip)"

datatype slot_op =
    Acquire string SseConnectionLimits "string option" millis
  | Release nat
  | Timer nat millis

fun slot_step :: "endpoint \<Rightarrow> slots \<Rightarrow> slot_op \<Rightarrow> slots" where
  "slot_step ep s (Acquire ip limits key now) = snd (tryAcquireSseConnection ep ip limits key now s)"
| "slot_step ep s (Release i) = release_slot i s"
| "slot_step ep s (Timer i now) = fire_timer i now s"

definition slot_run :: "endpoint \<Rightarrow> slot_op list \<Rightarrow> slots" where
  "slot_run ep ops = foldl (slot_step ep) no_slots ops"

section \<open>The limits lie in their ranges\<close>

lemma bounded_range: "mn \<le> fallback \<Longrightarrow> fallback \<le> mx \<Longrightarrow>
    mn \<le> readBoundedPositiveInteger env name fallback mn mx \<and> readBoundedPositiveInteger env name fallback mn mx \<le> mx"
  by (auto simp: readBoundedPositiveInteger_def Let_def split: option.split)

lemmas limit_defaults =
  DEFAULT_SSE_MAX_CONNECTIONS_PER_IP_def DEFAULT_SSE_MAX_GLOBAL_CONNECTIONS_def DEFAULT_SSE_MAX_CONNECTIONS_PER_API_KEY_def
  DEFAULT_SSE_MAX_CONNECTION_DURATION_MS_def DEFAULT_SSE_RETRY_AFTER_SECONDS_def MAX_SSE_CONNECTION_LIMIT_def MAX_SSE_CONNECTION_DURATION_MS_def
  MAX_SSE_RETRY_AFTER_SECONDS_def DEFAULT_LONG_POLL_MAX_CONNECTIONS_PER_IP_def DEFAULT_LONG_POLL_MAX_GLOBAL_CONNECTIONS_def
  DEFAULT_LONG_POLL_MAX_CONNECTIONS_PER_API_KEY_def DEFAULT_LONG_POLL_MAX_CONNECTION_DURATION_MS_def DEFAULT_LONG_POLL_RETRY_AFTER_SECONDS_def
  MAX_LONG_POLL_CONNECTION_LIMIT_def MAX_LONG_POLL_CONNECTION_DURATION_MS_def MAX_LONG_POLL_RETRY_AFTER_SECONDS_def

definition limits_in_range :: "SseConnectionLimits \<Rightarrow> bool" where
  "limits_in_range l \<longleftrightarrow> 1 \<le> maxConnectionsPerIp l \<and> maxConnectionsPerIp l \<le> 100000 \<and> 1 \<le> maxConnectionsPerApiKey l \<and>
     maxConnectionsPerApiKey l \<le> 100000 \<and> 1 \<le> maxGlobalConnections l \<and> maxGlobalConnections l \<le> 100000 \<and> 1 \<le> maxConnectionDurationMs l \<and>
     maxConnectionDurationMs l \<le> 86400000 \<and> 1 \<le> retryAfterSeconds l \<and> retryAfterSeconds l \<le> 86400"

text \<open>Whatever the environment holds, every limit lies in its range.\<close>

theorem resolved_limits_in_range: "limits_in_range (resolveSseConnectionLimits env) \<and> limits_in_range (resolveLongPollConnectionLimits env)"
  unfolding limits_in_range_def resolveSseConnectionLimits_def resolveLongPollConnectionLimits_def Let_def
  by (simp add: limit_defaults bounded_range)

section \<open>The counters are exact\<close>

definition open_with :: "(AcceptedSseConnection \<Rightarrow> bool) \<Rightarrow> slots \<Rightarrow> int" where
  "open_with P s = int (length (filter (\<lambda>c. \<not> ac_released c \<and> P c) (accepted s)))"

definition slots_exact :: "slots \<Rightarrow> bool" where
  "slots_exact s \<longleftrightarrow> activeConnections s = open_with (\<lambda>_. True) s \<and>
     (\<forall>k. count_in (activeConnectionsByIp s) k = open_with (\<lambda>c. ac_ip c = k) s) \<and>
     (\<forall>k. count_in (activeConnectionsByApiKey s) k = open_with (\<lambda>c. ac_key c = Some k) s)"

lemma filter_update:
  "i < length xs \<Longrightarrow> int (length (filter Q (xs[i := x]))) =
   int (length (filter Q xs)) - (if Q (xs ! i) then 1 else 0) + (if Q x then 1 else 0)"
proof (induction xs arbitrary: i)
  case (Cons a xs)
  show ?case
  proof (cases i)
    case (Suc j)
    then show ?thesis using Cons.IH [of j] Cons.prems by (simp split: if_splits)
  qed simp
qed simp

lemma open_with_pos:
  assumes "i < length (accepted s)" "\<not> ac_released (accepted s ! i)" "P (accepted s ! i)"
  shows "1 \<le> open_with P s"
proof -
  have "accepted s ! i \<in> set (filter (\<lambda>c. \<not> ac_released c \<and> P c) (accepted s))" using assms by simp
  from length_pos_if_in_set [OF this] show ?thesis unfolding open_with_def by linarith
qed

lemma release_accepted:
  "i < length (accepted s) \<Longrightarrow> \<not> ac_released (accepted s ! i) \<Longrightarrow>
   accepted (release_slot i s) = (accepted s)[i := (accepted s ! i)\<lparr>ac_released := True, ac_deadline := None\<rparr>]"
  by (simp add: release_slot_def Let_def)

lemma release_open:
  "i < length (accepted s) \<Longrightarrow> \<not> ac_released (accepted s ! i) \<Longrightarrow>
   open_with P (release_slot i s) = open_with P s - (if P (accepted s ! i) then 1 else 0)"
  by (simp add: open_with_def release_accepted filter_update)

lemma count_down: "1 \<le> count_in m k \<Longrightarrow> count_in (count_down k m) k' = count_in m k' - (if k = k' then 1 else 0)"
  by (auto simp: count_down_def Let_def)

lemma acquire_cases:
  "(\<exists>r t a b c d. tryAcquireSseConnection ep ip limits key now s = (Rejected r t a b c d, s)) \<or>
   (\<exists>x. tryAcquireSseConnection ep ip limits key now s =
      (Admitted (length (accepted s)),
       \<lparr>activeConnectionsByIp = map_set (normalizeIp ip) (count_in (activeConnectionsByIp s) (normalizeIp ip) + 1) (activeConnectionsByIp s),
        activeConnections = activeConnections s + 1,
        activeConnectionsByApiKey = (case normalizeApiKey key of None \<Rightarrow> activeConnectionsByApiKey s
           | Some k \<Rightarrow> map_set k (count_in (activeConnectionsByApiKey s) k + 1) (activeConnectionsByApiKey s)),
        accepted = accepted s @ [x]\<rparr>) \<and>
      ac_ip x = normalizeIp ip \<and> ac_key x = normalizeApiKey key \<and> \<not> ac_released x \<and>
      count_in (activeConnectionsByIp s) (normalizeIp ip) < maxConnectionsPerIp limits \<and> activeConnections s < maxGlobalConnections limits \<and>
      (\<forall>k. normalizeApiKey key = Some k \<longrightarrow> count_in (activeConnectionsByApiKey s) k < maxConnectionsPerApiKey limits))"
  by (auto simp: tryAcquireSseConnection_def Let_def split: option.split)

lemma acquire_exact: "slots_exact s \<Longrightarrow> slots_exact (snd (tryAcquireSseConnection ep ip limits key now s))"
  using acquire_cases [of ep ip limits key now s]
  by (elim disjE exE conjE) (auto simp: slots_exact_def open_with_def split: option.split)

lemma release_exact:
  assumes "slots_exact s"
  shows "slots_exact (release_slot i s)"
proof (cases "i < length (accepted s) \<and> \<not> ac_released (accepted s ! i)")
  case True
  let ?c = "accepted s ! i" and ?s = "release_slot i s"
  have i: "i < length (accepted s)" "\<not> ac_released ?c" using True by simp_all
  note o = release_open [OF i]
  have ip: "1 \<le> count_in (activeConnectionsByIp s) (ac_ip ?c)" and act: "1 \<le> activeConnections s"
    using assms open_with_pos [OF i] by (simp_all add: slots_exact_def)
  have key: "1 \<le> count_in (activeConnectionsByApiKey s) k" if "ac_key ?c = Some k" for k
    using assms open_with_pos [OF i] that by (simp add: slots_exact_def)
  have s: "activeConnectionsByIp ?s = count_down (ac_ip ?c) (activeConnectionsByIp s)" "activeConnections ?s = max 0 (activeConnections s - 1)"
    "activeConnectionsByApiKey ?s = (case ac_key ?c of None \<Rightarrow> activeConnectionsByApiKey s | Some k \<Rightarrow> count_down k (activeConnectionsByApiKey s))"
    using i by (simp_all add: release_slot_def Let_def)
  show ?thesis
    using assms act ip key unfolding slots_exact_def o s by (auto simp: count_down split: option.split)
next
  case False
  then show ?thesis using assms by (auto simp: release_slot_def Let_def)
qed

interpretation slots_inv: op_invariant "slot_step ep" slots_exact for ep
proof
  show "slots_exact s \<Longrightarrow> slots_exact (slot_step ep s x)" for s x
    by (cases x) (simp_all add: acquire_exact release_exact fire_timer_def)
qed

lemma run_exact: "slots_exact (slot_run ep ops)"
  unfolding slot_run_def by (rule slots_inv.run_inv) (simp add: slots_exact_def open_with_def no_slots_def)

section \<open>No counter exceeds its limit\<close>

definition acquires_within :: "int \<Rightarrow> int \<Rightarrow> int \<Rightarrow> slot_op \<Rightarrow> bool" where
  "acquires_within a b c x = (case x of Acquire ip l key now \<Rightarrow> maxConnectionsPerIp l \<le> a \<and> maxConnectionsPerApiKey l \<le> b \<and> maxGlobalConnections l \<le> c
     | _ \<Rightarrow> True)"

definition slots_within :: "int \<Rightarrow> int \<Rightarrow> int \<Rightarrow> slots \<Rightarrow> bool" where
  "slots_within a b c s \<longleftrightarrow> (\<forall>k. count_in (activeConnectionsByIp s) k \<le> a) \<and> (\<forall>k. count_in (activeConnectionsByApiKey s) k \<le> b) \<and>
     activeConnections s \<le> c"

lemma release_count_le:
  assumes "slots_exact s" "slots_within a b c s"
  shows "slots_within a b c (release_slot i s)"
proof -
  have le: "open_with P (release_slot i s) \<le> open_with P s" for P
  proof (cases "i < length (accepted s) \<and> \<not> ac_released (accepted s ! i)")
    case True
    then show ?thesis by (simp add: release_open)
  next
    case False
    then show ?thesis by (auto simp: release_slot_def Let_def)
  qed
  show ?thesis using assms release_exact [OF assms(1), of i] le unfolding slots_within_def slots_exact_def by (metis order_trans)
qed

lemma step_within:
  assumes "slots_exact s" "slots_within a b c s" "acquires_within a b c x"
  shows "slots_within a b c (slot_step ep s x)"
proof (cases x)
  case (Acquire ip l key now)
  then show ?thesis using assms(2,3) acquire_cases [of ep ip l key now s]
    by (elim disjE exE conjE) (auto simp: slots_within_def acquires_within_def split: option.split)
qed (use assms release_count_le in \<open>auto simp: fire_timer_def\<close>)

lemma run_within: "0 \<le> a \<Longrightarrow> 0 \<le> b \<Longrightarrow> 0 \<le> c \<Longrightarrow> list_all (acquires_within a b c) ops \<Longrightarrow> slots_within a b c (slot_run ep ops)"
proof (induction ops rule: rev_induct)
  case Nil
  then show ?case by (simp add: slot_run_def no_slots_def slots_within_def)
next
  case (snoc x xs)
  then show ?case using step_within [OF run_exact] by (simp add: slot_run_def)
qed

text \<open>In every run of admissions, releases, repeated releases and timers the counters are exactly the numbers of open connections, of an
  address, of an API key and in all, and none of them exceeds the largest limit that was in force at an admission.\<close>

theorem realtime_slots:
  assumes "0 \<le> a" "0 \<le> b" "0 \<le> c" "list_all (acquires_within a b c) ops"
  shows "getActiveSseConnectionCount (slot_run ep ops) = open_with (\<lambda>_. True) (slot_run ep ops) \<and> open_with (\<lambda>_. True) (slot_run ep ops) \<le> c \<and>
    (\<forall>ip. getActiveSseConnectionCountForIp ip (slot_run ep ops) = open_with (\<lambda>x. ac_ip x = normalizeIp ip) (slot_run ep ops)) \<and>
    (\<forall>k. open_with (\<lambda>x. ac_ip x = k) (slot_run ep ops) \<le> a \<and> open_with (\<lambda>x. ac_key x = Some k) (slot_run ep ops) \<le> b)"
  using run_exact [of ep ops] run_within [OF assms, of ep]
  by (simp add: slots_exact_def slots_within_def getActiveSseConnectionCount_def getActiveSseConnectionCountForIp_def)

definition demo_slot_ops :: "slot_op list" where
  "demo_slot_ops = (let l = resolveSseConnectionLimits (\<lambda>n. if n = ''SSE_MAX_CONNECTIONS_PER_IP'' then Some '' 2 '' else None)
     in [Acquire ''10.0.0.1'' l (Some ''key'') 0, Acquire '' 10.0.0.1'' l None 5, Acquire ''10.0.0.1'' l None 6, Release 0, Release 0,
         Acquire ''10.0.0.2'' l (Some ''  '') 7, Timer 1 1800005])"

theorem realtime_slots_witness:
  "getActiveSseConnectionCount (slot_run Sse demo_slot_ops) = 1 \<and> open_with (\<lambda>x. ac_ip x = ''10.0.0.1'') (slot_run Sse demo_slot_ops) \<le> 2"
proof -
  have "list_all (acquires_within 2 50 1000) demo_slot_ops" by code_simp
  from realtime_slots [OF _ _ _ this, of Sse] have
    "getActiveSseConnectionCount (slot_run Sse demo_slot_ops) = open_with (\<lambda>_. True) (slot_run Sse demo_slot_ops)"
    "open_with (\<lambda>x. ac_ip x = ''10.0.0.1'') (slot_run Sse demo_slot_ops) \<le> 2" by auto
  moreover have "open_with (\<lambda>_. True) (slot_run Sse demo_slot_ops) = 1" by code_simp
  ultimately show ?thesis by simp
qed

end
