(* ===== verification/Auth.thy ===== *)
theory Auth
  imports Http_Limit_Store Ip_Text
begin

text \<open>
  Authentication of HTTP requests: the session tokens of \<open>src/lib/auth.ts\<close>, the middleware of \<open>src/middleware/auth.ts\<close>,
  \<open>src/middleware/adminAuth.ts\<close> and \<open>src/middleware/authLockout.ts\<close>, the revocation list \<open>src/redis/jwtRevocationStore.ts\<close>, the API keys of
  \<open>src/lib/apiKey.ts\<close> over \<open>src/db/repositories/apiKeyRepository.ts\<close>, the failure counters of \<open>src/redis/authAttemptStore.ts\<close> and the
  endpoints of \<open>src/routes/auth.ts\<close>.

  A middleware answers (\<open>Reject\<close> with status and message) or passes the request on (\<open>Next\<close> with the principal it attached). The library
  \<open>jsonwebtoken\<close> is the argument \<open>lib\<close>; \<open>issued\<close> is its documented behaviour for a token that was signed with given claims. The keyed
  hash of the API keys is the argument \<open>hmac\<close>. Redis and the table of keys are states; whether they answer is an argument. Times are
  milliseconds; the claim \<open>exp\<close> is in seconds.

  The lemmas: a revoked token is refused until it expires whatever happens to Redis, and what happens after that; when a presented API key
  is accepted, over its life of creation, rotation and revocation; the counters of failed attempts; and who can get a session.
\<close>

section \<open>Session tokens\<close>

record claims =
  cl_address :: "string option"
  cl_role :: "string option"
  cl_permissions :: "string list option"
  cl_jti :: "string option"
  cl_exp :: "int option"

record jwt_lib =
  jwt_sign :: "claims \<Rightarrow> string \<Rightarrow> string"
  jwt_verify :: "string \<Rightarrow> string \<Rightarrow> millis \<Rightarrow> int \<Rightarrow> claims option"

record jwt_config =
  jwtSecret :: string
  jwtSecretPrevious :: "string option"
  jwtExpiresIn :: "int option"

definition CLOCK_TOLERANCE_SECONDS :: int where "CLOCK_TOLERANCE_SECONDS = 10"

text \<open>\<open>clockTimestamp >= exp + clockTolerance\<close> in whole seconds.\<close>

definition expired :: "claims \<Rightarrow> millis \<Rightarrow> int \<Rightarrow> bool" where
  "expired c now tolerance = (case cl_exp c of None \<Rightarrow> False | Some e \<Rightarrow> e + tolerance \<le> now div 1000)"

text \<open>A token that carries the claims \<open>c\<close> under the secret \<open>k\<close>: text without surrounding white space that verifies until it expires.\<close>

definition issued :: "jwt_lib \<Rightarrow> string \<Rightarrow> string \<Rightarrow> claims \<Rightarrow> bool" where
  "issued lib t k c \<longleftrightarrow> t \<noteq> [] \<and> js_trim t = t \<and> CHR '' '' \<notin> set t \<and>
     (\<forall>now tolerance. jwt_verify lib t k now tolerance = (if expired c now tolerance then None else Some c))"

definition operator_permissions :: "string list" where
  "operator_permissions = [''streams:read'', ''streams:write'', ''dlq:list'', ''dlq:read'', ''dlq:replay'', ''dlq:delete'', ''dlq:consumer:resume'',
     ''audit:read'']"

definition all_permissions :: "string list" where
  "all_permissions = [''streams:read'', ''streams:write'', ''admin:pause'', ''admin:reindex'', ''indexer:replay'', ''dlq:list'', ''dlq:read'',
     ''dlq:replay'', ''dlq:delete'', ''dlq:consumer:resume'', ''audit:read'', ''audit:write'']"

definition derived_claims :: "jwt_config \<Rightarrow> string \<Rightarrow> string \<Rightarrow> string list option \<Rightarrow> millis \<Rightarrow> claims" where
  "derived_claims cfg address role permissions now =
     \<lparr>cl_address = Some address, cl_role = Some role,
      cl_permissions = Some (nullish permissions (if role = ''operator'' then operator_permissions else [''streams:read''])),
      cl_jti = None, cl_exp = map_option (\<lambda>d. now div 1000 + d) (jwtExpiresIn cfg)\<rparr>"

definition generateToken :: "jwt_lib \<Rightarrow> jwt_config \<Rightarrow> string \<Rightarrow> string \<Rightarrow> string list option \<Rightarrow> millis \<Rightarrow> string" where
  "generateToken lib cfg address role permissions now = jwt_sign lib (derived_claims cfg address role permissions now) (jwtSecret cfg)"

definition verifyToken :: "jwt_lib \<Rightarrow> jwt_config \<Rightarrow> string \<Rightarrow> millis \<Rightarrow> claims option" where
  "verifyToken lib cfg token now =
     (case jwt_verify lib token (jwtSecret cfg) now CLOCK_TOLERANCE_SECONDS of
        Some c \<Rightarrow> Some c
      | None \<Rightarrow>
          if nullish (jwtSecretPrevious cfg) [] \<noteq> [] then jwt_verify lib token (the (jwtSecretPrevious cfg)) now CLOCK_TOLERANCE_SECONDS
          else None)"

section \<open>Revocation\<close>

text \<open>The client that \<open>createRedisClient\<close> gives: one that answers or fails, the one that does nothing (Redis disabled), or an error.\<close>

datatype revocation_client = Live bool | Noop | Init_fails

type_synonym revocations = "(string, millis) jsmap"

definition DEFAULT_REVOCATION_TTL_SECONDS :: int where "DEFAULT_REVOCATION_TTL_SECONDS = 7 * 24 * 60 * 60"

definition buildKey :: "string \<Rightarrow> string" where "buildKey jti = ''jwt:revoked:'' @ jti"

datatype JwtRevocationInput =
    Default_ttl
  | Ttl_seconds int
  | Jwt_options "int option" int millis

datatype revocation_error = Type_error string | JwtRevocationError | Client_error

text \<open>\<open>Math.ceil(exp - now / 1000)\<close>.\<close>

definition remaining_seconds :: "int \<Rightarrow> millis \<Rightarrow> int" where
  "remaining_seconds expiry now = - ((now - expiry * 1000) div 1000)"

definition resolveRevocationTtl :: "JwtRevocationInput \<Rightarrow> revocation_error + int option" where
  "resolveRevocationTtl input =
     (case input of
        Default_ttl \<Rightarrow> Inr (Some DEFAULT_REVOCATION_TTL_SECONDS)
      | Ttl_seconds ttl \<Rightarrow> if ttl \<le> 0 then Inl (Type_error ''ttl'') else Inr (Some ttl)
      | Jwt_options ttl expiry now \<Rightarrow>
          if expiry \<le> 0 then Inl (Type_error ''exp'')
          else if (case ttl of None \<Rightarrow> False | Some t \<Rightarrow> t \<le> 0) then Inl (Type_error ''ttl'')
          else let remaining = remaining_seconds expiry now in Inr (if remaining \<le> 0 then None else Some remaining))"

definition revoke :: "revocation_client \<Rightarrow> string \<Rightarrow> JwtRevocationInput \<Rightarrow> millis \<Rightarrow> revocations \<Rightarrow> (revocation_error + bool \<times> int) \<times> revocations" where
  "revoke client jti options now rs =
     (if jti = [] then (Inl (Type_error ''jti''), rs)
      else case resolveRevocationTtl options of
             Inl e \<Rightarrow> (Inl e, rs)
           | Inr None \<Rightarrow> (Inr (False, 0), rs)
           | Inr (Some ttl) \<Rightarrow>
               (case client of
                  Init_fails \<Rightarrow> (Inl Client_error, rs)
                | Noop \<Rightarrow> (Inr (True, ttl), rs)
                | Live False \<Rightarrow> (Inl JwtRevocationError, rs)
                | Live True \<Rightarrow> (Inr (True, ttl), map_set (buildKey jti) (now + ttl * 1000) rs)))"

text \<open>\<open>None\<close>: the promise is rejected.\<close>

definition isRevoked :: "revocation_client \<Rightarrow> string \<Rightarrow> millis \<Rightarrow> revocations \<Rightarrow> bool option" where
  "isRevoked client jti now rs =
     (if jti = [] then Some True
      else case client of
             Init_fails \<Rightarrow> None
           | Noop \<Rightarrow> Some False
           | Live False \<Rightarrow> Some True
           | Live True \<Rightarrow> Some (case map_get rs (buildKey jti) of None \<Rightarrow> False | Some expiry \<Rightarrow> now < expiry))"

section \<open>The middleware\<close>

record principal =
  pr_user :: "claims option"
  pr_keyId :: "string option"
  pr_keyScopes :: "string list option"
  pr_callerAddress :: "string option"

definition anonymous :: principal where
  "anonymous = \<lparr>pr_user = None, pr_keyId = None, pr_keyScopes = None, pr_callerAddress = None\<rparr>"

datatype middleware_result = Next principal | Reject nat string

record auth_env =
  ae_lib :: jwt_lib
  ae_cfg :: jwt_config
  ae_client :: revocation_client
  ae_now :: millis

text \<open>\<open>tokenSchema.parse\<close>.\<close>

definition token_schema :: "claims \<Rightarrow> bool" where
  "token_schema c \<longleftrightarrow> cl_address c \<noteq> None \<and> cl_role c \<noteq> None \<and>
     (case cl_permissions c of None \<Rightarrow> False | Some ps \<Rightarrow> list_all (\<lambda>p. p \<in> set all_permissions) ps)"

definition auth_failed :: middleware_result where
  "auth_failed = Reject 401 ''Invalid or expired authentication token''"

definition authenticate :: "auth_env \<Rightarrow> revocations \<Rightarrow> string option \<Rightarrow> principal \<Rightarrow> middleware_result" where
  "authenticate env rs authHeader req =
     (case authHeader of
        None \<Rightarrow> Next req
      | Some h \<Rightarrow>
          if h = [] then Next req
          else if hd (split_on (CHR '' '') h) \<noteq> ''Bearer'' then Next req
          else let token = js_trim (join '' '' (tl (split_on (CHR '' '') h)))
               in if token = [] then Next req
                  else case verifyToken (ae_lib env) (ae_cfg env) token (ae_now env) of
                         None \<Rightarrow> auth_failed
                       | Some payload \<Rightarrow>
                           (case (if nullish (cl_jti payload) [] = [] then Some False
                                  else isRevoked (ae_client env) (the (cl_jti payload)) (ae_now env) rs) of
                              None \<Rightarrow> auth_failed
                            | Some True \<Rightarrow> Reject 401 ''token_revoked''
                            | Some False \<Rightarrow> if token_schema payload then Next (req\<lparr>pr_user := Some payload\<rparr>) else auth_failed))"

definition requireAuth :: "principal \<Rightarrow> middleware_result" where
  "requireAuth req = (if pr_user req = None then Reject 401 ''Authentication required to access this resource'' else Next req)"

definition requirePermission :: "string \<Rightarrow> principal \<Rightarrow> middleware_result" where
  "requirePermission permission req =
     (case pr_user req of
        None \<Rightarrow> Reject 401 ''Authentication required to access this resource''
      | Some u \<Rightarrow>
          if permission \<notin> set (nullish (cl_permissions u) []) then Reject 403 ''Insufficient permissions to access this resource'' else Next req)"

definition requireScope :: "string list \<Rightarrow> principal \<Rightarrow> middleware_result" where
  "requireScope requiredScopes req =
     (if pr_keyId req = None \<and> pr_user req = None then Reject 401 ''Authentication required to access this resource''
      else let scopes = (if pr_keyId req \<noteq> None then nullish (pr_keyScopes req) []
                         else case pr_user req of None \<Rightarrow> [] | Some u \<Rightarrow> nullish (cl_permissions u) [])
           in if scopes = [] then Reject 403 ''Principal does not have required scopes''
              else if \<not> list_ex (\<lambda>s. s \<in> set scopes) requiredScopes
              then Reject 403 (''Insufficient scopes. Required: '' @ join '' or '' requiredScopes)
              else Next req)"

text \<open>A chain of middleware.\<close>

fun chain :: "(principal \<Rightarrow> middleware_result) list \<Rightarrow> principal \<Rightarrow> middleware_result" where
  "chain [] req = Next req"
| "chain (m # ms) req = (case m req of Next req1 \<Rightarrow> chain ms req1 | Reject c t \<Rightarrow> Reject c t)"

section \<open>The admin gate\<close>

definition MAX_AUTHORIZATION_HEADER_LENGTH :: nat where "MAX_AUTHORIZATION_HEADER_LENGTH = 8192"

definition admin_user :: claims where
  "admin_user = \<lparr>cl_address = Some [], cl_role = Some ''admin'', cl_permissions = None, cl_jti = None, cl_exp = None\<rparr>"

definition requireAdminAuth :: "auth_env \<Rightarrow> string option \<Rightarrow> string option \<Rightarrow> principal \<Rightarrow> middleware_result" where
  "requireAdminAuth env adminKey header req =
     (if nullish adminKey [] = [] then Reject 503 ''Admin API is not configured. Set ADMIN_API_KEY to enable admin access.''
      else if nullish header [] = [] then Reject 401 ''Missing Authorization header.''
      else if MAX_AUTHORIZATION_HEADER_LENGTH < length (the header) then Reject 401 ''Authorization header too large.''
      else case split_on (CHR '' '') (the header) of
             [scheme, token] \<Rightarrow>
               if scheme \<noteq> ''Bearer'' then Reject 401 ''Authorization header must use Bearer scheme.''
               else if token = [] then Reject 401 ''Bearer token is missing.''
               else if token = the adminKey then Next (req\<lparr>pr_user := Some admin_user\<rparr>)
               else (case verifyToken (ae_lib env) (ae_cfg env) token (ae_now env) of
                       None \<Rightarrow> Reject 403 ''Invalid admin credentials.''
                     | Some payload \<Rightarrow>
                         if cl_role payload = Some ''admin'' \<or> cl_role payload = Some ''data-protection-officer''
                         then Next (req\<lparr>pr_user := Some payload\<rparr>)
                         else Reject 403 ''Invalid admin credentials.'')
           | _ \<Rightarrow> Reject 401 ''Authorization header must use Bearer scheme.'')"

text \<open>\<open>protectRouter\<close> of \<open>src/routes/protect.ts\<close> around the admin router of \<open>src/routes/admin.ts\<close>.\<close>

definition protectRouter :: "auth_env \<Rightarrow> revocations \<Rightarrow> string option \<Rightarrow> (principal \<Rightarrow> middleware_result) list \<Rightarrow> principal \<Rightarrow> middleware_result" where
  "protectRouter env rs header router = chain (authenticate env rs header # router)"

definition admin_routes :: "auth_env \<Rightarrow> revocations \<Rightarrow> string option \<Rightarrow> string option \<Rightarrow> middleware_result" where
  "admin_routes env rs adminKey header = protectRouter env rs header [requireAdminAuth env adminKey header] anonymous"

section \<open>API keys\<close>

record ApiKeyRecord =
  ak_id :: string
  ak_name :: string
  ak_keyHash :: string
  ak_salt :: string
  ak_prefix :: string
  ak_createdAt :: string
  ak_rotatedAt :: "string option"
  ak_active :: bool
  ak_scopes :: "string list"

record ApiKeyCreated =
  kc_id :: string
  kc_name :: string
  kc_key :: string
  kc_prefix :: string
  kc_createdAt :: string

definition PREFIX_LENGTH :: nat where "PREFIX_LENGTH = 8"
definition DIGEST_BYTES :: nat where "DIGEST_BYTES = 32"
definition DEFAULT_SCOPES :: "string list" where "DEFAULT_SCOPES = [''streams:read'', ''streams:write'']"

text \<open>\<open>Buffer.from(s, 'hex')\<close>: decoding stops at the first pair that is not hexadecimal.\<close>

fun hex_bytes :: "string \<Rightarrow> nat list" where
  "hex_bytes (a # b # s) = (if is_hex a \<and> is_hex b then (16 * hex_val a + hex_val b) # hex_bytes s else [])"
| "hex_bytes s = []"

definition padded :: "nat list \<Rightarrow> nat list" where
  "padded bs = take DIGEST_BYTES bs @ replicate (DIGEST_BYTES - length bs) 0"

definition hashesMatch :: "string \<Rightarrow> string \<Rightarrow> bool" where
  "hashesMatch a b =
     (let bufA = hex_bytes a; bufB = hex_bytes b; equal = (padded bufA = padded bufB)
      in equal \<and> length bufA = DIGEST_BYTES \<and> length bufB = DIGEST_BYTES)"

text \<open>The table \<open>api_keys\<close>.\<close>

definition findActiveByPrefix :: "string \<Rightarrow> ApiKeyRecord list \<Rightarrow> ApiKeyRecord list" where
  "findActiveByPrefix prefix rows = (if js_trim prefix = [] then [] else filter (\<lambda>r. ak_prefix r = prefix \<and> ak_active r) rows)"

definition key_getById :: "string \<Rightarrow> ApiKeyRecord list \<Rightarrow> ApiKeyRecord option" where
  "key_getById i rows = find (\<lambda>r. ak_id r = i) rows"

definition update_key :: "string \<Rightarrow> (ApiKeyRecord \<Rightarrow> ApiKeyRecord) \<Rightarrow> ApiKeyRecord list \<Rightarrow> ApiKeyRecord option \<times> ApiKeyRecord list" where
  "update_key i f rows = (map_option f (find (\<lambda>r. ak_id r = i) rows), map (\<lambda>r. if ak_id r = i then f r else r) rows)"

record key_config =
  apiKeyPepper :: "string option"
  apiKeyPepperPrevious :: "string option"

text \<open>The random values of a new key: the raw key, its salt and its identifier.\<close>

record key_draw =
  kd_raw :: string
  kd_salt :: string
  kd_id :: string

definition hashKey :: "(string \<Rightarrow> string \<Rightarrow> string \<Rightarrow> string) \<Rightarrow> key_config \<Rightarrow> string \<Rightarrow> string \<Rightarrow> string option" where
  "hashKey hmac cfg rawKey salt =
     (if nullish (apiKeyPepper cfg) [] = [] then None else Some (hmac (the (apiKeyPepper cfg)) salt rawKey))"

definition createApiKey ::
  "(string \<Rightarrow> string \<Rightarrow> string \<Rightarrow> string) \<Rightarrow> key_config \<Rightarrow> key_draw \<Rightarrow> string \<Rightarrow> string \<Rightarrow> string list option \<Rightarrow> ApiKeyRecord list \<Rightarrow>
   (string + ApiKeyCreated) \<times> ApiKeyRecord list" where
  "createApiKey hmac cfg d now name scopes rows =
     (if js_trim name = [] then (Inl ''name is required'', rows)
      else case hashKey hmac cfg (kd_raw d) (kd_salt d) of
             None \<Rightarrow> (Inl ''API_KEY_PEPPER is required to hash and validate API keys'', rows)
           | Some digest \<Rightarrow>
               if \<exists>r\<in>set rows. ak_id r = kd_id d then (Inl ''duplicate key'', rows)
               else (Inr \<lparr>kc_id = kd_id d, kc_name = js_trim name, kc_key = kd_raw d, kc_prefix = take PREFIX_LENGTH (kd_raw d), kc_createdAt = now\<rparr>,
                     rows @ [\<lparr>ak_id = kd_id d, ak_name = js_trim name, ak_keyHash = digest, ak_salt = kd_salt d,
                       ak_prefix = take PREFIX_LENGTH (kd_raw d), ak_createdAt = now, ak_rotatedAt = None, ak_active = True,
                       ak_scopes = (if nullish scopes [] \<noteq> [] then the scopes else DEFAULT_SCOPES)\<rparr>]))"

definition rotateApiKey ::
  "(string \<Rightarrow> string \<Rightarrow> string \<Rightarrow> string) \<Rightarrow> key_config \<Rightarrow> key_draw \<Rightarrow> string \<Rightarrow> string \<Rightarrow> ApiKeyRecord list \<Rightarrow> (string + ApiKeyCreated) \<times> ApiKeyRecord list" where
  "rotateApiKey hmac cfg d now i rows =
     (case key_getById i rows of
        None \<Rightarrow> (Inl (''API key not found: '' @ i), rows)
      | Some record \<Rightarrow>
          if \<not> ak_active record then (Inl (''API key is revoked: '' @ i), rows)
          else case hashKey hmac cfg (kd_raw d) (kd_salt d) of
                 None \<Rightarrow> (Inl ''API_KEY_PEPPER is required to hash and validate API keys'', rows)
               | Some digest \<Rightarrow>
                   (case update_key i (\<lambda>r. r\<lparr>ak_keyHash := digest, ak_salt := kd_salt d, ak_prefix := take PREFIX_LENGTH (kd_raw d),
                           ak_rotatedAt := Some now, ak_scopes := ak_scopes record\<rparr>) rows of
                      (None, rows') \<Rightarrow> (Inl (''API key not found: '' @ i), rows')
                    | (Some updated, rows') \<Rightarrow>
                        (Inr \<lparr>kc_id = i, kc_name = ak_name updated, kc_key = kd_raw d, kc_prefix = ak_prefix updated,
                          kc_createdAt = ak_createdAt record\<rparr>, rows')))"

definition revokeApiKey :: "string \<Rightarrow> ApiKeyRecord list \<Rightarrow> string option \<times> ApiKeyRecord list" where
  "revokeApiKey i rows =
     (case update_key i (\<lambda>r. r\<lparr>ak_active := False\<rparr>) rows of
        (None, rows') \<Rightarrow> (Some (''API key not found: '' @ i), rows')
      | (Some _, rows') \<Rightarrow> (None, rows'))"

text \<open>What leaves the service of a record; the list is in the order of creation.\<close>

record ApiKeyView =
  kv_id :: string
  kv_name :: string
  kv_prefix :: string
  kv_createdAt :: string
  kv_rotatedAt :: "string option"
  kv_active :: bool
  kv_scopes :: "string list"

definition toApiKeyView :: "ApiKeyRecord \<Rightarrow> ApiKeyView" where
  "toApiKeyView r =
     \<lparr>kv_id = ak_id r, kv_name = ak_name r, kv_prefix = ak_prefix r, kv_createdAt = ak_createdAt r, kv_rotatedAt = ak_rotatedAt r,
      kv_active = ak_active r, kv_scopes = ak_scopes r\<rparr>"

definition listApiKeys :: "(string \<Rightarrow> millis) \<Rightarrow> ApiKeyRecord list \<Rightarrow> ApiKeyView list" where
  "listApiKeys created rows = map toApiKeyView (sort_key (\<lambda>r. created (ak_createdAt r)) rows)"

text \<open>The loop over the candidates; the rehash under the current pepper is a write of its own, whose failure is not waited for.\<close>

fun match_candidates ::
  "(string \<Rightarrow> string \<Rightarrow> string \<Rightarrow> string) \<Rightarrow> string \<Rightarrow> string option \<Rightarrow> string \<Rightarrow> ApiKeyRecord list \<Rightarrow> ApiKeyRecord option \<Rightarrow> (string \<times> string) list \<Rightarrow>
   ApiKeyRecord option \<times> (string \<times> string) list" where
  "match_candidates hmac pepper previous rawKey [] matched rehash = (matched, rehash)"
| "match_candidates hmac pepper previous rawKey (c # cs) matched rehash =
     (let currentDigest = hmac pepper (ak_salt c) rawKey
      in if hashesMatch currentDigest (ak_keyHash c) then match_candidates hmac pepper previous rawKey cs (Some c) rehash
         else if nullish previous [] \<noteq> [] \<and> hashesMatch (hmac (the previous) (ak_salt c) rawKey) (ak_keyHash c)
         then match_candidates hmac pepper previous rawKey cs (Some c) (rehash @ [(ak_id c, currentDigest)])
         else match_candidates hmac pepper previous rawKey cs matched rehash)"

definition rehash_key :: "string \<times> string \<Rightarrow> ApiKeyRecord list \<Rightarrow> ApiKeyRecord list" where
  "rehash_key w rows = snd (update_key (fst w) (\<lambda>r. r\<lparr>ak_keyHash := snd w\<rparr>) rows)"

text \<open>\<open>db_ok\<close>: the query answers; \<open>write_ok\<close>: the rehash is stored. \<open>Inl\<close> is a rejected promise.\<close>

definition findRecordByRawKey ::
  "(string \<Rightarrow> string \<Rightarrow> string \<Rightarrow> string) \<Rightarrow> key_config \<Rightarrow> bool \<Rightarrow> bool \<Rightarrow> string \<Rightarrow> ApiKeyRecord list \<Rightarrow> (unit + ApiKeyRecord option) \<times> ApiKeyRecord list" where
  "findRecordByRawKey hmac cfg db_ok write_ok rawKey rows =
     (if rawKey = [] then (Inr None, rows)
      else if js_trim (take PREFIX_LENGTH rawKey) = [] then (Inr None, rows)
      else if \<not> db_ok then (Inl (), rows)
      else let candidates = findActiveByPrefix (take PREFIX_LENGTH rawKey) rows
           in if candidates \<noteq> [] \<and> nullish (apiKeyPepper cfg) [] = [] then (Inl (), rows)
              else case match_candidates hmac (nullish (apiKeyPepper cfg) []) (apiKeyPepperPrevious cfg) rawKey candidates None [] of
                     (matched, rehash) \<Rightarrow> (Inr matched, if write_ok then fold rehash_key rehash rows else rows))"

definition isValidApiKey ::
  "(string \<Rightarrow> string \<Rightarrow> string \<Rightarrow> string) \<Rightarrow> key_config \<Rightarrow> bool \<Rightarrow> bool \<Rightarrow> string \<Rightarrow> ApiKeyRecord list \<Rightarrow> unit + bool" where
  "isValidApiKey hmac cfg db_ok write_ok rawKey rows = map_sum id (\<lambda>r. r \<noteq> None) (fst (findRecordByRawKey hmac cfg db_ok write_ok rawKey rows))"

definition authenticateApiKey ::
  "(string \<Rightarrow> string \<Rightarrow> string \<Rightarrow> string) \<Rightarrow> key_config \<Rightarrow> bool \<Rightarrow> bool \<Rightarrow> string option \<Rightarrow> ApiKeyRecord list \<Rightarrow> principal \<Rightarrow>
   middleware_result \<times> ApiKeyRecord list" where
  "authenticateApiKey hmac cfg db_ok write_ok rawKey rows req =
     (if nullish rawKey [] = [] then (Next req, rows)
      else case findRecordByRawKey hmac cfg db_ok write_ok (the rawKey) rows of
             (Inl _, rows') \<Rightarrow> (Reject 401 ''Authentication failed'', rows')
           | (Inr None, rows') \<Rightarrow> (Reject 401 ''Invalid API key'', rows')
           | (Inr (Some record), rows') \<Rightarrow>
               if \<not> ak_active record then (Reject 401 ''API key has been revoked'', rows')
               else (Next (req\<lparr>pr_keyScopes := Some (ak_scopes record), pr_keyId := Some (ak_id record)\<rparr>), rows'))"

section \<open>Failed attempts\<close>

definition ATTEMPTS_WINDOW_MS :: int where "ATTEMPTS_WINDOW_MS = 10 * 60 * 1000"
definition LOCKOUT_THRESHOLD :: nat where "LOCKOUT_THRESHOLD = 5"
definition MAX_LOCKOUT_SECONDS :: int where "MAX_LOCKOUT_SECONDS = 3600"

definition computeLockoutDuration :: "nat \<Rightarrow> int" where
  "computeLockoutDuration attemptCount = min (2 ^ (attemptCount - LOCKOUT_THRESHOLD) * 60) MAX_LOCKOUT_SECONDS"

definition buildAttemptsKey :: "string \<Rightarrow> string" where
  "buildAttemptsKey key = ''fluxora:auth_attempts:'' @ sanitiseIdentifier key"

definition buildLockoutKey :: "string \<Rightarrow> string" where
  "buildLockoutKey key = ''fluxora:auth_lockout:'' @ sanitiseIdentifier key"

text \<open>The sorted sets with their expiry, and the lockouts: the stored time with the expiry of its key.\<close>

record attempts =
  at_sets :: "(string, (string, millis) jsmap \<times> millis) jsmap"
  at_lockouts :: "(string, millis \<times> millis) jsmap"

definition no_attempts :: attempts where "no_attempts = \<lparr>at_sets = [], at_lockouts = []\<rparr>"

definition live_set :: "string \<Rightarrow> millis \<Rightarrow> attempts \<Rightarrow> (string, millis) jsmap" where
  "live_set k now a = (case map_get (at_sets a) k of None \<Rightarrow> [] | Some (members, expiry) \<Rightarrow> if now < expiry then members else [])"

text \<open>\<open>rnd\<close> is the random suffix of the member; \<open>redis_ok\<close>: Redis answers, otherwise the call is rejected (\<open>None\<close>).\<close>

definition recordFailure :: "bool \<Rightarrow> string \<Rightarrow> millis \<Rightarrow> string \<Rightarrow> attempts \<Rightarrow> attempts option" where
  "recordFailure redis_ok key now rnd a =
     (if \<not> redis_ok then None
      else let k = buildAttemptsKey key;
               old = live_set k now a;
               member = show_int now @ ''-'' @ rnd;
               added = (if map_get old member = None then map_set member now old else old);
               kept = filter (\<lambda>(m, score). \<not> score \<le> now - ATTEMPTS_WINDOW_MS) added;
               a1 = a\<lparr>at_sets := map_set k (kept, now + ATTEMPTS_WINDOW_MS) (at_sets a)\<rparr>
           in if LOCKOUT_THRESHOLD \<le> length kept
              then let d = computeLockoutDuration (length kept)
                   in Some (a1\<lparr>at_lockouts := map_set (buildLockoutKey key) (now + d * 1000, now + d * 1000) (at_lockouts a1)\<rparr>)
              else Some a1)"

definition getAttemptCount :: "string \<Rightarrow> millis \<Rightarrow> attempts \<Rightarrow> nat" where
  "getAttemptCount key now a = length (filter (\<lambda>(m, score). now - ATTEMPTS_WINDOW_MS \<le> score) (live_set (buildAttemptsKey key) now a))"

definition resetAttempts :: "string \<Rightarrow> attempts \<Rightarrow> attempts" where
  "resetAttempts key a =
     a\<lparr>at_sets := map_delete (buildAttemptsKey key) (at_sets a), at_lockouts := map_delete (buildLockoutKey key) (at_lockouts a)\<rparr>"

text \<open>\<open>Math.ceil((expiry - now) / 1000)\<close>, at least 0.\<close>

definition isLockedOut :: "string \<Rightarrow> millis \<Rightarrow> attempts \<Rightarrow> int" where
  "isLockedOut key now a =
     (case map_get (at_lockouts a) (buildLockoutKey key) of
        None \<Rightarrow> 0
      | Some (until, expiry) \<Rightarrow> if now < expiry then max 0 (- ((now - until) div 1000)) else 0)"

text \<open>The store is \<open>None\<close> until \<open>setAuthAttemptStore\<close> is called, which no file does. The result is the answer, or whether the request
  carries the store.\<close>

datatype lockout_result = Pass bool | Locked int | Lockout_error

definition authLockoutMiddleware :: "attempts option \<Rightarrow> bool \<Rightarrow> string \<Rightarrow> string option \<Rightarrow> millis \<Rightarrow> lockout_result" where
  "authLockoutMiddleware store redis_ok ip address now =
     (case store of
        None \<Rightarrow> Pass False
      | Some a \<Rightarrow>
          let check_ip = (ip \<noteq> [] \<and> ip \<noteq> ''unknown''); check_address = (nullish address [] \<noteq> [])
          in if (check_ip \<or> check_address) \<and> \<not> redis_ok then Lockout_error
             else if check_ip \<and> 0 < isLockedOut ip now a then Locked (isLockedOut ip now a)
             else if check_address \<and> 0 < isLockedOut (the address) now a then Locked (isLockedOut (the address) now a)
             else Pass True)"

section \<open>The endpoints\<close>

record session_body =
  sb_address :: "string option"
  sb_role :: "string option"
  sb_idToken :: "string option"

datatype session_result =
    Session string string string
  | Session_invalid string
  | Session_unauthorized
  | Session_locked int
  | Session_error

definition session_schema :: "session_body \<Rightarrow> bool" where
  "session_schema b \<longleftrightarrow> (case sb_role b of None \<Rightarrow> True | Some r \<Rightarrow> r = ''operator'' \<or> r = ''viewer'') \<and>
     (nullish (sb_idToken b) [] \<noteq> [] \<or> js_trim (nullish (sb_address b) []) \<noteq> [])"

text \<open>\<open>verify\<close>: what the identity provider says of an ID token, its address and role, or a failure. \<open>rnds\<close>: the random suffixes of the
  two members; \<open>redis_ok\<close>: the store of attempts answers.\<close>

definition create_session ::
  "jwt_lib \<Rightarrow> jwt_config \<Rightarrow> string option \<Rightarrow> (string \<Rightarrow> (string \<times> string) option) \<Rightarrow> bool \<Rightarrow> string \<Rightarrow> session_body \<Rightarrow> millis \<Rightarrow> string \<times> string \<Rightarrow>
   attempts option \<Rightarrow> session_result \<times> attempts option" where
  "create_session lib cfg oidcIssuerUrl verify redis_ok ip b now rnds store =
     (case authLockoutMiddleware store redis_ok ip (sb_address b) now of
        Lockout_error \<Rightarrow> (Session_error, store)
      | Locked n \<Rightarrow> (Session_locked n, store)
      | Pass attached \<Rightarrow>
          if \<not> session_schema b then (Session_invalid ''Stellar address is required when idToken is not provided'', store)
          else let idToken = nullish (sb_idToken b) []; role = nullish (sb_role b) ''viewer'';
                   issue = (\<lambda>address role.
                     if address = [] then (Session_invalid ''Stellar address is required'', store)
                     else if attached \<and> \<not> redis_ok then (Session_error, store)
                     else (Session (generateToken lib cfg address role None now) address role,
                           if attached then map_option (\<lambda>a. resetAttempts address (resetAttempts ip a)) store else store))
               in if idToken = [] then issue (nullish (sb_address b) []) role
                  else if nullish oidcIssuerUrl [] = [] then (Session_invalid ''OIDC authentication is not configured on this server'', store)
                  else case verify idToken of
                         Some (address, verified_role) \<Rightarrow>
                           issue (if nullish (sb_address b) [] = [] then address else the (sb_address b))
                             (if nullish (sb_role b) [] = [] then verified_role else role)
                       | None \<Rightarrow>
                           if \<not> attached then (Session_unauthorized, store)
                           else (case Option.bind store (recordFailure redis_ok ip now (fst rnds)) of
                                   None \<Rightarrow> (Session_error, store)
                                 | Some a \<Rightarrow>
                                     if nullish (sb_address b) [] = [] then (Session_unauthorized, Some a)
                                     else (case recordFailure redis_ok (the (sb_address b)) now (snd rnds) a of
                                             None \<Rightarrow> (Session_error, Some a)
                                           | Some a2 \<Rightarrow> (Session_unauthorized, Some a2))))"

text \<open>\<open>POST /api/auth/revoke\<close>, after \<open>authenticate\<close> and \<open>requirePermission\<close>.\<close>

datatype revoke_result = Refused nat string | Bad_revocation | Revocation bool int | Revocation_failed revocation_error

definition revoke_endpoint ::
  "auth_env \<Rightarrow> string option \<Rightarrow> string \<Rightarrow> int \<Rightarrow> int option \<Rightarrow> revocations \<Rightarrow> revoke_result \<times> revocations" where
  "revoke_endpoint env header jti expiry ttl rs =
     (case chain [authenticate env rs header, requirePermission ''admin:pause''] anonymous of
        Reject c m \<Rightarrow> (Refused c m, rs)
      | Next _ \<Rightarrow>
          if jti = [] \<or> expiry \<le> 0 \<or> (case ttl of None \<Rightarrow> False | Some t \<Rightarrow> t \<le> 0) then (Bad_revocation, rs)
          else case revoke (ae_client env) jti (Jwt_options ttl expiry (ae_now env)) (ae_now env) rs of
                 (Inl e, rs') \<Rightarrow> (Revocation_failed e, rs')
               | (Inr (r, t), rs') \<Rightarrow> (Revocation r t, rs'))"

section \<open>Revoked tokens\<close>

lemma join_split [simp]: "join [c] (split_on c s) = s"
proof (induction s)
  case (Cons x xs)
  obtain w ws where w: "split_on c xs = w # ws" by (cases "split_on c xs") auto
  show ?case using Cons w by (cases ws) auto
qed simp

text \<open>A bearer header of a token without spaces reaches the verification.\<close>

lemma bearer_header:
  assumes "CHR '' '' \<notin> set t" "js_trim t = t" "t \<noteq> []"
  shows "authenticate env rs (Some (''Bearer '' @ t)) req =
    (case verifyToken (ae_lib env) (ae_cfg env) t (ae_now env) of
       None \<Rightarrow> auth_failed
     | Some payload \<Rightarrow>
         (case (if nullish (cl_jti payload) [] = [] then Some False else isRevoked (ae_client env) (the (cl_jti payload)) (ae_now env) rs) of
            None \<Rightarrow> auth_failed
          | Some True \<Rightarrow> Reject 401 ''token_revoked''
          | Some False \<Rightarrow> if token_schema payload then Next (req\<lparr>pr_user := Some payload\<rparr>) else auth_failed))"
proof -
  have "split_on (CHR '' '') (''Bearer'' @ CHR '' '' # t) = ''Bearer'' # split_on (CHR '' '') t" by (rule split_on_append) simp
  then have "split_on (CHR '' '') (''Bearer '' @ t) = [''Bearer'', t]" using assms(1) by (simp add: split_on_notin)
  then show ?thesis using assms(2,3) by (simp add: authenticate_def)
qed

lemma issued_verifies:
  "issued lib t (jwtSecret cfg) c \<Longrightarrow> \<not> expired c now CLOCK_TOLERANCE_SECONDS \<Longrightarrow> verifyToken lib cfg t now = Some c"
  by (simp add: issued_def verifyToken_def)

definition revoke_call :: "revocation_client \<times> string \<times> int option \<times> int \<times> millis \<Rightarrow> revocations \<Rightarrow> revocations" where
  "revoke_call x rs = (case x of (client, jti, ttl, expiry, now) \<Rightarrow> snd (revoke client jti (Jwt_options ttl expiry now) now rs))"

lemma remaining_covers: "expiry * 1000 \<le> now + remaining_seconds expiry now * 1000 \<and> now + remaining_seconds expiry now * 1000 < expiry * 1000 + 1000"
proof -
  let ?d = "now - expiry * 1000"
  have "?d = ?d div 1000 * 1000 + ?d mod 1000" "0 \<le> ?d mod 1000" "?d mod 1000 < 1000" by simp_all
  then show ?thesis unfolding remaining_seconds_def by linarith
qed

lemma revoke_state:
  "snd (revoke client jti (Jwt_options ttl expiry now) now rs) = rs \<or>
   snd (revoke client jti (Jwt_options ttl expiry now) now rs) = map_set (buildKey jti) (now + remaining_seconds expiry now * 1000) rs"
  by (auto simp: revoke_def resolveRevocationTtl_def Let_def split: revocation_client.split bool.split)

lemma buildKey_inj [simp]: "buildKey a = buildKey b \<longleftrightarrow> a = b"
  by (simp add: buildKey_def)

definition covered :: "string \<Rightarrow> int \<Rightarrow> revocations \<Rightarrow> bool" where
  "covered jti e rs \<longleftrightarrow> (\<exists>x. map_get rs (buildKey jti) = Some x \<and> e * 1000 \<le> x)"

lemma revoke_covers:
  "revoke (Live True) jti (Jwt_options ttl e now) now rs = (Inr (True, n), rs1) \<Longrightarrow> covered jti e rs1"
  using remaining_covers [of e now] by (auto simp: revoke_def resolveRevocationTtl_def Let_def covered_def split: if_splits)

lemma revoke_call_keeps:
  "covered jti e rs \<Longrightarrow> (\<And>client ttl e' now. x = (client, jti, ttl, e', now) \<Longrightarrow> e' = e) \<Longrightarrow> covered jti e (revoke_call x rs)"
proof -
  assume cov: "covered jti e rs" and same: "\<And>client ttl e' now. x = (client, jti, ttl, e', now) \<Longrightarrow> e' = e"
  obtain client j ttl e' now where x: "x = (client, j, ttl, e', now)" by (cases x)
  show ?thesis
    using revoke_state [of client j ttl e' now rs] cov same [of client ttl e' now] remaining_covers [of e' now] x
    by (cases "j = jti") (auto simp: revoke_call_def covered_def)
qed

lemma revoke_calls_keep:
  "covered jti e rs \<Longrightarrow> \<forall>(client, j, ttl, e', now)\<in>set xs. j = jti \<longrightarrow> e' = e \<Longrightarrow> covered jti e (fold revoke_call xs rs)"
proof (induction xs arbitrary: rs)
  case (Cons x xs)
  have "covered jti e (revoke_call x rs)" by (rule revoke_call_keeps [OF Cons.prems(1)]) (use Cons.prems(2) in auto)
  then show ?case using Cons.IH Cons.prems(2) by simp
qed simp

text \<open>A revoked token is refused until it expires. After a token was revoked with the expiry it carries, every request that presents it before
  that expiry is answered with 401, whatever other revocations follow and whether Redis answers, fails or cannot be connected, unless
  Redis is disabled.\<close>

theorem revoked_until_expiry:
  assumes "issued (ae_lib env) t (jwtSecret (ae_cfg env)) c" "cl_jti c = Some jti" "jti \<noteq> []" "cl_exp c = Some e"
    and "revoke (Live True) jti (Jwt_options ttl e t0) t0 rs = (Inr (True, n), rs1)"
    and "\<forall>(client, j, ttl, e', now)\<in>set xs. j = jti \<longrightarrow> e' = e" "ae_client env \<noteq> Noop" "ae_now env < e * 1000"
  shows "\<exists>m. authenticate env (fold revoke_call xs rs1) (Some (''Bearer '' @ t)) req = Reject 401 m"
proof -
  have t: "CHR '' '' \<notin> set t" "js_trim t = t" "t \<noteq> []" using assms(1) by (simp_all add: issued_def)
  have "\<not> expired c (ae_now env) CLOCK_TOLERANCE_SECONDS" using assms(4,8) by (simp add: expired_def CLOCK_TOLERANCE_SECONDS_def)
  from issued_verifies [OF assms(1) this] have v: "verifyToken (ae_lib env) (ae_cfg env) t (ae_now env) = Some c" .
  have "covered jti e (fold revoke_call xs rs1)" by (rule revoke_calls_keep [OF revoke_covers [OF assms(5)] assms(6)])
  then obtain x where x: "map_get (fold revoke_call xs rs1) (buildKey jti) = Some x" "ae_now env < x"
    using assms(8) by (auto simp: covered_def)
  have "isRevoked (ae_client env) jti (ae_now env) (fold revoke_call xs rs1) \<in> {None, Some True}"
    using assms(3,7) x by (auto simp: isRevoked_def split: revocation_client.split bool.split)
  then show ?thesis unfolding bearer_header [OF t] using v assms(2,3) by (auto simp: auth_failed_def)
qed

text \<open>The tolerance of the verification outlives the revocation: from a second after its expiry on and for the rest of the ten seconds in which
  an expired token still verifies, a revoked token is accepted again; a revocation requested after the expiry is not recorded at all.\<close>

theorem revoked_token_accepted_again:
  assumes "issued (ae_lib env) t (jwtSecret (ae_cfg env)) c" "cl_jti c = Some jti" "jti \<noteq> []" "cl_exp c = Some e" "token_schema c"
    and "revoke (Live True) jti (Jwt_options ttl e t0) t0 rs = (Inr (True, n), rs1)"
    and "ae_client env = Live True" "(e + 1) * 1000 \<le> ae_now env" "ae_now env < (e + 10) * 1000"
  shows "authenticate env rs1 (Some (''Bearer '' @ t)) req = Next (req\<lparr>pr_user := Some c\<rparr>) \<and>
    revoke (Live True) jti (Jwt_options ttl e (ae_now env)) (ae_now env) rs1 = (Inr (False, 0), rs1)"
proof -
  have t: "CHR '' '' \<notin> set t" "js_trim t = t" "t \<noteq> []" using assms(1) by (simp_all add: issued_def)
  have "\<not> expired c (ae_now env) CLOCK_TOLERANCE_SECONDS" using assms(4,9) by (simp add: expired_def CLOCK_TOLERANCE_SECONDS_def)
  from issued_verifies [OF assms(1) this] have v: "verifyToken (ae_lib env) (ae_cfg env) t (ae_now env) = Some c" .
  have pos: "0 < e" "\<not> (case ttl of None \<Rightarrow> False | Some t \<Rightarrow> t \<le> 0)" "rs1 = map_set (buildKey jti) (t0 + remaining_seconds e t0 * 1000) rs"
    using assms(6) by (auto simp: revoke_def resolveRevocationTtl_def Let_def split: if_splits)
  have "t0 + remaining_seconds e t0 * 1000 \<le> ae_now env" using remaining_covers [of e t0] assms(8) by simp
  then have "isRevoked (ae_client env) jti (ae_now env) rs1 = Some False" using assms(3,7) pos(3) by (simp add: isRevoked_def)
  moreover have "remaining_seconds e (ae_now env) \<le> 0" using conjunct2 [OF remaining_covers [of e "ae_now env"]] assms(8) by (simp add: distrib_right)
  ultimately show ?thesis unfolding bearer_header [OF t] using v assms(2,3,5) pos by (simp add: revoke_def resolveRevocationTtl_def)
qed

definition demo_claims :: claims where
  "demo_claims = \<lparr>cl_address = Some ''GA'', cl_role = Some ''operator'', cl_permissions = Some operator_permissions, cl_jti = Some ''j1'', cl_exp = Some 1000\<rparr>"

definition demo_jwt :: jwt_lib where
  "demo_jwt = \<lparr>jwt_sign = (\<lambda>c k. if c = demo_claims then ''eyJ.a.b'' else ''eyJ.c.d''),
     jwt_verify = (\<lambda>t k now tolerance. if k \<noteq> ''secret'' then None
       else if t = ''eyJ.a.b'' then (if expired demo_claims now tolerance then None else Some demo_claims) else None)\<rparr>"

definition demo_auth_env :: "millis \<Rightarrow> auth_env" where
  "demo_auth_env now = \<lparr>ae_lib = demo_jwt, ae_cfg = \<lparr>jwtSecret = ''secret'', jwtSecretPrevious = None, jwtExpiresIn = Some 3600\<rparr>, ae_client = Live True,
     ae_now = now\<rparr>"

definition demo_revocations :: revocations where
  "demo_revocations = [(buildKey ''j1'', 1000000)]"

lemma demo_issued: "issued (ae_lib (demo_auth_env now)) ''eyJ.a.b'' (jwtSecret (ae_cfg (demo_auth_env now))) demo_claims"
proof -
  have "js_trim ''eyJ.a.b'' = ''eyJ.a.b''" by code_simp
  then show ?thesis by (simp add: issued_def demo_auth_env_def demo_jwt_def)
qed

lemma demo_revoked: "revoke (Live True) ''j1'' (Jwt_options None 1000 100000) 100000 [] = (Inr (True, 900), demo_revocations)"
  by code_simp

theorem revoked_until_expiry_witness:
  "\<exists>m. authenticate (demo_auth_env 999999) (fold revoke_call [(Live True, ''j2'', None, 5, 1)] demo_revocations) (Some (''Bearer '' @ ''eyJ.a.b'')) anonymous =
     Reject 401 m"
  by (rule revoked_until_expiry [OF demo_issued _ _ _ demo_revoked]) (simp_all add: demo_claims_def demo_auth_env_def)

theorem revoked_token_accepted_again_witness:
  "authenticate (demo_auth_env 1001000) demo_revocations (Some (''Bearer '' @ ''eyJ.a.b'')) anonymous = Next (anonymous\<lparr>pr_user := Some demo_claims\<rparr>)"
proof -
  have s: "token_schema demo_claims" by code_simp
  have "cl_jti demo_claims = Some ''j1''" "''j1'' \<noteq> []" "cl_exp demo_claims = Some 1000" by (simp_all add: demo_claims_def)
  from revoked_token_accepted_again [OF demo_issued [of 1001000] this s demo_revoked, where req = anonymous]
  show ?thesis by (simp add: demo_auth_env_def)
qed

section \<open>Sessions\<close>

text \<open>Nothing but an address is needed for a session. Without an ID token the endpoint checks no secret: any caller obtains a token for any
  address with the role of its choice, and that token passes the checks for writing streams whatever is revoked, since it carries no
  identifier by which it could be revoked.\<close>

theorem session_needs_no_credential:
  assumes "js_trim address \<noteq> []" "issued (ae_lib env) token (jwtSecret (ae_cfg env)) (derived_claims (ae_cfg env) address ''operator'' None issued_at)"
    and "jwt_sign (ae_lib env) (derived_claims (ae_cfg env) address ''operator'' None issued_at) (jwtSecret (ae_cfg env)) = token"
    and "\<not> expired (derived_claims (ae_cfg env) address ''operator'' None issued_at) (ae_now env) CLOCK_TOLERANCE_SECONDS"
  shows "create_session (ae_lib env) (ae_cfg env) oidc verify redis_ok ip \<lparr>sb_address = Some address, sb_role = Some ''operator'', sb_idToken = None\<rparr>
      issued_at rnds None = (Session token address ''operator'', None) \<and>
    (\<exists>p. chain [authenticate env rs (Some (''Bearer '' @ token)), requireAuth, requireScope [''streams:write'']] anonymous = Next p \<and>
      map_option cl_address (pr_user p) = Some (Some address))"
proof -
  let ?c = "derived_claims (ae_cfg env) address ''operator'' None issued_at"
  have t: "CHR '' '' \<notin> set token" "js_trim token = token" "token \<noteq> []" using assms(2) by (simp_all add: issued_def)
  have v: "verifyToken (ae_lib env) (ae_cfg env) token (ae_now env) = Some ?c" by (rule issued_verifies [OF assms(2,4)])
  have "token_schema ?c" by (simp add: token_schema_def derived_claims_def operator_permissions_def all_permissions_def)
  then have a: "authenticate env rs (Some (''Bearer '' @ token)) anonymous = Next (anonymous\<lparr>pr_user := Some ?c\<rparr>)"
    unfolding bearer_header [OF t] v by (simp add: derived_claims_def)
  have "address \<noteq> []" using assms(1) by (auto simp: js_trim_def)
  then have "create_session (ae_lib env) (ae_cfg env) oidc verify redis_ok ip
      \<lparr>sb_address = Some address, sb_role = Some ''operator'', sb_idToken = None\<rparr> issued_at rnds None = (Session token address ''operator'', None)"
    using assms(1,3) by (simp add: create_session_def authLockoutMiddleware_def session_schema_def generateToken_def Let_def)
  moreover have "chain [authenticate env rs (Some (''Bearer '' @ token)), requireAuth, requireScope [''streams:write'']] anonymous =
      Next (anonymous\<lparr>pr_user := Some ?c\<rparr>)"
    unfolding chain.simps a by (simp add: requireAuth_def requireScope_def anonymous_def derived_claims_def operator_permissions_def)
  ultimately show ?thesis by (simp add: derived_claims_def)
qed

definition demo_session_claims :: claims where
  "demo_session_claims = \<lparr>cl_address = Some ''GB'', cl_role = Some ''operator'', cl_permissions = Some operator_permissions, cl_jti = None, cl_exp = Some 3605\<rparr>"

definition demo_session_env :: auth_env where
  "demo_session_env = \<lparr>ae_lib = \<lparr>jwt_sign = (\<lambda>c k. ''eyJ.s.t''),
       jwt_verify = (\<lambda>t k now tolerance. if k \<noteq> ''secret'' \<or> expired demo_session_claims now tolerance then None else Some demo_session_claims)\<rparr>,
     ae_cfg = \<lparr>jwtSecret = ''secret'', jwtSecretPrevious = None, jwtExpiresIn = Some 3600\<rparr>, ae_client = Live True, ae_now = 6000\<rparr>"

theorem session_needs_no_credential_witness:
  "create_session (ae_lib demo_session_env) (ae_cfg demo_session_env) None (\<lambda>_. None) True ''1.2.3.4''
     \<lparr>sb_address = Some ''GB'', sb_role = Some ''operator'', sb_idToken = None\<rparr> 5000 ([], []) None = (Session ''eyJ.s.t'' ''GB'' ''operator'', None)"
proof -
  have c: "derived_claims (ae_cfg demo_session_env) ''GB'' ''operator'' None 5000 = demo_session_claims" by code_simp
  have t: "js_trim ''eyJ.s.t'' = ''eyJ.s.t''" by code_simp
  have "js_trim ''GB'' \<noteq> []" by code_simp
  moreover have "issued (ae_lib demo_session_env) ''eyJ.s.t'' (jwtSecret (ae_cfg demo_session_env)) (derived_claims (ae_cfg demo_session_env) ''GB'' ''operator'' None 5000)"
    unfolding c by (simp add: issued_def t demo_session_env_def)
  moreover have "jwt_sign (ae_lib demo_session_env) (derived_claims (ae_cfg demo_session_env) ''GB'' ''operator'' None 5000) (jwtSecret (ae_cfg demo_session_env)) =
      ''eyJ.s.t''" by (simp add: demo_session_env_def)
  moreover have "\<not> expired (derived_claims (ae_cfg demo_session_env) ''GB'' ''operator'' None 5000) (ae_now demo_session_env) CLOCK_TOLERANCE_SECONDS"
    unfolding c by code_simp
  ultimately show ?thesis by (rule session_needs_no_credential [THEN conjunct1])
qed

section \<open>The admin gate\<close>

lemma bearer_parts:
  assumes "split_on (CHR '' '') h = [''Bearer'', token]"
  shows "h = ''Bearer '' @ token \<and> CHR '' '' \<notin> set token"
proof -
  have "h = join '' '' [''Bearer'', token]" using join_split [of "CHR '' ''" h] assms by simp
  then have h: "h = ''Bearer '' @ token" by simp
  have "split_on (CHR '' '') (''Bearer'' @ CHR '' '' # token) = ''Bearer'' # split_on (CHR '' '') token" by (rule split_on_append) simp
  then have "split_on (CHR '' '') token = [token]" using assms h by simp
  then have "CHR '' '' \<notin> set token"
  proof (rule contrapos_pp)
    assume "\<not> CHR '' '' \<notin> set token"
    then obtain a b where "token = a @ CHR '' '' # b" by (auto simp: in_set_conv_decomp)
    then have "split_on (CHR '' '') token = split_on (CHR '' '') a @ split_on (CHR '' '') b" by (simp add: split_on_concat)
    then have "2 \<le> length (split_on (CHR '' '') token)"
      using split_on_nonempty [of "CHR '' ''" a] split_on_nonempty [of "CHR '' ''" b]
      by (cases "split_on (CHR '' '') a"; cases "split_on (CHR '' '') b") simp_all
    then show "split_on (CHR '' '') token \<noteq> [token]" by auto
  qed
  then show ?thesis using h by simp
qed

text \<open>Who passes the gate of the admin routes: only the bearer of a session token that verifies, is not revoked and has the schema of a
  session, with an admin role (or a token that is itself the configured key).\<close>

theorem admin_gate:
  assumes "admin_routes env rs adminKey header = Next p" "js_trim (nullish adminKey []) \<noteq> []"
    and "\<forall>w. js_trim w = [] \<longrightarrow> verifyToken (ae_lib env) (ae_cfg env) w (ae_now env) = None"
  shows "\<exists>token c. header = Some (''Bearer '' @ token) \<and>
    verifyToken (ae_lib env) (ae_cfg env) (js_trim token) (ae_now env) = Some c \<and> token_schema c \<and>
    (nullish (cl_jti c) [] \<noteq> [] \<longrightarrow> isRevoked (ae_client env) (the (cl_jti c)) (ae_now env) rs = Some False) \<and>
    (Some token = adminKey \<and> pr_user p = Some admin_user \<or>
     verifyToken (ae_lib env) (ae_cfg env) token (ae_now env) = pr_user p \<and>
       (map_option cl_role (pr_user p) = Some (Some ''admin'') \<or> map_option cl_role (pr_user p) = Some (Some ''data-protection-officer'')))"
proof -
  obtain q where q: "authenticate env rs header anonymous = Next q" "requireAdminAuth env adminKey header q = Next p"
    using assms by (auto simp: admin_routes_def protectRouter_def split: middleware_result.splits)
  have k: "nullish adminKey [] \<noteq> []" "nullish header [] \<noteq> []" using q(2) by (auto simp: requireAdminAuth_def split: if_splits)
  then obtain h where h: "header = Some h" "h \<noteq> []" by (cases header) auto
  obtain ka where ka: "adminKey = Some ka" using k(1) by (cases adminKey) auto
  have adm: "(case split_on (CHR '' '') h of [scheme, token] \<Rightarrow> scheme = ''Bearer'' \<and> token \<noteq> [] \<and>
      (token = ka \<and> pr_user p = Some admin_user \<or>
       (\<exists>c. verifyToken (ae_lib env) (ae_cfg env) token (ae_now env) = Some c \<and> pr_user p = Some c \<and>
         (cl_role c = Some ''admin'' \<or> cl_role c = Some ''data-protection-officer''))) | _ \<Rightarrow> False)"
    using q(2) k h ka by (auto simp: requireAdminAuth_def split: list.splits if_splits option.splits)
  then obtain token where tok: "split_on (CHR '' '') h = [''Bearer'', token]" "token \<noteq> []" by (auto split: list.splits)
  note parts = bearer_parts [OF tok(1)]
  have a: "authenticate env rs header anonymous = (if js_trim token = [] then Next anonymous else
      case verifyToken (ae_lib env) (ae_cfg env) (js_trim token) (ae_now env) of None \<Rightarrow> auth_failed
      | Some payload \<Rightarrow> (case (if nullish (cl_jti payload) [] = [] then Some False else isRevoked (ae_client env) (the (cl_jti payload)) (ae_now env) rs) of
          None \<Rightarrow> auth_failed | Some True \<Rightarrow> Reject 401 ''token_revoked''
        | Some False \<Rightarrow> if token_schema payload then Next (anonymous\<lparr>pr_user := Some payload\<rparr>) else auth_failed))"
    using h tok(1) by (simp add: authenticate_def Let_def)
  from adm tok(1) have role: "token = ka \<and> pr_user p = Some admin_user \<or>
      (\<exists>c. verifyToken (ae_lib env) (ae_cfg env) token (ae_now env) = Some c \<and> pr_user p = Some c \<and>
        (cl_role c = Some ''admin'' \<or> cl_role c = Some ''data-protection-officer''))" by simp
  have nb: "js_trim token \<noteq> []" using role assms(2,3) ka by auto
  then obtain c where c: "verifyToken (ae_lib env) (ae_cfg env) (js_trim token) (ae_now env) = Some c" "token_schema c"
      "nullish (cl_jti c) [] \<noteq> [] \<longrightarrow> isRevoked (ae_client env) (the (cl_jti c)) (ae_now env) rs = Some False"
    using q(1) a by (auto simp: auth_failed_def split: option.splits if_splits bool.splits)
  then show ?thesis using parts h(1) role ka by (intro exI [of _ token] exI [of _ c]) auto
qed

text \<open>The configured admin key does not open the admin routes: unless it is itself a valid session token, the router around them, which
  verifies every bearer token as a session token, answers 401 before the key is compared.\<close>

theorem admin_key_refused:
  assumes "CHR '' '' \<notin> set key" "js_trim key = key" "key \<noteq> []" "verifyToken (ae_lib env) (ae_cfg env) key (ae_now env) = None"
  shows "requireAdminAuth env (Some key) (Some (''Bearer '' @ key)) anonymous =
      (if length key \<le> 8185 then Next (anonymous\<lparr>pr_user := Some admin_user\<rparr>) else Reject 401 ''Authorization header too large.'') \<and>
    admin_routes env rs (Some key) (Some (''Bearer '' @ key)) = auth_failed"
proof -
  have "split_on (CHR '' '') (''Bearer'' @ CHR '' '' # key) = ''Bearer'' # split_on (CHR '' '') key" by (rule split_on_append) simp
  then have "split_on (CHR '' '') (''Bearer '' @ key) = [''Bearer'', key]" using assms(1) by (simp add: split_on_notin)
  then have "requireAdminAuth env (Some key) (Some (''Bearer '' @ key)) anonymous =
      (if length key \<le> 8185 then Next (anonymous\<lparr>pr_user := Some admin_user\<rparr>) else Reject 401 ''Authorization header too large.'')"
    using assms(3) by (simp add: requireAdminAuth_def MAX_AUTHORIZATION_HEADER_LENGTH_def)
  moreover have "authenticate env rs (Some (''Bearer '' @ key)) anonymous = auth_failed"
    unfolding bearer_header [OF assms(1-3)] assms(4) by simp
  ultimately show ?thesis by (simp add: admin_routes_def protectRouter_def auth_failed_def)
qed

definition demo_admin_claims :: claims where
  "demo_admin_claims = \<lparr>cl_address = Some ''GA'', cl_role = Some ''admin'', cl_permissions = Some [''admin:pause''], cl_jti = Some ''j2'', cl_exp = Some 1000\<rparr>"

definition demo_admin_env :: auth_env where
  "demo_admin_env = \<lparr>ae_lib = \<lparr>jwt_sign = (\<lambda>c k. []),
       jwt_verify = (\<lambda>t k now tolerance. if t = ''eyJ.a.d'' then Some demo_admin_claims else None)\<rparr>,
     ae_cfg = \<lparr>jwtSecret = ''secret'', jwtSecretPrevious = None, jwtExpiresIn = Some 3600\<rparr>, ae_client = Live True, ae_now = 6000\<rparr>"

lemma demo_admin_verify: "verifyToken (ae_lib demo_admin_env) (ae_cfg demo_admin_env) w now = (if w = ''eyJ.a.d'' then Some demo_admin_claims else None)"
  by (simp add: demo_admin_env_def verifyToken_def)

theorem admin_gate_witness:
  "\<exists>token c. Some (''Bearer eyJ.a.d'') = Some (''Bearer '' @ token) \<and>
     verifyToken (ae_lib demo_admin_env) (ae_cfg demo_admin_env) (js_trim token) (ae_now demo_admin_env) = Some c \<and> token_schema c"
proof -
  have t: "js_trim ''eyJ.a.d'' = ''eyJ.a.d''" "js_trim ''admin-key'' = ''admin-key''" by code_simp+
  have "admin_routes demo_admin_env [] (Some ''admin-key'') (Some ''Bearer eyJ.a.d'') =
      Next (anonymous\<lparr>pr_user := Some demo_admin_claims\<rparr>)" by code_simp
  moreover have "js_trim (nullish (Some ''admin-key'') []) \<noteq> []" by (simp add: t)
  moreover have "\<forall>w. js_trim w = [] \<longrightarrow> verifyToken (ae_lib demo_admin_env) (ae_cfg demo_admin_env) w (ae_now demo_admin_env) = None"
    using t by (auto simp: demo_admin_verify)
  ultimately obtain token c where "Some (''Bearer eyJ.a.d'') = Some (''Bearer '' @ token)"
      "verifyToken (ae_lib demo_admin_env) (ae_cfg demo_admin_env) (js_trim token) (ae_now demo_admin_env) = Some c" "token_schema c"
    using admin_gate by blast
  then show ?thesis by blast
qed

theorem admin_key_refused_witness:
  "admin_routes demo_admin_env [] (Some ''admin-key'') (Some (''Bearer '' @ ''admin-key'')) = auth_failed"
proof -
  have t: "js_trim ''admin-key'' = ''admin-key''" by code_simp
  show ?thesis by (rule conjunct2 [OF admin_key_refused]) (simp_all add: t demo_admin_verify)
qed

section \<open>The life of an API key\<close>

text \<open>The digests under which a raw key is accepted.\<close>

definition key_accepts :: "(string \<Rightarrow> string \<Rightarrow> string \<Rightarrow> string) \<Rightarrow> key_config \<Rightarrow> string \<Rightarrow> ApiKeyRecord \<Rightarrow> bool" where
  "key_accepts hmac cfg rawKey r \<longleftrightarrow> hashesMatch (hmac (nullish (apiKeyPepper cfg) []) (ak_salt r) rawKey) (ak_keyHash r) \<or>
     nullish (apiKeyPepperPrevious cfg) [] \<noteq> [] \<and> hashesMatch (hmac (the (apiKeyPepperPrevious cfg)) (ak_salt r) rawKey) (ak_keyHash r)"

lemma match_candidates_exact:
  "fst (match_candidates hmac (nullish (apiKeyPepper cfg) []) (apiKeyPepperPrevious cfg) rawKey cs matched rehash) =
   (case filter (key_accepts hmac cfg rawKey) cs of [] \<Rightarrow> matched | xs \<Rightarrow> Some (last xs))"
  by (induction cs arbitrary: matched rehash) (auto simp: Let_def key_accepts_def split: list.splits)

lemma match_candidates_rehash:
  "snd (match_candidates hmac pepper previous rawKey cs matched rehash) =
   rehash @ map (\<lambda>c. (ak_id c, hmac pepper (ak_salt c) rawKey))
     (filter (\<lambda>c. \<not> hashesMatch (hmac pepper (ak_salt c) rawKey) (ak_keyHash c) \<and> nullish previous [] \<noteq> [] \<and>
        hashesMatch (hmac (the previous) (ak_salt c) rawKey) (ak_keyHash c)) cs)"
  by (induction cs arbitrary: matched rehash) (simp_all add: Let_def)

text \<open>A lookup answers with an active key of the prefix whose digest the raw key has, under the current or the previous pepper, and with
  nothing exactly when there is none.\<close>

lemma find_exact:
  assumes "fst (findRecordByRawKey hmac cfg db_ok write_ok rawKey rows) = Inr m" "js_trim (take PREFIX_LENGTH rawKey) \<noteq> []"
  shows "(\<forall>r. m = Some r \<longrightarrow> r \<in> set rows \<and> ak_active r \<and> ak_prefix r = take PREFIX_LENGTH rawKey \<and> key_accepts hmac cfg rawKey r) \<and>
    (m = None \<longleftrightarrow> (\<forall>r\<in>set rows. ak_active r \<and> ak_prefix r = take PREFIX_LENGTH rawKey \<longrightarrow> \<not> key_accepts hmac cfg rawKey r))"
proof -
  let ?cs = "findActiveByPrefix (take PREFIX_LENGTH rawKey) rows"
  have ne: "rawKey \<noteq> []" using assms(2) by (auto simp: js_trim_def)
  have "m = fst (match_candidates hmac (nullish (apiKeyPepper cfg) []) (apiKeyPepperPrevious cfg) rawKey ?cs None [])"
    using assms ne by (auto simp: findRecordByRawKey_def Let_def split: if_splits prod.splits)
  then have m: "m = (case filter (key_accepts hmac cfg rawKey) ?cs of [] \<Rightarrow> None | xs \<Rightarrow> Some (last xs))" by (simp only: match_candidates_exact)
  have cs: "set ?cs = {r \<in> set rows. ak_prefix r = take PREFIX_LENGTH rawKey \<and> ak_active r}" using assms(2) by (auto simp: findActiveByPrefix_def)
  show ?thesis
  proof (cases "filter (key_accepts hmac cfg rawKey) ?cs = []")
    case True
    then have "\<forall>r\<in>set ?cs. \<not> key_accepts hmac cfg rawKey r" by (simp add: filter_empty_conv)
    then show ?thesis using m True cs by auto
  next
    case False
    then have "m = Some (last (filter (key_accepts hmac cfg rawKey) ?cs))" using m by (auto split: list.splits)
    moreover have "last (filter (key_accepts hmac cfg rawKey) ?cs) \<in> set (filter (key_accepts hmac cfg rawKey) ?cs)" using False last_in_set by blast
    ultimately show ?thesis using cs by auto
  qed
qed

datatype key_op =
    Create_key key_draw string string "string list option"
  | Rotate_key key_draw string string
  | Revoke_key string
  | Lookup_key bool bool string

fun key_step :: "(string \<Rightarrow> string \<Rightarrow> string \<Rightarrow> string) \<Rightarrow> key_config \<Rightarrow> ApiKeyRecord list \<Rightarrow> key_op \<Rightarrow> ApiKeyRecord list" where
  "key_step hmac cfg rows (Create_key d now name scopes) = snd (createApiKey hmac cfg d now name scopes rows)"
| "key_step hmac cfg rows (Rotate_key d now i) = snd (rotateApiKey hmac cfg d now i rows)"
| "key_step hmac cfg rows (Revoke_key i) = snd (revokeApiKey i rows)"
| "key_step hmac cfg rows (Lookup_key db_ok write_ok raw) = snd (findRecordByRawKey hmac cfg db_ok write_ok raw rows)"

definition key_dead :: "string \<Rightarrow> ApiKeyRecord list \<Rightarrow> bool" where
  "key_dead i rows \<longleftrightarrow> i \<in> ak_id ` set rows \<and> (\<forall>r\<in>set rows. ak_id r = i \<longrightarrow> \<not> ak_active r)"

text \<open>What an update writes to a row.\<close>

lemma update_key_rows: "snd (update_key i f rows) = map (\<lambda>r. if ak_id r = i then f r else r) rows"
  by (simp add: update_key_def)

lemma dead_map:
  assumes "key_dead i rows" "\<And>r. ak_id (f r) = ak_id r" "\<And>r. ak_active (f r) \<Longrightarrow> ak_active r"
  shows "key_dead i (map (\<lambda>r. if ak_id r = j then f r else r) rows)"
proof -
  let ?g = "\<lambda>r. if ak_id r = j then f r else r"
  have g: "ak_id (?g r) = ak_id r" "ak_active (?g r) \<longrightarrow> ak_active r" for r using assms(2,3) by auto
  have "ak_id ` set (map ?g rows) = ak_id ` set rows" by (simp only: set_map image_image g(1))
  moreover have "\<not> ak_active r'" if "r' \<in> set (map ?g rows)" "ak_id r' = i" for r'
  proof -
    obtain r where "r \<in> set rows" "r' = ?g r" using \<open>r' \<in> set (map ?g rows)\<close> by (simp only: set_map) blast
    then show ?thesis using assms(1) that(2) g [of r] unfolding key_dead_def by metis
  qed
  ultimately show ?thesis using assms(1) unfolding key_dead_def by blast
qed

lemma update_dead:
  "key_dead i rows \<Longrightarrow> \<forall>r. ak_id (f r) = ak_id r \<Longrightarrow> \<forall>r. ak_active (f r) \<longrightarrow> ak_active r \<Longrightarrow> key_dead i (snd (update_key j f rows))"
  unfolding update_key_rows by (rule dead_map) auto

lemma rehash_dead: "key_dead i rows \<Longrightarrow> key_dead i (fold rehash_key ws rows)"
  by (induction ws arbitrary: rows) (simp_all add: rehash_key_def update_dead)

lemma step_dead: "key_dead i rows \<Longrightarrow> key_dead i (key_step hmac cfg rows x)"
proof (cases x)
  case (Create_key d now name scopes)
  assume "key_dead i rows"
  then show ?thesis using Create_key by (auto simp: createApiKey_def key_dead_def split: option.splits)
next
  case (Rotate_key d now j)
  assume dead: "key_dead i rows"
  have "snd (rotateApiKey hmac cfg d now j rows) = rows \<or> (\<exists>f. snd (rotateApiKey hmac cfg d now j rows) = snd (update_key j f rows) \<and>
      (\<forall>r. ak_id (f r) = ak_id r) \<and> (\<forall>r. ak_active (f r) = ak_active r))"
  proof (cases "key_getById j rows")
    case (Some r)
    show ?thesis
    proof (cases "ak_active r \<and> hashKey hmac cfg (kd_raw d) (kd_salt d) \<noteq> None")
      case True
      then obtain g where g: "hashKey hmac cfg (kd_raw d) (kd_salt d) = Some g" by blast
      let ?f = "\<lambda>x. x\<lparr>ak_keyHash := g, ak_salt := kd_salt d, ak_prefix := take PREFIX_LENGTH (kd_raw d), ak_rotatedAt := Some now, ak_scopes := ak_scopes r\<rparr>"
      have "snd (rotateApiKey hmac cfg d now j rows) = snd (update_key j ?f rows)"
        using Some True g by (simp add: rotateApiKey_def split: prod.split option.split)
      then show ?thesis by (intro disjI2 exI [of _ ?f]) simp
    qed (use Some in \<open>auto simp: rotateApiKey_def\<close>)
  qed (simp add: rotateApiKey_def)
  then show ?thesis using Rotate_key dead update_dead [OF dead] by auto
next
  case (Revoke_key j)
  assume "key_dead i rows"
  moreover have "snd (revokeApiKey j rows) = snd (update_key j (\<lambda>r. r\<lparr>ak_active := False\<rparr>) rows)"
    by (simp add: revokeApiKey_def split: prod.split option.split)
  ultimately show ?thesis using Revoke_key by (simp add: update_dead)
next
  case (Lookup_key db_ok write_ok raw)
  assume "key_dead i rows"
  then show ?thesis using Lookup_key rehash_dead by (auto simp: findRecordByRawKey_def Let_def split: prod.split)
qed

interpretation dead_key: op_invariant "key_step hmac cfg" "key_dead i" for hmac cfg i
  by unfold_locales (rule step_dead)

lemma revoke_dead:
  assumes "revokeApiKey i rows = (None, rows1)"
  shows "key_dead i rows1"
proof -
  let ?f = "\<lambda>r. if ak_id r = i then r\<lparr>ak_active := False\<rparr> else r"
  from assms obtain r where "find (\<lambda>r. ak_id r = i) rows = Some r" and rows1: "rows1 = map ?f rows"
    by (auto simp: revokeApiKey_def update_key_def split: option.splits)
  then have r: "r \<in> set rows" "ak_id r = i" by (auto simp: find_Some_iff)
  have "?f r \<in> set rows1" unfolding rows1 set_map by (rule imageI [OF r(1)])
  from imageI [OF this, of ak_id] have "i \<in> ak_id ` set rows1" using r(2) by simp
  moreover have "\<forall>r\<in>set rows1. ak_id r = i \<longrightarrow> \<not> ak_active r"
  proof (intro ballI impI)
    fix x
    assume x: "x \<in> set rows1" "ak_id x = i"
    then obtain y where "x = ?f y" unfolding rows1 set_map by blast
    then show "\<not> ak_active x" using x(2) by (cases "ak_id y = i") simp_all
  qed
  ultimately show ?thesis unfolding key_dead_def by blast
qed

text \<open>A revoked API key is dead. After a revocation no request is authenticated as that key, whatever raw key it presents and whatever keys
  are created, rotated, revoked and looked up in between.\<close>

theorem revoked_key_dead:
  assumes "revokeApiKey i rows = (None, rows1)"
    and "fst (authenticateApiKey hmac cfg db_ok write_ok rawKey (foldl (key_step hmac cfg) rows1 ops) anonymous) = Next p"
  shows "pr_keyId p \<noteq> Some i"
proof -
  let ?rows = "foldl (key_step hmac cfg) rows1 ops"
  have dead: "key_dead i ?rows" by (rule dead_key.run_inv [OF revoke_dead [OF assms(1)]])
  show ?thesis
  proof (cases "nullish rawKey [] = []")
    case True
    then show ?thesis using assms(2) by (auto simp: authenticateApiKey_def anonymous_def)
  next
    case False
    then obtain r where r: "fst (findRecordByRawKey hmac cfg db_ok write_ok (the rawKey) ?rows) = Inr (Some r)" "pr_keyId p = Some (ak_id r)"
      using assms(2) by (auto simp: authenticateApiKey_def split: prod.splits sum.splits option.splits if_splits)
    then have "js_trim (take PREFIX_LENGTH (the rawKey)) \<noteq> []" by (auto simp: findRecordByRawKey_def split: if_splits)
    from find_exact [OF r(1) this] have "r \<in> set ?rows" "ak_active r" by auto
    then show ?thesis using dead r(2) by (auto simp: key_dead_def)
  qed
qed

lemma hashesMatch_refl: "length (hex_bytes d) = 32 \<Longrightarrow> hashesMatch d d"
  by (simp add: hashesMatch_def DIGEST_BYTES_def)

text \<open>A lookup when the table answers and the pepper is configured.\<close>

lemma lookup_defined:
  assumes "nullish (apiKeyPepper cfg) [] \<noteq> []"
  shows "\<exists>m. fst (findRecordByRawKey hmac cfg True write_ok rawKey rows) = Inr m"
  using assms by (auto simp: findRecordByRawKey_def Let_def split: prod.split)

text \<open>A rotation replaces the key. The new raw key is accepted as the rotated key with its scopes; a raw key that does not have the new digest,
  such as the old one, is no longer accepted as that key.\<close>

theorem rotation_replaces:
  assumes "rotateApiKey hmac cfg d now i rows = (Inr created, rows1)" "distinct (map ak_id rows)"
    and "length (hex_bytes (hmac (the (apiKeyPepper cfg)) (kd_salt d) (kd_raw d))) = 32" "js_trim (take PREFIX_LENGTH (kd_raw d)) \<noteq> []"
    and "\<forall>r\<in>set rows. ak_id r \<noteq> i \<longrightarrow> \<not> key_accepts hmac cfg (kd_raw d) r"
    and "\<forall>k. ak_salt k = kd_salt d \<and> ak_keyHash k = hmac (the (apiKeyPepper cfg)) (kd_salt d) (kd_raw d) \<longrightarrow> \<not> key_accepts hmac cfg old k"
  shows "kc_key created = kd_raw d \<and>
    (\<exists>scopes. fst (authenticateApiKey hmac cfg True write_ok (Some (kd_raw d)) rows1 anonymous) =
       Next (anonymous\<lparr>pr_keyScopes := Some scopes, pr_keyId := Some i\<rparr>) \<and> (\<forall>r\<in>set rows. ak_id r = i \<longrightarrow> ak_scopes r = scopes)) \<and>
    (\<forall>p. fst (authenticateApiKey hmac cfg True write_ok (Some old) rows1 anonymous) = Next p \<longrightarrow> pr_keyId p \<noteq> Some i)"
proof -
  let ?g = "hmac (the (apiKeyPepper cfg)) (kd_salt d) (kd_raw d)"
  obtain r where r: "key_getById i rows = Some r" "ak_active r" "nullish (apiKeyPepper cfg) [] \<noteq> []"
    using assms(1) by (auto simp: rotateApiKey_def hashKey_def split: option.splits if_splits)
  let ?f = "\<lambda>x. x\<lparr>ak_keyHash := ?g, ak_salt := kd_salt d, ak_prefix := take PREFIX_LENGTH (kd_raw d), ak_rotatedAt := Some now, ak_scopes := ak_scopes r\<rparr>"
  have rr: "r \<in> set rows" "ak_id r = i" using r(1) by (auto simp: key_getById_def find_Some_iff)
  have uniq: "x = r" if "x \<in> set rows" "ak_id x = i" for x
    using assms(2) rr that by (metis distinct_map inj_onD)
  have rows1: "rows1 = map (\<lambda>x. if ak_id x = i then ?f x else x) rows" and kc: "kc_key created = kd_raw d"
    using assms(1) r by (auto simp: rotateApiKey_def hashKey_def update_key_def split: option.splits)
  have mem: "x \<in> set rows1 \<longleftrightarrow> x = ?f r \<or> (x \<in> set rows \<and> ak_id x \<noteq> i)" for x
  proof
    assume "x \<in> set rows1"
    then obtain y where y: "y \<in> set rows" "x = (if ak_id y = i then ?f y else y)" unfolding rows1 set_map by blast
    show "x = ?f r \<or> (x \<in> set rows \<and> ak_id x \<noteq> i)"
    proof (cases "ak_id y = i")
      case True
      then show ?thesis using y uniq [OF y(1)] by simp
    qed (use y in simp)
  next
    assume "x = ?f r \<or> (x \<in> set rows \<and> ak_id x \<noteq> i)"
    then show "x \<in> set rows1"
    proof
      assume x: "x = ?f r"
      have "(if ak_id r = i then ?f r else r) \<in> set rows1" unfolding rows1 set_map by (rule imageI [OF rr(1)])
      then show ?thesis using x rr(2) by simp
    next
      assume x: "x \<in> set rows \<and> ak_id x \<noteq> i"
      then have "(if ak_id x = i then ?f x else x) \<in> set rows1" unfolding rows1 set_map by (intro imageI) simp
      then show ?thesis using x by simp
    qed
  qed
  have pep: "nullish (apiKeyPepper cfg) [] = the (apiKeyPepper cfg)" using r(3) by (cases "apiKeyPepper cfg") auto
  have acc: "key_accepts hmac cfg (kd_raw d) (?f r)" using hashesMatch_refl [OF assms(3)] by (simp add: key_accepts_def pep)
  have ne: "kd_raw d \<noteq> []" using assms(4) by (auto simp: js_trim_def)
  obtain m where m: "fst (findRecordByRawKey hmac cfg True write_ok (kd_raw d) rows1) = Inr m" using lookup_defined [OF r(3)] by blast
  from find_exact [OF m assms(4)] have "m = Some (?f r)" using acc mem assms(5) r(2) rr by (cases m) auto
  then have "fst (authenticateApiKey hmac cfg True write_ok (Some (kd_raw d)) rows1 anonymous) =
      Next (anonymous\<lparr>pr_keyScopes := Some (ak_scopes r), pr_keyId := Some i\<rparr>)"
    using m ne r(2) rr by (auto simp: authenticateApiKey_def split: prod.split)
  moreover have "pr_keyId p \<noteq> Some i" if p: "fst (authenticateApiKey hmac cfg True write_ok (Some old) rows1 anonymous) = Next p" for p
  proof (cases "old = []")
    case True
    then show ?thesis using p by (auto simp: authenticateApiKey_def anonymous_def)
  next
    case False
    obtain m where m: "fst (findRecordByRawKey hmac cfg True write_ok old rows1) = Inr m" using lookup_defined [OF r(3)] by blast
    then obtain x where x: "m = Some x" "pr_keyId p = Some (ak_id x)"
      using p False by (auto simp: authenticateApiKey_def split: prod.splits option.splits if_splits)
    then have "js_trim (take PREFIX_LENGTH old) \<noteq> []" using m by (auto simp: findRecordByRawKey_def split: if_splits)
    from find_exact [OF m this] x have "x \<in> set rows1" "key_accepts hmac cfg old x" by auto
    then show ?thesis using mem [of x] x(2) assms(6) [rule_format, of "?f r"] by auto
  qed
  ultimately show ?thesis using kc uniq by blast
qed

definition demo_hmac :: "string \<Rightarrow> string \<Rightarrow> string \<Rightarrow> string" where
  "demo_hmac pepper salt raw = (if raw = ''flx_newnew'' then replicate 64 (CHR ''a'') else replicate 64 (CHR ''b''))"

definition demo_key_config :: key_config where
  "demo_key_config = \<lparr>apiKeyPepper = Some ''pepper'', apiKeyPepperPrevious = None\<rparr>"

definition demo_key_rows :: "ApiKeyRecord list" where
  "demo_key_rows = snd (createApiKey demo_hmac demo_key_config \<lparr>kd_raw = ''flx_oldold'', kd_salt = ''s1'', kd_id = ''k1''\<rparr> ''t0'' ''partner'' None [])"

definition demo_rotation :: key_draw where
  "demo_rotation = \<lparr>kd_raw = ''flx_newnew'', kd_salt = ''s2'', kd_id = []\<rparr>"

theorem rotation_replaces_witness:
  "\<exists>scopes. fst (authenticateApiKey demo_hmac demo_key_config True True (Some ''flx_newnew'')
      (snd (rotateApiKey demo_hmac demo_key_config demo_rotation ''t1'' ''k1'' demo_key_rows)) anonymous) =
    Next (anonymous\<lparr>pr_keyScopes := Some scopes, pr_keyId := Some ''k1''\<rparr>)"
proof -
  let ?r = "rotateApiKey demo_hmac demo_key_config demo_rotation ''t1'' ''k1'' demo_key_rows"
  have "case fst ?r of Inl _ \<Rightarrow> False | Inr _ \<Rightarrow> True" by code_simp
  then obtain created where "?r = (Inr created, snd ?r)" by (cases ?r) (auto split: sum.splits)
  moreover have "distinct (map ak_id demo_key_rows)" by code_simp
  moreover have "length (hex_bytes (demo_hmac (the (apiKeyPepper demo_key_config)) (kd_salt demo_rotation) (kd_raw demo_rotation))) = 32" by code_simp
  moreover have "js_trim (take PREFIX_LENGTH (kd_raw demo_rotation)) \<noteq> []" by code_simp
  moreover have "list_all (\<lambda>r. ak_id r = ''k1'') demo_key_rows" by code_simp
  then have "\<forall>r\<in>set demo_key_rows. ak_id r \<noteq> ''k1'' \<longrightarrow> \<not> key_accepts demo_hmac demo_key_config (kd_raw demo_rotation) r"
    by (simp add: list_all_iff)
  moreover have "\<not> hashesMatch (replicate 64 (CHR ''b'')) (replicate 64 (CHR ''a''))" by code_simp
  then have "\<forall>k. ak_salt k = kd_salt demo_rotation \<and> ak_keyHash k = demo_hmac (the (apiKeyPepper demo_key_config)) (kd_salt demo_rotation) (kd_raw demo_rotation) \<longrightarrow>
      \<not> key_accepts demo_hmac demo_key_config ''flx_oldold'' k"
    by (simp add: key_accepts_def demo_hmac_def demo_rotation_def demo_key_config_def)
  ultimately have "\<exists>scopes. fst (authenticateApiKey demo_hmac demo_key_config True True (Some (kd_raw demo_rotation)) (snd ?r) anonymous) =
       Next (anonymous\<lparr>pr_keyScopes := Some scopes, pr_keyId := Some ''k1''\<rparr>)"
    using rotation_replaces [of demo_hmac demo_key_config demo_rotation "''t1''" "''k1''" demo_key_rows created "snd ?r" "''flx_oldold''" True] by blast
  then show ?thesis by (simp add: demo_rotation_def)
qed

theorem revoked_key_dead_witness:
  "(case fst (authenticateApiKey demo_hmac demo_key_config True True (Some ''flx_newnew'')
      (foldl (key_step demo_hmac demo_key_config) (snd (revokeApiKey ''k1'' demo_key_rows))
        [Create_key \<lparr>kd_raw = ''flx_newnew'', kd_salt = ''s3'', kd_id = ''k2''\<rparr> ''t2'' ''other'' None, Rotate_key demo_rotation ''t3'' ''k1'']) anonymous) of
    Next p \<Rightarrow> pr_keyId p \<noteq> Some ''k1'' | Reject _ _ \<Rightarrow> False)"
proof -
  let ?ops = "[Create_key \<lparr>kd_raw = ''flx_newnew'', kd_salt = ''s3'', kd_id = ''k2''\<rparr> ''t2'' ''other'' None, Rotate_key demo_rotation ''t3'' ''k1'']"
  let ?a = "fst (authenticateApiKey demo_hmac demo_key_config True True (Some ''flx_newnew'')
      (foldl (key_step demo_hmac demo_key_config) (snd (revokeApiKey ''k1'' demo_key_rows)) ?ops) anonymous)"
  have r: "revokeApiKey ''k1'' demo_key_rows = (None, snd (revokeApiKey ''k1'' demo_key_rows))" by code_simp
  have "case ?a of Next p \<Rightarrow> True | Reject _ _ \<Rightarrow> False" by code_simp
  then obtain p where p: "?a = Next p" by (auto split: middleware_result.splits)
  from revoked_key_dead [OF r p] show ?thesis unfolding p by simp
qed

section \<open>Lockouts\<close>

text \<open>The failures of one key, each with the random suffix of its member; \<open>None\<close> when a call failed.\<close>

fun failures :: "string \<Rightarrow> (millis \<times> string) list \<Rightarrow> attempts \<Rightarrow> attempts option" where
  "failures key [] a = Some a"
| "failures key ((now, rnd) # xs) a = Option.bind (recordFailure True key now rnd a) (failures key xs)"

definition failure_member :: "millis \<times> string \<Rightarrow> string" where
  "failure_member x = show_int (fst x) @ ''-'' @ snd x"

definition recent :: "millis \<Rightarrow> (millis \<times> string) list \<Rightarrow> (millis \<times> string) list" where
  "recent now xs = filter (\<lambda>x. now - ATTEMPTS_WINDOW_MS < fst x) xs"

text \<open>What the sorted set holds after some failures.\<close>

definition set_tracks :: "string \<Rightarrow> (millis \<times> string) list \<Rightarrow> attempts \<Rightarrow> bool" where
  "set_tracks key xs a \<longleftrightarrow> (\<forall>now\<ge>(if xs = [] then now else fst (last xs)).
     filter (\<lambda>(m, score). \<not> score \<le> now - ATTEMPTS_WINDOW_MS) (live_set (buildAttemptsKey key) now a) =
       map (\<lambda>x. (failure_member x, fst x)) (recent now xs)) \<and>
     (\<forall>now. set (map fst (live_set (buildAttemptsKey key) now a)) \<subseteq> failure_member ` set xs)"

lemma failures_snoc:
  "failures key (xs @ [x]) a = Option.bind (failures key xs a) (recordFailure True key (fst x) (snd x))"
proof (induction xs arbitrary: a)
  case Nil
  show ?case by (cases x; cases "recordFailure True key (fst x) (snd x) a") simp_all
next
  case (Cons y ys)
  show ?case by (cases y; cases "recordFailure True key (fst y) (snd y) a") (simp_all add: Cons.IH)
qed

lemma map_set_absent: "map_get m k = None \<Longrightarrow> map_set k v m = m @ [(k, v)]"
  by (induction m) (auto split: if_splits)

lemma tracks_step:
  assumes "set_tracks key xs a" "sorted (map fst (xs @ [x]))" "failure_member x \<notin> failure_member ` set xs"
  shows "\<exists>a'. recordFailure True key (fst x) (snd x) a = Some a' \<and> set_tracks key (xs @ [x]) a' \<and>
    at_lockouts a' = (let n = length (recent (fst x) (xs @ [x])); t = fst x + computeLockoutDuration n * 1000
      in if LOCKOUT_THRESHOLD \<le> n then map_set (buildLockoutKey key) (t, t) (at_lockouts a) else at_lockouts a)"
proof -
  let ?k = "buildAttemptsKey key" and ?now = "fst x" and ?W = ATTEMPTS_WINDOW_MS
  let ?old = "live_set ?k ?now a" and ?kept = "map (\<lambda>x. (failure_member x, fst x)) (recent ?now (xs @ [x]))"
  have W: "0 < ?W" by (simp add: ATTEMPTS_WINDOW_MS_def)
  have le: "\<forall>y\<in>set (xs @ [x]). fst y \<le> ?now" using assms(2) by (auto simp: sorted_append)
  have "failure_member x \<notin> set (map fst ?old)" using assms(1,3) unfolding set_tracks_def by blast
  then have "map_get ?old (failure_member x) = None" by (simp add: map_of_eq_None_iff)
  then have added: "(if map_get ?old (failure_member x) = None then map_set (failure_member x) ?now ?old else ?old) = ?old @ [(failure_member x, ?now)]"
    by (simp add: map_set_absent)
  have "filter (\<lambda>(m, score). \<not> score \<le> ?now - ?W) ?old = map (\<lambda>x. (failure_member x, fst x)) (recent ?now xs)"
    using assms(1) le unfolding set_tracks_def by (auto dest!: last_in_set)
  then have kept: "filter (\<lambda>(m, score). \<not> score \<le> ?now - ?W) (?old @ [(failure_member x, ?now)]) = ?kept"
    using W by (simp add: recent_def)
  let ?a1 = "a\<lparr>at_sets := map_set ?k (?kept, ?now + ?W) (at_sets a)\<rparr>"
  let ?n = "length (recent ?now (xs @ [x]))" and ?l = "buildLockoutKey key"
  let ?t = "?now + computeLockoutDuration ?n * 1000"
  let ?a' = "if LOCKOUT_THRESHOLD \<le> ?n then ?a1\<lparr>at_lockouts := map_set ?l (?t, ?t) (at_lockouts a)\<rparr> else ?a1"
  have rec: "recordFailure True key ?now (snd x) a = Some ?a'"
    unfolding recordFailure_def failure_member_def [symmetric] Let_def added kept by simp
  have live: "live_set ?k now ?a' = (if now < ?now + ?W then ?kept else [])" for now by (simp add: live_set_def)
  have "set_tracks key (xs @ [x]) ?a'"
    unfolding set_tracks_def
  proof (intro conjI allI impI)
    fix now
    assume "(if xs @ [x] = [] then now else fst (last (xs @ [x]))) \<le> now"
    then have now: "?now \<le> now" by simp
    show "filter (\<lambda>(m, score). \<not> score \<le> now - ?W) (live_set ?k now ?a') = map (\<lambda>x. (failure_member x, fst x)) (recent now (xs @ [x]))"
    proof (cases "now < ?now + ?W")
      case True
      have "filter (\<lambda>y. now - ?W < fst y) (recent ?now (xs @ [x])) = recent now (xs @ [x])"
        unfolding recent_def filter_filter by (rule filter_cong) (use now in auto)
      then show ?thesis unfolding live using True by (simp add: filter_map comp_def not_le)
    next
      case False
      then have "recent now (xs @ [x]) = []" using le unfolding recent_def by (auto simp: filter_empty_conv)
      then show ?thesis unfolding live using False by simp
    qed
  next
    fix now
    show "set (map fst (live_set ?k now ?a')) \<subseteq> failure_member ` set (xs @ [x])" unfolding live by (auto simp: recent_def)
  qed
  then show ?thesis using rec by (auto simp: Let_def)
qed

lemma failures_track:
  "sorted (map fst xs) \<Longrightarrow> distinct (map failure_member xs) \<Longrightarrow> \<exists>a. failures key xs no_attempts = Some a \<and> set_tracks key xs a"
proof (induction xs rule: rev_induct)
  case Nil
  then show ?case by (simp add: set_tracks_def recent_def live_set_def no_attempts_def)
next
  case (snoc x xs)
  then obtain a where a: "failures key xs no_attempts = Some a" "set_tracks key xs a" by (auto simp: sorted_append)
  have "failure_member x \<notin> failure_member ` set xs" using snoc.prems(2) by simp
  from tracks_step [OF a(2) snoc.prems(1) this] show ?case using a(1) by (auto simp: failures_snoc)
qed

lemma duration_bounds: "60 \<le> computeLockoutDuration n \<and> computeLockoutDuration n \<le> 3600"
proof -
  have "(1::int) \<le> 2 ^ (n - LOCKOUT_THRESHOLD)" by simp
  then show ?thesis by (simp add: computeLockoutDuration_def MAX_LOCKOUT_SECONDS_def)
qed

text \<open>A lockout follows the failures of the last ten minutes. After any history of failures of a key, with distinct members, the latest failure
  locks the key exactly when it is at least the fifth within ten minutes, for a time between a minute and an hour that doubles with every
  further failure and after which the key is free; otherwise the failure leaves the lockout as it was.\<close>

theorem lockout_exact:
  assumes "sorted (map fst (xs @ [x]))" "distinct (map failure_member (xs @ [x]))"
  shows "\<exists>b a. failures key xs no_attempts = Some b \<and> failures key (xs @ [x]) no_attempts = Some a \<and>
    (let n = length (recent (fst x) (xs @ [x])); d = computeLockoutDuration n
     in 60 \<le> d \<and> d \<le> 3600 \<and>
        (if 5 \<le> n then isLockedOut key (fst x) a = d \<and> (\<forall>now<fst x + d * 1000. fst x \<le> now \<longrightarrow> 0 < isLockedOut key now a) \<and>
           (\<forall>now\<ge>fst x + d * 1000. isLockedOut key now a = 0)
         else \<forall>now. isLockedOut key now a = isLockedOut key now b))"
proof -
  obtain b where b: "failures key xs no_attempts = Some b" "set_tracks key xs b"
    using failures_track [of xs key] assms by (auto simp: sorted_append)
  have "failure_member x \<notin> failure_member ` set xs" using assms(2) by simp
  from tracks_step [OF b(2) assms(1) this] obtain a where a: "recordFailure True key (fst x) (snd x) b = Some a"
    "at_lockouts a = (let n = length (recent (fst x) (xs @ [x])); t = fst x + computeLockoutDuration n * 1000
      in if LOCKOUT_THRESHOLD \<le> n then map_set (buildLockoutKey key) (t, t) (at_lockouts b) else at_lockouts b)" by blast
  let ?n = "length (recent (fst x) (xs @ [x]))"
  let ?d = "computeLockoutDuration ?n"
  have f: "failures key (xs @ [x]) no_attempts = Some a" using a(1) b(1) by (simp add: failures_snoc)
  have locked: "isLockedOut key now a = (if now < fst x + ?d * 1000 then max 0 (- ((now - (fst x + ?d * 1000)) div 1000)) else 0)" if "5 \<le> ?n" for now
    using a(2) that by (simp add: isLockedOut_def LOCKOUT_THRESHOLD_def Let_def)
  have pos: "0 < - ((now - u) div 1000)" if "now < u" for now u :: int using that by (simp add: pos_imp_zdiv_neg_iff)
  have d: "60 \<le> ?d" "?d \<le> 3600" using duration_bounds by auto
  have "isLockedOut key (fst x) a = ?d" if "5 \<le> ?n" using d locked [OF that, of "fst x"] by simp
  moreover have "isLockedOut key now a = isLockedOut key now b" if "\<not> 5 \<le> ?n" for now
    using a(2) that by (simp add: isLockedOut_def LOCKOUT_THRESHOLD_def Let_def)
  ultimately show ?thesis using b(1) f d locked pos
    by (intro exI [of _ b] exI [of _ a]) (simp add: Let_def)
qed

definition demo_failures :: "(millis \<times> string) list" where
  "demo_failures = [(0, ''a''), (1000, ''b''), (2000, ''c''), (3000, ''d''), (700000, ''e''), (700001, ''f''), (700002, ''g''), (700003, ''h'')]"

theorem lockout_exact_witness:
  "\<exists>a. failures ''1.2.3.4'' (demo_failures @ [(700004, ''i'')]) no_attempts = Some a \<and> isLockedOut ''1.2.3.4'' 700004 a = 60 \<and>
     isLockedOut ''1.2.3.4'' 760004 a = 0"
proof -
  let ?xs = "demo_failures @ [(700004, ''i'')]"
  have h: "sorted (map fst ?xs)" "distinct (map failure_member ?xs)" by code_simp+
  have n: "length (recent 700004 ?xs) = 5" by code_simp
  have d: "computeLockoutDuration 5 = 60" by code_simp
  from lockout_exact [OF h, of "''1.2.3.4''"] show ?thesis by (auto simp: n d)
qed

end
