(* ===== verification/Opaque_Cursor.thy ===== *)
theory Opaque_Cursor
  imports Fluxora_Prelude
begin

text \<open>
  The opaque cursors of the paginated routes, \<open>src/utils/opaqueCursor.ts\<close>, over the parts of the runtime they use: \<open>JSON.parse\<close>, UTF-8 and
  base64url.

  A text is a list of code units below 256; a token that decodes to other code units is outside the model and taken as malformed, which
  is how the parser sees any byte sequence that is not the encoding of such a text. Numbers are exact. The parser takes a bound on the
  depth of its recursion; \<open>JSON_parse\<close> gives it the length of the text, which is enough since every call consumes a character.

  The lemma: a cursor that the server issues decodes to what was put into it.
\<close>

section \<open>JSON texts\<close>

definition json_white :: "char \<Rightarrow> bool" where
  "json_white c \<longleftrightarrow> (of_char c :: nat) \<in> {9, 10, 13, 32}"

definition hex_digit_val :: "char \<Rightarrow> nat option" where
  "hex_digit_val c =
     (let n = of_char c
      in if 48 \<le> n \<and> n \<le> 57 then Some (n - 48) else if 65 \<le> n \<and> n \<le> 70 then Some (n - 55)
         else if 97 \<le> n \<and> n \<le> 102 then Some (n - 87) else None)"

definition hex4 :: "char \<Rightarrow> char \<Rightarrow> char \<Rightarrow> char \<Rightarrow> nat option" where
  "hex4 a b c d =
     (case (hex_digit_val a, hex_digit_val b, hex_digit_val c, hex_digit_val d) of
        (Some w, Some x, Some y, Some z) \<Rightarrow> Some (4096 * w + 256 * x + 16 * y + z)
      | _ \<Rightarrow> None)"

definition simple_escape :: "char \<Rightarrow> char option" where
  "simple_escape c =
     (if c = CHR 0x22 then Some (CHR 0x22) else if c = CHR 0x5C then Some (CHR 0x5C) else if c = CHR ''/'' then Some (CHR ''/'')
      else if c = CHR ''b'' then Some (CHR 0x08) else if c = CHR ''f'' then Some (CHR 0x0C) else if c = CHR ''n'' then Some (CHR 0x0A)
      else if c = CHR ''r'' then Some (CHR 0x0D) else if c = CHR ''t'' then Some (CHR 0x09) else None)"

text \<open>The characters of a string up to its closing quote, and what follows.\<close>

function json_chars :: "string \<Rightarrow> (string \<times> string) option" where
  "json_chars s =
     (case s of
        [] \<Rightarrow> None
      | c # cs \<Rightarrow>
          if c = CHR 0x22 then Some ([], cs)
          else if c = CHR 0x5C
          then (case cs of
                  [] \<Rightarrow> None
                | e # r \<Rightarrow>
                    if e = CHR ''u''
                    then (case r of
                            a # b # x # d # r' \<Rightarrow>
                              (case hex4 a b x d of
                                 None \<Rightarrow> None
                               | Some n \<Rightarrow> if 256 \<le> n then None else map_option (\<lambda>(t, u). (char_of n # t, u)) (json_chars r'))
                          | _ \<Rightarrow> None)
                    else (case simple_escape e of
                            None \<Rightarrow> None
                          | Some k \<Rightarrow> map_option (\<lambda>(t, u). (k # t, u)) (json_chars r)))
          else if (of_char c :: nat) < 32 then None
          else map_option (\<lambda>(t, u). (c # t, u)) (json_chars cs))"
  by pat_completeness auto
termination by (relation "measure length") auto

declare json_chars.simps [simp del]

text \<open>A number: sign, integer without superfluous zeros, fraction, exponent.\<close>

definition json_number :: "string \<Rightarrow> (jsnum \<times> string) option" where
  "json_number s =
     (let neg = starts_with ''-'' s; s1 = (if neg then tl s else s);
          ip = takeWhile is_digit s1; s2 = dropWhile is_digit s1;
          fp = (if starts_with ''.'' s2 then takeWhile is_digit (tl s2) else []);
          s3 = (if starts_with ''.'' s2 then dropWhile is_digit (tl s2) else s2);
          has_exp = (starts_with ''e'' s3 \<or> starts_with ''E'' s3);
          s4 = (if has_exp then tl s3 else s3);
          exp_neg = (has_exp \<and> starts_with ''-'' s4);
          s5 = (if has_exp \<and> (starts_with ''-'' s4 \<or> starts_with ''+'' s4) then tl s4 else s4);
          ep = (if has_exp then takeWhile is_digit s5 else []); s6 = (if has_exp then dropWhile is_digit s5 else s5)
      in if ip = [] \<or> (1 < length ip \<and> hd ip = CHR ''0'') \<or> (starts_with ''.'' s2 \<and> fp = []) \<or> (has_exp \<and> ep = []) then None
         else let m = (of_nat (digits_val (ip @ fp)) :: rat) / 10 ^ length fp; k = (10 :: rat) ^ digits_val ep;
                  x = (if exp_neg then m / k else m * k)
              in Some (Finite (if neg then - x else x), s6))"

fun json_value :: "nat \<Rightarrow> string \<Rightarrow> (jsval \<times> string) option"
and json_elements :: "nat \<Rightarrow> string \<Rightarrow> (jsval list \<times> string) option"
and json_members :: "nat \<Rightarrow> (string \<times> jsval) list \<Rightarrow> string \<Rightarrow> ((string \<times> jsval) list \<times> string) option" where
  "json_value 0 s = None"
| "json_value (Suc n) s =
     (let t = dropWhile json_white s
      in if starts_with [CHR 0x22] t then map_option (\<lambda>(x, u). (JString x, u)) (json_chars (tl t))
         else if starts_with ''{'' t
         then (let u = dropWhile json_white (tl t)
               in if starts_with ''}'' u then Some (JObject [], tl u) else map_option (\<lambda>(ms, r). (JObject ms, r)) (json_members n [] u))
         else if starts_with ''['' t
         then (let u = dropWhile json_white (tl t)
               in if starts_with '']'' u then Some (JArray [], tl u) else map_option (\<lambda>(vs, r). (JArray vs, r)) (json_elements n u))
         else if starts_with ''true'' t then Some (JBool True, drop 4 t)
         else if starts_with ''false'' t then Some (JBool False, drop 5 t)
         else if starts_with ''null'' t then Some (JNull, drop 4 t)
         else map_option (\<lambda>(x, u). (JNumber x, u)) (json_number t))"
| "json_elements 0 s = None"
| "json_elements (Suc n) s =
     (case json_value n s of
        None \<Rightarrow> None
      | Some (v, r) \<Rightarrow>
          let t = dropWhile json_white r
          in if starts_with '','' t then map_option (\<lambda>(vs, u). (v # vs, u)) (json_elements n (tl t))
             else if starts_with '']'' t then Some ([v], tl t) else None)"
| "json_members 0 ms s = None"
| "json_members (Suc n) ms s =
     (let t = dropWhile json_white s
      in if \<not> starts_with [CHR 0x22] t then None
         else case json_chars (tl t) of
                None \<Rightarrow> None
              | Some (k, r) \<Rightarrow>
                  let c = dropWhile json_white r
                  in if \<not> starts_with '':'' c then None
                     else case json_value n (tl c) of
                            None \<Rightarrow> None
                          | Some (v, r2) \<Rightarrow>
                              let u = dropWhile json_white r2; ms2 = map_set k v ms
                              in if starts_with '','' u then json_members n ms2 (tl u)
                                 else if starts_with ''}'' u then Some (ms2, tl u) else None)"

definition JSON_parse :: "string \<Rightarrow> jsval option" where
  "JSON_parse s =
     (case json_value (length s + 1) s of None \<Rightarrow> None | Some (v, r) \<Rightarrow> if dropWhile json_white r = [] then Some v else None)"

section \<open>Bytes\<close>

fun utf8_bytes :: "string \<Rightarrow> nat list" where
  "utf8_bytes [] = []"
| "utf8_bytes (c # cs) =
     (let n = of_char c in if n < 128 then n # utf8_bytes cs else (192 + n div 64) # (128 + n mod 64) # utf8_bytes cs)"

fun utf8_text :: "nat list \<Rightarrow> string option" where
  "utf8_text [] = Some []"
| "utf8_text (a # bs) =
     (if a < 128 then map_option ((#) (char_of a)) (utf8_text bs)
      else case bs of
             [] \<Rightarrow> None
           | b # cs \<Rightarrow>
               if (a = 194 \<or> a = 195) \<and> 128 \<le> b \<and> b < 192 then map_option ((#) (char_of ((a - 192) * 64 + (b - 128)))) (utf8_text cs)
               else None)"

definition b64_char :: "nat \<Rightarrow> char" where
  "b64_char n =
     (if n < 26 then char_of (65 + n) else if n < 52 then char_of (71 + n) else if n < 62 then char_of (n - 4)
      else if n = 62 then CHR ''-'' else CHR ''_'')"

definition b64_val :: "char \<Rightarrow> nat option" where
  "b64_val c =
     (let n = of_char c
      in if 65 \<le> n \<and> n \<le> 90 then Some (n - 65) else if 97 \<le> n \<and> n \<le> 122 then Some (n - 71) else if 48 \<le> n \<and> n \<le> 57 then Some (n + 4)
         else if c = CHR ''-'' \<or> c = CHR ''+'' then Some 62 else if c = CHR ''_'' \<or> c = CHR ''/'' then Some 63 else None)"

fun sextets :: "nat list \<Rightarrow> nat list" where
  "sextets (a # b # c # bs) = (a div 4) # ((a mod 4) * 16 + b div 16) # ((b mod 16) * 4 + c div 64) # (c mod 64) # sextets bs"
| "sextets [a, b] = [a div 4, (a mod 4) * 16 + b div 16, (b mod 16) * 4]"
| "sextets [a] = [a div 4, (a mod 4) * 16]"
| "sextets [] = []"

fun octets :: "nat list \<Rightarrow> nat list" where
  "octets (w # x # y # z # r) = (w * 4 + x div 16) # ((x mod 16) * 16 + y div 4) # ((y mod 4) * 64 + z) # octets r"
| "octets [w, x, y] = [w * 4 + x div 16, (x mod 16) * 16 + y div 4]"
| "octets [w, x] = [w * 4 + x div 16]"
| "octets _ = []"

definition base64url :: "nat list \<Rightarrow> string" where
  "base64url bs = map b64_char (sextets bs)"

text \<open>Decoding ends at a padding character and passes over characters outside the alphabets.\<close>

definition from_base64url :: "string \<Rightarrow> nat list" where
  "from_base64url s = octets (List.map_filter b64_val (takeWhile (\<lambda>c. c \<noteq> CHR ''='') s))"

section \<open>Cursors\<close>

record OpaqueCursor =
  oc_lastId :: string
  oc_scope :: "string option"

definition INVALID_CURSOR_MESSAGE :: string where "INVALID_CURSOR_MESSAGE = ''cursor must be a valid opaque pagination token''"
definition CURSOR_LAST_ID_MAX_LENGTH :: nat where "CURSOR_LAST_ID_MAX_LENGTH = 200"
definition CURSOR_SCOPE_MAX_LENGTH :: nat where "CURSOR_SCOPE_MAX_LENGTH = 500"

definition encodeCursor :: "string \<Rightarrow> string \<Rightarrow> string" where
  "encodeCursor lastId scope =
     base64url (utf8_bytes (json_object [(''v'', Some ''1''), (''lastId'', Some (json_string lastId)), (''scope'', Some (json_string scope))]))"

text \<open>\<open>Inl\<close>: the error with \<open>INVALID_CURSOR_MESSAGE\<close>.\<close>

definition decodeCursor :: "string \<Rightarrow> string + OpaqueCursor" where
  "decodeCursor cursor =
     (case Option.bind (utf8_text (from_base64url cursor)) JSON_parse of
        Some (JObject ms) \<Rightarrow>
          (case (map_get ms ''v'', map_get ms ''lastId'') of
             (Some v, Some (JString lastId)) \<Rightarrow>
               if v \<noteq> JNumber (Finite 1) \<or> js_trim lastId = [] then Inl INVALID_CURSOR_MESSAGE
               else if CURSOR_LAST_ID_MAX_LENGTH < length lastId then Inl INVALID_CURSOR_MESSAGE
               else (case map_get ms ''scope'' of
                       None \<Rightarrow> Inr \<lparr>oc_lastId = lastId, oc_scope = None\<rparr>
                     | Some (JString scope) \<Rightarrow>
                         if CURSOR_SCOPE_MAX_LENGTH < length scope then Inl INVALID_CURSOR_MESSAGE
                         else Inr \<lparr>oc_lastId = lastId, oc_scope = Some scope\<rparr>
                     | Some _ \<Rightarrow> Inl INVALID_CURSOR_MESSAGE)
           | _ \<Rightarrow> Inl INVALID_CURSOR_MESSAGE)
      | _ \<Rightarrow> Inl INVALID_CURSOR_MESSAGE)"

definition parseCursorParam :: "jsval \<Rightarrow> string + OpaqueCursor option" where
  "parseCursorParam cursorParam =
     (case cursorParam of
        JUndefined \<Rightarrow> Inr None
      | JString s \<Rightarrow> if js_trim s = [] then Inl INVALID_CURSOR_MESSAGE else map_sum id Some (decodeCursor s)
      | _ \<Rightarrow> Inl INVALID_CURSOR_MESSAGE)"

section \<open>Decoding undoes encoding\<close>

lemma hex_digit_val_hex_digit: "d < 16 \<Longrightarrow> hex_digit_val (hex_digit d) = Some d"
  using of_char_hex_digit [of d] by (auto simp: hex_digit_val_def Let_def)

lemma json_chars_escape: "json_chars (json_escape c @ t) = map_option (\<lambda>(x, u). (c # x, u)) (json_chars t)"
proof -
  let ?n = "of_char c :: nat"
  have c: "c = char_of ?n" by simp
  consider "?n \<in> {34, 92, 8, 9, 10, 12, 13}" | "?n < 32" "?n \<notin> {8, 9, 10, 12, 13}" | "32 \<le> ?n" "?n \<noteq> 34" "?n \<noteq> 92" by fastforce
  then show ?thesis
  proof cases
    case 1
    have eq: "?n = of_char d \<Longrightarrow> c = d" for d by simp
    from 1 consider "?n = 34" | "?n = 92" | "?n = 8" | "?n = 9" | "?n = 10" | "?n = 12" | "?n = 13" by auto
    then show ?thesis
    proof cases
      case 1
      then have "c = CHR 0x22" by (intro eq) simp
      then show ?thesis by (simp add: json_escape_def Let_def json_chars.simps simple_escape_def)
    next
      case 2
      then have "c = CHR 0x5C" by (intro eq) simp
      then show ?thesis by (simp add: json_escape_def Let_def json_chars.simps simple_escape_def)
    next
      case 3
      then have "c = CHR 0x08" by (intro eq) simp
      then show ?thesis by (simp add: json_escape_def Let_def json_chars.simps simple_escape_def)
    next
      case 4
      then have "c = CHR 0x09" by (intro eq) simp
      then show ?thesis by (simp add: json_escape_def Let_def json_chars.simps simple_escape_def)
    next
      case 5
      then have "c = CHR 0x0A" by (intro eq) simp
      then show ?thesis by (simp add: json_escape_def Let_def json_chars.simps simple_escape_def)
    next
      case 6
      then have "c = CHR 0x0C" by (intro eq) simp
      then show ?thesis by (simp add: json_escape_def Let_def json_chars.simps simple_escape_def)
    next
      case 7
      then have "c = CHR 0x0D" by (intro eq) simp
      then show ?thesis by (simp add: json_escape_def Let_def json_chars.simps simple_escape_def)
    qed
  next
    case 2
    have h: "hex_digit_val (hex_digit (?n div 16)) = Some (?n div 16)" "hex_digit_val (hex_digit (?n mod 16)) = Some (?n mod 16)"
      using 2(1) by (simp_all add: hex_digit_val_hex_digit)
    have z: "hex_digit_val (CHR ''0'') = Some 0" by code_simp
    have "json_escape c = CHR 0x5C # ''u00'' @ [hex_digit (?n div 16), hex_digit (?n mod 16)]" using 2 by (simp add: json_escape_def Let_def)
    moreover have "hex4 (CHR ''0'') (CHR ''0'') (hex_digit (?n div 16)) (hex_digit (?n mod 16)) = Some ?n" by (simp add: hex4_def h z)
    ultimately show ?thesis using 2(1) by (simp add: json_chars.simps)
  next
    case 3
    then have "json_escape c = [c]" by (auto simp: json_escape_def Let_def)
    moreover have "c \<noteq> CHR 0x22" "c \<noteq> CHR 0x5C" using 3 by auto
    ultimately show ?thesis using 3(1) by (simp add: json_chars.simps)
  qed
qed

lemma json_chars_string: "json_chars (concat (map json_escape s) @ CHR 0x22 # t) = Some (s, t)"
proof (induction s)
  case Nil
  then show ?case by (simp add: json_chars.simps)
next
  case (Cons c s)
  then show ?case by (simp add: json_chars_escape)
qed

lemma json_string_parts: "starts_with [CHR 0x22] (json_string s @ t)" "tl (json_string s @ t) = concat (map json_escape s) @ CHR 0x22 # t"
  by (simp_all add: json_string_def starts_with_def)

lemma json_string_not_white [simp]: "dropWhile json_white (json_string s @ t) = json_string s @ t"
  by (simp add: json_string_def json_white_def)

lemma json_value_string: "json_value (Suc n) (json_string s @ t) = Some (JString s, t)"
  by (simp add: Let_def json_string_parts json_chars_string)

lemma json_white_simps [simp]: "\<not> json_white (CHR '':'')" "\<not> json_white (CHR '','')" "\<not> json_white (CHR ''}'')" "\<not> json_white (CHR ''{'')"
  "\<not> json_white (CHR ''1'')"
  by (simp_all add: json_white_def)

text \<open>A member whose value is a string, and how the list of members goes on.\<close>

lemma json_members_string:
  "json_members (Suc (Suc n)) ms (json_string k @ CHR '':'' # json_string x @ t) =
   (let u = dropWhile json_white t; ms2 = map_set k (JString x) ms
    in if starts_with '','' u then json_members (Suc n) ms2 (tl u) else if starts_with ''}'' u then Some (ms2, tl u) else None)"
proof -
  have "json_value (Suc n) (json_string x @ t) = Some (JString x, t)" by (rule json_value_string)
  then show ?thesis
    by (simp only: json_members.simps(2) [of "Suc n"] json_string_not_white json_string_parts json_chars_string Let_def if_True not_True_eq_False if_False
        option.case prod.case) (simp add: starts_with_def Let_def)
qed

lemma json_one: "json_value (Suc n) (CHR ''1'' # CHR '','' # t) = Some (JNumber (Finite 1), CHR '','' # t)"
proof -
  have "json_number (CHR ''1'' # CHR '','' # t) = Some (Finite 1, CHR '','' # t)"
    by (simp add: json_number_def starts_with_def Let_def is_digit_def digits_val_def digit_val_def)
  then show ?thesis by (simp add: Let_def starts_with_def)
qed

lemma json_members_one:
  "json_members (Suc (Suc n)) ms (json_string k @ CHR '':'' # CHR ''1'' # CHR '','' # t) = json_members (Suc n) (map_set k (JNumber (Finite 1)) ms) t"
proof -
  have "json_value (Suc n) (CHR ''1'' # CHR '','' # t) = Some (JNumber (Finite 1), CHR '','' # t)" by (rule json_one)
  then show ?thesis
    by (simp only: json_members.simps(2) [of "Suc n"] json_string_not_white json_string_parts json_chars_string Let_def if_True not_True_eq_False if_False
        option.case prod.case) (simp add: starts_with_def Let_def)
qed

lemma cursor_text_parses:
  "JSON_parse (json_object [(''v'', Some ''1''), (''lastId'', Some (json_string i)), (''scope'', Some (json_string x))]) =
   Some (JObject [(''v'', JNumber (Finite 1)), (''lastId'', JString i), (''scope'', JString x)])"
proof -
  let ?t = "json_string ''v'' @ CHR '':'' # CHR ''1'' # CHR '','' # json_string ''lastId'' @ CHR '':'' # json_string i @ CHR '','' #
      json_string ''scope'' @ CHR '':'' # json_string x @ ''}''"
  have o: "json_object [(''v'', Some ''1''), (''lastId'', Some (json_string i)), (''scope'', Some (json_string x))] = CHR ''{'' # ?t"
    by (simp add: json_object_def)
  have m: "json_members (Suc (Suc (Suc (Suc n)))) [] ?t = Some ([(''v'', JNumber (Finite 1)), (''lastId'', JString i), (''scope'', JString x)], [])" for n
    unfolding json_members_one json_members_string by (simp add: Let_def starts_with_def json_members_string del: json_members.simps)
  have "4 \<le> length ?t" by simp
  then obtain n where "length ?t = 4 + n" using le_Suc_ex by blast
  then have n: "length ?t = Suc (Suc (Suc (Suc n)))" by simp
  have "starts_with ''{'' (CHR ''{'' # ?t)" "\<not> starts_with [CHR 0x22] (CHR ''{'' # ?t)" by (simp_all add: starts_with_def)
  moreover have "\<not> starts_with ''}'' ?t" by (simp add: starts_with_def json_string_def)
  moreover have l: "length (CHR ''{'' # ?t) + 1 = Suc (Suc (Suc (Suc (Suc (Suc n)))))" using n by simp
  ultimately have "json_value (length (CHR ''{'' # ?t) + 1) (CHR ''{'' # ?t) =
      Some (JObject [(''v'', JNumber (Finite 1)), (''lastId'', JString i), (''scope'', JString x)], [])"
    unfolding l using m [of "Suc n"] by (simp add: Let_def del: json_members.simps)
  then show ?thesis unfolding JSON_parse_def o by simp
qed

lemma of_char_small: "of_char c < (256::nat)"
  using of_char_mod_256 [of c] by (metis mod_less_divisor zero_less_numeral)

lemma utf8_roundtrip: "utf8_text (utf8_bytes s) = Some s"
proof (induction s)
  case (Cons c s)
  let ?n = "of_char c :: nat"
  show ?case
  proof (cases "?n < 128")
    case False
    then have d: "?n div 64 = 2 \<or> ?n div 64 = 3" using of_char_small [of c] by linarith
    have "?n div 64 * 64 + ?n mod 64 = ?n" by simp
    then have "char_of ((192 + ?n div 64 - 192) * 64 + (128 + ?n mod 64 - 128)) = c" by simp
    moreover have "192 + ?n div 64 = 194 \<or> 192 + ?n div 64 = 195" "\<not> 192 + ?n div 64 < 128" "128 + ?n mod 64 < 192" using d by auto
    ultimately show ?thesis using Cons False by (simp add: Let_def)
  qed (use Cons in \<open>simp add: Let_def\<close>)
qed simp

lemma utf8_bytes_small: "b \<in> set (utf8_bytes s) \<Longrightarrow> b < 256"
proof (induction s)
  case (Cons c s)
  have "(of_char c :: nat) div 64 < 4" "(of_char c :: nat) mod 64 < 64" using of_char_small [of c] by (auto simp: less_mult_imp_div_less)
  then show ?case using Cons by (auto simp: Let_def split: if_splits)
qed simp

lemma b64_inverse: "n < 64 \<Longrightarrow> b64_val (b64_char n) = Some n \<and> b64_char n \<noteq> CHR ''=''"
proof -
  have "list_all (\<lambda>n. b64_val (b64_char n) = Some n \<and> b64_char n \<noteq> CHR ''='') [0..<64]" by code_simp
  then show "n < 64 \<Longrightarrow> b64_val (b64_char n) = Some n \<and> b64_char n \<noteq> CHR ''=''" by (simp add: list_all_iff)
qed

lemma sextet_bounds: "x < 4 \<Longrightarrow> y < 16 \<Longrightarrow> x * 16 + y < (64::nat)" "x < 16 \<Longrightarrow> y < 4 \<Longrightarrow> x * 4 + y < (64::nat)"
  by simp_all

lemma octets_sextets: "\<forall>b\<in>set bs. b < 256 \<Longrightarrow> octets (sextets bs) = bs \<and> (\<forall>n\<in>set (sextets bs). n < 64)"
proof (induction bs rule: sextets.induct)
  case (1 a b c bs)
  have l: "a < 256" "b < 256" "c < 256" using "1.prems" by simp_all
  then have q: "a div 4 < 64" "b div 16 < 16" "c div 64 < 4" by (simp_all add: less_mult_imp_div_less)
  have m: "a mod 4 < 4" "b mod 16 < 16" "c mod 64 < 64" by simp_all
  have "((a mod 4) * 16 + b div 16) div 16 = a mod 4" "((a mod 4) * 16 + b div 16) mod 16 = b div 16"
    "((b mod 16) * 4 + c div 64) div 4 = b mod 16" "((b mod 16) * 4 + c div 64) mod 4 = c div 64" using q by simp_all
  moreover have bounds: "(a mod 4) * 16 + b div 16 < 64" "(b mod 16) * 4 + c div 64 < 64" by (rule sextet_bounds, fact, fact)+
  moreover have "a div 4 * 4 + a mod 4 = a" "b div 16 * 16 + b mod 16 = b" "c div 64 * 64 + c mod 64 = c" by simp_all
  ultimately show ?case using 1 q m by (simp add: bounds)
next
  case (2 a b)
  then have q: "a div 4 < 64" "b div 16 < 16" by (simp_all add: less_mult_imp_div_less)
  have m: "a mod 4 < 4" "b mod 16 < 16" by simp_all
  have "((a mod 4) * 16 + b div 16) div 16 = a mod 4" "((a mod 4) * 16 + b div 16) mod 16 = b div 16" using q by simp_all
  moreover have "(a mod 4) * 16 + b div 16 < 64" "(b mod 16) * 4 + 0 < 64" using q(2) m by (intro sextet_bounds; simp)+
  moreover have "a div 4 * 4 + a mod 4 = a" "b div 16 * 16 + b mod 16 = b" by simp_all
  ultimately show ?case using q m by simp
next
  case (3 a)
  then have q: "a div 4 < 64" by (simp add: less_mult_imp_div_less)
  have "a mod 4 < 4" by simp
  then have "(a mod 4) * 16 < 64" by linarith
  moreover have "a div 4 * 4 + a mod 4 = a" by simp
  ultimately show ?case using q by simp
qed simp

lemma base64_roundtrip:
  assumes "\<forall>b\<in>set bs. b < 256"
  shows "from_base64url (base64url bs) = bs"
proof -
  note o = octets_sextets [OF assms]
  have "\<forall>n\<in>set ns. n < 64 \<Longrightarrow> List.map_filter b64_val (takeWhile (\<lambda>c. c \<noteq> CHR ''='') (map b64_char ns)) = ns" for ns
    by (induction ns) (use b64_inverse in \<open>simp_all add: List.map_filter_simps\<close>)
  then show ?thesis using o by (simp add: from_base64url_def base64url_def)
qed

lemma decode_encode:
  "decodeCursor (encodeCursor i scope) =
     (if js_trim i = [] \<or> CURSOR_LAST_ID_MAX_LENGTH < length i \<or> CURSOR_SCOPE_MAX_LENGTH < length scope then Inl INVALID_CURSOR_MESSAGE
      else Inr \<lparr>oc_lastId = i, oc_scope = Some scope\<rparr>)"
proof -
  let ?t = "json_object [(''v'', Some ''1''), (''lastId'', Some (json_string i)), (''scope'', Some (json_string scope))]"
  have "from_base64url (encodeCursor i scope) = utf8_bytes ?t"
    unfolding encodeCursor_def by (rule base64_roundtrip) (use utf8_bytes_small in blast)
  then have "Option.bind (utf8_text (from_base64url (encodeCursor i scope))) JSON_parse =
      Some (JObject [(''v'', JNumber (Finite 1)), (''lastId'', JString i), (''scope'', JString scope)])"
    by (simp add: utf8_roundtrip cursor_text_parses)
  then show ?thesis by (simp add: decodeCursor_def)
qed

lemma encodeCursor_not_blank: "js_trim (encodeCursor i scope) \<noteq> []"
proof
  assume "js_trim (encodeCursor i scope) = []"
  then have blank: "\<forall>c\<in>set (encodeCursor i scope). is_space c" by (simp add: js_trim_def dropWhile_eq_Nil_conv) (metis set_dropWhileD set_takeWhileD takeWhile_dropWhile_id Un_iff set_append)
  have "char_of (101 :: nat) = CHR ''e''" by code_simp
  then have "encodeCursor i scope = CHR ''e'' # tl (encodeCursor i scope)"
    by (simp add: encodeCursor_def json_object_def join_def json_string_def base64url_def b64_char_def json_escape_def Let_def)
  then have "CHR ''e'' \<in> set (encodeCursor i scope)" by (metis list.set_intros(1))
  with blank have "is_space (CHR ''e'')" by blast
  then show False by (simp add: is_space_def)
qed

text \<open>A cursor that the server issues is accepted by the parameter parser and gives back the identifier and the scope it was issued for, exactly when the
  identifier is not blank and neither exceeds its bound; otherwise the server refuses its own token.\<close>

theorem cursor_roundtrip:
  "parseCursorParam (JString (encodeCursor i scope)) =
     (if js_trim i = [] \<or> CURSOR_LAST_ID_MAX_LENGTH < length i \<or> CURSOR_SCOPE_MAX_LENGTH < length scope then Inl INVALID_CURSOR_MESSAGE
      else Inr (Some \<lparr>oc_lastId = i, oc_scope = Some scope\<rparr>))"
  by (simp add: parseCursorParam_def encodeCursor_not_blank decode_encode)

lemma cursor_example: "encodeCursor ''a'' ''b'' = ''eyJ2IjoxLCJsYXN0SWQiOiJhIiwic2NvcGUiOiJiIn0''"
  by code_simp

end
