(* ===== verification/Stream_Api.thy ===== *)
theory Stream_Api
  imports Stream_Wire Idempotency
begin

text \<open>
  The HTTP handlers of the streams, \<open>src/routes/streams/read.ts\<close> and \<open>src/routes/streams/write.ts\<close>, over the store (\<open>Stream_Store\<close>, through
  \<open>src/db/repositories/streamApiQueries.ts\<close>), the cursors, the idempotency store and the middleware in front of each route.

  A handler takes the surroundings of its call (\<open>stream_env\<close>: keys, health of its dependencies, clock) and what its reads see, and returns the
  answer and the new state. The handler of a creation is split where it awaits: the look-up of the idempotency key, the insertion and the
  recording of the response.

  The lemmas: a scoped caller is only given its own streams and only cancels its own; following \<open>next_cursor\<close> is the traversal of the
  store, and a cursor is refused under another query; an export is the traversal page by page; the same creation sent again is
  answered by a replay. Four show where the routes fall short: the lists are never scoped, a status is changed without any credential,
  a retry without a start time is refused, and two concurrent requests with one key both create.
\<close>

record stream_env =
  se_hash :: "string \<Rightarrow> string \<Rightarrow> string"
  se_keys :: "repo_error + PgcryptoKeySet"
  se_exhausted :: bool
  se_listing_healthy :: bool
  se_idempotency_healthy :: bool
  se_sha :: "string \<Rightarrow> string"
  se_now :: millis

section \<open>Queries\<close>

definition EXPORT_PAGE_SIZE :: nat where "EXPORT_PAGE_SIZE = 100"
definition API_CREATED_CONTRACT_ID :: string where "API_CREATED_CONTRACT_ID = ''api-created''"

definition buildStreamFilter :: "ApiStreamStatus option \<Rightarrow> string option \<Rightarrow> string option \<Rightarrow> StreamFilter" where
  "buildStreamFilter status sender recipient =
     no_filter\<lparr>sf_status := status, sf_sender_address := sender, sf_recipient_address := recipient\<rparr>"

definition listStreams ::
  "(string \<Rightarrow> 'k::linorder) \<Rightarrow> stream_env \<Rightarrow> pool \<Rightarrow> StreamFilter \<Rightarrow> nat \<Rightarrow> string option \<Rightarrow> bool \<Rightarrow> repo_error + cursor_page" where
  "listStreams coll env p f limit afterId includeTotal =
     findWithCursor coll (se_hash env) (se_keys env) p f (Finite (of_nat limit)) afterId includeTotal"

definition fetchExportPage :: "(string \<Rightarrow> 'k::linorder) \<Rightarrow> stream_env \<Rightarrow> pool \<Rightarrow> string option \<Rightarrow> repo_error + cursor_page" where
  "fetchExportPage coll env p afterId = listStreams coll env p no_filter EXPORT_PAGE_SIZE afterId False"

definition input_text :: "ApiCreateStreamInput \<Rightarrow> string" where
  "input_text i =
     json_object [(''sender'', Some (json_string (ai_sender i))), (''recipient'', Some (json_string (ai_recipient i))),
       (''depositAmount'', Some (json_string (ai_depositAmount i))), (''ratePerSecond'', Some (json_string (ai_ratePerSecond i))),
       (''startTime'', Some (json_int (ai_startTime i))), (''endTime'', Some (json_int (ai_endTime i)))]"

definition api_row :: "(string \<Rightarrow> string) \<Rightarrow> ApiCreateStreamInput \<Rightarrow> CreateStreamInput" where
  "api_row sha i =
     (let idHash = sha (input_text i)
      in \<lparr>ci_id = ''stream-'' @ idHash @ ''-0'', ci_sender_address = ai_sender i, ci_recipient_address = ai_recipient i,
          ci_amount = ai_depositAmount i, ci_streamed_amount = ''0'', ci_remaining_amount = ai_depositAmount i,
          ci_rate_per_second = ai_ratePerSecond i, ci_start_time = ai_startTime i, ci_end_time = ai_endTime i,
          ci_contract_id = API_CREATED_CONTRACT_ID, ci_transaction_hash = idHash, ci_event_index = 0\<rparr>)"

definition createStreamFromApi ::
  "stream_env \<Rightarrow> bool \<Rightarrow> ApiCreateStreamInput \<Rightarrow> stream_row list \<Rightarrow> (repo_error + bool \<times> StreamRecord) \<times> stream_row list" where
  "createStreamFromApi env insert_ok input rows =
     upsertStream (se_hash env) (se_keys env) insert_ok (Some rows) (Some rows) (se_now env) (api_row (se_sha env) input) rows"

section \<open>Reading\<close>

definition listStreamsHandler ::
  "(string \<Rightarrow> 'k::linorder) \<Rightarrow> stream_env \<Rightarrow> pool \<Rightarrow> bool \<Rightarrow> string option \<Rightarrow> (string \<times> jsval) list \<Rightarrow> api_error + StreamListPage \<times> string" where
  "listStreamsHandler coll env p enhanced callerAddress query =
     (case PaginationSchema query of
        None \<Rightarrow> Inl Schema_refused
      | Some q \<Rightarrow>
          (case parseCursorParam (case pq_cursor q of None \<Rightarrow> JUndefined | Some c \<Rightarrow> JString c) of
             Inl m \<Rightarrow> Inl (Validation_error m)
           | Inr cursor \<Rightarrow>
               let cursorScope = streamCursorScope (pq_status q) (pq_sender q) (pq_recipient q) callerAddress
               in if (case Option.bind cursor oc_scope of None \<Rightarrow> False | Some s \<Rightarrow> s \<noteq> cursorScope)
                  then Inl (Validation_error ''cursor does not match the requested tenant, filters, or sort order'')
                  else if \<not> se_listing_healthy env
                  then Inl (Service_unavailable ''Stream list is temporarily unavailable. Retry when dependency health is restored.'')
                  else (case assertCallerMayList callerAddress (pq_sender q) (pq_recipient q) of
                          Some e \<Rightarrow> Inl e
                        | None \<Rightarrow>
                            (case withDbErrors (se_exhausted env)
                                (listStreams coll env p (buildStreamFilter (pq_status q) (pq_sender q) (pq_recipient q)) (pq_limit q)
                                  (map_option oc_lastId cursor) (pq_include_total q)) of
                               Inl e \<Rightarrow> Inl e
                             | Inr page \<Rightarrow>
                                 let body = toStreamListPage page cursorScope (pq_include_total q)
                                 in Inr (if enhanced then body\<lparr>sl_enhanced := True\<rparr> else body,
                                         streamCacheControl (map st_status (sl_streams body)))))))"

text \<open>The walk of an export: each visit says whether the client has gone and what the pool holds.\<close>

definition MAX_EXPORT_PAGES :: nat where "MAX_EXPORT_PAGES = 1000"

datatype export_outcome = Export_ended | Export_failed api_error | Export_waiting

fun export_walk ::
  "(string \<Rightarrow> 'k::linorder) \<Rightarrow> stream_env \<Rightarrow> nat \<Rightarrow> string option \<Rightarrow> (bool \<times> pool) list \<Rightarrow> string list \<times> export_outcome" where
  "export_walk coll env 0 afterId visits = ([], Export_ended)"
| "export_walk coll env (Suc n) afterId [] = ([], Export_waiting)"
| "export_walk coll env (Suc n) afterId ((gone, p) # visits) =
     (if gone then ([], Export_ended)
      else case withDbErrors (se_exhausted env) (fetchExportPage coll env p afterId) of
             Inl e \<Rightarrow> ([], Export_failed e)
           | Inr page \<Rightarrow>
               let ls = toExportNdjsonLines (cp_streams page);
                   after = (if cp_streams page = [] then afterId else Some (sr_id (last (cp_streams page))))
               in if \<not> cp_hasMore page then (ls, Export_ended)
                  else case export_walk coll env n after visits of (rest, out) \<Rightarrow> (ls @ rest, out))"

definition exportStreamsHandler ::
  "(string \<Rightarrow> 'k::linorder) \<Rightarrow> stream_env \<Rightarrow> string option \<Rightarrow> jsval \<Rightarrow> (bool \<times> pool) list \<Rightarrow> api_error + string list \<times> export_outcome" where
  "exportStreamsHandler coll env callerAddress resumeFrom visits =
     (case (case resumeFrom of JUndefined \<Rightarrow> Inr None | JString s \<Rightarrow> if s = [] then Inr None else parseCursorParam (JString s)
            | _ \<Rightarrow> Inl ''resume_from must be a single valid opaque pagination token'') of
        Inl m \<Rightarrow> Inl (Validation_error m)
      | Inr cursor \<Rightarrow>
          if present callerAddress then Inl (Forbidden ''Scoped users are not authorized to use the full export endpoint'')
          else Inr (export_walk coll env MAX_EXPORT_PAGES (map_option oc_lastId cursor) visits))"

datatype head_reply = Head_status nat | Head_found string millis | Head_error repo_error

definition headStreamHandler :: "stream_env \<Rightarrow> (string \<Rightarrow> string) \<Rightarrow> (millis \<Rightarrow> string) \<Rightarrow> pool \<Rightarrow> string \<Rightarrow> head_reply" where
  "headStreamHandler env fingerprint text p i =
     (if i = [] then Head_status 404
      else case existsById p i of
             Inl e \<Rightarrow> if e = Db_error \<and> se_exhausted env then Head_status 503 else Head_error e
           | Inr None \<Rightarrow> Head_status 404
           | Inr (Some updated) \<Rightarrow> Head_found (weakEntityTag fingerprint i (text updated)) updated)"

datatype get_reply = Not_modified string | Stream_reply Stream string string

definition getStreamHandler ::
  "stream_env \<Rightarrow> (string \<Rightarrow> string) \<Rightarrow> (millis \<Rightarrow> string) \<Rightarrow> pool \<Rightarrow> string list \<Rightarrow> string \<Rightarrow> api_error + get_reply" where
  "getStreamHandler env fingerprint text p ifNoneMatch i =
     (if i = [] then Inl (Not_found_error [])
      else case withDbErrors (se_exhausted env) (getById (se_keys env) p i) of
             Inl e \<Rightarrow> Inl e
           | Inr None \<Rightarrow> Inl (Not_found_error i)
           | Inr (Some record) \<Rightarrow>
               let etag = weakEntityTag fingerprint (sr_id record) (text (sr_updated_at record))
               in if respondNotModified fingerprint ifNoneMatch (sr_id record) (text (sr_updated_at record)) then Inr (Not_modified etag)
                  else Inr (Stream_reply (toApiStream record) etag (streamCacheControl [sr_status record])))"

section \<open>Writing\<close>

definition stream_value :: "Stream \<Rightarrow> json" where
  "stream_value s =
     JsonObject [(''id'', JsonString (st_id s)), (''sender'', JsonString (st_sender s)), (''recipient'', JsonString (st_recipient s)),
       (''depositAmount'', JsonString (st_depositAmount s)), (''streamedAmount'', JsonString (st_streamedAmount s)),
       (''remainingAmount'', JsonString (st_remainingAmount s)), (''ratePerSecond'', JsonString (st_ratePerSecond s)),
       (''startTime'', JsonNumber (of_int (st_startTime s))), (''endTime'', JsonNumber (of_int (st_endTime s))),
       (''status'', JsonString (api_name (st_status s)))]"

definition response_meta :: "string \<Rightarrow> string option \<Rightarrow> (string \<times> json) list" where
  "response_meta timestamp requestId =
     (''timestamp'', JsonString timestamp) # (if present requestId then [(''requestId'', JsonString (the requestId))] else [])"

definition successResponse :: "string \<Rightarrow> string option \<Rightarrow> json \<Rightarrow> json" where
  "successResponse timestamp requestId d =
     JsonObject [(''success'', JsonBool True), (''data'', d), (''meta'', JsonObject (response_meta timestamp requestId))]"

definition idempotentReplayResponse :: "string \<Rightarrow> string option \<Rightarrow> json \<Rightarrow> json" where
  "idempotentReplayResponse timestamp requestId d =
     JsonObject [(''success'', JsonBool True), (''data'', d),
       (''meta'', JsonObject (response_meta timestamp requestId @ [(''idempotencyReplayed'', JsonBool True)]))]"

text \<open>The normalised input as the value that is fingerprinted.\<close>

definition input_value :: "ApiCreateStreamInput \<Rightarrow> json" where
  "input_value i =
     JsonObject [(''sender'', JsonString (ai_sender i)), (''recipient'', JsonString (ai_recipient i)),
       (''depositAmount'', JsonString (ai_depositAmount i)), (''ratePerSecond'', JsonString (ai_ratePerSecond i)),
       (''startTime'', JsonNumber (of_int (ai_startTime i))), (''endTime'', JsonNumber (of_int (ai_endTime i)))]"

definition fingerprintInput :: "(string \<Rightarrow> string) \<Rightarrow> ApiCreateStreamInput \<Rightarrow> string" where
  "fingerprintInput sha i = sha (canonicalizeBody (\<lambda>x. show_int \<lfloor>x\<rfloor>) (input_value i))"

record create_request =
  cr_key :: jsval
  cr_principal :: principal
  cr_body :: "(string \<times> jsval) list"
  cr_requestId :: "string option"

datatype create_reply =
  Created Stream json
| Replayed rat json
| Refused api_error
| Bad_key KeyError

text \<open>\<open>req.callerAddress ?? req.keyId ?? req.user?.address ?? 'anonymous'\<close>\<close>

definition tenant_of :: "principal \<Rightarrow> string" where
  "tenant_of p =
     (case pr_callerAddress p of
        Some a \<Rightarrow> a
      | None \<Rightarrow> (case pr_keyId p of Some k \<Rightarrow> k | None \<Rightarrow> nullish (Option.bind (pr_user p) cl_address) ''anonymous''))"

text \<open>Up to the first \<open>await\<close>: the key, the health of the idempotency store, the input.\<close>

definition create_check :: "stream_env \<Rightarrow> create_request \<Rightarrow> create_reply + string \<times> ApiCreateStreamInput" where
  "create_check env req =
     (case parseIdempotencyKeyHeader (cr_key req) of
        Inl e \<Rightarrow> Inl (Bad_key e)
      | Inr key \<Rightarrow>
          if \<not> se_idempotency_healthy env
          then Inl (Refused (Service_unavailable ''Idempotency processing is temporarily unavailable. Retry after dependency health is restored.''))
          else case normalizeCreateInput (se_now env) (cr_body req) of Inl e \<Rightarrow> Inl (Refused e) | Inr input \<Rightarrow> Inr (key, input))"

text \<open>The look-up; \<open>None\<close>: go on.\<close>

definition create_lookup ::
  "'s idem_ops \<Rightarrow> stream_env \<Rightarrow> string \<Rightarrow> create_request \<Rightarrow> string \<Rightarrow> ApiCreateStreamInput \<Rightarrow> 's \<Rightarrow> create_reply option \<times> 's" where
  "create_lookup ops env timestamp req key input s =
     (case io_get ops s key (tenant_of (cr_principal req)) (se_now env) of
        None \<Rightarrow> (Some (Refused Internal_error), s)
      | Some (In_progress, s1) \<Rightarrow> (Some (Refused (Conflict_error ''An identical request is already being processed'')), s1)
      | Some (Absent, s1) \<Rightarrow> (None, s1)
      | Some (Found entry, s1) \<Rightarrow>
          (if ie_requestFingerprint entry \<noteq> fingerprintInput (se_sha env) input
           then Some (Refused (Conflict_error ''Idempotency-Key has already been used for a different request payload''))
           else case json_get (ie_body entry) ''data'' of
                  None \<Rightarrow> Some (Refused Internal_error)
                | Some d \<Rightarrow> Some (Replayed (ie_statusCode entry) (idempotentReplayResponse timestamp (cr_requestId req) d)), s1))"

definition create_record ::
  "'s idem_ops \<Rightarrow> stream_env \<Rightarrow> int \<Rightarrow> string \<Rightarrow> create_request \<Rightarrow> string \<Rightarrow> ApiCreateStreamInput \<Rightarrow> StreamRecord \<Rightarrow> 's \<Rightarrow> create_reply \<times> 's" where
  "create_record ops env ttl timestamp req key input created s =
     (let stream = toApiStream created;
          body = successResponse timestamp (cr_requestId req) (stream_value stream)
      in case io_set ops s key (tenant_of (cr_principal req))
                \<lparr>ie_version = ENVELOPE_VERSION, ie_requestFingerprint = fingerprintInput (se_sha env) input, ie_statusCode = 201, ie_body = body\<rparr>
                ttl (se_now env) of
           None \<Rightarrow> (Refused Internal_error, s)
         | Some s1 \<Rightarrow> (Created stream body, s1))"

definition createStreamHandler ::
  "'s idem_ops \<Rightarrow> stream_env \<Rightarrow> bool \<Rightarrow> int \<Rightarrow> string \<Rightarrow> create_request \<Rightarrow> 's \<times> stream_row list \<Rightarrow> create_reply \<times> 's \<times> stream_row list" where
  "createStreamHandler ops env insert_ok ttl timestamp req st =
     (case create_check env req of
        Inl r \<Rightarrow> (r, st)
      | Inr (key, input) \<Rightarrow>
          (case create_lookup ops env timestamp req key input (fst st) of
             (Some r, s1) \<Rightarrow> (r, s1, snd st)
           | (None, s1) \<Rightarrow>
               (case createStreamFromApi env insert_ok input (snd st) of
                  (Inl e, rows) \<Rightarrow> (Refused (rethrowDbError (se_exhausted env) e), s1, rows)
                | (Inr (_, created), rows) \<Rightarrow>
                    (case create_record ops env ttl timestamp req key input created s1 of (r, s2) \<Rightarrow> (r, s2, rows)))))"

definition status_update :: "ApiStreamStatus \<Rightarrow> UpdateStreamInput" where
  "status_update s = \<lparr>ui_status = Some s, ui_streamed_amount = None, ui_remaining_amount = None, ui_end_time = None\<rparr>"

text \<open>\<open>seen\<close> is what the read of the handler sees; the update reads and writes the primary.\<close>

definition change_status ::
  "stream_env \<Rightarrow> (bool \<times> bool \<times> bool) \<Rightarrow> string \<Rightarrow> ApiStreamStatus \<Rightarrow> ApiStreamStatus \<Rightarrow> stream_row list \<Rightarrow> (api_error + StreamRecord) \<times> stream_row list" where
  "change_status env oks i current requested rows =
     (case assertApiTransition current requested of
        Some e \<Rightarrow> (Inl e, rows)
      | None \<Rightarrow>
          (case updateStream (se_keys env) (fst oks) (fst (snd oks)) (snd (snd oks)) (se_now env) i (status_update requested) rows of
             (r, rows') \<Rightarrow> (withStatusConflicts (se_exhausted env) r, rows')))"

definition cancelStreamHandler ::
  "stream_env \<Rightarrow> (bool \<times> bool \<times> bool) \<Rightarrow> pool \<Rightarrow> string option \<Rightarrow> string \<Rightarrow> stream_row list \<Rightarrow> (api_error + string) \<times> stream_row list" where
  "cancelStreamHandler env oks seen callerAddress i rows =
     (if i = [] then (Inl (Not_found_error []), rows)
      else case withDbErrors (se_exhausted env) (getById (se_keys env) seen i) of
             Inl e \<Rightarrow> (Inl e, rows)
           | Inr None \<Rightarrow> (Inl (Not_found_error i), rows)
           | Inr (Some record) \<Rightarrow>
               if present callerAddress \<and> Some (sr_sender_address record) \<noteq> callerAddress then (Inl (Not_found_error i), rows)
               else (case change_status env oks i (sr_status record) Api_cancelled rows of (r, rows') \<Rightarrow> (map_sum id (\<lambda>_. i) r, rows')))"

definition updateStreamStatusHandler ::
  "stream_env \<Rightarrow> (bool \<times> bool \<times> bool) \<Rightarrow> pool \<Rightarrow> string \<Rightarrow> jsval \<Rightarrow> stream_row list \<Rightarrow> (api_error + Stream) \<times> stream_row list" where
  "updateStreamStatusHandler env oks seen i newStatus rows =
     (if i = [] then (Inl (Not_found_error []), rows)
      else case api_of_value newStatus of
             None \<Rightarrow> (Inl (Validation_error ''status must be one of: active, paused, completed, cancelled''), rows)
           | Some requested \<Rightarrow>
               (case withDbErrors (se_exhausted env) (getById (se_keys env) seen i) of
                  Inl e \<Rightarrow> (Inl e, rows)
                | Inr None \<Rightarrow> (Inl (Not_found_error i), rows)
                | Inr (Some record) \<Rightarrow>
                    (case change_status env oks i (sr_status record) requested rows of (r, rows') \<Rightarrow> (map_sum id toApiStream r, rows'))))"

section \<open>Routes\<close>

record http_context =
  hc_auth :: auth_env
  hc_revocations :: revocations
  hc_hmac :: "string \<Rightarrow> string \<Rightarrow> string \<Rightarrow> string"
  hc_key_config :: key_config
  hc_keys :: "ApiKeyRecord list"
  hc_authorization :: "string option"
  hc_apiKey :: "string option"

definition api_key_step :: "http_context \<Rightarrow> principal \<Rightarrow> middleware_result" where
  "api_key_step h req = fst (authenticateApiKey (hc_hmac h) (hc_key_config h) True True (hc_apiKey h) (hc_keys h) req)"

definition jwt_step :: "http_context \<Rightarrow> principal \<Rightarrow> middleware_result" where
  "jwt_step h = authenticate (hc_auth h) (hc_revocations h) (hc_authorization h)"

datatype stream_route = List_streams | Export_streams | Head_stream | Get_stream | Create_stream | Cancel_stream | Set_status

fun route_middleware :: "stream_route \<Rightarrow> http_context \<Rightarrow> (principal \<Rightarrow> middleware_result) list" where
  "route_middleware List_streams h = [api_key_step h, requireScope [''streams:read''], enforceStreamScope]"
| "route_middleware Export_streams h = [api_key_step h, requireScope [''streams:read''], enforceStreamScope]"
| "route_middleware Head_stream h = []"
| "route_middleware Get_stream h = [api_key_step h, requireScope [''streams:read'']]"
| "route_middleware Create_stream h = [jwt_step h, requireAuth, api_key_step h, requireScope [''streams:write'']]"
| "route_middleware Cancel_stream h = [jwt_step h, requireAuth, api_key_step h, requireScope [''streams:write''], enforceStreamScope]"
| "route_middleware Set_status h = []"

definition run_route :: "stream_route \<Rightarrow> http_context \<Rightarrow> middleware_result" where
  "run_route r h = chain (route_middleware r h) anonymous"

section \<open>Who may do what\<close>

lemma api_key_step_cases:
  assumes "api_key_step h req = Next req1"
  obtains "nullish (hc_apiKey h) [] = []" "req1 = req"
  | k sc where "nullish (hc_apiKey h) [] \<noteq> []" "req1 = req\<lparr>pr_keyScopes := Some sc, pr_keyId := Some k\<rparr>"
  using assms by (auto simp: api_key_step_def authenticateApiKey_def split: if_splits prod.splits sum.splits option.splits)

lemma jwt_step_cases:
  assumes "jwt_step h req = Next req1"
  shows "req1 = req \<or> (\<exists>u. req1 = req\<lparr>pr_user := Some u\<rparr>)"
  using assms by (auto simp: jwt_step_def authenticate_def auth_failed_def Let_def split: option.splits if_splits bool.splits)

lemma chain_Next: "chain (m # ms) req = Next r \<longleftrightarrow> (\<exists>req1. m req = Next req1 \<and> chain ms req1 = Next r)"
  by (simp split: middleware_result.splits)

lemma gate_keeps:
  "requireScope ss req = Next req1 \<Longrightarrow> req1 = req \<and> (pr_keyId req \<noteq> None \<or> pr_user req \<noteq> None)"
  "requireAuth req = Next req1 \<Longrightarrow> req1 = req \<and> pr_user req \<noteq> None"
  by (auto simp: requireScope_def requireAuth_def Let_def split: if_splits)

lemma enforceStreamScope_Next:
  "enforceStreamScope req = Next req1 \<Longrightarrow>
     (case pr_user req of None \<Rightarrow> req1 = req
      | Some u \<Rightarrow> if cl_role u = Some ''operator'' then req1 = req else req1 = req\<lparr>pr_callerAddress := cl_address u\<rparr> \<and> present (cl_address u))"
  by (auto simp: enforceStreamScope_def present_def split: option.splits if_splits)

definition demo_context :: http_context where
  "demo_context = \<lparr>hc_auth = demo_auth_env 5000, hc_revocations = [], hc_hmac = (\<lambda>pepper salt raw. replicate 64 (CHR ''b'')), hc_key_config = demo_key_config,
     hc_keys = demo_key_rows, hc_authorization = None, hc_apiKey = Some ''flx_oldold''\<rparr>"

lemma demo_context_passes: "\<exists>req. run_route List_streams demo_context = Next req"
proof -
  have "(case run_route List_streams demo_context of Next _ \<Rightarrow> True | Reject _ _ \<Rightarrow> False) = True" by code_simp
  then show ?thesis by (cases "run_route List_streams demo_context") simp_all
qed

text \<open>The lists are never scoped. The route of a list has no step that verifies a token, so a request that reaches the handler carries an API key and
  no user, \<open>enforceStreamScope\<close> leaves it as it is, and the guard of the handler accepts every filter: any key with the scope to
  read is given the streams of all tenants, whatever the \<open>Authorization\<close> header says.\<close>

theorem list_never_scoped:
  assumes "run_route List_streams h = Next req"
  shows "pr_keyId req \<noteq> None \<and> pr_user req = None \<and> pr_callerAddress req = None \<and>
     assertCallerMayList (pr_callerAddress req) sender recipient = None \<and>
     run_route List_streams (h\<lparr>hc_authorization := other\<rparr>) = Next req"
proof -
  have step: "api_key_step (h\<lparr>hc_authorization := other\<rparr>) = api_key_step h" by (simp add: api_key_step_def fun_eq_iff)
  obtain r1 r2 where r: "api_key_step h anonymous = Next r1" "requireScope [''streams:read''] r1 = Next r2" "enforceStreamScope r2 = Next req"
    using assms by (auto simp: run_route_def chain_Next simp del: chain.simps(2))
  have "pr_user r1 = None \<and> pr_callerAddress r1 = None" using r(1) by (rule api_key_step_cases) (simp_all add: anonymous_def)
  moreover have "r2 = r1" "pr_keyId r1 \<noteq> None \<or> pr_user r1 \<noteq> None" using gate_keeps(1) [OF r(2)] by simp_all
  ultimately have "req = r1" "pr_keyId req \<noteq> None" "pr_user req = None" "pr_callerAddress req = None"
    using enforceStreamScope_Next [OF r(3)] by simp_all
  then show ?thesis using assms step by (simp add: run_route_def assertCallerMayList_def present_def)
qed


theorem list_never_scoped_witness:
  "\<exists>req. run_route List_streams demo_context = Next req \<and> pr_callerAddress req = None \<and> assertCallerMayList (pr_callerAddress req) None None = None"
proof -
  obtain req where r: "run_route List_streams demo_context = Next req" using demo_context_passes by blast
  with list_never_scoped [OF this, of None None None] show ?thesis by blast
qed

lemma find_distinct: "distinct (map g xs) \<Longrightarrow> x \<in> set xs \<Longrightarrow> find (\<lambda>y. g y = g x) xs = Some x"
  by (induction xs) auto

definition with_status :: "stream_row \<Rightarrow> ApiStreamStatus \<Rightarrow> millis \<Rightarrow> stream_row list \<Rightarrow> stream_row list" where
  "with_status row s now rows = map (\<lambda>r. if r = row then r\<lparr>sr_status := s, sr_updated_at := now\<rparr> else r) rows"

lemma apply_status [simp]: "apply_update (status_update s) now r = r\<lparr>sr_status := s, sr_updated_at := now\<rparr>"
  by (simp add: apply_update_def status_update_def)

lemma ui_status_update [simp]: "ui_status (status_update s) = Some s"
  by (simp add: status_update_def)

lemma status_written:
  assumes "distinct (map sr_id rows)" "row \<in> set rows"
  shows "guarded_update (sr_id row) (sr_status row) (status_update to) now rows = with_status row to now rows"
proof -
  have "sr_id r = sr_id row \<and> sr_status r = sr_status row \<longleftrightarrow> r = row" if "r \<in> set rows" for r
    using assms that by (auto simp: distinct_map inj_on_def)
  then show ?thesis by (auto simp: guarded_update_def with_status_def)
qed

lemma change_status_found:
  assumes "se_keys env = Inr keys" "distinct (map sr_id rows)" "row \<in> set rows"
  shows "change_status env oks (sr_id row) (sr_status row) to rows = (r, rows') \<Longrightarrow>
     (r = Inr (rowToRecord (row\<lparr>sr_status := to, sr_updated_at := se_now env\<rparr>)) \<and> rows' = with_status row to (se_now env) rows \<and>
        isValidStatusTransition (sr_status row) to) \<or> ((\<exists>e. r = Inl e) \<and> rows' = rows)"
    "isValidStatusTransition (sr_status row) to \<Longrightarrow>
      change_status env (True, True, True) (sr_id row) (sr_status row) to rows =
        (Inr (rowToRecord (row\<lparr>sr_status := to, sr_updated_at := se_now env\<rparr>)), with_status row to (se_now env) rows)"
proof -
  have f: "find (\<lambda>r. sr_id r = sr_id row) rows = Some row" using assms(2,3) by (rule find_distinct)
  have "(\<lambda>r. sr_id r = sr_id row \<and> sr_status r = sr_status row) = (\<lambda>r. (sr_id r, sr_status r) = (sr_id row, sr_status row))" by auto
  then have g: "find (\<lambda>r. sr_id r = sr_id row \<and> sr_status r = sr_status row) rows = Some row"
    using find_distinct [of "\<lambda>r. (sr_id r, sr_status r)" rows row] assms(2,3) by (auto simp: distinct_map inj_on_def)
  have s: "sr_status (rowToRecord r) = sr_status r" for r by (simp add: rowToRecord_def StreamRecord.truncate_def)
  note defs = change_status_def updateStream_def update_read_def update_write_def getById_def assms(1) f g s withStatusConflicts_def withDbErrors_def
    status_written [OF assms(2,3)]
  show "(r = Inr (rowToRecord (row\<lparr>sr_status := to, sr_updated_at := se_now env\<rparr>)) \<and> rows' = with_status row to (se_now env) rows \<and>
        isValidStatusTransition (sr_status row) to) \<or> ((\<exists>e. r = Inl e) \<and> rows' = rows)"
    if "change_status env oks (sr_id row) (sr_status row) to rows = (r, rows')"
    using that assertApiTransition_None [of "sr_status row" to] by (auto simp: defs split: option.splits if_splits)
  show "change_status env (True, True, True) (sr_id row) (sr_status row) to rows =
        (Inr (rowToRecord (row\<lparr>sr_status := to, sr_updated_at := se_now env\<rparr>)), with_status row to (se_now env) rows)"
    if "isValidStatusTransition (sr_status row) to"
    using that by (simp add: defs assertApiTransition_None [THEN iffD2, OF that])
qed

text \<open>A status is changed without any credential: the route has no middleware, so a request with no header at all reaches the handler, which changes the
  status of every stream to each status that the state of the stream allows.\<close>

theorem set_status_open:
  assumes "se_keys env = Inr keys" and "distinct (map sr_id rows)" and "row \<in> set rows" and "sr_id row \<noteq> []"
    and "isValidStatusTransition (sr_status row) to"
  shows "run_route Set_status h = Next anonymous \<and>
     map_prod (map_sum id st_status) id
       (updateStreamStatusHandler env (True, True, True) (Some rows) (sr_id row) (JString (api_name to)) rows) =
     (Inr to, with_status row to (se_now env) rows)"
proof -
  have f: "find (\<lambda>r. sr_id r = sr_id row) rows = Some row" using assms(2,3) by (rule find_distinct)
  have s: "sr_status (rowToRecord r) = sr_status r" for r by (simp add: rowToRecord_def StreamRecord.truncate_def)
  have v: "api_of_value (JString (api_name to)) = Some to" by (cases to) (simp_all add: api_of_value_def API_STREAM_STATUSES_def)
  show ?thesis using assms(4) change_status_found(2) [OF assms(1-3,5)]
    by (simp add: run_route_def updateStreamStatusHandler_def v getById_def assms(1) f withDbErrors_def s toApiStream_def)
qed

lemma demo_valid: "isValidStatusTransition Api_active Api_cancelled"
  by (simp add: isValidStatusTransition_def)

definition demo_env :: stream_env where
  "demo_env = \<lparr>se_hash = (\<lambda>k a. a), se_keys = Inr \<lparr>pk_current = ''k'', pk_previous = None\<rparr>, se_exhausted = False, se_listing_healthy = True,
     se_idempotency_healthy = True, se_sha = (\<lambda>t. t), se_now = 1000\<rparr>"

lemma demo_stream_simps [simp]:
  "sr_id (demo_stream i a) = i" "sr_sender_address (demo_stream i a) = a" "sr_status (demo_stream i a) = Api_active"
  by (simp_all add: demo_stream_def new_row_def)

theorem set_status_open_witness:
  "run_route Set_status demo_context = Next anonymous \<and>
     fst (map_prod (map_sum id st_status) id (updateStreamStatusHandler demo_env (True, True, True) (Some [demo_stream ''a'' ''s'', demo_stream ''b'' ''t''])
       ''a'' (JString ''cancelled'') [demo_stream ''a'' ''s'', demo_stream ''b'' ''t''])) = Inr Api_cancelled"
proof -
  have k: "se_keys demo_env = Inr \<lparr>pk_current = ''k'', pk_previous = None\<rparr>" by (simp add: demo_env_def)
  show ?thesis
    using set_status_open [OF k, of "[demo_stream ''a'' ''s'', demo_stream ''b'' ''t'']" "demo_stream ''a'' ''s''" Api_cancelled demo_context] demo_valid
    by simp
qed

lemma change_status_any:
  assumes "se_keys env = Inr keys" "distinct (map sr_id rows)" "change_status env oks i cur to rows = (r, rows')"
  shows "(\<exists>e. r = Inl e) \<and> rows' = rows \<or>
     (\<exists>row\<in>set rows. sr_id row = i \<and> isValidStatusTransition (sr_status row) to \<and> rows' = with_status row to (se_now env) rows)"
proof (cases "find (\<lambda>r. sr_id r = i) rows")
  case None
  then show ?thesis using assms
    by (auto simp: change_status_def updateStream_def update_read_def getById_def withStatusConflicts_def withDbErrors_def split: option.splits if_splits)
next
  case (Some row)
  then have row: "row \<in> set rows" "sr_id row = i" by (auto simp: find_Some_iff)
  show ?thesis
  proof (cases "assertApiTransition cur to")
    case None
    then have "change_status env oks i cur to rows = change_status env oks i (sr_status row) to rows \<or>
        assertApiTransition (sr_status row) to \<noteq> None" by (cases "assertApiTransition (sr_status row) to") (simp_all add: change_status_def)
    then show ?thesis
    proof
      assume "change_status env oks i cur to rows = change_status env oks i (sr_status row) to rows"
      with change_status_found(1) [OF assms(1,2) row(1), of oks to r rows'] row assms(3) show ?thesis by auto
    next
      assume "assertApiTransition (sr_status row) to \<noteq> None"
      then have "\<not> isValidStatusTransition (sr_status row) to" by (simp add: assertApiTransition_None)
      moreover have "sr_status (rowToRecord row) = sr_status row" by (simp add: rowToRecord_def StreamRecord.truncate_def)
      ultimately show ?thesis using assms None Some
        by (auto simp: change_status_def updateStream_def update_read_def getById_def withStatusConflicts_def withDbErrors_def split: if_splits)
    qed
  qed (use assms(3) in \<open>auto simp: change_status_def\<close>)
qed

lemma change_status_error: "change_status env oks i cur to rows = (Inl e, rows') \<Longrightarrow> rows' = rows"
  by (auto simp: change_status_def updateStream_def update_write_def split: option.splits sum.splits if_splits repo_error.splits
      simp: withStatusConflicts_def withDbErrors_def)

text \<open>A scoped caller only cancels its own streams. When a request with a token whose role is not operator passes the middleware of the route and the handler answers
  that it has cancelled the stream, the stream was sent by the caller and active or paused, and its status is all that has changed;
  when the handler refuses, nothing has changed. The read of the handler may see an older state of the row.\<close>

theorem cancel_own_only:
  assumes "run_route Cancel_stream h = Next req" and "pr_user req = Some u" and "cl_role u \<noteq> Some ''operator''"
    and "se_keys env = Inr keys" and "distinct (map sr_id rows)"
    and "\<forall>r\<in>set old. \<forall>r'\<in>set rows. sr_id r = sr_id r' \<longrightarrow> sr_sender_address r = sr_sender_address r'"
    and "cancelStreamHandler env oks (Some old) (pr_callerAddress req) i rows = (result, rows')"
  shows "(case result of
       Inl e \<Rightarrow> rows' = rows
     | Inr _ \<Rightarrow> \<exists>row\<in>set rows. sr_id row = i \<and> cl_address u = Some (sr_sender_address row) \<and> sr_status row \<in> {Api_active, Api_paused} \<and>
         rows' = with_status row Api_cancelled (se_now env) rows)"
proof -
  obtain r1 r2 r3 r4 where r: "jwt_step h anonymous = Next r1" "requireAuth r1 = Next r2" "api_key_step h r2 = Next r3"
    "requireScope [''streams:write''] r3 = Next r4" "enforceStreamScope r4 = Next req"
    using assms(1) by (auto simp: run_route_def chain_Next simp del: chain.simps(2))
  have "pr_user r4 = pr_user req"
    using enforceStreamScope_Next [OF r(5)] by (auto split: option.splits if_splits)
  then have caller: "pr_callerAddress req = cl_address u" "present (cl_address u)"
    using enforceStreamScope_Next [OF r(5)] assms(2,3) by (auto split: option.splits if_splits)
  show ?thesis
  proof (cases "find (\<lambda>r. sr_id r = i) old")
    case None
    then show ?thesis using assms(4,7)
      by (auto simp: cancelStreamHandler_def getById_def withDbErrors_def split: if_splits)
  next
    case (Some seen)
    then have seen: "seen \<in> set old" "sr_id seen = i" by (auto simp: find_Some_iff)
    have t: "sr_sender_address (rowToRecord seen) = sr_sender_address seen" "sr_status (rowToRecord seen) = sr_status seen"
      by (simp_all add: rowToRecord_def StreamRecord.truncate_def)
    note d = cancelStreamHandler_def getById_def withDbErrors_def assms(4) Some t caller
    show ?thesis
    proof (cases "Some (sr_sender_address seen) = cl_address u \<and> i \<noteq> []")
      case False
      then show ?thesis using assms(7) caller(2) by (auto simp: d split: if_splits)
    next
      case True
      obtain r where c: "change_status env oks i (sr_status seen) Api_cancelled rows = (r, rows')" "result = map_sum id (\<lambda>_. i) r"
        using assms(7) True by (auto simp: d split: prod.splits)
      have "isValidStatusTransition s Api_cancelled \<longleftrightarrow> s \<in> {Api_active, Api_paused}" for s
        by (cases s) (simp_all add: isValidStatusTransition_def)
      note cancellable = this
      from change_status_any [OF assms(4,5) c(1)] show ?thesis
      proof
        assume "(\<exists>e. r = Inl e) \<and> rows' = rows"
        then show ?thesis using c(2) by auto
      next
        assume "\<exists>row\<in>set rows. sr_id row = i \<and> isValidStatusTransition (sr_status row) Api_cancelled \<and> rows' = with_status row Api_cancelled (se_now env) rows"
        then obtain row where row: "row \<in> set rows" "sr_id row = i" "isValidStatusTransition (sr_status row) Api_cancelled"
          "rows' = with_status row Api_cancelled (se_now env) rows" by blast
        have "sr_sender_address row = sr_sender_address seen" using assms(6) seen row(1,2) by metis
        then have "sr_id row = i \<and> cl_address u = Some (sr_sender_address row) \<and> sr_status row \<in> {Api_active, Api_paused} \<and>
            rows' = with_status row Api_cancelled (se_now env) rows"
          using row cancellable True by simp
        then show ?thesis
        proof (cases r)
          case (Inl e)
          then show ?thesis using change_status_error [OF c(1) [unfolded Inl]] c(2) by simp
        next
          case (Inr x)
          then show ?thesis using c(2) row(1) \<open>sr_id row = i \<and> _\<close> by auto
        qed
      qed
    qed
  qed
qed

text \<open>A request to cancel with a verified token of the sender.\<close>

definition demo_delete_context :: http_context where
  "demo_delete_context = demo_context\<lparr>hc_auth := (demo_auth_env 5000)\<lparr>ae_lib := \<lparr>jwt_sign = (\<lambda>c k. []),
       jwt_verify = (\<lambda>t k now tolerance. Some (demo_claims\<lparr>cl_address := Some ''s'', cl_role := Some ''viewer'', cl_permissions := Some [''streams:write'']\<rparr>))\<rparr>\<rparr>,
     hc_authorization := Some ''Bearer t''\<rparr>"

definition demo_delete_principal :: principal where
  "demo_delete_principal = (case run_route Cancel_stream demo_delete_context of Next req \<Rightarrow> req | Reject _ _ \<Rightarrow> anonymous)"

lemma demo_delete_route: "run_route Cancel_stream demo_delete_context = Next demo_delete_principal"
proof -
  have "(case run_route Cancel_stream demo_delete_context of Next _ \<Rightarrow> True | Reject _ _ \<Rightarrow> False) = True" by code_simp
  then show ?thesis unfolding demo_delete_principal_def by (cases "run_route Cancel_stream demo_delete_context") simp_all
qed

theorem cancel_own_only_witness:
  "\<exists>row\<in>set [demo_stream ''a'' ''s'', demo_stream ''b'' ''t'']. sr_id row = ''a'' \<and> sr_sender_address row = ''s'' \<and>
     snd (cancelStreamHandler demo_env (True, True, True) (Some [demo_stream ''a'' ''s'']) (pr_callerAddress demo_delete_principal) ''a''
       [demo_stream ''a'' ''s'', demo_stream ''b'' ''t'']) = with_status row Api_cancelled 1000 [demo_stream ''a'' ''s'', demo_stream ''b'' ''t'']"
proof -
  let ?rows = "[demo_stream ''a'' ''s'', demo_stream ''b'' ''t'']"
  let ?c = "cancelStreamHandler demo_env (True, True, True) (Some [demo_stream ''a'' ''s'']) (pr_callerAddress demo_delete_principal) ''a'' ?rows"
  let ?claims = "demo_claims\<lparr>cl_address := Some ''s'', cl_role := Some ''viewer'', cl_permissions := Some [''streams:write'']\<rparr>"
  have u: "pr_user demo_delete_principal = Some ?claims" by code_simp
  have k: "se_keys demo_env = Inr \<lparr>pk_current = ''k'', pk_previous = None\<rparr>" by (simp add: demo_env_def)
  have f: "(case fst ?c of Inl _ \<Rightarrow> False | Inr j \<Rightarrow> j = ''a'') = True" by code_simp
  then have "fst ?c = Inr ''a''" by (cases "fst ?c") simp_all
  then have c: "?c = (Inr ''a'', snd ?c)" by (metis prod.collapse)
  have "case (Inr ''a'' :: api_error + string) of Inl e \<Rightarrow> snd ?c = ?rows
     | Inr _ \<Rightarrow> \<exists>row\<in>set ?rows. sr_id row = ''a'' \<and> cl_address ?claims = Some (sr_sender_address row) \<and> sr_status row \<in> {Api_active, Api_paused} \<and>
         snd ?c = with_status row Api_cancelled (se_now demo_env) ?rows"
    by (rule cancel_own_only [OF demo_delete_route u _ k _ _ c]) simp_all
  then show ?thesis by (auto simp: demo_env_def)
qed

section \<open>Lists\<close>

definition recipient_hashes_ok :: "(string \<Rightarrow> string \<Rightarrow> string) \<Rightarrow> PgcryptoKeySet \<Rightarrow> stream_row list \<Rightarrow> bool" where
  "recipient_hashes_ok hash keys rows \<longleftrightarrow>
     (\<forall>r\<in>set rows. row_recipient_hash r = hash (pk_current keys) (sr_recipient_address r) \<or>
        Some (row_recipient_hash r) = map_option (\<lambda>k. hash k (sr_recipient_address r)) (pk_previous keys))"

lemma recipient_filter:
  assumes "collision_free hash" "recipient_hashes_ok hash keys rows" "r \<in> set rows"
  shows "buildEncryptedAddressFilter (computeAddressHashes hash a keys) a (row_recipient_hash r) (row_recipient_plain r) (sr_recipient_address r) \<longleftrightarrow>
    sr_recipient_address r = a"
  using assms
  by (cases "pk_previous keys") (auto simp: buildEncryptedAddressFilter_def computeAddressHashes_def recipient_hashes_ok_def collision_free_def)

lemma api_stream_simps [simp]:
  "st_id (toApiStream r) = sr_id r" "st_sender (toApiStream r) = sr_sender_address r" "st_recipient (toApiStream r) = sr_recipient_address r"
  "st_status (toApiStream r) = sr_status r"
  by (simp_all add: toApiStream_def)

lemma rowToRecord_simps [simp]:
  "sr_sender_address (rowToRecord r) = sr_sender_address r" "sr_recipient_address (rowToRecord r) = sr_recipient_address r"
  "sr_status (rowToRecord r) = sr_status r"
  by (simp_all add: rowToRecord_def StreamRecord.truncate_def)

text \<open>A list that was answered, unfolded: the query was well formed, its cursor belongs to it, the caller may ask it, and the page is the one of the store.\<close>

lemma list_answered:
  assumes "listStreamsHandler coll env p enhanced caller query = Inr (page, cc)"
  obtains q cursor found where "PaginationSchema query = Some q"
    "parseCursorParam (case pq_cursor q of None \<Rightarrow> JUndefined | Some c \<Rightarrow> JString c) = Inr cursor"
    "\<forall>s. Option.bind cursor oc_scope = Some s \<longrightarrow> s = streamCursorScope (pq_status q) (pq_sender q) (pq_recipient q) caller"
    "assertCallerMayList caller (pq_sender q) (pq_recipient q) = None"
    "listStreams coll env p (buildStreamFilter (pq_status q) (pq_sender q) (pq_recipient q)) (pq_limit q)
       (map_option oc_lastId cursor) (pq_include_total q) = Inr found"
    "sl_streams page = map toApiStream (cp_streams found)"
    "sl_has_more page = cp_hasMore found"
    "sl_next_cursor page = (if cp_hasMore found \<and> cp_streams found \<noteq> []
       then Some (encodeCursor (sr_id (last (cp_streams found))) (streamCursorScope (pq_status q) (pq_sender q) (pq_recipient q) caller)) else None)"
proof -
  note d = listStreamsHandler_def withDbErrors_def Let_def
  obtain q where q: "PaginationSchema query = Some q" using assms by (cases "PaginationSchema query") (simp_all add: d)
  let ?param = "case pq_cursor q of None \<Rightarrow> JUndefined | Some c \<Rightarrow> JString c"
  obtain cursor where c: "parseCursorParam ?param = Inr cursor" using assms by (cases "parseCursorParam ?param") (simp_all add: d q)
  let ?scope = "streamCursorScope (pq_status q) (pq_sender q) (pq_recipient q) caller"
  have s: "\<not> (case Option.bind cursor oc_scope of None \<Rightarrow> False | Some s \<Rightarrow> s \<noteq> ?scope)" "se_listing_healthy env"
    using assms unfolding d q c option.case sum.case by (simp_all only: split: if_splits) simp_all
  have g: "assertCallerMayList caller (pq_sender q) (pq_recipient q) = None"
    using assms by (cases "assertCallerMayList caller (pq_sender q) (pq_recipient q)") (simp_all add: d q c s)
  let ?found = "listStreams coll env p (buildStreamFilter (pq_status q) (pq_sender q) (pq_recipient q)) (pq_limit q)
       (map_option oc_lastId cursor) (pq_include_total q)"
  obtain found where f: "?found = Inr found" using assms by (cases ?found) (simp_all add: d q c s g)
  have "page = (toStreamListPage found ?scope (pq_include_total q))\<lparr>sl_enhanced := enhanced\<rparr>"
    using assms by (auto simp: d q c s g f toStreamListPage_def split: if_splits)
  then have "sl_streams page = map toApiStream (cp_streams found)" "sl_has_more page = cp_hasMore found"
    "sl_next_cursor page = (if cp_hasMore found \<and> cp_streams found \<noteq> [] then Some (encodeCursor (sr_id (last (cp_streams found))) ?scope) else None)"
    by (simp_all add: toStreamListPage_def Let_def last_map)
  moreover have "\<forall>t. Option.bind cursor oc_scope = Some t \<longrightarrow> t = ?scope" using s(1) by auto
  ultimately show thesis using q c g f that by blast
qed

lemma listed_row:
  assumes "listStreams coll env (Some rows) f n after tot = Inr found" "se_keys env = Inr keys" "r \<in> set (cp_streams found)"
  shows "\<exists>row\<in>set rows. row_matches (se_hash env) keys f row \<and> r = rowToRecord row"
proof -
  obtain m where m: "effectiveLimit (Finite (of_nat n)) = Inr m"
    using assms(1) by (auto simp: listStreams_def findWithCursor_def split: sum.splits)
  have "cp_streams found = map rowToRecord (take m (rows_after coll (se_hash env) keys f after rows))"
    using assms(1,2) m by (auto simp: listStreams_def findWithCursor_def Let_def min_def split: if_splits)
  then obtain row where "row \<in> set (take m (rows_after coll (se_hash env) keys f after rows))" "r = rowToRecord row" using assms(3) by auto
  then show ?thesis by (auto simp: rows_after_def dest!: in_set_takeD)
qed

text \<open>When the caller of a list is scoped, every stream of the answer was sent or is received by the caller. The hypotheses on the hashes are
  those under which an encrypted address can be filtered at all.\<close>

theorem scoped_list_own_only:
  assumes "listStreamsHandler coll env (Some rows) enhanced (Some a) query = Inr (page, cc)" and "a \<noteq> []"
    and "se_keys env = Inr keys" and "collision_free (se_hash env)"
    and "hashes_ok (se_hash env) keys rows" and "recipient_hashes_ok (se_hash env) keys rows"
  shows "\<forall>s\<in>set (sl_streams page). (st_sender s = a \<or> st_recipient s = a) \<and> s \<in> (toApiStream \<circ> rowToRecord) ` set rows"
proof (intro ballI, rule list_answered [OF assms(1)])
  fix s q cursor found assume s: "s \<in> set (sl_streams page)" and q: "assertCallerMayList (Some a) (pq_sender q) (pq_recipient q) = None"
    "listStreams coll env (Some rows) (buildStreamFilter (pq_status q) (pq_sender q) (pq_recipient q)) (pq_limit q)
       (map_option oc_lastId cursor) (pq_include_total q) = Inr found" "sl_streams page = map toApiStream (cp_streams found)"
  from s q(3) obtain r where r: "r \<in> set (cp_streams found)" "s = toApiStream r" by auto
  obtain row where row: "row \<in> set rows" "row_matches (se_hash env) keys (buildStreamFilter (pq_status q) (pq_sender q) (pq_recipient q)) row"
    "r = rowToRecord row"
    using listed_row [OF q(2) assms(3) r(1)] by blast
  have "pq_sender q = Some a \<or> pq_recipient q = Some a"
    using q(1) assms(2) by (cases "pq_sender q"; cases "pq_recipient q") (auto simp: assertCallerMayList_def present_def split: if_splits)
  then have "sr_sender_address row = a \<or> sr_recipient_address row = a"
    using row(2) assms(2) sender_filter [OF assms(4,5) row(1), of a] recipient_filter [OF assms(4,6) row(1), of a]
    by (auto simp: row_matches_def buildStreamFilter_def text_condition_def)
  then show "(st_sender s = a \<or> st_recipient s = a) \<and> s \<in> (toApiStream \<circ> rowToRecord) ` set rows"
    using r(2) row(1,3) by auto
qed

theorem scoped_list_own_only_witness:
  "\<exists>page cc. listStreamsHandler (\<lambda>i. i) demo_env (Some [demo_stream ''a'' ''s'', demo_stream ''b'' ''t'']) False (Some ''s'') [(''sender'', JString ''s'')] =
     Inr (page, cc) \<and> length (sl_streams page) = 1 \<and> (\<forall>s\<in>set (sl_streams page). st_sender s = ''s'' \<or> st_recipient s = ''s'')"
proof -
  let ?rows = "[demo_stream ''a'' ''s'', demo_stream ''b'' ''t'']" and ?k = "\<lparr>pk_current = ''k'', pk_previous = None\<rparr>"
  let ?l = "listStreamsHandler (\<lambda>i. i) demo_env (Some ?rows) False (Some ''s'') [(''sender'', JString ''s'')]"
  have "(case ?l of Inl _ \<Rightarrow> False | Inr (page, _) \<Rightarrow> length (sl_streams page) = 1) = True" by code_simp
  then obtain page cc where l: "?l = Inr (page, cc)" "length (sl_streams page) = 1" by (cases ?l) auto
  have k: "se_keys demo_env = Inr ?k" "se_hash demo_env = (\<lambda>k a. a)" by (simp_all add: demo_env_def)
  have h: "collision_free (se_hash demo_env)" "hashes_ok (se_hash demo_env) ?k ?rows" "recipient_hashes_ok (se_hash demo_env) ?k ?rows"
    by (simp_all add: k collision_free_def hashes_ok_def recipient_hashes_ok_def demo_stream_def new_row_def)
  have "''s'' \<noteq> []" by simp
  from scoped_list_own_only [OF l(1) this k(1) h] l show ?thesis by blast
qed

text \<open>A cursor belongs to the query that issued it: presented with another status, sender, recipient or under another caller it is refused, whatever the table holds by then.\<close>

theorem cursor_bound_to_query:
  assumes "listStreamsHandler coll env p enhanced caller query = Inr (page, cc)" and "sl_next_cursor page = Some token"
    and "PaginationSchema query = Some q" and "PaginationSchema query' = Some q'" and "pq_cursor q' = Some token"
    and "(pq_status q, pq_sender q, pq_recipient q, caller) \<noteq> (pq_status q', pq_sender q', pq_recipient q', caller')"
  shows "\<exists>m. listStreamsHandler coll' env' p' enhanced' caller' query' = Inl (Validation_error m)"
proof -
  obtain i where i: "token = encodeCursor i (streamCursorScope (pq_status q) (pq_sender q) (pq_recipient q) caller)"
  proof (rule list_answered [OF assms(1)])
    fix q0 cursor found
    assume "PaginationSchema query = Some q0" "sl_next_cursor page = (if cp_hasMore found \<and> cp_streams found \<noteq> []
       then Some (encodeCursor (sr_id (last (cp_streams found))) (streamCursorScope (pq_status q0) (pq_sender q0) (pq_recipient q0) caller)) else None)"
    then show thesis using assms(2,3) that by (simp split: if_splits)
  qed
  have "streamCursorScope (pq_status q) (pq_sender q) (pq_recipient q) caller \<noteq> streamCursorScope (pq_status q') (pq_sender q') (pq_recipient q') caller'"
    using streamCursorScope_inj assms(6) by blast
  then show ?thesis
    by (simp add: listStreamsHandler_def assms(4,5) i parseCursorParam_def encodeCursor_not_blank decode_encode Let_def)
qed

theorem cursor_bound_to_query_witness:
  "\<exists>token m. listStreamsHandler (\<lambda>i. i) demo_env (Some []) False None [(''cursor'', JString token), (''status'', JString ''paused'')] = Inl (Validation_error m)"
proof -
  let ?rows = "[demo_stream ''a'' ''s'', demo_stream ''b'' ''t'']"
  let ?l = "listStreamsHandler (\<lambda>i. i) demo_env (Some ?rows) False None [(''limit'', JString ''1'')]"
  have "(case ?l of Inl _ \<Rightarrow> False | Inr (page, _) \<Rightarrow> sl_next_cursor page \<noteq> None) = True" by code_simp
  then obtain page cc token where l: "?l = Inr (page, cc)" "sl_next_cursor page = Some token" by (cases ?l) auto
  have q: "PaginationSchema [(''limit'', JString ''1'')] =
     Some \<lparr>pq_cursor = None, pq_limit = 1, pq_status = None, pq_sender = None, pq_recipient = None, pq_include_total = False\<rparr>" by code_simp
  have "\<exists>i scope. token = encodeCursor i scope"
    by (rule list_answered [OF l(1)]) (use l(2) in \<open>simp split: if_splits\<close>, blast)
  then have t: "token \<noteq> []" using encodeCursor_not_blank [unfolded js_trim_def] by (metis dropWhile.simps(1) rev.simps(1))
  have "PaginationSchema [(''cursor'', JString token), (''status'', JString ''paused'')] =
     Some \<lparr>pq_cursor = Some token, pq_limit = 20, pq_status = Some Api_paused, pq_sender = None, pq_recipient = None, pq_include_total = False\<rparr>"
    using t by (simp add: PaginationSchema_def optional_field_def cursor_field_def api_of_value_def API_STREAM_STATUSES_def DEFAULT_PAGE_LIMIT_def)
  from cursor_bound_to_query [OF l q this, of None "\<lambda>i. i" demo_env "Some []" False] show ?thesis by auto
qed

section \<open>Following the pages\<close>

text \<open>A client that asks for the next page with the token of the last until there is none; each page is read from its own state of the pool.\<close>

fun follow_pages ::
  "(string \<Rightarrow> 'k::linorder) \<Rightarrow> stream_env \<Rightarrow> string option \<Rightarrow> (string \<times> jsval) list \<Rightarrow> string option \<Rightarrow> pool list \<Rightarrow> Stream list \<times> bool" where
  "follow_pages coll env caller query token [] = ([], False)"
| "follow_pages coll env caller query token (p # ps) =
     (case listStreamsHandler coll env p False caller (case token of None \<Rightarrow> query | Some t \<Rightarrow> (''cursor'', JString t) # query) of
        Inl e \<Rightarrow> ([], False)
      | Inr (page, cc) \<Rightarrow>
          (case sl_next_cursor page of
             None \<Rightarrow> (sl_streams page, True)
           | Some t \<Rightarrow> (case follow_pages coll env caller query (Some t) ps of (rest, ended) \<Rightarrow> (sl_streams page @ rest, ended))))"

definition id_ok :: "string \<Rightarrow> bool" where
  "id_ok i \<longleftrightarrow> js_trim i \<noteq> [] \<and> length i \<le> CURSOR_LAST_ID_MAX_LENGTH"

lemma schema_with_cursor:
  assumes "PaginationSchema query = Some q" "''cursor'' \<notin> fst ` set query" "t \<noteq> []"
  shows "PaginationSchema ((''cursor'', JString t) # query) = Some (q\<lparr>pq_cursor := Some t\<rparr>)" "pq_cursor q = None"
proof -
  have c: "map_get query ''cursor'' = None" using assms(2) by (simp add: map_of_eq_None_iff)
  show "PaginationSchema ((''cursor'', JString t) # query) = Some (q\<lparr>pq_cursor := Some t\<rparr>)" "pq_cursor q = None"
    using assms(1,3) c by (auto simp: PaginationSchema_def optional_field_def cursor_field_def split: if_splits option.splits)
qed

lemma total_irrelevant:
  "map_sum id (\<lambda>pg. (cp_streams pg, cp_hasMore pg)) (findWithCursor coll hash keySet p f l c tot) =
   map_sum id (\<lambda>pg. (cp_streams pg, cp_hasMore pg)) (findWithCursor coll hash keySet p f l c False)"
  by (auto simp: findWithCursor_def Let_def split: sum.splits option.splits)

lemma handler_page:
  assumes "PaginationSchema query = Some q" "parseCursorParam (case pq_cursor q of None \<Rightarrow> JUndefined | Some c \<Rightarrow> JString c) = Inr cursor"
    and "\<forall>s. Option.bind cursor oc_scope = Some s \<longrightarrow> s = streamCursorScope (pq_status q) (pq_sender q) (pq_recipient q) caller"
    and "se_listing_healthy env" "assertCallerMayList caller (pq_sender q) (pq_recipient q) = None"
  shows "listStreamsHandler coll env p False caller query =
     (case listStreams coll env p (buildStreamFilter (pq_status q) (pq_sender q) (pq_recipient q)) (pq_limit q) (map_option oc_lastId cursor) (pq_include_total q) of
        Inl e \<Rightarrow> Inl (rethrowDbError (se_exhausted env) e)
      | Inr found \<Rightarrow>
          let body = toStreamListPage found (streamCursorScope (pq_status q) (pq_sender q) (pq_recipient q) caller) (pq_include_total q)
          in Inr (body, streamCacheControl (map st_status (sl_streams body))))"
proof -
  have "\<not> (case Option.bind cursor oc_scope of None \<Rightarrow> False | Some s \<Rightarrow> s \<noteq> streamCursorScope (pq_status q) (pq_sender q) (pq_recipient q) caller)"
    using assms(3) by (auto split: option.splits)
  then show ?thesis using assms(1,2,4,5) by (simp add: listStreamsHandler_def withDbErrors_def Let_def split: sum.split)
qed

text \<open>Listing by following \<open>next_cursor\<close> refines the traversal of the store: the streams are those of the traversal with the filter of the query, in the same
  order, and the client reaches the end exactly when the traversal does. The identifiers and the scope must fit into a cursor.\<close>

theorem follow_pages_is_traversal:
  assumes "PaginationSchema query = Some q" and "''cursor'' \<notin> fst ` set query"
    and "se_listing_healthy env" and "assertCallerMayList caller (pq_sender q) (pq_recipient q) = None"
    and "length (streamCursorScope (pq_status q) (pq_sender q) (pq_recipient q) caller) \<le> CURSOR_SCOPE_MAX_LENGTH"
    and "\<forall>p\<in>set ps. \<forall>rows. p = Some rows \<longrightarrow> list_all (\<lambda>r. id_ok (sr_id r)) rows"
  shows "follow_pages coll env caller query None ps =
     map_prod (map toApiStream) id (traversal coll (se_hash env) (se_keys env)
       (buildStreamFilter (pq_status q) (pq_sender q) (pq_recipient q)) (Finite (of_nat (pq_limit q))) None ps)"
proof -
  let ?scope = "streamCursorScope (pq_status q) (pq_sender q) (pq_recipient q) caller"
  let ?f = "buildStreamFilter (pq_status q) (pq_sender q) (pq_recipient q)"
  let ?trav = "traversal coll (se_hash env) (se_keys env) ?f (Finite (of_nat (pq_limit q)))"
  have q: "pq_cursor q = None" using schema_with_cursor(2) [OF assms(1,2), of "''x''"] by simp
  have page: "listStreamsHandler coll env p False caller (case map_option (\<lambda>i. encodeCursor i ?scope) c of None \<Rightarrow> query | Some t \<Rightarrow> (''cursor'', JString t) # query) =
     (case listStreams coll env p ?f (pq_limit q) c (pq_include_total q) of
        Inl e \<Rightarrow> Inl (rethrowDbError (se_exhausted env) e)
      | Inr found \<Rightarrow> let body = toStreamListPage found ?scope (pq_include_total q) in Inr (body, streamCacheControl (map st_status (sl_streams body))))"
    if "\<forall>i. c = Some i \<longrightarrow> id_ok i" for p c
  proof (cases c)
    case None
    then show ?thesis
      using handler_page [OF assms(1) _ _ assms(3,4), of None coll p] q by (simp add: parseCursorParam_def)
  next
    case (Some i)
    let ?t = "encodeCursor i ?scope"
    have t: "?t \<noteq> []" using encodeCursor_not_blank [of i ?scope] by (auto simp: js_trim_def)
    have d: "parseCursorParam (JString ?t) = Inr (Some \<lparr>oc_lastId = i, oc_scope = Some ?scope\<rparr>)"
      using that Some assms(5) by (simp add: parseCursorParam_def encodeCursor_not_blank decode_encode id_ok_def)
    show ?thesis
      using handler_page [OF schema_with_cursor(1) [OF assms(1,2) t], where cursor = "Some \<lparr>oc_lastId = i, oc_scope = Some ?scope\<rparr>" and caller = caller
          and env = env and coll = coll and p = p] assms(3,4) d Some by (simp split: sum.splits)
  qed
  have "follow_pages coll env caller query (map_option (\<lambda>i. encodeCursor i ?scope) c) ps = map_prod (map toApiStream) id (?trav c ps)"
    if "\<forall>i. c = Some i \<longrightarrow> id_ok i" for c
    using that assms(6)
  proof (induction ps arbitrary: c)
    case (Cons p ps)
    show ?case
    proof (cases "findWithCursor coll (se_hash env) (se_keys env) p ?f (Finite (of_nat (pq_limit q))) c (pq_include_total q)")
      case (Inl e)
      then obtain e' where "findWithCursor coll (se_hash env) (se_keys env) p ?f (Finite (of_nat (pq_limit q))) c False = Inl e'"
        using total_irrelevant [of coll "se_hash env" "se_keys env" p ?f "Finite (of_nat (pq_limit q))" c "pq_include_total q"]
        by (cases "findWithCursor coll (se_hash env) (se_keys env) p ?f (Finite (of_nat (pq_limit q))) c False") simp_all
      then show ?thesis using page [OF Cons.prems(1), of p] Inl by (simp add: listStreams_def)
    next
      case (Inr found)
      then obtain pg where pg: "findWithCursor coll (se_hash env) (se_keys env) p ?f (Finite (of_nat (pq_limit q))) c False = Inr pg"
        "cp_streams found = cp_streams pg" "cp_hasMore found = cp_hasMore pg"
        using total_irrelevant [of coll "se_hash env" "se_keys env" p ?f "Finite (of_nat (pq_limit q))" c "pq_include_total q"]
        by (cases "findWithCursor coll (se_hash env) (se_keys env) p ?f (Finite (of_nat (pq_limit q))) c False") simp_all
      obtain rows keys n where rows: "p = Some rows" "0 < n" "cp_streams pg = map rowToRecord (take n (rows_after coll (se_hash env) keys ?f c rows))"
        "cp_hasMore pg \<longleftrightarrow> n < length (rows_after coll (se_hash env) keys ?f c rows)"
        by (rule page_of [OF pg(1)]) blast
      have h: "listStreamsHandler coll env p False caller (case map_option (\<lambda>i. encodeCursor i ?scope) c of None \<Rightarrow> query | Some t \<Rightarrow> (''cursor'', JString t) # query) =
          (let body = toStreamListPage found ?scope (pq_include_total q) in Inr (body, streamCacheControl (map st_status (sl_streams body))))"
        using page [OF Cons.prems(1), of p] Inr by (simp add: listStreams_def)
      show ?thesis
      proof (cases "cp_hasMore pg")
        case False
        then show ?thesis using h pg by (simp add: toStreamListPage_def Let_def)
      next
        case True
        then have ne: "take n (rows_after coll (se_hash env) keys ?f c rows) \<noteq> []" using rows(2,4) by auto
        let ?i = "sr_id (last (cp_streams pg))"
        have "last (take n (rows_after coll (se_hash env) keys ?f c rows)) \<in> set rows"
          using last_in_set [OF ne] by (auto simp: rows_after_def dest!: in_set_takeD)
        then have "id_ok ?i" using Cons.prems(2) rows(1,3) ne by (auto simp: last_map list_all_iff)
        then have IH: "follow_pages coll env caller query (Some (encodeCursor ?i ?scope)) ps = map_prod (map toApiStream) id (?trav (Some ?i) ps)"
          using Cons.IH [of "Some ?i"] Cons.prems(2) by (simp add: id_def)
        have "cp_streams pg \<noteq> []" using ne rows(3) by simp
        then show ?thesis using h pg True IH by (simp add: toStreamListPage_def Let_def last_map split: prod.splits)
      qed
    qed
  qed simp
  from this [of None] show ?thesis by simp
qed

theorem follow_pages_is_traversal_witness:
  "follow_pages (\<lambda>i. i) demo_env None [(''limit'', JString ''1'')] None (demo_pools @ demo_pools) =
     map_prod (map toApiStream) id (traversal (\<lambda>i. i) (se_hash demo_env) (se_keys demo_env) (buildStreamFilter None None None) (Finite 1) None (demo_pools @ demo_pools))"
proof -
  have q: "PaginationSchema [(''limit'', JString ''1'')] =
     Some \<lparr>pq_cursor = None, pq_limit = 1, pq_status = None, pq_sender = None, pq_recipient = None, pq_include_total = False\<rparr>" by code_simp
  have l: "length (streamCursorScope None None None None) \<le> CURSOR_SCOPE_MAX_LENGTH" by code_simp
  have i: "id_ok ''a''" "id_ok ''b''" "id_ok ''c''" by code_simp+
  show ?thesis
    using follow_pages_is_traversal [OF q, of demo_env None "demo_pools @ demo_pools" "\<lambda>i. i"] l i
    by (simp add: demo_env_def assertCallerMayList_def present_def demo_pools_def)
qed

section \<open>Creating once\<close>

lemma mem_ops_simps [simp]:
  "io_get mem_ops s k t now = Some (mem_get s k t now, s)" "io_set mem_ops s k t e ttl now = Some (mem_set s k t e ttl now)"
  by (simp_all add: mem_ops_def)

lemma created_cases:
  assumes "createStreamHandler mem_ops env ok ttl t req (s, rows) = (Created stream body, s', rows')"
  obtains key input where "create_check env req = Inr (key, input)" "body = successResponse t (cr_requestId req) (stream_value stream)"
    "s' = mem_set s key (tenant_of (cr_principal req))
       \<lparr>ie_version = ENVELOPE_VERSION, ie_requestFingerprint = fingerprintInput (se_sha env) input, ie_statusCode = 201, ie_body = body\<rparr> ttl (se_now env)"
proof -
  obtain key input where c: "create_check env req = Inr (key, input)"
    using assms by (cases "create_check env req") (auto simp: createStreamHandler_def create_check_def split: sum.splits if_splits)
  have l: "create_lookup mem_ops env t req key input s = (None, s)"
    using assms by (auto simp: createStreamHandler_def c create_lookup_def split: lookup_result.splits if_splits option.splits)
  obtain flag created where k: "createStreamFromApi env ok input rows = (Inr (flag, created), rows')"
    using assms by (auto simp: createStreamHandler_def c l split: prod.splits sum.splits)
  show thesis
    using assms that [OF c] by (auto simp: createStreamHandler_def c l k create_record_def Let_def)
qed

lemma recorded:
  assumes "\<forall>e. map_get s (mem_buildKey key tenant) \<noteq> Some (None, e)" "now' < now + ttl * 1000"
  shows "mem_get (mem_set s key tenant entry ttl now) key tenant now' = Found entry"
  using assms by (auto simp: mem_get_def mem_set_def Let_def split: option.splits)

lemma lookup_recorded:
  assumes "mem_get s key (tenant_of (cr_principal req)) (se_now env) = Found entry"
    and "ie_body entry = successResponse t0 rid d"
  shows "create_lookup mem_ops env t req key input s =
     (Some (if ie_requestFingerprint entry \<noteq> fingerprintInput (se_sha env) input
            then Refused (Conflict_error ''Idempotency-Key has already been used for a different request payload'')
            else Replayed (ie_statusCode entry) (idempotentReplayResponse t (cr_requestId req) d)), s)"
  using assms by (simp add: create_lookup_def successResponse_def json_get_def)

text \<open>A creation that was answered is answered once more by a replay. Within the lifetime of the key, a request of the same tenant with the same key and the same normalised
  input gets the recorded stream with status 201, and one with another fingerprint is refused as a conflict; neither touches the
  table or the store, whatever has happened to the table meanwhile.\<close>

theorem create_replayed:
  assumes "createStreamHandler mem_ops env ok ttl t req (s, rows) = (Created stream body, s', rows')"
    and "create_check env req = Inr (key, input)" and "create_check env' req' = Inr (key, input')"
    and "tenant_of (cr_principal req') = tenant_of (cr_principal req)" and "se_sha env' = se_sha env"
    and "\<forall>e. map_get s (mem_buildKey key (tenant_of (cr_principal req))) \<noteq> Some (None, e)" and "se_now env' < se_now env + ttl * 1000"
  shows "createStreamHandler mem_ops env' ok' ttl' t' req' (s', table) =
     (if fingerprintInput (se_sha env) input' = fingerprintInput (se_sha env) input
      then Replayed 201 (idempotentReplayResponse t' (cr_requestId req') (stream_value stream))
      else Refused (Conflict_error ''Idempotency-Key has already been used for a different request payload''), s', table)"
proof (rule created_cases [OF assms(1)])
  fix key0 input0
  assume a: "create_check env req = Inr (key0, input0)" "body = successResponse t (cr_requestId req) (stream_value stream)"
    "s' = mem_set s key0 (tenant_of (cr_principal req))
       \<lparr>ie_version = ENVELOPE_VERSION, ie_requestFingerprint = fingerprintInput (se_sha env) input0, ie_statusCode = 201, ie_body = body\<rparr> ttl (se_now env)"
  let ?e = "\<lparr>ie_version = ENVELOPE_VERSION, ie_requestFingerprint = fingerprintInput (se_sha env) input, ie_statusCode = 201, ie_body = body\<rparr>"
  have k: "key0 = key" "input0 = input" using a(1) assms(2) by simp_all
  have g: "mem_get s' key (tenant_of (cr_principal req')) (se_now env') = Found ?e"
    unfolding a(3) k assms(4) by (rule recorded [OF assms(6,7)])
  have b: "ie_body ?e = successResponse t (cr_requestId req) (stream_value stream)" by (simp add: a(2))
  show ?thesis using lookup_recorded [OF g b, of t' input'] by (simp add: createStreamHandler_def assms(3,5))
qed

lemma sort_input:
  "sort_key fst [(''sender'', a), (''recipient'', b), (''depositAmount'', c), (''ratePerSecond'', d), (''startTime'', e), (''endTime'', f)] =
   [(''depositAmount'', c), (''endTime'', f), (''ratePerSecond'', d), (''recipient'', b), (''sender'', a), (''startTime'', e)]"
proof (rule sort_key_inj_key_eq)
  have "sorted [''depositAmount'', ''endTime'', ''ratePerSecond'', ''recipient'', ''sender'', ''startTime'']" by code_simp
  then show "sorted (map fst [(''depositAmount'', c), (''endTime'', f), (''ratePerSecond'', d), (''recipient'', b), (''sender'', a), (''startTime'', e)])"
    by (simp only: list.map fst_conv)
qed auto

lemma canonical_input:
  "\<exists>p. \<forall>n. canonicalizeBody (\<lambda>x. show_int \<lfloor>x\<rfloor>) (input_value (i\<lparr>ai_startTime := n\<rparr>)) = p @ show_int n @ ''}''"
proof -
  have n: "js_num_toString (\<lambda>x. show_int \<lfloor>x\<rfloor>) (of_int n) = show_int n" for n by (simp add: js_num_toString_def)
  show ?thesis
    by (simp add: input_value_def n sort_input join_def del: sort_key_simps)
qed

lemma show_int_inj: "0 \<le> a \<Longrightarrow> 0 \<le> b \<Longrightarrow> show_int a = show_int b \<Longrightarrow> a = b"
  by (metis digits_val_show_nat eq_nat_nat_iff show_int_nonneg)

lemma fingerprint_differs:
  assumes "inj sha" "0 \<le> a" "0 \<le> b" "a \<noteq> b"
  shows "fingerprintInput sha (i\<lparr>ai_startTime := a\<rparr>) \<noteq> fingerprintInput sha (i\<lparr>ai_startTime := b\<rparr>)"
proof -
  obtain p where "\<forall>n. canonicalizeBody (\<lambda>x. show_int \<lfloor>x\<rfloor>) (input_value (i\<lparr>ai_startTime := n\<rparr>)) = p @ show_int n @ ''}''"
    using canonical_input by blast
  then show ?thesis using assms show_int_inj [of a b] by (auto simp: fingerprintInput_def inj_eq)
qed

definition demo_address :: "char \<Rightarrow> string" where
  "demo_address c = CHR ''G'' # replicate 55 c"

definition demo_body :: "(string \<times> jsval) list" where
  "demo_body = [(''sender'', JString (demo_address (CHR ''A''))), (''recipient'', JString (demo_address (CHR ''B''))),
     (''depositAmount'', JString ''10.5''), (''ratePerSecond'', JString ''0.1'')]"

definition demo_create :: create_request where
  "demo_create = \<lparr>cr_key = JString ''key-1'', cr_principal = anonymous, cr_body = demo_body, cr_requestId = None\<rparr>"

definition demo_create_result :: "create_reply \<times> InMemoryIdempotencyStore \<times> stream_row list" where
  "demo_create_result = createStreamHandler mem_ops demo_env True 60 ''t0'' demo_create ([], [])"

lemma demo_created: "\<exists>stream body. demo_create_result = (Created stream body, snd demo_create_result)"
proof -
  have "(case fst demo_create_result of Created _ _ \<Rightarrow> True | _ \<Rightarrow> False) = True" by code_simp
  then show ?thesis by (cases "fst demo_create_result") (auto simp: prod_eq_iff)
qed

definition demo_input :: "string \<Rightarrow> ApiCreateStreamInput" where
  "demo_input d = \<lparr>ai_sender = demo_address (CHR ''A''), ai_recipient = demo_address (CHR ''B''), ai_depositAmount = d,
     ai_ratePerSecond = ''0.1'', ai_startTime = 1, ai_endTime = 0\<rparr>"

lemma demo_check:
  "create_check demo_env demo_create = Inr (''key-1'', demo_input ''10.5'')"
  by code_simp

theorem create_replayed_witness:
  "\<exists>d. createStreamHandler mem_ops (demo_env\<lparr>se_now := 1999\<rparr>) True 60 ''t1'' demo_create (fst (snd demo_create_result), []) =
     (Replayed 201 (idempotentReplayResponse ''t1'' None d), fst (snd demo_create_result), [])"
proof -
  obtain stream body where c: "createStreamHandler mem_ops demo_env True 60 ''t0'' demo_create ([], []) =
      (Created stream body, fst (snd demo_create_result), snd (snd demo_create_result))"
    using demo_created by (auto simp: demo_create_result_def)
  have d: "create_check (demo_env\<lparr>se_now := 1999\<rparr>) demo_create = Inr (''key-1'', demo_input ''10.5'')" by code_simp
  show ?thesis
    using create_replayed [OF c demo_check d, of True 60 "''t1''" "[]"]
    by (intro exI [of _ "stream_value stream"]) (simp add: demo_env_def demo_create_def)
qed

text \<open>A retry without a start time is refused. The normalised input takes the start time from the clock, so the same request sent again in a later second has another
  fingerprint: instead of the replay that the key is there for, the client gets a conflict \<open>for a different request payload\<close>.\<close>

theorem retry_without_start_time_refused:
  assumes "createStreamHandler mem_ops env ok ttl t req (s, rows) = (Created stream body, s', rows')"
    and "map_get (cr_body req) ''startTime'' = None" and "inj (se_sha env)" and "se_sha env' = se_sha env" and "se_idempotency_healthy env'"
    and "\<forall>k e. map_get s (mem_buildKey k (tenant_of (cr_principal req))) \<noteq> Some (None, e)"
    and "0 \<le> se_now env" and "se_now env div 1000 < se_now env' div 1000" and "se_now env' < se_now env + ttl * 1000"
  shows "createStreamHandler mem_ops env' ok' ttl' t' req (s', rows') =
     (Refused (Conflict_error ''Idempotency-Key has already been used for a different request payload''), s', rows')"
proof (rule created_cases [OF assms(1)])
  fix key input
  assume a: "create_check env req = Inr (key, input)" "body = successResponse t (cr_requestId req) (stream_value stream)"
    "s' = mem_set s key (tenant_of (cr_principal req))
       \<lparr>ie_version = ENVELOPE_VERSION, ie_requestFingerprint = fingerprintInput (se_sha env) input, ie_statusCode = 201, ie_body = body\<rparr> ttl (se_now env)"
  have i: "normalizeCreateInput (se_now env) (cr_body req) = Inr input" and k: "parseIdempotencyKeyHeader (cr_key req) = Inr key"
    using a(1) by (auto simp: create_check_def split: sum.splits if_splits)
  have st: "cf_startTime f = None" if "CreateStreamSchema (cr_body req) = Some f" for f
    using that assms(2) by (auto simp: CreateStreamSchema_def optional_field_def split: option.splits)
  have i': "normalizeCreateInput now (cr_body req) = Inr (input\<lparr>ai_startTime := now div 1000\<rparr>)" for now
    using i st by (auto simp: normalizeCreateInput_def split: option.splits sum.splits if_splits)
  have "input = input\<lparr>ai_startTime := se_now env div 1000\<rparr>" using i i' [of "se_now env"] by simp
  moreover have "fingerprintInput (se_sha env) (input\<lparr>ai_startTime := se_now env' div 1000\<rparr>) \<noteq> fingerprintInput (se_sha env) (input\<lparr>ai_startTime := se_now env div 1000\<rparr>)"
    using assms(7,8) by (intro fingerprint_differs [OF assms(3)]) auto
  ultimately have f: "fingerprintInput (se_sha env) (input\<lparr>ai_startTime := se_now env' div 1000\<rparr>) \<noteq> fingerprintInput (se_sha env) input" by metis
  have c: "create_check env' req = Inr (key, input\<lparr>ai_startTime := se_now env' div 1000\<rparr>)"
    by (simp add: create_check_def k assms(5) i')
  let ?e = "\<lparr>ie_version = ENVELOPE_VERSION, ie_requestFingerprint = fingerprintInput (se_sha env) input, ie_statusCode = 201, ie_body = body\<rparr>"
  have g: "mem_get s' key (tenant_of (cr_principal req)) (se_now env') = Found ?e"
    unfolding a(3) by (rule recorded) (use assms(6,9) in auto)
  have b: "ie_body ?e = successResponse t (cr_requestId req) (stream_value stream)" by (simp add: a(2))
  show ?thesis using lookup_recorded [OF g b, of t' "input\<lparr>ai_startTime := se_now env' div 1000\<rparr>"] f [symmetric]
    by (simp add: createStreamHandler_def c assms(4))
qed

theorem retry_without_start_time_refused_witness:
  "\<exists>stream body s rows. createStreamHandler mem_ops demo_env True 60 ''t0'' demo_create ([], []) = (Created stream body, s, rows) \<and>
     createStreamHandler mem_ops (demo_env\<lparr>se_now := 2000\<rparr>) True 60 ''t1'' demo_create (s, rows) =
       (Refused (Conflict_error ''Idempotency-Key has already been used for a different request payload''), s, rows)"
proof -
  obtain stream body s rows where c: "createStreamHandler mem_ops demo_env True 60 ''t0'' demo_create ([], []) = (Created stream body, s, rows)"
    using demo_created by (metis demo_create_result_def prod.collapse)
  have "createStreamHandler mem_ops (demo_env\<lparr>se_now := 2000\<rparr>) True 60 ''t1'' demo_create (s, rows) =
       (Refused (Conflict_error ''Idempotency-Key has already been used for a different request payload''), s, rows)"
    by (rule retry_without_start_time_refused [OF c]) (simp_all add: demo_create_def demo_body_def demo_env_def)
  with c show ?thesis by blast
qed

text \<open>The handler looks the key up and records the response, and claims nothing in between. Two requests with one key and different bodies
  that are handled at the same time both find the key absent and both insert a stream; the later recording overwrites the earlier one.\<close>

theorem concurrent_creations_both_insert:
  assumes "create_check env r1 = Inr (key, i1)" and "create_check env r2 = Inr (key, i2)" and "tenant_of (cr_principal r1) = tenant_of (cr_principal r2)"
    and "mem_get s key (tenant_of (cr_principal r1)) (se_now env) = Absent" and "se_keys env = Inr keys"
    and "se_sha env (input_text i1) \<noteq> se_sha env (input_text i2)"
    and "\<forall>i\<in>{i1, i2}. \<forall>r\<in>set rows. sr_id r \<noteq> ci_id (api_row (se_sha env) i) \<and> sr_transaction_hash r \<noteq> se_sha env (input_text i)"
  shows "create_lookup mem_ops env t r1 key i1 s = (None, s) \<and> create_lookup mem_ops env t r2 key i2 s = (None, s) \<and>
     (\<exists>a b. createStreamFromApi env True i1 rows = (Inr (True, rowToRecord a), rows @ [a]) \<and>
        createStreamFromApi env True i2 (rows @ [a]) = (Inr (True, rowToRecord b), rows @ [a, b]) \<and> sr_id a \<noteq> sr_id b)"
proof -
  let ?row = "\<lambda>i. new_row (se_hash env) keys (api_row (se_sha env) i) (se_now env)"
  have ids: "sr_id (?row i) = ci_id (api_row (se_sha env) i)" "sr_transaction_hash (?row i) = se_sha env (input_text i)" for i
    by (simp_all add: new_row_def api_row_def Let_def)
  have ne: "sr_id (?row i1) \<noteq> sr_id (?row i2)" using assms(6) unfolding ids by (simp add: api_row_def Let_def)
  have "createStreamFromApi env True i1 rows = (Inr (True, rowToRecord (?row i1)), rows @ [?row i1])"
    using assms(7) by (auto simp: createStreamFromApi_def upsertStream_def assms(5) insert_stream_def ids)
  moreover have "createStreamFromApi env True i2 (rows @ [?row i1]) = (Inr (True, rowToRecord (?row i2)), rows @ [?row i1, ?row i2])"
    using assms(6,7) ne by (auto simp: createStreamFromApi_def upsertStream_def assms(5) insert_stream_def ids)
  moreover have "create_lookup mem_ops env t r1 key i1 s = (None, s)" "create_lookup mem_ops env t r2 key i2 s = (None, s)"
    using assms(3,4) by (simp_all add: create_lookup_def)
  ultimately show ?thesis using ne by blast
qed

theorem concurrent_creations_both_insert_witness:
  "\<exists>a b. createStreamFromApi demo_env True (demo_input ''10.5'') [] = (Inr (True, rowToRecord a), [a]) \<and>
     createStreamFromApi demo_env True (demo_input ''20'') [a] = (Inr (True, rowToRecord b), [a, b]) \<and> sr_id a \<noteq> sr_id b"
proof -
  let ?r = "demo_create\<lparr>cr_body := map_set ''depositAmount'' (JString ''20'') demo_body\<rparr>"
  have c: "create_check demo_env ?r = Inr (''key-1'', demo_input ''20'')" by code_simp
  have "input_text (demo_input ''10.5'') \<noteq> input_text (demo_input ''20'')" by code_simp
  then have n: "se_sha demo_env (input_text (demo_input ''10.5'')) \<noteq> se_sha demo_env (input_text (demo_input ''20''))" by (simp add: demo_env_def)
  have k: "se_keys demo_env = Inr \<lparr>pk_current = ''k'', pk_previous = None\<rparr>" by (simp add: demo_env_def)
  have t: "tenant_of (cr_principal demo_create) = tenant_of (cr_principal ?r)" by simp
  have g: "mem_get [] ''key-1'' (tenant_of (cr_principal demo_create)) (se_now demo_env) = Absent" by (simp add: mem_get_def)
  from concurrent_creations_both_insert [OF demo_check c t g k n, of "[]"] show ?thesis by auto
qed

section \<open>Exporting\<close>

lemma export_page:
  assumes "findWithCursor coll hash keySet p f l c False = Inr pg" "cp_hasMore pg"
  shows "cp_streams pg \<noteq> []"
  by (rule page_of [OF assms(1)]) (use assms(2) in auto)

text \<open>An export is the traversal of the whole table in pages of 100, written page by page with the cursor of the last row after each page that has one, as long as the client stays and the bound on
  the pages is not reached; it ends when the traversal ends. The cursor after a page resumes exactly behind that page.\<close>

theorem export_is_traversal:
  "(\<exists>pages. fst (export_walk coll env n c (map (Pair False) ps)) = concat (map toExportNdjsonLines pages) \<and>
       concat pages = fst (traversal coll (se_hash env) (se_keys env) no_filter (Finite 100) c (take n ps))) \<and>
   (snd (traversal coll (se_hash env) (se_keys env) no_filter (Finite 100) c (take n ps)) \<longrightarrow>
       snd (export_walk coll env n c (map (Pair False) ps)) = Export_ended) \<and>
   (id_ok i \<longrightarrow> exportStreamsHandler coll env None (JString (encodeCursor i UNSCOPED_STREAM_CURSOR)) visits =
       Inr (export_walk coll env MAX_EXPORT_PAGES (Some i) visits))"
proof (intro conjI impI)
  have b: "parseCursorParam (JString (encodeCursor i UNSCOPED_STREAM_CURSOR)) = Inr (Some \<lparr>oc_lastId = i, oc_scope = Some UNSCOPED_STREAM_CURSOR\<rparr>)" if "id_ok i"
    using that by (simp add: parseCursorParam_def encodeCursor_not_blank decode_encode id_ok_def UNSCOPED_STREAM_CURSOR_def CURSOR_SCOPE_MAX_LENGTH_def)
  have "encodeCursor i UNSCOPED_STREAM_CURSOR \<noteq> []" using encodeCursor_not_blank [of i UNSCOPED_STREAM_CURSOR] by (auto simp: js_trim_def)
  then show "exportStreamsHandler coll env None (JString (encodeCursor i UNSCOPED_STREAM_CURSOR)) visits =
       Inr (export_walk coll env MAX_EXPORT_PAGES (Some i) visits)" if "id_ok i"
    using b [OF that] by (simp add: exportStreamsHandler_def present_def)
next
  let ?find = "\<lambda>p c. findWithCursor coll (se_hash env) (se_keys env) p no_filter (Finite 100) c False"
  have fetch: "fetchExportPage coll env p c = ?find p c" for p c by (simp add: fetchExportPage_def listStreams_def EXPORT_PAGE_SIZE_def)
  have "(\<exists>pages. fst (export_walk coll env n c (map (Pair False) ps)) = concat (map toExportNdjsonLines pages) \<and>
       concat pages = fst (traversal coll (se_hash env) (se_keys env) no_filter (Finite 100) c (take n ps))) \<and>
     (snd (traversal coll (se_hash env) (se_keys env) no_filter (Finite 100) c (take n ps)) \<longrightarrow>
       snd (export_walk coll env n c (map (Pair False) ps)) = Export_ended)"
  proof (induction ps arbitrary: n c)
    case Nil
    show ?case by (cases n) (auto intro: exI [of _ "[]"])
  next
    case (Cons p ps)
    show ?case
    proof (cases n)
      case 0
      then show ?thesis by (auto intro: exI [of _ "[]"])
    next
      case (Suc m)
      show ?thesis
      proof (cases "?find p c")
        case (Inl e)
        then show ?thesis using Suc by (auto simp: fetch withDbErrors_def intro: exI [of _ "[]"])
      next
        case (Inr pg)
        show ?thesis
        proof (cases "cp_hasMore pg")
          case False
          then show ?thesis using Suc Inr by (auto simp: fetch withDbErrors_def Let_def intro: exI [of _ "[cp_streams pg]"])
        next
          case True
          let ?c = "Some (sr_id (last (cp_streams pg)))"
          obtain pages where IH: "fst (export_walk coll env m ?c (map (Pair False) ps)) = concat (map toExportNdjsonLines pages)"
            "concat pages = fst (traversal coll (se_hash env) (se_keys env) no_filter (Finite 100) ?c (take m ps))"
            "snd (traversal coll (se_hash env) (se_keys env) no_filter (Finite 100) ?c (take m ps)) \<longrightarrow>
               snd (export_walk coll env m ?c (map (Pair False) ps)) = Export_ended"
            using Cons.IH [of m ?c] by blast
          have "cp_streams pg \<noteq> []" by (rule export_page [OF Inr True])
          then show ?thesis using Suc Inr True IH
            by (auto simp: fetch withDbErrors_def Let_def split: prod.splits intro!: exI [of _ "cp_streams pg # pages"])
        qed
      qed
    qed
  qed
  then show "\<exists>pages. fst (export_walk coll env n c (map (Pair False) ps)) = concat (map toExportNdjsonLines pages) \<and>
       concat pages = fst (traversal coll (se_hash env) (se_keys env) no_filter (Finite 100) c (take n ps))"
    "snd (traversal coll (se_hash env) (se_keys env) no_filter (Finite 100) c (take n ps)) \<Longrightarrow>
       snd (export_walk coll env n c (map (Pair False) ps)) = Export_ended" by blast+
qed

theorem export_is_traversal_witness:
  "exportStreamsHandler (\<lambda>i. i) demo_env None (JString (encodeCursor ''a'' UNSCOPED_STREAM_CURSOR)) [(False, Some [demo_stream ''b'' ''s''])] =
     Inr (export_walk (\<lambda>i. i) demo_env MAX_EXPORT_PAGES (Some ''a'') [(False, Some [demo_stream ''b'' ''s''])])"
proof -
  have "id_ok ''a''" by code_simp
  then show ?thesis using export_is_traversal [of "\<lambda>i. i" demo_env 0 None "[]" "''a''"] by blast
qed

end
