(* ===== verification/Csrf.thy ===== *)
theory Csrf
  imports Opaque_Cursor
begin

text \<open>
  The double-submit cookie of \<open>src/middleware/csrf.ts\<close>, which stands in front of the streams routes: the cookie parser, the cookie that carries the
  token and the middleware. \<open>hmac\<close> is the keyed hash under which the tokens are compared. A percent-encoded text that decodes to code units
  above 255 is outside the model and kept as it is, as the parser keeps a malformed one.

  The lemmas: a mutating request with cookies passes exactly when the token of its cookie is well formed and is the token of its header, and
  the cookie that is set for a token gives the token back.
\<close>

section \<open>Percent encoding\<close>

definition upper_hex :: "nat \<Rightarrow> char" where
  "upper_hex d = (if d < 10 then char_of (48 + d) else char_of (55 + d))"

definition uri_plain :: "char \<Rightarrow> bool" where
  "uri_plain c \<longleftrightarrow> is_alnum c \<or> c \<in> set [CHR ''-'', CHR ''_'', CHR ''.'', CHR ''!'', CHR ''~'', CHR ''*'', CHR 0x27, CHR ''('', CHR '')'']"

definition uri_escape :: "char \<Rightarrow> string" where
  "uri_escape c =
     (if uri_plain c then [c] else concat (map (\<lambda>b. [CHR ''%'', upper_hex (b div 16), upper_hex (b mod 16)]) (utf8_bytes [c])))"

definition encodeURIComponent :: "string \<Rightarrow> string" where
  "encodeURIComponent s = concat (map uri_escape s)"

fun uri_bytes :: "string \<Rightarrow> nat list option" where
  "uri_bytes [] = Some []"
| "uri_bytes (c # cs) =
     (if c = CHR ''%''
      then (case cs of
              a # b # r \<Rightarrow>
                (case (hex_digit_val a, hex_digit_val b) of
                   (Some x, Some y) \<Rightarrow> map_option ((#) (16 * x + y)) (uri_bytes r)
                 | _ \<Rightarrow> None)
            | _ \<Rightarrow> None)
      else map_option ((@) (utf8_bytes [c])) (uri_bytes cs))"

definition decodeURIComponent :: "string \<Rightarrow> string option" where
  "decodeURIComponent s = Option.bind (uri_bytes s) utf8_text"

section \<open>Cookies\<close>

definition CSRF_COOKIE_NAME :: string where "CSRF_COOKIE_NAME = ''fluxora_csrf''"
definition CSRF_TOKEN_MAX_LENGTH :: nat where "CSRF_TOKEN_MAX_LENGTH = 512"

definition parse_pair :: "(string, string) jsmap \<Rightarrow> string \<Rightarrow> (string, string) jsmap" where
  "parse_pair cookies pair =
     (case index_of (CHR ''='') pair of
        None \<Rightarrow> cookies
      | Some idx \<Rightarrow>
          if idx = 0 then cookies
          else let key = js_trim (js_slice 0 idx pair); raw = js_trim (drop (idx + 1) pair)
               in if key = [] then cookies else map_set key (nullish (decodeURIComponent raw) raw) cookies)"

definition parseCookies :: "string option \<Rightarrow> (string, string) jsmap" where
  "parseCookies cookieHeader =
     (if nullish cookieHeader [] = [] then [] else foldl parse_pair [] (split_on (CHR '';'') (the cookieHeader)))"

definition isCookieAuthenticated :: "string option \<Rightarrow> bool" where
  "isCookieAuthenticated cookieHeader \<longleftrightarrow> js_trim (nullish cookieHeader []) \<noteq> []"

definition setCsrfCookie :: "string \<Rightarrow> string \<Rightarrow> bool \<Rightarrow> string \<Rightarrow> string" where
  "setCsrfCookie token sameSite secure path =
     join ''; '' ([CSRF_COOKIE_NAME @ ''='' @ encodeURIComponent token, ''Path='' @ path, ''SameSite='' @ sameSite] @ (if secure then [''Secure''] else []))"

section \<open>The middleware\<close>

definition control_char :: "char \<Rightarrow> bool" where
  "control_char c \<longleftrightarrow> (of_char c :: nat) \<le> 0x1F \<or> (of_char c :: nat) = 0x7F"

definition isValidCsrfToken :: "string \<Rightarrow> bool" where
  "isValidCsrfToken token \<longleftrightarrow> token \<noteq> [] \<and> length token \<le> CSRF_TOKEN_MAX_LENGTH \<and> \<not> list_ex control_char token"

definition safeCompareCsrfTokens :: "(string \<Rightarrow> string) \<Rightarrow> string \<Rightarrow> string \<Rightarrow> bool" where
  "safeCompareCsrfTokens hmac a b \<longleftrightarrow> a \<noteq> [] \<and> b \<noteq> [] \<and> hmac a = hmac b"

definition upper_char :: "char \<Rightarrow> char" where
  "upper_char c = (let n = of_char c :: nat in if 97 \<le> n \<and> n \<le> 122 then char_of (n - 32) else c)"

datatype csrf_result = Csrf_next | Csrf_refused string

text \<open>\<open>header\<close> are the values of the header, none when it is absent.\<close>

definition csrfMiddleware :: "(string \<Rightarrow> string) \<Rightarrow> string \<Rightarrow> string option \<Rightarrow> string list \<Rightarrow> csrf_result" where
  "csrfMiddleware hmac meth cookieHeader header =
     (if map upper_char meth \<notin> {''POST'', ''PUT'', ''PATCH'', ''DELETE''} then Csrf_next
      else if \<not> isCookieAuthenticated cookieHeader then Csrf_next
      else let cookieToken = js_trim (nullish (map_get (parseCookies cookieHeader) CSRF_COOKIE_NAME) []);
               headerToken = js_trim (if header = [] then [] else hd header)
           in if cookieToken = [] \<or> headerToken = [] then Csrf_refused ''CSRF token missing''
              else if \<not> isValidCsrfToken cookieToken \<or> \<not> isValidCsrfToken headerToken then Csrf_refused ''CSRF token malformed''
              else if \<not> safeCompareCsrfTokens hmac cookieToken headerToken then Csrf_refused ''CSRF token mismatch''
              else Csrf_next)"

section \<open>Encoding and decoding\<close>

lemma upper_hex_val: "d < 16 \<Longrightarrow> hex_digit_val (upper_hex d) = Some d"
  by (auto simp: hex_digit_val_def upper_hex_def Let_def)

lemma uri_bytes_escaped:
  "\<forall>b\<in>set bs. b < 256 \<Longrightarrow>
     uri_bytes (concat (map (\<lambda>b. [CHR ''%'', upper_hex (b div 16), upper_hex (b mod 16)]) bs) @ t) = map_option ((@) bs) (uri_bytes t)"
proof (induction bs)
  case (Cons b bs)
  then have "hex_digit_val (upper_hex (b div 16)) = Some (b div 16)" "hex_digit_val (upper_hex (b mod 16)) = Some (b mod 16)"
    by (simp_all add: upper_hex_val div_less_iff_less_mult)
  then show ?case using Cons by (simp add: option.map_comp comp_def)
qed (cases "uri_bytes t"; simp)

lemma uri_plain_not_percent: "uri_plain c \<Longrightarrow> c \<noteq> CHR ''%''"
  by (auto simp: uri_plain_def is_alnum_def is_digit_def)

lemma utf8_bytes_append: "utf8_bytes (s @ t) = utf8_bytes s @ utf8_bytes t"
  by (induction s) (simp_all add: Let_def)

lemma uri_bytes_encode: "uri_bytes (encodeURIComponent s) = Some (utf8_bytes s)"
proof (induction s)
  case (Cons c s)
  have u: "utf8_bytes (c # s) = utf8_bytes [c] @ utf8_bytes s" using utf8_bytes_append [of "[c]" s] by simp
  show ?case
  proof (cases "uri_plain c")
    case True
    then show ?thesis using Cons.IH uri_plain_not_percent [OF True] unfolding u by (simp add: encodeURIComponent_def uri_escape_def)
  next
    case False
    have "\<forall>b\<in>set (utf8_bytes [c]). b < 256" using utf8_bytes_small by blast
    then show ?thesis using Cons.IH False uri_bytes_escaped [of "utf8_bytes [c]" "encodeURIComponent s"] unfolding u
      by (simp add: encodeURIComponent_def uri_escape_def del: utf8_bytes.simps(2))
  qed
qed (simp add: encodeURIComponent_def)

lemma decode_encode_uri: "decodeURIComponent (encodeURIComponent s) = Some s"
  by (simp add: decodeURIComponent_def uri_bytes_encode utf8_roundtrip)

lemma upper_hex_plain: "d < 16 \<Longrightarrow> uri_plain (upper_hex d)"
  by (auto simp: uri_plain_def is_alnum_def is_digit_def upper_hex_def)

lemma encoded_chars: "c \<in> set (encodeURIComponent s) \<Longrightarrow> uri_plain c \<or> c = CHR ''%''"
proof -
  have "b < 256 \<Longrightarrow> uri_plain (upper_hex (b div 16)) \<and> uri_plain (upper_hex (b mod 16))" for b :: nat
    by (simp add: upper_hex_plain div_less_iff_less_mult)
  then have "c \<in> set (uri_escape a) \<Longrightarrow> uri_plain c \<or> c = CHR ''%''" for a
    using utf8_bytes_small [of _ "[a]"] by (auto simp: uri_escape_def simp del: utf8_bytes.simps(2) split: if_splits)
  then show "c \<in> set (encodeURIComponent s) \<Longrightarrow> uri_plain c \<or> c = CHR ''%''" by (auto simp: encodeURIComponent_def)
qed

section \<open>The double submit\<close>

lemma token_cookie:
  "parseCookies (Some (CSRF_COOKIE_NAME @ ''='' @ encodeURIComponent token)) = [(CSRF_COOKIE_NAME, token)]"
proof -
  let ?e = "encodeURIComponent token"
  have not_in: "c \<notin> set ?e" if "\<not> uri_plain c" "c \<noteq> CHR ''%''" for c using encoded_chars that by blast
  have semi: "CHR '';'' \<notin> set ?e" by (rule not_in) (simp_all add: uri_plain_def is_alnum_def is_digit_def)
  have "\<not> is_space c" if "c \<in> set ?e" for c
    using encoded_chars [OF that] by (auto simp: uri_plain_def is_alnum_def is_digit_def is_space_def)
  note plain = this
  have drop: "\<forall>c\<in>set xs. \<not> is_space c \<Longrightarrow> dropWhile is_space xs = xs" for xs by (cases xs) simp_all
  have "js_trim ?e = ?e" using drop [of ?e] drop [of "rev ?e"] plain by (simp add: js_trim_def)
  moreover have "split_on (CHR '';'') (CSRF_COOKIE_NAME @ ''='' @ ?e) = [CSRF_COOKIE_NAME @ ''='' @ ?e]"
    using semi by (intro split_on_notin) (auto simp: CSRF_COOKIE_NAME_def)
  moreover have "index_of (CHR ''='') (CSRF_COOKIE_NAME @ ''='' @ ?e) = Some 12" by (simp add: CSRF_COOKIE_NAME_def)
  moreover have "js_trim (js_slice 0 12 (CSRF_COOKIE_NAME @ ''='' @ ?e)) = CSRF_COOKIE_NAME"
    by (simp add: CSRF_COOKIE_NAME_def js_slice_def js_trim_def is_space_def)
  moreover have "drop 13 (CSRF_COOKIE_NAME @ ''='' @ ?e) = ?e" by (simp add: CSRF_COOKIE_NAME_def)
  ultimately show ?thesis
    by (simp add: parseCookies_def parse_pair_def Let_def decode_encode_uri) (simp add: CSRF_COOKIE_NAME_def)
qed

text \<open>The double submit. A mutating request that carries a cookie passes exactly when the trimmed token of its \<open>fluxora_csrf\<close> cookie is well formed and is the trimmed value of
  the header (the keyed hash being free of collisions), whatever other credentials it has; every other method and every
  request without cookies passes. A browser that sends back the cookie set for a token, with the token in the header, passes.\<close>

theorem csrf_double_submit:
  assumes "inj hmac"
  shows "(csrfMiddleware hmac meth cookie header = Csrf_next \<longleftrightarrow>
       map upper_char meth \<notin> {''POST'', ''PUT'', ''PATCH'', ''DELETE''} \<or> \<not> isCookieAuthenticated cookie \<or>
       (\<exists>raw h. map_get (parseCookies cookie) CSRF_COOKIE_NAME = Some raw \<and> header \<noteq> [] \<and> h = hd header \<and>
          js_trim raw = js_trim h \<and> isValidCsrfToken (js_trim raw))) \<and>
     (isValidCsrfToken (js_trim token) \<longrightarrow>
       csrfMiddleware hmac meth (Some (CSRF_COOKIE_NAME @ ''='' @ encodeURIComponent token)) [token] = Csrf_next)"
proof
  let ?raw = "map_get (parseCookies cookie) CSRF_COOKIE_NAME"
  have e: "js_trim [] = []" by (simp add: js_trim_def)
  show "csrfMiddleware hmac meth cookie header = Csrf_next \<longleftrightarrow>
       map upper_char meth \<notin> {''POST'', ''PUT'', ''PATCH'', ''DELETE''} \<or> \<not> isCookieAuthenticated cookie \<or>
       (\<exists>raw h. map_get (parseCookies cookie) CSRF_COOKIE_NAME = Some raw \<and> header \<noteq> [] \<and> h = hd header \<and>
          js_trim raw = js_trim h \<and> isValidCsrfToken (js_trim raw))"
    using assms by (cases ?raw; cases header)
      (auto simp: csrfMiddleware_def Let_def e safeCompareCsrfTokens_def isValidCsrfToken_def inj_eq)
  show "isValidCsrfToken (js_trim token) \<longrightarrow>
       csrfMiddleware hmac meth (Some (CSRF_COOKIE_NAME @ ''='' @ encodeURIComponent token)) [token] = Csrf_next"
    unfolding csrfMiddleware_def token_cookie
    by (auto simp: Let_def safeCompareCsrfTokens_def isValidCsrfToken_def)
qed

theorem csrf_double_submit_witness:
  "csrfMiddleware (\<lambda>t. t) ''POST'' (Some (CSRF_COOKIE_NAME @ ''='' @ encodeURIComponent ''a b'')) [''a b''] = Csrf_next \<and>
   csrfMiddleware (\<lambda>t. t) ''POST'' (Some ''sid=1'') [''x''] \<noteq> Csrf_next"
proof -
  have i: "inj (\<lambda>t :: string. t)" by (simp add: inj_on_def)
  have v: "isValidCsrfToken (js_trim ''a b'')" by code_simp
  have "isCookieAuthenticated (Some ''sid=1'')" "map_get (parseCookies (Some ''sid=1'')) CSRF_COOKIE_NAME = None"
    "map upper_char ''POST'' = ''POST''" by code_simp+
  then show ?thesis
    using csrf_double_submit [OF i, of "''POST''" "Some ''sid=1''" "[''x'']" "''a b''"] v by simp
qed

end
